(* ===== verification/T2u_Prelude.thy ===== *)
theory T2u_Prelude
  imports Main "HOL-Library.Word" "HOL-Library.Monad_Syntax"
begin

text \<open>
  Shared vocabulary of the development: the machine integer types of the C code, pointers
  as optional addresses, and the generic facts on the option monad that the component
  proofs use.

  Throughout, a computation that the C code may not complete has an option type:
  \<^term>\<open>None\<close> stands for an execution with no defined continuation (a NULL or dangling
  pointer is dereferenced, an \<open>assert\<close> fails, memory outside an object is accessed, or a
  loop never ends), and \<^term>\<open>Some\<close> carries the result.
\<close>

type_synonym byte = "8 word"
type_synonym u16 = "16 word"
type_synonym u32 = "32 word"
type_synonym u64 = "64 word"

type_synonym addr = nat
type_synonym ptr = "nat option"

abbreviation NULL :: "'a option" where
  "NULL \<equiv> None"

text \<open>The collections that the component theories extend.\<close>

named_theorems rb_defs "definitions of the pointer level red-black tree operations"
named_theorems wire_simps "reading back what the message encoders wrote"
named_theorems t2u_defs "definitions of the handlers over the program state"
named_theorems frame_simps "what an operation leaves unchanged"

lemma bind_eq_SomeE:
  assumes "Option.bind m f = Some y"
  obtains x where "m = Some x" and "f x = Some y"
  using assms by (cases m) auto

lemma bind_Some_iff: "Option.bind m f = Some y \<longleftrightarrow> (\<exists>x. m = Some x \<and> f x = Some y)"
  by (cases m) auto

lemma option_Some_eq_fst: "map_option fst x = Some a \<longleftrightarrow> (\<exists>b. x = Some (a, b))"
  by (cases x) auto

text \<open>Counters of the C code that stay in range.\<close>

lemma unat_of_nat_small: "n < 2 ^ LENGTH('a::len) \<Longrightarrow> unat (of_nat n :: 'a word) = n"
  by (simp add: unat_of_nat)

lemma unat_add_1: "unat x + 1 < 2 ^ LENGTH('a::len) \<Longrightarrow> unat (x + 1 :: 'a word) = unat x + 1"
  using unat_of_nat_small [of "unat x + 1", where 'a = 'a] by (simp add: add.commute)

lemma unat_sub_1: "0 < unat x \<Longrightarrow> unat (x - 1 :: 'a::len word) = unat x - 1"
  by (metis unat_minus_one unat_0 less_irrefl)

text \<open>An assertion of the C code: execution goes on only if the condition holds.\<close>

definition assert_that :: "bool \<Rightarrow> unit option" where
  "assert_that b = (if b then Some () else None)"

lemma assert_that_simps [simp]:
  "assert_that True = Some ()" "assert_that False = None"
  "assert_that b = Some u \<longleftrightarrow> b"
  by (auto simp: assert_that_def)

section \<open>Comparison functions\<close>

text \<open>What the trees rely on: a comparison function agrees with the order of the keys.\<close>

definition cmp_ok :: "('k::linorder \<Rightarrow> 'k \<Rightarrow> int) \<Rightarrow> bool" where
  "cmp_ok cmp \<longleftrightarrow> (\<forall>a b. (cmp a b = 0 \<longleftrightarrow> a = b) \<and> (cmp a b < 0 \<longleftrightarrow> a < b))"

lemma cmp_okD:
  assumes "cmp_ok cmp"
  shows "a < b \<Longrightarrow> cmp a b < 0" "b < a \<Longrightarrow> cmp a b > 0"
proof -
  assume "b < a"
  then have "cmp a b \<noteq> 0" "\<not> cmp a b < 0" using assms by (auto simp: cmp_ok_def)
  then show "cmp a b > 0" by linarith
qed (use assms in \<open>auto simp: cmp_ok_def\<close>)

text \<open>Where insertion sort puts an element.\<close>

lemma insort_mid:
  fixes f :: "'e \<Rightarrow> 'k::linorder"
  assumes "\<forall>x \<in> set us. f x < f a" "\<forall>x \<in> set vs. f a < f x"
  shows "insort_key f a (us @ vs) = us @ a # vs"
proof -
  have v: "insort_key f a vs = a # vs" using assms(2) by (cases vs) auto
  from assms(1) show ?thesis
  proof (induction us)
    case (Cons u us)
    then show ?case by (auto simp: not_le)
  qed (simp add: v)
qed

end
