(* ===== verification/Rbtree.thy ===== *)
theory Rbtree
  imports T2u_Prelude
begin

text \<open>
  The red-black tree of src/t2u_rbtree.c at pointer level. A tree owns the nodes that
  \<open>rbtree_createnode\<close> allocated for it: \<open>rb_nodes\<close> maps the address of an allocated node
  to its contents, \<open>rb_fresh\<close> is the allocator's next address. Every operation below is the
  C function of the same name (or the name without leading underscores), statement by
  statement; \<open>None\<close> is a NULL or dangling dereference, a failed \<open>assert\<close>, or a loop that does
  not end. The mutable node arguments of the C code are passed as pointers into \<open>rb_nodes\<close>.
\<close>

section \<open>Nodes and trees\<close>

datatype rb_color = RB_BLACK | RB_RED

record ('k, 'd) rbtree_node =
  rb_parent :: ptr
  rb_left :: ptr
  rb_right :: ptr
  rb_color :: rb_color
  rb_key :: 'k
  rb_data :: 'd

record ('k, 'd) rbtree =
  rb_root :: ptr
  rb_compare :: "'k \<Rightarrow> 'k \<Rightarrow> int"
  rb_nodes :: "addr \<Rightarrow> ('k, 'd) rbtree_node option"
  rb_fresh :: addr

section \<open>Node access\<close>

definition deref :: "('k, 'd) rbtree \<Rightarrow> ptr \<Rightarrow> ('k, 'd) rbtree_node option" where
  "deref t p = (case p of None \<Rightarrow> None | Some a \<Rightarrow> rb_nodes t a)"

definition upd_node ::
  "(('k, 'd) rbtree_node \<Rightarrow> ('k, 'd) rbtree_node) \<Rightarrow> ptr \<Rightarrow> ('k, 'd) rbtree \<Rightarrow> ('k, 'd) rbtree option" where
  "upd_node f p t =
     (case p of
        None \<Rightarrow> None
      | Some a \<Rightarrow>
          (case rb_nodes t a of
             None \<Rightarrow> None
           | Some n \<Rightarrow> Some (t\<lparr>rb_nodes := (rb_nodes t)(a \<mapsto> f n)\<rparr>)))"

definition get_color :: "('k, 'd) rbtree \<Rightarrow> ptr \<Rightarrow> rb_color option" where
  "get_color t node = (if node = NULL then Some RB_BLACK else map_option rb_color (deref t node))"

definition set_color :: "rb_color \<Rightarrow> ptr \<Rightarrow> ('k, 'd) rbtree \<Rightarrow> ('k, 'd) rbtree option" where
  "set_color c node t = upd_node (\<lambda>n. n\<lparr>rb_color := c\<rparr>) node t"

definition get_parent :: "('k, 'd) rbtree \<Rightarrow> ptr \<Rightarrow> ptr option" where
  "get_parent t node = map_option rb_parent (deref t node)"

definition set_parent :: "ptr \<Rightarrow> ptr \<Rightarrow> ('k, 'd) rbtree \<Rightarrow> ('k, 'd) rbtree option" where
  "set_parent parent node t = upd_node (\<lambda>n. n\<lparr>rb_parent := parent\<rparr>) node t"

definition set_left :: "ptr \<Rightarrow> ptr \<Rightarrow> ('k, 'd) rbtree \<Rightarrow> ('k, 'd) rbtree option" where
  "set_left child node t = upd_node (\<lambda>n. n\<lparr>rb_left := child\<rparr>) node t"

definition set_right :: "ptr \<Rightarrow> ptr \<Rightarrow> ('k, 'd) rbtree \<Rightarrow> ('k, 'd) rbtree option" where
  "set_right child node t = upd_node (\<lambda>n. n\<lparr>rb_right := child\<rparr>) node t"

definition is_root :: "('k, 'd) rbtree \<Rightarrow> ptr \<Rightarrow> bool option" where
  "is_root t node = do { p \<leftarrow> get_parent t node; Some (p = NULL) }"

definition sibling :: "('k, 'd) rbtree \<Rightarrow> ptr \<Rightarrow> ptr option" where
  "sibling t node = do {
     n \<leftarrow> deref t node;
     pn \<leftarrow> deref t (rb_parent n);
     Some (if node = rb_left pn then rb_right pn else rb_left pn) }"

section \<open>Minimum, maximum, successor, predecessor\<close>

partial_function (option) get_min :: "('k, 'd) rbtree \<Rightarrow> ptr \<Rightarrow> ptr option" where
  "get_min t node = do {
     n \<leftarrow> deref t node;
     if rb_left n \<noteq> NULL then get_min t (rb_left n) else Some node }"

partial_function (option) get_max :: "('k, 'd) rbtree \<Rightarrow> ptr \<Rightarrow> ptr option" where
  "get_max t node = do {
     n \<leftarrow> deref t node;
     if rb_right n \<noteq> NULL then get_max t (rb_right n) else Some node }"

definition rbtree_min :: "('k, 'd) rbtree \<Rightarrow> ptr option" where
  "rbtree_min t = (if rb_root t = NULL then Some NULL else get_min t (rb_root t))"

definition rbtree_max :: "('k, 'd) rbtree \<Rightarrow> ptr option" where
  "rbtree_max t = (if rb_root t = NULL then Some NULL else get_max t (rb_root t))"

text \<open>The loop of \<open>rbtree_prev\<close>: climb while the node is a left child.\<close>

partial_function (option) prev_up :: "('k, 'd) rbtree \<Rightarrow> ptr \<Rightarrow> ptr option" where
  "prev_up t node = do {
     parent \<leftarrow> get_parent t node;
     if parent = NULL then Some parent
     else do {
       pn \<leftarrow> deref t parent;
       if rb_left pn = node then prev_up t parent else Some parent } }"

definition rbtree_prev :: "('k, 'd) rbtree \<Rightarrow> ptr \<Rightarrow> ptr option" where
  "rbtree_prev t node = do {
     n \<leftarrow> deref t node;
     if rb_left n \<noteq> NULL then get_max t (rb_left n) else prev_up t node }"

text \<open>The loop of \<open>rbtree_next\<close>: climb while the node is a right child.\<close>

partial_function (option) next_up :: "('k, 'd) rbtree \<Rightarrow> ptr \<Rightarrow> ptr option" where
  "next_up t node = do {
     parent \<leftarrow> get_parent t node;
     if parent = NULL then Some parent
     else do {
       pn \<leftarrow> deref t parent;
       if rb_right pn = node then next_up t parent else Some parent } }"

definition rbtree_next :: "('k, 'd) rbtree \<Rightarrow> ptr \<Rightarrow> ptr option" where
  "rbtree_next t node = do {
     n \<leftarrow> deref t node;
     if rb_right n \<noteq> NULL then get_min t (rb_right n) else next_up t node }"

section \<open>Creation and lookup\<close>

text \<open>
  \<open>rbtree_createnode\<close>: \<open>mem\<close> says whether \<open>malloc\<close> succeeds. The colour of a new node is
  not set by the C code; it is written before it is first read, and modelled as black.
\<close>

definition rbtree_createnode ::
  "bool \<Rightarrow> 'k \<Rightarrow> 'd \<Rightarrow> ('k, 'd) rbtree \<Rightarrow> ptr \<times> ('k, 'd) rbtree" where
  "rbtree_createnode mem key data t =
     (if \<not> mem then (NULL, t)
      else (Some (rb_fresh t),
            t\<lparr>rb_nodes := (rb_nodes t)(rb_fresh t \<mapsto>
                 \<lparr>rb_parent = NULL, rb_left = NULL, rb_right = NULL,
                  rb_color = RB_BLACK, rb_key = key, rb_data = data\<rparr>),
              rb_fresh := Suc (rb_fresh t)\<rparr>))"

definition compare_default :: "'k::linorder \<Rightarrow> 'k \<Rightarrow> int" where
  "compare_default key_a key_b =
     (if key_a > key_b then 1 else if key_a = key_b then 0 else - 1)"

definition rbtree_init :: "('k::linorder \<Rightarrow> 'k \<Rightarrow> int) option \<Rightarrow> ('k, 'd) rbtree" where
  "rbtree_init compare =
     \<lparr>rb_root = NULL,
      rb_compare = (case compare of None \<Rightarrow> compare_default | Some c \<Rightarrow> c),
      rb_nodes = (\<lambda>_. None), rb_fresh = 0\<rparr>"

text \<open>
  The loop of \<open>do_lookup\<close>. The result is the node found (or NULL) and the last value of
  \<open>*pparent\<close>.
\<close>

partial_function (option) lookup_loop ::
  "('k, 'd) rbtree \<Rightarrow> 'k \<Rightarrow> ptr \<Rightarrow> ptr \<Rightarrow> (ptr \<times> ptr) option" where
  "lookup_loop t key current pparent =
     (if current = NULL then Some (NULL, pparent)
      else do {
        n \<leftarrow> deref t current;
        let ret = rb_compare t (rb_key n) key;
        if ret = 0 then Some (current, pparent)
        else if ret < 0 then lookup_loop t key (rb_right n) current
        else lookup_loop t key (rb_left n) current })"

definition do_lookup :: "'k \<Rightarrow> ('k, 'd) rbtree \<Rightarrow> (ptr \<times> ptr) option" where
  "do_lookup key t = lookup_loop t key (rb_root t) NULL"

definition rbtree_lookup :: "('k, 'd) rbtree \<Rightarrow> 'k \<Rightarrow> 'd option option" where
  "rbtree_lookup t key = do {
     (node, _) \<leftarrow> do_lookup key t;
     if node = NULL then Some None else do { n \<leftarrow> deref t node; Some (Some (rb_data n)) } }"

section \<open>Rotations\<close>

definition set_child :: "('k, 'd) rbtree \<Rightarrow> ptr \<Rightarrow> ptr \<Rightarrow> ('k, 'd) rbtree option" where
  "set_child t node child = do {
     n \<leftarrow> deref t node;
     c \<leftarrow> deref t child;
     let ret = rb_compare t (rb_key n) (rb_key c);
     _ \<leftarrow> assert_that (ret \<noteq> 0);
     if ret > 0 then set_left child node t else set_right child node t }"

definition rotate_left :: "ptr \<Rightarrow> ('k, 'd) rbtree \<Rightarrow> ('k, 'd) rbtree option" where
  "rotate_left node t = do {
     n \<leftarrow> deref t node;
     let p = node;
     let q = rb_right n;
     let parent = rb_parent n;
     t \<leftarrow> (if parent = NULL then Some (t\<lparr>rb_root := q\<rparr>)
           else do {
             pn \<leftarrow> deref t parent;
             if rb_left pn = p then set_left q parent t else set_right q parent t });
     t \<leftarrow> set_parent parent q t;
     t \<leftarrow> set_parent q p t;
     qn \<leftarrow> deref t q;
     t \<leftarrow> set_right (rb_left qn) p t;
     t \<leftarrow> (if rb_left qn \<noteq> NULL then set_parent p (rb_left qn) t else Some t);
     set_left p q t }"

definition rotate_right :: "ptr \<Rightarrow> ('k, 'd) rbtree \<Rightarrow> ('k, 'd) rbtree option" where
  "rotate_right node t = do {
     n \<leftarrow> deref t node;
     let p = node;
     let q = rb_left n;
     let parent = rb_parent n;
     root \<leftarrow> is_root t p;
     t \<leftarrow> (if \<not> root then do {
             pn \<leftarrow> deref t parent;
             if rb_left pn = p then set_left q parent t else set_right q parent t }
           else Some (t\<lparr>rb_root := q\<rparr>));
     t \<leftarrow> set_parent parent q t;
     t \<leftarrow> set_parent q p t;
     qn \<leftarrow> deref t q;
     t \<leftarrow> set_left (rb_right qn) p t;
     t \<leftarrow> (if rb_right qn \<noteq> NULL then set_parent p (rb_right qn) t else Some t);
     set_right p q t }"

section \<open>Insertion\<close>

text \<open>The \<open>while\<close> loop of \<open>__rbtree_insert\<close>.\<close>

partial_function (option) insert_loop ::
  "ptr \<Rightarrow> ('k, 'd) rbtree \<Rightarrow> ('k, 'd) rbtree option" where
  "insert_loop node t = do {
     parent \<leftarrow> get_parent t node;
     if parent = NULL then Some t
     else do {
       pn \<leftarrow> deref t parent;
       if rb_color pn \<noteq> RB_RED then Some t
       else do {
         let grandpa = rb_parent pn;
         gn \<leftarrow> deref t grandpa;
         if parent = rb_left gn then do {
           let uncle = rb_right gn;
           uc \<leftarrow> get_color t uncle;
           if uncle \<noteq> NULL \<and> uc = RB_RED then do {
             t \<leftarrow> set_color RB_RED grandpa t;
             t \<leftarrow> set_color RB_BLACK parent t;
             t \<leftarrow> set_color RB_BLACK uncle t;
             insert_loop grandpa t }
           else do {
             (node, parent, t) \<leftarrow>
               (if node = rb_right pn then do {
                  t \<leftarrow> rotate_left parent t;
                  p' \<leftarrow> get_parent t parent;
                  Some (parent, p', t) }
                else Some (node, parent, t));
             t \<leftarrow> set_color RB_BLACK parent t;
             t \<leftarrow> set_color RB_RED grandpa t;
             t \<leftarrow> rotate_right grandpa t;
             insert_loop node t } }
         else do {
           let uncle = rb_left gn;
           uc \<leftarrow> get_color t uncle;
           if uncle \<noteq> NULL \<and> uc = RB_RED then do {
             t \<leftarrow> set_color RB_RED grandpa t;
             t \<leftarrow> set_color RB_BLACK parent t;
             t \<leftarrow> set_color RB_BLACK uncle t;
             insert_loop grandpa t }
           else do {
             (node, parent, t) \<leftarrow>
               (if node = rb_left pn then do {
                  t \<leftarrow> rotate_right parent t;
                  p' \<leftarrow> get_parent t parent;
                  Some (parent, p', t) }
                else Some (node, parent, t));
             t \<leftarrow> set_color RB_BLACK parent t;
             t \<leftarrow> set_color RB_RED grandpa t;
             t \<leftarrow> rotate_left grandpa t;
             insert_loop node t } } } } }"

text \<open>\<open>__rbtree_insert\<close>: the result is the node that already has the key, or NULL.\<close>

definition rbtree_insert_node ::
  "ptr \<Rightarrow> ('k, 'd) rbtree \<Rightarrow> (ptr \<times> ('k, 'd) rbtree) option" where
  "rbtree_insert_node node t = do {
     n \<leftarrow> deref t node;
     (samenode, parent) \<leftarrow> do_lookup (rb_key n) t;
     if samenode \<noteq> NULL then Some (samenode, t)
     else do {
       t \<leftarrow> set_right NULL node t;
       t \<leftarrow> set_left NULL node t;
       t \<leftarrow> set_color RB_RED node t;
       t \<leftarrow> set_parent parent node t;
       t \<leftarrow> (if parent = NULL then Some (t\<lparr>rb_root := node\<rparr>) else set_child t parent node);
       t \<leftarrow> insert_loop node t;
       t \<leftarrow> set_color RB_BLACK (rb_root t) t;
       Some (NULL, t) } }"

definition rbtree_insert ::
  "bool \<Rightarrow> ('k, 'd) rbtree \<Rightarrow> 'k \<Rightarrow> 'd \<Rightarrow> (int \<times> ('k, 'd) rbtree) option" where
  "rbtree_insert mem t key data =
     (let (node, t) = rbtree_createnode mem key data t
      in if node = NULL then Some (- 1, t)
         else do {
           (samenode, t) \<leftarrow> rbtree_insert_node node t;
           Some (if samenode \<noteq> NULL then - 2 else 0, t) })"

section \<open>Deletion\<close>

definition replace_node :: "('k, 'd) rbtree \<Rightarrow> ptr \<Rightarrow> ptr \<Rightarrow> ('k, 'd) rbtree option" where
  "replace_node t oldn newn = do {
     n \<leftarrow> deref t oldn;
     t \<leftarrow> (if rb_parent n = NULL then Some (t\<lparr>rb_root := newn\<rparr>)
           else do {
             pn \<leftarrow> deref t (rb_parent n);
             if oldn = rb_left pn then set_left newn (rb_parent n) t
             else set_right newn (rb_parent n) t });
     if newn \<noteq> NULL then set_parent (rb_parent n) newn t else Some t }"

definition delete_case6 :: "('k, 'd) rbtree \<Rightarrow> ptr \<Rightarrow> ('k, 'd) rbtree option" where
  "delete_case6 t n = do {
     parent \<leftarrow> get_parent t n;
     pc \<leftarrow> get_color t parent;
     s \<leftarrow> sibling t n;
     t \<leftarrow> set_color pc s t;
     t \<leftarrow> set_color RB_BLACK parent t;
     pn \<leftarrow> deref t parent;
     if n = rb_left pn then do {
       sn \<leftarrow> deref t s;
       c \<leftarrow> get_color t (rb_right sn);
       _ \<leftarrow> assert_that (c = RB_RED);
       t \<leftarrow> set_color RB_BLACK (rb_right sn) t;
       rotate_left parent t }
     else do {
       sn \<leftarrow> deref t s;
       c \<leftarrow> get_color t (rb_left sn);
       _ \<leftarrow> assert_that (c = RB_RED);
       t \<leftarrow> set_color RB_BLACK (rb_left sn) t;
       rotate_right parent t } }"

definition delete_case5 :: "('k, 'd) rbtree \<Rightarrow> ptr \<Rightarrow> ('k, 'd) rbtree option" where
  "delete_case5 t n = do {
     parent \<leftarrow> get_parent t n;
     pn \<leftarrow> deref t parent;
     s \<leftarrow> sibling t n;
     sc \<leftarrow> get_color t s;
     inner_left \<leftarrow>
       (if n = rb_left pn \<and> sc = RB_BLACK then do {
          sn \<leftarrow> deref t s;
          lc \<leftarrow> get_color t (rb_left sn);
          rc \<leftarrow> get_color t (rb_right sn);
          Some (lc = RB_RED \<and> rc = RB_BLACK) }
        else Some False);
     t \<leftarrow>
       (if inner_left then do {
          t \<leftarrow> set_color RB_RED s t;
          sn \<leftarrow> deref t s;
          t \<leftarrow> set_color RB_BLACK (rb_left sn) t;
          rotate_right s t }
        else do {
          inner_right \<leftarrow>
            (if n = rb_right pn \<and> sc = RB_BLACK then do {
               sn \<leftarrow> deref t s;
               rc \<leftarrow> get_color t (rb_right sn);
               lc \<leftarrow> get_color t (rb_left sn);
               Some (rc = RB_RED \<and> lc = RB_BLACK) }
             else Some False);
          if inner_right then do {
            t \<leftarrow> set_color RB_RED s t;
            sn \<leftarrow> deref t s;
            t \<leftarrow> set_color RB_BLACK (rb_right sn) t;
            rotate_left s t }
          else Some t });
     delete_case6 t n }"

definition delete_case4 :: "('k, 'd) rbtree \<Rightarrow> ptr \<Rightarrow> ('k, 'd) rbtree option" where
  "delete_case4 t n = do {
     parent \<leftarrow> get_parent t n;
     pc \<leftarrow> get_color t parent;
     s \<leftarrow> sibling t n;
     sc \<leftarrow> get_color t s;
     both_black \<leftarrow>
       (if pc = RB_RED \<and> sc = RB_BLACK then do {
          sn \<leftarrow> deref t s;
          lc \<leftarrow> get_color t (rb_left sn);
          rc \<leftarrow> get_color t (rb_right sn);
          Some (lc = RB_BLACK \<and> rc = RB_BLACK) }
        else Some False);
     if both_black then do {
       t \<leftarrow> set_color RB_RED s t;
       set_color RB_BLACK parent t }
     else delete_case5 t n }"

text \<open>
  \<open>delete_case1\<close>, \<open>delete_case2\<close> and \<open>delete_case3\<close> call one another; the first argument of
  the latter two is \<open>delete_case1\<close>, with which \<open>delete_case3\<close> continues at the parent.
\<close>

definition delete_case3 ::
  "(('k, 'd) rbtree \<Rightarrow> ptr \<Rightarrow> ('k, 'd) rbtree option) \<Rightarrow>
   ('k, 'd) rbtree \<Rightarrow> ptr \<Rightarrow> ('k, 'd) rbtree option" where
  "delete_case3 case1 t node = do {
     parent \<leftarrow> get_parent t node;
     pn \<leftarrow> deref t parent;
     s \<leftarrow> sibling t node;
     sc \<leftarrow> get_color t s;
     all_black \<leftarrow>
       (if rb_color pn = RB_BLACK \<and> sc = RB_BLACK then do {
          sn \<leftarrow> deref t s;
          rc \<leftarrow> get_color t (rb_right sn);
          lc \<leftarrow> get_color t (rb_left sn);
          Some (rc = RB_BLACK \<and> lc = RB_BLACK) }
        else Some False);
     if all_black then do {
       t \<leftarrow> set_color RB_RED s t;
       case1 t parent }
     else delete_case4 t node }"

definition delete_case2 ::
  "(('k, 'd) rbtree \<Rightarrow> ptr \<Rightarrow> ('k, 'd) rbtree option) \<Rightarrow>
   ('k, 'd) rbtree \<Rightarrow> ptr \<Rightarrow> ('k, 'd) rbtree option" where
  "delete_case2 case1 t node = do {
     s \<leftarrow> sibling t node;
     sc \<leftarrow> get_color t s;
     t \<leftarrow>
       (if sc = RB_RED then do {
          parent \<leftarrow> get_parent t node;
          t \<leftarrow> set_color RB_RED parent t;
          t \<leftarrow> set_color RB_BLACK s t;
          pn \<leftarrow> deref t parent;
          if node = rb_left pn then rotate_left parent t else rotate_right parent t }
        else Some t);
     delete_case3 case1 t node }"

lemma delete_case3_mono [partial_function_mono]:
  assumes "\<And>t n. monotone (fun_ord option_ord) option_ord (\<lambda>f. F f t n)"
  shows "monotone (fun_ord option_ord) option_ord (\<lambda>f. delete_case3 (F f) t n)"
  unfolding delete_case3_def
  by (intro partial_function_mono assms)

lemma delete_case2_mono [partial_function_mono]:
  assumes "\<And>t n. monotone (fun_ord option_ord) option_ord (\<lambda>f. F f t n)"
  shows "monotone (fun_ord option_ord) option_ord (\<lambda>f. delete_case2 (F f) t n)"
  unfolding delete_case2_def
  by (intro partial_function_mono assms)

partial_function (option) delete_case1 ::
  "('k, 'd) rbtree \<Rightarrow> ptr \<Rightarrow> ('k, 'd) rbtree option" where
  "delete_case1 t node = do {
     parent \<leftarrow> get_parent t node;
     if parent = NULL then Some t else delete_case2 (\<lambda>t n. delete_case1 t n) t node }"

text \<open>
  \<open>__rbtree_remove\<close>, in three parts: the conditional rebalancing, the unlinking of a node
  that has at most one child, and the whole function, which first moves the contents of the
  successor into a node with two children.
\<close>

definition remove_fixup :: "ptr \<Rightarrow> ptr \<Rightarrow> ('k, 'd) rbtree \<Rightarrow> ('k, 'd) rbtree option" where
  "remove_fixup node child t = do {
     c \<leftarrow> get_color t node;
     if c = RB_BLACK then do {
       cc \<leftarrow> get_color t child;
       t \<leftarrow> set_color cc node t;
       delete_case1 t node }
     else Some t }"

definition unlink_node :: "ptr \<Rightarrow> ('k, 'd) rbtree \<Rightarrow> ('k, 'd) rbtree option" where
  "unlink_node node t = do {
     n \<leftarrow> deref t node;
     _ \<leftarrow> assert_that (rb_left n = NULL \<or> rb_right n = NULL);
     let child = (if rb_right n = NULL then rb_left n else rb_right n);
     t \<leftarrow> remove_fixup node child t;
     t \<leftarrow> replace_node t node child;
     n \<leftarrow> deref t node;
     t \<leftarrow> (if rb_parent n = NULL \<and> child \<noteq> NULL then set_color RB_BLACK child t else Some t);
     a \<leftarrow> node;
     Some (t\<lparr>rb_nodes := (rb_nodes t)(a := None)\<rparr>) }"

definition rbtree_remove_node :: "ptr \<Rightarrow> ('k, 'd) rbtree \<Rightarrow> ('k, 'd) rbtree option" where
  "rbtree_remove_node node t = do {
     n \<leftarrow> deref t node;
     let left = rb_left n;
     let right = rb_right n;
     if left \<noteq> NULL \<and> right \<noteq> NULL then do {
       next \<leftarrow> get_min t right;
       nn \<leftarrow> deref t next;
       t \<leftarrow> upd_node (\<lambda>x. x\<lparr>rb_key := rb_key nn, rb_data := rb_data nn\<rparr>) node t;
       unlink_node next t }
     else unlink_node node t }"

definition rbtree_remove ::
  "('k, 'd) rbtree \<Rightarrow> 'k \<Rightarrow> (int \<times> ('k, 'd) rbtree) option" where
  "rbtree_remove t key = do {
     (node, _) \<leftarrow> do_lookup key t;
     if node = NULL then Some (- 1, t)
     else do {
       t \<leftarrow> rbtree_remove_node node t;
       Some (0, t) } }"

text \<open>The loops as code equations, so that concrete runs can be evaluated.\<close>

declare get_min.simps [code] get_max.simps [code] prev_up.simps [code] next_up.simps [code]
declare lookup_loop.simps [code] insert_loop.simps [code] delete_case1.simps [code]

lemmas [rb_defs] =
  upd_node_def get_color_def set_color_def get_parent_def set_parent_def set_left_def
  set_right_def is_root_def sibling_def deref_def

end
