(* ===== verification/Rbtree_Zipper.thy ===== *)
theory Rbtree_Zipper
  imports Rbtree
begin

text \<open>
  The abstract side of the red-black tree proofs: trees as a datatype, a position inside a
  tree as a list of frames (innermost first), the balancing of insertion and deletion as
  functions on frames, and the proof that these functions keep the order, the colouring and
  the black height. No pointer occurs here except as a label of a node.
\<close>

section \<open>Trees and frames\<close>

datatype ('k, 'd) rtree =
    Lf
  | Nd "('k, 'd) rtree" addr rb_color 'k 'd "('k, 'd) rtree"

text \<open>
  \<open>LFr a c k d r\<close>: the position is the left child of node \<open>a\<close>, whose right subtree is \<open>r\<close>;
  \<open>RFr l a c k d\<close>: it is the right child, and \<open>l\<close> is the left subtree.
\<close>

datatype ('k, 'd) frame =
    LFr addr rb_color 'k 'd "('k, 'd) rtree"
  | RFr "('k, 'd) rtree" addr rb_color 'k 'd

fun fill :: "('k, 'd) frame \<Rightarrow> ('k, 'd) rtree \<Rightarrow> ('k, 'd) rtree" where
  "fill (LFr a c k d r) x = Nd x a c k d r"
| "fill (RFr l a c k d) x = Nd l a c k d x"

fun plug :: "('k, 'd) frame list \<Rightarrow> ('k, 'd) rtree \<Rightarrow> ('k, 'd) rtree" where
  "plug [] x = x"
| "plug (f # fs) x = plug fs (fill f x)"

lemma plug_append [simp]: "plug (fs @ gs) x = plug gs (plug fs x)"
  by (induction fs arbitrary: x) auto

fun tcol :: "('k, 'd) rtree \<Rightarrow> rb_color" where
  "tcol Lf = RB_BLACK"
| "tcol (Nd l a c k d r) = c"

fun fcol :: "('k, 'd) frame \<Rightarrow> rb_color" where
  "fcol (LFr a c k d r) = c"
| "fcol (RFr l a c k d) = c"

fun ccol :: "('k, 'd) frame list \<Rightarrow> rb_color" where
  "ccol [] = RB_BLACK"
| "ccol (f # fs) = fcol f"

fun paint :: "rb_color \<Rightarrow> ('k, 'd) rtree \<Rightarrow> ('k, 'd) rtree" where
  "paint c Lf = Lf"
| "paint c (Nd l a c' k d r) = Nd l a c k d r"

fun fpaint :: "rb_color \<Rightarrow> ('k, 'd) frame \<Rightarrow> ('k, 'd) frame" where
  "fpaint c (LFr a c' k d r) = LFr a c k d r"
| "fpaint c (RFr l a c' k d) = RFr l a c k d"

lemma color_not_black [simp]: "c \<noteq> RB_BLACK \<longleftrightarrow> c = RB_RED"
  by (cases c) auto

lemma color_not_red: "c \<noteq> RB_RED \<longleftrightarrow> c = RB_BLACK"
  by (cases c) auto

lemma tcol_red_Nd: "tcol x = RB_RED \<Longrightarrow> \<exists>l a k d r. x = Nd l a RB_RED k d r"
  by (cases x) auto

section \<open>Contents in key order\<close>

fun inorder :: "('k, 'd) rtree \<Rightarrow> ('k \<times> 'd) list" where
  "inorder Lf = []"
| "inorder (Nd l a c k d r) = inorder l @ (k, d) # inorder r"

text \<open>What lies to the left and to the right of a position.\<close>

fun lefts :: "('k, 'd) frame list \<Rightarrow> ('k \<times> 'd) list" where
  "lefts [] = []"
| "lefts (LFr a c k d r # fs) = lefts fs"
| "lefts (RFr l a c k d # fs) = lefts fs @ inorder l @ [(k, d)]"

fun rights :: "('k, 'd) frame list \<Rightarrow> ('k \<times> 'd) list" where
  "rights [] = []"
| "rights (LFr a c k d r # fs) = (k, d) # inorder r @ rights fs"
| "rights (RFr l a c k d # fs) = rights fs"

lemma inorder_plug [simp]: "inorder (plug fs x) = lefts fs @ inorder x @ rights fs"
proof (induction fs arbitrary: x)
  case Nil
  show ?case by simp
next
  case (Cons f fs)
  then show ?case by (cases f) auto
qed

lemma inorder_paint [simp]: "inorder (paint c x) = inorder x"
  by (cases x) auto

lemma lefts_fpaint [simp]: "lefts (fpaint c f # fs) = lefts (f # fs)"
  by (cases f) auto

lemma rights_fpaint [simp]: "rights (fpaint c f # fs) = rights (f # fs)"
  by (cases f) auto

section \<open>Colour and black height\<close>

fun bh :: "('k, 'd) rtree \<Rightarrow> nat" where
  "bh Lf = 0"
| "bh (Nd l a c k d r) = bh l + (if c = RB_BLACK then 1 else 0)"

fun invh :: "('k, 'd) rtree \<Rightarrow> bool" where
  "invh Lf = True"
| "invh (Nd l a c k d r) = (bh l = bh r \<and> invh l \<and> invh r)"

fun invc :: "('k, 'd) rtree \<Rightarrow> bool" where
  "invc Lf = True"
| "invc (Nd l a c k d r) =
     ((c = RB_RED \<longrightarrow> tcol l = RB_BLACK \<and> tcol r = RB_BLACK) \<and> invc l \<and> invc r)"

definition rbt_inv :: "('k, 'd) rtree \<Rightarrow> bool" where
  "rbt_inv x \<longleftrightarrow> invc x \<and> invh x \<and> tcol x = RB_BLACK"

text \<open>
  \<open>cinv fs h\<close>: the frames are balanced and properly coloured around a hole that must be
  filled with a tree of black height \<open>h\<close>; if the innermost frame is red, the hole takes a
  tree with a black root only. The outermost frame, the root, is black.
\<close>

fun cinv :: "('k, 'd) frame list \<Rightarrow> nat \<Rightarrow> bool" where
  "cinv [] h = True"
| "cinv (LFr a c k d r # fs) h =
     (bh r = h \<and> invh r \<and> invc r \<and>
      (c = RB_RED \<longrightarrow> tcol r = RB_BLACK \<and> fs \<noteq> [] \<and> ccol fs = RB_BLACK) \<and>
      cinv fs (h + (if c = RB_BLACK then 1 else 0)))"
| "cinv (RFr l a c k d # fs) h =
     (bh l = h \<and> invh l \<and> invc l \<and>
      (c = RB_RED \<longrightarrow> tcol l = RB_BLACK \<and> fs \<noteq> [] \<and> ccol fs = RB_BLACK) \<and>
      cinv fs (h + (if c = RB_BLACK then 1 else 0)))"

lemma plug_inv:
  assumes "cinv fs (bh x)" "invh x" "invc x"
    and "ccol fs = RB_RED \<Longrightarrow> tcol x = RB_BLACK"
  shows "invh (plug fs x) \<and> invc (plug fs x) \<and> (fs \<noteq> [] \<longrightarrow> tcol (plug fs x) = RB_BLACK)"
  using assms
proof (induction fs arbitrary: x)
  case Nil
  then show ?case by simp
next
  case (Cons f fs)
  show ?case
  proof (cases "fs = []")
    case True
    with Cons.prems show ?thesis by (cases f; cases "fcol f") auto
  next
    case False
    have "invh (plug fs (fill f x)) \<and> invc (plug fs (fill f x)) \<and>
        (fs \<noteq> [] \<longrightarrow> tcol (plug fs (fill f x)) = RB_BLACK)"
      using Cons.prems by (intro Cons.IH) (cases f; cases "fcol f"; auto)+
    with False show ?thesis by simp
  qed
qed

lemma plug_rbt_inv:
  assumes "cinv fs (bh x)" "invh x" "invc x"
    and "ccol fs = RB_RED \<Longrightarrow> tcol x = RB_BLACK" and "fs = [] \<Longrightarrow> tcol x = RB_BLACK"
  shows "rbt_inv (plug fs x)"
  using plug_inv [OF assms(1-4)] assms(5) by (cases fs) (auto simp: rbt_inv_def)

text \<open>Conversely, every position of a proper tree has balanced frames around it.\<close>

lemma unplug_inv:
  assumes "invh (plug fs x)" "invc (plug fs x)" "tcol (plug fs x) = RB_BLACK"
  shows "cinv fs (bh x) \<and> invh x \<and> invc x \<and> (ccol fs = RB_RED \<longrightarrow> tcol x = RB_BLACK)"
  using assms
proof (induction fs arbitrary: x)
  case Nil
  then show ?case by simp
next
  case (Cons f fs)
  then have "cinv fs (bh (fill f x)) \<and> invh (fill f x) \<and> invc (fill f x) \<and>
      (ccol fs = RB_RED \<longrightarrow> tcol (fill f x) = RB_BLACK)"
    by (intro Cons.IH) auto
  moreover have "fcol f = RB_RED \<Longrightarrow> fs \<noteq> []"
    using Cons.prems by (cases f; cases fs) auto
  ultimately show ?case by (cases f; cases "fcol f"; cases "ccol fs") auto
qed

lemma rbt_inv_unplug:
  "rbt_inv (plug fs x) \<Longrightarrow>
     cinv fs (bh x) \<and> invh x \<and> invc x \<and> (ccol fs = RB_RED \<longrightarrow> tcol x = RB_BLACK)"
  using unplug_inv [of fs x] by (simp add: rbt_inv_def)

section \<open>Rebalancing after insertion\<close>

text \<open>
  \<open>zfix fs x\<close>: the whole tree after the loop of \<open>__rbtree_insert\<close> has run with \<open>x\<close> (whose
  root is the loop's red \<open>node\<close>) at position \<open>fs\<close>.
\<close>

fun zfix :: "('k, 'd) frame list \<Rightarrow> ('k, 'd) rtree \<Rightarrow> ('k, 'd) rtree" where
  "zfix (LFr pa pc pk pd pr # LFr ga gc gk gd u # fs) x =
     (if pc = RB_BLACK then plug (LFr pa pc pk pd pr # LFr ga gc gk gd u # fs) x
      else if tcol u = RB_RED then
        zfix fs (Nd (Nd x pa RB_BLACK pk pd pr) ga RB_RED gk gd (paint RB_BLACK u))
      else plug fs (Nd x pa RB_BLACK pk pd (Nd pr ga RB_RED gk gd u)))"
| "zfix (RFr pl pa pc pk pd # LFr ga gc gk gd u # fs) x =
     (if pc = RB_BLACK then plug (RFr pl pa pc pk pd # LFr ga gc gk gd u # fs) x
      else if tcol u = RB_RED then
        zfix fs (Nd (Nd pl pa RB_BLACK pk pd x) ga RB_RED gk gd (paint RB_BLACK u))
      else (case x of
          Nd xl a c k d xr \<Rightarrow>
            plug fs (Nd (Nd pl pa pc pk pd xl) a RB_BLACK k d (Nd xr ga RB_RED gk gd u))
        | Lf \<Rightarrow> Lf))"
| "zfix (RFr pl pa pc pk pd # RFr u ga gc gk gd # fs) x =
     (if pc = RB_BLACK then plug (RFr pl pa pc pk pd # RFr u ga gc gk gd # fs) x
      else if tcol u = RB_RED then
        zfix fs (Nd (paint RB_BLACK u) ga RB_RED gk gd (Nd pl pa RB_BLACK pk pd x))
      else plug fs (Nd (Nd u ga RB_RED gk gd pl) pa RB_BLACK pk pd x))"
| "zfix (LFr pa pc pk pd pr # RFr u ga gc gk gd # fs) x =
     (if pc = RB_BLACK then plug (LFr pa pc pk pd pr # RFr u ga gc gk gd # fs) x
      else if tcol u = RB_RED then
        zfix fs (Nd (paint RB_BLACK u) ga RB_RED gk gd (Nd x pa RB_BLACK pk pd pr))
      else (case x of
          Nd xl a c k d xr \<Rightarrow>
            plug fs (Nd (Nd u ga RB_RED gk gd xl) a RB_BLACK k d (Nd xr pa pc pk pd pr))
        | Lf \<Rightarrow> Lf))"
| "zfix [] x = x"
| "zfix [f] x = fill f x"

lemma inorder_fill: "inorder (fill f x) = lefts [f] @ inorder x @ rights [f]"
  by (cases f) auto

lemma inorder_zfix:
  "x \<noteq> Lf \<Longrightarrow> inorder (zfix fs x) = lefts fs @ inorder x @ rights fs"
  by (induction fs x rule: zfix.induct) (auto simp: inorder_fill split: rtree.splits)

lemma bh_paint_black:
  "tcol u = RB_RED \<Longrightarrow> bh (paint RB_BLACK u) = Suc (bh u)"
  "invh (paint c u) = invh u" "invc u \<Longrightarrow> invc (paint RB_BLACK u)"
  "tcol (paint RB_BLACK u) = RB_BLACK"
  by (cases u; simp)+

lemma plug_invhc:
  assumes "cinv fs (bh x)" "invh x" "invc x" "ccol fs = RB_RED \<Longrightarrow> tcol x = RB_BLACK"
  shows "invh (plug fs x) \<and> invc (plug fs x)"
  using plug_inv [OF assms] by blast

lemma zfix_inv:
  assumes "cinv fs (bh x)" "invh x" "invc x" "tcol x = RB_RED"
  shows "invh (zfix fs x) \<and> invc (zfix fs x)"
  using assms
proof (induction fs x rule: zfix.induct)
  case (1 pa pc pk pd pr ga gc gk gd u fs x)
  consider "pc = RB_BLACK" | "pc = RB_RED" "tcol u = RB_RED" | "pc = RB_RED" "tcol u = RB_BLACK"
    by (cases pc; cases "tcol u") auto
  then show ?case
  proof cases
    case 1
    with "1.prems" plug_invhc [of "LFr pa pc pk pd pr # LFr ga gc gk gd u # fs" x]
    show ?thesis by auto
  next
    case 2
    with "1.prems" "1.IH" show ?thesis by (auto simp: bh_paint_black)
  next
    case 3
    with "1.prems" plug_invhc [of fs "Nd x pa RB_BLACK pk pd (Nd pr ga RB_RED gk gd u)"]
    show ?thesis by auto
  qed
next
  case (2 pl pa pc pk pd ga gc gk gd u fs x)
  obtain xl a k d xr where x: "x = Nd xl a RB_RED k d xr"
    using tcol_red_Nd "2.prems"(4) by blast
  consider "pc = RB_BLACK" | "pc = RB_RED" "tcol u = RB_RED" | "pc = RB_RED" "tcol u = RB_BLACK"
    by (cases pc; cases "tcol u") auto
  then show ?case
  proof cases
    case 1
    with "2.prems" plug_invhc [of "RFr pl pa pc pk pd # LFr ga gc gk gd u # fs" x]
    show ?thesis by auto
  next
    case 2
    with "2.prems" "2.IH" show ?thesis by (auto simp: bh_paint_black)
  next
    case 3
    with "2.prems" x
      plug_invhc [of fs "Nd (Nd pl pa pc pk pd xl) a RB_BLACK k d (Nd xr ga RB_RED gk gd u)"]
    show ?thesis by auto
  qed
next
  case (3 pl pa pc pk pd u ga gc gk gd fs x)
  consider "pc = RB_BLACK" | "pc = RB_RED" "tcol u = RB_RED" | "pc = RB_RED" "tcol u = RB_BLACK"
    by (cases pc; cases "tcol u") auto
  then show ?case
  proof cases
    case 1
    with "3.prems" plug_invhc [of "RFr pl pa pc pk pd # RFr u ga gc gk gd # fs" x]
    show ?thesis by auto
  next
    case 2
    with "3.prems" "3.IH" show ?thesis by (auto simp: bh_paint_black)
  next
    case 3
    with "3.prems" plug_invhc [of fs "Nd (Nd u ga RB_RED gk gd pl) pa RB_BLACK pk pd x"]
    show ?thesis by auto
  qed
next
  case (4 pa pc pk pd pr u ga gc gk gd fs x)
  obtain xl a k d xr where x: "x = Nd xl a RB_RED k d xr"
    using tcol_red_Nd "4.prems"(4) by blast
  consider "pc = RB_BLACK" | "pc = RB_RED" "tcol u = RB_RED" | "pc = RB_RED" "tcol u = RB_BLACK"
    by (cases pc; cases "tcol u") auto
  then show ?case
  proof cases
    case 1
    with "4.prems" plug_invhc [of "LFr pa pc pk pd pr # RFr u ga gc gk gd # fs" x]
    show ?thesis by auto
  next
    case 2
    with "4.prems" "4.IH" show ?thesis by (auto simp: bh_paint_black)
  next
    case 3
    with "4.prems" x
      plug_invhc [of fs "Nd (Nd u ga RB_RED gk gd xl) a RB_BLACK k d (Nd xr pa pc pk pd pr)"]
    show ?thesis by auto
  qed
next
  case (5 x)
  then show ?case by simp
next
  case (6 f x)
  then show ?case by (cases f; cases "fcol f") auto
qed

corollary zfix_rbt_inv:
  "cinv fs (bh x) \<Longrightarrow> invh x \<Longrightarrow> invc x \<Longrightarrow> tcol x = RB_RED \<Longrightarrow>
     rbt_inv (paint RB_BLACK (zfix fs x))"
  using zfix_inv [of fs x] by (simp add: rbt_inv_def bh_paint_black)

section \<open>Rebalancing before deletion\<close>

text \<open>
  The deletion cases change the frames around the node that is about to go: the functions
  below compute the new frames, under the node's own address, from the old ones.
\<close>

fun sib :: "('k, 'd) frame \<Rightarrow> ('k, 'd) rtree" where
  "sib (LFr a c k d r) = r"
| "sib (RFr l a c k d) = l"

fun set_sib :: "('k, 'd) rtree \<Rightarrow> ('k, 'd) frame \<Rightarrow> ('k, 'd) frame" where
  "set_sib s (LFr a c k d r) = LFr a c k d s"
| "set_sib s (RFr l a c k d) = RFr s a c k d"

fun black_kids :: "('k, 'd) rtree \<Rightarrow> bool" where
  "black_kids Lf = False"
| "black_kids (Nd l a c k d r) = (tcol l = RB_BLACK \<and> tcol r = RB_BLACK)"

fun zcase6 :: "('k, 'd) frame list \<Rightarrow> ('k, 'd) frame list" where
  "zcase6 (LFr a c k d (Nd sl sa sc sk sd sr) # fs) =
     LFr a RB_BLACK k d sl # LFr sa c sk sd (paint RB_BLACK sr) # fs"
| "zcase6 (RFr (Nd sl sa sc sk sd sr) a c k d # fs) =
     RFr sr a RB_BLACK k d # RFr (paint RB_BLACK sl) sa c sk sd # fs"
| "zcase6 fs = fs"

fun zcase5 :: "('k, 'd) frame list \<Rightarrow> ('k, 'd) frame list" where
  "zcase5 (LFr a c k d (Nd (Nd x la lc lk ld y) sa sc sk sd sr) # fs) =
     (if sc = RB_BLACK \<and> lc = RB_RED \<and> tcol sr = RB_BLACK
      then zcase6 (LFr a c k d (Nd x la RB_BLACK lk ld (Nd y sa RB_RED sk sd sr)) # fs)
      else zcase6 (LFr a c k d (Nd (Nd x la lc lk ld y) sa sc sk sd sr) # fs))"
| "zcase5 (RFr (Nd sl sa sc sk sd (Nd x ra rc rk rd y)) a c k d # fs) =
     (if sc = RB_BLACK \<and> rc = RB_RED \<and> tcol sl = RB_BLACK
      then zcase6 (RFr (Nd (Nd sl sa RB_RED sk sd x) ra RB_BLACK rk rd y) a c k d # fs)
      else zcase6 (RFr (Nd sl sa sc sk sd (Nd x ra rc rk rd y)) a c k d # fs))"
| "zcase5 fs = zcase6 fs"

fun zcase4 :: "('k, 'd) frame list \<Rightarrow> ('k, 'd) frame list" where
  "zcase4 (f # fs) =
     (if fcol f = RB_RED \<and> tcol (sib f) = RB_BLACK \<and> black_kids (sib f)
      then fpaint RB_BLACK (set_sib (paint RB_RED (sib f)) f) # fs
      else zcase5 (f # fs))"
| "zcase4 [] = []"

fun zcase2 :: "('k, 'd) frame list \<Rightarrow> ('k, 'd) frame list" where
  "zcase2 (LFr a c k d (Nd sl sa sc sk sd sr) # fs) =
     LFr a RB_RED k d sl # LFr sa RB_BLACK sk sd sr # fs"
| "zcase2 (RFr (Nd sl sa sc sk sd sr) a c k d # fs) =
     RFr sr a RB_RED k d # RFr sl sa RB_BLACK sk sd # fs"
| "zcase2 fs = fs"

fun zdel :: "('k, 'd) frame list \<Rightarrow> ('k, 'd) frame list" where
  "zdel [] = []"
| "zdel (f # fs) =
     (if tcol (sib f) = RB_RED then zcase4 (zcase2 (f # fs))
      else if fcol f = RB_BLACK \<and> black_kids (sib f)
      then set_sib (paint RB_RED (sib f)) f # zdel fs
      else zcase4 (f # fs))"

text \<open>Order: the keys to the left and to the right of the position stay as they are.\<close>

lemma lefts_rights_zcase6 [simp]:
  "lefts (zcase6 fs) = lefts fs" "rights (zcase6 fs) = rights fs"
  by (induction fs rule: zcase6.induct) auto

lemma lefts_rights_zcase5 [simp]:
  "lefts (zcase5 fs) = lefts fs" "rights (zcase5 fs) = rights fs"
  by (induction fs rule: zcase5.induct) auto

lemma lefts_rights_set_sib [simp]:
  "inorder s = inorder (sib f) \<Longrightarrow> lefts (set_sib s f # fs) = lefts (f # fs)"
  "inorder s = inorder (sib f) \<Longrightarrow> rights (set_sib s f # fs) = rights (f # fs)"
  by (cases f; simp)+

lemma lefts_rights_zcase4 [simp]:
  "lefts (zcase4 fs) = lefts fs" "rights (zcase4 fs) = rights fs"
  by (induction fs rule: zcase4.induct) auto

lemma lefts_rights_zcase2 [simp]:
  "lefts (zcase2 fs) = lefts fs" "rights (zcase2 fs) = rights fs"
  by (induction fs rule: zcase2.induct) auto

lemma lefts_rights_Cons:
  "lefts fs = lefts gs \<Longrightarrow> lefts (f # fs) = lefts (f # gs)"
  "rights fs = rights gs \<Longrightarrow> rights (f # fs) = rights (f # gs)"
  by (cases f; simp)+

lemma lefts_rights_zdel [simp]: "lefts (zdel fs) = lefts fs \<and> rights (zdel fs) = rights fs"
proof (induction fs)
  case Nil
  show ?case by simp
next
  case (Cons f fs)
  then show ?case
    using lefts_rights_Cons [of "zdel fs" fs "set_sib (paint RB_RED (sib f)) f"] by simp
qed

text \<open>
  Colours and heights. The frames are one black node short around the hole before
  (\<open>Suc h\<close> is demanded where the hole has height \<open>h\<close>) and fit afterwards; in addition the
  innermost frame is black, so the hole may be filled with a red root.
\<close>

lemma zcase6_inv:
  assumes "cinv (f # fs) (Suc h)" "tcol (sib f) = RB_BLACK"
    and "case f of LFr a c k d (Nd sl sa sc sk sd sr) \<Rightarrow> tcol sr = RB_RED
         | RFr (Nd sl sa sc sk sd sr) a c k d \<Rightarrow> tcol sl = RB_RED | _ \<Rightarrow> False"
  shows "cinv (zcase6 (f # fs)) h \<and> ccol (zcase6 (f # fs)) = RB_BLACK"
  using assms
  by (cases "(f # fs)" rule: zcase6.cases) (auto simp: bh_paint_black split: if_splits)

lemma zcase5_inv:
  assumes "cinv (f # fs) (Suc h)" "tcol (sib f) = RB_BLACK" "\<not> black_kids (sib f)"
  shows "cinv (zcase5 (f # fs)) h \<and> ccol (zcase5 (f # fs)) = RB_BLACK"
proof (cases f)
  case (LFr a c k d r)
  with assms obtain sl sa sk sd sr where r: "r = Nd sl sa RB_BLACK sk sd sr"
    by (cases r) auto
  show ?thesis
  proof (cases "tcol sr")
    case RB_BLACK
    with assms LFr r obtain x la lk ld y where "sl = Nd x la RB_RED lk ld y"
      by (cases sl) auto
    with assms LFr r RB_BLACK show ?thesis by (auto split: if_splits)
  next
    case RB_RED
    with assms LFr r have "zcase5 (f # fs) = zcase6 (f # fs)" by (cases sl) auto
    with zcase6_inv [of f fs h] assms LFr r RB_RED show ?thesis by simp
  qed
next
  case (RFr l a c k d)
  with assms obtain sl sa sk sd sr where l: "l = Nd sl sa RB_BLACK sk sd sr"
    by (cases l) auto
  show ?thesis
  proof (cases "tcol sl")
    case RB_BLACK
    with assms RFr l obtain x la lk ld y where "sr = Nd x la RB_RED lk ld y"
      by (cases sr) auto
    with assms RFr l RB_BLACK show ?thesis by (auto split: if_splits)
  next
    case RB_RED
    with assms RFr l have "zcase5 (f # fs) = zcase6 (f # fs)" by (cases sr) auto
    with zcase6_inv [of f fs h] assms RFr l RB_RED show ?thesis by simp
  qed
qed

lemma zcase4_inv:
  assumes "cinv (f # fs) (Suc h)" "tcol (sib f) = RB_BLACK"
    and "fcol f = RB_BLACK \<Longrightarrow> \<not> black_kids (sib f)"
  shows "cinv (zcase4 (f # fs)) h \<and> ccol (zcase4 (f # fs)) = RB_BLACK"
proof (cases "black_kids (sib f)")
  case True
  with assms have "fcol f = RB_RED" by (cases "fcol f") auto
  with assms True show ?thesis by (cases f; cases "sib f") auto
next
  case False
  then show ?thesis using zcase5_inv [OF assms(1,2) False] by simp
qed

lemma cinv_Suc_sib: "cinv (f # fs) (Suc h) \<Longrightarrow> sib f \<noteq> Lf"
  by (cases f) auto

lemma zdel_inv:
  assumes "cinv fs (Suc h)"
  shows "cinv (zdel fs) h \<and> ccol (zdel fs) = RB_BLACK"
  using assms
proof (induction fs arbitrary: h)
  case Nil
  show ?case by simp
next
  case (Cons f fs)
  from cinv_Suc_sib [OF Cons.prems] have s: "sib f \<noteq> Lf" .
  consider (red) "tcol (sib f) = RB_RED"
    | (black) "tcol (sib f) = RB_BLACK" "fcol f = RB_BLACK" "black_kids (sib f)"
    | (other) "tcol (sib f) = RB_BLACK" "fcol f = RB_BLACK \<Longrightarrow> \<not> black_kids (sib f)"
    by (cases "tcol (sib f)"; cases "fcol f") auto
  then show ?case
  proof cases
    case red
    obtain g gs where g: "zcase2 (f # fs) = g # gs"
      by (cases "(f # fs)" rule: zcase2.cases) auto
    have "cinv (g # gs) (Suc h) \<and> tcol (sib g) = RB_BLACK \<and> fcol g = RB_RED"
      using Cons.prems red g by (cases "(f # fs)" rule: zcase2.cases) (auto split: if_splits)
    then show ?thesis using zcase4_inv [of g gs h] red g by auto
  next
    case black
    have "cinv fs (Suc (Suc h))" using Cons.prems black by (cases f) auto
    from Cons.IH [OF this] black Cons.prems s show ?thesis
      by (cases f; cases "sib f") auto
  next
    case other
    then show ?thesis using zcase4_inv [OF Cons.prems other(1)] by auto
  qed
qed

end
