(* ===== verification/Rbtree_Repr.thy ===== *)
theory Rbtree_Repr
  imports Rbtree_Zipper
begin

text \<open>
  How the pointer structure of \<open>Rbtree\<close> represents the trees of \<open>Rbtree_Zipper\<close>, and the
  simulation of each pointer operation by the corresponding operation on trees and frames.
\<close>

section \<open>The nodes of a represented tree\<close>

abbreviation mk_node ::
  "ptr \<Rightarrow> ptr \<Rightarrow> ptr \<Rightarrow> rb_color \<Rightarrow> 'k \<Rightarrow> 'd \<Rightarrow> ('k, 'd) rbtree_node" where
  "mk_node p l r c k d \<equiv>
     \<lparr>rb_parent = p, rb_left = l, rb_right = r, rb_color = c, rb_key = k, rb_data = d\<rparr>"

fun rt :: "('k, 'd) rtree \<Rightarrow> ptr" where
  "rt Lf = NULL"
| "rt (Nd l a c k d r) = Some a"

fun faddr :: "('k, 'd) frame \<Rightarrow> addr" where
  "faddr (LFr a c k d r) = a"
| "faddr (RFr l a c k d) = a"

fun ctop :: "('k, 'd) frame list \<Rightarrow> ptr" where
  "ctop [] = NULL"
| "ctop (f # fs) = Some (faddr f)"

fun addrs :: "('k, 'd) rtree \<Rightarrow> addr set" where
  "addrs Lf = {}"
| "addrs (Nd l a c k d r) = insert a (addrs l \<union> addrs r)"

fun caddrs :: "('k, 'd) frame list \<Rightarrow> addr set" where
  "caddrs [] = {}"
| "caddrs (LFr a c k d r # fs) = insert a (addrs r \<union> caddrs fs)"
| "caddrs (RFr l a c k d # fs) = insert a (addrs l \<union> caddrs fs)"

text \<open>No address occurs twice.\<close>

fun dist :: "('k, 'd) rtree \<Rightarrow> bool" where
  "dist Lf = True"
| "dist (Nd l a c k d r) =
     (a \<notin> addrs l \<and> a \<notin> addrs r \<and> addrs l \<inter> addrs r = {} \<and> dist l \<and> dist r)"

fun cdist :: "('k, 'd) frame list \<Rightarrow> bool" where
  "cdist [] = True"
| "cdist (LFr a c k d r # fs) =
     (a \<notin> addrs r \<and> a \<notin> caddrs fs \<and> addrs r \<inter> caddrs fs = {} \<and> dist r \<and> cdist fs)"
| "cdist (RFr l a c k d # fs) =
     (a \<notin> addrs l \<and> a \<notin> caddrs fs \<and> addrs l \<inter> caddrs fs = {} \<and> dist l \<and> cdist fs)"

text \<open>
  \<open>trep h p x\<close>: the heap \<open>h\<close> holds the nodes of \<open>x\<close>, whose root has parent \<open>p\<close>;
  \<open>crep h q fs\<close>: it holds the nodes of the frames, with \<open>q\<close> in the hole.
\<close>

fun trep :: "(addr \<Rightarrow> ('k, 'd) rbtree_node option) \<Rightarrow> ptr \<Rightarrow> ('k, 'd) rtree \<Rightarrow> bool" where
  "trep h p Lf = True"
| "trep h p (Nd l a c k d r) =
     (h a = Some (mk_node p (rt l) (rt r) c k d) \<and> trep h (Some a) l \<and> trep h (Some a) r)"

fun crep :: "(addr \<Rightarrow> ('k, 'd) rbtree_node option) \<Rightarrow> ptr \<Rightarrow> ('k, 'd) frame list \<Rightarrow> bool" where
  "crep h q [] = True"
| "crep h q (LFr a c k d r # fs) =
     (h a = Some (mk_node (ctop fs) q (rt r) c k d) \<and> trep h (Some a) r \<and> crep h (Some a) fs)"
| "crep h q (RFr l a c k d # fs) =
     (h a = Some (mk_node (ctop fs) (rt l) q c k d) \<and> trep h (Some a) l \<and> crep h (Some a) fs)"

fun croot :: "ptr \<Rightarrow> ('k, 'd) frame list \<Rightarrow> ptr" where
  "croot q [] = q"
| "croot q (f # fs) = croot (Some (faddr f)) fs"

text \<open>
  \<open>zrep cmp nf t fs x\<close>: the tree \<open>t\<close> with comparison \<open>cmp\<close> and next free address \<open>nf\<close>
  represents \<open>x\<close> at position \<open>fs\<close>.
\<close>

definition zrep ::
  "('k \<Rightarrow> 'k \<Rightarrow> int) \<Rightarrow> addr \<Rightarrow> ('k, 'd) rbtree \<Rightarrow> ('k, 'd) frame list \<Rightarrow> ('k, 'd) rtree \<Rightarrow> bool" where
  "zrep cmp nf t fs x \<longleftrightarrow>
     rb_compare t = cmp \<and> rb_fresh t = nf \<and> rb_root t = croot (rt x) fs \<and>
     trep (rb_nodes t) (ctop fs) x \<and> crep (rb_nodes t) (rt x) fs \<and>
     dist x \<and> cdist fs \<and> addrs x \<inter> caddrs fs = {} \<and>
     (\<forall>a \<in> addrs x \<union> caddrs fs. a < nf)"

section \<open>Framing\<close>

lemma trep_upd [simp]: "a \<notin> addrs x \<Longrightarrow> trep (h(a := v)) p x = trep h p x"
  by (induction x arbitrary: p) auto

lemma crep_upd [simp]: "a \<notin> caddrs fs \<Longrightarrow> crep (h(a := v)) q fs = crep h q fs"
  by (induction fs arbitrary: q rule: caddrs.induct) auto

lemma rt_in_addrs: "rt x = Some a \<Longrightarrow> a \<in> addrs x"
  by (cases x) auto

lemma ctop_in_caddrs: "ctop fs = Some a \<Longrightarrow> a \<in> caddrs fs"
  by (cases fs; cases "hd fs") auto

lemma rt_None [simp]: "rt x = NULL \<longleftrightarrow> x = Lf"
  by (cases x) auto

lemma ctop_None [simp]: "ctop fs = NULL \<longleftrightarrow> fs = []"
  by (cases fs) auto

lemma faddr_in_caddrs [simp]: "faddr f \<in> caddrs (f # fs)"
  by (cases f) auto

lemma rt_neq: "a \<notin> addrs x \<Longrightarrow> rt x \<noteq> Some a"
  using rt_in_addrs by blast

text \<open>Moving the position one step up or down does not change what is represented.\<close>

lemma zrep_up: "zrep cmp nf t (f # fs) x \<longleftrightarrow> zrep cmp nf t fs (fill f x)"
  by (cases f) (auto simp: zrep_def)

lemma zrep_plug: "zrep cmp nf t fs x \<longleftrightarrow> zrep cmp nf t [] (plug fs x)"
  by (induction fs arbitrary: x) (auto simp: zrep_up)

section \<open>Reading and colouring at the position\<close>

lemma zrep_deref:
  "zrep cmp nf t fs (Nd l a c k d r) \<Longrightarrow>
     rb_nodes t a = Some (mk_node (ctop fs) (rt l) (rt r) c k d)"
  by (simp add: zrep_def)

lemma zrep_deref_Lframe:
  "zrep cmp nf t (LFr a c k d r # fs) x \<Longrightarrow>
     rb_nodes t a = Some (mk_node (ctop fs) (rt x) (rt r) c k d)"
  by (simp add: zrep_def)

lemma zrep_deref_Rframe:
  "zrep cmp nf t (RFr l a c k d # fs) x \<Longrightarrow>
     rb_nodes t a = Some (mk_node (ctop fs) (rt l) (rt x) c k d)"
  by (simp add: zrep_def)

lemma zrep_set_color:
  assumes "zrep cmp nf t fs (Nd l a c0 k d r)"
  shows "\<exists>t'. set_color c (Some a) t = Some t' \<and> zrep cmp nf t' fs (Nd l a c k d r)"
  using assms by (auto simp: zrep_def rb_defs)

lemmas zrep_norm = Int_Un_distrib Int_Un_distrib2 Int_commute ball_Un

lemma zrep_rotate_left:
  assumes "zrep cmp nf t fs (Nd x a c k d (Nd y b c' k' d' z))"
  shows "\<exists>t'. rotate_left (Some a) t = Some t' \<and>
           zrep cmp nf t' fs (Nd (Nd x a c k d y) b c' k' d' z)"
proof (cases fs)
  case Nil
  with assms show ?thesis
    by (cases y; simp add: zrep_def rb_defs rotate_left_def Let_def zrep_norm)
next
  case (Cons f gs)
  with assms show ?thesis
    by (cases y; cases f; simp add: zrep_def rb_defs rotate_left_def Let_def rt_neq zrep_norm)
qed

lemma zrep_rotate_right:
  assumes "zrep cmp nf t fs (Nd (Nd x b c' k' d' y) a c k d z)"
  shows "\<exists>t'. rotate_right (Some a) t = Some t' \<and>
           zrep cmp nf t' fs (Nd x b c' k' d' (Nd y a c k d z))"
proof (cases fs)
  case Nil
  with assms show ?thesis
    by (cases y; simp add: zrep_def rb_defs rotate_right_def Let_def zrep_norm)
next
  case (Cons f gs)
  with assms show ?thesis
    by (cases y; cases f; simp add: zrep_def rb_defs rotate_right_def Let_def rt_neq zrep_norm)
qed

end
