(* ===== verification/Rbtree_Insert.thy ===== *)
theory Rbtree_Insert
  imports Rbtree_Repr
begin

text \<open>
  Simulation of lookup and insertion: the pointer loops of \<open>do_lookup\<close> and
  \<open>__rbtree_insert\<close> compute what the tree functions of \<open>Rbtree_Zipper\<close> say, and never reach
  an undefined step on a represented tree.
\<close>

section \<open>Working one level below the position\<close>

lemma zrep_L: "zrep cmp nf t fs (Nd l a c k d r) \<longleftrightarrow> zrep cmp nf t (LFr a c k d r # fs) l"
  by (simp add: zrep_up)

lemma zrep_R: "zrep cmp nf t fs (Nd l a c k d r) \<longleftrightarrow> zrep cmp nf t (RFr l a c k d # fs) r"
  by (simp add: zrep_up)

lemma zrep_set_color_L:
  assumes "zrep cmp nf t fs (Nd (Nd l a c0 k d r) ga gc gk gd u)"
  shows "\<exists>t'. set_color c (Some a) t = Some t' \<and>
           zrep cmp nf t' fs (Nd (Nd l a c k d r) ga gc gk gd u)"
  using assms unfolding zrep_L [of _ _ _ _ "Nd _ a _ _ _ _"] by (rule zrep_set_color)

lemma zrep_set_color_R:
  assumes "zrep cmp nf t fs (Nd u ga gc gk gd (Nd l a c0 k d r))"
  shows "\<exists>t'. set_color c (Some a) t = Some t' \<and>
           zrep cmp nf t' fs (Nd u ga gc gk gd (Nd l a c k d r))"
  using assms unfolding zrep_R [of _ _ _ _ _ _ _ _ _ "Nd _ a _ _ _ _"] by (rule zrep_set_color)

lemma zrep_rotate_left_L:
  assumes "zrep cmp nf t fs (Nd (Nd x a c k d (Nd y b c' k' d' z)) ga gc gk gd u)"
  shows "\<exists>t'. rotate_left (Some a) t = Some t' \<and>
           zrep cmp nf t' fs (Nd (Nd (Nd x a c k d y) b c' k' d' z) ga gc gk gd u)"
  using zrep_rotate_left [of cmp nf t "LFr ga gc gk gd u # fs"] assms by (simp add: zrep_up)

lemma zrep_rotate_right_R:
  assumes "zrep cmp nf t fs (Nd u ga gc gk gd (Nd (Nd x b c' k' d' y) a c k d z))"
  shows "\<exists>t'. rotate_right (Some a) t = Some t' \<and>
           zrep cmp nf t' fs (Nd u ga gc gk gd (Nd x b c' k' d' (Nd y a c k d z)))"
  using zrep_rotate_right [of cmp nf t "RFr u ga gc gk gd # fs"] assms by (simp add: zrep_up)

lemma trep_get_color: "trep (rb_nodes t) p x \<Longrightarrow> get_color t (rt x) = Some (tcol x)"
  by (cases x) (auto simp: get_color_def deref_def)

lemma zrep_get_color: "zrep cmp nf t fs x \<Longrightarrow> get_color t (rt x) = Some (tcol x)"
  by (auto simp: zrep_def intro: trep_get_color)

lemma zrep_get_parent: "zrep cmp nf t fs x \<Longrightarrow> x \<noteq> Lf \<Longrightarrow> get_parent t (rt x) = Some (ctop fs)"
  by (cases x) (auto simp: zrep_def get_parent_def deref_def)

section \<open>Lookup\<close>

text \<open>The position that the search for a key reaches from a position.\<close>

fun zfind ::
  "('k \<Rightarrow> 'k \<Rightarrow> int) \<Rightarrow> 'k \<Rightarrow> ('k, 'd) frame list \<Rightarrow> ('k, 'd) rtree \<Rightarrow>
   ('k, 'd) frame list \<times> ('k, 'd) rtree" where
  "zfind cmp key fs Lf = (fs, Lf)"
| "zfind cmp key fs (Nd l a c k d r) =
     (let ret = cmp k key
      in if ret = 0 then (fs, Nd l a c k d r)
         else if ret < 0 then zfind cmp key (RFr l a c k d # fs) r
         else zfind cmp key (LFr a c k d r # fs) l)"

lemma zfind_plug: "zfind cmp key fs x = (gs, y) \<Longrightarrow> plug gs y = plug fs x"
  by (induction x arbitrary: fs) (auto simp: Let_def split: if_splits)

lemma zfind_hit: "zfind cmp key fs x = (gs, Nd l a c k d r) \<Longrightarrow> cmp k key = 0"
  by (induction x arbitrary: fs) (auto simp: Let_def split: if_splits)

lemma lookup_loop_sim:
  assumes "zrep cmp nf t fs x" "zfind cmp key fs x = (gs, y)"
  shows "\<exists>p. lookup_loop t key (rt x) (ctop fs) = Some (rt y, p) \<and> (y = Lf \<longrightarrow> p = ctop gs)"
  using assms
proof (induction x arbitrary: fs)
  case Lf
  then show ?case by (simp add: lookup_loop.simps)
next
  case (Nd l a c k d r)
  have cmp: "rb_compare t = cmp" using Nd.prems(1) by (simp add: zrep_def)
  have n: "deref t (Some a) = Some (mk_node (ctop fs) (rt l) (rt r) c k d)"
    using zrep_deref [OF Nd.prems(1)] by (simp add: deref_def)
  have L: "zrep cmp nf t (LFr a c k d r # fs) l" and R: "zrep cmp nf t (RFr l a c k d # fs) r"
    using Nd.prems(1) by (simp_all add: zrep_up)
  note loop = lookup_loop.simps [of t key "Some a" "ctop fs"]
  consider "cmp k key = 0" | "cmp k key < 0" | "cmp k key > 0" by linarith
  then show ?case
  proof cases
    case 1
    with Nd.prems(2) n cmp loop show ?thesis by auto
  next
    case 2
    with Nd.IH(2) [OF R] Nd.prems(2) n cmp loop show ?thesis by (simp add: Let_def)
  next
    case 3
    with Nd.IH(1) [OF L] Nd.prems(2) n cmp loop show ?thesis by (simp add: Let_def)
  qed
qed

lemma zrep_root: "zrep cmp nf t [] x \<Longrightarrow> rb_root t = rt x"
  by (simp add: zrep_def)

lemma do_lookup_sim:
  assumes "zrep cmp nf t [] x" "zfind cmp key [] x = (gs, y)"
  shows "\<exists>p. do_lookup key t = Some (rt y, p) \<and> (y = Lf \<longrightarrow> p = ctop gs)"
  using lookup_loop_sim [OF assms] zrep_root [OF assms(1)] by (simp add: do_lookup_def)

section \<open>The insertion loop\<close>

definition root_black :: "('k, 'd) frame list \<Rightarrow> bool" where
  "root_black fs \<longleftrightarrow> fs = [] \<or> fcol (last fs) = RB_BLACK"

lemma root_black_simps [simp]:
  "root_black []" "root_black [f] \<longleftrightarrow> fcol f = RB_BLACK"
  "root_black (f # g # fs) \<longleftrightarrow> root_black (g # fs)"
  by (simp_all add: root_black_def)

lemma root_black_Cons2: "root_black (f # g # fs) \<Longrightarrow> root_black fs"
  by (simp add: root_black_def split: if_splits)

lemma cinv_root_black: "cinv fs h \<Longrightarrow> root_black fs"
proof (induction fs arbitrary: h)
  case Nil
  show ?case by simp
next
  case (Cons f fs)
  then have "root_black fs" by (cases f) auto
  moreover have "fs = [] \<Longrightarrow> fcol f = RB_BLACK" using Cons.prems by (cases f; cases "fcol f") auto
  ultimately show ?case by (cases fs) auto
qed

text \<open>The loop stops at once below a black parent, or at the root.\<close>

lemma insert_loop_stop:
  assumes "zrep cmp nf t fs x" "x \<noteq> Lf" "ccol fs = RB_BLACK"
  shows "insert_loop (rt x) t = Some t"
proof (cases fs)
  case Nil
  then show ?thesis using zrep_get_parent [OF assms(1,2)] by (simp add: insert_loop.simps [of "rt x"])
next
  case (Cons f gs)
  have "\<exists>n. deref t (Some (faddr f)) = Some n \<and> rb_color n = fcol f"
    using assms(1) Cons by (cases f) (auto simp: deref_def zrep_def)
  then show ?thesis
    using zrep_get_parent [OF assms(1,2)] assms(3) Cons by (auto simp: insert_loop.simps [of "rt x"])
qed

text \<open>One red uncle: recolour and go on at the grandparent.\<close>

lemma recolor_L:
  assumes "zrep cmp nf t fs (Nd (Nd xl pa pc pk pd xr) ga gc gk gd u)" "tcol u = RB_RED"
  shows "\<exists>t1 t2 t3. set_color RB_RED (Some ga) t = Some t1 \<and> set_color RB_BLACK (Some pa) t1 = Some t2 \<and>
     set_color RB_BLACK (rt u) t2 = Some t3 \<and>
     zrep cmp nf t3 fs (Nd (Nd xl pa RB_BLACK pk pd xr) ga RB_RED gk gd (paint RB_BLACK u))"
proof -
  obtain ul ua uk ud ur where u: "u = Nd ul ua RB_RED uk ud ur"
    using tcol_red_Nd assms(2) by blast
  from zrep_set_color [OF assms(1), of RB_RED] obtain t1 where
    t1: "set_color RB_RED (Some ga) t = Some t1" and
    z1: "zrep cmp nf t1 fs (Nd (Nd xl pa pc pk pd xr) ga RB_RED gk gd u)" by blast
  from zrep_set_color_L [OF z1, of RB_BLACK] obtain t2 where
    t2: "set_color RB_BLACK (Some pa) t1 = Some t2" and
    z2: "zrep cmp nf t2 fs (Nd (Nd xl pa RB_BLACK pk pd xr) ga RB_RED gk gd u)" by blast
  from zrep_set_color_R [OF z2 [unfolded u], of RB_BLACK] obtain t3 where
    "set_color RB_BLACK (Some ua) t2 = Some t3"
    "zrep cmp nf t3 fs (Nd (Nd xl pa RB_BLACK pk pd xr) ga RB_RED gk gd (Nd ul ua RB_BLACK uk ud ur))"
    by blast
  with t1 t2 u show ?thesis by auto
qed

lemma recolor_R:
  assumes "zrep cmp nf t fs (Nd u ga gc gk gd (Nd xl pa pc pk pd xr))" "tcol u = RB_RED"
  shows "\<exists>t1 t2 t3. set_color RB_RED (Some ga) t = Some t1 \<and> set_color RB_BLACK (Some pa) t1 = Some t2 \<and>
     set_color RB_BLACK (rt u) t2 = Some t3 \<and>
     zrep cmp nf t3 fs (Nd (paint RB_BLACK u) ga RB_RED gk gd (Nd xl pa RB_BLACK pk pd xr))"
proof -
  obtain ul ua uk ud ur where u: "u = Nd ul ua RB_RED uk ud ur"
    using tcol_red_Nd assms(2) by blast
  from zrep_set_color [OF assms(1), of RB_RED] obtain t1 where
    t1: "set_color RB_RED (Some ga) t = Some t1" and
    z1: "zrep cmp nf t1 fs (Nd u ga RB_RED gk gd (Nd xl pa pc pk pd xr))" by blast
  from zrep_set_color_R [OF z1, of RB_BLACK] obtain t2 where
    t2: "set_color RB_BLACK (Some pa) t1 = Some t2" and
    z2: "zrep cmp nf t2 fs (Nd u ga RB_RED gk gd (Nd xl pa RB_BLACK pk pd xr))" by blast
  from zrep_set_color_L [OF z2 [unfolded u], of RB_BLACK] obtain t3 where
    "set_color RB_BLACK (Some ua) t2 = Some t3"
    "zrep cmp nf t3 fs (Nd (Nd ul ua RB_BLACK uk ud ur) ga RB_RED gk gd (Nd xl pa RB_BLACK pk pd xr))"
    by blast
  with t1 t2 u show ?thesis by auto
qed

text \<open>Black uncle: recolour and rotate at the grandparent.\<close>

lemma rotate_fix_L:
  assumes "zrep cmp nf t fs (Nd (Nd x pa pc pk pd y) ga gc gk gd u)"
  shows "\<exists>t1 t2 t3. set_color RB_BLACK (Some pa) t = Some t1 \<and> set_color RB_RED (Some ga) t1 = Some t2 \<and>
     rotate_right (Some ga) t2 = Some t3 \<and>
     zrep cmp nf t3 fs (Nd x pa RB_BLACK pk pd (Nd y ga RB_RED gk gd u))"
proof -
  from zrep_set_color_L [OF assms, of RB_BLACK] obtain t1 where
    t1: "set_color RB_BLACK (Some pa) t = Some t1" and
    z1: "zrep cmp nf t1 fs (Nd (Nd x pa RB_BLACK pk pd y) ga gc gk gd u)" by blast
  from zrep_set_color [OF z1, of RB_RED] obtain t2 where
    t2: "set_color RB_RED (Some ga) t1 = Some t2" and
    z2: "zrep cmp nf t2 fs (Nd (Nd x pa RB_BLACK pk pd y) ga RB_RED gk gd u)" by blast
  from zrep_rotate_right [OF z2] t1 t2 show ?thesis by auto
qed

lemma rotate_fix_R:
  assumes "zrep cmp nf t fs (Nd u ga gc gk gd (Nd x pa pc pk pd y))"
  shows "\<exists>t1 t2 t3. set_color RB_BLACK (Some pa) t = Some t1 \<and> set_color RB_RED (Some ga) t1 = Some t2 \<and>
     rotate_left (Some ga) t2 = Some t3 \<and>
     zrep cmp nf t3 fs (Nd (Nd u ga RB_RED gk gd x) pa RB_BLACK pk pd y)"
proof -
  from zrep_set_color_R [OF assms, of RB_BLACK] obtain t1 where
    t1: "set_color RB_BLACK (Some pa) t = Some t1" and
    z1: "zrep cmp nf t1 fs (Nd u ga gc gk gd (Nd x pa RB_BLACK pk pd y))" by blast
  from zrep_set_color [OF z1, of RB_RED] obtain t2 where
    t2: "set_color RB_RED (Some ga) t1 = Some t2" and
    z2: "zrep cmp nf t2 fs (Nd u ga RB_RED gk gd (Nd x pa RB_BLACK pk pd y))" by blast
  from zrep_rotate_left [OF z2] t1 t2 show ?thesis by auto
qed

lemma insert_loop_plug:
  assumes "zrep cmp nf t fs x" "x \<noteq> Lf" "ccol fs = RB_BLACK"
  shows "\<exists>t'. insert_loop (rt x) t = Some t' \<and> zrep cmp nf t' [] (plug fs x)"
  using insert_loop_stop [OF assms] assms(1) by (auto simp flip: zrep_plug)

text \<open>What the loop reads at a node below a red parent.\<close>

lemma loop_nodes_LL:
  assumes "zrep cmp nf t (LFr pa pc pk pd pr # LFr ga gc gk gd u # fs) (Nd xl a c k d xr)"
  shows "get_parent t (Some a) = Some (Some pa)"
    "deref t (Some pa) = Some (mk_node (Some ga) (Some a) (rt pr) pc pk pd)"
    "deref t (Some ga) = Some (mk_node (ctop fs) (Some pa) (rt u) gc gk gd)"
    "get_color t (rt u) = Some (tcol u)" "rt pr \<noteq> Some a"
  using assms by (auto simp: zrep_def deref_def get_parent_def trep_get_color dest: rt_in_addrs)

lemma loop_nodes_RL:
  assumes "zrep cmp nf t (RFr pl pa pc pk pd # LFr ga gc gk gd u # fs) (Nd xl a c k d xr)"
  shows "get_parent t (Some a) = Some (Some pa)"
    "deref t (Some pa) = Some (mk_node (Some ga) (rt pl) (Some a) pc pk pd)"
    "deref t (Some ga) = Some (mk_node (ctop fs) (Some pa) (rt u) gc gk gd)"
    "get_color t (rt u) = Some (tcol u)"
  using assms by (auto simp: zrep_def deref_def get_parent_def trep_get_color)

lemma loop_nodes_RR:
  assumes "zrep cmp nf t (RFr pl pa pc pk pd # RFr u ga gc gk gd # fs) (Nd xl a c k d xr)"
  shows "get_parent t (Some a) = Some (Some pa)"
    "deref t (Some pa) = Some (mk_node (Some ga) (rt pl) (Some a) pc pk pd)"
    "deref t (Some ga) = Some (mk_node (ctop fs) (rt u) (Some pa) gc gk gd)"
    "get_color t (rt u) = Some (tcol u)" "rt pl \<noteq> Some a" "rt u \<noteq> Some pa"
  using assms by (auto simp: zrep_def deref_def get_parent_def trep_get_color dest: rt_in_addrs)

lemma loop_nodes_LR:
  assumes "zrep cmp nf t (LFr pa pc pk pd pr # RFr u ga gc gk gd # fs) (Nd xl a c k d xr)"
  shows "get_parent t (Some a) = Some (Some pa)"
    "deref t (Some pa) = Some (mk_node (Some ga) (Some a) (rt pr) pc pk pd)"
    "deref t (Some ga) = Some (mk_node (ctop fs) (rt u) (Some pa) gc gk gd)"
    "get_color t (rt u) = Some (tcol u)" "rt u \<noteq> Some pa"
  using assms by (auto simp: zrep_def deref_def get_parent_def trep_get_color dest: rt_in_addrs)

lemma insert_loop_sim:
  assumes "zrep cmp nf t fs x" "x \<noteq> Lf" "root_black fs"
  shows "\<exists>t'. insert_loop (rt x) t = Some t' \<and> zrep cmp nf t' [] (zfix fs x)"
  using assms
proof (induction fs x arbitrary: t rule: zfix.induct)
  case (1 pa pc pk pd pr ga gc gk gd u fs x)
  obtain xl a c k d xr where x: "x = Nd xl a c k d xr" using "1.prems"(2) by (cases x) auto
  note rd = loop_nodes_LL [OF "1.prems"(1) [unfolded x]]
  have foc: "zrep cmp nf t fs (Nd (Nd x pa pc pk pd pr) ga gc gk gd u)"
    using "1.prems"(1) by (simp add: zrep_up)
  consider "pc = RB_BLACK" | "pc = RB_RED" "tcol u = RB_RED" | "pc = RB_RED" "tcol u = RB_BLACK"
    by (cases pc; cases "tcol u") auto
  then show ?case
  proof cases
    case 1
    then show ?thesis using insert_loop_plug [OF "1.prems"(1,2)] by simp
  next
    case 2
    from recolor_L [OF foc 2(2)] obtain t1 t2 t3 where
      st: "set_color RB_RED (Some ga) t = Some t1" "set_color RB_BLACK (Some pa) t1 = Some t2"
        "set_color RB_BLACK (rt u) t2 = Some t3" and
      z: "zrep cmp nf t3 fs (Nd (Nd x pa RB_BLACK pk pd pr) ga RB_RED gk gd (paint RB_BLACK u))"
      by blast
    have "insert_loop (rt x) t = insert_loop (Some ga) t3"
      using rd st 2 x tcol_red_Nd [OF 2(2)] by (auto simp: insert_loop.simps [of "Some a" t])
    moreover have "\<exists>t'. insert_loop (Some ga) t3 = Some t' \<and>
        zrep cmp nf t' [] (zfix fs (Nd (Nd x pa RB_BLACK pk pd pr) ga RB_RED gk gd (paint RB_BLACK u)))"
      using "1.IH" [of t3] z 2 root_black_Cons2 "1.prems"(3) by force
    ultimately show ?thesis using 2 by simp
  next
    case 3
    from rotate_fix_L [OF foc] obtain t1 t2 t3 where
      st: "set_color RB_BLACK (Some pa) t = Some t1" "set_color RB_RED (Some ga) t1 = Some t2"
        "rotate_right (Some ga) t2 = Some t3" and
      z: "zrep cmp nf t3 fs (Nd x pa RB_BLACK pk pd (Nd pr ga RB_RED gk gd u))" by blast
    have "insert_loop (rt x) t = insert_loop (rt x) t3"
      using rd st 3 x by (auto simp: insert_loop.simps [of "Some a" t])
    moreover have "zrep cmp nf t3 (LFr pa RB_BLACK pk pd (Nd pr ga RB_RED gk gd u) # fs) x"
      using z by (simp add: zrep_up)
    ultimately show ?thesis
      using insert_loop_plug [OF _ "1.prems"(2), of cmp nf t3 "LFr pa RB_BLACK pk pd (Nd pr ga RB_RED gk gd u) # fs"]
        3 by simp
  qed
next
  case (2 pl pa pc pk pd ga gc gk gd u fs x)
  obtain xl a c k d xr where x: "x = Nd xl a c k d xr" using "2.prems"(2) by (cases x) auto
  note rd = loop_nodes_RL [OF "2.prems"(1) [unfolded x]]
  have foc: "zrep cmp nf t fs (Nd (Nd pl pa pc pk pd x) ga gc gk gd u)"
    using "2.prems"(1) by (simp add: zrep_up)
  consider "pc = RB_BLACK" | "pc = RB_RED" "tcol u = RB_RED" | "pc = RB_RED" "tcol u = RB_BLACK"
    by (cases pc; cases "tcol u") auto
  then show ?case
  proof cases
    case 1
    then show ?thesis using insert_loop_plug [OF "2.prems"(1,2)] by simp
  next
    case 2
    from recolor_L [OF foc 2(2)] obtain t1 t2 t3 where
      st: "set_color RB_RED (Some ga) t = Some t1" "set_color RB_BLACK (Some pa) t1 = Some t2"
        "set_color RB_BLACK (rt u) t2 = Some t3" and
      z: "zrep cmp nf t3 fs (Nd (Nd pl pa RB_BLACK pk pd x) ga RB_RED gk gd (paint RB_BLACK u))"
      by blast
    have "insert_loop (rt x) t = insert_loop (Some ga) t3"
      using rd st 2 x tcol_red_Nd [OF 2(2)] by (auto simp: insert_loop.simps [of "Some a" t])
    moreover have "\<exists>t'. insert_loop (Some ga) t3 = Some t' \<and>
        zrep cmp nf t' [] (zfix fs (Nd (Nd pl pa RB_BLACK pk pd x) ga RB_RED gk gd (paint RB_BLACK u)))"
      using "2.IH" [of t3] z 2 root_black_Cons2 "2.prems"(3) by force
    ultimately show ?thesis using 2 by simp
  next
    case 3
    from zrep_rotate_left_L [OF foc [unfolded x]] obtain t0 where
      t0: "rotate_left (Some pa) t = Some t0" and
      z0: "zrep cmp nf t0 fs (Nd (Nd (Nd pl pa pc pk pd xl) a c k d xr) ga gc gk gd u)" by blast
    have par: "get_parent t0 (Some pa) = Some (Some a)"
      using z0 by (simp add: zrep_def get_parent_def deref_def)
    from rotate_fix_L [OF z0] obtain t1 t2 t3 where
      st: "set_color RB_BLACK (Some a) t0 = Some t1" "set_color RB_RED (Some ga) t1 = Some t2"
        "rotate_right (Some ga) t2 = Some t3" and
      z: "zrep cmp nf t3 fs (Nd (Nd pl pa pc pk pd xl) a RB_BLACK k d (Nd xr ga RB_RED gk gd u))" by blast
    have "insert_loop (rt x) t = insert_loop (Some pa) t3"
      using rd t0 par st 3 x by (auto simp: insert_loop.simps [of "Some a" t])
    moreover have "zrep cmp nf t3 (LFr a RB_BLACK k d (Nd xr ga RB_RED gk gd u) # fs) (Nd pl pa pc pk pd xl)"
      using z by (simp add: zrep_up)
    ultimately show ?thesis
      using insert_loop_plug [of cmp nf t3 "LFr a RB_BLACK k d (Nd xr ga RB_RED gk gd u) # fs" "Nd pl pa pc pk pd xl"]
        3 x by simp
  qed
next
  case (3 pl pa pc pk pd u ga gc gk gd fs x)
  obtain xl a c k d xr where x: "x = Nd xl a c k d xr" using "3.prems"(2) by (cases x) auto
  note rd = loop_nodes_RR [OF "3.prems"(1) [unfolded x]]
  have foc: "zrep cmp nf t fs (Nd u ga gc gk gd (Nd pl pa pc pk pd x))"
    using "3.prems"(1) by (simp add: zrep_up)
  consider "pc = RB_BLACK" | "pc = RB_RED" "tcol u = RB_RED" | "pc = RB_RED" "tcol u = RB_BLACK"
    by (cases pc; cases "tcol u") auto
  then show ?case
  proof cases
    case 1
    then show ?thesis using insert_loop_plug [OF "3.prems"(1,2)] by simp
  next
    case 2
    from recolor_R [OF foc 2(2)] obtain t1 t2 t3 where
      st: "set_color RB_RED (Some ga) t = Some t1" "set_color RB_BLACK (Some pa) t1 = Some t2"
        "set_color RB_BLACK (rt u) t2 = Some t3" and
      z: "zrep cmp nf t3 fs (Nd (paint RB_BLACK u) ga RB_RED gk gd (Nd pl pa RB_BLACK pk pd x))"
      by blast
    have "insert_loop (rt x) t = insert_loop (Some ga) t3"
      using rd st 2 x tcol_red_Nd [OF 2(2)] by (auto simp: insert_loop.simps [of "Some a" t])
    moreover have "\<exists>t'. insert_loop (Some ga) t3 = Some t' \<and>
        zrep cmp nf t' [] (zfix fs (Nd (paint RB_BLACK u) ga RB_RED gk gd (Nd pl pa RB_BLACK pk pd x)))"
      using "3.IH" [of t3] z 2 root_black_Cons2 "3.prems"(3) by force
    ultimately show ?thesis using 2 by simp
  next
    case 3
    from rotate_fix_R [OF foc] obtain t1 t2 t3 where
      st: "set_color RB_BLACK (Some pa) t = Some t1" "set_color RB_RED (Some ga) t1 = Some t2"
        "rotate_left (Some ga) t2 = Some t3" and
      z: "zrep cmp nf t3 fs (Nd (Nd u ga RB_RED gk gd pl) pa RB_BLACK pk pd x)" by blast
    have "insert_loop (rt x) t = insert_loop (rt x) t3"
      using rd st 3 x by (auto simp: insert_loop.simps [of "Some a" t])
    moreover have "zrep cmp nf t3 (RFr (Nd u ga RB_RED gk gd pl) pa RB_BLACK pk pd # fs) x"
      using z by (simp add: zrep_up)
    ultimately show ?thesis
      using insert_loop_plug [OF _ "3.prems"(2), of cmp nf t3 "RFr (Nd u ga RB_RED gk gd pl) pa RB_BLACK pk pd # fs"]
        3 by simp
  qed
next
  case (4 pa pc pk pd pr u ga gc gk gd fs x)
  obtain xl a c k d xr where x: "x = Nd xl a c k d xr" using "4.prems"(2) by (cases x) auto
  note rd = loop_nodes_LR [OF "4.prems"(1) [unfolded x]]
  have foc: "zrep cmp nf t fs (Nd u ga gc gk gd (Nd x pa pc pk pd pr))"
    using "4.prems"(1) by (simp add: zrep_up)
  consider "pc = RB_BLACK" | "pc = RB_RED" "tcol u = RB_RED" | "pc = RB_RED" "tcol u = RB_BLACK"
    by (cases pc; cases "tcol u") auto
  then show ?case
  proof cases
    case 1
    then show ?thesis using insert_loop_plug [OF "4.prems"(1,2)] by simp
  next
    case 2
    from recolor_R [OF foc 2(2)] obtain t1 t2 t3 where
      st: "set_color RB_RED (Some ga) t = Some t1" "set_color RB_BLACK (Some pa) t1 = Some t2"
        "set_color RB_BLACK (rt u) t2 = Some t3" and
      z: "zrep cmp nf t3 fs (Nd (paint RB_BLACK u) ga RB_RED gk gd (Nd x pa RB_BLACK pk pd pr))"
      by blast
    have "insert_loop (rt x) t = insert_loop (Some ga) t3"
      using rd st 2 x tcol_red_Nd [OF 2(2)] by (auto simp: insert_loop.simps [of "Some a" t])
    moreover have "\<exists>t'. insert_loop (Some ga) t3 = Some t' \<and>
        zrep cmp nf t' [] (zfix fs (Nd (paint RB_BLACK u) ga RB_RED gk gd (Nd x pa RB_BLACK pk pd pr)))"
      using "4.IH" [of t3] z 2 root_black_Cons2 "4.prems"(3) by force
    ultimately show ?thesis using 2 by simp
  next
    case 3
    from zrep_rotate_right_R [OF foc [unfolded x]] obtain t0 where
      t0: "rotate_right (Some pa) t = Some t0" and
      z0: "zrep cmp nf t0 fs (Nd u ga gc gk gd (Nd xl a c k d (Nd xr pa pc pk pd pr)))" by blast
    have par: "get_parent t0 (Some pa) = Some (Some a)"
      using z0 by (simp add: zrep_def get_parent_def deref_def)
    from rotate_fix_R [OF z0] obtain t1 t2 t3 where
      st: "set_color RB_BLACK (Some a) t0 = Some t1" "set_color RB_RED (Some ga) t1 = Some t2"
        "rotate_left (Some ga) t2 = Some t3" and
      z: "zrep cmp nf t3 fs (Nd (Nd u ga RB_RED gk gd xl) a RB_BLACK k d (Nd xr pa pc pk pd pr))" by blast
    have "insert_loop (rt x) t = insert_loop (Some pa) t3"
      using rd t0 par st 3 x by (auto simp: insert_loop.simps [of "Some a" t])
    moreover have "zrep cmp nf t3 (RFr (Nd u ga RB_RED gk gd xl) a RB_BLACK k d # fs) (Nd xr pa pc pk pd pr)"
      using z by (simp add: zrep_up)
    ultimately show ?thesis
      using insert_loop_plug [of cmp nf t3 "RFr (Nd u ga RB_RED gk gd xl) a RB_BLACK k d # fs" "Nd xr pa pc pk pd pr"]
        3 x by simp
  qed
next
  case (5 x)
  then show ?case using insert_loop_plug [of cmp nf t "[]" x] by simp
next
  case (6 f x)
  then show ?case using insert_loop_plug [of cmp nf t "[f]" x] by simp
qed

end
