(* ===== verification/Rbtree_Delete.thy ===== *)
theory Rbtree_Delete
  imports Rbtree_Insert
begin

text \<open>
  Simulation of deletion: the six delete cases and \<open>__rbtree_remove\<close> against the frame
  functions of \<open>Rbtree_Zipper\<close>.
\<close>

section \<open>What the delete cases read\<close>

lemma zrep_sibling:
  "zrep cmp nf t (f # fs) x \<Longrightarrow> x \<noteq> Lf \<Longrightarrow> sibling t (rt x) = Some (rt (sib f))"
  by (cases f; cases x) (auto simp: zrep_def sibling_def deref_def dest: rt_in_addrs)

lemma zrep_parent_color:
  "zrep cmp nf t (f # fs) x \<Longrightarrow> get_color t (Some (faddr f)) = Some (fcol f)"
  by (cases f) (auto simp: zrep_def get_color_def deref_def)

lemma zrep_sib_color: "zrep cmp nf t (f # fs) x \<Longrightarrow> get_color t (rt (sib f)) = Some (tcol (sib f))"
  by (cases f) (auto simp: zrep_def trep_get_color)

lemma zrep_deref_L:
  "zrep cmp nf t (LFr a c k d r # fs) x \<Longrightarrow>
     deref t (Some a) = Some (mk_node (ctop fs) (rt x) (rt r) c k d)"
  by (simp add: deref_def zrep_def)

lemma zrep_deref_R:
  "zrep cmp nf t (RFr l a c k d # fs) x \<Longrightarrow>
     deref t (Some a) = Some (mk_node (ctop fs) (rt l) (rt x) c k d)"
  by (simp add: deref_def zrep_def)

lemma zrep_sib_node:
  assumes "zrep cmp nf t (f # fs) x" "sib f = Nd sl sa sc sk sd sr"
  shows "deref t (Some sa) = Some (mk_node (Some (faddr f)) (rt sl) (rt sr) sc sk sd)"
    "get_color t (rt sl) = Some (tcol sl)" "get_color t (rt sr) = Some (tcol sr)"
  using assms by (cases f; auto simp: zrep_def deref_def trep_get_color)+

lemma zrep_rt_neq_sib: "zrep cmp nf t (f # fs) x \<Longrightarrow> x \<noteq> Lf \<Longrightarrow> rt x \<noteq> rt (sib f)"
  by (cases f; cases x; cases "sib f") (auto simp: zrep_def)

lemmas zrep_reads =
  zrep_sibling zrep_parent_color zrep_sib_color zrep_get_parent

section \<open>Colouring two levels below the position\<close>

lemma zrep_set_color_RR:
  assumes "zrep cmp nf t fs (Nd u a c k d (Nd v b c' k' d' (Nd l e c0 k0 d0 r)))"
  shows "\<exists>t'. set_color c1 (Some e) t = Some t' \<and>
           zrep cmp nf t' fs (Nd u a c k d (Nd v b c' k' d' (Nd l e c1 k0 d0 r)))"
  using zrep_set_color [of cmp nf t "RFr v b c' k' d' # RFr u a c k d # fs"] assms
  by (simp add: zrep_up)

lemma zrep_set_color_RL:
  assumes "zrep cmp nf t fs (Nd u a c k d (Nd (Nd l e c0 k0 d0 r) b c' k' d' v))"
  shows "\<exists>t'. set_color c1 (Some e) t = Some t' \<and>
           zrep cmp nf t' fs (Nd u a c k d (Nd (Nd l e c1 k0 d0 r) b c' k' d' v))"
  using zrep_set_color [of cmp nf t "LFr b c' k' d' v # RFr u a c k d # fs"] assms
  by (simp add: zrep_up)

lemma zrep_set_color_LL:
  assumes "zrep cmp nf t fs (Nd (Nd (Nd l e c0 k0 d0 r) b c' k' d' v) a c k d u)"
  shows "\<exists>t'. set_color c1 (Some e) t = Some t' \<and>
           zrep cmp nf t' fs (Nd (Nd (Nd l e c1 k0 d0 r) b c' k' d' v) a c k d u)"
  using zrep_set_color [of cmp nf t "LFr b c' k' d' v # LFr a c k d u # fs"] assms
  by (simp add: zrep_up)

lemma zrep_set_color_LR:
  assumes "zrep cmp nf t fs (Nd (Nd v b c' k' d' (Nd l e c0 k0 d0 r)) a c k d u)"
  shows "\<exists>t'. set_color c1 (Some e) t = Some t' \<and>
           zrep cmp nf t' fs (Nd (Nd v b c' k' d' (Nd l e c1 k0 d0 r)) a c k d u)"
  using zrep_set_color [of cmp nf t "RFr v b c' k' d' # LFr a c k d u # fs"] assms
  by (simp add: zrep_up)

section \<open>The delete cases\<close>

lemma delete_case6_sim_L:
  assumes z: "zrep cmp nf t (LFr a c k d (Nd sl sa sc sk sd sr) # fs) x"
    and x: "x \<noteq> Lf" and sr: "tcol sr = RB_RED"
  shows "\<exists>t'. delete_case6 t (rt x) = Some t' \<and>
     zrep cmp nf t' (zcase6 (LFr a c k d (Nd sl sa sc sk sd sr) # fs)) x"
proof -
  obtain rl ra rk rd rr where r: "sr = Nd rl ra RB_RED rk rd rr" using tcol_red_Nd sr by blast
  have foc: "zrep cmp nf t fs (Nd x a c k d (Nd sl sa sc sk sd sr))" using z by (simp add: zrep_up)
  from zrep_set_color_R [OF foc, of c] obtain t1 where
    t1: "set_color c (Some sa) t = Some t1" and
    z1: "zrep cmp nf t1 fs (Nd x a c k d (Nd sl sa c sk sd sr))" by blast
  from zrep_set_color [OF z1, of RB_BLACK] obtain t2 where
    t2: "set_color RB_BLACK (Some a) t1 = Some t2" and
    z2: "zrep cmp nf t2 fs (Nd x a RB_BLACK k d (Nd sl sa c sk sd sr))" by blast
  from zrep_set_color_RR [OF z2 [unfolded r], of RB_BLACK] obtain t3 where
    t3: "set_color RB_BLACK (Some ra) t2 = Some t3" and
    z3: "zrep cmp nf t3 fs (Nd x a RB_BLACK k d (Nd sl sa c sk sd (Nd rl ra RB_BLACK rk rd rr)))"
    by blast
  from zrep_rotate_left [OF z3] obtain t4 where
    t4: "rotate_left (Some a) t3 = Some t4" and
    z4: "zrep cmp nf t4 fs (Nd (Nd x a RB_BLACK k d sl) sa c sk sd (Nd rl ra RB_BLACK rk rd rr))"
    by blast
  have f2: "zrep cmp nf t2 (LFr a RB_BLACK k d (Nd sl sa c sk sd sr) # fs) x"
    using z2 by (simp add: zrep_up)
  have "delete_case6 t (rt x) = Some t4"
    using zrep_reads [OF z] x t1 t2 t3 t4 r zrep_deref_L [OF f2] zrep_sib_node [OF f2]
    by (simp add: delete_case6_def)
  with z4 r show ?thesis by (simp add: zrep_up)
qed

lemma delete_case6_sim_R:
  assumes z: "zrep cmp nf t (RFr (Nd sl sa sc sk sd sr) a c k d # fs) x"
    and x: "x \<noteq> Lf" and sl: "tcol sl = RB_RED"
  shows "\<exists>t'. delete_case6 t (rt x) = Some t' \<and>
     zrep cmp nf t' (zcase6 (RFr (Nd sl sa sc sk sd sr) a c k d # fs)) x"
proof -
  obtain rl ra rk rd rr where r: "sl = Nd rl ra RB_RED rk rd rr" using tcol_red_Nd sl by blast
  have foc: "zrep cmp nf t fs (Nd (Nd sl sa sc sk sd sr) a c k d x)" using z by (simp add: zrep_up)
  from zrep_set_color_L [OF foc, of c] obtain t1 where
    t1: "set_color c (Some sa) t = Some t1" and
    z1: "zrep cmp nf t1 fs (Nd (Nd sl sa c sk sd sr) a c k d x)" by blast
  from zrep_set_color [OF z1, of RB_BLACK] obtain t2 where
    t2: "set_color RB_BLACK (Some a) t1 = Some t2" and
    z2: "zrep cmp nf t2 fs (Nd (Nd sl sa c sk sd sr) a RB_BLACK k d x)" by blast
  from zrep_set_color_LL [OF z2 [unfolded r], of RB_BLACK] obtain t3 where
    t3: "set_color RB_BLACK (Some ra) t2 = Some t3" and
    z3: "zrep cmp nf t3 fs (Nd (Nd (Nd rl ra RB_BLACK rk rd rr) sa c sk sd sr) a RB_BLACK k d x)"
    by blast
  from zrep_rotate_right [OF z3] obtain t4 where
    t4: "rotate_right (Some a) t3 = Some t4" and
    z4: "zrep cmp nf t4 fs (Nd (Nd rl ra RB_BLACK rk rd rr) sa c sk sd (Nd sr a RB_BLACK k d x))"
    by blast
  have f2: "zrep cmp nf t2 (RFr (Nd sl sa c sk sd sr) a RB_BLACK k d # fs) x"
    using z2 by (simp add: zrep_up)
  have "delete_case6 t (rt x) = Some t4"
    using zrep_reads [OF z] x t1 t2 t3 t4 r zrep_deref_R [OF f2] zrep_sib_node [OF f2]
      zrep_rt_neq_sib [OF f2 x]
    by (simp add: delete_case6_def)
  with z4 r show ?thesis by (simp add: zrep_up)
qed

lemma delete_case5_sim_L:
  assumes z: "zrep cmp nf t (LFr a c k d (Nd sl sa RB_BLACK sk sd sr) # fs) x"
    and x: "x \<noteq> Lf" and kids: "\<not> (tcol sl = RB_BLACK \<and> tcol sr = RB_BLACK)"
  shows "\<exists>t'. delete_case5 t (rt x) = Some t' \<and>
     zrep cmp nf t' (zcase5 (LFr a c k d (Nd sl sa RB_BLACK sk sd sr) # fs)) x"
proof (cases "tcol sr")
  case RB_RED
  have "delete_case5 t (rt x) = delete_case6 t (rt x)"
    using zrep_reads [OF z] zrep_sib_node [OF z] zrep_deref_L [OF z] zrep_rt_neq_sib [OF z x] x RB_RED
    by (auto simp: delete_case5_def)
  moreover have "zcase5 (LFr a c k d (Nd sl sa RB_BLACK sk sd sr) # fs) =
      zcase6 (LFr a c k d (Nd sl sa RB_BLACK sk sd sr) # fs)"
    using RB_RED by (cases sl) auto
  ultimately show ?thesis using delete_case6_sim_L [OF z x RB_RED] by simp
next
  case RB_BLACK
  with kids obtain p la lk ld q where sl: "sl = Nd p la RB_RED lk ld q"
    using tcol_red_Nd by auto blast
  have foc: "zrep cmp nf t fs (Nd x a c k d (Nd sl sa RB_BLACK sk sd sr))"
    using z by (simp add: zrep_up)
  from zrep_set_color_R [OF foc, of RB_RED] obtain t1 where
    t1: "set_color RB_RED (Some sa) t = Some t1" and
    z1: "zrep cmp nf t1 fs (Nd x a c k d (Nd sl sa RB_RED sk sd sr))" by blast
  have f1: "zrep cmp nf t1 (LFr a c k d (Nd sl sa RB_RED sk sd sr) # fs) x"
    using z1 by (simp add: zrep_up)
  from zrep_set_color_RL [OF z1 [unfolded sl], of RB_BLACK] obtain t2 where
    t2: "set_color RB_BLACK (Some la) t1 = Some t2" and
    z2: "zrep cmp nf t2 fs (Nd x a c k d (Nd (Nd p la RB_BLACK lk ld q) sa RB_RED sk sd sr))" by blast
  from zrep_rotate_right_R [OF z2] obtain t3 where
    t3: "rotate_right (Some sa) t2 = Some t3" and
    z3: "zrep cmp nf t3 fs (Nd x a c k d (Nd p la RB_BLACK lk ld (Nd q sa RB_RED sk sd sr)))" by blast
  have f3: "zrep cmp nf t3 (LFr a c k d (Nd p la RB_BLACK lk ld (Nd q sa RB_RED sk sd sr)) # fs) x"
    using z3 by (simp add: zrep_up)
  have "delete_case5 t (rt x) = delete_case6 t3 (rt x)"
    using zrep_reads [OF z] zrep_sib_node [OF z] zrep_deref_L [OF z] zrep_sib_node [OF f1]
      x RB_BLACK sl t1 t2 t3
    by (simp add: delete_case5_def)
  then show ?thesis using delete_case6_sim_L [OF f3 x] RB_BLACK sl by simp
qed

lemma delete_case5_sim_R:
  assumes z: "zrep cmp nf t (RFr (Nd sl sa RB_BLACK sk sd sr) a c k d # fs) x"
    and x: "x \<noteq> Lf" and kids: "\<not> (tcol sl = RB_BLACK \<and> tcol sr = RB_BLACK)"
  shows "\<exists>t'. delete_case5 t (rt x) = Some t' \<and>
     zrep cmp nf t' (zcase5 (RFr (Nd sl sa RB_BLACK sk sd sr) a c k d # fs)) x"
proof (cases "tcol sl")
  case RB_RED
  have "delete_case5 t (rt x) = delete_case6 t (rt x)"
    using zrep_reads [OF z] zrep_sib_node [OF z] zrep_deref_R [OF z] zrep_rt_neq_sib [OF z x] x RB_RED
    by (auto simp: delete_case5_def)
  moreover have "zcase5 (RFr (Nd sl sa RB_BLACK sk sd sr) a c k d # fs) =
      zcase6 (RFr (Nd sl sa RB_BLACK sk sd sr) a c k d # fs)"
    using RB_RED by (cases sr) auto
  ultimately show ?thesis using delete_case6_sim_R [OF z x RB_RED] by simp
next
  case RB_BLACK
  with kids obtain p ra rk rd q where sr: "sr = Nd p ra RB_RED rk rd q"
    using tcol_red_Nd by auto blast
  have foc: "zrep cmp nf t fs (Nd (Nd sl sa RB_BLACK sk sd sr) a c k d x)"
    using z by (simp add: zrep_up)
  from zrep_set_color_L [OF foc, of RB_RED] obtain t1 where
    t1: "set_color RB_RED (Some sa) t = Some t1" and
    z1: "zrep cmp nf t1 fs (Nd (Nd sl sa RB_RED sk sd sr) a c k d x)" by blast
  have f1: "zrep cmp nf t1 (RFr (Nd sl sa RB_RED sk sd sr) a c k d # fs) x"
    using z1 by (simp add: zrep_up)
  from zrep_set_color_LR [OF z1 [unfolded sr], of RB_BLACK] obtain t2 where
    t2: "set_color RB_BLACK (Some ra) t1 = Some t2" and
    z2: "zrep cmp nf t2 fs (Nd (Nd sl sa RB_RED sk sd (Nd p ra RB_BLACK rk rd q)) a c k d x)" by blast
  from zrep_rotate_left_L [OF z2] obtain t3 where
    t3: "rotate_left (Some sa) t2 = Some t3" and
    z3: "zrep cmp nf t3 fs (Nd (Nd (Nd sl sa RB_RED sk sd p) ra RB_BLACK rk rd q) a c k d x)" by blast
  have f3: "zrep cmp nf t3 (RFr (Nd (Nd sl sa RB_RED sk sd p) ra RB_BLACK rk rd q) a c k d # fs) x"
    using z3 by (simp add: zrep_up)
  have "delete_case5 t (rt x) = delete_case6 t3 (rt x)"
    using zrep_reads [OF z] zrep_sib_node [OF z] zrep_deref_R [OF z] zrep_sib_node [OF f1]
      zrep_rt_neq_sib [OF z x] x RB_BLACK sr t1 t2 t3
    by (simp add: delete_case5_def)
  then show ?thesis using delete_case6_sim_R [OF f3 x] RB_BLACK sr by simp
qed

lemma delete_case5_sim:
  assumes "zrep cmp nf t (f # fs) x" "x \<noteq> Lf" "tcol (sib f) = RB_BLACK"
    and "sib f \<noteq> Lf" "\<not> black_kids (sib f)"
  shows "\<exists>t'. delete_case5 t (rt x) = Some t' \<and> zrep cmp nf t' (zcase5 (f # fs)) x"
proof -
  obtain sl sa sk sd sr where "sib f = Nd sl sa RB_BLACK sk sd sr"
    using assms(3,4) by (cases "sib f") auto
  with assms delete_case5_sim_L [of cmp nf t _ _ _ _ sl sa sk sd sr fs x]
    delete_case5_sim_R [of cmp nf t sl sa sk sd sr _ _ _ _ fs x]
  show ?thesis by (cases f) simp_all
qed

lemma zrep_set_sib_red:
  assumes "zrep cmp nf t (f # fs) x" "sib f \<noteq> Lf"
  shows "\<exists>t'. set_color c (rt (sib f)) t = Some t' \<and> zrep cmp nf t' (set_sib (paint c (sib f)) f # fs) x"
proof -
  obtain sl sa sc sk sd sr where sib: "sib f = Nd sl sa sc sk sd sr"
    using assms(2) by (cases "sib f") auto
  show ?thesis
  proof (cases f)
    case (LFr a c' k d r)
    with assms(1) sib zrep_set_color_R [of cmp nf t fs x a c' k d sl sa sc sk sd sr c]
    show ?thesis by (simp add: zrep_up)
  next
    case (RFr l a c' k d)
    with assms(1) sib zrep_set_color_L [of cmp nf t fs sl sa sc sk sd sr a c' k d x c]
    show ?thesis by (simp add: zrep_up)
  qed
qed

lemma zrep_paint_frame:
  assumes "zrep cmp nf t (f # fs) x"
  shows "\<exists>t'. set_color c (Some (faddr f)) t = Some t' \<and> zrep cmp nf t' (fpaint c f # fs) x"
proof (cases f)
  case (LFr a c' k d r)
  with assms zrep_set_color [of cmp nf t fs x a c' k d r c] show ?thesis by (simp add: zrep_up)
next
  case (RFr l a c' k d)
  with assms zrep_set_color [of cmp nf t fs l a c' k d x c] show ?thesis by (simp add: zrep_up)
qed

lemma faddr_set_sib [simp]: "faddr (set_sib s f) = faddr f"
  by (cases f) auto

lemma delete_case4_sim:
  assumes z: "zrep cmp nf t (f # fs) x" and x: "x \<noteq> Lf" and s: "tcol (sib f) = RB_BLACK" "sib f \<noteq> Lf"
    and k: "fcol f = RB_BLACK \<Longrightarrow> \<not> black_kids (sib f)"
  shows "\<exists>t'. delete_case4 t (rt x) = Some t' \<and> zrep cmp nf t' (zcase4 (f # fs)) x"
proof -
  obtain sl sa sk sd sr where sib: "sib f = Nd sl sa RB_BLACK sk sd sr" using s by (cases "sib f") auto
  show ?thesis
  proof (cases "black_kids (sib f)")
    case True
    with k have red: "fcol f = RB_RED" by (cases "fcol f") auto
    from zrep_set_sib_red [OF z s(2), of RB_RED] obtain t1 where
      t1: "set_color RB_RED (rt (sib f)) t = Some t1" and
      z1: "zrep cmp nf t1 (set_sib (paint RB_RED (sib f)) f # fs) x" by blast
    from zrep_paint_frame [OF z1, of RB_BLACK] obtain t2 where
      t2: "set_color RB_BLACK (Some (faddr f)) t1 = Some t2" and
      z2: "zrep cmp nf t2 (fpaint RB_BLACK (set_sib (paint RB_RED (sib f)) f) # fs) x" by auto
    have "delete_case4 t (rt x) = Some t2"
      using zrep_reads [OF z] zrep_sib_node [OF z sib] x red s sib True t1 t2
      by (simp add: delete_case4_def)
    with z2 red s True show ?thesis by simp
  next
    case False
    have "delete_case4 t (rt x) = delete_case5 t (rt x)"
      using zrep_reads [OF z] zrep_sib_node [OF z sib] x s sib False
      by (auto simp: delete_case4_def)
    with delete_case5_sim [OF z x s False] False show ?thesis by simp
  qed
qed

text \<open>Case 3 when it does not stop at all-black: it is case 4.\<close>

lemma delete_case3_other:
  assumes z: "zrep cmp nf t (f # fs) x" and x: "x \<noteq> Lf" and s: "tcol (sib f) = RB_BLACK" "sib f \<noteq> Lf"
    and k: "fcol f = RB_BLACK \<Longrightarrow> \<not> black_kids (sib f)"
  shows "delete_case3 case1 t (rt x) = delete_case4 t (rt x)"
proof -
  obtain sl sa sk sd sr where sib: "sib f = Nd sl sa RB_BLACK sk sd sr" using s by (cases "sib f") auto
  have "\<exists>n. deref t (Some (faddr f)) = Some n \<and> rb_color n = fcol f"
    using zrep_deref_L zrep_deref_R z by (cases f) fastforce+
  then show ?thesis
    using zrep_reads [OF z] zrep_sib_node [OF z sib] x s sib k
    by (cases "fcol f") (auto simp: delete_case3_def)
qed

lemma delete_case3_black:
  assumes z: "zrep cmp nf t (f # fs) x" and x: "x \<noteq> Lf" and s: "tcol (sib f) = RB_BLACK" "black_kids (sib f)"
    and f: "fcol f = RB_BLACK"
  shows "\<exists>t'. delete_case3 case1 t (rt x) = case1 t' (Some (faddr f)) \<and>
     zrep cmp nf t' (set_sib (paint RB_RED (sib f)) f # fs) x"
proof -
  obtain sl sa sk sd sr where sib: "sib f = Nd sl sa RB_BLACK sk sd sr" using s by (cases "sib f") auto
  then have "sib f \<noteq> Lf" by simp
  from zrep_set_sib_red [OF z this, of RB_RED] obtain t1 where
    t1: "set_color RB_RED (rt (sib f)) t = Some t1" and
    z1: "zrep cmp nf t1 (set_sib (paint RB_RED (sib f)) f # fs) x" by blast
  have "\<exists>n. deref t (Some (faddr f)) = Some n \<and> rb_color n = fcol f"
    using zrep_deref_L zrep_deref_R z by (cases f) fastforce+
  then have "delete_case3 case1 t (rt x) = case1 t1 (Some (faddr f))"
    using zrep_reads [OF z] zrep_sib_node [OF z sib] x s sib t1 f
    by (auto simp: delete_case3_def)
  with z1 show ?thesis by blast
qed

lemma delete_case2_black:
  assumes "zrep cmp nf t (f # fs) x" "x \<noteq> Lf" "tcol (sib f) = RB_BLACK"
  shows "delete_case2 case1 t (rt x) = delete_case3 case1 t (rt x)"
  using zrep_reads [OF assms(1)] assms(2,3) by (simp add: delete_case2_def)

lemma delete_case2_red:
  assumes z: "zrep cmp nf t (f # fs) x" and x: "x \<noteq> Lf" and s: "tcol (sib f) = RB_RED"
  shows "\<exists>t'. delete_case2 case1 t (rt x) = delete_case3 case1 t' (rt x) \<and>
     zrep cmp nf t' (zcase2 (f # fs)) x"
proof (cases f)
  case (LFr a c k d r)
  obtain sl sa sk sd sr where r: "r = Nd sl sa RB_RED sk sd sr" using tcol_red_Nd s LFr by auto blast
  have foc: "zrep cmp nf t fs (Nd x a c k d r)" using z LFr by (simp add: zrep_up)
  from zrep_set_color [OF foc, of RB_RED] obtain t1 where
    t1: "set_color RB_RED (Some a) t = Some t1" and z1: "zrep cmp nf t1 fs (Nd x a RB_RED k d r)" by blast
  from zrep_set_color_R [OF z1 [unfolded r], of RB_BLACK] obtain t2 where
    t2: "set_color RB_BLACK (Some sa) t1 = Some t2" and
    z2: "zrep cmp nf t2 fs (Nd x a RB_RED k d (Nd sl sa RB_BLACK sk sd sr))" by blast
  from zrep_rotate_left [OF z2] obtain t3 where
    t3: "rotate_left (Some a) t2 = Some t3" and
    z3: "zrep cmp nf t3 fs (Nd (Nd x a RB_RED k d sl) sa RB_BLACK sk sd sr)" by blast
  have "zrep cmp nf t2 (LFr a RB_RED k d (Nd sl sa RB_BLACK sk sd sr) # fs) x"
    using z2 by (simp add: zrep_up)
  note zrep_deref_L [OF this]
  then have "delete_case2 case1 t (rt x) = delete_case3 case1 t3 (rt x)"
    using zrep_reads [OF z] x s LFr r t1 t2 t3 by (simp add: delete_case2_def)
  with z3 LFr r show ?thesis by (auto simp: zrep_up)
next
  case (RFr l a c k d)
  obtain sl sa sk sd sr where l: "l = Nd sl sa RB_RED sk sd sr" using tcol_red_Nd s RFr by auto blast
  have foc: "zrep cmp nf t fs (Nd l a c k d x)" using z RFr by (simp add: zrep_up)
  from zrep_set_color [OF foc, of RB_RED] obtain t1 where
    t1: "set_color RB_RED (Some a) t = Some t1" and z1: "zrep cmp nf t1 fs (Nd l a RB_RED k d x)" by blast
  from zrep_set_color_L [OF z1 [unfolded l], of RB_BLACK] obtain t2 where
    t2: "set_color RB_BLACK (Some sa) t1 = Some t2" and
    z2: "zrep cmp nf t2 fs (Nd (Nd sl sa RB_BLACK sk sd sr) a RB_RED k d x)" by blast
  from zrep_rotate_right [OF z2] obtain t3 where
    t3: "rotate_right (Some a) t2 = Some t3" and
    z3: "zrep cmp nf t3 fs (Nd sl sa RB_BLACK sk sd (Nd sr a RB_RED k d x))" by blast
  have f2: "zrep cmp nf t2 (RFr (Nd sl sa RB_BLACK sk sd sr) a RB_RED k d # fs) x"
    using z2 by (simp add: zrep_up)
  note zrep_deref_R [OF f2] zrep_rt_neq_sib [OF f2 x]
  then have "delete_case2 case1 t (rt x) = delete_case3 case1 t3 (rt x)"
    using zrep_reads [OF z] x s RFr l t1 t2 t3 by (simp add: delete_case2_def)
  with z3 RFr l show ?thesis by (auto simp: zrep_up)
qed

lemma delete_case1_sim:
  assumes "zrep cmp nf t fs x" "x \<noteq> Lf" "cinv fs (Suc h)"
  shows "\<exists>t'. delete_case1 t (rt x) = Some t' \<and> zrep cmp nf t' (zdel fs) x"
  using assms
proof (induction fs arbitrary: t x h)
  case Nil
  then show ?case using zrep_get_parent [OF Nil(1,2)] by (simp add: delete_case1.simps [of t])
next
  case (Cons f fs)
  note z = Cons.prems(1) and x = Cons.prems(2)
  have s: "sib f \<noteq> Lf" using cinv_Suc_sib Cons.prems(3) by blast
  have step: "delete_case1 t (rt x) = delete_case2 delete_case1 t (rt x)"
    using zrep_get_parent [OF z x] by (simp add: delete_case1.simps [of t])
  consider (red) "tcol (sib f) = RB_RED"
    | (black) "tcol (sib f) = RB_BLACK" "fcol f = RB_BLACK" "black_kids (sib f)"
    | (other) "tcol (sib f) = RB_BLACK" "fcol f = RB_BLACK \<Longrightarrow> \<not> black_kids (sib f)"
    by (cases "tcol (sib f)"; cases "fcol f") auto
  then show ?case
  proof cases
    case red
    obtain g gs where g: "zcase2 (f # fs) = g # gs"
      by (cases "(f # fs)" rule: zcase2.cases) auto
    have g_inv: "cinv (g # gs) (Suc h) \<and> tcol (sib g) = RB_BLACK \<and> fcol g = RB_RED"
      using Cons.prems(3) red g by (cases "(f # fs)" rule: zcase2.cases) (auto split: if_splits)
    then have g_sib: "sib g \<noteq> Lf" using cinv_Suc_sib by blast
    from delete_case2_red [OF z x red, of delete_case1] obtain t1 where
      t1: "delete_case2 delete_case1 t (rt x) = delete_case3 delete_case1 t1 (rt x)" and
      z1: "zrep cmp nf t1 (g # gs) x" using g by auto
    have "delete_case3 delete_case1 t1 (rt x) = delete_case4 t1 (rt x)"
      using delete_case3_other [OF z1 x] g_inv g_sib by simp
    then show ?thesis using delete_case4_sim [OF z1 x] g_inv g_sib step t1 red g by simp
  next
    case black
    from delete_case3_black [OF z x black(1,3,2), of delete_case1] obtain t1 where
      t1: "delete_case3 delete_case1 t (rt x) = delete_case1 t1 (Some (faddr f))" and
      z1: "zrep cmp nf t1 (set_sib (paint RB_RED (sib f)) f # fs) x" by blast
    let ?y = "fill (set_sib (paint RB_RED (sib f)) f) x"
    have y: "rt ?y = Some (faddr f)" "?y \<noteq> Lf" by (cases f; simp)+
    have "cinv fs (Suc (Suc h))" using Cons.prems(3) black by (cases f) auto
    from Cons.IH [OF _ y(2) this, of t1] z1 y obtain t2 where
      "delete_case1 t1 (Some (faddr f)) = Some t2" "zrep cmp nf t2 (zdel fs) ?y"
      by (auto simp: zrep_up)
    with step delete_case2_black [OF z x black(1), of delete_case1] t1 black show ?thesis
      by (simp add: zrep_up)
  next
    case other
    then have "delete_case1 t (rt x) = delete_case4 t (rt x)"
      using step delete_case2_black [OF z x other(1), of delete_case1] delete_case3_other [OF z x other(1) s]
      by simp
    then show ?thesis using delete_case4_sim [OF z x other(1) s] other by auto
  qed
qed

end
