(* ===== verification/Rbtree_Remove.thy ===== *)
theory Rbtree_Remove
  imports Rbtree_Delete
begin

text \<open>
  Simulation of \<open>get_min\<close>, \<open>replace_node\<close> and \<open>__rbtree_remove\<close>, and the effect of removing a
  node on the colouring, the black height and the key order.
\<close>

section \<open>The minimum of a subtree\<close>

fun zmin :: "('k, 'd) frame list \<Rightarrow> ('k, 'd) rtree \<Rightarrow> ('k, 'd) frame list \<times> ('k, 'd) rtree" where
  "zmin fs Lf = (fs, Lf)"
| "zmin fs (Nd l a c k d r) =
     (if l = Lf then (fs, Nd l a c k d r) else zmin (LFr a c k d r # fs) l)"

lemma get_min_sim:
  assumes "zrep cmp nf t fs x" "x \<noteq> Lf" "zmin fs x = (gs, y)"
  shows "get_min t (rt x) = Some (rt y) \<and> zrep cmp nf t gs y \<and> y \<noteq> Lf"
  using assms
proof (induction x arbitrary: fs)
  case Lf
  then show ?case by simp
next
  case (Nd l a c k d r)
  have n: "deref t (Some a) = Some (mk_node (ctop fs) (rt l) (rt r) c k d)"
    using zrep_deref [OF Nd.prems(1)] by (simp add: deref_def)
  show ?case
  proof (cases "l = Lf")
    case True
    with n Nd.prems show ?thesis by (auto simp: get_min.simps [of t "Some a"])
  next
    case False
    have "zrep cmp nf t (LFr a c k d r # fs) l" using Nd.prems(1) by (simp add: zrep_up)
    from Nd.IH(1) [OF this False] Nd.prems(3) False n show ?thesis
      by (simp add: get_min.simps [of t "Some a"])
  qed
qed

lemma zmin_frames: "\<exists>ms y. \<forall>fs. zmin fs x = (ms @ fs, y)"
proof (induction x)
  case Lf
  show ?case by (rule exI [of _ "[]"]) simp
next
  case (Nd l a c k d r)
  then obtain ms y where "\<forall>fs. zmin fs l = (ms @ fs, y)" by blast
  then show ?case
    by (cases "l = Lf") (auto intro: exI [of _ "[]"] exI [of _ "ms @ [LFr a c k d r]"])
qed

lemma zmin_plug: "zmin fs x = (gs, y) \<Longrightarrow> plug gs y = plug fs x"
  by (induction x arbitrary: fs) (auto split: if_splits)

lemma zmin_lefts: "zmin fs x = (gs, y) \<Longrightarrow> lefts gs = lefts fs"
  by (induction x arbitrary: fs) (auto split: if_splits)

lemma zmin_shape: "zmin fs x = (gs, y) \<Longrightarrow> x \<noteq> Lf \<Longrightarrow> \<exists>a c k d r. y = Nd Lf a c k d r"
  by (induction x arbitrary: fs) (auto split: if_splits)

section \<open>Removing a node with at most one child\<close>

definition zdrop :: "('k, 'd) frame list \<Rightarrow> ('k, 'd) rtree \<Rightarrow> ('k, 'd) rtree" where
  "zdrop gs y =
     (case y of
        Lf \<Rightarrow> plug gs Lf
      | Nd l a c k d r \<Rightarrow>
          (let child = (if r = Lf then l else r);
               hs = (if c = RB_BLACK then zdel gs else gs)
           in if hs = [] then paint RB_BLACK child else plug hs child))"

lemma zdel_Nil [simp]: "zdel fs = [] \<longleftrightarrow> fs = []"
proof (cases fs)
  case (Cons f gs)
  have "zcase6 hs = [] \<longleftrightarrow> hs = []" for hs :: "('a, 'b) frame list"
    by (cases hs rule: zcase6.cases) auto
  moreover have "zcase5 hs = [] \<longleftrightarrow> hs = []" for hs :: "('a, 'b) frame list"
    using calculation by (cases hs rule: zcase5.cases) auto
  moreover have "zcase4 hs = [] \<longleftrightarrow> hs = []" for hs :: "('a, 'b) frame list"
    using calculation by (cases hs rule: zcase4.cases) auto
  moreover have "zcase2 hs = [] \<longleftrightarrow> hs = []" for hs :: "('a, 'b) frame list"
    by (cases hs rule: zcase2.cases) auto
  ultimately show ?thesis using Cons by simp
qed simp

lemma inorder_zdrop:
  assumes "l = Lf \<or> r = Lf"
  shows "inorder (zdrop gs (Nd l a c k d r)) = lefts gs @ inorder l @ inorder r @ rights gs"
  using assms by (auto simp: zdrop_def Let_def)

lemma bh_0: "bh x = 0 \<Longrightarrow> tcol x = RB_BLACK \<Longrightarrow> x = Lf"
  by (cases x) auto

lemma zdrop_inv:
  assumes inv: "rbt_inv (plug gs (Nd l a c k d r))" and one: "l = Lf \<or> r = Lf"
  shows "rbt_inv (zdrop gs (Nd l a c k d r))"
proof -
  define child where "child = (if r = Lf then l else r)"
  have y: "cinv gs (bh (Nd l a c k d r))" "invh (Nd l a c k d r)" "invc (Nd l a c k d r)"
    "ccol gs = RB_RED \<longrightarrow> c = RB_BLACK"
    using rbt_inv_unplug [OF inv] by auto
  have bh: "bh l = 0" "bh r = 0" using one y(2) by auto
  have ch: "bh child = 0" "invh child" "invc child" using bh y(2,3) by (auto simp: child_def)
  show ?thesis
  proof (cases c)
    case RB_BLACK
    have "cinv (zdel gs) 0 \<and> ccol (zdel gs) = RB_BLACK"
      using zdel_inv [of gs 0] y(1) bh RB_BLACK by simp
    moreover have "rbt_inv (paint RB_BLACK child)" using ch by (simp add: rbt_inv_def bh_paint_black)
    ultimately show ?thesis using plug_rbt_inv [of "zdel gs" child] ch RB_BLACK
      by (auto simp: zdrop_def child_def Let_def)
  next
    case RB_RED
    then have "child = Lf" using y(3) bh bh_0 by (auto simp: child_def)
    moreover have "gs \<noteq> []" using inv RB_RED by (auto simp: rbt_inv_def)
    ultimately show ?thesis
      using plug_rbt_inv [of gs Lf] y(1) bh RB_RED by (auto simp: zdrop_def child_def Let_def split: if_splits)
  qed
qed

lemma replace_node_sim:
  assumes z: "zrep cmp nf t gs (Nd l a c k d r)" and one: "l = Lf \<or> r = Lf"
    and child: "child = (if r = Lf then l else r)"
  shows "\<exists>t' n. replace_node t (Some a) (rt child) = Some t' \<and> zrep cmp nf t' gs child \<and>
     rb_nodes t' a = Some n \<and> rb_parent n = ctop gs \<and> a \<notin> addrs child \<union> caddrs gs"
proof (cases gs)
  case Nil
  with assms show ?thesis
    by (cases r; cases l; simp add: zrep_def rb_defs replace_node_def Let_def zrep_norm)
next
  case (Cons f hs)
  then show ?thesis
  proof (cases f)
    case (LFr b c' k' d' u)
    with z one child Cons show ?thesis
      by (cases r; cases l;
          simp add: zrep_def rb_defs replace_node_def Let_def rt_neq zrep_norm)
  next
    case (RFr u b c' k' d')
    with z one child Cons have "rt u \<noteq> Some a" by (auto simp: zrep_def dest: rt_in_addrs)
    with z one child Cons RFr show ?thesis
      by (cases r; cases l;
          simp add: zrep_def rb_defs replace_node_def Let_def rt_neq rt_neq [symmetric] zrep_norm)
  qed
qed

lemma zrep_free:
  "zrep cmp nf t fs x \<Longrightarrow> a \<notin> addrs x \<union> caddrs fs \<Longrightarrow>
     zrep cmp nf (t\<lparr>rb_nodes := (rb_nodes t)(a := None)\<rparr>) fs x"
  by (simp add: zrep_def)

lemma set_color_nodes:
  "set_color c p t = Some t' \<Longrightarrow> p \<noteq> Some a \<Longrightarrow> rb_nodes t' a = rb_nodes t a"
  by (auto simp: rb_defs split: option.splits)

lemma addrs_paint [simp]: "addrs (paint c x) = addrs x"
  by (cases x) auto

text \<open>Rebalancing and unlinking.\<close>

lemma remove_fixup_sim:
  assumes z: "zrep cmp nf t gs (Nd l a c k d r)" and one: "l = Lf \<or> r = Lf"
    and inv: "rbt_inv (plug gs (Nd l a c k d r))"
    and child: "child = (if r = Lf then l else r)"
    and hs: "hs = (if c = RB_BLACK then zdel gs else gs)"
  shows "\<exists>c2 t2. remove_fixup (Some a) (rt child) t = Some t2 \<and> zrep cmp nf t2 hs (Nd l a c2 k d r)"
proof -
  have col: "get_color t (Some a) = Some c" using zrep_get_color [OF z] by simp
  show ?thesis
  proof (cases c)
    case RB_RED
    with z col show ?thesis by (auto simp: hs remove_fixup_def)
  next
    case RB_BLACK
    have cc: "get_color t (rt child) = Some (tcol child)"
      using z by (auto simp: zrep_def child intro: trep_get_color)
    from zrep_set_color [OF z, of "tcol child"] obtain t1 where
      t1: "set_color (tcol child) (Some a) t = Some t1" and
      z1: "zrep cmp nf t1 gs (Nd l a (tcol child) k d r)" by blast
    have "cinv gs (Suc 0)" using rbt_inv_unplug [OF inv] one RB_BLACK by auto
    from delete_case1_sim [OF z1 _ this] obtain t2 where
      "delete_case1 t1 (Some a) = Some t2" "zrep cmp nf t2 (zdel gs) (Nd l a (tcol child) k d r)"
      by auto
    with RB_BLACK col cc t1 show ?thesis by (auto simp: hs remove_fixup_def)
  qed
qed

lemma addrs_plug: "addrs (plug fs x) = addrs x \<union> caddrs fs"
  by (induction fs arbitrary: x rule: caddrs.induct) auto

lemma unlink_node_sim:
  assumes z: "zrep cmp nf t gs (Nd l a c k d r)" and one: "l = Lf \<or> r = Lf"
    and inv: "rbt_inv (plug gs (Nd l a c k d r))"
  shows "\<exists>t'. unlink_node (Some a) t = Some t' \<and> zrep cmp nf t' [] (zdrop gs (Nd l a c k d r))"
proof -
  define child where "child = (if r = Lf then l else r)"
  define hs where "hs = (if c = RB_BLACK then zdel gs else gs)"
  have n: "deref t (Some a) = Some (mk_node (ctop gs) (rt l) (rt r) c k d)"
    using zrep_deref [OF z] by (simp add: deref_def)
  have ch: "(if rt r = NULL then rt l else rt r) = rt child" "l = Lf \<or> r = Lf"
    using one by (simp_all add: child_def)
  from remove_fixup_sim [OF z one inv child_def hs_def] obtain c2 t2 where
    t2: "remove_fixup (Some a) (rt child) t = Some t2" and
    z2: "zrep cmp nf t2 hs (Nd l a c2 k d r)" by blast
  from replace_node_sim [OF z2 one child_def] obtain t3 m where
    t3: "replace_node t2 (Some a) (rt child) = Some t3" and z3: "zrep cmp nf t3 hs child" and
    m: "deref t3 (Some a) = Some m" "rb_parent m = ctop hs" and a: "a \<notin> addrs child \<union> caddrs hs"
    by (auto simp: deref_def)
  have res: "zdrop gs (Nd l a c k d r) = (if hs = [] then paint RB_BLACK child else plug hs child)"
    by (simp add: zdrop_def child_def hs_def Let_def)
  have "\<exists>t4. (if hs = [] \<and> child \<noteq> Lf then set_color RB_BLACK (rt child) t3 else Some t3) = Some t4 \<and>
      zrep cmp nf t4 [] (zdrop gs (Nd l a c k d r))"
  proof (cases "hs = [] \<and> child \<noteq> Lf")
    case True
    then obtain cl ca cc ck cd cr where "child = Nd cl ca cc ck cd cr" by (cases child) auto
    with zrep_set_color [of cmp nf t3 hs cl ca cc ck cd cr RB_BLACK] z3 True res show ?thesis by auto
  next
    case False
    then show ?thesis using z3 zrep_plug [of cmp nf t3 hs child] res by auto
  qed
  then obtain t4 where
    t4: "(if hs = [] \<and> child \<noteq> Lf then set_color RB_BLACK (rt child) t3 else Some t3) = Some t4" and
    z4: "zrep cmp nf t4 [] (zdrop gs (Nd l a c k d r))" by blast
  have "unlink_node (Some a) t = Some (t4\<lparr>rb_nodes := (rb_nodes t4)(a := None)\<rparr>)"
    using n ch t2 t3 m t4
    by (cases "r = Lf"; cases "hs = []"; cases "child = Lf")
      (simp_all add: unlink_node_def Let_def child_def)
  moreover have "a \<notin> addrs (zdrop gs (Nd l a c k d r)) \<union> caddrs ([] :: ('a, 'b) frame list)"
    using a res by (simp add: addrs_plug)
  ultimately show ?thesis using zrep_free [OF z4] by blast
qed

section \<open>Removing any node\<close>

definition zremove :: "('k, 'd) frame list \<Rightarrow> ('k, 'd) rtree \<Rightarrow> ('k, 'd) rtree" where
  "zremove fs x =
     (case x of
        Lf \<Rightarrow> plug fs Lf
      | Nd l a c k d r \<Rightarrow>
          if l \<noteq> Lf \<and> r \<noteq> Lf then
            (case inorder r of
               (k', d') # _ \<Rightarrow> (case zmin (RFr l a c k' d' # fs) r of (gs, y) \<Rightarrow> zdrop gs y)
             | [] \<Rightarrow> plug fs x)
          else zdrop fs x)"

lemma zmin_inorder:
  assumes "zmin fs x = (gs, y)" "x \<noteq> Lf"
  obtains a c k d r where "y = Nd Lf a c k d r"
    "inorder x @ rights fs = (k, d) # inorder r @ rights gs"
proof -
  obtain a c k d r where y: "y = Nd Lf a c k d r" using zmin_shape [OF assms] by blast
  have "lefts gs @ inorder y @ rights gs = lefts fs @ inorder x @ rights fs"
    using zmin_plug [OF assms(1)] by (metis inorder_plug)
  with zmin_lefts [OF assms(1)] y that show ?thesis by auto
qed

lemma rbt_inv_relabel:
  assumes "rbt_inv (plug fs (Nd l a c k d r))"
  shows "rbt_inv (plug fs (Nd l a c k' d' r))"
proof -
  have "fs = [] \<Longrightarrow> c = RB_BLACK" using assms by (auto simp: rbt_inv_def)
  with rbt_inv_unplug [OF assms] show ?thesis by (intro plug_rbt_inv) auto
qed

lemma inorder_hd: "x \<noteq> Lf \<Longrightarrow> \<exists>k d ks. inorder x = (k, d) # ks"
  by (cases "inorder x"; cases x) auto

lemma zremove_inorder:
  "inorder (zremove fs (Nd l a c k d r)) = lefts fs @ inorder l @ inorder r @ rights fs"
proof (cases "l \<noteq> Lf \<and> r \<noteq> Lf")
  case False
  then show ?thesis by (auto simp: zremove_def inorder_zdrop)
next
  case True
  then obtain k' d' ks where kd: "inorder r = (k', d') # ks" using inorder_hd by blast
  let ?f = "RFr l a c k' d'"
  obtain gs y where m: "zmin (?f # fs) r = (gs, y)" by force
  obtain b c2 k2 d2 r2 where
    y: "y = Nd Lf b c2 k2 d2 r2" and
    io: "inorder r @ rights (?f # fs) = (k2, d2) # inorder r2 @ rights gs"
    using zmin_inorder [OF m] True by blast
  have "lefts gs = lefts fs @ inorder l @ [(k', d')]" using zmin_lefts [OF m] by simp
  moreover have "k2 = k'" "d2 = d'" using io kd by auto
  ultimately show ?thesis using True kd m y io by (simp add: zremove_def inorder_zdrop)
qed

lemma zremove_inv:
  assumes "rbt_inv (plug fs (Nd l a c k d r))"
  shows "rbt_inv (zremove fs (Nd l a c k d r))"
proof (cases "l \<noteq> Lf \<and> r \<noteq> Lf")
  case False
  then show ?thesis using zdrop_inv [OF assms] by (auto simp: zremove_def)
next
  case True
  then obtain k' d' ks where kd: "inorder r = (k', d') # ks" using inorder_hd by blast
  obtain gs y where m: "zmin (RFr l a c k' d' # fs) r = (gs, y)" by force
  from zmin_shape [OF m] True obtain b c2 k2 d2 r2 where y: "y = Nd Lf b c2 k2 d2 r2" by auto
  have "rbt_inv (plug gs y)"
    using zmin_plug [OF m] rbt_inv_relabel [OF assms, of k' d'] by simp
  with zdrop_inv [of gs Lf b c2 k2 d2 r2] True kd m y show ?thesis by (simp add: zremove_def)
qed

lemma upd_key_data_sim:
  assumes "zrep cmp nf t fs (Nd l a c k d r)"
  shows "\<exists>t'. upd_node (\<lambda>x. x\<lparr>rb_key := k', rb_data := d'\<rparr>) (Some a) t = Some t' \<and>
     zrep cmp nf t' fs (Nd l a c k' d' r)"
  using assms by (auto simp: zrep_def rb_defs)

lemma rbtree_remove_node_sim:
  assumes z: "zrep cmp nf t fs (Nd l a c k d r)" and inv: "rbt_inv (plug fs (Nd l a c k d r))"
  shows "\<exists>t'. rbtree_remove_node (Some a) t = Some t' \<and>
     zrep cmp nf t' [] (zremove fs (Nd l a c k d r))"
proof (cases "l \<noteq> Lf \<and> r \<noteq> Lf")
  case False
  then have one: "l = Lf \<or> r = Lf" by simp
  have n: "deref t (Some a) = Some (mk_node (ctop fs) (rt l) (rt r) c k d)"
    using zrep_deref [OF z] by (simp add: deref_def)
  from unlink_node_sim [OF z one inv] False n show ?thesis
    by (auto simp: rbtree_remove_node_def zremove_def Let_def)
next
  case True
  have n: "deref t (Some a) = Some (mk_node (ctop fs) (rt l) (rt r) c k d)"
    using zrep_deref [OF z] by (simp add: deref_def)
  obtain ms y where ms: "\<And>hs. zmin hs r = (ms @ hs, y)" using zmin_frames by blast
  have "zrep cmp nf t (RFr l a c k d # fs) r" using z by (simp add: zrep_up)
  from get_min_sim [OF this _ ms] True have
    mn: "get_min t (rt r) = Some (rt y)" and zy: "zrep cmp nf t (ms @ RFr l a c k d # fs) y" by auto
  obtain b c2 k2 d2 r2 where
    y: "y = Nd Lf b c2 k2 d2 r2" and
    "inorder r @ rights (RFr l a c k d # fs) =
       (k2, d2) # inorder r2 @ rights (ms @ RFr l a c k d # fs)"
    using zmin_inorder [OF ms [of "RFr l a c k d # fs"]] True by blast
  then have io: "\<exists>ks. inorder r = (k2, d2) # ks" using inorder_hd [of r] True by auto
  have nn: "deref t (Some b) = Some (mk_node (ctop (ms @ RFr l a c k d # fs)) NULL (rt r2) c2 k2 d2)"
    using zrep_deref zy y by (fastforce simp: deref_def)
  from upd_key_data_sim [OF z, where k' = k2 and d' = d2] obtain t1 where
    t1: "upd_node (\<lambda>x. x\<lparr>rb_key := k2, rb_data := d2\<rparr>) (Some a) t = Some t1" and
    z1: "zrep cmp nf t1 fs (Nd l a c k2 d2 r)" by blast
  let ?gs = "ms @ RFr l a c k2 d2 # fs"
  have "zrep cmp nf t1 (RFr l a c k2 d2 # fs) r" using z1 by (simp add: zrep_up)
  from get_min_sim [OF this _ ms] True have z2: "zrep cmp nf t1 ?gs (Nd Lf b c2 k2 d2 r2)"
    using y by auto
  have inv2: "rbt_inv (plug ?gs (Nd Lf b c2 k2 d2 r2))"
    using zmin_plug [OF ms, of "RFr l a c k2 d2 # fs"] rbt_inv_relabel [OF inv, of k2 d2] y by simp
  have "zremove fs (Nd l a c k d r) = zdrop ?gs (Nd Lf b c2 k2 d2 r2)"
    using True io ms y by (auto simp: zremove_def)
  with unlink_node_sim [OF z2 _ inv2] n mn nn t1 True y show ?thesis
    by (auto simp: rbtree_remove_node_def Let_def)
qed

end
