(* ===== verification/Rbtree_Correct.thy ===== *)
theory Rbtree_Correct
  imports Rbtree_Remove
begin

text \<open>
  The contract of the red-black tree: every operation on a well-formed tree returns, keeps
  the tree well-formed and acts on its contents as a finite map. The contract is stated as
  the locale \<open>rb_store\<close>, which the other components use through its interpretation.
\<close>

section \<open>Well-formed trees and their contents\<close>

definition keys_sorted :: "('k::linorder \<times> 'd) list \<Rightarrow> bool" where
  "keys_sorted kds \<longleftrightarrow> sorted_wrt (<) (map fst kds)"

definition rb_shape :: "('k::linorder, 'd) rbtree \<Rightarrow> ('k, 'd) rtree \<Rightarrow> bool" where
  "rb_shape t x \<longleftrightarrow>
     zrep (rb_compare t) (rb_fresh t) t [] x \<and> rbt_inv x \<and> keys_sorted (inorder x) \<and>
     cmp_ok (rb_compare t)"

definition rb_ok :: "('k::linorder, 'd) rbtree \<Rightarrow> bool" where
  "rb_ok t \<longleftrightarrow> (\<exists>x. rb_shape t x)"

definition rb_map :: "('k, 'd) rbtree \<Rightarrow> 'k \<Rightarrow> 'd option" where
  "rb_map t k = (case rbtree_lookup t k of Some r \<Rightarrow> r | None \<Rightarrow> None)"

text \<open>The contents of the root node: the \<open>tree->root->key\<close> and \<open>tree->root->data\<close> of the clients.\<close>

definition rbtree_root_entry :: "('k, 'd) rbtree \<Rightarrow> ('k \<times> 'd) option option" where
  "rbtree_root_entry t =
     (if rb_root t = NULL then Some None
      else do { n \<leftarrow> deref t (rb_root t); Some (Some (rb_key n, rb_data n)) })"

lemma keys_sorted_simps [simp]:
  "keys_sorted []"
  "keys_sorted (kd # kds) \<longleftrightarrow> (\<forall>p \<in> set kds. fst kd < fst p) \<and> keys_sorted kds"
  "keys_sorted (xs @ ys) \<longleftrightarrow>
     keys_sorted xs \<and> keys_sorted ys \<and> (\<forall>p \<in> set xs. \<forall>q \<in> set ys. fst p < fst q)"
  by (auto simp: keys_sorted_def sorted_wrt_append)

lemma keys_sorted_distinct: "keys_sorted kds \<Longrightarrow> distinct (map fst kds)"
  by (induction kds) (auto simp: image_iff)

lemma map_of_mid: "keys_sorted (xs @ (k, d) # ys) \<Longrightarrow> map_of (xs @ (k, d) # ys) k = Some d"
  by (rule map_of_is_SomeI [OF keys_sorted_distinct]) auto

lemma map_of_insert_mid:
  assumes "keys_sorted (xs @ (k, d) # ys)"
  shows "map_of (xs @ (k, d) # ys) = (map_of (xs @ ys))(k \<mapsto> d)"
proof -
  have "map_of xs k = None" using assms by (force simp: map_of_eq_None_iff)
  then show ?thesis by (auto simp: map_add_def fun_eq_iff split: option.splits)
qed

lemma map_of_remove_mid:
  assumes "keys_sorted (xs @ (k, d) # ys)"
  shows "map_of (xs @ ys) = (map_of (xs @ (k, d) # ys))(k := None)"
proof -
  have "map_of xs k = None" "map_of ys k = None" using assms by (force simp: map_of_eq_None_iff)+
  then show ?thesis by (auto simp: map_add_def fun_eq_iff split: option.splits)
qed

lemma compare_default_ok: "cmp_ok compare_default"
  by (auto simp: cmp_ok_def compare_default_def)

section \<open>Lookup\<close>

lemma zfind_order:
  assumes "cmp_ok cmp" "zfind cmp key fs x = (gs, y)" "keys_sorted (inorder x)"
    and "\<forall>p \<in> set (lefts fs). fst p < key" "\<forall>p \<in> set (rights fs). key < fst p"
  shows "(\<forall>p \<in> set (lefts gs). fst p < key) \<and> (\<forall>p \<in> set (rights gs). key < fst p) \<and>
    (\<forall>l a c k d r. y = Nd l a c k d r \<longrightarrow> k = key)"
  using assms(2-)
proof (induction x arbitrary: fs)
  case Lf
  then show ?case by auto
next
  case (Nd l a c k d r)
  consider "k = key" | "k < key" | "key < k" by (rule linorder_cases [of k key]) auto
  then show ?case
  proof cases
    case 1
    with assms(1) Nd.prems show ?thesis by (auto simp: cmp_ok_def)
  next
    case 2
    with assms(1) have "cmp k key < 0" by (simp add: cmp_ok_def)
    with Nd.prems(1) have "zfind cmp key (RFr l a c k d # fs) r = (gs, y)" by simp
    moreover have "\<forall>p \<in> set (inorder l). fst p < key"
      using Nd.prems(2) 2 by (auto intro: less_trans)
    ultimately show ?thesis using Nd.IH(2) [of "RFr l a c k d # fs"] Nd.prems(2-4) 2
      by (simp add: ball_Un)
  next
    case 3
    with assms(1) have "cmp k key \<noteq> 0" "\<not> cmp k key < 0" by (auto simp: cmp_ok_def)
    with Nd.prems(1) have "zfind cmp key (LFr a c k d r # fs) l = (gs, y)" by simp
    moreover have "\<forall>p \<in> set (inorder r). key < fst p"
      using Nd.prems(2) 3 by (auto intro: less_trans)
    ultimately show ?thesis using Nd.IH(1) [of "LFr a c k d r # fs"] Nd.prems(2-4) 3
      by (simp add: ball_Un)
  qed
qed

lemma zfind_map_of:
  assumes "cmp_ok cmp" "zfind cmp key [] x = (gs, y)" "keys_sorted (inorder x)"
  shows "map_of (inorder x) key = (case y of Lf \<Rightarrow> None | Nd l a c k d r \<Rightarrow> Some d)"
proof -
  have o: "\<forall>p \<in> set (lefts gs). fst p < key" "\<forall>p \<in> set (rights gs). key < fst p"
    "\<forall>l a c k d r. y = Nd l a c k d r \<longrightarrow> k = key"
    using zfind_order [OF assms] by auto
  have x: "inorder x = lefts gs @ inorder y @ rights gs"
    using zfind_plug [OF assms(2)] by (metis inorder_plug plug.simps(1))
  have none: "map_of (lefts gs) key = None" "map_of (rights gs) key = None"
    using o by (force simp: map_of_eq_None_iff)+
  show ?thesis
  proof (cases y)
    case Lf
    with x none show ?thesis by (simp add: map_add_def)
  next
    case (Nd l a c k d r)
    with o x have "inorder x = (lefts gs @ inorder l) @ (key, d) # inorder r @ rights gs" by simp
    with map_of_mid assms(3) Nd show ?thesis by (metis rtree.simps(5))
  qed
qed

lemma rb_shape_lookup:
  assumes "rb_shape t x"
  shows "rbtree_lookup t key = Some (map_of (inorder x) key)"
proof -
  obtain gs y where f: "zfind (rb_compare t) key [] x = (gs, y)" by force
  have z: "zrep (rb_compare t) (rb_fresh t) t [] x" and c: "cmp_ok (rb_compare t)"
    and s: "keys_sorted (inorder x)" using assms by (auto simp: rb_shape_def)
  from do_lookup_sim [OF z f] obtain p where l: "do_lookup key t = Some (rt y, p)" by blast
  have "zrep (rb_compare t) (rb_fresh t) t gs y"
    using z zfind_plug [OF f] zrep_plug [of _ _ t gs y] by simp
  with l zfind_map_of [OF c f s] show ?thesis
    by (cases y) (auto simp: rbtree_lookup_def deref_def dest: zrep_deref)
qed

lemma rb_shape_map: "rb_shape t x \<Longrightarrow> rb_map t = map_of (inorder x)"
  by (rule ext) (simp add: rb_map_def rb_shape_lookup)

lemma rb_shape_ok_map: "rb_shape t x \<Longrightarrow> rb_ok t \<and> rb_map t = map_of (inorder x)"
  by (auto simp: rb_ok_def rb_shape_map)

lemma rb_ok_lookup: "rb_ok t \<Longrightarrow> rbtree_lookup t k = Some (rb_map t k)"
  by (auto simp: rb_ok_def rb_map_def rb_shape_lookup)

lemma rb_ok_finite: "rb_ok t \<Longrightarrow> finite (dom (rb_map t))"
  by (auto simp: rb_ok_def rb_shape_map finite_dom_map_of)

lemma rb_shape_empty: "rb_shape t x \<Longrightarrow> rb_root t = NULL \<longleftrightarrow> rb_map t = Map.empty"
  using zrep_root [of "rb_compare t" "rb_fresh t" t x]
  by (cases x) (simp_all add: rb_shape_map, auto simp: rb_shape_def)

lemma rb_ok_root: "rb_ok t \<Longrightarrow> rb_root t = NULL \<longleftrightarrow> rb_map t = Map.empty"
  by (auto simp: rb_ok_def dest: rb_shape_empty)

lemma rb_ok_root_entry:
  assumes "rb_ok t" "rb_map t \<noteq> Map.empty"
  shows "\<exists>k d. rbtree_root_entry t = Some (Some (k, d)) \<and> rb_map t k = Some d"
proof -
  from assms(1) obtain x where x: "rb_shape t x" by (auto simp: rb_ok_def)
  with assms(2) obtain l a c k d r where nd: "x = Nd l a c k d r"
    by (cases x) (auto simp: rb_shape_map)
  have "rbtree_root_entry t = Some (Some (k, d))"
    using x nd by (auto simp: rb_shape_def zrep_def rbtree_root_entry_def deref_def)
  moreover have "map_of (inorder x) k = Some d"
    using x nd map_of_mid [of "inorder l" k d "inorder r"] by (simp add: rb_shape_def)
  ultimately show ?thesis using rb_shape_map [OF x] by auto
qed

section \<open>Initialisation\<close>

lemma rbtree_init_ok:
  "(case c of None \<Rightarrow> True | Some cmp \<Rightarrow> cmp_ok cmp) \<Longrightarrow> rb_ok (rbtree_init c)"
  by (auto simp: rb_ok_def rb_shape_def rbtree_init_def zrep_def rbt_inv_def compare_default_ok
      intro!: exI [of _ Lf] split: option.splits)

lemma rbtree_init_map [simp]: "rb_map (rbtree_init c) = Map.empty"
  by (auto simp: rb_map_def rbtree_lookup_def do_lookup_def rbtree_init_def lookup_loop.simps)

section \<open>Insertion\<close>

text \<open>A fresh node hangs below no represented node.\<close>

lemma createnode_sim:
  assumes "zrep cmp nf t fs x" "rbtree_createnode True key data t = (node, t')"
  shows "node = Some nf \<and> zrep cmp (Suc nf) t' fs x \<and>
     rb_nodes t' nf = Some (mk_node NULL NULL NULL RB_BLACK key data) \<and>
     nf \<notin> addrs x \<union> caddrs fs"
proof -
  have nf: "nf \<notin> addrs x \<union> caddrs fs" using assms(1) by (auto simp: zrep_def)
  with assms show ?thesis by (auto simp: zrep_def rbtree_createnode_def intro: less_SucI)
qed

text \<open>Hanging the new red node into the empty position that the search has found.\<close>

lemma link_new_sim:
  assumes z: "zrep cmp nf t fs Lf" and a: "a \<notin> caddrs fs" "a < nf"
    and n: "rb_nodes t a = Some (mk_node p0 l0 r0 c0 key data)"
    and o: "\<forall>p \<in> set (lefts fs). cmp (fst p) key < 0" "\<forall>p \<in> set (rights fs). cmp (fst p) key > 0"
  shows "\<exists>t'. do {
       t \<leftarrow> set_right NULL (Some a) t;
       t \<leftarrow> set_left NULL (Some a) t;
       t \<leftarrow> set_color RB_RED (Some a) t;
       t \<leftarrow> set_parent (ctop fs) (Some a) t;
       if ctop fs = NULL then Some (t\<lparr>rb_root := Some a\<rparr>) else set_child t (ctop fs) (Some a) } = Some t' \<and>
     zrep cmp nf t' fs (Nd Lf a RB_RED key data Lf)"
proof (cases fs)
  case Nil
  with z a n show ?thesis by (simp add: zrep_def rb_defs)
next
  case (Cons f gs)
  show ?thesis
  proof (cases f)
    case (LFr b c k d r)
    with o Cons have "cmp k key > 0" by simp
    with z a n Cons LFr show ?thesis
      by (auto simp: zrep_def rb_defs set_child_def Let_def rt_neq)
  next
    case (RFr l b c k d)
    with o Cons have "cmp k key < 0" by simp
    with z a n Cons RFr show ?thesis
      by (auto simp: zrep_def rb_defs set_child_def Let_def rt_neq)
  qed
qed

lemma zfix_not_Lf: "x \<noteq> Lf \<Longrightarrow> zfix fs x \<noteq> Lf"
proof -
  assume x: "x \<noteq> Lf"
  then obtain k d ks where "inorder x = (k, d) # ks" using inorder_hd by blast
  with inorder_zfix [OF x, of fs] show ?thesis by auto
qed

lemma rbtree_insert_node_new:
  assumes z: "zrep cmp nf t [] x" and f: "zfind cmp key [] x = (gs, Lf)"
    and nd: "rb_nodes t a = Some (mk_node p0 l0 r0 c0 key data)" "a \<notin> addrs x" "a < nf"
    and c: "cmp_ok cmp" and s: "keys_sorted (inorder x)" and inv: "rbt_inv x"
  shows "\<exists>t' y. rbtree_insert_node (Some a) t = Some (NULL, t') \<and> zrep cmp nf t' [] y \<and> rbt_inv y \<and>
     inorder y = lefts gs @ (key, data) # rights gs"
proof -
  let ?new = "Nd Lf a RB_RED key data Lf"
  have x: "plug gs Lf = x" using zfind_plug [OF f] by simp
  have zg: "zrep cmp nf t gs Lf" using z x zrep_plug by metis
  have a: "a \<notin> caddrs gs" using nd(2) x addrs_plug [of gs Lf] by auto
  have "(\<forall>p \<in> set (lefts gs). fst p < key) \<and> (\<forall>p \<in> set (rights gs). key < fst p)"
    using zfind_order [OF c f s] by simp
  then have o: "\<forall>p \<in> set (lefts gs). cmp (fst p) key < 0" "\<forall>p \<in> set (rights gs). cmp (fst p) key > 0"
    using cmp_okD [OF c] by auto
  from do_lookup_sim [OF z f] have l: "do_lookup key t = Some (NULL, ctop gs)" by auto
  from link_new_sim [OF zg a nd(3) nd(1) o] obtain t1 where
    t1: "do {
       t \<leftarrow> set_right NULL (Some a) t;
       t \<leftarrow> set_left NULL (Some a) t;
       t \<leftarrow> set_color RB_RED (Some a) t;
       t \<leftarrow> set_parent (ctop gs) (Some a) t;
       if ctop gs = NULL then Some (t\<lparr>rb_root := Some a\<rparr>) else set_child t (ctop gs) (Some a) } = Some t1"
    and z1: "zrep cmp nf t1 gs ?new" by blast
  have inv': "cinv gs 0 \<and> invh (Lf :: ('a, 'b) rtree)" using rbt_inv_unplug [of gs Lf] inv x by simp
  from insert_loop_sim [OF z1] cinv_root_black inv' obtain t2 where
    t2: "insert_loop (Some a) t1 = Some t2" and z2: "zrep cmp nf t2 [] (zfix gs ?new)" by auto
  obtain wl wa wc wk wd wr where w: "zfix gs ?new = Nd wl wa wc wk wd wr"
    using zfix_not_Lf [of ?new gs] by (cases "zfix gs ?new") auto
  from zrep_set_color [OF z2 [unfolded w], of RB_BLACK] obtain t3 where
    t3: "set_color RB_BLACK (Some wa) t2 = Some t3" and
    z3: "zrep cmp nf t3 [] (paint RB_BLACK (zfix gs ?new))" using w by auto
  have root: "rb_root t2 = Some wa" using zrep_root [OF z2] w by simp
  have "rbtree_insert_node (Some a) t = Some (NULL, t3)"
    using nd(1) l t1 t2 t3 root
    by (cases gs) (auto simp: rbtree_insert_node_def deref_def bind_Some_iff)
  moreover have "rbt_inv (paint RB_BLACK (zfix gs ?new))"
    using zfix_rbt_inv [of gs ?new] inv' by simp
  moreover have "inorder (paint RB_BLACK (zfix gs ?new)) = lefts gs @ (key, data) # rights gs"
    by (simp add: inorder_zfix)
  ultimately show ?thesis using z3 by blast
qed

lemma rb_shape_insert:
  assumes x: "rb_shape t x"
  shows "\<exists>t' y. rbtree_insert True t key data =
      Some (if map_of (inorder x) key = None then 0 else - 2, t') \<and> rb_shape t' y \<and>
      map_of (inorder y) = (if map_of (inorder x) key = None then (map_of (inorder x))(key \<mapsto> data)
                            else map_of (inorder x))"
proof -
  let ?cmp = "rb_compare t" and ?nf = "rb_fresh t"
  obtain gs y where f: "zfind ?cmp key [] x = (gs, y)" by force
  have z: "zrep ?cmp ?nf t [] x" and c: "cmp_ok ?cmp" and s: "keys_sorted (inorder x)"
    and inv: "rbt_inv x" using x by (auto simp: rb_shape_def)
  obtain node t1 where cn: "rbtree_createnode True key data t = (node, t1)" by force
  from createnode_sim [OF z cn] have
    node: "node = Some ?nf" and z1: "zrep ?cmp (Suc ?nf) t1 [] x" and
    n: "rb_nodes t1 ?nf = Some (mk_node NULL NULL NULL RB_BLACK key data)" and fr: "?nf \<notin> addrs x"
    by auto
  have cmp1: "rb_compare t1 = ?cmp" "rb_fresh t1 = Suc ?nf" using z1 by (auto simp: zrep_def)
  show ?thesis
  proof (cases y)
    case Lf
    then have none: "map_of (inorder x) key = None" using zfind_map_of [OF c f s] by simp
    from rbtree_insert_node_new [OF z1 f [unfolded Lf] n fr _ c s inv] obtain t' w where
      ins: "rbtree_insert_node (Some ?nf) t1 = Some (NULL, t')" and w: "zrep ?cmp (Suc ?nf) t' [] w"
      "rbt_inv w" "inorder w = lefts gs @ (key, data) # rights gs" by auto
    have o: "(\<forall>p \<in> set (lefts gs). fst p < key) \<and> (\<forall>p \<in> set (rights gs). key < fst p)"
      using zfind_order [OF c f s] by simp
    have io: "inorder x = lefts gs @ rights gs"
      using zfind_plug [OF f] Lf by (metis append_Nil inorder.simps(1) inorder_plug plug.simps(1))
    have sw: "keys_sorted (lefts gs @ (key, data) # rights gs)" using s io o by auto
    have "rb_shape t' w" using w sw c by (auto simp: rb_shape_def zrep_def)
    moreover have "map_of (inorder w) = (map_of (inorder x))(key \<mapsto> data)"
      using map_of_insert_mid [OF sw] w io by simp
    ultimately show ?thesis using ins cn node none by (auto simp: rbtree_insert_def)
  next
    case (Nd l a c0 k d r)
    then have some: "map_of (inorder x) key = Some d" using zfind_map_of [OF c f s] by simp
    from do_lookup_sim [OF z1 f] obtain p where "do_lookup key t1 = Some (Some a, p)" using Nd by auto
    then have "rbtree_insert_node (Some ?nf) t1 = Some (Some a, t1)"
      using n by (simp add: rbtree_insert_node_def deref_def)
    moreover have "rb_shape t1 x" using z1 c s inv cmp1 by (simp add: rb_shape_def)
    ultimately show ?thesis using cn node some by (auto simp: rbtree_insert_def)
  qed
qed

section \<open>Removal\<close>

lemma rb_shape_remove:
  assumes x: "rb_shape t x"
  shows "\<exists>t' y. rbtree_remove t key =
      Some (if map_of (inorder x) key = None then - 1 else 0, t') \<and> rb_shape t' y \<and>
      map_of (inorder y) = (map_of (inorder x))(key := None) \<and>
      (map_of (inorder x) key = None \<longrightarrow> t' = t)"
proof -
  let ?cmp = "rb_compare t" and ?nf = "rb_fresh t"
  obtain gs y where f: "zfind ?cmp key [] x = (gs, y)" by force
  have z: "zrep ?cmp ?nf t [] x" and c: "cmp_ok ?cmp" and s: "keys_sorted (inorder x)"
    and inv: "rbt_inv x" using x by (auto simp: rb_shape_def)
  from do_lookup_sim [OF z f] obtain p where l: "do_lookup key t = Some (rt y, p)" by blast
  show ?thesis
  proof (cases y)
    case Lf
    then have "map_of (inorder x) key = None" using zfind_map_of [OF c f s] by simp
    with x l Lf show ?thesis by (auto simp: rbtree_remove_def intro!: exI [of _ x])
  next
    case (Nd a b c0 k d r)
    then have some: "map_of (inorder x) key = Some d" using zfind_map_of [OF c f s] by simp
    have k: "k = key" using zfind_order [OF c f s] Nd by simp
    have pl: "plug gs (Nd a b c0 k d r) = x" using zfind_plug [OF f] Nd by simp
    have zg: "zrep ?cmp ?nf t gs (Nd a b c0 k d r)" using z pl zrep_plug by metis
    from rbtree_remove_node_sim [OF zg] inv pl obtain t' where
      rm: "rbtree_remove_node (Some b) t = Some t'" and
      z': "zrep ?cmp ?nf t' [] (zremove gs (Nd a b c0 k d r))" by auto
    let ?w = "zremove gs (Nd a b c0 k d r)"
    have w: "inorder ?w = (lefts gs @ inorder a) @ inorder r @ rights gs"
      by (simp add: zremove_inorder)
    have io: "inorder x = (lefts gs @ inorder a) @ (k, d) # inorder r @ rights gs"
      using inorder_plug [of gs "Nd a b c0 k d r"] pl by simp
    have "rb_shape t' ?w"
      using z' c zremove_inv [of gs a b c0 k d r] inv pl s io w by (auto simp: rb_shape_def zrep_def)
    moreover have "map_of (inorder ?w) = (map_of (inorder x))(key := None)"
      using map_of_remove_mid s io w k by metis
    ultimately show ?thesis using l Nd rm some by (auto simp: rbtree_remove_def)
  qed
qed

section \<open>The contract\<close>

text \<open>
  What the sessions, rules, contexts and the runner rely on: a store with a content map,
  whose operations return the C result codes.
\<close>

locale rb_store =
  fixes ok :: "'t \<Rightarrow> bool"
    and content :: "'t \<Rightarrow> 'k \<Rightarrow> 'd option"
    and look :: "'t \<Rightarrow> 'k \<Rightarrow> 'd option option"
    and ins :: "'t \<Rightarrow> 'k \<Rightarrow> 'd \<Rightarrow> (int \<times> 't) option"
    and del :: "'t \<Rightarrow> 'k \<Rightarrow> (int \<times> 't) option"
    and root_entry :: "'t \<Rightarrow> ('k \<times> 'd) option option"
  assumes look: "ok t \<Longrightarrow> look t k = Some (content t k)"
    and finite_content: "ok t \<Longrightarrow> finite (dom (content t))"
    and ins_new: "ok t \<Longrightarrow> content t k = None \<Longrightarrow>
      \<exists>t'. ins t k d = Some (0, t') \<and> ok t' \<and> content t' = (content t)(k \<mapsto> d)"
    and ins_dup: "ok t \<Longrightarrow> content t k \<noteq> None \<Longrightarrow>
      \<exists>t'. ins t k d = Some (- 2, t') \<and> ok t' \<and> content t' = content t"
    and del_hit: "ok t \<Longrightarrow> content t k \<noteq> None \<Longrightarrow>
      \<exists>t'. del t k = Some (0, t') \<and> ok t' \<and> content t' = (content t)(k := None)"
    and del_miss: "ok t \<Longrightarrow> content t k = None \<Longrightarrow> del t k = Some (- 1, t)"
    and root_empty: "ok t \<Longrightarrow> content t = Map.empty \<Longrightarrow> root_entry t = Some None"
    and root_some: "ok t \<Longrightarrow> content t \<noteq> Map.empty \<Longrightarrow>
      \<exists>k d. root_entry t = Some (Some (k, d)) \<and> content t k = Some d"
begin

lemma ins_total: "ok t \<Longrightarrow> \<exists>r t'. ins t k d = Some (r, t') \<and> ok t'"
  using ins_new [of t k d] ins_dup [of t k d] by (cases "content t k") auto

lemma del_total:
  "ok t \<Longrightarrow> \<exists>r t'. del t k = Some (r, t') \<and> ok t' \<and> content t' = (content t)(k := None)"
  using del_hit [of t k] del_miss [of t k] by (cases "content t k") (auto simp: fun_upd_idem_iff)

lemma ins_then_look:
  assumes "ok t" "ins t k d = Some (r, t')"
  shows "look t' k = Some (Some (if r = 0 then d else the (content t k)))"
proof (cases "content t k")
  case None
  from ins_new [OF assms(1) this, of d] assms(2) show ?thesis by (auto simp: look)
next
  case (Some d')
  with ins_dup [OF assms(1), of k d] assms(2) show ?thesis by (auto simp: look)
qed

text \<open>One round of a loop that empties a store through its root.\<close>

lemma drain_step:
  assumes "ok t" "content t \<noteq> Map.empty"
  shows "\<exists>k d t'. root_entry t = Some (Some (k, d)) \<and> content t k = Some d \<and>
     del t k = Some (0, t') \<and> ok t' \<and> content t' = (content t)(k := None) \<and>
     card (dom (content t')) < card (dom (content t))"
proof -
  from root_some [OF assms] obtain k d where
    r: "root_entry t = Some (Some (k, d))" and k: "content t k = Some d" by blast
  with del_hit [OF assms(1), of k] obtain t' where
    t': "del t k = Some (0, t')" "ok t'" "content t' = (content t)(k := None)" by auto
  have "card (dom (content t) - {k}) < card (dom (content t))"
    by (rule card_Diff1_less [OF finite_content [OF assms(1)]]) (use k in auto)
  with r k t' show ?thesis by auto
qed

end

interpretation rb: rb_store rb_ok rb_map rbtree_lookup "rbtree_insert True" rbtree_remove rbtree_root_entry
proof
  fix t :: "('a, 'b) rbtree" and k d
  assume t: "rb_ok t"
  then obtain x where x: "rb_shape t x" by (auto simp: rb_ok_def)
  show "rbtree_lookup t k = Some (rb_map t k)" by (rule rb_ok_lookup [OF t])
  show "finite (dom (rb_map t))" by (rule rb_ok_finite [OF t])
  show "rb_map t = Map.empty \<Longrightarrow> rbtree_root_entry t = Some None"
    using rb_ok_root [OF t] by (simp add: rbtree_root_entry_def)
  show "rb_map t \<noteq> Map.empty \<Longrightarrow> \<exists>k d. rbtree_root_entry t = Some (Some (k, d)) \<and> rb_map t k = Some d"
    by (rule rb_ok_root_entry [OF t])
  show "rb_map t k = None \<Longrightarrow>
      \<exists>t'. rbtree_insert True t k d = Some (0, t') \<and> rb_ok t' \<and> rb_map t' = (rb_map t)(k \<mapsto> d)"
    using rb_shape_insert [OF x, of k d] by (auto simp: rb_shape_map [OF x] dest!: rb_shape_ok_map)
  show "rb_map t k \<noteq> None \<Longrightarrow>
      \<exists>t'. rbtree_insert True t k d = Some (- 2, t') \<and> rb_ok t' \<and> rb_map t' = rb_map t"
    using rb_shape_insert [OF x, of k d] by (auto simp: rb_shape_map [OF x] dest!: rb_shape_ok_map)
  show "rb_map t k \<noteq> None \<Longrightarrow>
      \<exists>t'. rbtree_remove t k = Some (0, t') \<and> rb_ok t' \<and> rb_map t' = (rb_map t)(k := None)"
    using rb_shape_remove [OF x, of k] by (auto simp: rb_shape_map [OF x] dest!: rb_shape_ok_map)
  show "rb_map t k = None \<Longrightarrow> rbtree_remove t k = Some (- 1, t)"
    using rb_shape_remove [OF x, of k] by (auto simp: rb_shape_map [OF x])
qed

end
