(* ===== verification/T2u_Wire.thy ===== *)
theory T2u_Wire
  imports T2u_Prelude
begin

unbundle bit_operations_syntax

text \<open>
  Byte order conversion and the UDP message format (src/t2u_internal.h). The host is little
  endian, as every platform the code is built for; \<open>arch\<close> selects the branch of the
  preprocessor conditional that defines \<open>hton64\<close> and \<open>ntoh64\<close>.
\<close>

section \<open>Integers in memory\<close>

definition le_bytes :: "nat \<Rightarrow> 'a::len word \<Rightarrow> byte list" where
  "le_bytes n w = map (\<lambda>i. ucast (drop_bit (8 * i) w)) [0..<n]"

fun of_le :: "byte list \<Rightarrow> 'a::len word" where
  "of_le [] = 0"
| "of_le (b # bs) = ucast b OR push_bit 8 (of_le bs)"

lemma length_le_bytes [simp]: "length (le_bytes n w) = n"
  by (simp add: le_bytes_def)

lemma bit_of_le:
  "bit (of_le bs :: 'a::len word) i \<longleftrightarrow>
     i < LENGTH('a) \<and> i div 8 < length bs \<and> bit (bs ! (i div 8)) (i mod 8)"
proof (induction bs arbitrary: i)
  case Nil
  show ?case by simp
next
  case (Cons b bs)
  show ?case
  proof (cases "i < 8")
    case True
    then show ?thesis by (auto simp: bit_simps)
  next
    case False
    then have "i div 8 = Suc ((i - 8) div 8)" "i mod 8 = (i - 8) mod 8"
      by (simp_all add: div_if mod_if)
    moreover have "\<not> bit b i" using False by (auto dest: bit_imp_le_length)
    ultimately show ?thesis using False Cons.IH [of "i - 8"] by (auto simp: bit_simps)
  qed
qed

lemma of_le_bytes:
  assumes "LENGTH('a) = 8 * n"
  shows "of_le (le_bytes n w) = (w :: 'a::len word)"
proof (rule bit_eqI)
  fix i
  assume "possible_bit TYPE('a word) i"
  then have i: "i < LENGTH('a)" by simp
  then have d: "i div 8 < n" using assms by auto
  have "bit (le_bytes n w ! (i div 8)) (i mod 8) = bit w (8 * (i div 8) + i mod 8)"
    using d by (simp add: le_bytes_def bit_simps)
  then show "bit (of_le (le_bytes n w) :: 'a word) i = bit w i"
    using i d by (simp add: bit_of_le)
qed

lemma le_bytes_of_le:
  assumes "LENGTH('a) = 8 * n" "length bs = n"
  shows "le_bytes n (of_le bs :: 'a::len word) = bs"
proof (rule nth_equalityI)
  fix j
  assume "j < length (le_bytes n (of_le bs :: 'a word))"
  then have j: "j < n" by simp
  show "le_bytes n (of_le bs :: 'a word) ! j = bs ! j"
  proof (rule bit_eqI)
    fix i
    assume "possible_bit TYPE(8 word) i"
    then have i: "i < 8" by simp
    then have "(8 * j + i) div 8 = j" "(8 * j + i) mod 8 = i" by auto
    moreover have "8 * j + i < LENGTH('a)" using i j assms(1) by simp
    ultimately show "bit (le_bytes n (of_le bs :: 'a word) ! j) i = bit (bs ! j) i"
      using i j assms(2) by (simp add: le_bytes_def bit_simps bit_of_le)
  qed
qed (simp add: assms)

section \<open>Byte order conversion\<close>

definition htonl :: "u32 \<Rightarrow> u32" where
  "htonl x = of_le (rev (le_bytes 4 x))"

definition ntohl :: "u32 \<Rightarrow> u32" where
  "ntohl x = of_le (rev (le_bytes 4 x))"

definition htons :: "u16 \<Rightarrow> u16" where
  "htons x = of_le (rev (le_bytes 2 x))"

definition ntohs :: "u16 \<Rightarrow> u16" where
  "ntohs x = of_le (rev (le_bytes 2 x))"

lemma ntohl_htonl [simp]: "ntohl (htonl x) = x" "htonl (ntohl x) = x"
  by (simp_all add: ntohl_def htonl_def le_bytes_of_le of_le_bytes)

lemma ntohs_htons [simp]: "ntohs (htons x) = x" "htons (ntohs x) = x"
  by (simp_all add: ntohs_def htons_def le_bytes_of_le of_le_bytes)

lemma ntohl_eq_htonl: "ntohl = htonl" and ntohs_eq_htons: "ntohs = htons"
  by (simp_all add: fun_eq_iff ntohl_def htonl_def ntohs_def htons_def)

lemma le_bytes_htonl: "le_bytes 4 (htonl x) = rev (le_bytes 4 x)"
  by (simp add: htonl_def le_bytes_of_le)

text \<open>
  \<open>ntoh64\<close> and \<open>hton64\<close>: on x86-64 they are \<open>ntohl\<close> and \<open>htonl\<close>, whose argument and result
  are 32-bit; elsewhere the two halves are swapped and converted.
\<close>

datatype arch = X86_64 | Other_arch

definition ntoh64 :: "arch \<Rightarrow> u64 \<Rightarrow> u64" where
  "ntoh64 ar x =
     (case ar of
        X86_64 \<Rightarrow> ucast (ntohl (ucast x))
      | Other_arch \<Rightarrow>
          push_bit 32 (ucast (ntohl (ucast (x AND 0xffffffff)))) OR ucast (ntohl (ucast (drop_bit 32 x))))"

definition hton64 :: "arch \<Rightarrow> u64 \<Rightarrow> u64" where
  "hton64 ar x =
     (case ar of
        X86_64 \<Rightarrow> ucast (htonl (ucast x))
      | Other_arch \<Rightarrow>
          push_bit 32 (ucast (htonl (ucast (x AND 0xffffffff)))) OR ucast (htonl (ucast (drop_bit 32 x))))"

text \<open>The low half of a handle, which is the client's part of it.\<close>

definition low32 :: "u64 \<Rightarrow> u64" where
  "low32 x = x AND 0x00000000ffffffff"

lemma mask32: "(0xffffffff :: u64) = mask 32"
  by (simp add: mask_eq_exp_minus_1)

lemma bit_low32: "bit (low32 x) i \<longleftrightarrow> bit x i \<and> i < 32"
  unfolding low32_def mask32 by (auto simp: bit_and_iff bit_mask_iff dest: bit_imp_le_length)

lemma ucast_low32: "(ucast (ucast x :: u32) :: u64) = low32 x"
  by (rule bit_eqI) (auto simp: bit_simps bit_low32)

lemma low32_idem [simp]: "low32 (low32 x) = low32 x"
  by (simp add: low32_def and.assoc)

lemma low32_less: "low32 x = x \<longleftrightarrow> x < 2 ^ 32"
  by (simp add: low32_def mask32 mask_eq_iff_w2p word_size)

lemma ntoh64_hton64_x86_64: "ntoh64 X86_64 (hton64 X86_64 x) = low32 x"
proof -
  have "(ucast (ucast y :: u64) :: u32) = y" for y :: u32
    by (rule bit_eqI) (simp add: bit_simps)
  then show ?thesis by (simp add: ntoh64_def hton64_def ucast_low32)
qed

lemma ucast_halves:
  fixes a b :: u32
  shows "(ucast (push_bit 32 (ucast a) OR ucast b :: u64) :: u32) = b"
    "(ucast ((push_bit 32 (ucast a) OR ucast b :: u64) AND 0xffffffff) :: u32) = b"
    "(ucast (drop_bit 32 (push_bit 32 (ucast a) OR ucast b :: u64)) :: u32) = a"
  unfolding mask32
  by (rule bit_eqI; auto simp: bit_simps dest: bit_imp_le_length)+

lemma ntoh64_hton64_other: "ntoh64 Other_arch (hton64 Other_arch x) = x"
proof -
  have "(push_bit 32 (ucast (ucast (drop_bit 32 x) :: u32)) OR
      ucast (ucast (x AND 0xffffffff) :: u32) :: u64) = x"
    unfolding mask32
  proof (rule bit_eqI)
    fix n
    show "bit (push_bit 32 (ucast (ucast (drop_bit 32 x) :: u32)) OR
        ucast (ucast (x AND mask 32) :: u32) :: u64) n = bit x n"
      by (cases "n < 32") (auto simp: bit_simps dest: bit_imp_le_length)
  qed
  then show ?thesis unfolding ntoh64_def hton64_def arch.case ucast_halves ntohl_htonl .
qed

definition wire_handle :: "arch \<Rightarrow> u64 \<Rightarrow> u64" where
  "wire_handle ar h = ntoh64 ar (hton64 ar h)"

lemma wire_handle_simps [wire_simps]:
  "wire_handle X86_64 h = low32 h" "wire_handle Other_arch h = h"
  by (simp_all add: wire_handle_def ntoh64_hton64_x86_64 ntoh64_hton64_other)

section \<open>Messages\<close>

datatype t2u_mess_oper =
    connect_request
  | connect_response
  | close_request
  | close_response
  | data_request
  | data_response
  | retrans_request

fun oper_code :: "t2u_mess_oper \<Rightarrow> u16" where
  "oper_code connect_request = 0"
| "oper_code connect_response = 1"
| "oper_code close_request = 2"
| "oper_code close_response = 3"
| "oper_code data_request = 4"
| "oper_code data_response = 5"
| "oper_code retrans_request = 6"

definition oper_of :: "u16 \<Rightarrow> t2u_mess_oper option" where
  "oper_of c =
     (if c = 0 then Some connect_request else if c = 1 then Some connect_response
      else if c = 2 then Some close_request else if c = 3 then Some close_response
      else if c = 4 then Some data_request else if c = 5 then Some data_response
      else if c = 6 then Some retrans_request else None)"

text \<open>The enumeration is ordered by its codes, as the C \<open>enum\<close> is.\<close>

instantiation t2u_mess_oper :: linorder
begin

definition "x \<le> y \<longleftrightarrow> oper_code x \<le> oper_code y"
definition "x < y \<longleftrightarrow> oper_code x < oper_code y"

instance
proof
  fix x y z :: t2u_mess_oper
  show "x \<le> y \<Longrightarrow> y \<le> x \<Longrightarrow> x = y"
    by (cases x; cases y) (auto simp: less_eq_t2u_mess_oper_def word_le_nat_alt)
qed (auto simp: less_eq_t2u_mess_oper_def less_t2u_mess_oper_def)

end

lemma oper_of_code [simp]: "oper_of (oper_code op) = Some op"
  by (cases op) (simp_all add: oper_of_def)

record t2u_message_data =
  md_magic :: u32
  md_version :: u16
  md_oper :: u16
  md_handle :: u64
  md_seq :: u32
  md_payload :: "byte list"

definition T2U_PAYLOAD_MAX :: nat where "T2U_PAYLOAD_MAX = 1400"

text \<open>\<open>sizeof(t2u_message_data)\<close>: the structure is packed.\<close>

definition sizeof_md :: nat where "sizeof_md = 20"

definition T2U_MESS_BUFFER_MAX :: nat where "T2U_MESS_BUFFER_MAX = T2U_PAYLOAD_MAX + sizeof_md"

definition T2U_MESS_MAGIC :: u32 where "T2U_MESS_MAGIC = 0x5432552E"

text \<open>The bytes of a message in memory, as \<open>send\<close> sees them, and a buffer read as a message.\<close>

definition md_bytes :: "t2u_message_data \<Rightarrow> byte list" where
  "md_bytes md =
     le_bytes 4 (md_magic md) @ le_bytes 2 (md_version md) @ le_bytes 2 (md_oper md) @
     le_bytes 8 (md_handle md) @ le_bytes 4 (md_seq md) @ md_payload md"

definition md_of_bytes :: "byte list \<Rightarrow> t2u_message_data" where
  "md_of_bytes bs =
     \<lparr>md_magic = of_le (take 4 bs), md_version = of_le (take 2 (drop 4 bs)),
      md_oper = of_le (take 2 (drop 6 bs)), md_handle = of_le (take 8 (drop 8 bs)),
      md_seq = of_le (take 4 (drop 16 bs)), md_payload = drop 20 bs\<rparr>"

lemma length_md_bytes [simp]: "length (md_bytes md) = sizeof_md + length (md_payload md)"
  by (simp add: md_bytes_def sizeof_md_def)

lemma md_of_bytes_md_bytes [simp]: "md_of_bytes (md_bytes md) = md"
  by (simp add: md_of_bytes_def md_bytes_def of_le_bytes)

text \<open>The conversion that \<open>process_udp_cb_\<close> does in place on the received buffer.\<close>

definition ntoh_header :: "arch \<Rightarrow> t2u_message_data \<Rightarrow> t2u_message_data" where
  "ntoh_header ar md =
     md\<lparr>md_magic := ntohl (md_magic md), md_version := ntohs (md_version md),
        md_oper := ntohs (md_oper md), md_handle := ntoh64 ar (md_handle md),
        md_seq := ntohl (md_seq md)\<rparr>"

text \<open>The assignments with which every sender fills in a message.\<close>

definition new_mdata :: "arch \<Rightarrow> t2u_mess_oper \<Rightarrow> u64 \<Rightarrow> u32 \<Rightarrow> byte list \<Rightarrow> t2u_message_data" where
  "new_mdata ar op handle seq payload =
     \<lparr>md_magic = htonl T2U_MESS_MAGIC, md_version = htons 1, md_oper = htons (oper_code op),
      md_handle = hton64 ar handle, md_seq = htonl seq, md_payload = payload\<rparr>"

lemma new_mdata_sel [simp]:
  "md_payload (new_mdata ar op handle seq payload) = payload"
  by (simp add: new_mdata_def)

text \<open>What a receiver sees of a message that \<open>new_mdata\<close> built.\<close>

lemma ntoh_new_mdata [wire_simps]:
  "ntoh_header ar (new_mdata ar op handle seq payload) =
     \<lparr>md_magic = T2U_MESS_MAGIC, md_version = 1, md_oper = oper_code op,
      md_handle = wire_handle ar handle, md_seq = seq, md_payload = payload\<rparr>"
  by (simp add: ntoh_header_def new_mdata_def wire_handle_def)

text \<open>An \<open>int\<close> in the payload, in network order.\<close>

definition put_u32 :: "u32 \<Rightarrow> byte list" where
  "put_u32 x = le_bytes 4 (htonl x)"

definition get_u32 :: "byte list \<Rightarrow> u32" where
  "get_u32 payload = ntohl (of_le (take 4 payload))"

lemma get_put_u32 [wire_simps]: "get_u32 (put_u32 x @ rest) = x"
  by (simp add: get_u32_def put_u32_def of_le_bytes)

lemma length_put_u32 [simp]: "length (put_u32 x) = 4"
  by (simp add: put_u32_def)

section \<open>Zero-terminated strings\<close>

text \<open>A C string is the list of its bytes before the terminator, ordered by \<open>strcmp\<close>.\<close>

datatype cstr = CStr (cbytes: "byte list")

fun strcmp_bytes :: "byte list \<Rightarrow> byte list \<Rightarrow> int" where
  "strcmp_bytes [] [] = 0"
| "strcmp_bytes [] (y # ys) = - 1"
| "strcmp_bytes (x # xs) [] = 1"
| "strcmp_bytes (x # xs) (y # ys) =
     (if x < y then - 1 else if y < x then 1 else strcmp_bytes xs ys)"

definition strcmp :: "cstr \<Rightarrow> cstr \<Rightarrow> int" where
  "strcmp a b = strcmp_bytes (cbytes a) (cbytes b)"

text \<open>The string that starts at the beginning of a memory area.\<close>

definition cstr_at :: "byte list \<Rightarrow> cstr" where
  "cstr_at mem = CStr (takeWhile (\<lambda>b. b \<noteq> 0) mem)"

lemma strcmp_bytes_eq: "strcmp_bytes xs ys = 0 \<longleftrightarrow> xs = ys"
  by (induction xs ys rule: strcmp_bytes.induct) auto

lemma strcmp_bytes_refl [simp]: "strcmp_bytes xs xs = 0"
  by (simp add: strcmp_bytes_eq)

lemma strcmp_bytes_swap: "strcmp_bytes ys xs = - strcmp_bytes xs ys"
  by (induction xs ys rule: strcmp_bytes.induct) auto

lemma strcmp_bytes_trans:
  "strcmp_bytes xs ys \<le> 0 \<Longrightarrow> strcmp_bytes ys zs \<le> 0 \<Longrightarrow> strcmp_bytes xs zs \<le> 0"
proof (induction xs zs arbitrary: ys rule: strcmp_bytes.induct)
  case (4 x xs z zs)
  then show ?case by (cases ys) (auto split: if_splits)
next
  case (3 x xs)
  then show ?case by (cases ys) auto
qed auto

instantiation cstr :: linorder
begin

definition "a \<le> b \<longleftrightarrow> strcmp a b \<le> 0"
definition "a < b \<longleftrightarrow> strcmp a b < 0"

instance
proof
  fix a b c :: cstr
  show "a < b \<longleftrightarrow> a \<le> b \<and> \<not> b \<le> a"
    using strcmp_bytes_swap [of "cbytes a" "cbytes b"]
    by (auto simp: less_eq_cstr_def less_cstr_def strcmp_def)
  show "a \<le> a" by (simp add: less_eq_cstr_def strcmp_def)
  show "a \<le> b \<Longrightarrow> b \<le> c \<Longrightarrow> a \<le> c"
    unfolding less_eq_cstr_def strcmp_def by (rule strcmp_bytes_trans)
  show "a \<le> b \<Longrightarrow> b \<le> a \<Longrightarrow> a = b"
    using strcmp_bytes_swap [of "cbytes a" "cbytes b"] strcmp_bytes_eq [of "cbytes a" "cbytes b"]
    by (cases a; cases b) (simp add: less_eq_cstr_def strcmp_def)
  show "a \<le> b \<or> b \<le> a"
    using strcmp_bytes_swap [of "cbytes a" "cbytes b"] by (auto simp: less_eq_cstr_def strcmp_def)
qed

end

end
