(* ===== verification/T2u_Log.thy ===== *)
theory T2u_Log
  imports T2u_Prelude
begin

text \<open>
  The callbacks of src/t2u.c and the macro \<open>LOG_\<close> of src/t2u_internal.h, with what \<open>printf\<close> makes of
  the conversions that the code uses for strings, pointers and numbers. A string is the list of its
  bytes without the terminator.
\<close>

section \<open>Callbacks\<close>

record callbacks =
  cb_log :: ptr
  cb_error :: ptr
  cb_unknown :: ptr

definition no_callbacks :: callbacks where
  "no_callbacks = \<lparr>cb_log = NULL, cb_error = NULL, cb_unknown = NULL\<rparr>"

definition set_log_callback :: "ptr \<Rightarrow> callbacks \<Rightarrow> callbacks" where
  "set_log_callback cb g = g\<lparr>cb_log := cb\<rparr>"

definition get_log_func :: "callbacks \<Rightarrow> ptr" where
  "get_log_func g = cb_log g"

definition set_error_callback :: "ptr \<Rightarrow> callbacks \<Rightarrow> callbacks" where
  "set_error_callback cb g = g\<lparr>cb_error := cb\<rparr>"

definition get_error_func :: "callbacks \<Rightarrow> ptr" where
  "get_error_func g = cb_error g"

definition set_unknown_callback :: "ptr \<Rightarrow> callbacks \<Rightarrow> callbacks" where
  "set_unknown_callback cb g = g\<lparr>cb_unknown := cb\<rparr>"

definition get_unknown_func :: "callbacks \<Rightarrow> ptr" where
  "get_unknown_func g = cb_unknown g"

lemma callback_simps [simp]:
  "get_log_func (set_log_callback cb g) = cb" "get_unknown_func (set_log_callback cb g) = get_unknown_func g"
  "get_log_func (set_error_callback cb g) = get_log_func g"
  "get_unknown_func (set_error_callback cb g) = get_unknown_func g"
  "get_log_func (set_unknown_callback cb g) = get_log_func g" "get_unknown_func (set_unknown_callback cb g) = cb"
  "get_log_func no_callbacks = NULL" "get_unknown_func no_callbacks = NULL"
  by (simp_all add: get_log_func_def get_unknown_func_def set_log_callback_def set_error_callback_def
      set_unknown_callback_def no_callbacks_def)

section \<open>Conversions\<close>

text \<open>Decimal and hexadecimal digits, and the two digits of a field of the time stamp.\<close>

definition digit :: "nat \<Rightarrow> byte" where
  "digit n = of_nat (if n < 10 then 48 + n else 87 + n)"

fun digits :: "nat \<Rightarrow> nat \<Rightarrow> byte list" where
  "digits b n = (if b < 2 \<or> n < b then [digit n] else digits b (n div b) @ [digit (n mod b)])"

declare digits.simps [simp del]

definition two_digits :: "nat \<Rightarrow> byte list" where
  "two_digits n = [digit (n div 10 mod 10), digit (n mod 10)]"

text \<open>\<open>%p\<close> of a 64-bit pointer, \<open>%u\<close>, and \<open>%s\<close>, which the C library prints as (null) for a null pointer.\<close>

definition fmt_p :: "addr \<Rightarrow> byte list" where
  "fmt_p a = [48, 120] @ digits 16 (a mod 2 ^ 64)"

definition fmt_u :: "nat \<Rightarrow> byte list" where
  "fmt_u n = digits 10 n"

definition fmt_s :: "byte list option \<Rightarrow> byte list" where
  "fmt_s s = (case s of None \<Rightarrow> [40, 110, 117, 108, 108, 41] | Some bytes \<Rightarrow> bytes)"

lemma digits_length: "2 \<le> b \<Longrightarrow> n < b ^ Suc k \<Longrightarrow> length (digits b n) \<le> Suc k"
proof (induction k arbitrary: n)
  case (Suc k)
  show ?case
  proof (cases "n < b")
    case False
    have "n div b < b ^ Suc k"
      using Suc.prems by (metis div_less_iff_less_mult less_le_trans mult.commute power_Suc zero_less_numeral)
    with Suc.IH [of "n div b"] Suc.prems(1) False show ?thesis by (subst digits.simps) simp
  qed (subst digits.simps, simp)
qed (subst digits.simps, simp)

lemma fmt_p_length: "length (fmt_p a) \<le> 18"
  using digits_length [of 16 "a mod 2 ^ 64" 15] by (simp add: fmt_p_def)

lemma fmt_u_length: "n < 2 ^ 16 \<Longrightarrow> length (fmt_u n) \<le> 5"
  using digits_length [of 10 n 4] by (simp add: fmt_u_def)

text \<open>Of a text, the bytes of its characters.\<close>

definition ascii :: "string \<Rightarrow> byte list" where
  "ascii s = map (\<lambda>c. of_nat (of_char c)) s"

lemma ascii_length [simp]: "length (ascii s) = length s"
  by (simp add: ascii_def)

section \<open>The log macro\<close>

text \<open>The local time, and the line up to the message: time stamp, \<open>__FILE__\<close> and \<open>__LINE__\<close>.\<close>

record tm =
  tm_year :: nat
  tm_mon :: nat
  tm_mday :: nat
  tm_hour :: nat
  tm_min :: nat
  tm_sec :: nat

definition strftime :: "tm \<Rightarrow> byte list" where
  "strftime t = two_digits (tm_year t) @ [45] @ two_digits (tm_mon t + 1) @ [45] @ two_digits (tm_mday t) @ [32] @
     two_digits (tm_hour t) @ [58] @ two_digits (tm_min t) @ [58] @ two_digits (tm_sec t)"

definition log_prefix :: "tm \<Rightarrow> byte list \<Rightarrow> nat \<Rightarrow> byte list" where
  "log_prefix t file line = [91] @ strftime t @ [93, 32, 91] @ file @ [58] @ fmt_u line @ [93, 32]"

lemma log_prefix_length: "length (log_prefix t file line) = length file + length (fmt_u line) + 24"
  by (simp add: log_prefix_def strftime_def two_digits_def)

lemma log_prefix_not_Nil [simp]: "log_prefix t file line \<noteq> []"
  by (simp add: log_prefix_def)

definition MESS_SIZE :: nat where "MESS_SIZE = 1024"

text \<open>
  The result of the macro: the calls of the callback (function, level and string), a write past the
  end of the buffer, or, on Windows, a call of the invalid parameter handler by \<open>sprintf_s\<close>.
\<close>

datatype log_result =
    Logged "(addr \<times> int \<times> byte list) list"
  | Overrun
  | Invalid_parameter

text \<open>\<open>mess_[n-1]\<close> is read: a line has at least one byte.\<close>

definition finish_line :: "byte list \<Rightarrow> nat \<Rightarrow> byte list" where
  "finish_line mess n = (if mess ! (n - 1) \<noteq> 10 then mess @ [10] else mess)"

definition LOG_gnuc :: "callbacks \<Rightarrow> int \<Rightarrow> byte list \<Rightarrow> byte list \<Rightarrow> log_result" where
  "LOG_gnuc g level prefix fmt =
     (case get_log_func g of
        None \<Rightarrow> Logged []
      | Some f \<Rightarrow>
          let n = length prefix in
          if n + 1 > MESS_SIZE then Overrun
          else
            let mess = prefix @ fmt; n' = n + length fmt in
            if n' + 1 > MESS_SIZE then Overrun
            else if n' < MESS_SIZE - 2 then Logged [(f, level, finish_line mess n')]
            else Logged [])"

text \<open>\<open>sprintf_s\<close> gets the space that is left in the buffer.\<close>

definition sprintf_s :: "nat \<Rightarrow> byte list \<Rightarrow> nat option" where
  "sprintf_s avail bytes = (if length bytes < avail then Some (length bytes) else None)"

definition LOG_msvc :: "callbacks \<Rightarrow> int \<Rightarrow> byte list \<Rightarrow> byte list \<Rightarrow> log_result" where
  "LOG_msvc g level prefix fmt =
     (case get_log_func g of
        None \<Rightarrow> Logged []
      | Some f \<Rightarrow>
          (case sprintf_s MESS_SIZE prefix of
             None \<Rightarrow> Invalid_parameter
           | Some n \<Rightarrow>
               (case sprintf_s (MESS_SIZE - n) fmt of
                  None \<Rightarrow> Invalid_parameter
                | Some k \<Rightarrow>
                    let mess = prefix @ fmt; n = n + k in
                    if n < MESS_SIZE - 2 then Logged [(f, level, finish_line mess n)] else Logged [])))"

section \<open>What is logged\<close>

definition log_line :: "byte list \<Rightarrow> byte list" where
  "log_line bytes = (if last bytes = 10 then bytes else bytes @ [10])"

lemma finish_line_eq: "bytes \<noteq> [] \<Longrightarrow> finish_line bytes (length bytes) = log_line bytes"
  by (simp add: finish_line_def log_line_def last_conv_nth)

lemma log_gnuc_exec:
  assumes "get_log_func g = Some f" "prefix \<noteq> []"
  shows "LOG_gnuc g level prefix fmt =
    (if length prefix + length fmt \<le> 1021 then Logged [(f, level, log_line (prefix @ fmt))]
     else if length prefix + length fmt \<le> 1023 then Logged [] else Overrun)"
proof -
  have "finish_line (prefix @ fmt) (length prefix + length fmt) = log_line (prefix @ fmt)"
    using finish_line_eq [of "prefix @ fmt"] assms(2) by simp
  then show ?thesis using assms(1) by (auto simp: LOG_gnuc_def MESS_SIZE_def Let_def)
qed

lemma log_msvc_exec:
  assumes "get_log_func g = Some f" "prefix \<noteq> []"
  shows "LOG_msvc g level prefix fmt =
    (if length prefix + length fmt \<le> 1021 then Logged [(f, level, log_line (prefix @ fmt))]
     else if length prefix + length fmt \<le> 1023 then Logged [] else Invalid_parameter)"
proof -
  have "finish_line (prefix @ fmt) (length prefix + length fmt) = log_line (prefix @ fmt)"
    using finish_line_eq [of "prefix @ fmt"] assms(2) by simp
  then show ?thesis using assms(1) by (auto simp: LOG_msvc_def MESS_SIZE_def sprintf_s_def Let_def)
qed

lemma LOG_gnuc_fits:
  "get_log_func g = NULL \<or> length prefix + length fmt \<le> 1023 \<Longrightarrow> \<exists>calls. LOG_gnuc g level prefix fmt = Logged calls"
  by (auto simp: LOG_gnuc_def MESS_SIZE_def Let_def split: option.split)

end
