(* ===== verification/T2u_State.thy ===== *)
theory T2u_State
  imports Rbtree_Correct T2u_Wire T2u_Log
begin

text \<open>
  The program state: the structures of src/t2u_internal.h as records, the objects that
  \<open>malloc\<close> returned as partial maps from addresses, and the calls that leave the program
  (sockets, clock, libevent).

  Calls that bring data in take their results from the parameter \<open>os\<close>, whose functions get the
  number of the call, so the environment may answer every call differently. Calls whose
  result the program does not use are recorded in the trace \<open>w_out\<close>.
\<close>

section \<open>Events\<close>

text \<open>
  A libevent event object is described by the callback it was created for and its socket
  (\<open>- 1\<close> for a timer). A \<open>t2u_event\<close> is allocated for one owner (a session, a message, a rule
  or a context) and is reached only from it and from the callbacks registered with it; it is
  stored with its owner, and \<open>None\<close> is a NULL pointer.
\<close>

datatype callback =
    Cb_request_timeout
  | Cb_connect_timeout
  | Cb_connect_success
  | Cb_timeout_check
  | Cb_process_tcp
  | Cb_process_accept
  | Cb_process_udp
  | Cb_runner_control

record event =
  ev_cb :: callback
  ev_sock :: int
  ev_persist :: bool

record t2u_event =
  te_event :: "event option"
  te_extra_event :: "event option"
  te_runner :: ptr
  te_context :: ptr
  te_rule :: ptr
  te_session :: ptr
  te_message :: ptr

definition evtimer :: "callback \<Rightarrow> event" where
  "evtimer cb = \<lparr>ev_cb = cb, ev_sock = - 1, ev_persist = False\<rparr>"

definition ev_read :: "callback \<Rightarrow> int \<Rightarrow> event" where
  "ev_read cb sock = \<lparr>ev_cb = cb, ev_sock = sock, ev_persist = True\<rparr>"

definition ev_write :: "callback \<Rightarrow> int \<Rightarrow> event" where
  "ev_write cb sock = \<lparr>ev_cb = cb, ev_sock = sock, ev_persist = False\<rparr>"

text \<open>\<open>struct timeval\<close>: seconds and microseconds.\<close>

type_synonym timeval = "nat \<times> nat"

definition timeval_ms :: "nat \<Rightarrow> timeval" where
  "timeval_ms ms = (ms div 1000, (ms mod 1000) * 1000)"

lemma timeval_ms_exact:
  "fst (timeval_ms ms) * 1000000 + snd (timeval_ms ms) = ms * 1000 \<and> snd (timeval_ms ms) < 1000000"
proof -
  have "1000 * (1000 * (ms div 1000) + ms mod 1000) = 1000 * ms" by simp
  then have "1000000 * (ms div 1000) + 1000 * (ms mod 1000) = 1000 * ms"
    by (simp only: distrib_left mult.assoc [symmetric])
  then show ?thesis by (simp add: timeval_ms_def mult.commute)
qed

section \<open>Structures\<close>

datatype forward_mode = forward_client_mode | forward_server_mode

record sockaddr_in =
  sin_addr :: u32
  sin_port :: u16

text \<open>
  A message of the send queue, or an entry of the receive queue, of which the C code sets
  \<open>data_\<close> and \<open>len_\<close> only. The list \<open>md_payload\<close> of the data has the allocated length.
\<close>

record t2u_message =
  m_session :: ptr
  m_data :: "t2u_message_data option"
  m_len :: u64
  m_seq :: u32
  m_send_retries :: nat
  m_ev_timeout :: "t2u_event option"

text \<open>
  \<open>s_status\<close>: 0 none, 1 connecting, 2 established, 3 closing. The trees map a sequence number
  to the address of a message.
\<close>

record t2u_session =
  s_rule :: ptr
  s_sock :: int
  s_handle :: u64
  s_status :: int
  s_send_buffer_count :: u32
  s_send_seq :: u32
  s_send_mess :: "(u32, addr) rbtree"
  s_recv_buffer_count :: u32
  s_recv_seq :: u32
  s_recv_mess :: "(u32, addr) rbtree"
  s_connect_retries :: nat
  s_ev :: "t2u_event option"
  s_retry_seq :: u32
  s_last_send_ts :: int

text \<open>The trees of a rule map a handle to the address of a session.\<close>

record t2u_rule =
  r_mode :: forward_mode
  r_listen_sock :: int
  r_ev_listen :: "t2u_event option"
  r_service :: cstr
  r_context :: ptr
  r_sessions :: "(u64, addr) rbtree"
  r_connecting_sessions :: "(u64, addr) rbtree"
  r_conn_addr :: sockaddr_in

record t2u_context =
  c_sock :: int
  c_runner :: ptr
  c_rules :: "(cstr, addr) rbtree"
  c_ev_udp :: "t2u_event option"
  c_utimeout :: nat
  c_uretries :: nat
  c_udp_slide_window :: nat
  c_session_timeout :: nat

record t2u_runner =
  n_contexts :: "(addr, addr) rbtree option"
  n_running :: int
  n_sock0 :: int
  n_sock1 :: int
  n_control_event :: "event option"

section \<open>The comparison functions of the trees\<close>

definition compare_uint32_ptr :: "u32 \<Rightarrow> u32 \<Rightarrow> int" where
  "compare_uint32_ptr sa sb = (if sa > sb then 1 else if sa < sb then - 1 else 0)"

definition compare_uint64_ptr :: "u64 \<Rightarrow> u64 \<Rightarrow> int" where
  "compare_uint64_ptr sa sb = (if sa > sb then 1 else if sa < sb then - 1 else 0)"

definition compare_name :: "cstr \<Rightarrow> cstr \<Rightarrow> int" where
  "compare_name a b = strcmp a b"

lemma compare_ok [simp]:
  "cmp_ok compare_uint32_ptr" "cmp_ok compare_uint64_ptr" "cmp_ok compare_name"
proof -
  show "cmp_ok compare_uint32_ptr" "cmp_ok compare_uint64_ptr"
    by (auto simp: cmp_ok_def compare_uint32_ptr_def compare_uint64_ptr_def)
  show "cmp_ok compare_name"
    by (auto simp: cmp_ok_def compare_name_def less_cstr_def strcmp_def strcmp_bytes_eq
        intro: cstr.expand)
qed

lemma rbtree_init_compare_ok [simp]:
  "rb_ok (rbtree_init (Some compare_uint32_ptr))" "rb_ok (rbtree_init (Some compare_uint64_ptr))"
  "rb_ok (rbtree_init (Some compare_name))" "rb_ok (rbtree_init NULL)"
  by (rule rbtree_init_ok, simp)+

section \<open>The environment\<close>

text \<open>
  Results of system calls, by number of the call: the clock, \<open>recv\<close> (returned value, \<open>errno\<close>
  and received bytes), \<open>send\<close> on a TCP socket (returned value and \<open>errno\<close>), \<open>connect\<close>, \<open>socket\<close>,
  \<open>accept\<close>, \<open>bind\<close>, \<open>listen\<close>, the socket error that \<open>getsockopt\<close> reads, \<open>inet_addr\<close>, and the
  contents of freshly allocated memory, and the local time.
\<close>

record os =
  os_arch :: arch
  os_time :: "nat \<Rightarrow> int"
  os_recv :: "nat \<Rightarrow> int \<Rightarrow> nat \<Rightarrow> int \<times> int \<times> byte list"
  os_send :: "nat \<Rightarrow> int \<Rightarrow> byte list \<Rightarrow> int \<times> int"
  os_connect :: "nat \<Rightarrow> int \<Rightarrow> sockaddr_in \<Rightarrow> int \<times> int"
  os_socket :: "nat \<Rightarrow> int"
  os_accept :: "nat \<Rightarrow> int \<Rightarrow> int"
  os_bind :: "nat \<Rightarrow> int \<Rightarrow> sockaddr_in \<Rightarrow> int"
  os_listen :: "nat \<Rightarrow> int \<Rightarrow> int"
  os_sock_error :: "nat \<Rightarrow> int \<Rightarrow> int"
  os_inet_addr :: "cstr \<Rightarrow> u32"
  os_junk :: "nat \<Rightarrow> nat \<Rightarrow> byte list"
  os_localtime :: "nat \<Rightarrow> tm"

text \<open>
  What is relied on of \<open>recv\<close> and \<open>malloc\<close>: at most as many bytes as asked for are received,
  as many as the result says, and memory of the size asked for is allocated.
\<close>

definition os_ok :: "os \<Rightarrow> bool" where
  "os_ok os \<longleftrightarrow>
     (\<forall>call sock cap. case os_recv os call sock cap of (n, err, bytes) \<Rightarrow>
        n \<le> int cap \<and> int (length bytes) = max 0 n) \<and>
     (\<forall>call cap. length (os_junk os call cap) = cap)"

text \<open>A fresh buffer of \<open>cap\<close> bytes into which \<open>bytes\<close> have been received.\<close>

definition recv_buffer :: "os \<Rightarrow> nat \<Rightarrow> nat \<Rightarrow> byte list \<Rightarrow> byte list" where
  "recv_buffer os call cap bytes = bytes @ drop (length bytes) (os_junk os call cap)"

text \<open>The Linux values of the error numbers.\<close>

definition EINTR :: int where "EINTR = 4"
definition EAGAIN :: int where "EAGAIN = 11"
definition EWOULDBLOCK :: int where "EWOULDBLOCK = 11"
definition EINPROGRESS :: int where "EINPROGRESS = 115"

lemmas errno_defs = EINTR_def EAGAIN_def EWOULDBLOCK_def EINPROGRESS_def

text \<open>Calls recorded in the trace; \<open>TcpSend\<close> also records what \<open>send\<close> returned.\<close>

datatype action =
    UdpSend int "byte list"
  | TcpSend int "byte list" int
  | CloseSocket int
  | EventAdd event "timeval option"
  | EventFree event
  | UnknownCallback addr "byte list"

section \<open>The world\<close>

record world =
  w_sessions :: "addr \<Rightarrow> t2u_session option"
  w_messages :: "addr \<Rightarrow> t2u_message option"
  w_rules :: "addr \<Rightarrow> t2u_rule option"
  w_contexts :: "addr \<Rightarrow> t2u_context option"
  w_runners :: "addr \<Rightarrow> t2u_runner option"
  w_fresh :: addr
  w_handle_seq :: u32
  w_g_runner :: ptr
  w_callbacks :: callbacks
  w_calls :: nat
  w_out :: "action list"

text \<open>Is there a callback for unknown packets?\<close>

abbreviation w_unknown_cb :: "world \<Rightarrow> bool" where
  "w_unknown_cb w \<equiv> get_unknown_func (w_callbacks w) \<noteq> NULL"

definition emit :: "action \<Rightarrow> world \<Rightarrow> world" where
  "emit a w = w\<lparr>w_out := w_out w @ [a]\<rparr>"

definition event_add :: "event \<Rightarrow> timeval option \<Rightarrow> world \<Rightarrow> world" where
  "event_add ev tv w = emit (EventAdd ev tv) w"

definition event_free :: "event \<Rightarrow> world \<Rightarrow> world" where
  "event_free ev w = emit (EventFree ev) w"

text \<open>One more system call has been made.\<close>

definition tick :: "world \<Rightarrow> world" where
  "tick w = w\<lparr>w_calls := Suc (w_calls w)\<rparr>"

definition put_session :: "addr \<Rightarrow> t2u_session \<Rightarrow> world \<Rightarrow> world" where
  "put_session s sess w = w\<lparr>w_sessions := (w_sessions w)(s \<mapsto> sess)\<rparr>"

definition put_message :: "addr \<Rightarrow> t2u_message \<Rightarrow> world \<Rightarrow> world" where
  "put_message m msg w = w\<lparr>w_messages := (w_messages w)(m \<mapsto> msg)\<rparr>"

definition put_rule :: "addr \<Rightarrow> t2u_rule \<Rightarrow> world \<Rightarrow> world" where
  "put_rule r rule w = w\<lparr>w_rules := (w_rules w)(r \<mapsto> rule)\<rparr>"

definition put_context :: "addr \<Rightarrow> t2u_context \<Rightarrow> world \<Rightarrow> world" where
  "put_context c ctx w = w\<lparr>w_contexts := (w_contexts w)(c \<mapsto> ctx)\<rparr>"

definition put_runner :: "addr \<Rightarrow> t2u_runner \<Rightarrow> world \<Rightarrow> world" where
  "put_runner n run w = w\<lparr>w_runners := (w_runners w)(n \<mapsto> run)\<rparr>"

definition free_session :: "addr \<Rightarrow> world \<Rightarrow> world" where
  "free_session s w = w\<lparr>w_sessions := (w_sessions w)(s := None)\<rparr>"

definition free_message :: "addr \<Rightarrow> world \<Rightarrow> world" where
  "free_message m w = w\<lparr>w_messages := (w_messages w)(m := None)\<rparr>"

definition free_rule :: "addr \<Rightarrow> world \<Rightarrow> world" where
  "free_rule r w = w\<lparr>w_rules := (w_rules w)(r := None)\<rparr>"

definition free_context :: "addr \<Rightarrow> world \<Rightarrow> world" where
  "free_context c w = w\<lparr>w_contexts := (w_contexts w)(c := None)\<rparr>"

definition free_runner :: "addr \<Rightarrow> world \<Rightarrow> world" where
  "free_runner n w = w\<lparr>w_runners := (w_runners w)(n := None)\<rparr>"

definition malloc :: "world \<Rightarrow> addr \<times> world" where
  "malloc w = (w_fresh w, w\<lparr>w_fresh := Suc (w_fresh w)\<rparr>)"

text \<open>Dereferencing a pointer to an object of each kind.\<close>

definition the_session :: "world \<Rightarrow> ptr \<Rightarrow> t2u_session option" where
  "the_session w p = Option.bind p (w_sessions w)"

definition the_rule :: "world \<Rightarrow> ptr \<Rightarrow> t2u_rule option" where
  "the_rule w p = Option.bind p (w_rules w)"

definition the_context :: "world \<Rightarrow> ptr \<Rightarrow> t2u_context option" where
  "the_context w p = Option.bind p (w_contexts w)"

definition the_runner :: "world \<Rightarrow> ptr \<Rightarrow> t2u_runner option" where
  "the_runner w p = Option.bind p (w_runners w)"

text \<open>\<open>session->rule_->context_\<close> and the structure it points to.\<close>

definition session_context :: "world \<Rightarrow> addr \<Rightarrow> (ptr \<times> t2u_context) option" where
  "session_context w s = do {
     sess \<leftarrow> w_sessions w s;
     rule \<leftarrow> the_rule w (s_rule sess);
     ctx \<leftarrow> the_context w (r_context rule);
     Some (r_context rule, ctx) }"

lemmas world_defs =
  emit_def event_add_def event_free_def tick_def put_session_def put_message_def put_rule_def
  put_context_def put_runner_def free_session_def free_message_def
  free_rule_def free_context_def free_runner_def malloc_def

lemmas deref_defs = the_session_def the_rule_def the_context_def the_runner_def

text \<open>
  \<open>t2u_runner_control\<close>: the function runs in the runner's thread, at once if the caller is that
  thread, and otherwise while the caller waits for the reply on the control socket. The
  caller dereferences the runner.
\<close>

definition t2u_runner_control :: "ptr \<Rightarrow> (world \<Rightarrow> 'a option) \<Rightarrow> world \<Rightarrow> 'a option" where
  "t2u_runner_control runner func w = do { _ \<leftarrow> the_runner w runner; func w }"

text \<open>\<open>t2u_event_new\<close> zeroes the structure; \<open>t2u_delete_event\<close> accepts NULL.\<close>

definition t2u_event_new :: t2u_event where
  "t2u_event_new =
     \<lparr>te_event = None, te_extra_event = None, te_runner = NULL, te_context = NULL, te_rule = NULL,
      te_session = NULL, te_message = NULL\<rparr>"

definition t2u_delete_event :: "t2u_event option \<Rightarrow> world \<Rightarrow> world" where
  "t2u_delete_event ev w =
     (case ev of
        None \<Rightarrow> w
      | Some e \<Rightarrow>
          let w = (case te_event e of None \<Rightarrow> w | Some x \<Rightarrow> event_free x w)
          in (case te_extra_event e of None \<Rightarrow> w | Some x \<Rightarrow> event_free x w))"

text \<open>
  \<open>t2u_send_message_data\<close>: the session's time stamp, then one datagram. Sending more bytes
  than the buffer holds is undefined.
\<close>

definition t2u_send_message_data ::
  "os \<Rightarrow> ptr \<Rightarrow> byte list \<Rightarrow> nat \<Rightarrow> ptr \<Rightarrow> world \<Rightarrow> world option" where
  "t2u_send_message_data os context data len session w = do {
     w \<leftarrow> (case session of
             None \<Rightarrow> Some w
           | Some s \<Rightarrow> do {
               sess \<leftarrow> w_sessions w s;
               Some (put_session s (sess\<lparr>s_last_send_ts := os_time os (w_calls w)\<rparr>) (tick w)) });
     ctx \<leftarrow> the_context w context;
     _ \<leftarrow> assert_that (len \<le> length data);
     Some (emit (UdpSend (c_sock ctx) (take len data)) w) }"

text \<open>
  \<open>LOG_\<close> as it is compiled with GCC, with the file name that the Makefile gives to the compiler.
  The log callback belongs to the caller of the library: what it does is not recorded.
\<close>

definition LOG_line :: "os \<Rightarrow> int \<Rightarrow> string \<Rightarrow> nat \<Rightarrow> byte list \<Rightarrow> world \<Rightarrow> world option" where
  "LOG_line os level file line fmt w =
     (case LOG_gnuc (w_callbacks w) level (log_prefix (os_localtime os (w_calls w)) (ascii file) line) fmt of
        Logged calls \<Rightarrow> Some w
      | _ \<Rightarrow> None)"

lemma LOG_line_fits:
  assumes "get_log_func (w_callbacks w) \<noteq> NULL \<longrightarrow> length file + length (fmt_u line) + 24 + length fmt \<le> 1023"
  shows "LOG_line os level file line fmt w = Some w"
proof -
  let ?prefix = "log_prefix (os_localtime os (w_calls w)) (ascii file) line"
  have "get_log_func (w_callbacks w) = NULL \<or> length ?prefix + length fmt \<le> 1023"
    using assms by (auto simp: log_prefix_length)
  from LOG_gnuc_fits [OF this, of level] show ?thesis by (auto simp: LOG_line_def)
qed

text \<open>
  What the handlers of one session leave alone: the other sessions, and all rules, contexts
  and runners. Freed addresses are not reused.
\<close>

definition same_owners :: "world \<Rightarrow> world \<Rightarrow> bool" where
  "same_owners w w' \<longleftrightarrow>
     w_rules w' = w_rules w \<and> w_contexts w' = w_contexts w \<and> w_runners w' = w_runners w"

end
