(* ===== verification/T2u_Inv.thy ===== *)
theory T2u_Inv
  imports T2u_State
begin

text \<open>
  The invariant of the program state: how messages, sessions, rules, contexts and the runner
  are linked, and the loop scheme with which the program empties its trees.
\<close>

section \<open>Loops that empty a store\<close>

text \<open>
  Every deletion in the program empties a tree by handling the entry at the root until there
  is none. \<open>inv\<close> relates the state to the one before the loop.
\<close>

locale drain_loop =
  fixes loop :: "'w \<Rightarrow> 'w option"
    and content :: "'w \<Rightarrow> 'k \<Rightarrow> 'd option"
    and inv :: "'w \<Rightarrow> bool"
  assumes stop: "inv w \<Longrightarrow> content w = Map.empty \<Longrightarrow> loop w = Some w"
    and round: "inv w \<Longrightarrow> content w \<noteq> Map.empty \<Longrightarrow>
      \<exists>k w'. k \<in> dom (content w) \<and> loop w = loop w' \<and> inv w' \<and> content w' = (content w)(k := None)"
    and finite_content: "inv w \<Longrightarrow> finite (dom (content w))"
begin

lemma drains:
  assumes "inv w"
  shows "\<exists>w'. loop w = Some w' \<and> inv w' \<and> content w' = Map.empty"
  using assms
proof (induction "card (dom (content w))" arbitrary: w rule: less_induct)
  case less
  show ?case
  proof (cases "content w = Map.empty")
    case True
    with less.prems stop show ?thesis by blast
  next
    case False
    from round [OF less.prems this] obtain k w' where
      k: "k \<in> dom (content w)" and w': "loop w = loop w'" "inv w'" "content w' = (content w)(k := None)"
      by blast
    have "card (dom (content w) - {k}) < card (dom (content w))"
      by (rule card_Diff1_less [OF finite_content [OF less.prems] k])
    with w'(3) have "card (dom (content w')) < card (dom (content w))" by simp
    from less.hyps [OF this w'(2)] w'(1) show ?thesis by simp
  qed
qed

end

lemma restrict_UNIV [simp]: "f |` UNIV = f"
  by (simp add: restrict_map_def)

lemma restrict_restrict_compl: "f |` (- A) |` (- B) = f |` (- (A \<union> B))"
  by (auto simp: restrict_map_def fun_eq_iff)

text \<open>What a loop has freed when the entries of \<open>f\<close> are left of those of \<open>g\<close>.\<close>

definition drained :: "('k \<Rightarrow> 'a option) \<Rightarrow> ('k \<Rightarrow> 'a option) \<Rightarrow> 'a set" where
  "drained g f = ran g - ran f"

lemma drained_refl [simp]: "drained f f = {}" and drained_empty [simp]: "drained g Map.empty = ran g"
  by (auto simp: drained_def)

lemma map_le_del: "f \<subseteq>\<^sub>m g \<Longrightarrow> f(k := None) \<subseteq>\<^sub>m g"
  by (auto simp: map_le_def)

lemma ran_del:
  assumes k: "f k = Some m" and inj: "\<And>j. f j = Some m \<Longrightarrow> j = k"
  shows "ran (f(k := None)) = ran f - {m}"
proof (rule set_eqI)
  fix x
  show "x \<in> ran (f(k := None)) \<longleftrightarrow> x \<in> ran f - {m}"
  proof (cases "x = m")
    case True
    with inj show ?thesis by (auto simp: ran_def)
  next
    case False
    then have "f k \<noteq> Some x" using k by simp
    with False show ?thesis by (auto simp: ran_def)
  qed
qed

lemma drained_step:
  assumes le: "f \<subseteq>\<^sub>m g" and k: "f k = Some m"
    and inj: "\<And>k k' m. g k = Some m \<Longrightarrow> g k' = Some m \<Longrightarrow> k = k'"
  shows "drained g (f(k := None)) = insert m (drained g f)"
proof -
  have g: "f j = Some a \<Longrightarrow> g j = Some a" for j a
    using le by (auto simp: map_le_def dom_def)
  then have "j = k" if "f j = Some m" for j using that k inj by blast
  from ran_del [where f = f, OF k this] have "ran (f(k := None)) = ran f - {m}" .
  moreover have "m \<in> ran g" "m \<in> ran f" using g [OF k] k by (auto simp: ran_def)
  ultimately show ?thesis by (auto simp: drained_def)
qed

section \<open>Links\<close>

text \<open>A session, its rule, its context and its runner.\<close>

definition linked ::
  "world \<Rightarrow> t2u_session \<Rightarrow> addr \<Rightarrow> t2u_rule \<Rightarrow> addr \<Rightarrow> t2u_context \<Rightarrow> addr \<Rightarrow> bool" where
  "linked w sess r rule c ctx n \<longleftrightarrow>
     s_rule sess = Some r \<and> w_rules w r = Some rule \<and> r_context rule = Some c \<and>
     w_contexts w c = Some ctx \<and> c_runner ctx = Some n \<and> w_runners w n \<noteq> None"

lemma linkedD:
  assumes "linked w sess r rule c ctx n"
  shows "s_rule sess = Some r" "w_rules w r = Some rule" "r_context rule = Some c"
    "w_contexts w c = Some ctx" "c_runner ctx = Some n" "\<exists>run. w_runners w n = Some run"
    "the_rule w (s_rule sess) = Some rule" "the_context w (r_context rule) = Some ctx"
  using assms by (auto simp: linked_def the_rule_def the_context_def)

text \<open>The trace of \<open>t2u_delete_event\<close>.\<close>

definition event_frees :: "t2u_event option \<Rightarrow> action list" where
  "event_frees ev =
     (case ev of
        None \<Rightarrow> []
      | Some e \<Rightarrow>
          (case te_event e of None \<Rightarrow> [] | Some x \<Rightarrow> [EventFree x]) @
          (case te_extra_event e of None \<Rightarrow> [] | Some x \<Rightarrow> [EventFree x]))"

lemma t2u_delete_event_exec: "t2u_delete_event ev w = w\<lparr>w_out := w_out w @ event_frees ev\<rparr>"
  by (auto simp: t2u_delete_event_def event_frees_def world_defs Let_def split: option.splits)

section \<open>Messages and queues\<close>

text \<open>The rule, the context and the runner of a session are its owners, \<open>own\<close>.\<close>

type_synonym owners = "addr \<times> addr \<times> addr"

definition message_event :: "owners \<Rightarrow> addr \<Rightarrow> addr \<Rightarrow> t2u_event \<Rightarrow> bool" where
  "message_event own s m ev \<longleftrightarrow>
     te_event ev = Some (evtimer Cb_request_timeout) \<and> te_extra_event ev = None \<and>
     te_rule ev = Some (fst own) \<and> te_context ev = Some (fst (snd own)) \<and> te_runner ev = Some (snd (snd own)) \<and>
     te_session ev = Some s \<and> te_message ev = Some m"

definition send_msg_ok :: "owners \<Rightarrow> addr \<Rightarrow> u32 \<Rightarrow> addr \<Rightarrow> t2u_message \<Rightarrow> bool" where
  "send_msg_ok own s k m msg \<longleftrightarrow>
     m_session msg = Some s \<and> m_seq msg = k \<and>
     (\<exists>data ev. m_data msg = Some data \<and> m_ev_timeout msg = Some ev \<and> message_event own s m ev \<and>
        sizeof_md \<le> unat (m_len msg) \<and> unat (m_len msg) \<le> sizeof_md + length (md_payload data) \<and>
        length (md_payload data) \<le> T2U_PAYLOAD_MAX)"

definition recv_msg_ok :: "u32 \<Rightarrow> t2u_message \<Rightarrow> bool" where
  "recv_msg_ok k msg \<longleftrightarrow>
     m_session msg = NULL \<and> m_ev_timeout msg = NULL \<and>
     (\<exists>data. m_data msg = Some data \<and> md_seq data = k \<and>
        unat (m_len msg) = sizeof_md + length (md_payload data) \<and>
        length (md_payload data) \<le> T2U_PAYLOAD_MAX)"

abbreviation send_map :: "t2u_session \<Rightarrow> u32 \<Rightarrow> addr option" where
  "send_map sess \<equiv> rb_map (s_send_mess sess)"

abbreviation recv_map :: "t2u_session \<Rightarrow> u32 \<Rightarrow> addr option" where
  "recv_map sess \<equiv> rb_map (s_recv_mess sess)"

definition send_queue_ok :: "owners \<Rightarrow> (addr \<Rightarrow> t2u_message option) \<Rightarrow> addr \<Rightarrow> t2u_session \<Rightarrow> bool" where
  "send_queue_ok own msgs s sess \<longleftrightarrow>
     rb_ok (s_send_mess sess) \<and>
     unat (s_send_buffer_count sess) = card (dom (send_map sess)) \<and>
     (\<forall>k m. send_map sess k = Some m \<longrightarrow> (\<exists>msg. msgs m = Some msg \<and> send_msg_ok own s k m msg))"

definition recv_queue_ok :: "(addr \<Rightarrow> t2u_message option) \<Rightarrow> t2u_session \<Rightarrow> bool" where
  "recv_queue_ok msgs sess \<longleftrightarrow>
     rb_ok (s_recv_mess sess) \<and>
     unat (s_recv_buffer_count sess) = card (dom (recv_map sess)) \<and>
     (\<forall>k m. recv_map sess k = Some m \<longrightarrow> (\<exists>msg. msgs m = Some msg \<and> recv_msg_ok k msg))"

definition queues_ok :: "owners \<Rightarrow> (addr \<Rightarrow> t2u_message option) \<Rightarrow> addr \<Rightarrow> t2u_session \<Rightarrow> bool" where
  "queues_ok own msgs s sess \<longleftrightarrow> send_queue_ok own msgs s sess \<and> recv_queue_ok msgs sess"

lemma send_queue_okD:
  assumes "send_queue_ok own msgs s sess"
  shows "rb_ok (s_send_mess sess)" "unat (s_send_buffer_count sess) = card (dom (send_map sess))"
    "send_map sess k = Some m \<Longrightarrow> \<exists>msg. msgs m = Some msg \<and> send_msg_ok own s k m msg"
  using assms by (auto simp: send_queue_ok_def)

lemma recv_queue_okD:
  assumes "recv_queue_ok msgs sess"
  shows "rb_ok (s_recv_mess sess)" "unat (s_recv_buffer_count sess) = card (dom (recv_map sess))"
    "recv_map sess k = Some m \<Longrightarrow> \<exists>msg. msgs m = Some msg \<and> recv_msg_ok k msg"
  using assms by (auto simp: recv_queue_ok_def)

lemma queues_okD:
  assumes "queues_ok own msgs s sess"
  shows "send_queue_ok own msgs s sess" "recv_queue_ok msgs sess"
  using assms by (auto simp: queues_ok_def)

text \<open>The messages of a session. Its queues hold no message twice.\<close>

definition messages_of :: "t2u_session \<Rightarrow> addr set" where
  "messages_of sess = ran (send_map sess) \<union> ran (recv_map sess)"

lemma send_queue_inj:
  assumes "send_queue_ok own msgs s sess" "send_map sess k = Some m" "send_map sess k' = Some m"
  shows "k = k'"
  using send_queue_okD(3) [OF assms(1,2)] send_queue_okD(3) [OF assms(1,3)]
  by (auto simp: send_msg_ok_def)

lemma recv_queue_inj:
  assumes "recv_queue_ok msgs sess" "recv_map sess k = Some m" "recv_map sess k' = Some m"
  shows "k = k'"
  using recv_queue_okD(3) [OF assms(1,2)] recv_queue_okD(3) [OF assms(1,3)]
  by (auto simp: recv_msg_ok_def)

lemma queues_disjoint:
  assumes "send_queue_ok own msgs s sess" "recv_queue_ok msgs sess'"
    and "send_map sess k = Some m" "recv_map sess' k' = Some m"
  shows False
  using send_queue_okD(3) [OF assms(1,3)] recv_queue_okD(3) [OF assms(2,4)]
  by (auto simp: send_msg_ok_def recv_msg_ok_def)

text \<open>Queues only depend on the messages in them.\<close>

lemma send_queue_ok_cong:
  assumes q: "send_queue_ok own msgs s sess" and "\<And>m. m \<in> ran (send_map sess) \<Longrightarrow> msgs' m = msgs m"
  shows "send_queue_ok own msgs' s sess"
proof -
  have "\<exists>msg. msgs' m = Some msg \<and> send_msg_ok own s k m msg" if "send_map sess k = Some m" for k m
  proof -
    from that have "m \<in> ran (send_map sess)" by (auto simp: ran_def)
    with assms(2) send_queue_okD(3) [OF q that] show ?thesis by auto
  qed
  with q show ?thesis by (auto simp: send_queue_ok_def)
qed

lemma recv_queue_ok_cong:
  assumes q: "recv_queue_ok msgs sess" and "\<And>m. m \<in> ran (recv_map sess) \<Longrightarrow> msgs' m = msgs m"
  shows "recv_queue_ok msgs' sess"
proof -
  have "\<exists>msg. msgs' m = Some msg \<and> recv_msg_ok k msg" if "recv_map sess k = Some m" for k m
  proof -
    from that have "m \<in> ran (recv_map sess)" by (auto simp: ran_def)
    with assms(2) recv_queue_okD(3) [OF q that] show ?thesis by auto
  qed
  with q show ?thesis by (auto simp: recv_queue_ok_def)
qed

lemma queues_ok_cong:
  assumes "queues_ok own msgs s sess" and "\<And>m. m \<in> messages_of sess \<Longrightarrow> msgs' m = msgs m"
  shows "queues_ok own msgs' s sess"
  using assms send_queue_ok_cong [of own msgs s sess msgs'] recv_queue_ok_cong [of msgs sess msgs']
  by (simp add: queues_ok_def messages_of_def)

text \<open>Both predicates look at the fields of their own queue only.\<close>

lemma send_queue_ok_fields:
  assumes "s_send_mess sess' = s_send_mess sess" "s_send_buffer_count sess' = s_send_buffer_count sess"
  shows "send_queue_ok own msgs s sess' = send_queue_ok own msgs s sess"
  using assms by (simp add: send_queue_ok_def)

lemma recv_queue_ok_fields:
  assumes "s_recv_mess sess' = s_recv_mess sess" "s_recv_buffer_count sess' = s_recv_buffer_count sess"
  shows "recv_queue_ok msgs sess' = recv_queue_ok msgs sess"
  using assms by (simp add: recv_queue_ok_def)

end
