(* ===== verification/T2u_World.thy ===== *)
theory T2u_World
  imports T2u_Inv
begin

text \<open>
  The invariant of a whole program state, and how it survives a change to one session: its
  fields and messages, its deletion, its creation and its move from the connecting to the
  established sessions of its rule.
\<close>

section \<open>Sessions\<close>

definition session_events :: "forward_mode \<Rightarrow> addr \<Rightarrow> addr \<Rightarrow> addr \<Rightarrow> addr \<Rightarrow> t2u_session \<Rightarrow> bool" where
  "session_events mode r c n s sess \<longleftrightarrow>
     (\<exists>ev. s_ev sess = Some ev \<and> te_rule ev = Some r \<and> te_context ev = Some c \<and>
        te_runner ev = Some n \<and> te_session ev = Some s \<and> te_message ev = NULL \<and>
        (if s_status sess = 1
         then te_event ev = Some (evtimer Cb_connect_timeout) \<and>
           te_extra_event ev =
             (if mode = forward_server_mode then Some (ev_write Cb_connect_success (s_sock sess)) else None)
         else te_event ev \<in> {None, Some (ev_read Cb_process_tcp (s_sock sess))} \<and>
           te_extra_event ev = Some (evtimer Cb_timeout_check)))"

lemma session_events_cong:
  assumes "s_ev sess' = s_ev sess" "s_status sess' = s_status sess" "s_sock sess' = s_sock sess"
  shows "session_events mode r c n s sess' = session_events mode r c n s sess"
  unfolding session_events_def assms ..

text \<open>The tree of its rule in which a session is registered.\<close>

definition registry :: "t2u_rule \<Rightarrow> int \<Rightarrow> u64 \<Rightarrow> addr option" where
  "registry rule status =
     (if status = 1 then rb_map (r_connecting_sessions rule) else rb_map (r_sessions rule))"

definition session_ok :: "world \<Rightarrow> addr \<Rightarrow> t2u_session \<Rightarrow> bool" where
  "session_ok w s sess \<longleftrightarrow>
     (\<exists>r rule c ctx n. linked w sess r rule c ctx n \<and> queues_ok (r, c, n) (w_messages w) s sess \<and>
        s_status sess \<in> {1, 2, 3} \<and> (s_status sess = 1 \<longrightarrow> messages_of sess = {}) \<and>
        session_events (r_mode rule) r c n s sess \<and>
        registry rule (s_status sess) (s_handle sess) = Some s)"

lemma session_okE:
  assumes "session_ok w s sess"
  obtains r rule c ctx n where "linked w sess r rule c ctx n" "queues_ok (r, c, n) (w_messages w) s sess"
    "s_status sess \<in> {1, 2, 3}" "s_status sess = 1 \<longrightarrow> messages_of sess = {}"
    "session_events (r_mode rule) r c n s sess" "registry rule (s_status sess) (s_handle sess) = Some s"
  using assms by (auto simp: session_ok_def)

lemma session_okI:
  assumes "linked w sess r rule c ctx n" "queues_ok (r, c, n) (w_messages w) s sess"
    "s_status sess \<in> {1, 2, 3}" "s_status sess = 1 \<Longrightarrow> messages_of sess = {}"
    "session_events (r_mode rule) r c n s sess" "registry rule (s_status sess) (s_handle sess) = Some s"
  shows "session_ok w s sess"
  using assms unfolding session_ok_def by blast

section \<open>Rules, contexts and runners\<close>

text \<open>What a rule's tree of sessions points to.\<close>

definition entries_ok :: "(addr \<Rightarrow> t2u_session option) \<Rightarrow> addr \<Rightarrow> bool \<Rightarrow> (u64 \<Rightarrow> addr option) \<Rightarrow> bool" where
  "entries_ok sessions r connecting tree \<longleftrightarrow>
     (\<forall>h s. tree h = Some s \<longrightarrow>
        (\<exists>sess. sessions s = Some sess \<and> s_rule sess = Some r \<and> s_handle sess = h \<and>
           (s_status sess = 1) = connecting))"

definition rule_links :: "world \<Rightarrow> addr \<Rightarrow> t2u_rule \<Rightarrow> bool" where
  "rule_links w r rule \<longleftrightarrow>
     (\<exists>c ctx. r_context rule = Some c \<and> w_contexts w c = Some ctx \<and>
        rb_map (c_rules ctx) (r_service rule) = Some r \<and>
        (\<forall>ev. r_ev_listen rule = Some ev \<longrightarrow> te_context ev = Some c \<and> te_runner ev = c_runner ctx)) \<and>
     (\<forall>ev. r_ev_listen rule = Some ev \<longrightarrow> r_mode rule = forward_client_mode \<and> te_rule ev = Some r \<and>
        te_session ev = NULL \<and> te_message ev = NULL \<and>
        te_event ev = Some (ev_read Cb_process_accept (r_listen_sock rule)) \<and> te_extra_event ev = None)"

definition rule_ok :: "world \<Rightarrow> addr \<Rightarrow> t2u_rule \<Rightarrow> bool" where
  "rule_ok w r rule \<longleftrightarrow>
     rb_ok (r_sessions rule) \<and> rb_ok (r_connecting_sessions rule) \<and>
     entries_ok (w_sessions w) r False (rb_map (r_sessions rule)) \<and>
     entries_ok (w_sessions w) r True (rb_map (r_connecting_sessions rule)) \<and> rule_links w r rule"

definition context_ok :: "world \<Rightarrow> addr \<Rightarrow> t2u_context \<Rightarrow> bool" where
  "context_ok w c ctx \<longleftrightarrow>
     rb_ok (c_rules ctx) \<and>
     (\<forall>k r. rb_map (c_rules ctx) k = Some r \<longrightarrow>
        (\<exists>rule. w_rules w r = Some rule \<and> r_context rule = Some c \<and> r_service rule = k)) \<and>
     (\<exists>n run tree. c_runner ctx = Some n \<and> w_runners w n = Some run \<and> n_contexts run = Some tree \<and>
        rb_map tree c = Some c) \<and>
     (\<exists>ev. c_ev_udp ctx = Some ev \<and> te_context ev = Some c \<and> te_runner ev = c_runner ctx \<and>
        te_rule ev = NULL \<and> te_session ev = NULL \<and> te_message ev = NULL \<and>
        te_event ev = Some (ev_read Cb_process_udp (c_sock ctx)) \<and> te_extra_event ev = None) \<and>
     10 \<le> c_utimeout ctx \<and> c_utimeout ctx \<le> 30000 \<and> 1 \<le> c_uretries ctx \<and> c_uretries ctx \<le> 20 \<and>
     1 \<le> c_udp_slide_window ctx \<and> c_udp_slide_window ctx \<le> 64 \<and>
     10 \<le> c_session_timeout ctx \<and> c_session_timeout ctx \<le> 86400"

definition runner_ok :: "world \<Rightarrow> addr \<Rightarrow> t2u_runner \<Rightarrow> bool" where
  "runner_ok w n run \<longleftrightarrow>
     (\<exists>tree. n_contexts run = Some tree \<and> rb_ok tree \<and>
        (\<forall>k c. rb_map tree k = Some c \<longrightarrow>
           k = c \<and> (\<exists>ctx. w_contexts w c = Some ctx \<and> c_runner ctx = Some n)))"

section \<open>The whole state\<close>

text \<open>Every message in memory is queued by exactly one session.\<close>

definition messages_ok :: "world \<Rightarrow> bool" where
  "messages_ok w \<longleftrightarrow>
     (\<forall>m. w_messages w m \<noteq> None \<longrightarrow>
        (\<exists>s sess. w_sessions w s = Some sess \<and> m \<in> messages_of sess)) \<and>
     (\<forall>s sess s' sess' m. w_sessions w s = Some sess \<longrightarrow> w_sessions w s' = Some sess' \<longrightarrow>
        m \<in> messages_of sess \<longrightarrow> m \<in> messages_of sess' \<longrightarrow> s = s')"

definition fresh_ok :: "world \<Rightarrow> bool" where
  "fresh_ok w \<longleftrightarrow>
     (\<forall>a \<ge> w_fresh w. w_sessions w a = None \<and> w_messages w a = None \<and> w_rules w a = None \<and>
        w_contexts w a = None \<and> w_runners w a = None)"

definition world_ok :: "world \<Rightarrow> bool" where
  "world_ok w \<longleftrightarrow>
     (\<forall>s sess. w_sessions w s = Some sess \<longrightarrow> session_ok w s sess) \<and>
     (\<forall>r rule. w_rules w r = Some rule \<longrightarrow> rule_ok w r rule) \<and>
     (\<forall>c ctx. w_contexts w c = Some ctx \<longrightarrow> context_ok w c ctx) \<and>
     (\<forall>n run. w_runners w n = Some run \<longrightarrow> runner_ok w n run) \<and>
     messages_ok w \<and> fresh_ok w"

lemma world_okD:
  assumes "world_ok w"
  shows "w_sessions w s = Some sess \<Longrightarrow> session_ok w s sess"
    "w_rules w r = Some rule \<Longrightarrow> rule_ok w r rule"
    "w_contexts w c = Some ctx \<Longrightarrow> context_ok w c ctx"
    "w_runners w n = Some run \<Longrightarrow> runner_ok w n run"
    "messages_ok w" "fresh_ok w"
  using assms by (auto simp: world_ok_def)

text \<open>The trace, the counters and the callback flag do not matter.\<close>

lemma linked_frame [simp]:
  "linked (w\<lparr>w_out := x\<rparr>) = linked w" "linked (w\<lparr>w_calls := y\<rparr>) = linked w"
  "linked (w\<lparr>w_sessions := u\<rparr>) = linked w" "linked (w\<lparr>w_messages := v\<rparr>) = linked w"
  "linked (w\<lparr>w_handle_seq := z\<rparr>) = linked w" "linked (w\<lparr>w_fresh := f\<rparr>) = linked w"
  "linked (w\<lparr>w_g_runner := g\<rparr>) = linked w" "linked (w\<lparr>w_callbacks := b\<rparr>) = linked w"
  by (simp_all add: linked_def fun_eq_iff)

lemma linked_cong:
  assumes "w_rules w' = w_rules w" "w_contexts w' = w_contexts w" "w_runners w' = w_runners w"
  shows "linked w' = linked w"
  using assms by (simp add: linked_def fun_eq_iff)

text \<open>Links only depend on the session's rule pointer.\<close>

lemma linked_session: "s_rule sess' = s_rule sess \<Longrightarrow> linked w sess' = linked w sess"
  by (simp add: linked_def fun_eq_iff)

lemma world_ok_frame [simp]:
  "world_ok (w\<lparr>w_out := x\<rparr>) = world_ok w" "world_ok (w\<lparr>w_calls := y\<rparr>) = world_ok w"
  "world_ok (w\<lparr>w_handle_seq := z\<rparr>) = world_ok w" "world_ok (w\<lparr>w_g_runner := g\<rparr>) = world_ok w"
  "world_ok (w\<lparr>w_callbacks := b\<rparr>) = world_ok w"
  by (simp_all add: world_ok_def session_ok_def rule_ok_def rule_links_def context_ok_def runner_ok_def
      messages_ok_def fresh_ok_def)

section \<open>Changing one session\<close>

text \<open>
  What a handler of session \<open>s\<close> may do to the state: change the fields of the session and the
  messages it owns, and add messages at fresh addresses.
\<close>

definition session_step :: "addr \<Rightarrow> t2u_session \<Rightarrow> t2u_session \<Rightarrow> world \<Rightarrow> world \<Rightarrow> bool" where
  "session_step s sess sess' w w' \<longleftrightarrow>
     w_rules w' = w_rules w \<and> w_contexts w' = w_contexts w \<and> w_runners w' = w_runners w \<and>
     w_sessions w' = (w_sessions w)(s \<mapsto> sess') \<and> w_fresh w \<le> w_fresh w' \<and>
     s_rule sess' = s_rule sess \<and> s_handle sess' = s_handle sess \<and>
     (s_status sess' = 1) = (s_status sess = 1) \<and>
     messages_of sess' \<subseteq> messages_of sess \<union> {m. w_fresh w \<le> m} \<and>
     (\<forall>m. m \<in> messages_of sess \<union> {m. w_fresh w \<le> m} \<longrightarrow> w_messages w' m \<noteq> None \<longrightarrow>
        m \<in> messages_of sess' \<and> m < w_fresh w') \<and>
     (\<forall>m. m \<notin> messages_of sess \<longrightarrow> m < w_fresh w \<longrightarrow> w_messages w' m = w_messages w m)"

lemma owned_live:
  assumes "world_ok w" "w_sessions w s = Some sess" "m \<in> messages_of sess"
  shows "w_messages w m \<noteq> None" "m < w_fresh w"
proof -
  from world_okD(1) [OF assms(1,2)] obtain c where q: "queues_ok c (w_messages w) s sess"
    by (auto simp: session_ok_def)
  show "w_messages w m \<noteq> None"
    using assms(3) send_queue_okD(3) [OF queues_okD(1) [OF q]] recv_queue_okD(3) [OF queues_okD(2) [OF q]]
    by (fastforce simp: messages_of_def ran_def)
  then show "m < w_fresh w"
    using world_okD(6) [OF assms(1)] by (meson fresh_ok_def not_less)
qed

lemma entries_ok_upd:
  assumes "entries_ok sessions r b tree" "sessions s = Some sess"
    and "s_rule sess' = s_rule sess" "s_handle sess' = s_handle sess"
    and "(s_status sess' = 1) = (s_status sess = 1)"
  shows "entries_ok (sessions(s \<mapsto> sess')) r b tree"
  using assms by (fastforce simp: entries_ok_def)

lemma rule_links_cong: "w_contexts w' = w_contexts w \<Longrightarrow> rule_links w' r rule = rule_links w r rule"
  by (simp add: rule_links_def)

lemma world_ok_session_step:
  assumes w: "world_ok w" and s: "w_sessions w s = Some sess"
    and st: "session_step s sess sess' w w'" and ok: "session_ok w' s sess'"
  shows "world_ok w'"
proof -
  note W = world_okD [OF w] and S = st [unfolded session_step_def]
  have l: "linked w' = linked w" using S by (intro linked_cong) auto
  have other: "m \<notin> messages_of sess'" "w_messages w' m = w_messages w m"
    if "w_sessions w s2 = Some sess2" "s2 \<noteq> s" "m \<in> messages_of sess2" for s2 sess2 m
  proof -
    have "m \<notin> messages_of sess" using W(5) s that by (auto simp: messages_ok_def)
    moreover have "m < w_fresh w" by (rule owned_live(2) [OF w that(1,3)])
    ultimately show "m \<notin> messages_of sess'" "w_messages w' m = w_messages w m" using S by auto
  qed
  have "session_ok w' s2 sess2" if s2: "w_sessions w' s2 = Some sess2" for s2 sess2
  proof (cases "s2 = s")
    case True
    with s2 S ok show ?thesis by simp
  next
    case False
    with s2 S have o: "w_sessions w s2 = Some sess2" by simp
    from W(1) [OF o] show ?thesis
      unfolding session_ok_def l using queues_ok_cong other(2) [OF o False] by blast
  qed
  moreover have "rule_ok w' r rule" if "w_rules w' r = Some rule" for r rule
  proof -
    from that S have "w_rules w r = Some rule" by simp
    from W(2) [OF this] S s show ?thesis
      by (auto simp: rule_ok_def rule_links_cong [of w' w]
          intro!: entries_ok_upd [where sessions = "w_sessions w" and sess = sess])
  qed
  moreover have "context_ok w' c ctx" if "w_contexts w' c = Some ctx" for c ctx
    using W(3) [of c ctx] that S by (auto simp: context_ok_def)
  moreover have "runner_ok w' n run" if "w_runners w' n = Some run" for n run
    using W(4) [of n run] that S by (auto simp: runner_ok_def)
  moreover have "messages_ok w'"
    unfolding messages_ok_def
  proof (intro conjI allI impI)
    fix m
    assume m: "w_messages w' m \<noteq> None"
    show "\<exists>s sess. w_sessions w' s = Some sess \<and> m \<in> messages_of sess"
    proof (cases "m \<in> messages_of sess \<union> {m. w_fresh w \<le> m}")
      case True
      with m S have "m \<in> messages_of sess'" by blast
      with S show ?thesis by auto
    next
      case False
      with m S have "w_messages w m \<noteq> None" by auto
      with W(5) obtain s2 sess2 where "w_sessions w s2 = Some sess2" "m \<in> messages_of sess2"
        by (auto simp: messages_ok_def)
      with False s S show ?thesis by (cases "s2 = s") auto
    qed
  next
    fix s1 sess1 s2 sess2 m
    assume "w_sessions w' s1 = Some sess1" "w_sessions w' s2 = Some sess2"
      "m \<in> messages_of sess1" "m \<in> messages_of sess2"
    then show "s1 = s2"
      using S W(5) other(1) [of s1 sess1 m] other(1) [of s2 sess2 m]
      by (auto simp: messages_ok_def split: if_splits)
  qed
  moreover have "fresh_ok w'"
    unfolding fresh_ok_def
  proof (intro allI impI conjI)
    fix a
    assume a: "w_fresh w' \<le> a"
    with S have a': "w_fresh w \<le> a" by auto
    with W(6) have n: "w_sessions w a = None" "w_rules w a = None" "w_contexts w a = None"
      "w_runners w a = None" by (auto simp: fresh_ok_def)
    with s S show "w_sessions w' a = None" "w_rules w' a = None" "w_contexts w' a = None"
      "w_runners w' a = None" by auto
    show "w_messages w' a = None" using S a a' by (meson UnI2 linorder_not_less mem_Collect_eq)
  qed
  ultimately show ?thesis by (simp add: world_ok_def)
qed

section \<open>Changing the trees of a rule\<close>

abbreviation with_trees :: "t2u_rule \<Rightarrow> (u64, addr) rbtree \<Rightarrow> (u64, addr) rbtree \<Rightarrow> t2u_rule" where
  "with_trees rule t1 t2 \<equiv> rule\<lparr>r_sessions := t1, r_connecting_sessions := t2\<rparr>"

lemma rule_links_with_trees [simp]: "rule_links w r (with_trees rule t1 t2) = rule_links w r rule"
  by (simp add: rule_links_def)

lemma linked_with_trees:
  assumes "w_rules w r = Some rule" "w_rules w' = (w_rules w)(r \<mapsto> with_trees rule t1 t2)"
    and "w_contexts w' = w_contexts w" "w_runners w' = w_runners w"
    and "linked w sess r2 rule2 c ctx n"
  shows "linked w' sess r2 (if r2 = r then with_trees rule t1 t2 else rule2) c ctx n"
  using assms by (auto simp: linked_def)

lemma session_ok_with_trees:
  assumes ok: "session_ok w s2 sess2" and r: "w_rules w r = Some rule"
    and w': "w_rules w' = (w_rules w)(r \<mapsto> with_trees rule t1 t2)"
      "w_contexts w' = w_contexts w" "w_runners w' = w_runners w"
    and m: "\<And>m. m \<in> messages_of sess2 \<Longrightarrow> w_messages w' m = w_messages w m"
    and reg: "s_rule sess2 = Some r \<Longrightarrow>
      registry rule (s_status sess2) (s_handle sess2) = Some s2 \<Longrightarrow>
      registry (with_trees rule t1 t2) (s_status sess2) (s_handle sess2) = Some s2"
  shows "session_ok w' s2 sess2"
proof -
  from ok obtain r2 rule2 c ctx n where l: "linked w sess2 r2 rule2 c ctx n" and
    rest: "queues_ok (r2, c, n) (w_messages w) s2 sess2" "s_status sess2 \<in> {1, 2, 3}"
      "s_status sess2 = 1 \<longrightarrow> messages_of sess2 = {}" "session_events (r_mode rule2) r2 c n s2 sess2"
      "registry rule2 (s_status sess2) (s_handle sess2) = Some s2"
    by (auto simp: session_ok_def)
  from linked_with_trees [OF r w' l] have
    l': "linked w' sess2 r2 (if r2 = r then with_trees rule t1 t2 else rule2) c ctx n" .
  have q: "queues_ok (r2, c, n) (w_messages w') s2 sess2" using queues_ok_cong [OF rest(1) m] by simp
  have "r2 = r \<Longrightarrow> rule2 = rule" "s_rule sess2 = Some r2" using l r by (auto simp: linked_def)
  with reg rest have "registry (if r2 = r then with_trees rule t1 t2 else rule2)
      (s_status sess2) (s_handle sess2) = Some s2"
    and "session_events (r_mode (if r2 = r then with_trees rule t1 t2 else rule2)) r2 c n s2 sess2"
    by auto
  with l' q rest(2,3) show ?thesis unfolding session_ok_def by blast
qed

lemma context_ok_with_trees:
  assumes "context_ok w c ctx" "w_rules w r = Some rule"
    and "w_rules w' = (w_rules w)(r \<mapsto> with_trees rule t1 t2)"
    and "w_runners w' = w_runners w"
  shows "context_ok w' c ctx"
  using assms by (fastforce simp: context_ok_def)

lemma rule_ok_with_trees:
  assumes ok: "rule_ok w r2 rule2" and r: "w_rules w r = Some rule" "r2 \<noteq> r"
    and w': "w_contexts w' = w_contexts w"
    and s: "\<And>s sess. w_sessions w s = Some sess \<Longrightarrow> s_rule sess = Some r2 \<Longrightarrow> w_sessions w' s = Some sess"
  shows "rule_ok w' r2 rule2"
proof -
  have "entries_ok (w_sessions w') r2 b tree" if "entries_ok (w_sessions w) r2 b tree" for b tree
    using that s unfolding entries_ok_def by metis
  with ok show ?thesis by (simp add: rule_ok_def rule_links_cong [OF w'])
qed

lemma messages_ok_delete:
  assumes ok: "messages_ok w" and s: "w_sessions w s = Some sess"
    and w': "w_sessions w' = (w_sessions w)(s := None)"
      "w_messages w' = w_messages w |` (- messages_of sess)"
  shows "messages_ok w'"
  unfolding messages_ok_def
proof (intro conjI allI impI)
  fix m
  assume "w_messages w' m \<noteq> None"
  then have m: "w_messages w m \<noteq> None" "m \<notin> messages_of sess"
    by (auto simp: w'(2) restrict_map_def split: if_splits)
  from ok m(1) obtain s2 sess2 where o: "w_sessions w s2 = Some sess2" "m \<in> messages_of sess2"
    unfolding messages_ok_def by blast
  with m(2) s have "s2 \<noteq> s" by auto
  with o show "\<exists>s sess. w_sessions w' s = Some sess \<and> m \<in> messages_of sess" by (auto simp: w'(1))
qed (use ok in \<open>auto simp: messages_ok_def w'(1) split: if_splits\<close>)

text \<open>A session leaves: it is freed with its messages, and its handle is taken out of the registry.\<close>

lemma world_ok_session_delete:
  assumes w: "world_ok w" and s: "w_sessions w s = Some sess" and r: "s_rule sess = Some r" "w_rules w r = Some rule"
    and t: "rb_ok t1" "rb_ok t2"
      "rb_map t1 = (if s_status sess = 1 then rb_map (r_sessions rule)
         else (rb_map (r_sessions rule))(s_handle sess := None))"
      "rb_map t2 = (if s_status sess = 1 then (rb_map (r_connecting_sessions rule))(s_handle sess := None)
         else rb_map (r_connecting_sessions rule))"
    and w': "w_sessions w' = (w_sessions w)(s := None)"
      "w_messages w' = w_messages w |` (- messages_of sess)"
      "w_rules w' = (w_rules w)(r \<mapsto> with_trees rule t1 t2)"
      "w_contexts w' = w_contexts w" "w_runners w' = w_runners w" "w_fresh w' = w_fresh w"
  shows "world_ok w'"
proof -
  note W = world_okD [OF w]
  from W(1) [OF s] r have reg: "registry rule (s_status sess) (s_handle sess) = Some s"
    by (auto simp: session_ok_def linked_def)
  from W(2) [OF r(2)] have e: "entries_ok (w_sessions w) r False (rb_map (r_sessions rule))"
    "entries_ok (w_sessions w) r True (rb_map (r_connecting_sessions rule))" and rl: "rule_links w r rule"
    by (auto simp: rule_ok_def)
  have "session_ok w' s2 sess2" if s2: "w_sessions w' s2 = Some sess2" for s2 sess2
  proof -
    from s2 w'(1) have o: "w_sessions w s2 = Some sess2" "s2 \<noteq> s" by (auto split: if_splits)
    have m: "w_messages w' m = w_messages w m" if "m \<in> messages_of sess2" for m
      using that W(5) s o by (auto simp: messages_ok_def w'(2) restrict_map_def)
    show ?thesis
      by (rule session_ok_with_trees [OF W(1) [OF o(1)] r(2) w'(3,4,5) m])
        (use reg o(2) in \<open>auto simp: registry_def t split: if_splits\<close>)
  qed
  moreover have "rule_ok w' r2 rule2" if "w_rules w' r2 = Some rule2" for r2 rule2
  proof (cases "r2 = r")
    case True
    have "entries_ok (w_sessions w') r False (rb_map t1)" "entries_ok (w_sessions w') r True (rb_map t2)"
      using e reg s by (fastforce simp: entries_ok_def t(3,4) w'(1) registry_def split: if_splits)+
    with that True t(1,2) rl show ?thesis
      by (auto simp: w'(3) rule_ok_def rule_links_cong [OF w'(4)])
  next
    case False
    with that w'(3) have "w_rules w r2 = Some rule2" by simp
    then show ?thesis
      by (rule rule_ok_with_trees [OF W(2) r(2) False w'(4)]) (use s r(1) False in \<open>auto simp: w'(1)\<close>)
  qed
  moreover have "context_ok w' c ctx" if "w_contexts w' c = Some ctx" for c ctx
    using context_ok_with_trees [OF W(3) r(2) w'(3,5)] that by (simp add: w'(4))
  moreover have "runner_ok w' n run" if "w_runners w' n = Some run" for n run
    using W(4) [of n run] that by (simp add: runner_ok_def w'(4,5))
  moreover have "messages_ok w'"
    by (rule messages_ok_delete [OF W(5) s w'(1,2)])
  moreover have "fresh_ok w'"
    using W(6) r(2) by (auto simp: fresh_ok_def w' restrict_map_def)
  ultimately show ?thesis by (simp add: world_ok_def)
qed

text \<open>
  A session without messages is put at address \<open>s\<close>, new or in place of one of the same rule,
  and the rule's trees change with it.
\<close>

lemma world_ok_session_put:
  assumes w: "world_ok w" and r: "w_rules w r = Some rule"
    and old: "\<And>sess. w_sessions w s = Some sess \<Longrightarrow> s_rule sess = Some r \<and> messages_of sess = {}"
    and new: "messages_of sess' = {}" "session_ok w' s sess'" "s < w_fresh w'" "w_fresh w \<le> w_fresh w'"
    and t: "rb_ok t1" "rb_ok t2"
      "entries_ok (w_sessions w') r False (rb_map t1)" "entries_ok (w_sessions w') r True (rb_map t2)"
    and others: "\<And>s2 (sess2 :: t2u_session). s2 \<noteq> s \<Longrightarrow> registry rule (s_status sess2) (s_handle sess2) = Some s2 \<Longrightarrow>
      registry (with_trees rule t1 t2) (s_status sess2) (s_handle sess2) = Some s2"
    and w': "w_sessions w' = (w_sessions w)(s \<mapsto> sess')" "w_messages w' = w_messages w"
      "w_rules w' = (w_rules w)(r \<mapsto> with_trees rule t1 t2)"
      "w_contexts w' = w_contexts w" "w_runners w' = w_runners w"
  shows "world_ok w'"
proof -
  note W = world_okD [OF w]
  have "session_ok w' s2 sess2" if s2: "w_sessions w' s2 = Some sess2" for s2 sess2
  proof (cases "s2 = s")
    case True
    with s2 new(2) w'(1) show ?thesis by simp
  next
    case False
    with s2 w'(1) have "w_sessions w s2 = Some sess2" by simp
    then show ?thesis
      by (rule session_ok_with_trees [OF W(1) r w'(3,4,5)]) (simp_all add: w'(2) others [OF False])
  qed
  moreover have "rule_ok w' r2 rule2" if "w_rules w' r2 = Some rule2" for r2 rule2
  proof (cases "r2 = r")
    case True
    with that t W(2) [OF r] show ?thesis
      by (auto simp: w'(3) rule_ok_def rule_links_cong [OF w'(4)])
  next
    case False
    with that w'(3) have "w_rules w r2 = Some rule2" by simp
    then show ?thesis
      by (rule rule_ok_with_trees [OF W(2) r False w'(4)]) (use old False in \<open>auto simp: w'(1)\<close>)
  qed
  moreover have "context_ok w' c ctx" if "w_contexts w' c = Some ctx" for c ctx
    using context_ok_with_trees [OF W(3) r w'(3,5)] that by (simp add: w'(4))
  moreover have "runner_ok w' n run" if "w_runners w' n = Some run" for n run
    using W(4) [of n run] that by (simp add: runner_ok_def w'(4,5))
  moreover have "messages_ok w'"
    unfolding messages_ok_def
  proof (intro conjI allI impI)
    fix m
    assume "w_messages w' m \<noteq> None"
    then obtain s2 sess2 where o: "w_sessions w s2 = Some sess2" "m \<in> messages_of sess2"
      using W(5) unfolding messages_ok_def w'(2) by blast
    with old have "s2 \<noteq> s" by auto
    with o show "\<exists>s sess. w_sessions w' s = Some sess \<and> m \<in> messages_of sess" by (auto simp: w'(1))
  qed (use W(5) new(1) in \<open>auto simp: messages_ok_def w'(1) split: if_splits\<close>)
  moreover have "fresh_ok w'"
    using W(6) r new(3,4) by (auto simp: fresh_ok_def w')
  ultimately show ?thesis by (simp add: world_ok_def)
qed

text \<open>A new session is registered as connecting.\<close>

lemma world_ok_session_add:
  assumes w: "world_ok w" and r: "w_rules w r = Some rule"
    and s: "s = w_fresh w" "w_fresh w' = Suc (w_fresh w)"
    and sess: "s_rule sess = Some r" "s_status sess = 1" "messages_of sess = {}" "session_ok w' s sess"
    and h: "rb_map (r_connecting_sessions rule) (s_handle sess) = None"
    and t: "rb_ok t" "rb_map t = (rb_map (r_connecting_sessions rule))(s_handle sess \<mapsto> s)"
    and w': "w_sessions w' = (w_sessions w)(s \<mapsto> sess)" "w_messages w' = w_messages w"
      "w_rules w' = (w_rules w)(r \<mapsto> rule\<lparr>r_connecting_sessions := t\<rparr>)"
      "w_contexts w' = w_contexts w" "w_runners w' = w_runners w"
  shows "world_ok w'"
proof -
  note W = world_okD [OF w]
  have n: "w_sessions w s = None" using W(6) s by (auto simp: fresh_ok_def)
  from W(2) [OF r] have e: "rb_ok (r_sessions rule)" "entries_ok (w_sessions w) r False (rb_map (r_sessions rule))"
    "entries_ok (w_sessions w) r True (rb_map (r_connecting_sessions rule))" by (auto simp: rule_ok_def)
  show ?thesis
  proof (rule world_ok_session_put [OF w r, where s = s and sess' = sess and ?t1.0 = "r_sessions rule" and ?t2.0 = t])
    show "entries_ok (w_sessions w') r False (rb_map (r_sessions rule))"
      using e(2) n by (fastforce simp: entries_ok_def w'(1))
    show "entries_ok (w_sessions w') r True (rb_map t)"
      using e(3) n sess by (fastforce simp: entries_ok_def w'(1) t(2))
    fix s2 and sess2 :: t2u_session
    assume "registry rule (s_status sess2) (s_handle sess2) = Some s2"
    then show "registry (with_trees rule (r_sessions rule) t) (s_status sess2) (s_handle sess2) = Some s2"
      using h by (auto simp: registry_def t(2) split: if_splits)
  qed (use sess n s e(1) t(1) w' in simp_all)
qed

text \<open>A connecting session becomes established, possibly under a new handle.\<close>

lemma world_ok_session_move:
  assumes w: "world_ok w" and s: "w_sessions w s = Some sess" "s_status sess = 1"
    and r: "s_rule sess = Some r" "w_rules w r = Some rule"
    and sess': "s_rule sess' = Some r" "s_status sess' \<noteq> 1" "messages_of sess' = {}" "session_ok w' s sess'"
    and h: "rb_map (r_sessions rule) (s_handle sess') = None"
    and t: "rb_ok t1" "rb_map t1 = (rb_map (r_sessions rule))(s_handle sess' \<mapsto> s)"
      "rb_ok t2" "rb_map t2 = (rb_map (r_connecting_sessions rule))(s_handle sess := None)"
    and w': "w_sessions w' = (w_sessions w)(s \<mapsto> sess')" "w_messages w' = w_messages w"
      "w_rules w' = (w_rules w)(r \<mapsto> with_trees rule t1 t2)"
      "w_contexts w' = w_contexts w" "w_runners w' = w_runners w" "w_fresh w' = w_fresh w"
  shows "world_ok w'"
proof -
  note W = world_okD [OF w]
  have n: "s < w_fresh w" using W(6) s(1) by (metis fresh_ok_def linorder_not_less option.distinct(1))
  from W(1) [OF s(1)] s(2) r have reg: "rb_map (r_connecting_sessions rule) (s_handle sess) = Some s"
    and m: "messages_of sess = {}"
    by (auto simp: session_ok_def linked_def registry_def)
  from W(2) [OF r(2)] have e: "entries_ok (w_sessions w) r False (rb_map (r_sessions rule))"
    "entries_ok (w_sessions w) r True (rb_map (r_connecting_sessions rule))" by (auto simp: rule_ok_def)
  show ?thesis
  proof (rule world_ok_session_put [OF w r(2), where s = s and sess' = sess' and ?t1.0 = t1 and ?t2.0 = t2])
    show "entries_ok (w_sessions w') r False (rb_map t1)"
      using e(1) s sess' by (fastforce simp: entries_ok_def w'(1) t(2))
    show "entries_ok (w_sessions w') r True (rb_map t2)"
      using e(2) s by (fastforce simp: entries_ok_def w'(1) t(4))
    fix s2 and sess2 :: t2u_session
    assume "s2 \<noteq> s" "registry rule (s_status sess2) (s_handle sess2) = Some s2"
    then show "registry (with_trees rule t1 t2) (s_status sess2) (s_handle sess2) = Some s2"
      using h reg by (auto simp: registry_def t(2,4) split: if_splits)
  qed (use sess' n s r m t(1,3) w' in simp_all)
qed

end
