(* ===== verification/T2u_Queue.thy ===== *)
theory T2u_Queue
  imports T2u_World
begin

text \<open>
  The send queue of a session (src/t2u_message.c): adding a message for a chunk of TCP data and
  deleting one.
\<close>

section \<open>Operations\<close>

text \<open>
  \<open>t2u_add_request_message\<close>. The message is numbered with the incremented send sequence
  number, armed with the retransmission timer, queued and sent. The results of the tree
  insertion and of the timer are those of the C code: the first is ignored, the second
  asserted to be a success.
\<close>

definition request_timer :: "addr \<Rightarrow> addr \<Rightarrow> ptr \<Rightarrow> ptr \<Rightarrow> ptr \<Rightarrow> t2u_event" where
  "request_timer message session rule context runner = t2u_event_new
     \<lparr>te_message := Some message, te_session := Some session, te_rule := rule,
      te_context := context, te_runner := runner,
      te_event := Some (evtimer Cb_request_timeout)\<rparr>"

definition t2u_add_request_message ::
  "os \<Rightarrow> addr \<Rightarrow> byte list \<Rightarrow> nat \<Rightarrow> world \<Rightarrow> (addr \<times> world) option" where
  "t2u_add_request_message os session payload payload_len w = do {
     let (message, w) = malloc w;
     sess \<leftarrow> w_sessions w session;
     rule \<leftarrow> the_rule w (s_rule sess);
     context \<leftarrow> the_context w (r_context rule);
     _ \<leftarrow> assert_that (payload_len \<le> length payload);
     let seq = s_send_seq sess + 1;
     let len = of_nat (sizeof_md + payload_len);
     let data = new_mdata (os_arch os) data_request (s_handle sess) seq (take payload_len payload);
     _ \<leftarrow> the_runner w (c_runner context);
     let nev = request_timer message session (s_rule sess) (r_context rule) (c_runner context);
     let w = put_message message
           \<lparr>m_session = Some session, m_data = Some data, m_len = len, m_seq = seq,
            m_send_retries = 0, m_ev_timeout = Some nev\<rparr> w;
     let w = event_add (evtimer Cb_request_timeout) (Some (timeval_ms (c_utimeout context))) w;
     (_, tree) \<leftarrow> rbtree_insert True (s_send_mess sess) seq message;
     let w = put_session session
           (sess\<lparr>s_send_seq := seq, s_send_mess := tree,
                 s_send_buffer_count := s_send_buffer_count sess + 1\<rparr>) w;
     w \<leftarrow> t2u_send_message_data os (r_context rule) (md_bytes data) (unat len) (Some session) w;
     Some (message, w) }"

text \<open>
  The end of \<open>t2u_delete_request_message\<close> for a session whose read event was disabled: TCP data
  is read again.
\<close>

definition readd_read_event :: "addr \<Rightarrow> world \<Rightarrow> world option" where
  "readd_read_event session w = do {
     sess \<leftarrow> w_sessions w session;
     case s_ev sess of
       None \<Rightarrow> Some w
     | Some ev \<Rightarrow>
         if te_event ev = NULL then do {
           (_, context) \<leftarrow> session_context w session;
           _ \<leftarrow> the_runner w (c_runner context);
           let timer = ev_read Cb_process_tcp (s_sock sess);
           Some (event_add timer None
             (put_session session (sess\<lparr>s_ev := Some (ev\<lparr>te_event := Some timer\<rparr>)\<rparr>) w)) }
         else Some w }"

definition t2u_delete_request_message :: "addr \<Rightarrow> world \<Rightarrow> world option" where
  "t2u_delete_request_message message w = do {
     msg \<leftarrow> w_messages w message;
     session \<leftarrow> m_session msg;
     let w = t2u_delete_event (m_ev_timeout msg) w;
     let w = put_message message (msg\<lparr>m_ev_timeout := None, m_data := None\<rparr>) w;
     sess \<leftarrow> w_sessions w session;
     (r, tree) \<leftarrow> rbtree_remove (s_send_mess sess) (m_seq msg);
     let w = put_session session (sess\<lparr>s_send_mess := tree\<rparr>) w;
     if r = 0 then do {
       let w = put_session session
             (sess\<lparr>s_send_mess := tree, s_send_buffer_count := s_send_buffer_count sess - 1\<rparr>) w;
       w \<leftarrow> readd_read_event session w;
       Some (free_message message w) }
     else Some (free_message message w) }"

section \<open>What the operations do\<close>

text \<open>Sending on a linked session stamps it and emits the datagram.\<close>

lemma send_message_data_exec:
  assumes "w_sessions w s = Some sess" "w_contexts w c = Some ctx" "len \<le> length data"
  shows "t2u_send_message_data os (Some c) data len (Some s) w =
    Some (w\<lparr>w_sessions := (w_sessions w)(s \<mapsto> sess\<lparr>s_last_send_ts := os_time os (w_calls w)\<rparr>),
            w_calls := Suc (w_calls w), w_out := w_out w @ [UdpSend (c_sock ctx) (take len data)]\<rparr>)"
  using assms by (simp add: t2u_send_message_data_def world_defs deref_defs)

lemma add_request_message_exec:
  fixes os w s sess payload len
  defines "seq \<equiv> s_send_seq sess + 1"
    and "data \<equiv> new_mdata (os_arch os) data_request (s_handle sess) (s_send_seq sess + 1) (take len payload)"
  assumes s: "w_sessions w s = Some sess" and l: "linked w sess r rule c ctx n"
    and ok: "rb_ok (s_send_mess sess)" and new: "send_map sess (s_send_seq sess + 1) = None"
    and len: "len \<le> length payload" "len \<le> T2U_PAYLOAD_MAX"
  shows "\<exists>t. rb_ok t \<and> rb_map t = (send_map sess)(seq \<mapsto> w_fresh w) \<and>
    t2u_add_request_message os s payload len w = Some (w_fresh w,
      w\<lparr>w_messages := (w_messages w)(w_fresh w \<mapsto>
           \<lparr>m_session = Some s, m_data = Some data, m_len = of_nat (sizeof_md + len), m_seq = seq,
            m_send_retries = 0,
            m_ev_timeout = Some (request_timer (w_fresh w) s (Some r) (Some c) (Some n))\<rparr>),
        w_sessions := (w_sessions w)(s \<mapsto> sess\<lparr>s_send_seq := seq, s_send_mess := t,
            s_send_buffer_count := s_send_buffer_count sess + 1,
            s_last_send_ts := os_time os (w_calls w)\<rparr>),
        w_fresh := Suc (w_fresh w), w_calls := Suc (w_calls w),
        w_out := w_out w @
          [EventAdd (evtimer Cb_request_timeout) (Some (timeval_ms (c_utimeout ctx))),
           UdpSend (c_sock ctx) (md_bytes data)]\<rparr>)"
    (is "\<exists>t. _ \<and> _ \<and> _ = Some (_, ?W t)")
proof -
  note L = linkedD [OF l]
  from rb.ins_new [OF ok new, of "w_fresh w"] obtain t where
    t: "rbtree_insert True (s_send_mess sess) seq (w_fresh w) = Some (0, t)" "rb_ok t"
    "rb_map t = (send_map sess)(seq \<mapsto> w_fresh w)" by (auto simp: seq_def)
  have u: "unat (of_nat (sizeof_md + len) :: u64) = sizeof_md + len"
    by (rule unat_of_nat_small) (use len(2) in \<open>simp add: sizeof_md_def T2U_PAYLOAD_MAX_def\<close>)
  have d: "length (md_bytes data) = sizeof_md + len" using len by (simp add: data_def)
  have "t2u_add_request_message os s payload len w = Some (w_fresh w, ?W t)"
    using s L t(1) len(1) d u
    by (auto simp: t2u_add_request_message_def world_defs deref_defs t2u_send_message_data_def Let_def
        seq_def data_def)
  with t show ?thesis by blast
qed

text \<open>
  Deleting a queued message takes it out of the queue and the counter down by one, frees its
  timer and, if reading from the socket was disabled, enables it again.
\<close>

definition read_disabled :: "t2u_session \<Rightarrow> bool" where
  "read_disabled sess \<longleftrightarrow> (case s_ev sess of Some ev \<Rightarrow> te_event ev = NULL | None \<Rightarrow> False)"

definition enable_read :: "t2u_session \<Rightarrow> t2u_session" where
  "enable_read sess =
     (if read_disabled sess
      then sess\<lparr>s_ev := map_option
             (\<lambda>ev. ev\<lparr>te_event := Some (ev_read Cb_process_tcp (s_sock sess))\<rparr>) (s_ev sess)\<rparr>
      else sess)"

lemma readd_read_event_exec:
  assumes s: "w_sessions w s = Some sess"
    and l: "read_disabled sess \<Longrightarrow> linked w sess r rule c ctx n"
  shows "readd_read_event s w = Some
    (w\<lparr>w_sessions := (w_sessions w)(s \<mapsto> enable_read sess),
       w_out := w_out w @ (if read_disabled sess
         then [EventAdd (ev_read Cb_process_tcp (s_sock sess)) None] else [])\<rparr>)"
proof (cases "read_disabled sess")
  case True
  with linkedD [OF l [OF True]] s show ?thesis
    by (auto simp: readd_read_event_def read_disabled_def enable_read_def session_context_def
        deref_defs world_defs Let_def split: option.splits)
next
  case False
  have "w\<lparr>w_sessions := (w_sessions w)(s \<mapsto> sess)\<rparr> = w" using s by (simp add: fun_upd_idem)
  with False s show ?thesis
    by (auto simp: readd_read_event_def read_disabled_def enable_read_def split: option.splits)
qed

lemma delete_request_message_exec:
  assumes m: "w_messages w m = Some msg" and own: "m_session msg = Some s"
    and ev: "m_ev_timeout msg = Some ev" "te_event ev = Some timer" "te_extra_event ev = None"
    and s: "w_sessions w s = Some sess" and ok: "rb_ok (s_send_mess sess)"
    and hit: "send_map sess (m_seq msg) \<noteq> None"
    and l: "read_disabled sess \<Longrightarrow> linked w sess r rule c ctx n"
  shows "\<exists>t. rb_ok t \<and> rb_map t = (send_map sess)(m_seq msg := None) \<and>
    t2u_delete_request_message m w = Some
      (w\<lparr>w_messages := (w_messages w)(m := None),
         w_sessions := (w_sessions w)(s \<mapsto> enable_read (sess\<lparr>s_send_mess := t,
             s_send_buffer_count := s_send_buffer_count sess - 1\<rparr>)),
         w_out := w_out w @ EventFree timer # (if read_disabled sess
           then [EventAdd (ev_read Cb_process_tcp (s_sock sess)) None] else [])\<rparr>)"
proof -
  from rb.del_hit [OF ok hit] obtain t where
    t: "rbtree_remove (s_send_mess sess) (m_seq msg) = Some (0, t)" "rb_ok t"
    "rb_map t = (send_map sess)(m_seq msg := None)" by auto
  let ?sess = "sess\<lparr>s_send_mess := t, s_send_buffer_count := s_send_buffer_count sess - 1\<rparr>"
  let ?w = "w\<lparr>w_out := w_out w @ [EventFree timer],
    w_messages := (w_messages w)(m \<mapsto> msg\<lparr>m_ev_timeout := None, m_data := None\<rparr>),
    w_sessions := (w_sessions w)(s \<mapsto> ?sess)\<rparr>"
  have d: "read_disabled ?sess = read_disabled sess" by (simp add: read_disabled_def)
  have "readd_read_event s ?w = Some
    (?w\<lparr>w_sessions := (w_sessions ?w)(s \<mapsto> enable_read ?sess),
       w_out := w_out ?w @ (if read_disabled ?sess
         then [EventAdd (ev_read Cb_process_tcp (s_sock ?sess)) None] else [])\<rparr>)"
    by (rule readd_read_event_exec [where r = r and rule = rule and c = c and ctx = ctx and n = n])
      (use l in \<open>simp_all add: d linked_def\<close>)
  then have "t2u_delete_request_message m w = Some
      (w\<lparr>w_messages := (w_messages w)(m := None),
         w_sessions := (w_sessions w)(s \<mapsto> enable_read ?sess),
         w_out := w_out w @ EventFree timer # (if read_disabled sess
           then [EventAdd (ev_read Cb_process_tcp (s_sock sess)) None] else [])\<rparr>)"
    using m own ev s t(1)
    by (simp add: t2u_delete_request_message_def t2u_delete_event_def world_defs Let_def d)
  with t show ?thesis by blast
qed

section \<open>The queue invariant\<close>

lemma enable_read_sel [simp]:
  "s_send_mess (enable_read sess) = s_send_mess sess" "s_recv_mess (enable_read sess) = s_recv_mess sess"
  "s_send_buffer_count (enable_read sess) = s_send_buffer_count sess"
  "s_recv_buffer_count (enable_read sess) = s_recv_buffer_count sess"
  "s_rule (enable_read sess) = s_rule sess" "s_handle (enable_read sess) = s_handle sess"
  "s_status (enable_read sess) = s_status sess" "s_sock (enable_read sess) = s_sock sess"
  "s_send_seq (enable_read sess) = s_send_seq sess" "s_recv_seq (enable_read sess) = s_recv_seq sess"
  by (simp_all add: enable_read_def)

lemma queue_ok_enable_read [simp]:
  "send_queue_ok c msgs s (enable_read sess) = send_queue_ok c msgs s sess"
  "recv_queue_ok msgs (enable_read sess) = recv_queue_ok msgs sess"
  by (simp_all add: send_queue_ok_def recv_queue_ok_def)

lemma card_dom_upd: "finite (dom f) \<Longrightarrow> f k = None \<Longrightarrow> card (dom (f(k \<mapsto> v))) = card (dom f) + 1"
  by (simp add: domIff)

lemma card_dom_del: "f k \<noteq> None \<Longrightarrow> card (dom (f(k := None))) = card (dom f) - 1"
  by (simp add: domIff card_Diff_singleton)

lemma send_queue_ok_add:
  assumes q: "send_queue_ok c msgs s sess" and new: "send_map sess k = None"
    and m: "msgs m = None" "send_msg_ok c s k m msg"
    and t: "rb_ok t" "rb_map t = (send_map sess)(k \<mapsto> m)"
    and b: "unat (s_send_buffer_count sess) + 1 < 2 ^ 32"
    and s': "s_send_mess sess' = t" "s_send_buffer_count sess' = s_send_buffer_count sess + 1"
  shows "send_queue_ok c (msgs(m \<mapsto> msg)) s sess'"
proof -
  note Q = send_queue_okD [OF q]
  have "unat (s_send_buffer_count sess + 1) = card (dom (rb_map t))"
    using b Q(2) card_dom_upd [OF rb.finite_content [OF Q(1)] new] unat_add_1 [of "s_send_buffer_count sess"]
    by (simp add: t(2))
  moreover have "m' \<noteq> m" if "send_map sess k' = Some m'" for k' m'
    using that Q(3) m(1) by fastforce
  ultimately show ?thesis using Q m t s' unfolding send_queue_ok_def by auto
qed

lemma send_queue_ok_delete:
  assumes q: "send_queue_ok c msgs s sess" and hit: "send_map sess k = Some m"
    and t: "rb_ok t" "rb_map t = (send_map sess)(k := None)"
    and s': "s_send_mess sess' = t" "s_send_buffer_count sess' = s_send_buffer_count sess - 1"
  shows "send_queue_ok c (msgs(m := None)) s sess'"
proof -
  note Q = send_queue_okD [OF q]
  have "0 < card (dom (send_map sess))"
    using hit rb.finite_content [OF Q(1)] by (auto simp: card_gt_0_iff)
  then have "unat (s_send_buffer_count sess - 1) = card (dom (rb_map t))"
    using hit Q(2) card_dom_del [of "send_map sess" k] unat_sub_1 [of "s_send_buffer_count sess"]
    by (simp add: t(2))
  moreover have "m' \<noteq> m" if "send_map sess k' = Some m'" "k' \<noteq> k" for k' m'
    using that hit send_queue_inj [OF q] by metis
  ultimately show ?thesis using Q t s' unfolding send_queue_ok_def by auto
qed

end
