(* ===== verification/T2u_Close.thy ===== *)
theory T2u_Close
  imports T2u_Queue
begin

text \<open>
  Ending a session (src/t2u_session.c): the deletion of a connecting or a connected session,
  the deferred deletion, and the handlers of src/t2u_message.c for a single message, which
  may end its session.
\<close>

section \<open>Deleting sessions\<close>

definition t2u_delete_connecting_session :: "addr \<Rightarrow> world \<Rightarrow> world option" where
  "t2u_delete_connecting_session session w = do {
     sess \<leftarrow> w_sessions w session;
     let w = t2u_delete_event (s_ev sess) w;
     let w = put_session session (sess\<lparr>s_ev := None\<rparr>) w;
     let w = (if s_sock sess \<noteq> 0 then emit (CloseSocket (s_sock sess)) w else w);
     r \<leftarrow> s_rule sess;
     rule \<leftarrow> w_rules w r;
     (_, tree) \<leftarrow> rbtree_remove (r_connecting_sessions rule) (s_handle sess);
     let w = put_rule r (rule\<lparr>r_connecting_sessions := tree\<rparr>) w;
     Some (free_session session w) }"

text \<open>The two loops of \<open>t2u_delete_connected_session\<close>, which empty the queues.\<close>

partial_function (option) clear_recv_queue :: "addr \<Rightarrow> world \<Rightarrow> world option" where
  "clear_recv_queue session w = do {
     sess \<leftarrow> w_sessions w session;
     root \<leftarrow> rbtree_root_entry (s_recv_mess sess);
     case root of
       None \<Rightarrow> Some w
     | Some (key, m) \<Rightarrow> do {
         (_, tree) \<leftarrow> rbtree_remove (s_recv_mess sess) key;
         let w = put_session session (sess\<lparr>s_recv_mess := tree\<rparr>) w;
         _ \<leftarrow> w_messages w m;
         clear_recv_queue session (free_message m w) } }"

partial_function (option) clear_send_queue :: "addr \<Rightarrow> world \<Rightarrow> world option" where
  "clear_send_queue session w = do {
     sess \<leftarrow> w_sessions w session;
     root \<leftarrow> rbtree_root_entry (s_send_mess sess);
     case root of
       None \<Rightarrow> Some w
     | Some (_, m) \<Rightarrow> do {
         w \<leftarrow> t2u_delete_request_message m w;
         clear_send_queue session w } }"

declare clear_recv_queue.simps [code] clear_send_queue.simps [code]

text \<open>
  The three parts of \<open>t2u_delete_connected_session\<close>: the events, the \<open>close_request\<close> unless the
  peer asked for the end, and the socket; the two loops; the rule's tree and the structure.
\<close>

definition close_session_io :: "os \<Rightarrow> addr \<Rightarrow> int \<Rightarrow> world \<Rightarrow> world option" where
  "close_session_io os session sync_from_pair w = do {
     sess \<leftarrow> w_sessions w session;
     let w = t2u_delete_event (s_ev sess) w;
     let w = put_session session (sess\<lparr>s_ev := None\<rparr>) w;
     w \<leftarrow> (if sync_from_pair = 0 then do {
             let md = new_mdata (os_arch os) close_request (s_handle sess) 0 [];
             rule \<leftarrow> the_rule w (s_rule sess);
             t2u_send_message_data os (r_context rule) (md_bytes md) sizeof_md (Some session) w }
           else Some w);
     Some (if s_sock sess \<noteq> 0 then emit (CloseSocket (s_sock sess)) w else w) }"

definition unregister_session :: "addr \<Rightarrow> world \<Rightarrow> world option" where
  "unregister_session session w = do {
     sess \<leftarrow> w_sessions w session;
     r \<leftarrow> s_rule sess;
     rule \<leftarrow> w_rules w r;
     (_, tree) \<leftarrow> rbtree_remove (r_sessions rule) (s_handle sess);
     Some (free_session session (put_rule r (rule\<lparr>r_sessions := tree\<rparr>) w)) }"

definition t2u_delete_connected_session ::
  "os \<Rightarrow> addr \<Rightarrow> int \<Rightarrow> world \<Rightarrow> world option" where
  "t2u_delete_connected_session os session sync_from_pair w = do {
     w \<leftarrow> close_session_io os session sync_from_pair w;
     w \<leftarrow> clear_recv_queue session w;
     w \<leftarrow> clear_send_queue session w;
     unregister_session session w }"

definition t2u_try_delete_connected_session :: "os \<Rightarrow> addr \<Rightarrow> world \<Rightarrow> world option" where
  "t2u_try_delete_connected_session os session w = do {
     sess \<leftarrow> w_sessions w session;
     if s_status sess = 3 \<and> rb_root (s_send_mess sess) = NULL \<and> rb_root (s_recv_mess sess) = NULL
     then t2u_delete_connected_session os session 0 w
     else Some w }"

definition t2u_delete_connected_session_later :: "os \<Rightarrow> addr \<Rightarrow> world \<Rightarrow> world option" where
  "t2u_delete_connected_session_later os session w = do {
     sess \<leftarrow> w_sessions w session;
     t2u_try_delete_connected_session os session (put_session session (sess\<lparr>s_status := 3\<rparr>) w) }"

section \<open>Handlers of one message\<close>

text \<open>The callback of a message's timer; its argument is the event of the message \<open>owner\<close>.\<close>

definition process_request_timeout_cb :: "os \<Rightarrow> addr \<Rightarrow> world \<Rightarrow> world option" where
  "process_request_timeout_cb os owner w = do {
     own \<leftarrow> w_messages w owner;
     ev \<leftarrow> m_ev_timeout own;
     message \<leftarrow> te_message ev;
     context \<leftarrow> the_context w (te_context ev);
     msg \<leftarrow> w_messages w message;
     let w = put_message message (msg\<lparr>m_send_retries := m_send_retries msg + 1\<rparr>) w;
     if m_send_retries msg > c_udp_slide_window context then do {
       session \<leftarrow> te_session ev;
       t2u_delete_connected_session_later os session w }
     else do {
       ev_timeout \<leftarrow> m_ev_timeout msg;
       timer \<leftarrow> te_event ev_timeout;
       let w = event_add timer (Some (timeval_ms (c_utimeout context))) w;
       data \<leftarrow> m_data msg;
       t2u_send_message_data os (te_context ev) (md_bytes data) (unat (m_len msg)) (te_session ev) w } }"

text \<open>
  The \<open>memcpy\<close> of \<open>t2u_message_handle_data_response\<close>. Its length argument is the \<open>sizeof\<close> of an
  \<open>int\<close> expression, which is 4. Source and destination must lie in the allocated data and not
  overlap.
\<close>

definition shift_payload :: "nat \<Rightarrow> byte list \<Rightarrow> byte list option" where
  "shift_payload value payload =
     (if 4 \<le> value \<and> value + 4 \<le> length payload
      then Some (take 4 (drop value payload) @ drop 4 payload) else None)"

definition t2u_message_handle_data_response ::
  "os \<Rightarrow> addr \<Rightarrow> t2u_message_data \<Rightarrow> world \<Rightarrow> world option" where
  "t2u_message_handle_data_response os message mdata w = do {
     msg \<leftarrow> w_messages w message;
     _ \<leftarrow> assert_that (4 \<le> length (md_payload mdata));
     let value = sint (get_u32 (md_payload mdata));
     let valid_length = sint (ucast (m_len msg - of_nat sizeof_md) :: u32);
     if value = valid_length then do {
       w \<leftarrow> t2u_delete_request_message message w;
       session \<leftarrow> m_session msg;
       t2u_try_delete_connected_session os session w }
     else if value \<ge> 0 then do {
       w \<leftarrow> (if value > 0 then do {
               data \<leftarrow> m_data msg;
               payload \<leftarrow> shift_payload (nat value) (md_payload data);
               Some (put_message message
                 (msg\<lparr>m_len := m_len msg - of_int value,
                      m_data := Some (data\<lparr>md_payload := payload\<rparr>)\<rparr>) w) }
             else Some w);
       session \<leftarrow> m_session msg;
       t2u_try_delete_connected_session os session w }
     else do {
       session \<leftarrow> m_session msg;
       t2u_delete_connected_session os session 0 w } }"

definition t2u_message_handle_retrans_request ::
  "os \<Rightarrow> addr \<Rightarrow> t2u_message_data \<Rightarrow> world \<Rightarrow> world option" where
  "t2u_message_handle_retrans_request os message mdata w = do {
     msg \<leftarrow> w_messages w message;
     sess \<leftarrow> the_session w (m_session msg);
     rule \<leftarrow> the_rule w (s_rule sess);
     data \<leftarrow> m_data msg;
     t2u_send_message_data os (r_context rule) (md_bytes data) (unat (m_len msg)) (m_session msg) w }"

section \<open>Emptying the queues\<close>

definition recv_content :: "addr \<Rightarrow> world \<Rightarrow> u32 \<Rightarrow> addr option" where
  "recv_content s w = (case w_sessions w s of Some sess \<Rightarrow> recv_map sess | None \<Rightarrow> Map.empty)"

definition send_content :: "addr \<Rightarrow> world \<Rightarrow> u32 \<Rightarrow> addr option" where
  "send_content s w = (case w_sessions w s of Some sess \<Rightarrow> send_map sess | None \<Rightarrow> Map.empty)"

text \<open>The state \<open>w\<close> of the first loop started in \<open>w0\<close>: the drained messages are freed, nothing else changes.\<close>

definition recv_loop_inv :: "addr \<Rightarrow> world \<Rightarrow> world \<Rightarrow> bool" where
  "recv_loop_inv s w0 w \<longleftrightarrow> (\<exists>sess t. w_sessions w0 s = Some sess \<and> rb_ok t \<and>
     rb_map t \<subseteq>\<^sub>m recv_map sess \<and>
     (\<forall>k k' m. recv_map sess k = Some m \<longrightarrow> recv_map sess k' = Some m \<longrightarrow> k = k') \<and>
     (\<forall>k m. recv_map sess k = Some m \<longrightarrow> w_messages w0 m \<noteq> None) \<and>
     w = w0\<lparr>w_sessions := (w_sessions w0)(s \<mapsto> sess\<lparr>s_recv_mess := t\<rparr>),
            w_messages := w_messages w0 |` (- drained (recv_map sess) (rb_map t))\<rparr>)"

interpretation recv_loop: drain_loop "clear_recv_queue s" "recv_content s" "recv_loop_inv s w0" for s w0
proof
  fix w
  assume "recv_loop_inv s w0 w"
  then obtain sess t where
    s0: "w_sessions w0 s = Some sess" and t: "rb_ok t" "rb_map t \<subseteq>\<^sub>m recv_map sess" and
    inj: "\<And>k k' m. recv_map sess k = Some m \<Longrightarrow> recv_map sess k' = Some m \<Longrightarrow> k = k'" and
    live: "\<And>k m. recv_map sess k = Some m \<Longrightarrow> w_messages w0 m \<noteq> None" and
    w: "w = w0\<lparr>w_sessions := (w_sessions w0)(s \<mapsto> sess\<lparr>s_recv_mess := t\<rparr>),
      w_messages := w_messages w0 |` (- drained (recv_map sess) (rb_map t))\<rparr>"
    unfolding recv_loop_inv_def by blast
  have c: "recv_content s w = rb_map t" by (simp add: w recv_content_def)
  show "finite (dom (recv_content s w))" by (simp add: c rb.finite_content [OF t(1)])
  show "clear_recv_queue s w = Some w" if "recv_content s w = Map.empty"
    using that c rb.root_empty [OF t(1)] by (subst clear_recv_queue.simps) (simp add: w)
  show "\<exists>k w'. k \<in> dom (recv_content s w) \<and> clear_recv_queue s w = clear_recv_queue s w' \<and>
      recv_loop_inv s w0 w' \<and> recv_content s w' = (recv_content s w)(k := None)"
    if ne: "recv_content s w \<noteq> Map.empty"
  proof -
    from rb.drain_step [OF t(1)] ne c obtain k m t' where
      r: "rbtree_root_entry t = Some (Some (k, m))" and k: "rb_map t k = Some m" and
      t': "rbtree_remove t k = Some (0, t')" "rb_ok t'" "rb_map t' = (rb_map t)(k := None)" by metis
    let ?w = "w0\<lparr>w_sessions := (w_sessions w0)(s \<mapsto> sess\<lparr>s_recv_mess := t'\<rparr>),
      w_messages := w_messages w0 |` (- drained (recv_map sess) (rb_map t'))\<rparr>"
    have km: "recv_map sess k = Some m" using t(2) k by (metis domI map_le_def)
    have "m \<in> ran (rb_map t)" using k by (auto simp: ran_def)
    then have "w_messages w m \<noteq> None" using live [OF km] by (simp add: w drained_def)
    then have "clear_recv_queue s w = clear_recv_queue s ?w"
      using r t'(1) by (subst clear_recv_queue.simps)
        (auto simp: w world_defs Compl_insert t'(3) drained_step [OF t(2) k inj])
    moreover have "recv_loop_inv s w0 ?w"
      unfolding recv_loop_inv_def using s0 t'(2) map_le_del [OF t(2), of k] inj live
      by (intro exI [of _ sess] exI [of _ t']) (simp add: t'(3))
    moreover have "recv_content s ?w = (recv_content s w)(k := None)"
      by (simp add: c t'(3)) (simp add: recv_content_def t'(3))
    moreover have "k \<in> dom (recv_content s w)" using k c by auto
    ultimately show ?thesis by (intro exI [of _ k] exI [of _ ?w] conjI)
  qed
qed

text \<open>
  The state of the second loop. The session's events are already gone, so that no read event
  is added again; every freed message has its timer freed.
\<close>

definition send_loop_state :: "addr \<Rightarrow> world \<Rightarrow> t2u_session \<Rightarrow> (u32, addr) rbtree \<Rightarrow> world" where
  "send_loop_state s w0 sess t =
     w0\<lparr>w_messages := w_messages w0 |` (- drained (send_map sess) (rb_map t)),
        w_sessions := (w_sessions w0)(s \<mapsto> sess\<lparr>s_send_mess := t,
          s_send_buffer_count := of_nat (card (dom (rb_map t)))\<rparr>),
        w_out := w_out w0 @ replicate (card (dom (send_map sess)) - card (dom (rb_map t)))
          (EventFree (evtimer Cb_request_timeout))\<rparr>"

definition send_loop_inv :: "addr \<Rightarrow> owners \<Rightarrow> world \<Rightarrow> world \<Rightarrow> bool" where
  "send_loop_inv s c w0 w \<longleftrightarrow> (\<exists>sess t. w_sessions w0 s = Some sess \<and> s_ev sess = None \<and>
     send_queue_ok c (w_messages w0) s sess \<and> rb_ok t \<and> rb_map t \<subseteq>\<^sub>m send_map sess \<and>
     w = send_loop_state s w0 sess t)"

interpretation send_loop: drain_loop "clear_send_queue s" "send_content s" "send_loop_inv s c w0" for s c w0
proof
  fix w
  assume "send_loop_inv s c w0 w"
  then obtain sess t where
    s0: "w_sessions w0 s = Some sess" "s_ev sess = None" and q: "send_queue_ok c (w_messages w0) s sess" and
    t: "rb_ok t" "rb_map t \<subseteq>\<^sub>m send_map sess" and w: "w = send_loop_state s w0 sess t"
    unfolding send_loop_inv_def by blast
  have c: "send_content s w = rb_map t" by (simp add: w send_content_def send_loop_state_def)
  show "finite (dom (send_content s w))" by (simp add: c rb.finite_content [OF t(1)])
  show "clear_send_queue s w = Some w" if "send_content s w = Map.empty"
    using that c rb.root_empty [OF t(1)]
    by (subst clear_send_queue.simps) (simp add: w send_loop_state_def)
  show "\<exists>k w'. k \<in> dom (send_content s w) \<and> clear_send_queue s w = clear_send_queue s w' \<and>
      send_loop_inv s c w0 w' \<and> send_content s w' = (send_content s w)(k := None)"
    if ne: "send_content s w \<noteq> Map.empty"
  proof -
    from rb.root_some [OF t(1)] ne c obtain k m where
      r: "rbtree_root_entry t = Some (Some (k, m))" and k: "rb_map t k = Some m" by metis
    have km: "send_map sess k = Some m" using t(2) k by (metis domI map_le_def)
    from send_queue_okD(3) [OF q km] obtain msg ev where
      m: "w_messages w0 m = Some msg" "m_session msg = Some s" "m_seq msg = k" and
      ev: "m_ev_timeout msg = Some ev" "message_event c s m ev"
      by (auto simp: send_msg_ok_def)
    let ?sess = "sess\<lparr>s_send_mess := t, s_send_buffer_count := of_nat (card (dom (rb_map t)))\<rparr>"
    have mr: "m \<in> ran (rb_map t)" using k by (auto simp: ran_def)
    have "\<exists>t'. rb_ok t' \<and> rb_map t' = (send_map ?sess)(m_seq msg := None) \<and>
      t2u_delete_request_message m w = Some
        (w\<lparr>w_messages := (w_messages w)(m := None),
           w_sessions := (w_sessions w)(s \<mapsto> enable_read (?sess\<lparr>s_send_mess := t',
               s_send_buffer_count := s_send_buffer_count ?sess - 1\<rparr>)),
           w_out := w_out w @ EventFree (evtimer Cb_request_timeout) # (if read_disabled ?sess
             then [EventAdd (ev_read Cb_process_tcp (s_sock ?sess)) None] else [])\<rparr>)"
      by (rule delete_request_message_exec [where ev = ev])
        (use m ev k t(1) s0(2) mr in \<open>auto simp: message_event_def w send_loop_state_def drained_def
           read_disabled_def\<close>)
    then obtain t' where t': "rb_ok t'" "rb_map t' = (rb_map t)(k := None)" and
      d: "t2u_delete_request_message m w = Some
        (w\<lparr>w_messages := (w_messages w)(m := None),
           w_sessions := (w_sessions w)(s \<mapsto> ?sess\<lparr>s_send_mess := t',
               s_send_buffer_count := s_send_buffer_count ?sess - 1\<rparr>),
           w_out := w_out w @ [EventFree (evtimer Cb_request_timeout)]\<rparr>)"
      using m(3) s0(2) by (auto simp: read_disabled_def enable_read_def)
    have n: "0 < card (dom (rb_map t))" "card (dom (rb_map t)) \<le> card (dom (send_map sess))"
      using k rb.finite_content [OF t(1)] rb.finite_content [OF send_queue_okD(1) [OF q]] t(2)
      by (auto simp: card_gt_0_iff map_le_implies_dom_le card_mono)
    have n': "card (dom (rb_map t')) = card (dom (rb_map t)) - 1"
      using card_dom_del [of "rb_map t" k] k by (simp add: t'(2))
    let ?e = "EventFree (evtimer Cb_request_timeout)"
    have dr: "drained (send_map sess) (rb_map t') = insert m (drained (send_map sess) (rb_map t))"
      unfolding t'(2) by (rule drained_step [OF t(2) k send_queue_inj [OF q]])
    have cnt: "(of_nat (card (dom (rb_map t'))) :: u32) = of_nat (card (dom (rb_map t))) - 1"
      unfolding n' using n(1) by (simp add: of_nat_diff)
    have "card (dom (send_map sess)) - card (dom (rb_map t')) =
        Suc (card (dom (send_map sess)) - card (dom (rb_map t)))" using n n' by linarith
    then have rep: "replicate (card (dom (send_map sess)) - card (dom (rb_map t'))) ?e =
        replicate (card (dom (send_map sess)) - card (dom (rb_map t))) ?e @ [?e]"
      by (simp add: replicate_append_same)
    have w': "the (t2u_delete_request_message m w) = send_loop_state s w0 sess t'"
      unfolding d by (simp add: w send_loop_state_def rep cnt dr Compl_insert)
    have "clear_send_queue s w = clear_send_queue s (send_loop_state s w0 sess t')"
      using r d w' by (subst clear_send_queue.simps) (simp add: w send_loop_state_def)
    moreover have "send_loop_inv s c w0 (send_loop_state s w0 sess t')"
      unfolding send_loop_inv_def using s0 q t' map_le_del [OF t(2), of k]
      by (intro exI [of _ sess] exI [of _ t']) simp
    moreover have "send_content s (send_loop_state s w0 sess t') = (send_content s w)(k := None)"
      unfolding c by (simp add: send_content_def send_loop_state_def t'(2))
    moreover have "k \<in> dom (send_content s w)" using k c by auto
    ultimately show ?thesis
      by (intro exI [of _ k] exI [of _ "send_loop_state s w0 sess t'"] conjI)
  qed
qed

lemma clear_recv_queue_exec:
  assumes s: "w_sessions w s = Some sess" and q: "recv_queue_ok (w_messages w) sess"
  shows "\<exists>t. rb_ok t \<and> rb_map t = Map.empty \<and>
    clear_recv_queue s w = Some (w\<lparr>w_sessions := (w_sessions w)(s \<mapsto> sess\<lparr>s_recv_mess := t\<rparr>),
      w_messages := w_messages w |` (- ran (recv_map sess))\<rparr>)"
proof -
  have "recv_loop_inv s w w"
    unfolding recv_loop_inv_def
  proof (intro exI [of _ sess] exI [of _ "s_recv_mess sess"] conjI allI impI)
    fix k m
    show "recv_map sess k = Some m \<Longrightarrow> w_messages w m \<noteq> None"
      using recv_queue_okD(3) [OF q, of k m] by auto
    show "w = w\<lparr>w_sessions := (w_sessions w)(s \<mapsto> sess\<lparr>s_recv_mess := s_recv_mess sess\<rparr>),
        w_messages := w_messages w |` (- drained (recv_map sess) (recv_map sess))\<rparr>"
      using s by (simp add: fun_upd_idem)
  qed (use s recv_queue_okD(1) [OF q] recv_queue_inj [OF q] in simp_all)
  from recv_loop.drains [OF this] s show ?thesis
    by (fastforce simp: recv_loop_inv_def recv_content_def)
qed

lemma clear_send_queue_exec:
  assumes s: "w_sessions w s = Some sess" "s_ev sess = None"
    and q: "send_queue_ok c (w_messages w) s sess"
  shows "\<exists>t. rb_ok t \<and> rb_map t = Map.empty \<and>
    clear_send_queue s w = Some (w\<lparr>w_messages := w_messages w |` (- ran (send_map sess)),
      w_sessions := (w_sessions w)(s \<mapsto> sess\<lparr>s_send_mess := t, s_send_buffer_count := 0\<rparr>),
      w_out := w_out w @ replicate (card (dom (send_map sess))) (EventFree (evtimer Cb_request_timeout))\<rparr>)"
proof -
  have "(of_nat (card (dom (send_map sess))) :: u32) = s_send_buffer_count sess"
    by (simp flip: send_queue_okD(2) [OF q])
  then have "w = send_loop_state s w sess (s_send_mess sess)"
    using s by (simp add: send_loop_state_def fun_upd_idem)
  then have "send_loop_inv s c w w"
    unfolding send_loop_inv_def using s q send_queue_okD(1) [OF q]
    by (intro exI [of _ sess] exI [of _ "s_send_mess sess"]) simp
  from send_loop.drains [OF this] s show ?thesis
    by (fastforce simp: send_loop_inv_def send_content_def send_loop_state_def)
qed

lemma clear_queues_exec:
  assumes s: "w_sessions w s = Some sess" "s_ev sess = None" and q: "queues_ok c (w_messages w) s sess"
  shows "\<exists>t1 t2. Option.bind (clear_recv_queue s w) (clear_send_queue s) = Some
    (w\<lparr>w_messages := w_messages w |` (- messages_of sess),
       w_sessions := (w_sessions w)(s \<mapsto> sess\<lparr>s_recv_mess := t1, s_send_mess := t2,
         s_send_buffer_count := 0\<rparr>),
       w_out := w_out w @ replicate (card (dom (send_map sess))) (EventFree (evtimer Cb_request_timeout))\<rparr>)"
proof -
  note q1 = queues_okD(1) [OF q] and q2 = queues_okD(2) [OF q]
  from clear_recv_queue_exec [OF s(1) q2] obtain t1 where
    c1: "clear_recv_queue s w = Some (w\<lparr>w_sessions := (w_sessions w)(s \<mapsto> sess\<lparr>s_recv_mess := t1\<rparr>),
      w_messages := w_messages w |` (- ran (recv_map sess))\<rparr>)" (is "_ = Some ?w1") by auto
  let ?sess1 = "sess\<lparr>s_recv_mess := t1\<rparr>"
  have "m \<notin> ran (recv_map sess)" if "m \<in> ran (send_map sess)" for m
    using that queues_disjoint [OF q1 q2] by (auto simp: ran_def)
  then have "send_queue_ok c (w_messages ?w1) s ?sess1"
    using send_queue_ok_cong [OF q1, of "w_messages ?w1"]
    by (simp add: send_queue_ok_fields [of ?sess1 sess])
  from clear_send_queue_exec [OF _ _ this] s(2) obtain t2 where c2: "clear_send_queue s ?w1 = Some (?w1\<lparr>
      w_messages := w_messages ?w1 |` (- ran (send_map ?sess1)),
      w_sessions := (w_sessions ?w1)(s \<mapsto> ?sess1\<lparr>s_send_mess := t2, s_send_buffer_count := 0\<rparr>),
      w_out := w_out ?w1 @ replicate (card (dom (send_map ?sess1))) (EventFree (evtimer Cb_request_timeout))\<rparr>)"
    by fastforce
  show ?thesis using c1 c2 by (auto simp: restrict_restrict_compl messages_of_def Un_commute)
qed

section \<open>What the deletions do\<close>

text \<open>The trace of \<open>t2u_delete_connected_session\<close>.\<close>

definition session_io_trace :: "os \<Rightarrow> t2u_context \<Rightarrow> t2u_session \<Rightarrow> int \<Rightarrow> action list" where
  "session_io_trace os ctx sess sync =
     event_frees (s_ev sess) @
     (if sync = 0
      then [UdpSend (c_sock ctx) (md_bytes (new_mdata (os_arch os) close_request (s_handle sess) 0 []))]
      else []) @
     (if s_sock sess \<noteq> 0 then [CloseSocket (s_sock sess)] else [])"

definition session_end_trace :: "os \<Rightarrow> t2u_context \<Rightarrow> t2u_session \<Rightarrow> int \<Rightarrow> action list" where
  "session_end_trace os ctx sess sync =
     session_io_trace os ctx sess sync @
     replicate (card (dom (send_map sess))) (EventFree (evtimer Cb_request_timeout))"

lemma close_session_io_exec:
  assumes s: "w_sessions w s = Some sess" and l: "linked w sess r rule c ctx n"
  shows "\<exists>sess'. sess' = sess\<lparr>s_ev := None, s_last_send_ts :=
         (if sync = 0 then os_time os (w_calls w) else s_last_send_ts sess)\<rparr> \<and>
    close_session_io os s sync w = Some
      (w\<lparr>w_out := w_out w @ session_io_trace os ctx sess sync,
         w_sessions := (w_sessions w)(s \<mapsto> sess'),
         w_calls := (if sync = 0 then Suc (w_calls w) else w_calls w)\<rparr>)"
  using s linkedD [OF l]
  by (auto simp: close_session_io_def t2u_delete_event_exec t2u_send_message_data_def deref_defs
      world_defs session_io_trace_def)

lemma delete_connected_session_exec:
  assumes s: "w_sessions w s = Some sess" and l: "linked w sess r rule c ctx n"
    and q: "queues_ok (r, c, n) (w_messages w) s sess" and ok: "rb_ok (r_sessions rule)"
  shows "\<exists>t. rb_ok t \<and> rb_map t = (rb_map (r_sessions rule))(s_handle sess := None) \<and>
    t2u_delete_connected_session os s sync w = Some
      (w\<lparr>w_sessions := (w_sessions w)(s := None),
         w_messages := w_messages w |` (- messages_of sess),
         w_rules := (w_rules w)(r \<mapsto> rule\<lparr>r_sessions := t\<rparr>),
         w_calls := (if sync = 0 then Suc (w_calls w) else w_calls w),
         w_out := w_out w @ session_end_trace os ctx sess sync\<rparr>)"
proof -
  note L = linkedD [OF l]
  from close_session_io_exec [OF s l, of sync os] obtain sess1 w1 where
    s1: "sess1 = sess\<lparr>s_ev := None, s_last_send_ts :=
         (if sync = 0 then os_time os (w_calls w) else s_last_send_ts sess)\<rparr>" and
    w1: "w1 = w\<lparr>w_out := w_out w @ session_io_trace os ctx sess sync,
         w_sessions := (w_sessions w)(s \<mapsto> sess1),
         w_calls := (if sync = 0 then Suc (w_calls w) else w_calls w)\<rparr>" and
    c1: "close_session_io os s sync w = Some w1" by blast
  have "queues_ok (r, c, n) (w_messages w1) s sess1" "w_sessions w1 s = Some sess1" "s_ev sess1 = None"
    using q by (simp_all add: s1 w1 queues_ok_def send_queue_ok_def recv_queue_ok_def)
  from clear_queues_exec [OF this(2,3,1)] obtain t1 t2 where
    c2: "Option.bind (clear_recv_queue s w1) (clear_send_queue s) = Some
      (w1\<lparr>w_messages := w_messages w1 |` (- messages_of sess1),
         w_sessions := (w_sessions w1)(s \<mapsto> sess1\<lparr>s_recv_mess := t1, s_send_mess := t2,
           s_send_buffer_count := 0\<rparr>),
         w_out := w_out w1 @
           replicate (card (dom (send_map sess1))) (EventFree (evtimer Cb_request_timeout))\<rparr>)" by blast
  have m: "messages_of sess1 = messages_of sess" by (simp add: messages_of_def s1)
  from rb.del_total [OF ok, of "s_handle sess"] obtain code t where
    t: "rbtree_remove (r_sessions rule) (s_handle sess) = Some (code, t)" "rb_ok t"
    "rb_map t = (rb_map (r_sessions rule))(s_handle sess := None)" by auto
  have "t2u_delete_connected_session os s sync w =
      Option.bind (Option.bind (clear_recv_queue s w1) (clear_send_queue s)) (unregister_session s)"
    by (simp add: t2u_delete_connected_session_def c1)
  also have "\<dots> = Some (w\<lparr>w_sessions := (w_sessions w)(s := None),
         w_messages := w_messages w |` (- messages_of sess),
         w_rules := (w_rules w)(r \<mapsto> rule\<lparr>r_sessions := t\<rparr>),
         w_calls := (if sync = 0 then Suc (w_calls w) else w_calls w),
         w_out := w_out w @ session_end_trace os ctx sess sync\<rparr>)"
    unfolding c2 using L t(1)
    by (simp add: unregister_session_def world_defs m session_end_trace_def)
      (simp add: s1 w1)
  finally show ?thesis using t by blast
qed

lemma delete_connecting_session_exec:
  assumes s: "w_sessions w s = Some sess" and l: "linked w sess r rule c ctx n"
    and ok: "rb_ok (r_connecting_sessions rule)"
  shows "\<exists>t. rb_ok t \<and> rb_map t = (rb_map (r_connecting_sessions rule))(s_handle sess := None) \<and>
    t2u_delete_connecting_session s w = Some
      (w\<lparr>w_sessions := (w_sessions w)(s := None),
         w_rules := (w_rules w)(r \<mapsto> rule\<lparr>r_connecting_sessions := t\<rparr>),
         w_out := w_out w @ event_frees (s_ev sess) @
           (if s_sock sess \<noteq> 0 then [CloseSocket (s_sock sess)] else [])\<rparr>)"
proof -
  from rb.del_total [OF ok, of "s_handle sess"] obtain code t where
    t: "rbtree_remove (r_connecting_sessions rule) (s_handle sess) = Some (code, t)" "rb_ok t"
    "rb_map t = (rb_map (r_connecting_sessions rule))(s_handle sess := None)" by auto
  with s linkedD [OF l] show ?thesis
    by (auto simp: t2u_delete_connecting_session_def t2u_delete_event_exec world_defs intro!: exI [of _ t])
qed

section \<open>The invariant\<close>

text \<open>The state after the deletion of an established session.\<close>

lemma delete_connected_session_ok:
  assumes w: "world_ok w" and s: "w_sessions w s = Some sess" "s_status sess \<noteq> 1"
    and l: "linked w sess r rule c ctx n"
  shows "\<exists>w' t. t2u_delete_connected_session os s sync w = Some w' \<and> world_ok w' \<and>
    w_sessions w' = (w_sessions w)(s := None) \<and> w_messages w' = w_messages w |` (- messages_of sess) \<and>
    w_rules w' = (w_rules w)(r \<mapsto> rule\<lparr>r_sessions := t\<rparr>) \<and>
    rb_map t = (rb_map (r_sessions rule))(s_handle sess := None) \<and>
    w_contexts w' = w_contexts w \<and> w_runners w' = w_runners w \<and> w_fresh w' = w_fresh w \<and>
    w_out w' = w_out w @ session_end_trace os ctx sess sync"
proof -
  from world_okD(1) [OF w s(1)] obtain r2 rule2 c2 ctx2 n2 where l2: "linked w sess r2 rule2 c2 ctx2 n2" and
    q2: "queues_ok (r2, c2, n2) (w_messages w) s sess" by (rule session_okE)
  from l l2 have q: "queues_ok (r, c, n) (w_messages w) s sess" using q2 by (auto simp: linked_def)
  note L = linkedD [OF l]
  from world_okD(2) [OF w L(2)] have ok: "rb_ok (r_sessions rule)" "rb_ok (r_connecting_sessions rule)"
    by (auto simp: rule_ok_def)
  from delete_connected_session_exec [OF s(1) l q ok(1), of os sync] obtain t where
    t: "rb_ok t" "rb_map t = (rb_map (r_sessions rule))(s_handle sess := None)" and
    e: "t2u_delete_connected_session os s sync w = Some
      (w\<lparr>w_sessions := (w_sessions w)(s := None),
         w_messages := w_messages w |` (- messages_of sess),
         w_rules := (w_rules w)(r \<mapsto> rule\<lparr>r_sessions := t\<rparr>),
         w_calls := (if sync = 0 then Suc (w_calls w) else w_calls w),
         w_out := w_out w @ session_end_trace os ctx sess sync\<rparr>)" (is "_ = Some ?w") by blast
  have "world_ok ?w"
    by (rule world_ok_session_delete [OF w s(1) L(1,2), of t "r_connecting_sessions rule"])
      (use t ok s(2) in simp_all)
  with e t(2) show ?thesis by (intro exI [of _ ?w] exI [of _ t]) simp
qed

lemma delete_connecting_session_ok:
  assumes w: "world_ok w" and s: "w_sessions w s = Some sess" "s_status sess = 1"
    and l: "linked w sess r rule c ctx n"
  shows "\<exists>w' t. t2u_delete_connecting_session s w = Some w' \<and> world_ok w' \<and>
    w_sessions w' = (w_sessions w)(s := None) \<and> w_messages w' = w_messages w \<and>
    w_rules w' = (w_rules w)(r \<mapsto> rule\<lparr>r_connecting_sessions := t\<rparr>) \<and>
    rb_map t = (rb_map (r_connecting_sessions rule))(s_handle sess := None) \<and>
    w_contexts w' = w_contexts w \<and> w_runners w' = w_runners w \<and> w_fresh w' = w_fresh w \<and>
    w_out w' = w_out w @ event_frees (s_ev sess) @
      (if s_sock sess \<noteq> 0 then [CloseSocket (s_sock sess)] else [])"
proof -
  note L = linkedD [OF l]
  from world_okD(2) [OF w L(2)] have ok: "rb_ok (r_sessions rule)" "rb_ok (r_connecting_sessions rule)"
    by (auto simp: rule_ok_def)
  have m: "messages_of sess = {}" using world_okD(1) [OF w s(1)] s(2) by (auto simp: session_ok_def)
  from delete_connecting_session_exec [OF s(1) l ok(2)] obtain t where
    t: "rb_ok t" "rb_map t = (rb_map (r_connecting_sessions rule))(s_handle sess := None)" and
    e: "t2u_delete_connecting_session s w = Some
      (w\<lparr>w_sessions := (w_sessions w)(s := None),
         w_rules := (w_rules w)(r \<mapsto> rule\<lparr>r_connecting_sessions := t\<rparr>),
         w_out := w_out w @ event_frees (s_ev sess) @
           (if s_sock sess \<noteq> 0 then [CloseSocket (s_sock sess)] else [])\<rparr>)" (is "_ = Some ?w") by blast
  have "world_ok ?w"
    by (rule world_ok_session_delete [OF w s(1) L(1,2), of "r_sessions rule" t])
      (use t ok s(2) m in simp_all)
  with e t(2) show ?thesis by (intro exI [of _ ?w] exI [of _ t]) simp
qed

lemma ran_eq_empty: "ran f = {} \<longleftrightarrow> f = Map.empty"
  by (auto simp: ran_def fun_eq_iff) (metis not_Some_eq)

lemma rb_root_empty:
  assumes "rb_ok t"
  shows "rb_root t = NULL \<longleftrightarrow> rb_map t = Map.empty"
  using rb_ok_root [OF assms] by auto

text \<open>What the end of a session sends: at most a close request, and nothing to the TCP socket.\<close>

definition ending :: "arch \<Rightarrow> action \<Rightarrow> bool" where
  "ending ar a \<longleftrightarrow>
     (case a of
        TcpSend _ _ _ \<Rightarrow> False
      | UdpSend _ d \<Rightarrow> \<exists>h. d = md_bytes (new_mdata ar close_request h 0 [])
      | _ \<Rightarrow> True)"

lemma ending_simps [simp]:
  "\<not> ending ar (TcpSend so b r)" "ending ar (EventAdd e tv)" "ending ar (EventFree e)" "ending ar (CloseSocket so)"
  "ending ar (UdpSend so (md_bytes (new_mdata ar close_request h 0 [])))"
  by (auto simp: ending_def)

lemma session_end_ending: "a \<in> set (session_end_trace os ctx sess sync) \<Longrightarrow> ending (os_arch os) a"
  by (auto simp: session_end_trace_def session_io_trace_def event_frees_def split: option.splits if_splits)

text \<open>\<open>t2u_try_delete_connected_session\<close> ends a closing session exactly when its queues are empty.\<close>

lemma try_delete_ok:
  assumes w: "world_ok w" and s: "w_sessions w s = Some sess" "s_status sess \<noteq> 1"
  shows "\<exists>w'. t2u_try_delete_connected_session os s w = Some w' \<and> world_ok w' \<and>
    (if s_status sess = 3 \<and> messages_of sess = {}
     then w_sessions w' = (w_sessions w)(s := None) \<and> w_messages w' = w_messages w \<and>
       t2u_delete_connected_session os s 0 w = Some w' \<and>
       (\<exists>tl. w_out w' = w_out w @ tl \<and> (\<forall>a \<in> set tl. ending (os_arch os) a))
     else w' = w)"
proof -
  from world_okD(1) [OF w s(1)] obtain r rule c ctx n where l: "linked w sess r rule c ctx n" and
    q: "queues_ok (r, c, n) (w_messages w) s sess" by (rule session_okE)
  from queues_okD [OF q] have "rb_root (s_send_mess sess) = NULL \<and> rb_root (s_recv_mess sess) = NULL \<longleftrightarrow>
      messages_of sess = {}"
    by (simp add: rb_root_empty send_queue_ok_def recv_queue_ok_def messages_of_def ran_eq_empty)
  moreover from delete_connected_session_ok [OF w s l, of os 0] obtain w' where
    d: "t2u_delete_connected_session os s 0 w = Some w'" "world_ok w'" "w_sessions w' = (w_sessions w)(s := None)"
      "w_messages w' = w_messages w |` (- messages_of sess)" "w_out w' = w_out w @ session_end_trace os ctx sess 0" by blast
  ultimately show ?thesis using s w session_end_ending
    by (cases "s_status sess = 3 \<and> messages_of sess = {}") (auto simp: t2u_try_delete_connected_session_def)
qed

text \<open>A change to the fields of a session that leaves its queues alone.\<close>

lemma world_ok_session_fields:
  assumes w: "world_ok w" and s: "w_sessions w s = Some sess"
    and f: "s_rule sess' = s_rule sess" "s_handle sess' = s_handle sess"
      "(s_status sess' = 1) = (s_status sess = 1)" "s_status sess' \<in> {1, 2, 3}"
      "s_send_mess sess' = s_send_mess sess" "s_recv_mess sess' = s_recv_mess sess"
      "s_send_buffer_count sess' = s_send_buffer_count sess"
      "s_recv_buffer_count sess' = s_recv_buffer_count sess"
      "\<And>mode r c n. session_events mode r c n s sess \<Longrightarrow> session_events mode r c n s sess'"
    and w': "w_sessions w' = (w_sessions w)(s \<mapsto> sess')" "w_messages w' = w_messages w"
      "w_rules w' = w_rules w" "w_contexts w' = w_contexts w" "w_runners w' = w_runners w"
      "w_fresh w' = w_fresh w"
  shows "world_ok w'"
proof (rule world_ok_session_step [OF w s])
  have m: "messages_of sess' = messages_of sess" by (simp add: messages_of_def f)
  have "w_messages w a = None" if "w_fresh w \<le> a" for a
    using world_okD(6) [OF w] that by (auto simp: fresh_ok_def)
  then show "session_step s sess sess' w w'"
    using f(1-3) w' m owned_live(2) [OF w s] by (auto simp: session_step_def)
  from world_okD(1) [OF w s] obtain r rule c ctx n where l: "linked w sess r rule c ctx n"
    "queues_ok (r, c, n) (w_messages w) s sess" "s_status sess \<in> {1, 2, 3}"
    "s_status sess = 1 \<longrightarrow> messages_of sess = {}"
    "session_events (r_mode rule) r c n s sess" "registry rule (s_status sess) (s_handle sess) = Some s"
    by (rule session_okE)
  have "linked w' sess' r rule c ctx n"
    using l(1) linked_cong [OF w'(3-5)] linked_session [OF f(1)] by simp
  moreover have "queues_ok (r, c, n) (w_messages w') s sess'"
    using l(2) f by (simp add: queues_ok_def send_queue_ok_def recv_queue_ok_def w'(2))
  moreover have "registry rule (s_status sess') (s_handle sess') = Some s"
    using l(6) f(2,3) by (simp add: registry_def)
  ultimately show "session_ok w' s sess'"
    using l(4,5) f(3,4,9) m unfolding session_ok_def by blast
qed

lemma delete_later_ok:
  assumes w: "world_ok w" and s: "w_sessions w s = Some sess" "s_status sess \<noteq> 1"
  shows "\<exists>w'. t2u_delete_connected_session_later os s w = Some w' \<and> world_ok w' \<and>
    (if messages_of sess = {}
     then w_sessions w' = (w_sessions w)(s := None) \<and> w_messages w' = w_messages w \<and>
       (\<exists>tl. w_out w' = w_out w @ tl \<and> (\<forall>a \<in> set tl. ending (os_arch os) a))
     else w' = w\<lparr>w_sessions := (w_sessions w)(s \<mapsto> sess\<lparr>s_status := 3\<rparr>)\<rparr>)"
proof -
  let ?sess = "sess\<lparr>s_status := 3\<rparr>" and ?w = "w\<lparr>w_sessions := (w_sessions w)(s \<mapsto> sess\<lparr>s_status := 3\<rparr>)\<rparr>"
  have "world_ok ?w"
    by (rule world_ok_session_fields [OF w s(1), of ?sess]) (use s in \<open>auto simp: session_events_def\<close>)
  from try_delete_ok [OF this, of s ?sess os] obtain w' where
    e: "t2u_try_delete_connected_session os s ?w = Some w'" "world_ok w'" and
    c: "if messages_of ?sess = {}
      then w_sessions w' = (w_sessions ?w)(s := None) \<and> w_messages w' = w_messages ?w \<and>
        t2u_delete_connected_session os s 0 ?w = Some w' \<and>
        (\<exists>tl. w_out w' = w_out ?w @ tl \<and> (\<forall>a \<in> set tl. ending (os_arch os) a))
      else w' = ?w" by auto
  have "t2u_delete_connected_session_later os s w = t2u_try_delete_connected_session os s ?w"
    using s by (simp add: t2u_delete_connected_session_later_def world_defs)
  moreover have "messages_of ?sess = messages_of sess" by (simp add: messages_of_def)
  ultimately show ?thesis using e c by auto
qed

section \<open>Messages under the invariant\<close>

lemma message_owner:
  assumes w: "world_ok w" and m: "w_messages w m = Some msg" "m_session msg = Some s"
  obtains sess r rule c ctx n where
    "w_sessions w s = Some sess" "linked w sess r rule c ctx n" "send_map sess (m_seq msg) = Some m"
    "send_msg_ok (r, c, n) s (m_seq msg) m msg" "s_status sess \<in> {2, 3}"
    "send_queue_ok (r, c, n) (w_messages w) s sess" "recv_queue_ok (w_messages w) sess"
proof -
  from world_okD(5) [OF w] m(1) obtain s2 sess where s2: "w_sessions w s2 = Some sess" "m \<in> messages_of sess"
    unfolding messages_ok_def by blast
  from world_okD(1) [OF w s2(1)] obtain r rule c ctx n where l: "linked w sess r rule c ctx n" and
    q: "queues_ok (r, c, n) (w_messages w) s2 sess" and st: "s_status sess \<in> {1, 2, 3}"
    "s_status sess = 1 \<longrightarrow> messages_of sess = {}"
    by (rule session_okE)
  have "recv_map sess k \<noteq> Some m" for k
    using recv_queue_okD(3) [OF queues_okD(2) [OF q], of k m] m by (auto simp: recv_msg_ok_def)
  with s2(2) obtain k where k: "send_map sess k = Some m" by (auto simp: messages_of_def ran_def)
  from send_queue_okD(3) [OF queues_okD(1) [OF q] k] m have
    mk: "send_msg_ok (r, c, n) s2 k m msg" by auto
  with m have "s2 = s" "k = m_seq msg" by (auto simp: send_msg_ok_def)
  with that s2 l k mk st queues_okD [OF q] show ?thesis by blast
qed

lemma message_ownerE:
  assumes w: "world_ok w" and m: "w_messages w m = Some msg" "m_session msg = Some s"
    and s: "w_sessions w s = Some sess"
  obtains r rule c ctx n where
    "linked w sess r rule c ctx n" "send_map sess (m_seq msg) = Some m"
    "send_msg_ok (r, c, n) s (m_seq msg) m msg" "s_status sess \<in> {2, 3}"
    "send_queue_ok (r, c, n) (w_messages w) s sess" "recv_queue_ok (w_messages w) sess"
proof (rule message_owner [OF w m])
  fix sess2 r rule c ctx n
  assume "w_sessions w s = Some sess2"
  with s have "sess2 = sess" by simp
  moreover assume "linked w sess2 r rule c ctx n" "send_map sess2 (m_seq msg) = Some m"
    "send_msg_ok (r, c, n) s (m_seq msg) m msg" "s_status sess2 \<in> {2, 3}"
    "send_queue_ok (r, c, n) (w_messages w) s sess2" "recv_queue_ok (w_messages w) sess2"
  ultimately show thesis using that by simp
qed

lemma in_messages_of: "send_map sess k = Some m \<Longrightarrow> m \<in> messages_of sess"
  by (auto simp: messages_of_def ran_def)

lemma send_msg_okE:
  assumes "send_msg_ok c s k m msg"
  obtains data ev where "m_session msg = Some s" "m_seq msg = k" "m_data msg = Some data"
    "m_ev_timeout msg = Some ev" "te_event ev = Some (evtimer Cb_request_timeout)" "te_extra_event ev = None"
    "te_context ev = Some (fst (snd c))" "te_session ev = Some s" "te_message ev = Some m"
    "sizeof_md \<le> unat (m_len msg)" "unat (m_len msg) \<le> length (md_bytes data)"
    "length (md_payload data) \<le> T2U_PAYLOAD_MAX"
  using assms by (auto simp: send_msg_ok_def message_event_def)

text \<open>A queued message may change as long as it stays a message of its queue.\<close>

lemma world_ok_message_update:
  assumes w: "world_ok w" and s: "w_sessions w s = Some sess" and k: "send_map sess k = Some m"
    and ok: "\<And>c. send_msg_ok c s k m msg \<Longrightarrow> send_msg_ok c s k m msg'"
    and msg: "w_messages w m = Some msg"
    and w': "w_messages w' = (w_messages w)(m \<mapsto> msg')" "w_sessions w' = w_sessions w"
      "w_rules w' = w_rules w" "w_contexts w' = w_contexts w" "w_runners w' = w_runners w"
      "w_fresh w' = w_fresh w"
  shows "world_ok w'"
proof (rule world_ok_session_step [OF w s, where sess' = sess])
  have fr: "w_messages w a = None" if "w_fresh w \<le> a" for a
    using world_okD(6) [OF w] that by (auto simp: fresh_ok_def)
  have mf: "\<not> w_fresh w \<le> m" using owned_live(2) [OF w s in_messages_of [OF k]] by simp
  show "session_step s sess sess w w'"
    using w' in_messages_of [OF k] owned_live(2) [OF w s] mf fr s by (auto simp: session_step_def)
  from world_okD(1) [OF w s] obtain r rule c ctx n where l: "linked w sess r rule c ctx n"
    "queues_ok (r, c, n) (w_messages w) s sess" "s_status sess \<in> {1, 2, 3}"
    "s_status sess = 1 \<longrightarrow> messages_of sess = {}"
    "session_events (r_mode rule) r c n s sess" "registry rule (s_status sess) (s_handle sess) = Some s"
    by (rule session_okE)
  note q1 = queues_okD(1) [OF l(2)] and q2 = queues_okD(2) [OF l(2)]
  have "send_queue_ok (r, c, n) (w_messages w') s sess"
    unfolding send_queue_ok_def
  proof (intro conjI allI impI)
    fix k2 m2
    assume k2: "send_map sess k2 = Some m2"
    show "\<exists>msg. w_messages w' m2 = Some msg \<and> send_msg_ok (r, c, n) s k2 m2 msg"
      using send_queue_okD(3) [OF q1 k2] send_queue_okD(3) [OF q1 k] send_queue_inj [OF q1 k, of k2] k2
        ok msg by (auto simp: w'(1))
  qed (use send_queue_okD [OF q1] in auto)
  moreover have "m \<notin> ran (recv_map sess)"
    using queues_disjoint [OF q1 q2 k] by (auto simp: ran_def)
  then have "recv_queue_ok (w_messages w') sess"
    by (intro recv_queue_ok_cong [OF q2]) (auto simp: w'(1))
  ultimately show "session_ok w' s sess"
    using l linked_cong [OF w'(3-5)] unfolding session_ok_def queues_ok_def by metis
qed

lemma world_ok_stamp:
  assumes "world_ok w" "w_sessions w s = Some sess"
  shows "world_ok (w\<lparr>w_sessions := (w_sessions w)(s \<mapsto> sess\<lparr>s_last_send_ts := ts\<rparr>)\<rparr>)"
proof -
  have "s_status sess \<in> {1, 2, 3}" using world_okD(1) [OF assms] by (auto simp: session_ok_def)
  then show ?thesis
    by (intro world_ok_session_fields [OF assms, of "sess\<lparr>s_last_send_ts := ts\<rparr>"])
      (auto simp: session_events_def)
qed

lemma send_message_data_ok:
  assumes w: "world_ok w" and s: "w_sessions w s = Some sess" and c: "w_contexts w c = Some ctx"
    and len: "len \<le> length data"
  shows "\<exists>w'. t2u_send_message_data os (Some c) data len (Some s) w = Some w' \<and> world_ok w' \<and>
    w' = w\<lparr>w_sessions := (w_sessions w)(s \<mapsto> sess\<lparr>s_last_send_ts := os_time os (w_calls w)\<rparr>),
            w_calls := Suc (w_calls w), w_out := w_out w @ [UdpSend (c_sock ctx) (take len data)]\<rparr>"
  using send_message_data_exec [OF s c len, of os] world_ok_stamp [OF w s] by simp

lemma messages_of_delete:
  assumes q: "send_queue_ok c msgs s sess" "recv_queue_ok msgs sess" and k: "send_map sess k = Some m"
    and t: "rb_map t = (send_map sess)(k := None)"
  shows "messages_of (sess\<lparr>s_send_mess := t, s_send_buffer_count := cnt\<rparr>) = messages_of sess - {m}"
proof -
  have "ran (rb_map t) = ran (send_map sess) - {m}"
    unfolding t by (rule ran_del [where f = "send_map sess", OF k]) (rule send_queue_inj [OF q(1) _ k])
  moreover have "m \<notin> ran (recv_map sess)" using queues_disjoint [OF q k] by (auto simp: ran_def)
  ultimately show ?thesis by (auto simp: messages_of_def)
qed

lemma messages_of_enable_read [simp]: "messages_of (enable_read sess) = messages_of sess"
  by (simp add: messages_of_def)

lemma session_events_enable_read:
  "session_events mode r c n s sess \<Longrightarrow> s_status sess \<noteq> 1 \<Longrightarrow> session_events mode r c n s (enable_read sess)"
  by (auto simp: session_events_def enable_read_def read_disabled_def)

lemma delete_request_message_ok:
  assumes w: "world_ok w" and m: "w_messages w m = Some msg" "m_session msg = Some s"
    and s: "w_sessions w s = Some sess"
  shows "\<exists>w' t. t2u_delete_request_message m w = Some w' \<and> world_ok w' \<and>
    rb_ok t \<and> rb_map t = (send_map sess)(m_seq msg := None) \<and>
    w' = w\<lparr>w_messages := (w_messages w)(m := None),
         w_sessions := (w_sessions w)(s \<mapsto> enable_read (sess\<lparr>s_send_mess := t,
             s_send_buffer_count := s_send_buffer_count sess - 1\<rparr>)),
         w_out := w_out w @ EventFree (evtimer Cb_request_timeout) # (if read_disabled sess
           then [EventAdd (ev_read Cb_process_tcp (s_sock sess)) None] else [])\<rparr>"
proof -
  obtain r rule c ctx n where
    l: "linked w sess r rule c ctx n" and k: "send_map sess (m_seq msg) = Some m" and
    mk: "send_msg_ok (r, c, n) s (m_seq msg) m msg" and st: "s_status sess \<in> {2, 3}" and
    q: "send_queue_ok (r, c, n) (w_messages w) s sess" "recv_queue_ok (w_messages w) sess"
    by (rule message_ownerE [OF w m s])
  from mk obtain data ev where ev: "m_ev_timeout msg = Some ev"
    "te_event ev = Some (evtimer Cb_request_timeout)" "te_extra_event ev = None" by (rule send_msg_okE)
  have hit: "send_map sess (m_seq msg) \<noteq> None" using k by simp
  from delete_request_message_exec [OF m(1,2) ev s send_queue_okD(1) [OF q(1)] hit, of r rule c ctx n] l
  obtain t where
    t: "rb_ok t" "rb_map t = (send_map sess)(m_seq msg := None)" and
    e: "t2u_delete_request_message m w = Some
      (w\<lparr>w_messages := (w_messages w)(m := None),
         w_sessions := (w_sessions w)(s \<mapsto> enable_read (sess\<lparr>s_send_mess := t,
             s_send_buffer_count := s_send_buffer_count sess - 1\<rparr>)),
         w_out := w_out w @ EventFree (evtimer Cb_request_timeout) # (if read_disabled sess
           then [EventAdd (ev_read Cb_process_tcp (s_sock sess)) None] else [])\<rparr>)"
    (is "_ = Some ?w") by blast
  let ?sess = "sess\<lparr>s_send_mess := t, s_send_buffer_count := s_send_buffer_count sess - 1\<rparr>"
  have mo: "messages_of (enable_read ?sess) = messages_of sess - {m}"
    using messages_of_delete [OF q k t(2)] by simp
  have "world_ok ?w"
  proof (rule world_ok_session_step [OF w s])
    have fr: "w_messages w a = None" if "w_fresh w \<le> a" for a
      using world_okD(6) [OF w] that by (auto simp: fresh_ok_def)
    show "session_step s sess (enable_read ?sess) w ?w"
      using mo in_messages_of [OF k] owned_live(2) [OF w s] fr by (auto simp: session_step_def)
    have q': "queues_ok (r, c, n) (w_messages ?w) s (enable_read ?sess)"
      unfolding queues_ok_def queue_ok_enable_read
    proof
      show "send_queue_ok (r, c, n) (w_messages ?w) s ?sess"
        using send_queue_ok_delete [OF q(1) k t, of ?sess] by simp
      have "m \<notin> ran (recv_map sess)" using queues_disjoint [OF q k] by (auto simp: ran_def)
      then have "w_messages ?w m2 = w_messages w m2" if "m2 \<in> ran (recv_map sess)" for m2
        using that by auto
      from recv_queue_ok_cong [OF q(2) this] show "recv_queue_ok (w_messages ?w) ?sess"
        by (simp add: recv_queue_ok_def)
    qed
    from world_okD(1) [OF w s] l have
      "session_events (r_mode rule) r c n s sess" "registry rule (s_status sess) (s_handle sess) = Some s"
      by (auto simp: session_ok_def linked_def)
    moreover from this have "session_events (r_mode rule) r c n s (enable_read ?sess)"
      using st by (intro session_events_enable_read) (auto simp: session_events_def)
    moreover have "linked ?w (enable_read ?sess) r rule c ctx n"
      using l linked_session [of "enable_read ?sess" sess w] by simp
    ultimately show "session_ok ?w s (enable_read ?sess)"
      using q' st by (intro session_okI [of _ _ r rule c ctx n]) auto
  qed
  with e t show ?thesis by (intro exI [of _ ?w] exI [of _ t]) simp
qed

end
