(* ===== verification/T2u_Message.thy ===== *)
theory T2u_Message
  imports T2u_Close
begin

text \<open>
  What the handlers of a queued message do: the retransmission timer, the response of the peer
  and the peer's request to send again.
\<close>

section \<open>The retransmission timer\<close>

lemma request_timeout_ok_spec:
  assumes w: "world_ok w" and m: "w_messages w m = Some msg" "m_session msg = Some s"
    and s: "w_sessions w s = Some sess" and l: "linked w sess r rule c ctx n"
    and d: "m_data msg = Some data"
  shows "\<exists>w'. process_request_timeout_cb os m w = Some w' \<and> world_ok w' \<and>
    w_messages w' = (w_messages w)(m \<mapsto> msg\<lparr>m_send_retries := m_send_retries msg + 1\<rparr>) \<and>
    (if m_send_retries msg > c_udp_slide_window ctx
     then w_sessions w' = (w_sessions w)(s \<mapsto> sess\<lparr>s_status := 3\<rparr>) \<and> w_out w' = w_out w
     else w_sessions w' = (w_sessions w)(s \<mapsto> sess\<lparr>s_last_send_ts := os_time os (w_calls w)\<rparr>) \<and>
       w_out w' = w_out w @
         [EventAdd (evtimer Cb_request_timeout) (Some (timeval_ms (c_utimeout ctx))),
          UdpSend (c_sock ctx) (take (unat (m_len msg)) (md_bytes data))])"
proof -
  obtain r2 rule2 c2 ctx2 n2 where
    l2: "linked w sess r2 rule2 c2 ctx2 n2" and k: "send_map sess (m_seq msg) = Some m" and
    mk: "send_msg_ok (r2, c2, n2) s (m_seq msg) m msg" and st: "s_status sess \<in> {2, 3}"
    by (rule message_ownerE [OF w m s])
  have c: "c2 = c" using l l2 by (auto simp: linked_def)
  from mk d obtain ev where ev: "m_ev_timeout msg = Some ev" "te_event ev = Some (evtimer Cb_request_timeout)"
    "te_context ev = Some c" "te_session ev = Some s" "te_message ev = Some m"
    and len: "unat (m_len msg) \<le> length (md_bytes data)"
    by (auto simp: send_msg_ok_def message_event_def c)
  note L = linkedD [OF l]
  let ?msg = "msg\<lparr>m_send_retries := m_send_retries msg + 1\<rparr>"
  let ?w = "w\<lparr>w_messages := (w_messages w)(m \<mapsto> ?msg)\<rparr>"
  have "world_ok ?w"
    by (rule world_ok_message_update [OF w s k _ m(1), of ?msg]) (auto simp: send_msg_ok_def)
  note W = this
  show ?thesis
  proof (cases "m_send_retries msg > c_udp_slide_window ctx")
    case True
    have "messages_of sess \<noteq> {}" using in_messages_of [OF k] by auto
    with delete_later_ok [OF W, of s sess os] s st obtain w' where
      "t2u_delete_connected_session_later os s ?w = Some w'" "world_ok w'"
      "w' = ?w\<lparr>w_sessions := (w_sessions ?w)(s \<mapsto> sess\<lparr>s_status := 3\<rparr>)\<rparr>" by auto
    with True m ev L(4) show ?thesis
      by (simp add: process_request_timeout_cb_def world_defs the_context_def)
  next
    case False
    let ?w1 = "?w\<lparr>w_out := w_out w @
      [EventAdd (evtimer Cb_request_timeout) (Some (timeval_ms (c_utimeout ctx)))]\<rparr>"
    from send_message_data_ok [of ?w1 s sess c ctx "unat (m_len msg)" "md_bytes data" os] W s L(4) len
    obtain w' where "t2u_send_message_data os (Some c) (md_bytes data) (unat (m_len msg)) (Some s) ?w1 = Some w'"
      "world_ok w'" "w' = ?w1\<lparr>w_sessions := (w_sessions ?w1)(s \<mapsto>
          sess\<lparr>s_last_send_ts := os_time os (w_calls ?w1)\<rparr>), w_calls := Suc (w_calls ?w1),
          w_out := w_out ?w1 @ [UdpSend (c_sock ctx) (take (unat (m_len msg)) (md_bytes data))]\<rparr>" by auto
    with False m ev L(4) d show ?thesis
      by (simp add: process_request_timeout_cb_def world_defs the_context_def)
  qed
qed

text \<open>
  C24: An unanswered message is sent again and its timer armed again; once its retries exceed the
  window size, the session is only marked as closing and nothing is sent.
\<close>

lemma request_timeout_ok:
  assumes w: "world_ok w" and m: "w_messages w m = Some msg" "m_session msg = Some s"
    and s: "w_sessions w s = Some sess" and l: "linked w sess r rule c ctx n"
    and d: "m_data msg = Some data"
  shows "\<exists>w'. process_request_timeout_cb os m w = Some w' \<and> world_ok w' \<and>
    w_messages w' = (w_messages w)(m \<mapsto> msg\<lparr>m_send_retries := m_send_retries msg + 1\<rparr>) \<and>
    (if m_send_retries msg > c_udp_slide_window ctx
     then w_sessions w' = (w_sessions w)(s \<mapsto> sess\<lparr>s_status := 3\<rparr>) \<and> w_out w' = w_out w
     else w_sessions w' = (w_sessions w)(s \<mapsto> sess\<lparr>s_last_send_ts := os_time os (w_calls w)\<rparr>) \<and>
       w_out w' = w_out w @
         [EventAdd (evtimer Cb_request_timeout) (Some (timeval_ms (c_utimeout ctx))),
          UdpSend (c_sock ctx) (take (unat (m_len msg)) (md_bytes data))])"
  by (rule request_timeout_ok_spec [OF assms])

section \<open>The response to a packet\<close>

definition response_value :: "t2u_message_data \<Rightarrow> int" where
  "response_value mdata = sint (get_u32 (md_payload mdata))"

definition valid_length :: "t2u_message \<Rightarrow> int" where
  "valid_length msg = sint (ucast (m_len msg - of_nat sizeof_md) :: u32)"

lemma valid_length_ok:
  assumes "send_msg_ok c s k m msg"
  shows "valid_length msg = int (unat (m_len msg)) - int sizeof_md"
proof -
  from assms obtain len where len: "unat (m_len msg) = sizeof_md + len" "len \<le> T2U_PAYLOAD_MAX"
    by (auto simp: send_msg_ok_def T2U_PAYLOAD_MAX_def dest!: le_Suc_ex)
  have "m_len msg = of_nat (unat (m_len msg))" by simp
  then have "m_len msg - of_nat sizeof_md = of_nat len" unfolding len(1) by simp
  moreover have "take_bit 64 len = len"
    using len(2) by (intro take_bit_nat_eq_self) (simp add: T2U_PAYLOAD_MAX_def)
  ultimately have "valid_length msg = sint (of_nat len :: u32)"
    by (simp add: valid_length_def unsigned_of_nat)
  moreover have "sint (of_nat len :: u32) = int len"
    using len(2) by (simp add: signed_of_nat T2U_PAYLOAD_MAX_def signed_take_bit_int_eq_self)
  ultimately show ?thesis using len(1) by simp
qed

text \<open>
  A response with the length of the packet confirms it: the message leaves the queue. A
  session that was only waiting for it is ended.
\<close>

lemma data_response_success_spec:
  assumes w: "world_ok w" and m: "w_messages w m = Some msg" "m_session msg = Some s"
    and s: "w_sessions w s = Some sess" and p: "4 \<le> length (md_payload mdata)"
    and v: "response_value mdata = valid_length msg"
  shows "\<exists>w'. t2u_message_handle_data_response os m mdata w = Some w' \<and> world_ok w' \<and>
    w_messages w' = (w_messages w)(m := None) \<and>
    (\<exists>tl. w_out w' = w_out w @ tl \<and> (\<forall>a \<in> set tl. ending (os_arch os) a)) \<and>
    (if s_status sess = 3 \<and> messages_of sess = {m} then w_sessions w' = (w_sessions w)(s := None)
     else \<exists>t. rb_map t = (send_map sess)(m_seq msg := None) \<and>
       w_sessions w' = (w_sessions w)(s \<mapsto> enable_read (sess\<lparr>s_send_mess := t,
         s_send_buffer_count := s_send_buffer_count sess - 1\<rparr>)))"
proof -
  obtain r rule c ctx n where k: "send_map sess (m_seq msg) = Some m" and st: "s_status sess \<in> {2, 3}" and
    q: "send_queue_ok (r, c, n) (w_messages w) s sess" "recv_queue_ok (w_messages w) sess"
    by (rule message_ownerE [OF w m s])
  from delete_request_message_ok [OF w m s] obtain w1 t where
    e1: "t2u_delete_request_message m w = Some w1" and W1: "world_ok w1" and
    t: "rb_map t = (send_map sess)(m_seq msg := None)" and
    w1: "w1 = w\<lparr>w_messages := (w_messages w)(m := None),
         w_sessions := (w_sessions w)(s \<mapsto> enable_read (sess\<lparr>s_send_mess := t,
             s_send_buffer_count := s_send_buffer_count sess - 1\<rparr>)),
         w_out := w_out w @ EventFree (evtimer Cb_request_timeout) # (if read_disabled sess
           then [EventAdd (ev_read Cb_process_tcp (s_sock sess)) None] else [])\<rparr>" by blast
  let ?sess = "enable_read (sess\<lparr>s_send_mess := t, s_send_buffer_count := s_send_buffer_count sess - 1\<rparr>)"
  have s1: "w_sessions w1 s = Some ?sess" by (simp add: w1)
  have st1: "s_status ?sess = s_status sess" by simp
  have mo: "messages_of ?sess = messages_of sess - {m}"
    using messages_of_delete [OF q k t] by simp
  from try_delete_ok [OF W1 s1, of os] obtain w' where
    e2: "t2u_try_delete_connected_session os s w1 = Some w'" "world_ok w'" and
    c: "if s_status ?sess = 3 \<and> messages_of ?sess = {}
       then w_sessions w' = (w_sessions w1)(s := None) \<and> w_messages w' = w_messages w1 \<and>
         t2u_delete_connected_session os s 0 w1 = Some w' \<and>
         (\<exists>tl. w_out w' = w_out w1 @ tl \<and> (\<forall>a \<in> set tl. ending (os_arch os) a)) else w' = w1" using st by auto
  have out: "\<exists>tl. w_out w' = w_out w @ tl \<and> (\<forall>a \<in> set tl. ending (os_arch os) a)"
    using c by (auto simp: w1 split: if_splits)
  have e: "t2u_message_handle_data_response os m mdata w = Some w'"
    using m p v e1 e2 by (simp add: t2u_message_handle_data_response_def response_value_def valid_length_def)
  have "messages_of sess - {m} = {} \<longleftrightarrow> messages_of sess = {m}" using in_messages_of [OF k] by auto
  with c have "w_messages w' = (w_messages w)(m := None) \<and>
    (if s_status sess = 3 \<and> messages_of sess = {m} then w_sessions w' = (w_sessions w)(s := None)
     else w_sessions w' = (w_sessions w)(s \<mapsto> ?sess))"
    unfolding mo st1 by (auto simp: w1 split: if_splits)
  with e e2(2) t out show ?thesis by auto
qed

text \<open>A negative value ends the session, with a \<open>close_request\<close> to the peer.\<close>

lemma data_response_error_spec:
  assumes w: "world_ok w" and m: "w_messages w m = Some msg" "m_session msg = Some s"
    and s: "w_sessions w s = Some sess" and l: "linked w sess r rule c ctx n"
    and p: "4 \<le> length (md_payload mdata)" and v: "response_value mdata < 0"
  shows "\<exists>w'. t2u_message_handle_data_response os m mdata w = Some w' \<and> world_ok w' \<and>
    w_sessions w' = (w_sessions w)(s := None) \<and> w_messages w' = w_messages w |` (- messages_of sess) \<and>
    w_out w' = w_out w @ session_end_trace os ctx sess 0"
proof -
  obtain r2 rule2 c2 ctx2 n2 where mk: "send_msg_ok (r2, c2, n2) s (m_seq msg) m msg" and st: "s_status sess \<in> {2, 3}"
    by (rule message_ownerE [OF w m s])
  have "sizeof_md \<le> unat (m_len msg)" using mk by (auto simp: send_msg_ok_def)
  with valid_length_ok [OF mk] have "valid_length msg \<ge> 0" by linarith
  with v have v': "response_value mdata \<noteq> valid_length msg" "\<not> response_value mdata \<ge> 0" by auto
  have "s_status sess \<noteq> 1" using st by auto
  from delete_connected_session_ok [OF w s this l, of os 0] v' m p show ?thesis
    by (auto simp: t2u_message_handle_data_response_def response_value_def valid_length_def)
qed

text \<open>
  Any other positive value moves four bytes and shortens the message. The \<open>memcpy\<close> is defined
  only for some values, and only values below the length of the packet keep the message
  well formed.
\<close>

lemma shift_payload_length: "shift_payload v p = Some p' \<Longrightarrow> length p' = length p"
  by (auto simp: shift_payload_def split: if_splits)

lemma data_response_partial_spec:
  assumes w: "world_ok w" and m: "w_messages w m = Some msg" "m_session msg = Some s"
    and s: "w_sessions w s = Some sess" and d: "m_data msg = Some data"
    and p: "4 \<le> length (md_payload mdata)"
    and v: "0 < response_value mdata" "response_value mdata < valid_length msg"
    and sp: "shift_payload (nat (response_value mdata)) (md_payload data) = Some payload"
  shows "\<exists>w'. t2u_message_handle_data_response os m mdata w = Some w' \<and> world_ok w' \<and>
    w' = w\<lparr>w_messages := (w_messages w)(m \<mapsto> msg\<lparr>m_len := m_len msg - of_int (response_value mdata),
      m_data := Some (data\<lparr>md_payload := payload\<rparr>)\<rparr>)\<rparr>"
proof -
  obtain r rule c ctx n where k: "send_map sess (m_seq msg) = Some m" and
    mk: "send_msg_ok (r, c, n) s (m_seq msg) m msg" and st: "s_status sess \<in> {2, 3}"
    by (rule message_ownerE [OF w m s])
  let ?v = "response_value mdata"
  let ?msg = "msg\<lparr>m_len := m_len msg - of_int ?v, m_data := Some (data\<lparr>md_payload := payload\<rparr>)\<rparr>"
  let ?w = "w\<lparr>w_messages := (w_messages w)(m \<mapsto> ?msg)\<rparr>"
  have nv: "of_int ?v = (of_nat (nat ?v) :: u64)" using v(1) by simp
  have lt: "nat ?v + sizeof_md < unat (m_len msg)" using v valid_length_ok [OF mk] by linarith
  have len: "unat (m_len msg - of_int ?v) = unat (m_len msg) - nat ?v"
  proof -
    have "m_len msg - of_int ?v = of_nat (unat (m_len msg) - nat ?v)"
      unfolding nv using lt by (simp add: of_nat_diff)
    moreover have "unat (m_len msg) - nat ?v < 2 ^ LENGTH(64)"
      by (rule le_less_trans [OF diff_le_self unsigned_less])
    ultimately show ?thesis using unat_of_nat_small by metis
  qed
  have "world_ok ?w"
    by (rule world_ok_message_update [OF w s k _ m(1), of ?msg])
      (use d len lt shift_payload_length [OF sp] in \<open>auto simp: send_msg_ok_def\<close>)
  moreover have "messages_of sess \<noteq> {}" using in_messages_of [OF k] by auto
  ultimately have "t2u_try_delete_connected_session os s ?w = Some ?w"
    using try_delete_ok [of ?w s sess os] s st by auto
  with m d p v sp have "t2u_message_handle_data_response os m mdata w = Some ?w"
    by (simp add: t2u_message_handle_data_response_def response_value_def valid_length_def world_defs)
  with \<open>world_ok ?w\<close> show ?thesis by simp
qed

lemma data_response_undefined:
  assumes "w_messages w m = Some msg" "m_data msg = Some data"
    and "0 < response_value mdata" "response_value mdata \<noteq> valid_length msg"
    and "response_value mdata < 4 \<or> response_value mdata + 4 > int (length (md_payload data))"
  shows "t2u_message_handle_data_response os m mdata w = None"
proof (cases "4 \<le> length (md_payload mdata)")
  case True
  have "shift_payload (nat (response_value mdata)) (md_payload data) = None"
    using assms(3,5) by (auto simp: shift_payload_def)
  with True assms show ?thesis
    by (simp add: t2u_message_handle_data_response_def response_value_def valid_length_def)
qed (use assms(1) in \<open>simp add: t2u_message_handle_data_response_def\<close>)

text \<open>The value 0 for a packet with data leaves everything as it is: the timer will send it again.\<close>

lemma data_response_blocked:
  assumes w: "world_ok w" and m: "w_messages w m = Some msg" "m_session msg = Some s"
    and p: "4 \<le> length (md_payload mdata)" and v: "response_value mdata = 0" "valid_length msg \<noteq> 0"
  shows "t2u_message_handle_data_response os m mdata w = Some w"
proof -
  obtain sess r rule c ctx n where s: "w_sessions w s = Some sess" and
    k: "send_map sess (m_seq msg) = Some m" and st: "s_status sess \<in> {2, 3}"
    by (rule message_owner [OF w m])
  have "messages_of sess \<noteq> {}" using in_messages_of [OF k] by auto
  with try_delete_ok [OF w s] st have "t2u_try_delete_connected_session os s w = Some w" by auto
  with m p v show ?thesis
    by (simp add: t2u_message_handle_data_response_def response_value_def valid_length_def)
qed

section \<open>The request to send again\<close>

lemma retrans_request_ok:
  assumes w: "world_ok w" and m: "w_messages w m = Some msg" "m_session msg = Some s"
    and s: "w_sessions w s = Some sess" and l: "linked w sess r rule c ctx n" and d: "m_data msg = Some data"
  shows "\<exists>w'. t2u_message_handle_retrans_request os m mdata w = Some w' \<and> world_ok w' \<and>
    w' = w\<lparr>w_sessions := (w_sessions w)(s \<mapsto> sess\<lparr>s_last_send_ts := os_time os (w_calls w)\<rparr>),
           w_calls := Suc (w_calls w),
           w_out := w_out w @ [UdpSend (c_sock ctx) (take (unat (m_len msg)) (md_bytes data))]\<rparr>"
proof -
  obtain r2 rule2 c2 ctx2 n2 where mk: "send_msg_ok (r2, c2, n2) s (m_seq msg) m msg"
    by (rule message_ownerE [OF w m s])
  then have len: "unat (m_len msg) \<le> length (md_bytes data)" using d by (auto simp: send_msg_ok_def)
  note L = linkedD [OF l]
  from send_message_data_ok [OF w s L(4) len, of os] m s d L show ?thesis
    by (auto simp: t2u_message_handle_retrans_request_def deref_defs)
qed

end
