(* ===== verification/T2u_Session.thy ===== *)
theory T2u_Session
  imports T2u_Message
begin

text \<open>
  The sessions of src/t2u_session.c: establishing one on either side, reading TCP data into
  the send queue, delivering received data in order, and finding the session of a message.
\<close>

section \<open>Establishing a session\<close>

definition session_connect_response :: "os \<Rightarrow> addr \<Rightarrow> world \<Rightarrow> world option" where
  "session_connect_response os session w = do {
     sess \<leftarrow> w_sessions w session;
     rule \<leftarrow> the_rule w (s_rule sess);
     let w = put_session session (sess\<lparr>s_send_seq := 0\<rparr>) w;
     let error = (if s_status sess = 2 then 0 else 1);
     let mdata = new_mdata (os_arch os) connect_response (s_handle sess) 0 (put_u32 error);
     t2u_send_message_data os (r_context rule) (md_bytes mdata) (sizeof_md + 4) (Some session) w }"

definition session_connect :: "os \<Rightarrow> addr \<Rightarrow> world \<Rightarrow> world option" where
  "session_connect os session w = do {
     sess \<leftarrow> w_sessions w session;
     rule \<leftarrow> the_rule w (s_rule sess);
     let service = cbytes (r_service rule);
     if r_mode rule = forward_client_mode then do {
       let w = put_session session (sess\<lparr>s_send_seq := 0\<rparr>) w;
       let mdata = new_mdata (os_arch os) connect_request (s_handle sess) 0 (service @ [0]);
       t2u_send_message_data os (r_context rule) (md_bytes mdata)
         (sizeof_md + length service + 1) (Some session) w }
     else do {
       let (ret, err) = os_connect os (w_calls w) (s_sock sess) (r_conn_addr rule);
       let w = tick w;
       if ret = - 1 \<and> err \<noteq> EINPROGRESS
       then t2u_delete_connecting_session session w
       else Some w } }"

text \<open>
  \<open>t2u_add_connecting_session\<close>; \<open>w_handle_seq\<close> is the static counter. The session's address is
  returned even when \<open>session_connect_\<close> has deleted it.
\<close>

definition next_handle_seq :: "u32 \<Rightarrow> u32" where
  "next_handle_seq n = (if n + 1 = 0 then 1 else n + 1)"

definition session_handle :: "u64 \<Rightarrow> u32 \<Rightarrow> u64" where
  "session_handle handle seq =
     (if handle = 0 then ucast seq else handle + push_bit 32 (ucast seq))"

definition new_session :: "addr \<Rightarrow> int \<Rightarrow> u64 \<Rightarrow> t2u_event \<Rightarrow> t2u_session" where
  "new_session rule sock handle ev =
     \<lparr>s_rule = Some rule, s_sock = sock, s_handle = handle, s_status = 1,
      s_send_buffer_count = 0, s_send_seq = 0, s_send_mess = rbtree_init (Some compare_uint32_ptr),
      s_recv_buffer_count = 0, s_recv_seq = 0, s_recv_mess = rbtree_init (Some compare_uint32_ptr),
      s_connect_retries = 0, s_ev = Some ev, s_retry_seq = 0, s_last_send_ts = 0\<rparr>"

definition t2u_add_connecting_session ::
  "os \<Rightarrow> addr \<Rightarrow> int \<Rightarrow> u64 \<Rightarrow> world \<Rightarrow> (addr \<times> world) option" where
  "t2u_add_connecting_session os r sock handle w = do {
     rule \<leftarrow> w_rules w r;
     context \<leftarrow> the_context w (r_context rule);
     let (session, w) = malloc w;
     let seq = next_handle_seq (w_handle_seq w);
     let w = w\<lparr>w_handle_seq := seq\<rparr>;
     let handle = session_handle handle seq;
     _ \<leftarrow> the_runner w (c_runner context);
     let timer = evtimer Cb_connect_timeout;
     let ev = t2u_event_new
           \<lparr>te_runner := c_runner context, te_context := r_context rule, te_rule := Some r,
            te_session := Some session, te_event := Some timer\<rparr>;
     let w = event_add timer (Some (timeval_ms (c_utimeout context))) w;
     let (ev, w) = (if r_mode rule = forward_server_mode
           then let extra = ev_write Cb_connect_success sock
                in (ev\<lparr>te_extra_event := Some extra\<rparr>, event_add extra None w)
           else (ev, w));
     let w = put_session session (new_session r sock handle ev) w;
     (_, tree) \<leftarrow> rbtree_insert True (r_connecting_sessions rule) handle session;
     let w = put_rule r (rule\<lparr>r_connecting_sessions := tree\<rparr>) w;
     w \<leftarrow> session_connect os session w;
     Some (session, w) }"

text \<open>
  The callback of the connection timer. In the callbacks below \<open>owner\<close> is the session whose
  event is the argument of the C function.
\<close>

definition session_connect_timeout_cb :: "os \<Rightarrow> addr \<Rightarrow> world \<Rightarrow> world option" where
  "session_connect_timeout_cb os owner w = do {
     own \<leftarrow> w_sessions w owner;
     ev \<leftarrow> s_ev own;
     session \<leftarrow> te_session ev;
     sess \<leftarrow> w_sessions w session;
     context \<leftarrow> the_context w (te_context ev);
     let sess = sess\<lparr>s_connect_retries := s_connect_retries sess + 1\<rparr>;
     let w = put_session session sess w;
     if s_connect_retries sess \<ge> c_uretries context
     then t2u_delete_connecting_session session w
     else do {
       sev \<leftarrow> s_ev sess;
       timer \<leftarrow> te_event sev;
       let w = event_add timer (Some (timeval_ms (c_utimeout context))) w;
       rule \<leftarrow> the_rule w (te_rule ev);
       if r_mode rule = forward_client_mode then session_connect os session w else Some w } }"

text \<open>
  The move from \<open>connecting_sessions_\<close> to \<open>sessions_\<close>, with the handle the session is to have,
  and the events of an established session: they belong to the event structure of \<open>owner\<close>.
\<close>

definition move_to_connected :: "addr \<Rightarrow> addr \<Rightarrow> u64 \<Rightarrow> world \<Rightarrow> world option" where
  "move_to_connected r session handle w = do {
     rule \<leftarrow> w_rules w r;
     sess \<leftarrow> w_sessions w session;
     (_, tree1) \<leftarrow> rbtree_remove (r_connecting_sessions rule) (s_handle sess);
     let w = put_session session (sess\<lparr>s_handle := handle\<rparr>) w;
     (_, tree2) \<leftarrow> rbtree_insert True (r_sessions rule) handle session;
     Some (put_rule r (rule\<lparr>r_connecting_sessions := tree1, r_sessions := tree2\<rparr>) w) }"

definition bind_connected_events :: "addr \<Rightarrow> int \<Rightarrow> nat \<Rightarrow> world \<Rightarrow> world option" where
  "bind_connected_events owner sock session_timeout w = do {
     own \<leftarrow> w_sessions w owner;
     ev \<leftarrow> s_ev own;
     let rd = ev_read Cb_process_tcp sock;
     let w = event_add rd None w;
     let timer = evtimer Cb_timeout_check;
     let w = event_add timer (Some (session_timeout, 0)) w;
     Some (put_session owner
       (own\<lparr>s_ev := Some (ev\<lparr>te_event := Some rd, te_extra_event := Some timer\<rparr>)\<rparr>) w) }"

definition session_connect_success_cb :: "os \<Rightarrow> int \<Rightarrow> addr \<Rightarrow> world \<Rightarrow> world option" where
  "session_connect_success_cb os sock owner w = do {
     own \<leftarrow> w_sessions w owner;
     ev \<leftarrow> s_ev own;
     context \<leftarrow> the_context w (te_context ev);
     session \<leftarrow> te_session ev;
     let error = os_sock_error os (w_calls w) sock;
     let w = tick w;
     if error = 0 then do {
       sess \<leftarrow> w_sessions w session;
       let w = put_session session (sess\<lparr>s_status := 2\<rparr>) w;
       event \<leftarrow> te_event ev;
       extra \<leftarrow> te_extra_event ev;
       let w = event_free extra (event_free event w);
       own \<leftarrow> w_sessions w owner;
       let w = put_session owner
             (own\<lparr>s_ev := Some (ev\<lparr>te_event := None, te_extra_event := None\<rparr>)\<rparr>) w;
       w \<leftarrow> session_connect_response os session w;
       rule \<leftarrow> te_rule ev;
       w \<leftarrow> move_to_connected rule session (s_handle sess) w;
       _ \<leftarrow> the_runner w (te_runner ev);
       bind_connected_events owner (s_sock sess) (c_session_timeout context) w }
     else t2u_delete_connecting_session session w }"

definition t2u_session_handle_connect_response ::
  "os \<Rightarrow> addr \<Rightarrow> t2u_message_data \<Rightarrow> world \<Rightarrow> world option" where
  "t2u_session_handle_connect_response os session mdata w = do {
     sess \<leftarrow> w_sessions w session;
     r \<leftarrow> s_rule sess;
     rule \<leftarrow> w_rules w r;
     context \<leftarrow> the_context w (r_context rule);
     _ \<leftarrow> assert_that (4 \<le> length (md_payload mdata));
     let error = get_u32 (md_payload mdata);
     if error = 0 then do {
       ev \<leftarrow> s_ev sess;
       event \<leftarrow> te_event ev;
       let w = event_free event w;
       let w = put_session session
             (sess\<lparr>s_status := 2, s_ev := Some (ev\<lparr>te_event := None\<rparr>)\<rparr>) w;
       w \<leftarrow> move_to_connected r session (md_handle mdata) w;
       _ \<leftarrow> the_runner w (c_runner context);
       bind_connected_events session (s_sock sess) (c_session_timeout context) w }
     else t2u_delete_connecting_session session w }"

section \<open>An established session\<close>

definition session_timeout_check_cb :: "os \<Rightarrow> addr \<Rightarrow> world \<Rightarrow> world option" where
  "session_timeout_check_cb os owner w = do {
     own \<leftarrow> w_sessions w owner;
     ev \<leftarrow> s_ev own;
     session \<leftarrow> te_session ev;
     let c = os_time os (w_calls w);
     let w = tick w;
     sess \<leftarrow> w_sessions w session;
     context \<leftarrow> the_context w (te_context ev);
     let timeout = int (c_session_timeout context);
     if c > s_last_send_ts sess \<and> c - s_last_send_ts sess > timeout
     then t2u_delete_connected_session os session 0 w
     else do {
       let s = timeout - (c - s_last_send_ts sess);
       let s = (if s \<le> 0 then 1 else s);
       sev \<leftarrow> s_ev sess;
       extra \<leftarrow> te_extra_event sev;
       Some (event_add extra (Some (nat s, 0)) w) } }"

definition t2u_session_process_tcp :: "os \<Rightarrow> int \<Rightarrow> addr \<Rightarrow> world \<Rightarrow> world option" where
  "t2u_session_process_tcp os sock owner w = do {
     own \<leftarrow> w_sessions w owner;
     ev \<leftarrow> s_ev own;
     context \<leftarrow> the_context w (te_context ev);
     session \<leftarrow> te_session ev;
     sess \<leftarrow> w_sessions w session;
     if unat (s_send_buffer_count sess) \<ge> c_udp_slide_window context then do {
       event \<leftarrow> te_event ev;
       Some (put_session owner (own\<lparr>s_ev := Some (ev\<lparr>te_event := None\<rparr>)\<rparr>) (event_free event w)) }
     else do {
       let (read_bytes, last_error, bytes) = os_recv os (w_calls w) sock T2U_PAYLOAD_MAX;
       let buff = recv_buffer os (w_calls w) T2U_PAYLOAD_MAX bytes;
       let w = tick w;
       if read_bytes > 0 then do {
         (_, w) \<leftarrow> t2u_add_request_message os session buff (nat read_bytes) w;
         Some w }
       else if (read_bytes = 0 \<and> last_error \<noteq> EINPROGRESS) \<or>
           (read_bytes < 0 \<and> last_error \<noteq> EINTR \<and> last_error \<noteq> EWOULDBLOCK \<and> last_error \<noteq> EAGAIN)
       then t2u_delete_connected_session os session 0 w
       else if read_bytes = 0 \<and> last_error = EINPROGRESS
       then t2u_delete_connected_session os session 0 w
       else Some w } }"

section \<open>Delivering received data\<close>

text \<open>
  One round of the loop of \<open>t2u_session_handle_data_request\<close>: a packet is written to the TCP
  socket and answered with the number of bytes written, or \<open>- 1\<close>. The result says whether the
  write failed, and whether it was complete. \<open>resp_seq\<close> is the number in the response.
\<close>

definition write_failed :: "int \<Rightarrow> int \<Rightarrow> bool" where
  "write_failed r last_error \<longleftrightarrow>
     r = 0 \<or> (r < 0 \<and> last_error \<noteq> EWOULDBLOCK \<and> last_error \<noteq> EAGAIN)"

definition deliver_packet ::
  "os \<Rightarrow> addr \<Rightarrow> ptr \<Rightarrow> u64 \<Rightarrow> t2u_message_data \<Rightarrow> nat \<Rightarrow> u32 \<Rightarrow> world \<Rightarrow> (bool \<times> bool \<times> world) option" where
  "deliver_packet os session context handle mdata mdata_len resp_seq w = do {
     let len = mdata_len - sizeof_md;
     _ \<leftarrow> assert_that (sizeof_md \<le> mdata_len \<and> len \<le> length (md_payload mdata));
     sess \<leftarrow> w_sessions w session;
     let bytes = take len (md_payload mdata);
     let (r, last_error) = os_send os (w_calls w) (s_sock sess) bytes;
     let w = emit (TcpSend (s_sock sess) bytes r) (tick w);
     let failed = write_failed r last_error;
     let value = (if failed then - 1 else r);
     let resp = new_mdata (os_arch os) data_response handle resp_seq (put_u32 (word_of_int value));
     w \<leftarrow> t2u_send_message_data os context (md_bytes resp) (sizeof_md + 4) (Some session) w;
     Some (failed, r = int len, w) }"

text \<open>The packet with number \<open>next_seq\<close> is taken out of the receive queue, with its length.\<close>

definition take_next_packet ::
  "addr \<Rightarrow> u32 \<Rightarrow> world \<Rightarrow> ((t2u_message_data \<times> nat) option \<times> world) option" where
  "take_next_packet session next_seq w = do {
     sess \<leftarrow> w_sessions w session;
     this_m \<leftarrow> rbtree_lookup (s_recv_mess sess) next_seq;
     case this_m of
       None \<Rightarrow> Some (None, w)
     | Some m \<Rightarrow> do {
         msg \<leftarrow> w_messages w m;
         data \<leftarrow> m_data msg;
         (_, tree) \<leftarrow> rbtree_remove (s_recv_mess sess) (md_seq data);
         let w = free_message m w;
         let w = put_session session
               (sess\<lparr>s_recv_mess := tree, s_recv_buffer_count := s_recv_buffer_count sess - 1\<rparr>) w;
         Some (Some (data, unat (m_len msg)), w) } }"

text \<open>
  The loop. A \<open>session\<close> that \<open>t2u_try_delete_connected_session\<close> has freed is dereferenced by the
  next round, which the model shows as \<open>None\<close>.
\<close>

partial_function (option) deliver_loop ::
  "os \<Rightarrow> addr \<Rightarrow> ptr \<Rightarrow> u64 \<Rightarrow> t2u_message_data \<Rightarrow> nat \<Rightarrow> u32 \<Rightarrow> world \<Rightarrow> world option" where
  "deliver_loop os session context handle this_mdata mdata_len resp_seq w = do {
     (failed, full, w) \<leftarrow> deliver_packet os session context handle this_mdata mdata_len resp_seq w;
     if failed then t2u_delete_connected_session_later os session w
     else if \<not> full then Some w
     else do {
       sess \<leftarrow> w_sessions w session;
       let w = put_session session (sess\<lparr>s_recv_seq := s_recv_seq sess + 1\<rparr>) w;
       (next_packet, w) \<leftarrow> take_next_packet session (md_seq this_mdata + 1) w;
       case next_packet of
         None \<Rightarrow> Some w
       | Some (data, len) \<Rightarrow> do {
           w \<leftarrow> t2u_try_delete_connected_session os session w;
           deliver_loop os session context handle data len (md_seq data) w } } }"

declare deliver_loop.simps [code]

text \<open>
  The loop over the window that asks for missing packets. The C counter is 32 bits wide and
  the window at most 64.
\<close>

definition retrans_step ::
  "os \<Rightarrow> addr \<Rightarrow> ptr \<Rightarrow> nat \<Rightarrow> u32 \<Rightarrow> u32 \<Rightarrow> world \<Rightarrow> world option" where
  "retrans_step os session context window seq i w = do {
     sess \<leftarrow> w_sessions w session;
     let test_seq = s_recv_seq sess + 1 + i;
     found \<leftarrow> rbtree_lookup (s_recv_mess sess) test_seq;
     if found = NULL then do {
       let span1 = seq - test_seq;
       let span2 = s_retry_seq sess - test_seq;
       if unat span1 \<le> window \<and> unat span2 > window then do {
         let md = new_mdata (os_arch os) retrans_request (s_handle sess) test_seq [];
         w \<leftarrow> t2u_send_message_data os context (md_bytes md) sizeof_md (Some session) w;
         sess \<leftarrow> w_sessions w session;
         Some (put_session session (sess\<lparr>s_retry_seq := test_seq\<rparr>) w) }
       else Some w }
     else Some w }"

primrec retrans_loop ::
  "os \<Rightarrow> addr \<Rightarrow> ptr \<Rightarrow> nat \<Rightarrow> u32 \<Rightarrow> u32 list \<Rightarrow> world \<Rightarrow> world option" where
  "retrans_loop os session context window seq [] w = Some w"
| "retrans_loop os session context window seq (i # js) w = do {
     w \<leftarrow> retrans_step os session context window seq i w;
     retrans_loop os session context window seq js w }"

text \<open>Storing a packet that is in the window but not the next one.\<close>

definition queue_received ::
  "addr \<Rightarrow> nat \<Rightarrow> t2u_message_data \<Rightarrow> nat \<Rightarrow> world \<Rightarrow> world option" where
  "queue_received session window mdata mdata_len w = do {
     sess \<leftarrow> w_sessions w session;
     this_m \<leftarrow> rbtree_lookup (s_recv_mess sess) (md_seq mdata);
     if this_m = NULL \<and> unat (s_recv_buffer_count sess) < window then do {
       let len = mdata_len - sizeof_md;
       _ \<leftarrow> assert_that (sizeof_md \<le> mdata_len \<and> len \<le> length (md_payload mdata));
       let (m, w) = malloc w;
       let data = mdata\<lparr>md_payload := take len (md_payload mdata)\<rparr>;
       let w = put_message m
             \<lparr>m_session = NULL, m_data = Some data, m_len = of_nat mdata_len, m_seq = 0,
              m_send_retries = 0, m_ev_timeout = None\<rparr> w;
       (_, tree) \<leftarrow> rbtree_insert True (s_recv_mess sess) (md_seq data) m;
       Some (put_session session
         (sess\<lparr>s_recv_mess := tree, s_recv_buffer_count := s_recv_buffer_count sess + 1\<rparr>) w) }
     else Some w }"

definition t2u_session_handle_data_request ::
  "os \<Rightarrow> addr \<Rightarrow> t2u_message_data \<Rightarrow> nat \<Rightarrow> world \<Rightarrow> world option" where
  "t2u_session_handle_data_request os session mdata mdata_len w = do {
     sess \<leftarrow> w_sessions w session;
     rule \<leftarrow> the_rule w (s_rule sess);
     context \<leftarrow> the_context w (r_context rule);
     let window = c_udp_slide_window context;
     let seq_diff = md_seq mdata - s_recv_seq sess;
     if unat seq_diff > window \<or> seq_diff \<le> 1 then do {
       if seq_diff = 1
       then deliver_loop os session (r_context rule) (s_handle sess) mdata mdata_len (md_seq mdata) w
       else do {
         let resp = new_mdata (os_arch os) data_response (s_handle sess) (md_seq mdata) (put_u32 0);
         t2u_send_message_data os (r_context rule) (md_bytes resp) (sizeof_md + 4) (Some session) w } }
     else do {
       w \<leftarrow> queue_received session window mdata mdata_len w;
       retrans_loop os session (r_context rule) window (md_seq mdata) (map of_nat [0..<window]) w } }"

section \<open>Finding a session\<close>

definition find_session_in_rule :: "t2u_rule \<Rightarrow> u64 \<Rightarrow> bool \<Rightarrow> ptr option" where
  "find_session_in_rule rule handle connected =
     (if connected then rbtree_lookup (r_sessions rule) handle
      else rbtree_lookup (r_connecting_sessions rule) handle)"

partial_function (option) find_session_in_context_walk ::
  "world \<Rightarrow> (cstr, addr) rbtree \<Rightarrow> ptr \<Rightarrow> u64 \<Rightarrow> bool \<Rightarrow> ptr option" where
  "find_session_in_context_walk w t node handle connected =
     (if node = NULL then Some NULL
      else do {
        n \<leftarrow> deref t node;
        session \<leftarrow> find_session_in_context_walk w t (rb_left n) handle connected;
        if session \<noteq> NULL then Some session
        else do {
          rule \<leftarrow> w_rules w (rb_data n);
          session \<leftarrow> find_session_in_rule rule handle connected;
          if session \<noteq> NULL then Some session
          else find_session_in_context_walk w t (rb_right n) handle connected } })"

declare find_session_in_context_walk.simps [code]

definition find_session_in_context :: "world \<Rightarrow> t2u_context \<Rightarrow> u64 \<Rightarrow> bool \<Rightarrow> ptr option" where
  "find_session_in_context w context handle connected =
     find_session_in_context_walk w (c_rules context) (rb_root (c_rules context)) handle connected"

end
