(* ===== verification/T2u_Traffic.thy ===== *)
theory T2u_Traffic
  imports T2u_Session
begin

text \<open>
  What the handlers of an established session do: TCP data goes into the bounded send queue,
  packets from the peer are delivered in order, packets out of order are kept and the missing
  ones asked for.
\<close>

section \<open>From TCP into the send queue\<close>

lemma fresh_none:
  assumes "world_ok w" "w_fresh w \<le> a"
  shows "w_sessions w a = None" "w_messages w a = None" "w_rules w a = None" "w_contexts w a = None"
    "w_runners w a = None"
  using world_okD(6) [OF assms(1)] assms(2) by (auto simp: fresh_ok_def)

lemma add_request_message_ok:
  fixes os sess payload len
  defines "data \<equiv> new_mdata (os_arch os) data_request (s_handle sess) (s_send_seq sess + 1) (take len payload)"
  assumes w: "world_ok w" and s: "w_sessions w s = Some sess" "s_status sess \<noteq> 1"
    and l: "linked w sess r rule c ctx n" and new: "send_map sess (s_send_seq sess + 1) = None"
    and len: "len \<le> length payload" "len \<le> T2U_PAYLOAD_MAX"
    and b: "unat (s_send_buffer_count sess) + 1 < 2 ^ 32"
  shows "\<exists>w' sess' msg. t2u_add_request_message os s payload len w = Some (w_fresh w, w') \<and> world_ok w' \<and>
    w_sessions w' = (w_sessions w)(s \<mapsto> sess') \<and>
    send_map sess' = (send_map sess)(s_send_seq sess + 1 \<mapsto> w_fresh w) \<and>
    s_send_seq sess' = s_send_seq sess + 1 \<and> s_send_buffer_count sess' = s_send_buffer_count sess + 1 \<and>
    s_status sess' = s_status sess \<and> recv_map sess' = recv_map sess \<and> s_recv_seq sess' = s_recv_seq sess \<and>
    w_messages w' = (w_messages w)(w_fresh w \<mapsto> msg) \<and> m_seq msg = s_send_seq sess + 1 \<and>
    m_data msg = Some data \<and> valid_length msg = int len \<and> m_send_retries msg = 0 \<and>
    w_out w' = w_out w @
      [EventAdd (evtimer Cb_request_timeout) (Some (timeval_ms (c_utimeout ctx))),
       UdpSend (c_sock ctx) (md_bytes data)]"
proof -
  let ?seq = "s_send_seq sess + 1" and ?m = "w_fresh w"
  from world_okD(1) [OF w s(1)] l have q: "queues_ok (r, c, n) (w_messages w) s sess" and
    st: "s_status sess \<in> {2, 3}" and ev: "session_events (r_mode rule) r c n s sess" and
    reg: "registry rule (s_status sess) (s_handle sess) = Some s"
    using s(2) by (auto simp: session_ok_def linked_def)
  note q1 = queues_okD(1) [OF q] and q2 = queues_okD(2) [OF q]
  let ?msg = "\<lparr>m_session = Some s, m_data = Some data, m_len = of_nat (sizeof_md + len), m_seq = ?seq,
    m_send_retries = 0, m_ev_timeout = Some (request_timer ?m s (Some r) (Some c) (Some n))\<rparr>"
  from add_request_message_exec [OF s(1) l send_queue_okD(1) [OF q1] new len, of os, folded data_def]
  obtain t where t: "rb_ok t" "rb_map t = (send_map sess)(?seq \<mapsto> ?m)" and
    e: "t2u_add_request_message os s payload len w = Some (?m,
      w\<lparr>w_messages := (w_messages w)(?m \<mapsto> ?msg),
        w_sessions := (w_sessions w)(s \<mapsto> sess\<lparr>s_send_seq := ?seq, s_send_mess := t,
            s_send_buffer_count := s_send_buffer_count sess + 1,
            s_last_send_ts := os_time os (w_calls w)\<rparr>),
        w_fresh := Suc (w_fresh w), w_calls := Suc (w_calls w),
        w_out := w_out w @
          [EventAdd (evtimer Cb_request_timeout) (Some (timeval_ms (c_utimeout ctx))),
           UdpSend (c_sock ctx) (md_bytes data)]\<rparr>)" (is "_ = Some (_, ?w)") by blast
  let ?sess = "sess\<lparr>s_send_seq := ?seq, s_send_mess := t,
    s_send_buffer_count := s_send_buffer_count sess + 1, s_last_send_ts := os_time os (w_calls w)\<rparr>"
  have mlen: "unat (of_nat (sizeof_md + len) :: u64) = sizeof_md + len"
    by (rule unat_of_nat_small) (use len(2) in \<open>simp add: sizeof_md_def T2U_PAYLOAD_MAX_def\<close>)
  have "length (md_payload data) = len" using len(1) by (simp add: data_def)
  with mlen len(2) have mok: "send_msg_ok (r, c, n) s ?seq ?m ?msg"
    by (simp add: send_msg_ok_def message_event_def request_timer_def t2u_event_new_def)
  note fr = fresh_none [OF w]
  have mo: "messages_of ?sess = insert ?m (messages_of sess)"
    using new by (auto simp: messages_of_def t(2))
  have "world_ok ?w"
  proof (rule world_ok_session_step [OF w s(1), of ?sess])
    show "session_step s sess ?sess w ?w"
      using owned_live(2) [OF w s(1)] fr(2)
      by (simp add: session_step_def mo) (metis insert_iff less_Suc_eq less_SucI)
    have "send_queue_ok (r, c, n) (w_messages ?w) s ?sess"
      using send_queue_ok_add [OF q1 new _ mok t b, of ?sess] fr(2) [of ?m] by simp
    moreover have "recv_queue_ok (w_messages ?w) sess"
    proof (rule recv_queue_ok_cong [OF q2])
      fix m assume "m \<in> ran (recv_map sess)"
      then have "m < w_fresh w" using owned_live(2) [OF w s(1)] by (auto simp: messages_of_def)
      then show "w_messages ?w m = w_messages w m" by simp
    qed
    then have "recv_queue_ok (w_messages ?w) ?sess" by (simp add: recv_queue_ok_def)
    moreover have "linked ?w ?sess r rule c ctx n" using l by (simp add: linked_def)
    moreover have "session_events (r_mode rule) r c n s ?sess"
      using ev session_events_cong [of ?sess sess] by simp
    ultimately show "session_ok ?w s ?sess"
      using st reg by (intro session_okI [of _ _ r rule c ctx n]) (auto simp: queues_ok_def)
  qed
  moreover have "valid_length ?msg = int len" 
    using valid_length_ok [OF mok] unfolding t2u_message.select_convs mlen by simp
  ultimately show ?thesis using e t(2) by (intro exI [of _ ?w] exI [of _ ?sess] exI [of _ ?msg]) simp
qed

lemma session_eventsE:
  assumes "session_events mode r c n s sess"
  obtains ev where "s_ev sess = Some ev" "te_rule ev = Some r" "te_context ev = Some c"
    "te_runner ev = Some n" "te_session ev = Some s"
    "s_status sess = 1 \<Longrightarrow> te_event ev = Some (evtimer Cb_connect_timeout)"
    "s_status sess = 1 \<Longrightarrow> te_extra_event ev =
       (if mode = forward_server_mode then Some (ev_write Cb_connect_success (s_sock sess)) else None)"
    "s_status sess \<noteq> 1 \<Longrightarrow> te_event ev \<in> {None, Some (ev_read Cb_process_tcp (s_sock sess))}"
    "s_status sess \<noteq> 1 \<Longrightarrow> te_extra_event ev = Some (evtimer Cb_timeout_check)"
  using assms unfolding session_events_def by (metis (full_types))

lemma established:
  assumes w: "world_ok w" and s: "w_sessions w s = Some sess" "s_status sess \<noteq> 1"
    and l: "linked w sess r rule c ctx n"
  obtains ev where "s_ev sess = Some ev" "te_rule ev = Some r" "te_context ev = Some c"
    "te_runner ev = Some n" "te_session ev = Some s"
    "te_event ev \<in> {None, Some (ev_read Cb_process_tcp (s_sock sess))}"
    "te_extra_event ev = Some (evtimer Cb_timeout_check)"
    "queues_ok (r, c, n) (w_messages w) s sess" "s_status sess \<in> {2, 3}"
proof -
  from world_okD(1) [OF w s(1)] l s(2) have "queues_ok (r, c, n) (w_messages w) s sess" "s_status sess \<in> {2, 3}"
    and ev: "session_events (r_mode rule) r c n s sess" by (auto simp: session_ok_def linked_def)
  with that s(2) show ?thesis by (auto elim!: session_eventsE)
qed

text \<open>A full window: reading is disabled, and nothing is read.\<close>

lemma process_tcp_full:
  assumes w: "world_ok w" and s: "w_sessions w s = Some sess" "s_status sess \<noteq> 1" "s_ev sess = Some ev"
    and l: "linked w sess r rule c ctx n" and armed: "te_event ev = Some event"
    and full: "c_udp_slide_window ctx \<le> unat (s_send_buffer_count sess)"
  shows "\<exists>w'. t2u_session_process_tcp os sock s w = Some w' \<and> world_ok w' \<and>
    w' = w\<lparr>w_sessions := (w_sessions w)(s \<mapsto> sess\<lparr>s_ev := Some (ev\<lparr>te_event := None\<rparr>)\<rparr>),
      w_out := w_out w @ [EventFree event]\<rparr>"
proof -
  note L = linkedD [OF l]
  from established [OF w s(1,2) l] s(3) have ev: "te_context ev = Some c" "te_session ev = Some s"
    and st: "s_status sess \<in> {2, 3}" by auto
  let ?sess = "sess\<lparr>s_ev := Some (ev\<lparr>te_event := None\<rparr>)\<rparr>"
  let ?w = "w\<lparr>w_sessions := (w_sessions w)(s \<mapsto> ?sess), w_out := w_out w @ [EventFree event]\<rparr>"
  have "world_ok ?w"
    by (rule world_ok_session_fields [OF w s(1), of ?sess])
      (use s st in \<open>auto simp: session_events_def\<close>)
  moreover have "t2u_session_process_tcp os sock s w = Some ?w"
    using s(1,3) ev L(4) armed full by (simp add: t2u_session_process_tcp_def the_context_def world_defs)
  ultimately show ?thesis by simp
qed

text \<open>Data was read: it is the payload of the next message.\<close>

lemma recv_buffer_ok:
  assumes "os_ok os" "os_recv os call sock cap = (n, err, bytes)"
  shows "length (recv_buffer os call cap bytes) = cap" "0 < n \<Longrightarrow> take (nat n) (recv_buffer os call cap bytes) = bytes"
    "0 < n \<Longrightarrow> nat n \<le> cap"
proof -
  from assms have n: "n \<le> int cap" "int (length bytes) = max 0 n"
    and j: "length (os_junk os call cap) = cap" by (auto simp: os_ok_def split: prod.splits)
  from n have "length bytes \<le> cap" by linarith
  with j show "length (recv_buffer os call cap bytes) = cap" by (simp add: recv_buffer_def)
  assume "0 < n"
  with n have "nat n = length bytes" "nat n \<le> cap" by linarith+
  then show "take (nat n) (recv_buffer os call cap bytes) = bytes" "nat n \<le> cap" by (simp_all add: recv_buffer_def)
qed

lemma process_tcp_data_spec:
  assumes w: "world_ok w" "os_ok os" and s: "w_sessions w s = Some sess" "s_status sess \<noteq> 1"
    and l: "linked w sess r rule c ctx n"
    and free: "unat (s_send_buffer_count sess) < c_udp_slide_window ctx"
    and new: "send_map sess (s_send_seq sess + 1) = None"
    and recv: "os_recv os (w_calls w) sock T2U_PAYLOAD_MAX = (rd, err, bytes)" "0 < rd"
  shows "\<exists>w' sess' msg. t2u_session_process_tcp os sock s w = Some w' \<and> world_ok w' \<and>
    w_sessions w' = (w_sessions w)(s \<mapsto> sess') \<and>
    send_map sess' = (send_map sess)(s_send_seq sess + 1 \<mapsto> w_fresh w) \<and>
    s_send_seq sess' = s_send_seq sess + 1 \<and> s_send_buffer_count sess' = s_send_buffer_count sess + 1 \<and>
    s_recv_seq sess' = s_recv_seq sess \<and> s_status sess' = s_status sess \<and> m_seq msg = s_send_seq sess + 1 \<and>
    m_send_retries msg = 0 \<and> w_messages w' = (w_messages w)(w_fresh w \<mapsto> msg) \<and> valid_length msg = int (length bytes) \<and>
    m_data msg = Some (new_mdata (os_arch os) data_request (s_handle sess) (s_send_seq sess + 1) bytes) \<and>
    w_out w' = w_out w @
      [EventAdd (evtimer Cb_request_timeout) (Some (timeval_ms (c_utimeout ctx))),
       UdpSend (c_sock ctx)
         (md_bytes (new_mdata (os_arch os) data_request (s_handle sess) (s_send_seq sess + 1) bytes))]"
proof -
  note L = linkedD [OF l]
  obtain ev where ev: "s_ev sess = Some ev" "te_context ev = Some c" "te_session ev = Some s"
    by (rule established [OF w(1) s l])
  let ?buff = "recv_buffer os (w_calls w) T2U_PAYLOAD_MAX bytes" and ?w = "w\<lparr>w_calls := Suc (w_calls w)\<rparr>"
  note R = recv_buffer_ok [OF w(2) recv(1)]
  have lb: "nat rd = length bytes"
    using R(2,3) [OF recv(2)] R(1) by (metis length_take min.absorb2)
  have "c_udp_slide_window ctx \<le> 64" using world_okD(3) [OF w(1) L(4)] by (simp add: context_ok_def)
  then have b: "unat (s_send_buffer_count sess) + 1 < 2 ^ 32" using free by simp
  have "world_ok ?w" "linked ?w sess r rule c ctx n" using w(1) l by simp_all
  moreover have "w_sessions ?w s = Some sess" using s(1) by simp
  ultimately have "\<exists>w' sess' msg. t2u_add_request_message os s ?buff (nat rd) ?w = Some (w_fresh ?w, w') \<and>
    world_ok w' \<and> w_sessions w' = (w_sessions ?w)(s \<mapsto> sess') \<and>
    send_map sess' = (send_map sess)(s_send_seq sess + 1 \<mapsto> w_fresh ?w) \<and>
    s_send_seq sess' = s_send_seq sess + 1 \<and> s_send_buffer_count sess' = s_send_buffer_count sess + 1 \<and>
    s_recv_seq sess' = s_recv_seq sess \<and> s_status sess' = s_status sess \<and> m_seq msg = s_send_seq sess + 1 \<and>
    m_send_retries msg = 0 \<and> w_messages w' = (w_messages ?w)(w_fresh ?w \<mapsto> msg) \<and> valid_length msg = int (nat rd) \<and>
    m_data msg = Some (new_mdata (os_arch os) data_request (s_handle sess) (s_send_seq sess + 1)
      (take (nat rd) ?buff)) \<and>
    w_out w' = w_out ?w @
      [EventAdd (evtimer Cb_request_timeout) (Some (timeval_ms (c_utimeout ctx))),
       UdpSend (c_sock ctx) (md_bytes (new_mdata (os_arch os) data_request (s_handle sess)
         (s_send_seq sess + 1) (take (nat rd) ?buff)))]"
    using add_request_message_ok [where len = "nat rd" and payload = ?buff and os = os and w = ?w and s = s
      and sess = sess, OF _ _ s(2) _ new] R recv(2) b by fastforce
  then
  obtain w' sess' msg where e: "t2u_add_request_message os s ?buff (nat rd) ?w = Some (w_fresh w, w')"
    "world_ok w'" "w_sessions w' = (w_sessions w)(s \<mapsto> sess')"
    "send_map sess' = (send_map sess)(s_send_seq sess + 1 \<mapsto> w_fresh w)"
    "s_send_seq sess' = s_send_seq sess + 1" "s_send_buffer_count sess' = s_send_buffer_count sess + 1"
    "s_recv_seq sess' = s_recv_seq sess" "s_status sess' = s_status sess" "m_seq msg = s_send_seq sess + 1"
    "m_send_retries msg = 0" "w_messages w' = (w_messages w)(w_fresh w \<mapsto> msg)" "valid_length msg = int (length bytes)"
    "m_data msg = Some (new_mdata (os_arch os) data_request (s_handle sess) (s_send_seq sess + 1) bytes)"
    "w_out w' = w_out w @
      [EventAdd (evtimer Cb_request_timeout) (Some (timeval_ms (c_utimeout ctx))),
       UdpSend (c_sock ctx)
         (md_bytes (new_mdata (os_arch os) data_request (s_handle sess) (s_send_seq sess + 1) bytes))]"
    using R(2) [OF recv(2)] by (auto simp: lb)
  have "t2u_session_process_tcp os sock s w = Some w'"
    using s(1) ev L(4) free recv e(1)
    by (simp add: t2u_session_process_tcp_def the_context_def world_defs)
  with e show ?thesis by blast
qed

text \<open>The peer of the TCP connection has gone, or there was nothing to read.\<close>

definition tcp_gone :: "int \<Rightarrow> int \<Rightarrow> bool" where
  "tcp_gone rd err \<longleftrightarrow> rd = 0 \<or> rd < 0 \<and> err \<noteq> EINTR \<and> err \<noteq> EWOULDBLOCK \<and> err \<noteq> EAGAIN"

lemma process_tcp_no_data_spec:
  assumes w: "world_ok w" and s: "w_sessions w s = Some sess" "s_status sess \<noteq> 1"
    and l: "linked w sess r rule c ctx n"
    and free: "unat (s_send_buffer_count sess) < c_udp_slide_window ctx"
    and recv: "os_recv os (w_calls w) sock T2U_PAYLOAD_MAX = (rd, err, bytes)" "rd \<le> 0"
  shows "\<exists>w'. t2u_session_process_tcp os sock s w = Some w' \<and> world_ok w' \<and>
    (if tcp_gone rd err
     then w_sessions w' = (w_sessions w)(s := None) \<and> w_messages w' = w_messages w |` (- messages_of sess) \<and>
       w_out w' = w_out w @ session_end_trace os ctx sess 0
     else w' = w\<lparr>w_calls := Suc (w_calls w)\<rparr>)"
proof -
  note L = linkedD [OF l]
  obtain ev where ev: "s_ev sess = Some ev" "te_context ev = Some c" "te_session ev = Some s"
    by (rule established [OF w s l])
  let ?w = "w\<lparr>w_calls := Suc (w_calls w)\<rparr>"
  have W: "world_ok ?w" "linked ?w sess r rule c ctx n" using w l by simp_all
  have e: "t2u_session_process_tcp os sock s w =
      (if tcp_gone rd err then t2u_delete_connected_session os s 0 ?w else Some ?w)"
    using s(1) ev L(4) free recv
    by (auto simp: t2u_session_process_tcp_def the_context_def world_defs tcp_gone_def Let_def)
  from delete_connected_session_ok [OF W(1) _ s(2) W(2), of s os 0] s(1) W(1) show ?thesis
    unfolding e by auto
qed

end
