(* ===== verification/T2u_Deliver.thy ===== *)
theory T2u_Deliver
  imports T2u_Traffic
begin

text \<open>
  The receiving side of a session: packets are handed to the TCP socket in the order of their
  sequence numbers, those that are early wait in the bounded receive queue, and only packets
  that are missing from the window are asked for again.
\<close>

section \<open>The receive queue under the invariant\<close>

lemma send_ran_recv_disjoint:
  assumes "queues_ok c msgs s sess" "recv_map sess k = Some m"
  shows "m \<notin> ran (send_map sess)"
  using queues_disjoint [OF queues_okD [OF assms(1)]] assms(2) by (auto simp: ran_def)

lemma recv_queue_ok_delete:
  assumes q: "recv_queue_ok msgs sess" and hit: "recv_map sess k = Some m"
    and t: "rb_ok t" "rb_map t = (recv_map sess)(k := None)"
    and s': "s_recv_mess sess' = t" "s_recv_buffer_count sess' = s_recv_buffer_count sess - 1"
  shows "recv_queue_ok (msgs(m := None)) sess'"
proof -
  note Q = recv_queue_okD [OF q]
  have "0 < card (dom (recv_map sess))"
    using hit rb.finite_content [OF Q(1)] by (auto simp: card_gt_0_iff)
  then have "unat (s_recv_buffer_count sess - 1) = card (dom (rb_map t))"
    using hit Q(2) card_dom_del [of "recv_map sess" k] unat_sub_1 [of "s_recv_buffer_count sess"]
    by (simp add: t(2))
  moreover have "m' \<noteq> m" if "recv_map sess k' = Some m'" "k' \<noteq> k" for k' m'
    using that hit recv_queue_inj [OF q] by metis
  ultimately show ?thesis using Q t s' unfolding recv_queue_ok_def by auto
qed

lemma recv_queue_ok_add:
  assumes q: "recv_queue_ok msgs sess" and new: "recv_map sess k = None"
    and m: "msgs m = None" "recv_msg_ok k msg"
    and t: "rb_ok t" "rb_map t = (recv_map sess)(k \<mapsto> m)"
    and b: "unat (s_recv_buffer_count sess) + 1 < 2 ^ 32"
    and s': "s_recv_mess sess' = t" "s_recv_buffer_count sess' = s_recv_buffer_count sess + 1"
  shows "recv_queue_ok (msgs(m \<mapsto> msg)) sess'"
proof -
  note Q = recv_queue_okD [OF q]
  have "unat (s_recv_buffer_count sess + 1) = card (dom (rb_map t))"
    using b Q(2) card_dom_upd [OF rb.finite_content [OF Q(1)] new] unat_add_1 [of "s_recv_buffer_count sess"]
    by (simp add: t(2))
  moreover have "m' \<noteq> m" if "recv_map sess k' = Some m'" for k' m'
    using that Q(3) m(1) by fastforce
  ultimately show ?thesis using Q m t s' unfolding recv_queue_ok_def by auto
qed

text \<open>Taking a message out of the receive queue, and putting one in.\<close>

lemma world_ok_recv_delete:
  assumes w: "world_ok w" and s: "w_sessions w s = Some sess" "s_status sess \<noteq> 1"
    and k: "recv_map sess k = Some m" and t: "rb_ok t" "rb_map t = (recv_map sess)(k := None)"
    and sess': "sess' = sess\<lparr>s_recv_seq := rs, s_last_send_ts := ts, s_recv_mess := t,
      s_recv_buffer_count := s_recv_buffer_count sess - 1\<rparr>"
    and w': "w_sessions w' = (w_sessions w)(s \<mapsto> sess')" "w_messages w' = (w_messages w)(m := None)"
      "w_rules w' = w_rules w" "w_contexts w' = w_contexts w" "w_runners w' = w_runners w"
      "w_fresh w' = w_fresh w"
  shows "world_ok w'"
proof (rule world_ok_session_step [OF w s(1), of sess'])
  from world_okD(1) [OF w s(1)] obtain r rule c ctx n where l: "linked w sess r rule c ctx n" and
    q: "queues_ok (r, c, n) (w_messages w) s sess" and st: "s_status sess \<in> {1, 2, 3}"
    "s_status sess = 1 \<longrightarrow> messages_of sess = {}" and
    ev: "session_events (r_mode rule) r c n s sess" and
    reg: "registry rule (s_status sess) (s_handle sess) = Some s"
    by (rule session_okE)
  note q1 = queues_okD(1) [OF q] and q2 = queues_okD(2) [OF q]
  have ns: "m \<notin> ran (send_map sess)" by (rule send_ran_recv_disjoint [OF q k])
  have "ran (rb_map t) = ran (recv_map sess) - {m}"
    unfolding t(2) by (rule ran_del [where f = "recv_map sess", OF k]) (rule recv_queue_inj [OF q2 _ k])
  with ns have mo: "messages_of sess' = messages_of sess - {m}" by (auto simp: messages_of_def sess')
  have m: "m \<in> messages_of sess" using k by (auto simp: messages_of_def ran_def)
  show "session_step s sess sess' w w'"
    using mo m owned_live(2) [OF w s(1)] fresh_none(2) [OF w] w'
    by (auto simp: session_step_def sess')
  have "w_messages w' m2 = w_messages w m2" if "m2 \<in> ran (send_map sess)" for m2
    using ns that by (auto simp: w'(2))
  from send_queue_ok_cong [OF q1 this] have "send_queue_ok (r, c, n) (w_messages w') s sess'"
    by (simp add: send_queue_ok_def sess')
  moreover have "recv_queue_ok (w_messages w') sess'"
    unfolding w'(2) by (rule recv_queue_ok_delete [OF q2 k t]) (simp_all add: sess')
  moreover have "linked w' sess' r rule c ctx n" using l by (simp add: linked_def w' sess')
  moreover have "session_events (r_mode rule) r c n s sess'"
    using ev session_events_cong [of sess' sess] by (simp add: sess')
  ultimately show "session_ok w' s sess'"
    using st reg s(2) by (intro session_okI [of _ _ r rule c ctx n]) (auto simp: queues_ok_def sess')
qed

lemma world_ok_recv_add:
  assumes w: "world_ok w" and s: "w_sessions w s = Some sess" "s_status sess \<noteq> 1"
    and k: "recv_map sess k = None" and m: "m = w_fresh w" "recv_msg_ok k msg"
    and t: "rb_ok t" "rb_map t = (recv_map sess)(k \<mapsto> m)"
    and b: "unat (s_recv_buffer_count sess) + 1 < 2 ^ 32"
    and sess': "sess' = sess\<lparr>s_recv_mess := t, s_recv_buffer_count := s_recv_buffer_count sess + 1\<rparr>"
    and w': "w_sessions w' = (w_sessions w)(s \<mapsto> sess')" "w_messages w' = (w_messages w)(m \<mapsto> msg)"
      "w_rules w' = w_rules w" "w_contexts w' = w_contexts w" "w_runners w' = w_runners w"
      "w_fresh w' = Suc (w_fresh w)"
  shows "world_ok w'"
proof (rule world_ok_session_step [OF w s(1), of sess'])
  from world_okD(1) [OF w s(1)] obtain r rule c ctx n where l: "linked w sess r rule c ctx n" and
    q: "queues_ok (r, c, n) (w_messages w) s sess" and st: "s_status sess \<in> {1, 2, 3}"
    "s_status sess = 1 \<longrightarrow> messages_of sess = {}" and
    ev: "session_events (r_mode rule) r c n s sess" and
    reg: "registry rule (s_status sess) (s_handle sess) = Some s"
    by (rule session_okE)
  note q1 = queues_okD(1) [OF q] and q2 = queues_okD(2) [OF q]
  have mo: "messages_of sess' = insert m (messages_of sess)"
    using k by (auto simp: messages_of_def t(2) sess')
  have lt: "m2 < m" if "m2 \<in> messages_of sess" for m2
    using owned_live(2) [OF w s(1) that] m(1) by simp
  have fr: "w_messages w a = None" if "m < a" for a
    using fresh_none(2) [OF w, of a] that m(1) by simp
  have "m2 < Suc m \<and> m2 \<in> insert m (messages_of sess)"
    if "m2 \<in> messages_of sess \<or> m \<le> m2" "w_messages w' m2 \<noteq> None" for m2
    using that lt [of m2] fr [of m2] by (auto simp: w'(2) split: if_splits)
  moreover have "s_rule sess' = s_rule sess" "s_handle sess' = s_handle sess" "s_status sess' = s_status sess"
    by (simp_all add: sess')
  ultimately show "session_step s sess sess' w w'"
    using lt m(1) w' by (auto simp: session_step_def mo)
  have "w_messages w' m2 = w_messages w m2" if "m2 \<in> ran (send_map sess)" for m2
    using lt [of m2] that by (auto simp: w'(2) messages_of_def)
  from send_queue_ok_cong [OF q1 this] have "send_queue_ok (r, c, n) (w_messages w') s sess'"
    by (simp add: send_queue_ok_def sess')
  moreover have "recv_queue_ok (w_messages w') sess'"
    unfolding w'(2)
    by (rule recv_queue_ok_add [OF q2 k _ m(2) t b]) (use fresh_none(2) [OF w] m(1) in \<open>simp_all add: sess'\<close>)
  moreover have "linked w' sess' r rule c ctx n" using l by (simp add: linked_def w' sess')
  moreover have "session_events (r_mode rule) r c n s sess'"
    using ev session_events_cong [of sess' sess] by (simp add: sess')
  ultimately show "session_ok w' s sess'"
    using st reg s(2) by (intro session_okI [of _ _ r rule c ctx n]) (auto simp: queues_ok_def sess')
qed

section \<open>Early packets\<close>

text \<open>The message that keeps a received packet.\<close>

definition kept_message :: "t2u_message_data \<Rightarrow> nat \<Rightarrow> t2u_message" where
  "kept_message mdata mdata_len =
     \<lparr>m_session = NULL, m_data = Some (mdata\<lparr>md_payload := take (mdata_len - sizeof_md) (md_payload mdata)\<rparr>),
      m_len = of_nat mdata_len, m_seq = 0, m_send_retries = 0, m_ev_timeout = None\<rparr>"

definition packet_len_ok :: "t2u_message_data \<Rightarrow> nat \<Rightarrow> bool" where
  "packet_len_ok mdata mdata_len \<longleftrightarrow>
     sizeof_md \<le> mdata_len \<and> mdata_len - sizeof_md \<le> length (md_payload mdata) \<and>
     mdata_len \<le> T2U_MESS_BUFFER_MAX"

lemma kept_message_ok:
  assumes "packet_len_ok mdata mdata_len"
  shows "recv_msg_ok (md_seq mdata) (kept_message mdata mdata_len)"
proof -
  have "unat (of_nat mdata_len :: u64) = mdata_len"
    by (rule unat_of_nat_small)
      (use assms in \<open>simp add: packet_len_ok_def T2U_MESS_BUFFER_MAX_def T2U_PAYLOAD_MAX_def sizeof_md_def\<close>)
  with assms show ?thesis
    by (auto simp: recv_msg_ok_def kept_message_def packet_len_ok_def T2U_MESS_BUFFER_MAX_def)
qed

lemma queue_received_ok:
  assumes w: "world_ok w" and s: "w_sessions w s = Some sess" "s_status sess \<noteq> 1"
    and len: "packet_len_ok mdata mdata_len" and win: "window \<le> 64"
  shows "\<exists>w' sess'. queue_received s window mdata mdata_len w = Some w' \<and> world_ok w' \<and>
    (if recv_map sess (md_seq mdata) = None \<and> unat (s_recv_buffer_count sess) < window
     then w_messages w' = (w_messages w)(w_fresh w \<mapsto> kept_message mdata mdata_len) \<and>
       w_sessions w' = (w_sessions w)(s \<mapsto> sess') \<and>
       recv_map sess' = (recv_map sess)(md_seq mdata \<mapsto> w_fresh w) \<and>
       unat (s_recv_buffer_count sess') = unat (s_recv_buffer_count sess) + 1 \<and>
       s_recv_seq sess' = s_recv_seq sess \<and> s_retry_seq sess' = s_retry_seq sess \<and>
       s_handle sess' = s_handle sess \<and> s_rule sess' = s_rule sess \<and> s_status sess' = s_status sess \<and>
       s_send_seq sess' = s_send_seq sess \<and> send_map sess' = send_map sess
     else w' = w) \<and>
    w_rules w' = w_rules w \<and> w_contexts w' = w_contexts w \<and> w_runners w' = w_runners w \<and>
    w_out w' = w_out w \<and> w_calls w' = w_calls w"
proof -
  from world_okD(1) [OF w s(1)] obtain c where q: "queues_ok c (w_messages w) s sess"
    by (auto simp: session_ok_def)
  note Q = recv_queue_okD [OF queues_okD(2) [OF q]]
  have look: "rbtree_lookup (s_recv_mess sess) (md_seq mdata) = Some (recv_map sess (md_seq mdata))"
    by (rule rb.look [OF Q(1)])
  show ?thesis
  proof (cases "recv_map sess (md_seq mdata) = None \<and> unat (s_recv_buffer_count sess) < window")
    case True
    with rb.ins_new [OF Q(1), of "md_seq mdata" "w_fresh w"] obtain t where
      t: "rbtree_insert True (s_recv_mess sess) (md_seq mdata) (w_fresh w) = Some (0, t)" "rb_ok t"
      "rb_map t = (recv_map sess)(md_seq mdata \<mapsto> w_fresh w)" by auto
    let ?sess = "sess\<lparr>s_recv_mess := t, s_recv_buffer_count := s_recv_buffer_count sess + 1\<rparr>"
    let ?w = "w\<lparr>w_fresh := Suc (w_fresh w),
      w_messages := (w_messages w)(w_fresh w \<mapsto> kept_message mdata mdata_len),
      w_sessions := (w_sessions w)(s \<mapsto> ?sess)\<rparr>"
    have b: "unat (s_recv_buffer_count sess) + 1 < 2 ^ 32" using True win by simp
    have "world_ok ?w"
      by (rule world_ok_recv_add [OF w s _ refl kept_message_ok [OF len] t(2,3) b]) (use True in simp_all)
    moreover have "queue_received s window mdata mdata_len w = Some ?w"
      using s(1) look True t(1) len
      by (simp add: queue_received_def world_defs kept_message_def packet_len_ok_def)
    moreover have "unat (s_recv_buffer_count sess + 1) = unat (s_recv_buffer_count sess) + 1"
      using b unat_add_1 [of "s_recv_buffer_count sess"] by simp
    ultimately show ?thesis
      using True t(3) by (intro exI [of _ ?w] exI [of _ ?sess]) simp
  next
    case False
    with s(1) look have "queue_received s window mdata mdata_len w = Some w"
      by (auto simp: queue_received_def)
    with False w show ?thesis by auto
  qed
qed

section \<open>Asking for missing packets\<close>

text \<open>The sequence numbers that \<open>retrans_loop\<close> asks for, given the numbers in the receive queue.\<close>

fun retrans_seqs :: "nat \<Rightarrow> u32 set \<Rightarrow> u32 \<Rightarrow> u32 \<Rightarrow> u32 \<Rightarrow> u32 list \<Rightarrow> u32 list" where
  "retrans_seqs window queued recv_seq seq retry [] = []"
| "retrans_seqs window queued recv_seq seq retry (i # js) =
     (let t = recv_seq + 1 + i in
      if t \<notin> queued \<and> unat (seq - t) \<le> window \<and> unat (retry - t) > window
      then t # retrans_seqs window queued recv_seq seq t js
      else retrans_seqs window queued recv_seq seq retry js)"

lemma retrans_seqs_sound:
  assumes "t \<in> set (retrans_seqs window queued recv_seq seq retry js)"
  shows "t \<notin> queued \<and> unat (seq - t) \<le> window \<and> (\<exists>i \<in> set js. t = recv_seq + 1 + i)"
  using assms by (induction js arbitrary: retry) (auto simp: Let_def split: if_splits)

definition retrans_datagram :: "os \<Rightarrow> t2u_context \<Rightarrow> u64 \<Rightarrow> u32 \<Rightarrow> action" where
  "retrans_datagram os ctx handle t =
     UdpSend (c_sock ctx) (md_bytes (new_mdata (os_arch os) retrans_request handle t []))"

lemma retrans_loop_ok:
  assumes "world_ok w" "w_sessions w s = Some sess" "w_contexts w c = Some ctx"
  shows "\<exists>w' ts rt. retrans_loop os s (Some c) window seq js w = Some w' \<and> world_ok w' \<and>
    w_sessions w' = (w_sessions w)(s \<mapsto> sess\<lparr>s_last_send_ts := ts, s_retry_seq := rt\<rparr>) \<and>
    w_messages w' = w_messages w \<and> w_rules w' = w_rules w \<and> w_contexts w' = w_contexts w \<and>
    w_runners w' = w_runners w \<and>
    w_out w' = w_out w @ map (retrans_datagram os ctx (s_handle sess))
      (retrans_seqs window (dom (recv_map sess)) (s_recv_seq sess) seq (s_retry_seq sess) js)"
  using assms
proof (induction js arbitrary: w sess)
  case Nil
  then show ?case
    by (intro exI [of _ w] exI [of _ "s_last_send_ts sess"] exI [of _ "s_retry_seq sess"])
      (simp add: fun_upd_idem)
next
  case (Cons i js)
  note w = Cons.prems(1) and s = Cons.prems(2) and c = Cons.prems(3)
  let ?t = "s_recv_seq sess + 1 + i"
  let ?ask = "?t \<notin> dom (recv_map sess) \<and> unat (seq - ?t) \<le> window \<and> unat (s_retry_seq sess - ?t) > window"
  let ?md = "new_mdata (os_arch os) retrans_request (s_handle sess) ?t []"
  from world_okD(1) [OF w s] obtain c2 where q: "queues_ok c2 (w_messages w) s sess" and
    st: "s_status sess \<in> {1, 2, 3}" by (auto simp: session_ok_def)
  have look: "rbtree_lookup (s_recv_mess sess) ?t = Some (recv_map sess ?t)"
    by (rule rb.look [OF recv_queue_okD(1) [OF queues_okD(2) [OF q]]])
  show ?case
  proof (cases ?ask)
    case True
    let ?sess = "sess\<lparr>s_last_send_ts := os_time os (w_calls w), s_retry_seq := ?t\<rparr>"
    let ?w = "w\<lparr>w_sessions := (w_sessions w)(s \<mapsto> ?sess), w_calls := Suc (w_calls w),
      w_out := w_out w @ [retrans_datagram os ctx (s_handle sess) ?t]\<rparr>"
    have W: "world_ok ?w"
      by (rule world_ok_session_fields [OF w s, of ?sess])
        (use st session_events_cong [of ?sess sess] in auto)
    have "retrans_step os s (Some c) window seq i w = Some ?w"
      using s c look True
      by (auto simp: retrans_step_def t2u_send_message_data_def deref_defs world_defs Let_def
          retrans_datagram_def domIff)
    moreover have "w_sessions ?w s = Some ?sess" "w_contexts ?w c = Some ctx" using c by simp_all
    from Cons.IH [OF W this] obtain w' ts rt where
      "retrans_loop os s (Some c) window seq js ?w = Some w'" "world_ok w'"
      "w_sessions w' = (w_sessions ?w)(s \<mapsto> ?sess\<lparr>s_last_send_ts := ts, s_retry_seq := rt\<rparr>)"
      "w_messages w' = w_messages ?w" "w_rules w' = w_rules ?w" "w_contexts w' = w_contexts ?w"
      "w_runners w' = w_runners ?w"
      "w_out w' = w_out ?w @ map (retrans_datagram os ctx (s_handle ?sess))
        (retrans_seqs window (dom (recv_map ?sess)) (s_recv_seq ?sess) seq (s_retry_seq ?sess) js)"
      by blast
    ultimately show ?thesis using True
      by (intro exI [of _ w'] exI [of _ ts] exI [of _ rt]) (simp add: Let_def domIff)
  next
    case False
    with s look have "retrans_step os s (Some c) window seq i w = Some w"
      by (auto simp: retrans_step_def Let_def domIff split: if_splits)
    with Cons.IH [OF w s c] False show ?thesis by (auto simp: Let_def)
  qed
qed

section \<open>In-order delivery\<close>

text \<open>
  The specification of delivery on an abstract queue of early payloads: starting with payload
  \<open>b\<close> of number \<open>k\<close>, payloads are written one after the other. After one that was written
  completely the next number is taken out of the queue; delivery ends when that is not there,
  or at a payload that failed or was not written completely. \<open>send\<close> gives the result of a write by the
  number of the call. Each write is recorded with its result and whether it failed.
\<close>

type_synonym tcp_write = "byte list \<times> int \<times> bool"

inductive delivers ::
  "(nat \<Rightarrow> byte list \<Rightarrow> int \<times> int) \<Rightarrow> nat \<Rightarrow> (u32 \<Rightarrow> byte list option) \<Rightarrow> u32 \<Rightarrow> byte list \<Rightarrow>
     tcp_write list \<Rightarrow> bool"
  for send where
  failed: "send call b = (r, err) \<Longrightarrow> write_failed r err \<Longrightarrow> delivers send call q k b [(b, r, True)]"
| partly: "send call b = (r, err) \<Longrightarrow> \<not> write_failed r err \<Longrightarrow> r \<noteq> int (length b) \<Longrightarrow>
    delivers send call q k b [(b, r, False)]"
| finished: "send call b = (int (length b), err) \<Longrightarrow> \<not> write_failed (int (length b)) err \<Longrightarrow>
    q (k + 1) = None \<Longrightarrow> delivers send call q k b [(b, int (length b), False)]"
| more: "send call b = (int (length b), err) \<Longrightarrow> \<not> write_failed (int (length b)) err \<Longrightarrow>
    q (k + 1) = Some b' \<Longrightarrow> delivers send (call + 2) (q(k + 1 := None)) (k + 1) b' ps \<Longrightarrow>
    delivers send call q k b ((b, int (length b), False) # ps)"

text \<open>The writes of a session. Each is followed by the call that stamps the answer.\<close>

definition session_send :: "os \<Rightarrow> t2u_session \<Rightarrow> nat \<Rightarrow> byte list \<Rightarrow> int \<times> int" where
  "session_send os sess call bytes = os_send os call (s_sock sess) bytes"

inductive_cases deliversE: "delivers send call q k b ps"

text \<open>The number of payloads written completely, and the trace: each write is answered.\<close>

definition complete :: "tcp_write list \<Rightarrow> nat" where
  "complete ps = length (filter (\<lambda>(b, r, f). \<not> f \<and> r = int (length b)) ps)"

definition answer :: "os \<Rightarrow> u64 \<Rightarrow> u32 \<Rightarrow> int \<Rightarrow> byte list" where
  "answer os handle k v = md_bytes (new_mdata (os_arch os) data_response handle k (put_u32 (word_of_int v)))"

fun deliver_trace :: "os \<Rightarrow> t2u_context \<Rightarrow> t2u_session \<Rightarrow> u32 \<Rightarrow> tcp_write list \<Rightarrow> action list" where
  "deliver_trace os ctx sess k [] = []"
| "deliver_trace os ctx sess k ((b, r, f) # ps) =
     TcpSend (s_sock sess) b r #
     UdpSend (c_sock ctx) (answer os (s_handle sess) k (if f then - 1 else r)) #
     deliver_trace os ctx sess (k + 1) ps"

definition recv_payload :: "(addr \<Rightarrow> t2u_message option) \<Rightarrow> t2u_session \<Rightarrow> u32 \<Rightarrow> byte list option" where
  "recv_payload msgs sess k = do {
     m \<leftarrow> recv_map sess k;
     msg \<leftarrow> msgs m;
     data \<leftarrow> m_data msg;
     Some (md_payload data) }"

lemma delivers_nonempty: "delivers send call q k b ps \<Longrightarrow> ps \<noteq> []"
  by (auto elim: delivers.cases)

text \<open>One packet: the write, the answer, and the state after them.\<close>

lemma deliver_packet_exec:
  assumes s: "w_sessions w s = Some sess" and c: "w_contexts w c = Some ctx"
    and len: "packet_len_ok mdata mdata_len" and b: "b = take (mdata_len - sizeof_md) (md_payload mdata)"
    and send: "os_send os (w_calls w) (s_sock sess) b = (r, err)"
  shows "deliver_packet os s (Some c) (s_handle sess) mdata mdata_len k w =
    Some (write_failed r err, r = int (length b),
      w\<lparr>w_sessions := (w_sessions w)(s \<mapsto> sess\<lparr>s_last_send_ts := os_time os (Suc (w_calls w))\<rparr>),
        w_calls := Suc (Suc (w_calls w)),
        w_out := w_out w @ deliver_trace os ctx sess k [(b, r, write_failed r err)]\<rparr>)"
proof -
  have "mdata_len - sizeof_md = length b" "sizeof_md \<le> mdata_len" "length b \<le> length (md_payload mdata)"
    "take (length b) (md_payload mdata) = b"
    using len by (auto simp: b packet_len_ok_def)
  with s c send show ?thesis
    by (simp add: deliver_packet_def world_defs deref_defs t2u_send_message_data_def answer_def)
qed

text \<open>The next packet of the queue, if it is there.\<close>

definition packet_taken :: "addr \<Rightarrow> t2u_session \<Rightarrow> addr \<Rightarrow> (u32, addr) rbtree \<Rightarrow> world \<Rightarrow> world" where
  "packet_taken s sess m t w =
     w\<lparr>w_messages := (w_messages w)(m := None), w_sessions := (w_sessions w)(s \<mapsto>
       sess\<lparr>s_recv_mess := t, s_recv_buffer_count := s_recv_buffer_count sess - 1\<rparr>)\<rparr>"

lemma take_next_packet_ok:
  assumes w: "world_ok w" and s: "w_sessions w s = Some sess" "s_status sess \<noteq> 1"
  shows "(recv_map sess k = None \<and> take_next_packet s k w = Some (None, w)) \<or>
    (\<exists>m msg data t. recv_map sess k = Some m \<and> w_messages w m = Some msg \<and> m_data msg = Some data \<and>
       md_seq data = k \<and> packet_len_ok data (unat (m_len msg)) \<and>
       take (unat (m_len msg) - sizeof_md) (md_payload data) = md_payload data \<and>
       rb_map t = (recv_map sess)(k := None) \<and>
       take_next_packet s k w = Some (Some (data, unat (m_len msg)), packet_taken s sess m t w) \<and>
       world_ok (packet_taken s sess m t w))"
proof -
  from world_okD(1) [OF w s(1)] obtain c where q: "queues_ok c (w_messages w) s sess"
    by (auto simp: session_ok_def)
  note Q = recv_queue_okD [OF queues_okD(2) [OF q]]
  show ?thesis
  proof (cases "recv_map sess k")
    case None
    with s rb.look [OF Q(1), of k] show ?thesis by (simp add: take_next_packet_def)
  next
    case (Some m)
    from Q(3) [OF Some] obtain msg data where m: "w_messages w m = Some msg" "m_data msg = Some data"
      "md_seq data = k" "unat (m_len msg) = sizeof_md + length (md_payload data)"
      "length (md_payload data) \<le> T2U_PAYLOAD_MAX" by (auto simp: recv_msg_ok_def)
    from rb.del_hit [OF Q(1), of k] Some obtain t where
      t: "rbtree_remove (s_recv_mess sess) k = Some (0, t)" "rb_ok t" "rb_map t = (recv_map sess)(k := None)"
      by auto
    let ?w = "packet_taken s sess m t w"
    have "world_ok ?w"
      by (rule world_ok_recv_delete [where rs = "s_recv_seq sess" and ts = "s_last_send_ts sess",
          OF w s Some t(2,3)]) (simp_all add: packet_taken_def)
    moreover have "take_next_packet s k w = Some (Some (data, unat (m_len msg)), ?w)"
      using s(1) rb.look [OF Q(1), of k] Some m t(1) by (simp add: take_next_packet_def world_defs packet_taken_def)
    moreover have "packet_len_ok data (unat (m_len msg))"
      using m(4,5) by (simp add: packet_len_ok_def T2U_MESS_BUFFER_MAX_def)
    ultimately show ?thesis using Some m t(3) by auto
  qed
qed

lemma take_next_packet_hit:
  assumes "world_ok w" "w_sessions w s = Some sess" "s_status sess \<noteq> 1" "recv_map sess k = Some m"
  obtains len data t where "rb_map t = (recv_map sess)(k := None)"
    "take_next_packet s k w = Some (Some (data, len), packet_taken s sess m t w)"
    "world_ok (packet_taken s sess m t w)"
  using take_next_packet_ok [OF assms(1-3), of k] assms(4) by auto

lemma deliver_trace_Cons:
  "deliver_trace os ctx sess k ((b, r, f) # ps) =
     deliver_trace os ctx sess k [(b, r, f)] @ deliver_trace os ctx sess (k + 1) ps"
  by simp

lemma deliver_trace_fields:
  assumes "s_sock sess' = s_sock sess" "s_handle sess' = s_handle sess"
  shows "deliver_trace os ctx sess' k ps = deliver_trace os ctx sess k ps"
  by (induction ps arbitrary: k) (use assms in auto)

lemma recv_payload_delete:
  assumes q: "recv_queue_ok msgs sess" and k: "recv_map sess k = Some m"
    and t: "rb_map (s_recv_mess sess') = (recv_map sess)(k := None)"
  shows "recv_payload (msgs(m := None)) sess' = (recv_payload msgs sess)(k := None)"
proof
  fix j
  have "m' \<noteq> m" if "recv_map sess j = Some m'" "j \<noteq> k" for m'
    using that k recv_queue_inj [OF q] by metis
  then show "recv_payload (msgs(m := None)) sess' j = ((recv_payload msgs sess)(k := None)) j"
    by (cases "recv_map sess j") (auto simp: recv_payload_def t)
qed

text \<open>
  The loop delivers in order. The result of the last write decides what becomes of the
  session: a failed write marks it as closing, and ends it when nothing is queued.
\<close>

definition delivered ::
  "os \<Rightarrow> t2u_context \<Rightarrow> addr \<Rightarrow> t2u_session \<Rightarrow> tcp_write list \<Rightarrow> world \<Rightarrow> world \<Rightarrow> bool" where
  "delivered os ctx s sess ps w w' \<longleftrightarrow>
     w_messages w' \<subseteq>\<^sub>m w_messages w \<and>
     (case w_sessions w' s of
        Some sess' \<Rightarrow>
          w_out w' = w_out w @ deliver_trace os ctx sess (s_recv_seq sess + 1) ps \<and>
          s_recv_seq sess' = s_recv_seq sess + of_nat (complete ps) \<and>
          s_status sess' = (if snd (snd (last ps)) then 3 else s_status sess) \<and>
          s_send_seq sess' = s_send_seq sess \<and> send_map sess' = send_map sess
      | None \<Rightarrow> snd (snd (last ps)) \<and> send_map sess = Map.empty \<and>
          (\<exists>tl. w_out w' = w_out w @ deliver_trace os ctx sess (s_recv_seq sess + 1) ps @ tl \<and>
             (\<forall>a \<in> set tl. ending (os_arch os) a)))"

text \<open>
  If the session is closing, the loop may free it and go on to use it; then it has no result.
\<close>

lemma deliver_loop_ok:
  assumes "world_ok w" "w_sessions w s = Some sess" "s_status sess \<noteq> 1" "linked w sess r rule c ctx n"
    and "packet_len_ok mdata mdata_len" "md_seq mdata = s_recv_seq sess + 1"
    and "b = take (mdata_len - sizeof_md) (md_payload mdata)"
  shows "(s_status sess = 3 \<and> deliver_loop os s (Some c) (s_handle sess) mdata mdata_len (md_seq mdata) w = None) \<or>
    (\<exists>w' ps. deliver_loop os s (Some c) (s_handle sess) mdata mdata_len (md_seq mdata) w = Some w' \<and>
    world_ok w' \<and> delivers (session_send os sess) (w_calls w) (recv_payload (w_messages w) sess) (md_seq mdata) b ps \<and>
    delivered os ctx s sess ps w w')"
  using assms
proof (induction "card (dom (recv_map sess))" arbitrary: w sess mdata mdata_len b rule: less_induct)
  case less
  note w = less.prems(1) and s = less.prems(2,3) and l = less.prems(4) and len = less.prems(5) and
    seq = less.prems(6) and b = less.prems(7)
  note L = linkedD [OF l]
  obtain v err where send: "os_send os (w_calls w) (s_sock sess) b = (v, err)" by force
  let ?f = "write_failed v err" and ?p = "(b, v, write_failed v err)"
  let ?sess1 = "sess\<lparr>s_last_send_ts := os_time os (Suc (w_calls w))\<rparr>"
  let ?w1 = "w\<lparr>w_sessions := (w_sessions w)(s \<mapsto> ?sess1), w_calls := Suc (Suc (w_calls w)),
    w_out := w_out w @ deliver_trace os ctx sess (md_seq mdata) [?p]\<rparr>"
  from deliver_packet_exec [OF s(1) L(4) len b send] have
    e1: "deliver_packet os s (Some c) (s_handle sess) mdata mdata_len (md_seq mdata) w =
      Some (?f, v = int (length b), ?w1)" .
  have W1: "world_ok ?w1" using world_ok_stamp [OF w s(1)] by simp
  from world_okD(1) [OF w s(1)] obtain c2 where q: "queues_ok c2 (w_messages w) s sess" and
    st: "s_status sess \<in> {2, 3}" using s(2) by (auto simp: session_ok_def)
  consider (failed) ?f | (partly) "\<not> ?f" "v \<noteq> int (length b)" | (full) "\<not> ?f" "v = int (length b)" by blast
  then show ?case
  proof cases
    case failed
    from delete_later_ok [OF W1, of s ?sess1 os] s obtain w' where
      d: "t2u_delete_connected_session_later os s ?w1 = Some w'" "world_ok w'" and
      dc: "if messages_of ?sess1 = {} then w_sessions w' = (w_sessions ?w1)(s := None) \<and>
          w_messages w' = w_messages ?w1 \<and>
          (\<exists>tl. w_out w' = w_out ?w1 @ tl \<and> (\<forall>a \<in> set tl. ending (os_arch os) a))
        else w' = ?w1\<lparr>w_sessions := (w_sessions ?w1)(s \<mapsto> ?sess1\<lparr>s_status := 3\<rparr>)\<rparr>" by auto
    have e: "deliver_loop os s (Some c) (s_handle sess) mdata mdata_len (md_seq mdata) w = Some w'"
      using failed d(1) by (subst deliver_loop.simps) (simp add: e1)
    have mo: "messages_of ?sess1 = messages_of sess" by (simp add: messages_of_def)
    have "delivered os ctx s sess [?p] w w'"
    proof (cases "messages_of sess = {}")
      case True
      with dc mo failed seq show ?thesis
        by (auto simp: delivered_def messages_of_def ran_eq_empty)
    next
      case False
      with dc mo failed seq s show ?thesis by (simp add: delivered_def complete_def)
    qed
    moreover have "delivers (session_send os sess) (w_calls w) (recv_payload (w_messages w) sess) (md_seq mdata) b [?p]"
      using failed send by (auto intro: delivers.failed simp: session_send_def)
    ultimately show ?thesis using e d(2) by blast
  next
    case partly
    then have "deliver_loop os s (Some c) (s_handle sess) mdata mdata_len (md_seq mdata) w = Some ?w1"
      by (subst deliver_loop.simps) (simp add: e1)
    moreover have "delivers (session_send os sess) (w_calls w) (recv_payload (w_messages w) sess) (md_seq mdata) b [?p]"
      using partly send by (auto intro: delivers.partly simp: session_send_def)
    moreover have "delivered os ctx s sess [?p] w ?w1"
      using partly s seq by (simp add: delivered_def complete_def)
    ultimately show ?thesis using W1 by blast
  next
    case full
    let ?sess2 = "?sess1\<lparr>s_recv_seq := s_recv_seq sess + 1\<rparr>"
    let ?w2 = "?w1\<lparr>w_sessions := (w_sessions w)(s \<mapsto> ?sess2)\<rparr>"
    have W2: "world_ok ?w2"
      by (rule world_ok_session_fields [OF w s(1), of ?sess2])
        (use st session_events_cong [of ?sess2 sess] in auto)
    let ?k = "md_seq mdata + 1"
    have step: "deliver_loop os s (Some c) (s_handle sess) mdata mdata_len (md_seq mdata) w = do {
         (next_packet, w) \<leftarrow> take_next_packet s ?k ?w2;
         case next_packet of
           None \<Rightarrow> Some w
         | Some (data, len) \<Rightarrow> do {
             w \<leftarrow> t2u_try_delete_connected_session os s w;
             deliver_loop os s (Some c) (s_handle sess) data len (md_seq data) w } }"
      using full by (subst deliver_loop.simps) (simp add: e1 put_session_def)
    have rm: "recv_map ?sess2 = recv_map sess" by simp
    have "w_sessions ?w2 s = Some ?sess2" "s_status ?sess2 \<noteq> 1" using s(2) by simp_all
    from take_next_packet_ok [OF W2 this, of ?k] show ?thesis
    proof (elim disjE exE conjE)
      assume none: "recv_map ?sess2 ?k = None" and t: "take_next_packet s ?k ?w2 = Some (None, ?w2)"
      have "delivers (session_send os sess) (w_calls w) (recv_payload (w_messages w) sess) (md_seq mdata) b [?p]"
        using full none send by (auto intro!: delivers.finished simp: recv_payload_def session_send_def)
      moreover have "delivered os ctx s sess [?p] w ?w2"
        using full seq by (simp add: delivered_def complete_def)
      ultimately show ?thesis using step t W2 by auto
    next
      fix m msg data t
      assume m: "recv_map ?sess2 ?k = Some m" "w_messages ?w2 m = Some msg" "m_data msg = Some data"
        "md_seq data = ?k" and len': "packet_len_ok data (unat (m_len msg))" and
        tk: "take (unat (m_len msg) - sizeof_md) (md_payload data) = md_payload data" and
        t: "rb_map t = (recv_map ?sess2)(?k := None)" and
        n: "take_next_packet s ?k ?w2 = Some (Some (data, unat (m_len msg)), packet_taken s ?sess2 m t ?w2)"
          "world_ok (packet_taken s ?sess2 m t ?w2)"
      let ?sess3 = "?sess2\<lparr>s_recv_mess := t, s_recv_buffer_count := s_recv_buffer_count ?sess2 - 1\<rparr>"
      let ?w3 = "?w2\<lparr>w_messages := (w_messages ?w2)(m := None), w_sessions := (w_sessions ?w2)(s \<mapsto> ?sess3)\<rparr>"
      have W3: "world_ok ?w3" and t3: "take_next_packet s ?k ?w2 = Some (Some (data, unat (m_len msg)), ?w3)"
        using n by (simp_all add: packet_taken_def)
      have s3: "w_sessions ?w3 s = Some ?sess3" "s_status ?sess3 \<noteq> 1" using s(2) by simp_all
      from try_delete_ok [OF W3 s3, of os] obtain w4 where
        td: "t2u_try_delete_connected_session os s ?w3 = Some w4" "w_sessions w4 s = None \<and> s_status sess = 3 \<or> w4 = ?w3"
        by (auto split: if_splits)
      have l3: "linked ?w3 ?sess3 r rule c ctx n" using l by (simp add: linked_def)
      have k: "recv_map sess ?k = Some m" using m(1) by simp
      have dead: "deliver_loop os s (Some c) h d len3 k3 w4 = None" if "w_sessions w4 s = None" for h d len3 k3
        using that by (subst deliver_loop.simps) (simp add: deliver_packet_def Let_def)
      have "card (dom (recv_map ?sess3)) < card (dom (recv_map sess))"
        using k t rb.finite_content [OF recv_queue_okD(1) [OF queues_okD(2) [OF q]]]
        by (auto intro!: psubset_card_mono)
      moreover have "md_seq data = s_recv_seq ?sess3 + 1" using m(4) seq by simp
      ultimately have ih: "s_status ?sess3 = 3 \<and>
        deliver_loop os s (Some c) (s_handle ?sess3) data (unat (m_len msg)) (md_seq data) ?w3 = None \<or>
        (\<exists>w' ps. deliver_loop os s (Some c) (s_handle ?sess3) data (unat (m_len msg)) (md_seq data) ?w3 = Some w' \<and>
          world_ok w' \<and> delivers (session_send os ?sess3) (w_calls ?w3) (recv_payload (w_messages ?w3) ?sess3)
            (md_seq data) (md_payload data) ps \<and> delivered os ctx s ?sess3 ps ?w3 w')"
        using less.hyps [OF _ W3 s3 l3 len' _ tk [symmetric]] by blast
      show ?thesis
      proof (cases "s_status sess = 3 \<and>
          deliver_loop os s (Some c) (s_handle sess) mdata mdata_len (md_seq mdata) w = None")
        case False
        then have "w4 = ?w3" using td(2) step t3 td(1) dead by auto
        with td(1) have td: "t2u_try_delete_connected_session os s ?w3 = Some ?w3" by simp
        from ih False step t3 td obtain w' ps where
          r: "deliver_loop os s (Some c) (s_handle ?sess3) data (unat (m_len msg)) (md_seq data) ?w3 = Some w'"
          "world_ok w'" "delivers (session_send os ?sess3) (w_calls ?w3) (recv_payload (w_messages ?w3) ?sess3) (md_seq data) (md_payload data) ps"
          "delivered os ctx s ?sess3 ps ?w3 w'" by auto
      have "recv_payload (w_messages ?w3) ?sess3 = (recv_payload (w_messages w) sess)(?k := None)"
        using recv_payload_delete [OF queues_okD(2) [OF q] k, of ?sess3] t by simp
      moreover have "recv_payload (w_messages w) sess ?k = Some (md_payload data)"
        using k m(2,3) by (simp add: recv_payload_def)
      moreover have snd: "session_send os ?sess3 = session_send os sess" by (simp add: session_send_def fun_eq_iff)
      ultimately have "delivers (session_send os sess) (w_calls w) (recv_payload (w_messages w) sess) (md_seq mdata) b (?p # ps)"
        using full send r(3) m(4) snd by (auto intro!: delivers.more simp: session_send_def)
      moreover have "w_messages ?w3 \<subseteq>\<^sub>m w_messages w" by (simp add: map_le_del)
      then have "delivered os ctx s sess (?p # ps) w w'"
        using r(4) map_le_trans [of "w_messages w'" "w_messages ?w3" "w_messages w"] delivers_nonempty [OF r(3)] full seq
          deliver_trace_fields [of ?sess3 sess os ctx "s_recv_seq sess + 1 + 1" ps]
        by (auto simp: delivered_def complete_def split: option.splits)
      moreover have "deliver_loop os s (Some c) (s_handle sess) mdata mdata_len (md_seq mdata) w = Some w'"
        using step t3 td r(1) by simp
      ultimately show ?thesis using r(2) by blast
      qed blast
    qed
  qed
qed

section \<open>A received packet\<close>

text \<open>The next packet is delivered, with the early ones that follow it.\<close>

lemma data_request_next_spec:
  assumes w: "world_ok w" and s: "w_sessions w s = Some sess" "s_status sess = 2"
    and l: "linked w sess r rule c ctx n" and len: "packet_len_ok mdata mdata_len"
    and seq: "md_seq mdata = s_recv_seq sess + 1"
  shows "\<exists>w' ps. t2u_session_handle_data_request os s mdata mdata_len w = Some w' \<and> world_ok w' \<and>
    delivers (session_send os sess) (w_calls w) (recv_payload (w_messages w) sess) (md_seq mdata)
      (take (mdata_len - sizeof_md) (md_payload mdata)) ps \<and> delivered os ctx s sess ps w w'"
proof -
  note L = linkedD [OF l]
  have "t2u_session_handle_data_request os s mdata mdata_len w =
      deliver_loop os s (Some c) (s_handle sess) mdata mdata_len (md_seq mdata) w"
    using s(1) L seq by (simp add: t2u_session_handle_data_request_def)
  with deliver_loop_ok [OF w s(1) _ l len seq refl, of os] s(2) show ?thesis by simp
qed

text \<open>In a closing session, too, if there is a result.\<close>

lemma data_request_next_closing:
  assumes w: "world_ok w" and s: "w_sessions w s = Some sess" "s_status sess \<noteq> 1"
    and l: "linked w sess r rule c ctx n" and len: "packet_len_ok mdata mdata_len"
    and seq: "md_seq mdata = s_recv_seq sess + 1"
    and e: "t2u_session_handle_data_request os s mdata mdata_len w = Some w'"
  shows "\<exists>ps. world_ok w' \<and> delivers (session_send os sess) (w_calls w) (recv_payload (w_messages w) sess)
      (md_seq mdata) (take (mdata_len - sizeof_md) (md_payload mdata)) ps \<and> delivered os ctx s sess ps w w'"
proof -
  note L = linkedD [OF l]
  have "t2u_session_handle_data_request os s mdata mdata_len w =
      deliver_loop os s (Some c) (s_handle sess) mdata mdata_len (md_seq mdata) w"
    using s(1) L seq by (simp add: t2u_session_handle_data_request_def)
  with deliver_loop_ok [OF w s l len seq refl, of os] e show ?thesis by auto
qed

text \<open>
  C6: The next packet in sequence is written to the TCP socket of an established session, and with
  it every packet that the receive queue holds without a gap: the handler of a data request delivers
  exactly the run of payloads that the abstract reordering buffer hands out, answers each of them,
  and keeps the invariant of the program state.
\<close>

lemma data_request_next:
  assumes w: "world_ok w" and s: "w_sessions w s = Some sess" "s_status sess = 2"
    and l: "linked w sess r rule c ctx n" and len: "packet_len_ok mdata mdata_len"
    and seq: "md_seq mdata = s_recv_seq sess + 1"
  shows "\<exists>w' ps. t2u_session_handle_data_request os s mdata mdata_len w = Some w' \<and> world_ok w' \<and>
    delivers (session_send os sess) (w_calls w) (recv_payload (w_messages w) sess) (md_seq mdata)
      (take (mdata_len - sizeof_md) (md_payload mdata)) ps \<and> delivered os ctx s sess ps w w'"
  by (rule data_request_next_spec [OF assms])

text \<open>A packet that was delivered before, or is beyond the window, is only answered, with the value 0.\<close>

lemma data_request_answered_only:
  assumes w: "world_ok w" and s: "w_sessions w s = Some sess" and l: "linked w sess r rule c ctx n"
    and seq: "md_seq mdata = s_recv_seq sess \<or> unat (md_seq mdata - s_recv_seq sess) > c_udp_slide_window ctx"
  shows "\<exists>w'. t2u_session_handle_data_request os s mdata mdata_len w = Some w' \<and> world_ok w' \<and>
    w' = w\<lparr>w_sessions := (w_sessions w)(s \<mapsto> sess\<lparr>s_last_send_ts := os_time os (w_calls w)\<rparr>),
      w_calls := Suc (w_calls w),
      w_out := w_out w @ [UdpSend (c_sock ctx) (answer os (s_handle sess) (md_seq mdata) 0)]\<rparr>"
proof -
  note L = linkedD [OF l]
  have win: "1 \<le> c_udp_slide_window ctx" using world_okD(3) [OF w L(4)] by (simp add: context_ok_def)
  have d: "md_seq mdata - s_recv_seq sess \<noteq> 1"
  proof
    assume "md_seq mdata - s_recv_seq sess = 1"
    with seq win show False by auto
  qed
  have "unat (md_seq mdata - s_recv_seq sess) > c_udp_slide_window ctx \<or> md_seq mdata - s_recv_seq sess \<le> 1"
    using seq by auto
  then have e: "t2u_session_handle_data_request os s mdata mdata_len w =
      t2u_send_message_data os (Some c) (answer os (s_handle sess) (md_seq mdata) 0) (sizeof_md + 4) (Some s) w"
    using s L d by (simp add: t2u_session_handle_data_request_def answer_def)
  have "sizeof_md + 4 \<le> length (answer os (s_handle sess) (md_seq mdata) 0)" by (simp add: answer_def)
  from send_message_data_ok [OF w s L(4) this, of os] e show ?thesis by (simp add: answer_def)
qed

text \<open>
  An early packet within the window is kept if there is room, and the missing packets before
  it are asked for.
\<close>

lemma data_request_early_spec:
  assumes w: "world_ok w" and s: "w_sessions w s = Some sess" "s_status sess \<noteq> 1"
    and l: "linked w sess r rule c ctx n" and len: "packet_len_ok mdata mdata_len"
    and seq: "1 < md_seq mdata - s_recv_seq sess"
      "unat (md_seq mdata - s_recv_seq sess) \<le> c_udp_slide_window ctx"
  shows "\<exists>w' sess'. t2u_session_handle_data_request os s mdata mdata_len w = Some w' \<and> world_ok w' \<and>
    w_sessions w' = (w_sessions w)(s \<mapsto> sess') \<and> s_recv_seq sess' = s_recv_seq sess \<and>
    s_status sess' = s_status sess \<and> s_send_seq sess' = s_send_seq sess \<and> send_map sess' = send_map sess \<and>
    (if recv_map sess (md_seq mdata) = None \<and> unat (s_recv_buffer_count sess) < c_udp_slide_window ctx
     then recv_map sess' = (recv_map sess)(md_seq mdata \<mapsto> w_fresh w) \<and>
       w_messages w' = (w_messages w)(w_fresh w \<mapsto> kept_message mdata mdata_len) \<and>
       unat (s_recv_buffer_count sess') = unat (s_recv_buffer_count sess) + 1
     else recv_map sess' = recv_map sess \<and> w_messages w' = w_messages w \<and>
       s_recv_buffer_count sess' = s_recv_buffer_count sess) \<and>
    w_out w' = w_out w @ map (retrans_datagram os ctx (s_handle sess))
      (retrans_seqs (c_udp_slide_window ctx) (dom (recv_map sess')) (s_recv_seq sess) (md_seq mdata)
        (s_retry_seq sess) (map of_nat [0..<c_udp_slide_window ctx]))"
proof -
  note L = linkedD [OF l]
  let ?win = "c_udp_slide_window ctx"
  have win: "?win \<le> 64" using world_okD(3) [OF w L(4)] by (simp add: context_ok_def)
  have e: "t2u_session_handle_data_request os s mdata mdata_len w = do {
      w \<leftarrow> queue_received s ?win mdata mdata_len w;
      retrans_loop os s (Some c) ?win (md_seq mdata) (map of_nat [0..<?win]) w }"
    using s(1) L seq seq(1) [unfolded not_le [symmetric]] by (simp add: t2u_session_handle_data_request_def Let_def)
  from queue_received_ok [OF w s len win] obtain w1 sess0 where
    q: "queue_received s ?win mdata mdata_len w = Some w1" "world_ok w1" and
    c1: "if recv_map sess (md_seq mdata) = None \<and> unat (s_recv_buffer_count sess) < ?win
      then w_messages w1 = (w_messages w)(w_fresh w \<mapsto> kept_message mdata mdata_len) \<and>
       w_sessions w1 = (w_sessions w)(s \<mapsto> sess0) \<and>
       recv_map sess0 = (recv_map sess)(md_seq mdata \<mapsto> w_fresh w) \<and>
       unat (s_recv_buffer_count sess0) = unat (s_recv_buffer_count sess) + 1 \<and>
       s_recv_seq sess0 = s_recv_seq sess \<and> s_retry_seq sess0 = s_retry_seq sess \<and>
       s_handle sess0 = s_handle sess \<and> s_rule sess0 = s_rule sess \<and> s_status sess0 = s_status sess \<and>
       s_send_seq sess0 = s_send_seq sess \<and> send_map sess0 = send_map sess
      else w1 = w" and
    f: "w_contexts w1 = w_contexts w" "w_out w1 = w_out w"
    by blast
  define sess1 where "sess1 = the (w_sessions w1 s)"
  have s1: "w_sessions w1 = (w_sessions w)(s \<mapsto> sess1)"
    using c1 s(1) by (auto simp: sess1_def fun_upd_idem split: if_splits)
  have s1': "w_sessions w1 s = Some sess1" "w_contexts w1 c = Some ctx" using s1 f(1) L(4) by simp_all
  have k: "s_recv_seq sess1 = s_recv_seq sess" "s_retry_seq sess1 = s_retry_seq sess"
    "s_handle sess1 = s_handle sess" "s_status sess1 = s_status sess" "s_send_seq sess1 = s_send_seq sess"
    "send_map sess1 = send_map sess" using c1 s(1) by (auto simp: sess1_def split: if_splits)
  from retrans_loop_ok [OF q(2) s1', of os ?win "md_seq mdata" "map of_nat [0..<?win]"] obtain w' ts rt where
    r: "retrans_loop os s (Some c) ?win (md_seq mdata) (map of_nat [0..<?win]) w1 = Some w'" "world_ok w'"
    "w_sessions w' = (w_sessions w1)(s \<mapsto> sess1\<lparr>s_last_send_ts := ts, s_retry_seq := rt\<rparr>)"
    "w_messages w' = w_messages w1"
    "w_out w' = w_out w1 @ map (retrans_datagram os ctx (s_handle sess1))
      (retrans_seqs ?win (dom (recv_map sess1)) (s_recv_seq sess1) (md_seq mdata) (s_retry_seq sess1)
        (map of_nat [0..<?win]))" by blast
  have "if recv_map sess (md_seq mdata) = None \<and> unat (s_recv_buffer_count sess) < ?win
     then recv_map sess1 = (recv_map sess)(md_seq mdata \<mapsto> w_fresh w) \<and>
       w_messages w1 = (w_messages w)(w_fresh w \<mapsto> kept_message mdata mdata_len) \<and>
       unat (s_recv_buffer_count sess1) = unat (s_recv_buffer_count sess) + 1
     else recv_map sess1 = recv_map sess \<and> w_messages w1 = w_messages w \<and>
       s_recv_buffer_count sess1 = s_recv_buffer_count sess"
    using c1 s(1) by (auto simp: sess1_def)
  with e q(1) r k s1 f(2) show ?thesis
    by (intro exI [of _ w'] exI [of _ "sess1\<lparr>s_last_send_ts := ts, s_retry_seq := rt\<rparr>"]) simp
qed

text \<open>
  C22: A packet ahead of the expected one but inside the window is stored in the receive queue,
  unless it is there or the queue is full, and nothing is written to the socket. Then a
  retransmission request goes out for each number of the window after the last delivered packet that
  is missing in the receive queue, does not follow the early packet, and is not among those already
  asked for, that is, lies more than a window before the number requested last. When the queue was
  full, the early packet itself, which was not stored, is requested like the others.
\<close>

lemma data_request_early:
  assumes w: "world_ok w" and s: "w_sessions w s = Some sess" "s_status sess \<noteq> 1"
    and l: "linked w sess r rule c ctx n" and len: "packet_len_ok mdata mdata_len"
    and seq: "1 < md_seq mdata - s_recv_seq sess"
      "unat (md_seq mdata - s_recv_seq sess) \<le> c_udp_slide_window ctx"
  shows "\<exists>w' sess'. t2u_session_handle_data_request os s mdata mdata_len w = Some w' \<and> world_ok w' \<and>
    w_sessions w' = (w_sessions w)(s \<mapsto> sess') \<and> s_recv_seq sess' = s_recv_seq sess \<and>
    s_status sess' = s_status sess \<and> s_send_seq sess' = s_send_seq sess \<and> send_map sess' = send_map sess \<and>
    (if recv_map sess (md_seq mdata) = None \<and> unat (s_recv_buffer_count sess) < c_udp_slide_window ctx
     then recv_map sess' = (recv_map sess)(md_seq mdata \<mapsto> w_fresh w) \<and>
       w_messages w' = (w_messages w)(w_fresh w \<mapsto> kept_message mdata mdata_len) \<and>
       unat (s_recv_buffer_count sess') = unat (s_recv_buffer_count sess) + 1
     else recv_map sess' = recv_map sess \<and> w_messages w' = w_messages w \<and>
       s_recv_buffer_count sess' = s_recv_buffer_count sess) \<and>
    w_out w' = w_out w @ map (retrans_datagram os ctx (s_handle sess))
      (retrans_seqs (c_udp_slide_window ctx) (dom (recv_map sess')) (s_recv_seq sess) (md_seq mdata)
        (s_retry_seq sess) (map of_nat [0..<c_udp_slide_window ctx]))"
  by (rule data_request_early_spec [OF assms])

text \<open>
  A closing session: if the packet that follows in the queue is the last thing the session
  holds, taking it out ends the session, and the loop goes on with the freed memory.
\<close>

text \<open>
  C27: When the last queued packet of a closing session is delivered, the handler frees the session
  and goes on to use it: the run has no defined result.
\<close>

lemma deliver_closing_undefined:
  assumes w: "world_ok w" and s: "w_sessions w s = Some sess" "s_status sess = 3"
    and l: "linked w sess r rule c ctx n" and plen: "packet_len_ok mdata mdata_len"
    and seq: "md_seq mdata = s_recv_seq sess + 1"
    and b: "b = take (mdata_len - sizeof_md) (md_payload mdata)"
    and send: "os_send os (w_calls w) (s_sock sess) b = (int (length b), err)" "b \<noteq> []"
    and last: "messages_of sess = {m}" "recv_map sess (md_seq mdata + 1) = Some m"
  shows "t2u_session_handle_data_request os s mdata mdata_len w = None"
proof -
  note L = linkedD [OF l]
  let ?sess1 = "sess\<lparr>s_last_send_ts := os_time os (Suc (w_calls w)), s_recv_seq := s_recv_seq sess + 1\<rparr>"
  let ?w1 = "w\<lparr>w_calls := Suc (Suc (w_calls w)),
    w_out := w_out w @ deliver_trace os ctx sess (md_seq mdata) [(b, int (length b), False)],
    w_sessions := (w_sessions w)(s \<mapsto> ?sess1)\<rparr>"
  have nf: "\<not> write_failed (int (length b)) err" using send(2) by (simp add: write_failed_def)
  from deliver_packet_exec [OF s(1) L(4) plen b send(1)] nf have
    e1: "deliver_packet os s (Some c) (s_handle sess) mdata mdata_len (md_seq mdata) w =
      Some (False, True, w\<lparr>w_sessions := (w_sessions w)(s \<mapsto> sess\<lparr>s_last_send_ts := os_time os (Suc (w_calls w))\<rparr>),
        w_calls := Suc (Suc (w_calls w)),
        w_out := w_out w @ deliver_trace os ctx sess (md_seq mdata) [(b, int (length b), False)]\<rparr>)" by simp
  have W1: "world_ok ?w1"
    by (rule world_ok_session_fields [OF w s(1), of ?sess1])
      (use s(2) session_events_cong [of ?sess1 sess] in auto)
  from world_okD(1) [OF w s(1)] obtain c2 where q: "queues_ok c2 (w_messages w) s sess"
    by (auto simp: session_ok_def)
  have "w_sessions ?w1 s = Some ?sess1" "s_status ?sess1 \<noteq> 1" using s(2) by simp_all
  moreover have "recv_map ?sess1 (md_seq mdata + 1) = Some m" using last(2) by simp
  ultimately obtain len data t where
    t: "rb_map t = (recv_map ?sess1)(md_seq mdata + 1 := None)" and
    n: "take_next_packet s (md_seq mdata + 1) ?w1 =
        Some (Some (data, len), packet_taken s ?sess1 m t ?w1)"
      "world_ok (packet_taken s ?sess1 m t ?w1)"
    by (rule take_next_packet_hit [OF W1])
  have t: "rb_map t = (recv_map sess)(md_seq mdata + 1 := None)" using t by simp
  let ?sess2 = "?sess1\<lparr>s_recv_mess := t, s_recv_buffer_count := s_recv_buffer_count sess - 1\<rparr>"
  let ?w2 = "?w1\<lparr>w_messages := (w_messages w)(m := None), w_sessions := (w_sessions ?w1)(s \<mapsto> ?sess2)\<rparr>"
  have W2: "world_ok ?w2" and
    t2: "take_next_packet s (md_seq mdata + 1) ?w1 = Some (Some (data, len), ?w2)"
    using n by (simp_all add: packet_taken_def)
  have "ran (rb_map t) = ran (recv_map sess) - {m}"
    unfolding t by (rule ran_del [where f = "recv_map sess", OF last(2)])
      (rule recv_queue_inj [OF queues_okD(2) [OF q] _ last(2)])
  moreover have "m \<notin> ran (send_map sess)" by (rule send_ran_recv_disjoint [OF q last(2)])
  ultimately have "messages_of ?sess2 = {}" using last(1) by (auto simp: messages_of_def)
  with try_delete_ok [OF W2, of s ?sess2 os] s(2) obtain w3 where
    w3: "t2u_try_delete_connected_session os s ?w2 = Some w3" "w_sessions w3 s = None" by auto
  have "deliver_loop os s (Some c) (s_handle sess) data len (md_seq data) w3 = None"
    using w3(2) by (subst deliver_loop.simps) (simp add: deliver_packet_def assert_that_def)
  then have "deliver_loop os s (Some c) (s_handle sess) mdata mdata_len (md_seq mdata) w = None"
    using t2 w3(1) by (subst deliver_loop.simps) (simp add: e1 put_session_def)
  then show ?thesis
    using s(1) L seq by (simp add: t2u_session_handle_data_request_def)
qed

end
