(* ===== verification/T2u_Lifecycle.thy ===== *)
theory T2u_Lifecycle
  imports T2u_Deliver
begin

text \<open>
  The life of a session: it is created connecting, is established by the answer of the other
  side, and is ended by a failure or a timeout. Also how the session of a datagram is found.
\<close>

section \<open>Creating a session\<close>

lemma live_rule:
  assumes w: "world_ok w" and r: "w_rules w r = Some rule"
  obtains c ctx n run where "r_context rule = Some c" "w_contexts w c = Some ctx" "c_runner ctx = Some n"
    "w_runners w n = Some run" "rb_ok (r_sessions rule)" "rb_ok (r_connecting_sessions rule)"
    "the_context w (r_context rule) = Some ctx"
proof -
  from world_okD(2) [OF w r] obtain c ctx where c: "r_context rule = Some c" "w_contexts w c = Some ctx" and
    ok: "rb_ok (r_sessions rule)" "rb_ok (r_connecting_sessions rule)"
    by (auto simp: rule_ok_def rule_links_def)
  from world_okD(3) [OF w c(2)] obtain n run where "c_runner ctx = Some n" "w_runners w n = Some run"
    by (auto simp: context_ok_def)
  with that c ok show ?thesis by (simp add: the_context_def)
qed

definition connect_request_datagram :: "os \<Rightarrow> t2u_context \<Rightarrow> t2u_rule \<Rightarrow> u64 \<Rightarrow> action" where
  "connect_request_datagram os ctx rule handle =
     UdpSend (c_sock ctx) (md_bytes (new_mdata (os_arch os) connect_request handle 0
       (cbytes (r_service rule) @ [0])))"

lemma session_connect_client_ok:
  assumes w: "world_ok w" and s: "w_sessions w s = Some sess"
    and l: "linked w sess r rule c ctx n" and m: "r_mode rule = forward_client_mode"
  shows "\<exists>w'. session_connect os s w = Some w' \<and> world_ok w' \<and>
    w' = w\<lparr>w_sessions := (w_sessions w)(s \<mapsto> sess\<lparr>s_send_seq := 0, s_last_send_ts := os_time os (w_calls w)\<rparr>),
      w_calls := Suc (w_calls w),
      w_out := w_out w @ [connect_request_datagram os ctx rule (s_handle sess)]\<rparr>"
proof -
  note L = linkedD [OF l]
  let ?sess = "sess\<lparr>s_send_seq := 0, s_last_send_ts := os_time os (w_calls w)\<rparr>"
  let ?w = "w\<lparr>w_sessions := (w_sessions w)(s \<mapsto> ?sess), w_calls := Suc (w_calls w),
      w_out := w_out w @ [connect_request_datagram os ctx rule (s_handle sess)]\<rparr>"
  have "s_status sess \<in> {1, 2, 3}" using world_okD(1) [OF w s] by (auto simp: session_ok_def)
  then have "world_ok ?w"
    by (intro world_ok_session_fields [OF w s, of ?sess])
      (use session_events_cong [of ?sess sess] in auto)
  moreover have "session_connect os s w = Some ?w"
    using s L m by (simp add: session_connect_def t2u_send_message_data_def world_defs deref_defs
        connect_request_datagram_def)
  ultimately show ?thesis by simp
qed

definition connect_failed :: "int \<times> int \<Rightarrow> bool" where
  "connect_failed res \<longleftrightarrow> fst res = - 1 \<and> snd res \<noteq> EINPROGRESS"

lemma session_connect_server_ok:
  assumes w: "world_ok w" and s: "w_sessions w s = Some sess" "s_status sess = 1"
    and l: "linked w sess r rule c ctx n" and m: "r_mode rule = forward_server_mode"
  shows "\<exists>w'. session_connect os s w = Some w' \<and> world_ok w' \<and> w_messages w' = w_messages w \<and>
    w_contexts w' = w_contexts w \<and> w_runners w' = w_runners w \<and> w_handle_seq w' = w_handle_seq w \<and>
    (if connect_failed (os_connect os (w_calls w) (s_sock sess) (r_conn_addr rule))
     then w_sessions w' = (w_sessions w)(s := None) \<and>
       w_out w' = w_out w @ event_frees (s_ev sess) @
         (if s_sock sess \<noteq> 0 then [CloseSocket (s_sock sess)] else [])
     else w_sessions w' = w_sessions w \<and> w_rules w' = w_rules w \<and> w_out w' = w_out w)"
proof -
  note L = linkedD [OF l]
  obtain ret err where c: "os_connect os (w_calls w) (s_sock sess) (r_conn_addr rule) = (ret, err)" by force
  let ?w = "w\<lparr>w_calls := Suc (w_calls w)\<rparr>"
  have e: "session_connect os s w =
      (if connect_failed (ret, err) then t2u_delete_connecting_session s ?w else Some ?w)"
    using s L m c by (simp add: session_connect_def connect_failed_def tick_def the_rule_def Let_def)
  from world_okD(2) [OF w L(2)] have ok: "rb_ok (r_connecting_sessions rule)" by (simp add: rule_ok_def)
  have W: "world_ok ?w" "linked ?w sess r rule c ctx n" "w_sessions ?w s = Some sess" using w l s by simp_all
  from delete_connecting_session_exec [OF W(3,2) ok] delete_connecting_session_ok [OF W(1,3) s(2) W(2)] W(1)
  show ?thesis unfolding e c by auto
qed

text \<open>The new session, before it connects.\<close>

lemma new_session_sel [simp]:
  "send_map (new_session r sock h ev) = Map.empty" "recv_map (new_session r sock h ev) = Map.empty"
  "messages_of (new_session r sock h ev) = {}"
  "s_rule (new_session r sock h ev) = Some r" "s_status (new_session r sock h ev) = 1"
  "s_handle (new_session r sock h ev) = h" "s_sock (new_session r sock h ev) = sock"
  "s_ev (new_session r sock h ev) = Some ev"
  by (simp_all add: new_session_def messages_of_def rbtree_init_map)

lemma new_session_queues: "queues_ok c msgs s (new_session r sock h ev)"
  by (simp add: queues_ok_def send_queue_ok_def recv_queue_ok_def new_session_def rbtree_init_map)

text \<open>The state in which \<open>session_connect_\<close> is called for the new session.\<close>

definition connecting_event :: "forward_mode \<Rightarrow> addr \<Rightarrow> addr \<Rightarrow> addr \<Rightarrow> addr \<Rightarrow> int \<Rightarrow> t2u_event" where
  "connecting_event mode r c n s sock = t2u_event_new
     \<lparr>te_runner := Some n, te_context := Some c, te_rule := Some r, te_session := Some s,
      te_event := Some (evtimer Cb_connect_timeout),
      te_extra_event :=
        (if mode = forward_server_mode then Some (ev_write Cb_connect_success sock) else None)\<rparr>"

definition connecting_trace :: "forward_mode \<Rightarrow> t2u_context \<Rightarrow> int \<Rightarrow> action list" where
  "connecting_trace mode ctx sock =
     EventAdd (evtimer Cb_connect_timeout) (Some (timeval_ms (c_utimeout ctx))) #
     (if mode = forward_server_mode then [EventAdd (ev_write Cb_connect_success sock) None] else [])"

lemma add_connecting_session_prepared:
  fixes w handle
  defines "h \<equiv> session_handle handle (next_handle_seq (w_handle_seq w))"
  assumes w: "world_ok w" and r: "w_rules w r = Some rule" and c: "r_context rule = Some c"
    "w_contexts w c = Some ctx" "c_runner ctx = Some n" "w_runners w n = Some run"
    and new: "rb_map (r_connecting_sessions rule) (session_handle handle (next_handle_seq (w_handle_seq w))) = None"
  shows "\<exists>w1 t sess. t2u_add_connecting_session os r sock handle w =
      map_option (Pair (w_fresh w)) (session_connect os (w_fresh w) w1) \<and> world_ok w1 \<and>
    sess = new_session r sock h (connecting_event (r_mode rule) r c n (w_fresh w) sock) \<and>
    linked w1 sess r (rule\<lparr>r_connecting_sessions := t\<rparr>) c ctx n \<and>
    rb_map t = (rb_map (r_connecting_sessions rule))(h \<mapsto> w_fresh w) \<and>
    w1 = w\<lparr>w_fresh := Suc (w_fresh w), w_handle_seq := next_handle_seq (w_handle_seq w),
      w_out := w_out w @ connecting_trace (r_mode rule) ctx sock,
      w_sessions := (w_sessions w)(w_fresh w \<mapsto> sess),
      w_rules := (w_rules w)(r \<mapsto> rule\<lparr>r_connecting_sessions := t\<rparr>)\<rparr>"
proof -
  let ?s = "w_fresh w" and ?seq = "next_handle_seq (w_handle_seq w)"
  let ?ev = "connecting_event (r_mode rule) r c n (w_fresh w) sock"
  let ?sess = "new_session r sock h ?ev"
  from world_okD(2) [OF w r] have ok: "rb_ok (r_connecting_sessions rule)" by (simp add: rule_ok_def)
  from rb.ins_new [OF ok new, of ?s, folded h_def] obtain t where
    t: "rbtree_insert True (r_connecting_sessions rule) h ?s = Some (0, t)" "rb_ok t"
    "rb_map t = (rb_map (r_connecting_sessions rule))(h \<mapsto> ?s)" by blast
  let ?rule = "rule\<lparr>r_connecting_sessions := t\<rparr>"
  let ?w1 = "w\<lparr>w_fresh := Suc ?s, w_handle_seq := ?seq,
      w_out := w_out w @ connecting_trace (r_mode rule) ctx sock,
      w_sessions := (w_sessions w)(?s \<mapsto> ?sess), w_rules := (w_rules w)(r \<mapsto> ?rule)\<rparr>"
  have e: "t2u_add_connecting_session os r sock handle w =
      map_option (Pair ?s) (session_connect os ?s ?w1)"
    using r c t(1) unfolding h_def
    by (cases "r_mode rule"; cases "session_connect os ?s ?w1")
      (simp_all add: t2u_add_connecting_session_def world_defs deref_defs Let_def connecting_event_def
        connecting_trace_def h_def t2u_event_new_def)
  have l: "linked ?w1 ?sess r ?rule c ctx n" using r c by (simp add: linked_def)
  have "session_ok ?w1 ?s ?sess"
  proof (rule session_okI [OF l new_session_queues])
    show "session_events (r_mode ?rule) r c n ?s ?sess"
      by (simp add: session_events_def connecting_event_def t2u_event_new_def)
    show "registry ?rule (s_status ?sess) (s_handle ?sess) = Some ?s"
      using t(3) by (simp add: registry_def)
  qed simp_all
  then have "world_ok ?w1"
    by (intro world_ok_session_add [OF w r, of ?s ?w1 ?sess t])
      (use t new in \<open>simp_all add: h_def\<close>)
  with e l t(3) show ?thesis by (intro exI [of _ ?w1] exI [of _ t] exI [of _ ?sess]) simp
qed

text \<open>
  A client session sends its connect request. A server session waits for \<open>connect\<close> to finish,
  and one whose \<open>connect\<close> fails at once is gone again when the function returns its address.
\<close>

lemma add_connecting_session_client:
  fixes w handle
  defines "h \<equiv> session_handle handle (next_handle_seq (w_handle_seq w))"
  assumes w: "world_ok w" and r: "w_rules w r = Some rule" "r_mode rule = forward_client_mode"
    and c: "r_context rule = Some c" "w_contexts w c = Some ctx" "c_runner ctx = Some n" "w_runners w n = Some run"
    and new: "rb_map (r_connecting_sessions rule) h = None"
  shows "\<exists>w' t sess. t2u_add_connecting_session os r sock handle w = Some (w_fresh w, w') \<and> world_ok w' \<and>
    w_sessions w' = (w_sessions w)(w_fresh w \<mapsto> sess) \<and>
    s_rule sess = Some r \<and> s_sock sess = sock \<and> s_handle sess = h \<and> s_status sess = 1 \<and>
    w_rules w' = (w_rules w)(r \<mapsto> rule\<lparr>r_connecting_sessions := t\<rparr>) \<and>
    rb_map t = (rb_map (r_connecting_sessions rule))(h \<mapsto> w_fresh w) \<and>
    w_messages w' = w_messages w \<and> w_handle_seq w' = next_handle_seq (w_handle_seq w) \<and>
    w_out w' = w_out w @ [EventAdd (evtimer Cb_connect_timeout) (Some (timeval_ms (c_utimeout ctx))),
      connect_request_datagram os ctx rule h]"
proof -
  from add_connecting_session_prepared [OF w r(1) c new [unfolded h_def], of os sock, folded h_def] obtain w1 t sess
    where a: "t2u_add_connecting_session os r sock handle w =
        map_option (Pair (w_fresh w)) (session_connect os (w_fresh w) w1)" "world_ok w1"
      "sess = new_session r sock h (connecting_event (r_mode rule) r c n (w_fresh w) sock)"
      "linked w1 sess r (rule\<lparr>r_connecting_sessions := t\<rparr>) c ctx n"
      "rb_map t = (rb_map (r_connecting_sessions rule))(h \<mapsto> w_fresh w)"
    and w1: "w1 = w\<lparr>w_fresh := Suc (w_fresh w), w_handle_seq := next_handle_seq (w_handle_seq w),
      w_out := w_out w @ connecting_trace (r_mode rule) ctx sock,
      w_sessions := (w_sessions w)(w_fresh w \<mapsto> sess),
      w_rules := (w_rules w)(r \<mapsto> rule\<lparr>r_connecting_sessions := t\<rparr>)\<rparr>"
    by blast
  have s1: "w_sessions w1 (w_fresh w) = Some sess" by (simp add: w1)
  from session_connect_client_ok [OF a(2) s1 a(4), of os] r(2) obtain w' where
    "session_connect os (w_fresh w) w1 = Some w'" "world_ok w'" and
    w': "w' = w1\<lparr>w_sessions := (w_sessions w1)(w_fresh w \<mapsto>
          sess\<lparr>s_send_seq := 0, s_last_send_ts := os_time os (w_calls w1)\<rparr>),
        w_calls := Suc (w_calls w1),
        w_out := w_out w1 @ [connect_request_datagram os ctx (rule\<lparr>r_connecting_sessions := t\<rparr>) (s_handle sess)]\<rparr>"
    by auto
  with a(1) have "t2u_add_connecting_session os r sock handle w = Some (w_fresh w, w')" "world_ok w'" by simp_all
  then show ?thesis using a(5) r(2)
    by (intro exI [of _ w'] exI [of _ t]
        exI [of _ "sess\<lparr>s_send_seq := 0, s_last_send_ts := os_time os (w_calls w1)\<rparr>"])
      (simp add: w' w1 a(3) connecting_trace_def connect_request_datagram_def)
qed

lemma add_connecting_session_server:
  fixes w handle
  defines "h \<equiv> session_handle handle (next_handle_seq (w_handle_seq w))"
  assumes w: "world_ok w" and r: "w_rules w r = Some rule" "r_mode rule = forward_server_mode"
    and c: "r_context rule = Some c" "w_contexts w c = Some ctx" "c_runner ctx = Some n" "w_runners w n = Some run"
    and new: "rb_map (r_connecting_sessions rule) h = None"
  shows "\<exists>w' t sess. t2u_add_connecting_session os r sock handle w = Some (w_fresh w, w') \<and> world_ok w' \<and>
    w_messages w' = w_messages w \<and> w_handle_seq w' = next_handle_seq (w_handle_seq w) \<and>
    (if connect_failed (os_connect os (w_calls w) sock (r_conn_addr rule))
     then w_sessions w' = w_sessions w \<and>
       w_out w' = w_out w @ connecting_trace forward_server_mode ctx sock @
         [EventFree (evtimer Cb_connect_timeout), EventFree (ev_write Cb_connect_success sock)] @
         (if sock \<noteq> 0 then [CloseSocket sock] else [])
     else w_sessions w' = (w_sessions w)(w_fresh w \<mapsto> sess) \<and>
       s_rule sess = Some r \<and> s_sock sess = sock \<and> s_handle sess = h \<and> s_status sess = 1 \<and>
       w_rules w' = (w_rules w)(r \<mapsto> rule\<lparr>r_connecting_sessions := t\<rparr>) \<and>
       rb_map t = (rb_map (r_connecting_sessions rule))(h \<mapsto> w_fresh w) \<and>
       w_out w' = w_out w @ connecting_trace forward_server_mode ctx sock)"
proof -
  from add_connecting_session_prepared [OF w r(1) c new [unfolded h_def], of os sock, folded h_def] obtain w1 t sess
    where a: "t2u_add_connecting_session os r sock handle w =
        map_option (Pair (w_fresh w)) (session_connect os (w_fresh w) w1)" "world_ok w1"
      "sess = new_session r sock h (connecting_event (r_mode rule) r c n (w_fresh w) sock)"
      "linked w1 sess r (rule\<lparr>r_connecting_sessions := t\<rparr>) c ctx n"
      "rb_map t = (rb_map (r_connecting_sessions rule))(h \<mapsto> w_fresh w)"
    and w1: "w1 = w\<lparr>w_fresh := Suc (w_fresh w), w_handle_seq := next_handle_seq (w_handle_seq w),
      w_out := w_out w @ connecting_trace (r_mode rule) ctx sock,
      w_sessions := (w_sessions w)(w_fresh w \<mapsto> sess),
      w_rules := (w_rules w)(r \<mapsto> rule\<lparr>r_connecting_sessions := t\<rparr>)\<rparr>"
    by blast
  have s1: "w_sessions w1 (w_fresh w) = Some sess" "s_status sess = 1" by (simp_all add: w1 a(3))
  have fr: "(w_sessions w)(w_fresh w := None) = w_sessions w" using fresh_none(1) [OF w, of "w_fresh w"] by auto
  from session_connect_server_ok [OF a(2) s1 a(4), of os] r(2) obtain w' where
    e: "session_connect os (w_fresh w) w1 = Some w'" "world_ok w'" and
    w': "w_messages w' = w_messages w1" "w_handle_seq w' = w_handle_seq w1"
      "if connect_failed (os_connect os (w_calls w1) (s_sock sess) (r_conn_addr rule))
       then w_sessions w' = (w_sessions w1)(w_fresh w := None) \<and>
         w_out w' = w_out w1 @ event_frees (s_ev sess) @
           (if s_sock sess \<noteq> 0 then [CloseSocket (s_sock sess)] else [])
       else w_sessions w' = w_sessions w1 \<and> w_rules w' = w_rules w1 \<and> w_out w' = w_out w1"
    by auto
  from e a(1) have "t2u_add_connecting_session os r sock handle w = Some (w_fresh w, w')" by simp
  with e(2) show ?thesis using w' a(5) r(2) fr
    by (intro exI [of _ w'] exI [of _ t] exI [of _ sess])
      (simp add: w1 a(3) event_frees_def connecting_event_def t2u_event_new_def split: if_splits)
qed

section \<open>The connection timer\<close>

lemma connecting:
  assumes w: "world_ok w" and s: "w_sessions w s = Some sess" "s_status sess = 1"
    and l: "linked w sess r rule c ctx n"
  obtains ev where "s_ev sess = Some ev" "te_rule ev = Some r" "te_context ev = Some c"
    "te_runner ev = Some n" "te_session ev = Some s" "te_event ev = Some (evtimer Cb_connect_timeout)"
    "te_extra_event ev = (if r_mode rule = forward_server_mode
       then Some (ev_write Cb_connect_success (s_sock sess)) else None)"
    "queues_ok (r, c, n) (w_messages w) s sess" "messages_of sess = {}"
    "rb_map (r_connecting_sessions rule) (s_handle sess) = Some s"
proof -
  from world_okD(1) [OF w s(1)] l s(2) have q: "queues_ok (r, c, n) (w_messages w) s sess" "messages_of sess = {}"
    and ev: "session_events (r_mode rule) r c n s sess"
    and reg: "rb_map (r_connecting_sessions rule) (s_handle sess) = Some s"
    by (auto simp: session_ok_def linked_def registry_def)
  from ev show ?thesis by (rule session_eventsE) (use that s(2) q reg in auto)
qed

lemma world_ok_connecting_fields:
  assumes w: "world_ok w" and s: "w_sessions w s = Some sess" "s_status sess = 1"
  shows "world_ok (w\<lparr>w_sessions := (w_sessions w)(s \<mapsto> sess\<lparr>s_connect_retries := k\<rparr>)\<rparr>)"
  by (rule world_ok_session_fields [OF w s(1), of "sess\<lparr>s_connect_retries := k\<rparr>"])
    (use s(2) in \<open>auto simp: session_events_def\<close>)

text \<open>The last try has timed out.\<close>

lemma connect_timeout_last_spec:
  assumes w: "world_ok w" and s: "w_sessions w s = Some sess" "s_status sess = 1"
    and l: "linked w sess r rule c ctx n" and k: "c_uretries ctx \<le> s_connect_retries sess + 1"
  shows "\<exists>w'. session_connect_timeout_cb os s w = Some w' \<and> world_ok w' \<and>
    w_sessions w' = (w_sessions w)(s := None) \<and> w_messages w' = w_messages w \<and>
    w_out w' = w_out w @ event_frees (s_ev sess) @
      (if s_sock sess \<noteq> 0 then [CloseSocket (s_sock sess)] else [])"
proof -
  note L = linkedD [OF l]
  let ?sess = "sess\<lparr>s_connect_retries := s_connect_retries sess + 1\<rparr>"
  let ?w = "w\<lparr>w_sessions := (w_sessions w)(s \<mapsto> ?sess)\<rparr>"
  obtain ev where ev: "s_ev sess = Some ev" "te_context ev = Some c" "te_session ev = Some s"
    by (rule connecting [OF w s l])
  have W: "world_ok ?w" "linked ?w ?sess r rule c ctx n" "w_sessions ?w s = Some ?sess" "s_status ?sess = 1"
    using world_ok_connecting_fields [OF w s] l linked_session [of ?sess sess w] s(2) by simp_all
  have "session_connect_timeout_cb os s w = t2u_delete_connecting_session s ?w"
    using s ev L(4) k by (simp add: session_connect_timeout_cb_def the_context_def put_session_def)
  with delete_connecting_session_ok [OF W(1,3,4,2)] show ?thesis by auto
qed

text \<open>Otherwise the timer is set again and a client repeats its request.\<close>

lemma connect_timeout_retry_spec:
  assumes w: "world_ok w" and s: "w_sessions w s = Some sess" "s_status sess = 1"
    and l: "linked w sess r rule c ctx n" and k: "s_connect_retries sess + 1 < c_uretries ctx"
  shows "\<exists>w' sess'. session_connect_timeout_cb os s w = Some w' \<and> world_ok w' \<and>
    w_sessions w' = (w_sessions w)(s \<mapsto> sess') \<and> s_connect_retries sess' = s_connect_retries sess + 1 \<and>
    s_handle sess' = s_handle sess \<and> s_status sess' = 1 \<and> w_messages w' = w_messages w \<and> same_owners w w' \<and>
    w_out w' = w_out w @ EventAdd (evtimer Cb_connect_timeout) (Some (timeval_ms (c_utimeout ctx))) #
      (if r_mode rule = forward_client_mode then [connect_request_datagram os ctx rule (s_handle sess)] else [])"
proof -
  note L = linkedD [OF l]
  let ?sess = "sess\<lparr>s_connect_retries := s_connect_retries sess + 1\<rparr>"
  let ?w = "w\<lparr>w_sessions := (w_sessions w)(s \<mapsto> ?sess),
    w_out := w_out w @ [EventAdd (evtimer Cb_connect_timeout) (Some (timeval_ms (c_utimeout ctx)))]\<rparr>"
  obtain ev where ev: "s_ev sess = Some ev" "te_rule ev = Some r" "te_context ev = Some c"
    "te_session ev = Some s" "te_event ev = Some (evtimer Cb_connect_timeout)"
    by (rule connecting [OF w s l])
  have W: "world_ok ?w" "linked ?w ?sess r rule c ctx n" "w_sessions ?w s = Some ?sess" "s_status ?sess = 1"
    using world_ok_connecting_fields [OF w s] l linked_session [of ?sess sess w] s(2) by simp_all
  have e: "session_connect_timeout_cb os s w =
      (if r_mode rule = forward_client_mode then session_connect os s ?w else Some ?w)"
    using s ev L(2,4) k
    by (simp add: session_connect_timeout_cb_def the_context_def the_rule_def put_session_def event_add_def emit_def)
  show ?thesis
  proof (cases "r_mode rule = forward_client_mode")
    case True
    from session_connect_client_ok [OF W(1,3,2) True, of os] obtain w' where
      "session_connect os s ?w = Some w'" "world_ok w'" and
      w': "w' = ?w\<lparr>w_sessions := (w_sessions ?w)(s \<mapsto>
          ?sess\<lparr>s_send_seq := 0, s_last_send_ts := os_time os (w_calls ?w)\<rparr>),
        w_calls := Suc (w_calls ?w),
        w_out := w_out ?w @ [connect_request_datagram os ctx rule (s_handle ?sess)]\<rparr>" by blast
    then show ?thesis using e True s(2)
      by (intro exI [of _ w'] exI [of _ "?sess\<lparr>s_send_seq := 0, s_last_send_ts := os_time os (w_calls ?w)\<rparr>"])
        (simp add: same_owners_def)
  next
    case False
    with e W(1) s(2) show ?thesis by (intro exI [of _ ?w] exI [of _ ?sess]) (simp add: same_owners_def)
  qed
qed

section \<open>Establishing a session\<close>

definition connected_event :: "t2u_event \<Rightarrow> int \<Rightarrow> t2u_event" where
  "connected_event ev sock =
     ev\<lparr>te_event := Some (ev_read Cb_process_tcp sock), te_extra_event := Some (evtimer Cb_timeout_check)\<rparr>"

definition connected_trace :: "t2u_context \<Rightarrow> int \<Rightarrow> action list" where
  "connected_trace ctx sock =
     [EventAdd (ev_read Cb_process_tcp sock) None,
      EventAdd (evtimer Cb_timeout_check) (Some (c_session_timeout ctx, 0))]"

lemma move_to_connected_exec:
  assumes s: "w_sessions w s = Some sess" and r: "w_rules w r = Some rule"
    and ok: "rb_ok (r_sessions rule)" "rb_ok (r_connecting_sessions rule)"
    and new: "rb_map (r_sessions rule) h = None"
  obtains t1 t2 where "rb_ok t1" "rb_ok t2" "rb_map t1 = (rb_map (r_sessions rule))(h \<mapsto> s)"
    "rb_map t2 = (rb_map (r_connecting_sessions rule))(s_handle sess := None)"
    "move_to_connected r s h w = Some (w\<lparr>w_sessions := (w_sessions w)(s \<mapsto> sess\<lparr>s_handle := h\<rparr>),
      w_rules := (w_rules w)(r \<mapsto> with_trees rule t1 t2)\<rparr>)"
proof -
  from rb.del_total [OF ok(2), of "s_handle sess"] obtain code t2 where
    t2: "rbtree_remove (r_connecting_sessions rule) (s_handle sess) = Some (code, t2)" "rb_ok t2"
    "rb_map t2 = (rb_map (r_connecting_sessions rule))(s_handle sess := None)" by auto
  from rb.ins_new [OF ok(1) new, of s] obtain t1 where
    t1: "rbtree_insert True (r_sessions rule) h s = Some (0, t1)" "rb_ok t1"
    "rb_map t1 = (rb_map (r_sessions rule))(h \<mapsto> s)" by blast
  show ?thesis
    by (rule that [OF t1(2) t2(2) t1(3) t2(3)]) (use s r t1 t2 in \<open>cases rule; simp add: move_to_connected_def world_defs\<close>)
qed

text \<open>The state after the session has been established, up to time stamp and trace.\<close>

lemma world_ok_established:
  assumes w: "world_ok w" and s: "w_sessions w s = Some sess" "s_status sess = 1"
    and l: "linked w sess r rule c ctx n" and ev: "s_ev sess = Some ev"
    and new: "rb_map (r_sessions rule) h = None"
    and t: "rb_ok t1" "rb_ok t2" "rb_map t1 = (rb_map (r_sessions rule))(h \<mapsto> s)"
      "rb_map t2 = (rb_map (r_connecting_sessions rule))(s_handle sess := None)"
    and sess': "s_rule sess' = s_rule sess" "s_handle sess' = h" "s_status sess' = 2"
      "s_sock sess' = s_sock sess" "s_ev sess' = Some (connected_event ev' (s_sock sess))"
      "te_rule ev' = te_rule ev" "te_context ev' = te_context ev" "te_runner ev' = te_runner ev"
      "te_session ev' = te_session ev"
      "s_send_mess sess' = s_send_mess sess" "s_recv_mess sess' = s_recv_mess sess"
      "s_send_buffer_count sess' = s_send_buffer_count sess"
      "s_recv_buffer_count sess' = s_recv_buffer_count sess" "te_message ev' = te_message ev"
    and w': "w_sessions w' = (w_sessions w)(s \<mapsto> sess')" "w_messages w' = w_messages w"
      "w_rules w' = (w_rules w)(r \<mapsto> with_trees rule t1 t2)"
      "w_contexts w' = w_contexts w" "w_runners w' = w_runners w" "w_fresh w' = w_fresh w"
  shows "world_ok w'"
proof (rule world_ok_session_move [OF w s, where sess' = sess' and ?t1.0 = t1 and ?t2.0 = t2])
  note L = linkedD [OF l]
  obtain ev0 where e: "s_ev sess = Some ev0" "te_rule ev0 = Some r" "te_context ev0 = Some c"
      "te_runner ev0 = Some n" "te_session ev0 = Some s"
    and q: "queues_ok (r, c, n) (w_messages w) s sess" "messages_of sess = {}"
    by (rule connecting [OF w s l])
  show "s_rule sess = Some r" "w_rules w r = Some rule" by (rule L)+
  show m: "messages_of sess' = {}" using q(2) by (simp add: messages_of_def sess')
  show "session_ok w' s sess'"
  proof (rule session_okI)
    show "linked w' sess' r (with_trees rule t1 t2) c ctx n" using l by (auto simp: linked_def sess' w')
    show "queues_ok (r, c, n) (w_messages w') s sess'"
      using q(1) send_queue_ok_fields [of sess' sess] recv_queue_ok_fields [of sess' sess]
      by (simp add: queues_ok_def sess' w'(2))
    show "session_events (r_mode (with_trees rule t1 t2)) r c n s sess'"
      using e ev world_okD(1) [OF w s(1)] by (auto simp: session_events_def session_ok_def sess' connected_event_def)
    show "registry (with_trees rule t1 t2) (s_status sess') (s_handle sess') = Some s"
      by (simp add: registry_def sess' t(3))
  qed (use m in \<open>simp_all add: sess'\<close>)
  show "rb_map t1 = (rb_map (r_sessions rule))(s_handle sess' \<mapsto> s)" using t(3) sess'(2) by simp
  show "rb_map (r_sessions rule) (s_handle sess') = None" using new sess'(2) by simp
qed (use linkedD(1) [OF l] sess' t w' in simp_all)

text \<open>The client side: the answer carries the handle that the server has chosen.\<close>

definition registered :: "t2u_rule \<Rightarrow> t2u_rule \<Rightarrow> addr \<Rightarrow> u64 \<Rightarrow> u64 \<Rightarrow> bool" where
  "registered rule rule' s old new \<longleftrightarrow>
     rb_map (r_sessions rule') = (rb_map (r_sessions rule))(new \<mapsto> s) \<and>
     rb_map (r_connecting_sessions rule') = (rb_map (r_connecting_sessions rule))(old := None)"

lemma connect_response_established_spec:
  assumes w: "world_ok w" and s: "w_sessions w s = Some sess" "s_status sess = 1"
    and l: "linked w sess r rule c ctx n" and new: "rb_map (r_sessions rule) (md_handle mdata) = None"
    and p: "4 \<le> length (md_payload mdata)" "get_u32 (md_payload mdata) = 0"
  shows "\<exists>w' sess' rule'. t2u_session_handle_connect_response os s mdata w = Some w' \<and> world_ok w' \<and>
    w_sessions w' = (w_sessions w)(s \<mapsto> sess') \<and>
    s_status sess' = 2 \<and> s_handle sess' = md_handle mdata \<and> s_sock sess' = s_sock sess \<and>
    w_rules w' = (w_rules w)(r \<mapsto> rule') \<and> registered rule rule' s (s_handle sess) (md_handle mdata) \<and>
    w_out w' = w_out w @ EventFree (evtimer Cb_connect_timeout) # connected_trace ctx (s_sock sess)"
proof -
  note L = linkedD [OF l]
  obtain ev where ev: "s_ev sess = Some ev" "te_event ev = Some (evtimer Cb_connect_timeout)"
    by (rule connecting [OF w s l])
  let ?h = "md_handle mdata" and ?ev = "ev\<lparr>te_event := None\<rparr>"
  let ?sess1 = "sess\<lparr>s_status := 2, s_ev := Some ?ev\<rparr>"
  let ?w1 = "w\<lparr>w_out := w_out w @ [EventFree (evtimer Cb_connect_timeout)],
    w_sessions := (w_sessions w)(s \<mapsto> ?sess1)\<rparr>"
  from world_okD(2) [OF w L(2)] have ok: "rb_ok (r_sessions rule)" "rb_ok (r_connecting_sessions rule)"
    by (auto simp: rule_ok_def)
  have "w_sessions ?w1 s = Some ?sess1" "w_rules ?w1 r = Some rule" using L(2) by simp_all
  from move_to_connected_exec [OF this ok new] obtain t1 t2 where t: "rb_ok t1" "rb_ok t2"
    "rb_map t1 = (rb_map (r_sessions rule))(?h \<mapsto> s)"
    "rb_map t2 = (rb_map (r_connecting_sessions rule))(s_handle ?sess1 := None)" and
    mv: "move_to_connected r s ?h ?w1 = Some (?w1\<lparr>w_sessions := (w_sessions ?w1)(s \<mapsto> ?sess1\<lparr>s_handle := ?h\<rparr>),
      w_rules := (w_rules ?w1)(r \<mapsto> with_trees rule t1 t2)\<rparr>)" by blast
  let ?sess' = "?sess1\<lparr>s_handle := ?h, s_ev := Some (connected_event ?ev (s_sock sess))\<rparr>"
  let ?w' = "?w1\<lparr>w_sessions := (w_sessions ?w1)(s \<mapsto> ?sess'),
    w_rules := (w_rules w)(r \<mapsto> with_trees rule t1 t2),
    w_out := w_out ?w1 @ connected_trace ctx (s_sock sess)\<rparr>"
  have "t2u_session_handle_connect_response os s mdata w = Some ?w'"
    using s L p ev mv
    by (auto simp: t2u_session_handle_connect_response_def bind_connected_events_def event_free_def event_add_def
        emit_def put_session_def the_runner_def connected_event_def connected_trace_def Let_def)
  moreover have "world_ok ?w'"
    by (rule world_ok_established [OF w s l ev(1) new t(1-3), where sess' = ?sess' and ev' = ?ev])
      (use t(4) in simp_all)
  ultimately show ?thesis using t(3,4)
    by (intro exI [of _ ?w'] exI [of _ ?sess'] exI [of _ "with_trees rule t1 t2"]) (simp add: registered_def)
qed

lemma connect_response_refused:
  assumes w: "world_ok w" and s: "w_sessions w s = Some sess" "s_status sess = 1"
    and l: "linked w sess r rule c ctx n"
    and p: "4 \<le> length (md_payload mdata)" "get_u32 (md_payload mdata) \<noteq> 0"
  shows "\<exists>w'. t2u_session_handle_connect_response os s mdata w = Some w' \<and> world_ok w' \<and>
    w_sessions w' = (w_sessions w)(s := None) \<and> w_messages w' = w_messages w \<and>
    w_out w' = w_out w @ event_frees (s_ev sess) @
      (if s_sock sess \<noteq> 0 then [CloseSocket (s_sock sess)] else [])"
proof -
  have "t2u_session_handle_connect_response os s mdata w = t2u_delete_connecting_session s w"
    using s linkedD [OF l] p by (simp add: t2u_session_handle_connect_response_def)
  with delete_connecting_session_ok [OF w s l] show ?thesis by auto
qed

text \<open>The server side: its own connection has been made, which it reports to the client.\<close>

definition connect_response_datagram :: "os \<Rightarrow> t2u_context \<Rightarrow> u64 \<Rightarrow> u32 \<Rightarrow> action" where
  "connect_response_datagram os ctx handle error =
     UdpSend (c_sock ctx) (md_bytes (new_mdata (os_arch os) connect_response handle 0 (put_u32 error)))"

lemma session_connect_response_exec:
  assumes s: "w_sessions w s = Some sess" "s_status sess = 2" and l: "linked w sess r rule c ctx n"
  shows "session_connect_response os s w = Some
    (w\<lparr>w_sessions := (w_sessions w)(s \<mapsto> sess\<lparr>s_send_seq := 0, s_last_send_ts := os_time os (w_calls w)\<rparr>),
       w_calls := Suc (w_calls w), w_out := w_out w @ [connect_response_datagram os ctx (s_handle sess) 0]\<rparr>)"
  using s linkedD [OF l]
  by (simp add: session_connect_response_def t2u_send_message_data_def world_defs deref_defs
      connect_response_datagram_def)

lemma connect_success_established_spec:
  assumes w: "world_ok w" and s: "w_sessions w s = Some sess" "s_status sess = 1"
    and l: "linked w sess r rule c ctx n" and m: "r_mode rule = forward_server_mode"
    and new: "rb_map (r_sessions rule) (s_handle sess) = None"
    and e: "os_sock_error os (w_calls w) sock = 0"
  shows "\<exists>w' sess' rule'. session_connect_success_cb os sock s w = Some w' \<and> world_ok w' \<and>
    w_sessions w' = (w_sessions w)(s \<mapsto> sess') \<and>
    s_status sess' = 2 \<and> s_handle sess' = s_handle sess \<and> s_sock sess' = s_sock sess \<and>
    (\<exists>ev. s_ev sess' = Some ev \<and> te_event ev = Some (ev_read Cb_process_tcp (s_sock sess))) \<and>
    s_send_seq sess' = 0 \<and> s_recv_seq sess' = s_recv_seq sess \<and> w_messages w' = w_messages w \<and>
    w_rules w' = (w_rules w)(r \<mapsto> rule') \<and> registered rule rule' s (s_handle sess) (s_handle sess) \<and>
    w_out w' = w_out w @
      [EventFree (evtimer Cb_connect_timeout), EventFree (ev_write Cb_connect_success (s_sock sess)),
       connect_response_datagram os ctx (s_handle sess) 0] @ connected_trace ctx (s_sock sess)"
proof -
  note L = linkedD [OF l]
  let ?h = "s_handle sess" and ?frees = "[EventFree (evtimer Cb_connect_timeout),
    EventFree (ev_write Cb_connect_success (s_sock sess))]"
  obtain ev where ev: "s_ev sess = Some ev" "te_rule ev = Some r" "te_context ev = Some c"
    "te_runner ev = Some n" "te_session ev = Some s" "te_event ev = Some (evtimer Cb_connect_timeout)"
    "te_extra_event ev = Some (ev_write Cb_connect_success (s_sock sess))"
    by (rule connecting [OF w s l]) (simp add: m)
  let ?ev = "ev\<lparr>te_event := None, te_extra_event := None\<rparr>"
  let ?sess1 = "sess\<lparr>s_status := 2, s_ev := Some ?ev\<rparr>"
  let ?w1 = "w\<lparr>w_calls := Suc (w_calls w), w_out := w_out w @ ?frees,
    w_sessions := (w_sessions w)(s \<mapsto> ?sess1)\<rparr>"
  let ?sess2 = "?sess1\<lparr>s_send_seq := 0, s_last_send_ts := os_time os (Suc (w_calls w))\<rparr>"
  let ?w2 = "?w1\<lparr>w_sessions := (w_sessions ?w1)(s \<mapsto> ?sess2), w_calls := Suc (w_calls ?w1),
    w_out := w_out ?w1 @ [connect_response_datagram os ctx ?h 0]\<rparr>"
  from world_okD(2) [OF w L(2)] have ok: "rb_ok (r_sessions rule)" "rb_ok (r_connecting_sessions rule)"
    by (auto simp: rule_ok_def)
  have "linked ?w1 ?sess1 r rule c ctx n" using l by (auto simp: linked_def)
  from session_connect_response_exec [OF _ _ this, of s os]
  have r2: "session_connect_response os s ?w1 = Some ?w2" by simp
  have "w_sessions ?w2 s = Some ?sess2" "w_rules ?w2 r = Some rule" using L(2) by simp_all
  from move_to_connected_exec [OF this ok new] obtain t1 t2 where t: "rb_ok t1" "rb_ok t2"
    "rb_map t1 = (rb_map (r_sessions rule))(?h \<mapsto> s)"
    "rb_map t2 = (rb_map (r_connecting_sessions rule))(s_handle ?sess2 := None)" and
    mv: "move_to_connected r s ?h ?w2 = Some (?w2\<lparr>w_sessions := (w_sessions ?w2)(s \<mapsto> ?sess2\<lparr>s_handle := ?h\<rparr>),
      w_rules := (w_rules ?w2)(r \<mapsto> with_trees rule t1 t2)\<rparr>)" by blast
  let ?sess' = "?sess2\<lparr>s_handle := ?h, s_ev := Some (connected_event ?ev (s_sock sess))\<rparr>"
  let ?w' = "?w2\<lparr>w_sessions := (w_sessions ?w2)(s \<mapsto> ?sess'),
    w_rules := (w_rules w)(r \<mapsto> with_trees rule t1 t2),
    w_out := w_out ?w2 @ connected_trace ctx (s_sock sess)\<rparr>"
  have "session_connect_success_cb os sock s w = Some ?w'"
    using s(1) ev L(4,6) e r2 mv
    by (auto simp: session_connect_success_cb_def bind_connected_events_def event_free_def event_add_def tick_def
        emit_def put_session_def the_runner_def the_context_def connected_event_def connected_trace_def Let_def)
  moreover have "world_ok ?w'"
    by (rule world_ok_established [OF w s l ev(1) new t(1-3), where sess' = ?sess' and ev' = ?ev])
      (use t(4) in simp_all)
  ultimately show ?thesis using t(3,4)
    by (intro exI [of _ ?w'] exI [of _ ?sess'] exI [of _ "with_trees rule t1 t2"]) (simp add: registered_def connected_event_def)
qed

text \<open>A failed connection ends the session; nothing is sent to the client.\<close>

lemma connect_success_refused:
  assumes w: "world_ok w" and s: "w_sessions w s = Some sess" "s_status sess = 1"
    and l: "linked w sess r rule c ctx n" and e: "os_sock_error os (w_calls w) sock \<noteq> 0"
  shows "\<exists>w'. session_connect_success_cb os sock s w = Some w' \<and> world_ok w' \<and>
    w_sessions w' = (w_sessions w)(s := None) \<and> w_messages w' = w_messages w \<and>
    w_out w' = w_out w @ event_frees (s_ev sess) @
      (if s_sock sess \<noteq> 0 then [CloseSocket (s_sock sess)] else [])"
proof -
  obtain ev where ev: "s_ev sess = Some ev" "te_context ev = Some c" "te_session ev = Some s"
    by (rule connecting [OF w s l])
  let ?w = "w\<lparr>w_calls := Suc (w_calls w)\<rparr>"
  have W: "world_ok ?w" "linked ?w sess r rule c ctx n" "w_sessions ?w s = Some sess" using w l s by simp_all
  have "session_connect_success_cb os sock s w = t2u_delete_connecting_session s ?w"
    using s ev linkedD(4) [OF l] e by (simp add: session_connect_success_cb_def the_context_def tick_def Let_def)
  with delete_connecting_session_ok [OF W(1,3) s(2) W(2)] show ?thesis by auto
qed

section \<open>The inactivity timer\<close>

definition inactive :: "t2u_context \<Rightarrow> t2u_session \<Rightarrow> int \<Rightarrow> bool" where
  "inactive ctx sess now \<longleftrightarrow> now - s_last_send_ts sess > int (c_session_timeout ctx)"

text \<open>
  A session that has not sent for longer than the timeout ends. Otherwise the timer is set for
  the rest of the time, which is at least a second; only a clock that has been set back makes it
  longer than the timeout.
\<close>

lemma timeout_check_ok_spec:
  fixes os w
  defines "now \<equiv> os_time os (w_calls w)"
  assumes w: "world_ok w" and s: "w_sessions w s = Some sess" "s_status sess \<noteq> 1"
    and l: "linked w sess r rule c ctx n"
  shows "\<exists>w' k. session_timeout_check_cb os s w = Some w' \<and> world_ok w' \<and>
    (if inactive ctx sess now
     then w_sessions w' = (w_sessions w)(s := None) \<and> w_messages w' = w_messages w |` (- messages_of sess) \<and>
       w_out w' = w_out w @ session_end_trace os ctx sess 0
     else w' = w\<lparr>w_calls := Suc (w_calls w),
           w_out := w_out w @ [EventAdd (evtimer Cb_timeout_check) (Some (k, 0))]\<rparr> \<and>
       1 \<le> k \<and> int k = max 1 (s_last_send_ts sess + int (c_session_timeout ctx) - now))"
proof -
  note L = linkedD [OF l]
  obtain ev where ev: "s_ev sess = Some ev" "te_context ev = Some c" "te_session ev = Some s"
    "te_extra_event ev = Some (evtimer Cb_timeout_check)"
    by (rule established [OF w s l])
  let ?w = "w\<lparr>w_calls := Suc (w_calls w)\<rparr>"
  have W: "world_ok ?w" "linked ?w sess r rule c ctx n" using w l by simp_all
  let ?k = "nat (max 1 (s_last_send_ts sess + int (c_session_timeout ctx) - now))"
  have "session_timeout_check_cb os s w =
      (if inactive ctx sess now then t2u_delete_connected_session os s 0 ?w
       else Some (?w\<lparr>w_out := w_out w @ [EventAdd (evtimer Cb_timeout_check) (Some (?k, 0))]\<rparr>))"
    using s ev L(4) by (auto simp: session_timeout_check_cb_def the_context_def world_defs inactive_def now_def
        Let_def max_def)
  with delete_connected_session_ok [OF W(1) _ s(2) W(2), of s os 0] s(1) W(1) show ?thesis
    by (cases "inactive ctx sess now") auto
qed

text \<open>
  C23: The periodic check either ends an inactive session, freeing its messages and telling the
  peer, or arms itself again after at least one second, for the moment when the session would become
  inactive.
\<close>

lemma timeout_check_ok:
  fixes os w
  defines "now \<equiv> os_time os (w_calls w)"
  assumes w: "world_ok w" and s: "w_sessions w s = Some sess" "s_status sess \<noteq> 1"
    and l: "linked w sess r rule c ctx n"
  shows "\<exists>w' k. session_timeout_check_cb os s w = Some w' \<and> world_ok w' \<and>
    (if inactive ctx sess now
     then w_sessions w' = (w_sessions w)(s := None) \<and> w_messages w' = w_messages w |` (- messages_of sess) \<and>
       w_out w' = w_out w @ session_end_trace os ctx sess 0
     else w' = w\<lparr>w_calls := Suc (w_calls w),
           w_out := w_out w @ [EventAdd (evtimer Cb_timeout_check) (Some (k, 0))]\<rparr> \<and>
       1 \<le> k \<and> int k = max 1 (s_last_send_ts sess + int (c_session_timeout ctx) - now))"
  unfolding now_def using timeout_check_ok_spec [OF assms(2-)] by simp

end
