(* ===== verification/T2u_Find.thy ===== *)
theory T2u_Find
  imports T2u_Lifecycle
begin

text \<open>
  How the session of a datagram is found (\<open>find_session_in_context\<close> of src/t2u_session.c): the walk
  over the tree of rules finds a session of the context with the handle, if there is one.
\<close>

section \<open>The walk over the rules\<close>

definition session_of_rule :: "world \<Rightarrow> u64 \<Rightarrow> bool \<Rightarrow> addr \<Rightarrow> addr option" where
  "session_of_rule w handle connected r =
     (case w_rules w r of
        None \<Rightarrow> None
      | Some rule \<Rightarrow> if connected then rb_map (r_sessions rule) handle
          else rb_map (r_connecting_sessions rule) handle)"

primrec first_session :: "(addr \<Rightarrow> addr option) \<Rightarrow> addr list \<Rightarrow> addr option" where
  "first_session f [] = None"
| "first_session f (r # rs) = (case f r of None \<Rightarrow> first_session f rs | Some s \<Rightarrow> Some s)"

lemma first_session_append:
  "first_session f (rs @ rs') =
     (case first_session f rs of None \<Rightarrow> first_session f rs' | Some s \<Rightarrow> Some s)"
  by (induction rs) (auto split: option.splits)

lemma first_session_Some: "first_session f rs = Some s \<Longrightarrow> \<exists>r \<in> set rs. f r = Some s"
  by (induction rs) (auto split: option.splits)

lemma first_session_None: "first_session f rs = None \<Longrightarrow> r \<in> set rs \<Longrightarrow> f r = None"
  by (induction rs) (auto split: option.splits)

definition rule_trees_ok :: "world \<Rightarrow> addr \<Rightarrow> bool" where
  "rule_trees_ok w r \<longleftrightarrow>
     (\<exists>rule. w_rules w r = Some rule \<and> rb_ok (r_sessions rule) \<and> rb_ok (r_connecting_sessions rule))"

lemma find_session_in_rule_exec:
  assumes "rule_trees_ok w r"
  obtains rule where "w_rules w r = Some rule"
    "find_session_in_rule rule handle connected = Some (session_of_rule w handle connected r)"
  using assms by (auto simp: rule_trees_ok_def find_session_in_rule_def session_of_rule_def rb_ok_lookup)

lemma find_session_walk:
  assumes "trep (rb_nodes t) p x" "\<forall>r \<in> snd ` set (inorder x). rule_trees_ok w r"
  shows "find_session_in_context_walk w t (rt x) handle connected =
    Some (first_session (session_of_rule w handle connected) (map snd (inorder x)))"
  using assms
proof (induction x arbitrary: p)
  case Lf
  show ?case by (simp add: find_session_in_context_walk.simps)
next
  case (Nd l a c k r rr)
  then have n: "deref t (Some a) = Some (mk_node p (rt l) (rt rr) c k r)"
    and l: "find_session_in_context_walk w t (rt l) handle connected =
      Some (first_session (session_of_rule w handle connected) (map snd (inorder l)))"
    and rr: "find_session_in_context_walk w t (rt rr) handle connected =
      Some (first_session (session_of_rule w handle connected) (map snd (inorder rr)))"
    by (auto simp: deref_def)
  from Nd.prems(2) have "rule_trees_ok w r" by simp
  then obtain rule where rule: "w_rules w r = Some rule"
    "find_session_in_rule rule handle connected = Some (session_of_rule w handle connected r)"
    by (rule find_session_in_rule_exec)
  show ?case
    using rule by (simp add: find_session_in_context_walk.simps [of w t "Some a"] n l rr first_session_append
        split: option.splits)
qed

section \<open>What is found\<close>

text \<open>The sessions of a context that have a handle and are established, or not.\<close>

definition has_session :: "world \<Rightarrow> addr \<Rightarrow> u64 \<Rightarrow> bool \<Rightarrow> addr \<Rightarrow> bool" where
  "has_session w c handle connected s \<longleftrightarrow>
     (\<exists>sess r rule. w_sessions w s = Some sess \<and> s_handle sess = handle \<and>
        (s_status sess = 1) = (\<not> connected) \<and> s_rule sess = Some r \<and> w_rules w r = Some rule \<and>
        r_context rule = Some c)"

lemma find_session_sound_complete:
  assumes w: "world_ok w" and c: "w_contexts w c = Some ctx"
  shows "\<exists>p. find_session_in_context w ctx handle connected = Some p \<and>
    (case p of None \<Rightarrow> \<forall>s. \<not> has_session w c handle connected s
     | Some s \<Rightarrow> has_session w c handle connected s)"
proof -
  from world_okD(3) [OF w c] have ok: "rb_ok (c_rules ctx)" and
    rules: "\<And>k r. rb_map (c_rules ctx) k = Some r \<Longrightarrow> \<exists>rule. w_rules w r = Some rule \<and> r_context rule = Some c"
    by (auto simp: context_ok_def)
  from ok obtain x where x: "rb_shape (c_rules ctx) x" by (auto simp: rb_ok_def)
  then have t: "trep (rb_nodes (c_rules ctx)) NULL x" "rb_root (c_rules ctx) = rt x" "keys_sorted (inorder x)"
    by (auto simp: rb_shape_def zrep_def)
  note m = rb_shape_map [OF x]
  have in_tree: "r \<in> snd ` set (inorder x) \<longleftrightarrow> (\<exists>k. rb_map (c_rules ctx) k = Some r)" for r
    using keys_sorted_distinct [OF t(3)] by (force simp: m)
  have tr: "rule_trees_ok w r" if r: "r \<in> snd ` set (inorder x)" for r
  proof -
    from r obtain rule where "w_rules w r = Some rule" unfolding in_tree by (blast dest: rules)
    with world_okD(2) [OF w this] show ?thesis by (auto simp: rule_trees_ok_def rule_ok_def)
  qed
  let ?f = "session_of_rule w handle connected"
  from tr have "find_session_in_context w ctx handle connected = Some (first_session ?f (map snd (inorder x)))"
    unfolding find_session_in_context_def t(2) by (intro find_session_walk [OF t(1)]) blast
  moreover have "has_session w c handle connected s" if "r \<in> snd ` set (inorder x)" "?f r = Some s" for r s
  proof -
    from that(1) obtain rule where rule: "w_rules w r = Some rule" "r_context rule = Some c"
      unfolding in_tree using rules by blast
    with world_okD(2) [OF w rule(1)] that(2) show ?thesis
      by (cases connected) (fastforce simp: session_of_rule_def rule_ok_def entries_ok_def has_session_def)+
  qed
  moreover have "\<exists>r \<in> snd ` set (inorder x). ?f r = Some s" if "has_session w c handle connected s" for s
  proof -
    from that obtain sess r rule where s: "w_sessions w s = Some sess" "s_handle sess = handle"
      "(s_status sess = 1) = (\<not> connected)" "s_rule sess = Some r" "w_rules w r = Some rule"
      "r_context rule = Some c" by (auto simp: has_session_def)
    from world_okD(2) [OF w s(5)] s(6) c have "r \<in> snd ` set (inorder x)"
      unfolding in_tree by (auto simp: rule_ok_def rule_links_def)
    moreover from world_okD(1) [OF w s(1)] s have "registry rule (s_status sess) handle = Some s"
      by (auto simp: session_ok_def linked_def)
    ultimately show ?thesis using s(3,5)
      by (intro bexI [of _ r]) (auto simp: session_of_rule_def registry_def)
  qed
  ultimately show ?thesis
    by (fastforce dest: first_session_Some first_session_None split: option.split)
qed

text \<open>On a context, the sessions found are those of the handlers.\<close>

lemma find_sessionE:
  assumes w: "world_ok w" and c: "w_contexts w c = Some ctx"
  obtains (none) "find_session_in_context w ctx handle connected = Some NULL"
      "\<forall>s. \<not> has_session w c handle connected s"
    | (found) s sess r rule n where "find_session_in_context w ctx handle connected = Some (Some s)"
      "w_sessions w s = Some sess" "s_handle sess = handle" "(s_status sess = 1) = (\<not> connected)"
      "linked w sess r rule c ctx n"
proof -
  from find_session_sound_complete [OF w c, of handle connected] obtain p where
    p: "find_session_in_context w ctx handle connected = Some p"
    "case p of None \<Rightarrow> \<forall>s. \<not> has_session w c handle connected s
     | Some s \<Rightarrow> has_session w c handle connected s" by blast
  show thesis
  proof (cases p)
    case None
    with p none show ?thesis by simp
  next
    case (Some s)
    with p(2) obtain sess r rule where s: "w_sessions w s = Some sess" "s_handle sess = handle"
      "(s_status sess = 1) = (\<not> connected)" "s_rule sess = Some r" "w_rules w r = Some rule"
      "r_context rule = Some c" by (auto simp: has_session_def)
    from world_okD(1) [OF w s(1)] s c obtain n where "linked w sess r rule c ctx n"
      by (auto simp: session_ok_def linked_def)
    with found p(1) Some s show ?thesis by blast
  qed
qed

end
