(* ===== verification/T2u_Rule.thy ===== *)
theory T2u_Rule
  imports T2u_Find
begin

text \<open>
  The forward rules of src/t2u_rule.c: accepting local connections, answering connect requests
  of the peer, and adding and deleting rules.
\<close>

section \<open>New sessions\<close>

definition t2u_rule_handle_connect_request ::
  "os \<Rightarrow> addr \<Rightarrow> t2u_message_data \<Rightarrow> world \<Rightarrow> world option" where
  "t2u_rule_handle_connect_request os r mdata w = do {
     let handle = md_handle mdata;
     rule \<leftarrow> w_rules w r;
     oldsession \<leftarrow> rbtree_lookup (r_sessions rule) handle;
     w \<leftarrow> (case oldsession of
             None \<Rightarrow> Some w
           | Some s \<Rightarrow> t2u_delete_connected_session os s 0 w);
     rule \<leftarrow> w_rules w r;
     oldsession \<leftarrow> rbtree_lookup (r_connecting_sessions rule) handle;
     w \<leftarrow> (case oldsession of
             None \<Rightarrow> Some w
           | Some s \<Rightarrow> t2u_delete_connecting_session s w);
     let s = os_socket os (w_calls w);
     let w = tick w;
     if s = - 1 then Some w
     else do {
       (_, w) \<leftarrow> t2u_add_connecting_session os r s handle w;
       Some w } }"

definition rule_process_accept_cb :: "os \<Rightarrow> addr \<Rightarrow> world \<Rightarrow> world option" where
  "rule_process_accept_cb os owner w = do {
     own \<leftarrow> w_rules w owner;
     ev \<leftarrow> r_ev_listen own;
     r \<leftarrow> te_rule ev;
     rule \<leftarrow> w_rules w r;
     let s = os_accept os (w_calls w) (r_listen_sock rule);
     let w = tick w;
     if s < 0 then Some w
     else do {
       (_, w) \<leftarrow> t2u_add_connecting_session os r s 0 w;
       Some w } }"

section \<open>Adding a rule\<close>

definition add_rule_cb :: "addr \<Rightarrow> addr \<Rightarrow> world \<Rightarrow> world option" where
  "add_rule_cb runner r w = do {
     rule \<leftarrow> w_rules w r;
     w \<leftarrow> (if r_mode rule = forward_client_mode then do {
             _ \<leftarrow> w_runners w runner;
             let listen_ev = ev_read Cb_process_accept (r_listen_sock rule);
             let ev = t2u_event_new
                   \<lparr>te_runner := Some runner, te_context := r_context rule, te_rule := Some r,
                    te_event := Some listen_ev\<rparr>;
             Some (event_add listen_ev None (put_rule r (rule\<lparr>r_ev_listen := Some ev\<rparr>) w)) }
           else Some w);
     c \<leftarrow> r_context rule;
     context \<leftarrow> w_contexts w c;
     (_, tree) \<leftarrow> rbtree_insert True (c_rules context) (r_service rule) r;
     Some (put_context c (context\<lparr>c_rules := tree\<rparr>) w) }"

definition localhost :: cstr where
  "localhost = CStr [49, 50, 55, 46, 48, 46, 48, 46, 49]"

definition rule_address :: "os \<Rightarrow> cstr option \<Rightarrow> u16 \<Rightarrow> sockaddr_in" where
  "rule_address os address port =
     \<lparr>sin_addr = os_inet_addr os (case address of Some a \<Rightarrow> a | None \<Rightarrow> localhost),
      sin_port = ntohs port\<rparr>"

text \<open>
  The socket of a client rule: \<open>Inl\<close> is the failure of one of the three calls, with the
  structure freed and the socket closed as the code does on that path.
\<close>

definition open_listen_sock :: "os \<Rightarrow> sockaddr_in \<Rightarrow> world \<Rightarrow> (unit + int) \<times> world" where
  "open_listen_sock os listen_addr w =
     (let sock = os_socket os (w_calls w); w = tick w in
      if sock = - 1 then (Inl (), w)
      else
        let bound = os_bind os (w_calls w) sock listen_addr; w = tick w in
        if bound = - 1 then (Inl (), emit (CloseSocket sock) w)
        else
          let listening = os_listen os (w_calls w) sock; w = tick w in
          if listening = - 1 then (Inl (), emit (CloseSocket sock) w)
          else (Inr sock, w))"

definition new_rule ::
  "forward_mode \<Rightarrow> int \<Rightarrow> sockaddr_in \<Rightarrow> cstr \<Rightarrow> addr \<Rightarrow> t2u_rule" where
  "new_rule mode listen_sock conn_addr service context =
     \<lparr>r_mode = mode, r_listen_sock = listen_sock, r_ev_listen = None, r_service = service,
      r_context = Some context, r_sessions = rbtree_init (Some compare_uint64_ptr),
      r_connecting_sessions = rbtree_init (Some compare_uint64_ptr), r_conn_addr = conn_addr\<rparr>"

text \<open>The two log messages of the file that contain a string.\<close>

definition log_create_rule :: "addr \<Rightarrow> cstr \<Rightarrow> cstr option \<Rightarrow> u16 \<Rightarrow> byte list" where
  "log_create_rule r service address port =
     ascii ''create new rule '' @ fmt_p r @ ascii '', name: '' @ fmt_s (Some (cbytes service)) @
     ascii '', addr: '' @ fmt_s (map_option cbytes address) @ ascii '', port: '' @ fmt_u (unat port)"

definition log_delete_rule :: "addr \<Rightarrow> cstr \<Rightarrow> addr \<Rightarrow> byte list" where
  "log_delete_rule r service context =
     ascii ''delete the rule '' @ fmt_p r @ ascii '', name: '' @ fmt_s (Some (cbytes service)) @
     ascii '' from context: '' @ fmt_p context"

definition t2u_add_rule ::
  "os \<Rightarrow> addr \<Rightarrow> forward_mode \<Rightarrow> cstr \<Rightarrow> cstr option \<Rightarrow> u16 \<Rightarrow> world \<Rightarrow> (ptr \<times> world) option" where
  "t2u_add_rule os context mode service address port w = do {
     let (r, w) = malloc w;
     let sin = rule_address os address port;
     let (opened, w) = (if mode = forward_client_mode then open_listen_sock os sin w else (Inr 0, w));
     case opened of
       Inl _ \<Rightarrow> Some (NULL, w)
     | Inr sock \<Rightarrow> do {
         let conn_addr = (if mode = forward_client_mode then \<lparr>sin_addr = 0, sin_port = 0\<rparr> else sin);
         let w = put_rule r (new_rule mode sock conn_addr service context) w;
         w \<leftarrow> LOG_line os 1 ''src/t2u_rule.c'' 213 (log_create_rule r service address port) w;
         ctx \<leftarrow> w_contexts w context;
         runner \<leftarrow> c_runner ctx;
         w \<leftarrow> t2u_runner_control (Some runner) (add_rule_cb runner r) w;
         Some (Some r, w) } }"

section \<open>Deleting a rule\<close>

text \<open>The two loops of \<open>delete_rule_cb_\<close>.\<close>

partial_function (option) clear_sessions :: "os \<Rightarrow> addr \<Rightarrow> world \<Rightarrow> world option" where
  "clear_sessions os r w = do {
     rule \<leftarrow> w_rules w r;
     root \<leftarrow> rbtree_root_entry (r_sessions rule);
     case root of
       None \<Rightarrow> Some w
     | Some (_, s) \<Rightarrow> do {
         w \<leftarrow> t2u_delete_connected_session os s 0 w;
         clear_sessions os r w } }"

partial_function (option) clear_connecting_sessions :: "addr \<Rightarrow> world \<Rightarrow> world option" where
  "clear_connecting_sessions r w = do {
     rule \<leftarrow> w_rules w r;
     root \<leftarrow> rbtree_root_entry (r_connecting_sessions rule);
     case root of
       None \<Rightarrow> Some w
     | Some (_, s) \<Rightarrow> do {
         w \<leftarrow> t2u_delete_connecting_session s w;
         clear_connecting_sessions r w } }"

declare clear_sessions.simps [code] clear_connecting_sessions.simps [code]

definition delete_rule_cb :: "os \<Rightarrow> addr \<Rightarrow> world \<Rightarrow> world option" where
  "delete_rule_cb os r w = do {
     rule \<leftarrow> w_rules w r;
     let w = t2u_delete_event (r_ev_listen rule) w;
     let w = put_rule r (rule\<lparr>r_ev_listen := None\<rparr>) w;
     let w = (if r_mode rule = forward_client_mode
              then emit (CloseSocket (r_listen_sock rule)) w else w);
     w \<leftarrow> clear_sessions os r w;
     w \<leftarrow> clear_connecting_sessions r w;
     c \<leftarrow> r_context rule;
     context \<leftarrow> w_contexts w c;
     (_, tree) \<leftarrow> rbtree_remove (c_rules context) (r_service rule);
     let w = put_context c (context\<lparr>c_rules := tree\<rparr>) w;
     w \<leftarrow> LOG_line os 1 ''src/t2u_rule.c'' 263 (log_delete_rule r (r_service rule) c) w;
     Some (free_rule r w) }"

definition t2u_delete_rule :: "os \<Rightarrow> addr \<Rightarrow> world \<Rightarrow> world option" where
  "t2u_delete_rule os r w = do {
     rule \<leftarrow> w_rules w r;
     context \<leftarrow> the_context w (r_context rule);
     t2u_runner_control (c_runner context) (delete_rule_cb os r) w }"

end
