(* ===== verification/T2u_Context.thy ===== *)
theory T2u_Context
  imports T2u_Rule
begin

text \<open>
  The forward contexts of src/t2u_context.c: the dispatch of a received datagram, and adding and
  deleting contexts.
\<close>

section \<open>Receiving a datagram\<close>

text \<open>
  \<open>strcmp\<close> of a service name with a string that is expected in a memory area: it reads beyond the
  area when this holds no terminator and the name starts with all of its bytes.
\<close>

definition strcmp_overreads :: "byte list \<Rightarrow> cstr \<Rightarrow> bool" where
  "strcmp_overreads mem name \<longleftrightarrow> 0 \<notin> set mem \<and> take (length mem) (cbytes name) = mem"

text \<open>\<open>rbtree_lookup\<close> in the tree of rules, whose comparison is \<open>compare_name\<close>, with the received service as key.\<close>

partial_function (option) lookup_service_loop :: "byte list \<Rightarrow> (cstr, addr) rbtree \<Rightarrow> ptr \<Rightarrow> ptr option" where
  "lookup_service_loop service t current =
     (if current = NULL then Some NULL
      else do {
        n \<leftarrow> deref t current;
        _ \<leftarrow> assert_that (\<not> strcmp_overreads service (rb_key n));
        let ret = rb_compare t (rb_key n) (cstr_at service);
        if ret = 0 then Some current
        else if ret < 0 then lookup_service_loop service t (rb_right n)
        else lookup_service_loop service t (rb_left n) })"

declare lookup_service_loop.simps [code]

definition lookup_service :: "(cstr, addr) rbtree \<Rightarrow> byte list \<Rightarrow> addr option option" where
  "lookup_service t service = do {
     node \<leftarrow> lookup_service_loop service t (rb_root t);
     if node = NULL then Some None else do { n \<leftarrow> deref t node; Some (Some (rb_data n)) } }"

text \<open>The message for an unknown service: \<open>%s\<close> reads up to the terminator.\<close>

definition log_unknown_service :: "os \<Rightarrow> byte list \<Rightarrow> world \<Rightarrow> world option" where
  "log_unknown_service os service w =
     (if get_log_func (w_callbacks w) = NULL then Some w
      else do {
        _ \<leftarrow> assert_that (0 \<in> set service);
        LOG_line os 2 ''src/t2u_context.c'' 69
          (ascii ''no rule match the service: '' @ fmt_s (Some (cbytes (cstr_at service)))) w })"

text \<open>The \<open>switch\<close> of \<open>process_udp_cb_\<close> on a message whose header has been converted and checked.\<close>

definition dispatch_message ::
  "os \<Rightarrow> t2u_context \<Rightarrow> t2u_message_data \<Rightarrow> nat \<Rightarrow> world \<Rightarrow> world option" where
  "dispatch_message os context mdata recv_bytes w =
     (case oper_of (md_oper mdata) of
        Some connect_request \<Rightarrow> do {
          rule \<leftarrow> lookup_service (c_rules context) (md_payload mdata);
          case rule of
            Some r \<Rightarrow> t2u_rule_handle_connect_request os r mdata w
          | None \<Rightarrow> log_unknown_service os (md_payload mdata) w }
      | Some connect_response \<Rightarrow> do {
          session \<leftarrow> find_session_in_context w context (low32 (md_handle mdata)) False;
          case session of
            Some s \<Rightarrow> t2u_session_handle_connect_response os s mdata w
          | None \<Rightarrow> Some w }
      | Some data_request \<Rightarrow> do {
          session \<leftarrow> find_session_in_context w context (md_handle mdata) True;
          case session of
            Some s \<Rightarrow> t2u_session_handle_data_request os s mdata recv_bytes w
          | None \<Rightarrow> Some w }
      | Some data_response \<Rightarrow> do {
          session \<leftarrow> find_session_in_context w context (md_handle mdata) True;
          case session of
            Some s \<Rightarrow> do {
              sess \<leftarrow> w_sessions w s;
              message \<leftarrow> rbtree_lookup (s_send_mess sess) (md_seq mdata);
              case message of
                Some m \<Rightarrow> t2u_message_handle_data_response os m mdata w
              | None \<Rightarrow> Some w }
          | None \<Rightarrow> Some w }
      | Some retrans_request \<Rightarrow> do {
          session \<leftarrow> find_session_in_context w context (md_handle mdata) True;
          case session of
            Some s \<Rightarrow> do {
              sess \<leftarrow> w_sessions w s;
              message \<leftarrow> rbtree_lookup (s_send_mess sess) (md_seq mdata);
              case message of
                Some m \<Rightarrow> t2u_message_handle_retrans_request os m mdata w
              | None \<Rightarrow> Some w }
          | None \<Rightarrow> Some w }
      | Some close_request \<Rightarrow> do {
          session \<leftarrow> find_session_in_context w context (md_handle mdata) True;
          case session of
            Some s \<Rightarrow> t2u_delete_connected_session os s 1 w
          | None \<Rightarrow> Some w }
      | _ \<Rightarrow> Some w)"

definition valid_header :: "int \<Rightarrow> t2u_message_data \<Rightarrow> bool" where
  "valid_header recv_bytes mdata \<longleftrightarrow>
     \<not> (recv_bytes < int sizeof_md \<or> md_magic mdata \<noteq> T2U_MESS_MAGIC \<or> md_version mdata \<noteq> 1)"

definition process_udp_cb :: "os \<Rightarrow> int \<Rightarrow> addr \<Rightarrow> world \<Rightarrow> world option" where
  "process_udp_cb os sock owner w = do {
     own \<leftarrow> w_contexts w owner;
     ev \<leftarrow> c_ev_udp own;
     c \<leftarrow> te_context ev;
     let (recv_bytes, _, bytes) = os_recv os (w_calls w) sock T2U_MESS_BUFFER_MAX;
     let buff = recv_buffer os (w_calls w) T2U_MESS_BUFFER_MAX bytes;
     let w = tick w;
     if recv_bytes \<le> 0 then Some w
     else do {
       let mdata = ntoh_header (os_arch os) (md_of_bytes buff);
       if \<not> valid_header recv_bytes mdata then
         Some (if w_unknown_cb w
               then emit (UnknownCallback c (take (nat recv_bytes) (md_bytes mdata))) w else w)
       else do {
         context \<leftarrow> w_contexts w c;
         dispatch_message os context mdata (nat recv_bytes) w } } }"

section \<open>Adding a context\<close>

definition add_context_cb :: "addr \<Rightarrow> addr \<Rightarrow> world \<Rightarrow> world option" where
  "add_context_cb runner c w = do {
     context \<leftarrow> w_contexts w c;
     run \<leftarrow> w_runners w runner;
     let udp_ev = ev_read Cb_process_udp (c_sock context);
     let ev = t2u_event_new
           \<lparr>te_runner := Some runner, te_context := Some c, te_event := Some udp_ev\<rparr>;
     let w = event_add udp_ev None (put_context c (context\<lparr>c_ev_udp := Some ev\<rparr>) w);
     contexts \<leftarrow> n_contexts run;
     (_, tree) \<leftarrow> rbtree_insert True contexts c c;
     Some (put_runner runner (run\<lparr>n_contexts := Some tree\<rparr>) w) }"

definition new_context :: "int \<Rightarrow> addr \<Rightarrow> t2u_context" where
  "new_context sock runner =
     \<lparr>c_sock = sock, c_runner = Some runner, c_rules = rbtree_init (Some compare_name),
      c_ev_udp = None, c_utimeout = 500, c_uretries = 3, c_udp_slide_window = 16,
      c_session_timeout = 900\<rparr>"

definition t2u_add_context :: "addr \<Rightarrow> int \<Rightarrow> world \<Rightarrow> (addr \<times> world) option" where
  "t2u_add_context runner sock w = do {
     let (c, w) = malloc w;
     let w = put_context c (new_context sock runner) w;
     w \<leftarrow> t2u_runner_control (Some runner) (add_context_cb runner c) w;
     Some (c, w) }"

section \<open>Deleting a context\<close>

text \<open>The loop of \<open>delete_context_cb_\<close>.\<close>

partial_function (option) clear_rules :: "os \<Rightarrow> addr \<Rightarrow> world \<Rightarrow> world option" where
  "clear_rules os c w = do {
     context \<leftarrow> w_contexts w c;
     root \<leftarrow> rbtree_root_entry (c_rules context);
     case root of
       None \<Rightarrow> Some w
     | Some (_, r) \<Rightarrow> do {
         w \<leftarrow> t2u_delete_rule os r w;
         clear_rules os c w } }"

declare clear_rules.simps [code]

definition delete_context_cb :: "os \<Rightarrow> addr \<Rightarrow> addr \<Rightarrow> world \<Rightarrow> world option" where
  "delete_context_cb os runner c w = do {
     w \<leftarrow> clear_rules os c w;
     context \<leftarrow> w_contexts w c;
     let w = t2u_delete_event (c_ev_udp context) w;
     run \<leftarrow> w_runners w runner;
     contexts \<leftarrow> n_contexts run;
     (_, tree) \<leftarrow> rbtree_remove contexts c;
     Some (free_context c (put_runner runner (run\<lparr>n_contexts := Some tree\<rparr>) w)) }"

definition t2u_delete_context :: "os \<Rightarrow> addr \<Rightarrow> world \<Rightarrow> world option" where
  "t2u_delete_context os c w = do {
     context \<leftarrow> w_contexts w c;
     runner \<leftarrow> c_runner context;
     t2u_runner_control (Some runner) (delete_context_cb os runner c) w }"

end
