(* ===== verification/T2u_Runner.thy ===== *)
theory T2u_Runner
  imports T2u_Context
begin

text \<open>
  The runner of src/t2u_runner.c: the control sockets and their port, and the deletion of a
  runner with all its contexts.
\<close>

section \<open>Creation\<close>

definition CONTROL_PORT_START :: nat where "CONTROL_PORT_START = 50505"
definition CONTROL_PORT_END :: nat where "CONTROL_PORT_END = 50605"

definition control_addr :: "os \<Rightarrow> nat \<Rightarrow> sockaddr_in" where
  "control_addr os port =
     \<lparr>sin_addr = os_inet_addr os localhost, sin_port = htons (of_nat port)\<rparr>"

text \<open>The port search; the result is the value of \<open>listen_port\<close> after the loop.\<close>

function bind_control_port :: "os \<Rightarrow> int \<Rightarrow> nat \<Rightarrow> world \<Rightarrow> nat \<times> world" where
  "bind_control_port os sock port w =
     (if port < CONTROL_PORT_END then
        if os_bind os (w_calls w) sock (control_addr os port) = - 1
        then bind_control_port os sock (port + 1) (tick w)
        else (port, tick w)
      else (port, w))"
  by pat_completeness auto
termination
  by (relation "measure (\<lambda>(os, sock, port, w). CONTROL_PORT_END - port)") auto

declare bind_control_port.simps [simp del]

text \<open>
  \<open>t2u_runner_new\<close>. The assertions of the C code stop the program when a socket, the port or
  the connection cannot be had. Creating the thread and waiting for it to start leaves the
  runner running.
\<close>

definition t2u_runner_new :: "os \<Rightarrow> world \<Rightarrow> (addr \<times> world) option" where
  "t2u_runner_new os w = do {
     let (n, w) = malloc w;
     let sock0 = os_socket os (w_calls w);
     let w = tick w;
     _ \<leftarrow> assert_that (sock0 > 0);
     let (listen_port, w) = bind_control_port os sock0 CONTROL_PORT_START w;
     _ \<leftarrow> assert_that (listen_port \<noteq> CONTROL_PORT_END);
     let sock1 = os_socket os (w_calls w);
     let w = tick w;
     _ \<leftarrow> assert_that (sock1 > 0);
     let (ret, _) = os_connect os (w_calls w) sock1 (control_addr os listen_port);
     let w = tick w;
     _ \<leftarrow> assert_that (ret = 0);
     let control = ev_read Cb_runner_control sock0;
     let w = event_add control None w;
     Some (n, put_runner n
       \<lparr>n_contexts = Some (rbtree_init NULL), n_running = 1, n_sock0 = sock0, n_sock1 = sock1,
        n_control_event = Some control\<rparr> w) }"

section \<open>Deletion\<close>

partial_function (option) clear_contexts :: "os \<Rightarrow> addr \<Rightarrow> world \<Rightarrow> world option" where
  "clear_contexts os n w = do {
     run \<leftarrow> w_runners w n;
     contexts \<leftarrow> n_contexts run;
     root \<leftarrow> rbtree_root_entry contexts;
     case root of
       None \<Rightarrow> Some w
     | Some (_, c) \<Rightarrow> do {
         w \<leftarrow> t2u_delete_context os c w;
         clear_contexts os n w } }"

declare clear_contexts.simps [code]

definition delete_runner_cb :: "os \<Rightarrow> addr \<Rightarrow> world \<Rightarrow> world option" where
  "delete_runner_cb os n w = do {
     w \<leftarrow> clear_contexts os n w;
     run \<leftarrow> w_runners w n;
     let w = put_runner n (run\<lparr>n_contexts := None, n_control_event := None\<rparr>) w;
     Some (case n_control_event run of None \<Rightarrow> w | Some e \<Rightarrow> event_free e w) }"

definition t2u_delete_runner :: "os \<Rightarrow> ptr \<Rightarrow> world \<Rightarrow> world option" where
  "t2u_delete_runner os runner w =
     (case runner of
        None \<Rightarrow> Some w
      | Some n \<Rightarrow> do {
          run \<leftarrow> w_runners w n;
          w \<leftarrow> (if n_running run \<noteq> 0
                then t2u_runner_control (Some n) (delete_runner_cb os n)
                       (put_runner n (run\<lparr>n_running := 0\<rparr>) w)
                else Some w);
          Some (free_runner n
            (emit (CloseSocket (n_sock1 run)) (emit (CloseSocket (n_sock0 run)) w))) })"

definition t2u_runner_has_context :: "addr \<Rightarrow> world \<Rightarrow> bool option" where
  "t2u_runner_has_context n w = do {
     run \<leftarrow> w_runners w n;
     contexts \<leftarrow> n_contexts run;
     Some (rb_root contexts \<noteq> NULL) }"

end
