(* ===== verification/T2u_Api.thy ===== *)
theory T2u_Api
  imports T2u_Runner
begin

text \<open>The public interface of src/t2u.c.\<close>

section \<open>Contexts and the shared runner\<close>

text \<open>The global runner is created by the first context; the result is the new context.\<close>

definition create_forward :: "os \<Rightarrow> int \<Rightarrow> world \<Rightarrow> (addr \<times> world) option" where
  "create_forward os s w = do {
     w \<leftarrow> (if w_g_runner w = NULL then do {
             (n, w) \<leftarrow> t2u_runner_new os w;
             Some (w\<lparr>w_g_runner := Some n\<rparr>) }
           else Some w);
     runner \<leftarrow> w_g_runner w;
     t2u_add_context runner s w }"

definition free_forward :: "os \<Rightarrow> addr \<Rightarrow> world \<Rightarrow> world option" where
  "free_forward os c w = do {
     w \<leftarrow> t2u_delete_context os c w;
     case w_g_runner w of
       None \<Rightarrow> Some w
     | Some n \<Rightarrow> do {
         run \<leftarrow> w_runners w n;
         if (case n_contexts run of None \<Rightarrow> True | Some contexts \<Rightarrow> rb_root contexts = NULL) then do {
           w \<leftarrow> t2u_delete_runner os (Some n) w;
           Some (w\<lparr>w_g_runner := NULL\<rparr>) }
         else Some w } }"

section \<open>Options\<close>

definition CTX_UDP_TIMEOUT :: int where "CTX_UDP_TIMEOUT = 1"
definition CTX_UDP_RETRIES :: int where "CTX_UDP_RETRIES = 2"
definition CTX_UDP_SLIDEWINDOW :: int where "CTX_UDP_SLIDEWINDOW = 3"
definition CTX_SESSION_TIMEOUT :: int where "CTX_SESSION_TIMEOUT = 4"

lemmas ctx_option_defs =
  CTX_UDP_TIMEOUT_def CTX_UDP_RETRIES_def CTX_UDP_SLIDEWINDOW_def CTX_SESSION_TIMEOUT_def

definition clamp :: "nat \<Rightarrow> nat \<Rightarrow> nat \<Rightarrow> nat" where
  "clamp lo hi value = (if value < lo then lo else if value > hi then hi else value)"

text \<open>Any other option changes nothing.\<close>

definition set_context_option :: "addr \<Rightarrow> int \<Rightarrow> nat \<Rightarrow> world \<Rightarrow> world option" where
  "set_context_option c opt value w =
     (if opt = CTX_UDP_TIMEOUT then do {
        context \<leftarrow> w_contexts w c;
        Some (put_context c (context\<lparr>c_utimeout := clamp 10 30000 value\<rparr>) w) }
      else if opt = CTX_UDP_RETRIES then do {
        context \<leftarrow> w_contexts w c;
        Some (put_context c (context\<lparr>c_uretries := clamp 1 20 value\<rparr>) w) }
      else if opt = CTX_UDP_SLIDEWINDOW then do {
        context \<leftarrow> w_contexts w c;
        Some (put_context c (context\<lparr>c_udp_slide_window := clamp 1 64 value\<rparr>) w) }
      else if opt = CTX_SESSION_TIMEOUT then do {
        context \<leftarrow> w_contexts w c;
        Some (put_context c (context\<lparr>c_session_timeout := clamp 10 86400 value\<rparr>) w) }
      else Some w)"

section \<open>Rules, sending and callbacks\<close>

definition add_forward_rule ::
  "os \<Rightarrow> addr \<Rightarrow> forward_mode \<Rightarrow> cstr \<Rightarrow> cstr option \<Rightarrow> u16 \<Rightarrow> world \<Rightarrow> (ptr \<times> world) option" where
  "add_forward_rule os c mode service address port w = t2u_add_rule os c mode service address port w"

definition del_forward_rule :: "os \<Rightarrow> addr \<Rightarrow> world \<Rightarrow> world option" where
  "del_forward_rule os r w = t2u_delete_rule os r w"

definition forward_send :: "int \<Rightarrow> byte list \<Rightarrow> nat \<Rightarrow> int" where
  "forward_send s buffer len = - 1"

text \<open>
  \<open>debug_dump\<close> has the runner's thread print the address of the runner; the result is what is
  printed.
\<close>

definition debug_dump :: "world \<Rightarrow> addr list option" where
  "debug_dump w =
     (case w_g_runner w of
        None \<Rightarrow> Some []
      | Some n \<Rightarrow> t2u_runner_control (Some n) (\<lambda>w. Some [n]) w)"

end
