(* ===== verification/T2u_Teardown.thy ===== *)
theory T2u_Teardown
  imports T2u_Api
begin

text \<open>
  Deletion of rules, contexts and the runner: their loops empty the trees of what they own,
  and everything that belonged to the deleted object is gone afterwards.
\<close>

section \<open>What the sessions of one rule may change\<close>

definition same_rule :: "t2u_rule \<Rightarrow> t2u_rule \<Rightarrow> bool" where
  "same_rule rule rule' \<longleftrightarrow>
     r_mode rule' = r_mode rule \<and> r_listen_sock rule' = r_listen_sock rule \<and>
     r_ev_listen rule' = r_ev_listen rule \<and> r_service rule' = r_service rule \<and>
     r_context rule' = r_context rule \<and> r_conn_addr rule' = r_conn_addr rule"

definition rule_frame :: "addr \<Rightarrow> world \<Rightarrow> world \<Rightarrow> bool" where
  "rule_frame r w w' \<longleftrightarrow>
     w_contexts w' = w_contexts w \<and> w_runners w' = w_runners w \<and> w_fresh w' = w_fresh w \<and>
     w_g_runner w' = w_g_runner w \<and> w_callbacks w' = w_callbacks w \<and> w_handle_seq w' = w_handle_seq w \<and>
     (\<forall>r'. r' \<noteq> r \<longrightarrow> w_rules w' r' = w_rules w r') \<and>
     (\<exists>rule rule'. w_rules w r = Some rule \<and> w_rules w' r = Some rule' \<and> same_rule rule rule') \<and>
     w_sessions w' \<subseteq>\<^sub>m w_sessions w \<and> w_messages w' \<subseteq>\<^sub>m w_messages w \<and>
     (\<forall>s sess. w_sessions w s = Some sess \<longrightarrow> s_rule sess \<noteq> Some r \<longrightarrow> w_sessions w' s = Some sess)"

lemma rule_frame_refl: "w_rules w r = Some rule \<Longrightarrow> rule_frame r w w"
  by (simp add: rule_frame_def same_rule_def)

lemma rule_frame_trans:
  assumes "rule_frame r w1 w2" "rule_frame r w2 w3"
  shows "rule_frame r w1 w3"
proof -
  from assms obtain rule1 rule2 rule3 where "w_rules w1 r = Some rule1" "w_rules w3 r = Some rule3"
    "same_rule rule1 rule2" "same_rule rule2 rule3"
    unfolding rule_frame_def by auto
  then have "\<exists>rule rule'. w_rules w1 r = Some rule \<and> w_rules w3 r = Some rule' \<and> same_rule rule rule'"
    by (simp add: same_rule_def)
  moreover have "w_sessions w3 \<subseteq>\<^sub>m w_sessions w1" "w_messages w3 \<subseteq>\<^sub>m w_messages w1"
    using assms map_le_trans unfolding rule_frame_def by blast+
  ultimately show ?thesis using assms unfolding rule_frame_def by simp
qed

lemma restrict_map_le: "m |` A \<subseteq>\<^sub>m m"
  by (simp add: map_le_def)

lemma delete_connected_session_frame:
  assumes w: "world_ok w" and s: "w_sessions w s = Some sess" "s_status sess \<noteq> 1"
    and l: "linked w sess r rule c ctx n"
  shows "\<exists>w' rule'. t2u_delete_connected_session os s sync w = Some w' \<and> world_ok w' \<and> rule_frame r w w' \<and>
    w_rules w' r = Some rule' \<and> rb_map (r_sessions rule') = (rb_map (r_sessions rule))(s_handle sess := None)"
proof -
  note L = linkedD [OF l]
  from world_okD(1) [OF w s(1)] l have q: "queues_ok (r, c, n) (w_messages w) s sess"
    by (auto simp: session_ok_def linked_def)
  from world_okD(2) [OF w L(2)] have ok: "rb_ok (r_sessions rule)" by (simp add: rule_ok_def)
  from delete_connected_session_ok [OF w s l, of os sync] obtain w' t where
    d: "t2u_delete_connected_session os s sync w = Some w'" "world_ok w'"
      "w_rules w' = (w_rules w)(r \<mapsto> rule\<lparr>r_sessions := t\<rparr>)"
      "rb_map t = (rb_map (r_sessions rule))(s_handle sess := None)" by blast
  from delete_connected_session_exec [OF s(1) l q ok, of os sync] obtain t' where
    "t2u_delete_connected_session os s sync w = Some
      (w\<lparr>w_sessions := (w_sessions w)(s := None),
         w_messages := w_messages w |` (- messages_of sess),
         w_rules := (w_rules w)(r \<mapsto> rule\<lparr>r_sessions := t'\<rparr>),
         w_calls := (if sync = 0 then Suc (w_calls w) else w_calls w),
         w_out := w_out w @ session_end_trace os ctx sess sync\<rparr>)" (is "_ = Some ?w") by blast
  with d(1) have w': "w' = ?w" by simp
  have "rule_frame r w w'"
    unfolding rule_frame_def w' using L(1,2) s
    by (simp add: restrict_map_le map_le_def same_rule_def)
  with d show ?thesis by auto
qed

lemma delete_connecting_session_frame:
  assumes w: "world_ok w" and s: "w_sessions w s = Some sess" "s_status sess = 1"
    and l: "linked w sess r rule c ctx n"
  shows "\<exists>w' rule'. t2u_delete_connecting_session s w = Some w' \<and> world_ok w' \<and> rule_frame r w w' \<and>
    w_rules w' r = Some rule' \<and> r_sessions rule' = r_sessions rule \<and>
    rb_map (r_connecting_sessions rule') = (rb_map (r_connecting_sessions rule))(s_handle sess := None)"
proof -
  note L = linkedD [OF l]
  from world_okD(2) [OF w L(2)] have ok: "rb_ok (r_connecting_sessions rule)" by (simp add: rule_ok_def)
  from delete_connecting_session_ok [OF w s l] obtain w' t where
    d: "t2u_delete_connecting_session s w = Some w'" "world_ok w'"
      "w_rules w' = (w_rules w)(r \<mapsto> rule\<lparr>r_connecting_sessions := t\<rparr>)"
      "rb_map t = (rb_map (r_connecting_sessions rule))(s_handle sess := None)" by blast
  from delete_connecting_session_exec [OF s(1) l ok] obtain t' where
    "t2u_delete_connecting_session s w = Some
      (w\<lparr>w_sessions := (w_sessions w)(s := None),
         w_rules := (w_rules w)(r \<mapsto> rule\<lparr>r_connecting_sessions := t'\<rparr>),
         w_out := w_out w @ event_frees (s_ev sess) @
           (if s_sock sess \<noteq> 0 then [CloseSocket (s_sock sess)] else [])\<rparr>)" (is "_ = Some ?w") by blast
  with d(1) have w': "w' = ?w" by simp
  have "rule_frame r w w'"
    unfolding rule_frame_def w' using L(1,2) s
    by (simp add: map_le_def same_rule_def)
  with d show ?thesis by auto
qed

section \<open>The sessions of a rule\<close>

definition rule_content :: "(t2u_rule \<Rightarrow> (u64, addr) rbtree) \<Rightarrow> addr \<Rightarrow> world \<Rightarrow> u64 \<Rightarrow> addr option" where
  "rule_content tree r w = (case w_rules w r of None \<Rightarrow> Map.empty | Some rule \<Rightarrow> rb_map (tree rule))"

definition rule_inv :: "addr \<Rightarrow> world \<Rightarrow> world \<Rightarrow> bool" where
  "rule_inv r w w' \<longleftrightarrow> world_ok w' \<and> rule_frame r w w'"

lemma rule_invD:
  assumes "rule_inv r w w'"
  obtains rule where "world_ok w'" "rule_frame r w w'" "w_rules w' r = Some rule" "rb_ok (r_sessions rule)"
    "rb_ok (r_connecting_sessions rule)"
proof -
  from assms have "world_ok w'" "rule_frame r w w'" by (auto simp: rule_inv_def)
  moreover from this obtain rule where "w_rules w' r = Some rule" by (auto simp: rule_frame_def)
  moreover from world_okD(2) [OF \<open>world_ok w'\<close> this] have "rb_ok (r_sessions rule)"
    "rb_ok (r_connecting_sessions rule)" by (auto simp: rule_ok_def)
  ultimately show ?thesis using that by blast
qed

text \<open>What a rule's trees point to are sessions of the rule.\<close>

lemma rule_entry:
  assumes w: "world_ok w" and r: "w_rules w r = Some rule"
    and h: "(if connecting then rb_map (r_connecting_sessions rule) else rb_map (r_sessions rule)) h = Some s"
  obtains sess c ctx n where "w_sessions w s = Some sess" "s_handle sess = h" "(s_status sess = 1) = connecting"
    "linked w sess r rule c ctx n"
proof -
  from world_okD(2) [OF w r] h obtain sess where s: "w_sessions w s = Some sess" "s_rule sess = Some r"
    "s_handle sess = h" "(s_status sess = 1) = connecting"
    by (cases connecting) (fastforce simp: rule_ok_def entries_ok_def)+
  from world_okD(1) [OF w s(1)] s(2) r obtain c ctx n where "linked w sess r rule c ctx n"
    by (auto simp: session_ok_def linked_def)
  with that s show ?thesis by blast
qed

interpretation sessions_loop: drain_loop "clear_sessions os r" "rule_content r_sessions r" "rule_inv r w0" for os r w0
proof
  fix w
  assume inv: "rule_inv r w0 w"
  then obtain rule where w: "world_ok w" "rule_frame r w0 w" "w_rules w r = Some rule" "rb_ok (r_sessions rule)"
    by (rule rule_invD)
  have cont: "rule_content r_sessions r w = rb_map (r_sessions rule)" using w(3) by (simp add: rule_content_def)
  show "finite (dom (rule_content r_sessions r w))" unfolding cont by (rule rb.finite_content [OF w(4)])
  show "clear_sessions os r w = Some w" if "rule_content r_sessions r w = Map.empty"
    using rb.root_empty [OF w(4)] that w(3) by (simp add: clear_sessions.simps cont)
  show "\<exists>k w'. k \<in> dom (rule_content r_sessions r w) \<and> clear_sessions os r w = clear_sessions os r w' \<and>
      rule_inv r w0 w' \<and> rule_content r_sessions r w' = (rule_content r_sessions r w)(k := None)"
    if "rule_content r_sessions r w \<noteq> Map.empty"
  proof -
    from rb.root_some [OF w(4)] that obtain h s where
      h: "rbtree_root_entry (r_sessions rule) = Some (Some (h, s))" "rb_map (r_sessions rule) h = Some s"
      unfolding cont by blast
    have "(if False then rb_map (r_connecting_sessions rule) else rb_map (r_sessions rule)) h = Some s"
      using h(2) by simp
    from rule_entry [OF w(1,3) this] obtain sess c ctx n where
      s: "w_sessions w s = Some sess" "s_handle sess = h" "s_status sess \<noteq> 1" "linked w sess r rule c ctx n"
      by metis
    from delete_connected_session_frame [OF w(1) s(1,3,4), of os 0] obtain w' rule' where
      d: "t2u_delete_connected_session os s 0 w = Some w'" "world_ok w'" "rule_frame r w w'"
        "w_rules w' r = Some rule'" "rb_map (r_sessions rule') = (rb_map (r_sessions rule))(h := None)"
      using s(2) by auto
    have "clear_sessions os r w = clear_sessions os r w'"
      using w(3) h(1) d(1) by (subst clear_sessions.simps) simp
    moreover have "rule_inv r w0 w'" using rule_frame_trans [OF w(2) d(3)] d(2) by (simp add: rule_inv_def)
    ultimately show ?thesis using h(2) d(4,5) w(3)
      by (intro exI [of _ h] exI [of _ w']) (simp add: rule_content_def dom_def)
  qed
qed

interpretation connecting_loop: drain_loop "clear_connecting_sessions r" "rule_content r_connecting_sessions r"
  "\<lambda>w. rule_inv r w0 w \<and> rule_content r_sessions r w = Map.empty" for r w0
proof
  fix w
  assume inv: "rule_inv r w0 w \<and> rule_content r_sessions r w = Map.empty"
  then obtain rule where w: "world_ok w" "rule_frame r w0 w" "w_rules w r = Some rule"
    "rb_ok (r_connecting_sessions rule)" using rule_invD by blast
  have cont: "rule_content r_connecting_sessions r w = rb_map (r_connecting_sessions rule)"
    "rb_map (r_sessions rule) = Map.empty"
    using w(3) inv by (simp_all add: rule_content_def)
  show "finite (dom (rule_content r_connecting_sessions r w))" unfolding cont by (rule rb.finite_content [OF w(4)])
  show "clear_connecting_sessions r w = Some w" if "rule_content r_connecting_sessions r w = Map.empty"
    using rb.root_empty [OF w(4)] that w(3) by (simp add: clear_connecting_sessions.simps cont)
  show "\<exists>k w'. k \<in> dom (rule_content r_connecting_sessions r w) \<and>
      clear_connecting_sessions r w = clear_connecting_sessions r w' \<and>
      (rule_inv r w0 w' \<and> rule_content r_sessions r w' = Map.empty) \<and>
      rule_content r_connecting_sessions r w' = (rule_content r_connecting_sessions r w)(k := None)"
    if "rule_content r_connecting_sessions r w \<noteq> Map.empty"
  proof -
    from rb.root_some [OF w(4)] that obtain h s where
      h: "rbtree_root_entry (r_connecting_sessions rule) = Some (Some (h, s))"
        "rb_map (r_connecting_sessions rule) h = Some s"
      unfolding cont by blast
    have "(if True then rb_map (r_connecting_sessions rule) else rb_map (r_sessions rule)) h = Some s"
      using h(2) by simp
    from rule_entry [OF w(1,3) this] obtain sess c ctx n where
      s: "w_sessions w s = Some sess" "s_handle sess = h" "s_status sess = 1" "linked w sess r rule c ctx n"
      by metis
    from delete_connecting_session_frame [OF w(1) s(1,3,4)] obtain w' rule' where
      d: "t2u_delete_connecting_session s w = Some w'" "world_ok w'" "rule_frame r w w'"
        "w_rules w' r = Some rule'" "r_sessions rule' = r_sessions rule"
        "rb_map (r_connecting_sessions rule') = (rb_map (r_connecting_sessions rule))(h := None)"
      using s(2) by auto
    have "clear_connecting_sessions r w = clear_connecting_sessions r w'"
      using w(3) h(1) d(1) by (subst clear_connecting_sessions.simps) simp
    moreover have "rule_inv r w0 w'" using rule_frame_trans [OF w(2) d(3)] d(2) by (simp add: rule_inv_def)
    ultimately show ?thesis using h(2) d(4-6) cont(2) w(3)
      by (intro exI [of _ h] exI [of _ w']) (simp add: rule_content_def dom_def)
  qed
qed

section \<open>Deleting a rule\<close>

text \<open>The listen event of a rule may go.\<close>

lemma world_ok_unlisten:
  assumes w: "world_ok w" and r: "w_rules w r = Some rule"
  shows "world_ok (w\<lparr>w_rules := (w_rules w)(r \<mapsto> rule\<lparr>r_ev_listen := None\<rparr>)\<rparr>)" (is "world_ok ?w")
proof -
  note W = world_okD [OF w]
  have "session_ok ?w s sess" if s: "w_sessions w s = Some sess" for s sess
  proof (rule session_okE [OF W(1) [OF s]])
    fix r2 rule2 c ctx n
    assume l: "linked w sess r2 rule2 c ctx n" and
      rest: "queues_ok (r2, c, n) (w_messages w) s sess" "s_status sess \<in> {1, 2, 3}"
        "s_status sess = 1 \<longrightarrow> messages_of sess = {}" "session_events (r_mode rule2) r2 c n s sess"
        "registry rule2 (s_status sess) (s_handle sess) = Some s"
    let ?rule2 = "if r2 = r then rule\<lparr>r_ev_listen := None\<rparr> else rule2"
    have eq: "r2 = r \<Longrightarrow> rule2 = rule" using l r by (auto simp: linked_def)
    have "linked ?w sess r2 ?rule2 c ctx n" using l eq by (auto simp: linked_def)
    moreover have "r_mode ?rule2 = r_mode rule2" "registry ?rule2 (s_status sess) (s_handle sess) = Some s"
      using eq rest(5) by (auto simp: registry_def)
    ultimately show ?thesis using rest(1-4) by (intro session_okI) simp_all
  qed
  moreover have "rule_ok ?w r2 rule2" if "w_rules ?w r2 = Some rule2" for r2 rule2
    using that W(2) [of r2] r by (auto simp: rule_ok_def rule_links_def split: if_splits)
  moreover have "context_ok ?w c ctx" if "w_contexts w c = Some ctx" for c ctx
    using W(3) [OF that] r by (fastforce simp: context_ok_def)
  ultimately show ?thesis using W(4-6) r
    by (auto simp: world_ok_def runner_ok_def messages_ok_def fresh_ok_def)
qed

text \<open>A rule without sessions is taken out of its context.\<close>

lemma world_ok_rule_delete:
  assumes w: "world_ok w" and r: "w_rules w r = Some rule" "r_context rule = Some c" "w_contexts w c = Some ctx"
    and empty: "rb_map (r_sessions rule) = Map.empty" "rb_map (r_connecting_sessions rule) = Map.empty"
    and t: "rb_ok t" "rb_map t = (rb_map (c_rules ctx))(r_service rule := None)"
  shows "world_ok (w\<lparr>w_contexts := (w_contexts w)(c \<mapsto> ctx\<lparr>c_rules := t\<rparr>), w_rules := (w_rules w)(r := None)\<rparr>)"
    (is "world_ok ?w")
proof -
  note W = world_okD [OF w]
  let ?ctx = "ctx\<lparr>c_rules := t\<rparr>"
  from W(2) [OF r(1)] r(2,3) have reg: "rb_map (c_rules ctx) (r_service rule) = Some r"
    by (auto simp: rule_ok_def rule_links_def)
  have "session_ok ?w s sess" if s: "w_sessions w s = Some sess" for s sess
  proof (rule session_okE [OF W(1) [OF s]])
    fix r2 rule2 c2 ctx2 n
    assume l: "linked w sess r2 rule2 c2 ctx2 n" and
      rest: "queues_ok (r2, c2, n) (w_messages w) s sess" "s_status sess \<in> {1, 2, 3}"
        "s_status sess = 1 \<longrightarrow> messages_of sess = {}" "session_events (r_mode rule2) r2 c2 n s sess"
        "registry rule2 (s_status sess) (s_handle sess) = Some s"
    from rest(5) empty l r(1) have "r2 \<noteq> r" by (auto simp: registry_def linked_def split: if_splits)
    with l r(3) have "linked ?w sess r2 rule2 c2 (if c2 = c then ?ctx else ctx2) n"
      by (auto simp: linked_def)
    with rest show ?thesis by (intro session_okI) simp_all
  qed
  moreover have "rule_ok ?w r2 rule2" if r2: "w_rules ?w r2 = Some rule2" for r2 rule2
  proof -
    from r2 have o: "w_rules w r2 = Some rule2" "r2 \<noteq> r" by (auto split: if_splits)
    from W(2) [OF o(1)] obtain c2 ctx2 where c2: "r_context rule2 = Some c2" "w_contexts w c2 = Some ctx2"
      "rb_map (c_rules ctx2) (r_service rule2) = Some r2"
      "\<forall>ev. r_ev_listen rule2 = Some ev \<longrightarrow> te_context ev = Some c2 \<and> te_runner ev = c_runner ctx2"
      by (auto simp: rule_ok_def rule_links_def)
    let ?ctx2 = "if c2 = c then ?ctx else ctx2"
    have "w_contexts ?w c2 = Some ?ctx2" "rb_map (c_rules ?ctx2) (r_service rule2) = Some r2"
      using c2 o(2) r(3) reg by (auto simp: t(2))
    moreover have "c_runner ?ctx2 = c_runner ctx2" using c2(2) r(3) by auto
    ultimately show ?thesis using W(2) [OF o(1)] c2(1,4) by (simp add: rule_ok_def rule_links_def)
  qed
  moreover have "context_ok ?w c2 ctx2" if c2: "w_contexts ?w c2 = Some ctx2" for c2 ctx2
  proof (cases "c2 = c")
    case True
    have m: "\<exists>rule2. r2 \<noteq> r \<and> w_rules w r2 = Some rule2 \<and> r_context rule2 = Some c \<and> r_service rule2 = k"
      if k: "rb_map t k = Some r2" for k r2
    proof -
      from k have k': "k \<noteq> r_service rule" "rb_map (c_rules ctx) k = Some r2" by (auto simp: t(2) split: if_splits)
      from W(3) [OF r(3)] k'(2) obtain rule2 where
        "w_rules w r2 = Some rule2" "r_context rule2 = Some c" "r_service rule2 = k"
        unfolding context_ok_def by blast
      with k'(1) r(1) show ?thesis by auto
    qed
    have "\<forall>k r2. rb_map t k = Some r2 \<longrightarrow> (\<exists>rule2. w_rules ?w r2 = Some rule2 \<and>
        r_context rule2 = Some c \<and> r_service rule2 = k)" using m by fastforce
    moreover have "ctx2 = ?ctx" using True c2 by simp
    ultimately show ?thesis using True W(3) [OF r(3)] t(1) by (simp add: context_ok_def del: fun_upd_apply)
  next
    case False
    with c2 have o: "w_contexts w c2 = Some ctx2" by simp
    from W(3) [OF o] False r(1,2) show ?thesis by (fastforce simp: context_ok_def)
  qed
  moreover have "runner_ok ?w n run" if "w_runners w n = Some run" for n run
    using W(4) [OF that] r(3) by (fastforce simp: runner_ok_def)
  moreover have "fresh_ok ?w" using W(6) r by (auto simp: fresh_ok_def)
  ultimately show ?thesis using W(5) by (simp add: world_ok_def messages_ok_def)
qed

text \<open>The sessions that are not of rule \<open>r\<close>.\<close>

definition sessions_without :: "addr \<Rightarrow> (addr \<Rightarrow> t2u_session option) \<Rightarrow> addr \<Rightarrow> t2u_session option" where
  "sessions_without r sessions s =
     (case sessions s of
        None \<Rightarrow> None
      | Some sess \<Rightarrow> if s_rule sess = Some r then None else Some sess)"

lemma rule_frame_empty:
  assumes w: "world_ok w'" and f: "rule_frame r w w'" and r: "w_rules w' r = Some rule"
    and empty: "rb_map (r_sessions rule) = Map.empty" "rb_map (r_connecting_sessions rule) = Map.empty"
  shows "w_sessions w' = sessions_without r (w_sessions w)"
proof
  fix s
  have le: "w_sessions w' \<subseteq>\<^sub>m w_sessions w" and
    keep: "\<forall>s sess. w_sessions w s = Some sess \<longrightarrow> s_rule sess \<noteq> Some r \<longrightarrow> w_sessions w' s = Some sess"
    using f by (simp_all add: rule_frame_def)
  have "s_rule sess \<noteq> Some r" if "w_sessions w' s = Some sess" for sess
    using world_okD(1) [OF w that] r empty by (auto simp: session_ok_def linked_def registry_def split: if_splits)
  moreover have "w_sessions w s = Some sess" if "w_sessions w' s = Some sess" for sess
    using le that by (metis domI map_le_def)
  moreover have "w_sessions w' s = Some sess" if "w_sessions w s = Some sess" "s_rule sess \<noteq> Some r" for sess
    using keep that by blast
  ultimately show "w_sessions w' s = sessions_without r (w_sessions w) s"
    by (cases "w_sessions w s"; cases "w_sessions w' s") (auto simp: sessions_without_def)
qed

text \<open>
  With a log callback, the message on the deletion of a rule fits into the buffer of the macro when the
  name of the rule has at most 900 bytes.
\<close>

definition LOG_NAME_MAX :: nat where "LOG_NAME_MAX = 900"

definition rule_logs :: "world \<Rightarrow> t2u_rule \<Rightarrow> bool" where
  "rule_logs w rule \<longleftrightarrow>
     (get_log_func (w_callbacks w) \<noteq> NULL \<longrightarrow> length (cbytes (r_service rule)) \<le> LOG_NAME_MAX)"

definition log_ok :: "world \<Rightarrow> bool" where
  "log_ok w \<longleftrightarrow> (\<forall>r rule. w_rules w r = Some rule \<longrightarrow> rule_logs w rule)"

lemma log_okD: "log_ok w \<Longrightarrow> w_rules w r = Some rule \<Longrightarrow> rule_logs w rule"
  by (simp add: log_ok_def)

lemma log_ok_sub: "log_ok w \<Longrightarrow> w_callbacks w' = w_callbacks w \<Longrightarrow> w_rules w' = (w_rules w)(r := None) \<Longrightarrow> log_ok w'"
  by (auto simp: log_ok_def rule_logs_def split: if_splits)

lemma log_ok_same: "log_ok w \<Longrightarrow> w_callbacks w' = w_callbacks w \<Longrightarrow> w_rules w' = w_rules w \<Longrightarrow> log_ok w'"
  by (simp add: log_ok_def rule_logs_def)

lemma log_delete_rule_fits:
  assumes "get_log_func (w_callbacks w) \<noteq> NULL \<longrightarrow> length (cbytes service) \<le> LOG_NAME_MAX"
  shows "LOG_line os 1 ''src/t2u_rule.c'' 263 (log_delete_rule r service c) w = Some w"
  using assms fmt_p_length [of r] fmt_p_length [of c] fmt_u_length [of 263]
  by (intro LOG_line_fits) (auto simp: log_delete_rule_def fmt_s_def LOG_NAME_MAX_def)

lemma delete_rule_cb_ok:
  assumes w: "world_ok w" and r: "w_rules w r = Some rule" "r_context rule = Some c" "w_contexts w c = Some ctx"
    and log: "rule_logs w rule"
  shows "\<exists>w' t. delete_rule_cb os r w = Some w' \<and> world_ok w' \<and> w_rules w' = (w_rules w)(r := None) \<and>
    w_sessions w' = sessions_without r (w_sessions w) \<and> w_messages w' \<subseteq>\<^sub>m w_messages w \<and>
    w_contexts w' = (w_contexts w)(c \<mapsto> ctx\<lparr>c_rules := t\<rparr>) \<and>
    rb_map t = (rb_map (c_rules ctx))(r_service rule := None) \<and>
    w_runners w' = w_runners w \<and> w_g_runner w' = w_g_runner w \<and> w_callbacks w' = w_callbacks w"
proof -
  let ?rule = "rule\<lparr>r_ev_listen := None\<rparr>"
  let ?w0 = "put_rule r ?rule (t2u_delete_event (r_ev_listen rule) w)"
  let ?w1 = "w\<lparr>w_rules := (w_rules w)(r \<mapsto> ?rule), w_out := w_out w @ event_frees (r_ev_listen rule) @
      (if r_mode rule = forward_client_mode then [CloseSocket (r_listen_sock rule)] else [])\<rparr>"
  have prep: "(if r_mode rule = forward_client_mode then emit (CloseSocket (r_listen_sock rule)) ?w0 else ?w0) = ?w1"
    by (simp add: t2u_delete_event_exec put_rule_def emit_def)
  have w1: "world_ok ?w1" "w_rules ?w1 r = Some ?rule" using world_ok_unlisten [OF w r(1)] by simp_all
  then have "rule_inv r ?w1 ?w1" using rule_frame_refl [OF w1(2)] by (simp add: rule_inv_def)
  from sessions_loop.drains [OF this, of os] obtain w2 where
    w2: "clear_sessions os r ?w1 = Some w2" "rule_inv r ?w1 w2 \<and> rule_content r_sessions r w2 = Map.empty" by blast
  from connecting_loop.drains [OF w2(2)] obtain w3 where
    w3: "clear_connecting_sessions r w2 = Some w3" "rule_inv r ?w1 w3" "rule_content r_sessions r w3 = Map.empty"
    "rule_content r_connecting_sessions r w3 = Map.empty" by blast
  from w3(2) obtain rule3 where r3: "world_ok w3" "rule_frame r ?w1 w3" "w_rules w3 r = Some rule3"
    by (rule rule_invD)
  with w3(3,4) have e: "rb_map (r_sessions rule3) = Map.empty" "rb_map (r_connecting_sessions rule3) = Map.empty"
    by (simp_all add: rule_content_def)
  from r3(2,3) w1(2) have f: "r_context rule3 = r_context rule" "r_service rule3 = r_service rule"
    "w_contexts w3 = w_contexts w" "w_runners w3 = w_runners w" "w_messages w3 \<subseteq>\<^sub>m w_messages w"
    "w_g_runner w3 = w_g_runner w" "w_callbacks w3 = w_callbacks w" "\<And>r'. r' \<noteq> r \<Longrightarrow> w_rules w3 r' = w_rules w r'"
    by (auto simp: rule_frame_def same_rule_def)
  have rules3: "(w_rules w3)(r := None) = (w_rules w)(r := None)" using f(8) by auto
  have rc: "r_context rule3 = Some c" "w_contexts w3 c = Some ctx" using f(1,3) r(2,3) by simp_all
  from world_okD(3) [OF r3(1) rc(2)] have "rb_ok (c_rules ctx)" by (simp add: context_ok_def)
  from rb.del_total [OF this, of "r_service rule"] obtain code t where
    t: "rbtree_remove (c_rules ctx) (r_service rule) = Some (code, t)" "rb_ok t"
    "rb_map t = (rb_map (c_rules ctx))(r_service rule := None)" by blast
  have "LOG_line os 1 ''src/t2u_rule.c'' 263 (log_delete_rule r (r_service rule) c)
      (put_context c (ctx\<lparr>c_rules := t\<rparr>) w3) = Some (put_context c (ctx\<lparr>c_rules := t\<rparr>) w3)"
    using log by (intro log_delete_rule_fits) (simp add: rule_logs_def put_context_def f(7))
  note logged = this [unfolded put_context_def]
  let ?w4 = "w3\<lparr>w_contexts := (w_contexts w3)(c \<mapsto> ctx\<lparr>c_rules := t\<rparr>), w_rules := (w_rules w3)(r := None)\<rparr>"
  have "world_ok ?w4" by (rule world_ok_rule_delete [OF r3(1,3) rc e t(2)]) (simp add: t(3) f(2))
  moreover have "delete_rule_cb os r w = Some ?w4"
    using r rc(2) w2(1) w3(1) t(1) logged
    by (simp add: delete_rule_cb_def prep put_context_def free_rule_def del: if_split)
  moreover have "w_sessions w3 = sessions_without r (w_sessions w)"
    using rule_frame_empty [OF r3 e] by simp
  ultimately show ?thesis using f rules3 t(3) by (intro exI [of _ ?w4] exI [of _ t]) simp
qed

lemma delete_rule_ok:
  assumes w: "world_ok w" and r: "w_rules w r = Some rule" "r_context rule = Some c" "w_contexts w c = Some ctx"
    and log: "rule_logs w rule"
  shows "\<exists>w' t. t2u_delete_rule os r w = Some w' \<and> world_ok w' \<and> w_rules w' = (w_rules w)(r := None) \<and>
    w_sessions w' = sessions_without r (w_sessions w) \<and> w_messages w' \<subseteq>\<^sub>m w_messages w \<and>
    w_contexts w' = (w_contexts w)(c \<mapsto> ctx\<lparr>c_rules := t\<rparr>) \<and>
    rb_map t = (rb_map (c_rules ctx))(r_service rule := None) \<and>
    w_runners w' = w_runners w \<and> w_g_runner w' = w_g_runner w \<and> w_callbacks w' = w_callbacks w"
proof -
  from world_okD(3) [OF w r(3)] obtain n run where "c_runner ctx = Some n" "w_runners w n = Some run"
    by (auto simp: context_ok_def)
  with r have "t2u_delete_rule os r w = delete_rule_cb os r w"
    by (simp add: t2u_delete_rule_def t2u_runner_control_def the_context_def the_runner_def)
  with delete_rule_cb_ok [OF w r log] show ?thesis by simp
qed

end
