(* ===== verification/T2u_Shutdown.thy ===== *)
theory T2u_Shutdown
  imports T2u_Teardown
begin

text \<open>
  Deletion of contexts and of the runner, and the reference counting of the shared runner by
  \<open>free_forward\<close>.
\<close>

section \<open>The rules of a context\<close>

definition same_context :: "t2u_context \<Rightarrow> t2u_context \<Rightarrow> bool" where
  "same_context ctx ctx' \<longleftrightarrow>
     c_sock ctx' = c_sock ctx \<and> c_runner ctx' = c_runner ctx \<and> c_ev_udp ctx' = c_ev_udp ctx"

definition rule_of :: "world \<Rightarrow> addr \<Rightarrow> addr \<Rightarrow> bool" where
  "rule_of w c r \<longleftrightarrow> (\<exists>rule. w_rules w r = Some rule \<and> r_context rule = Some c)"

text \<open>What deleting rules of context \<open>c\<close> leaves alone.\<close>

definition context_frame :: "addr \<Rightarrow> world \<Rightarrow> world \<Rightarrow> bool" where
  "context_frame c w w' \<longleftrightarrow>
     w_runners w' = w_runners w \<and> w_g_runner w' = w_g_runner w \<and> w_callbacks w' = w_callbacks w \<and>
     (\<forall>c'. c' \<noteq> c \<longrightarrow> w_contexts w' c' = w_contexts w c') \<and>
     (\<exists>ctx ctx'. w_contexts w c = Some ctx \<and> w_contexts w' c = Some ctx' \<and> same_context ctx ctx') \<and>
     (\<forall>r. \<not> rule_of w c r \<longrightarrow> w_rules w' r = w_rules w r \<and> \<not> rule_of w' c r) \<and>
     (\<forall>s sess r. w_sessions w s = Some sess \<longrightarrow> s_rule sess = Some r \<longrightarrow> \<not> rule_of w c r \<longrightarrow>
        w_sessions w' s = Some sess)"

lemma context_frame_refl: "w_contexts w c = Some ctx \<Longrightarrow> context_frame c w w"
  by (simp add: context_frame_def same_context_def)

lemma context_frame_trans:
  assumes f: "context_frame c w1 w2" and g: "context_frame c w2 w3"
  shows "context_frame c w1 w3"
proof -
  from f g have "\<exists>ctx ctx'. w_contexts w1 c = Some ctx \<and> w_contexts w3 c = Some ctx' \<and> same_context ctx ctx'"
    unfolding context_frame_def same_context_def by (metis option.inject)
  then show ?thesis using f g unfolding context_frame_def by metis
qed

lemma delete_rule_frame:
  assumes w: "world_ok w" and r: "w_rules w r = Some rule" "r_context rule = Some c" "w_contexts w c = Some ctx"
    and log: "log_ok w"
  shows "\<exists>w' ctx'. t2u_delete_rule os r w = Some w' \<and> world_ok w' \<and> log_ok w' \<and> context_frame c w w' \<and>
    w_contexts w' c = Some ctx' \<and> rb_map (c_rules ctx') = (rb_map (c_rules ctx))(r_service rule := None)"
proof -
  from delete_rule_ok [OF w r log_okD [OF log r(1)], of os] obtain w' t where
    d: "t2u_delete_rule os r w = Some w'" "world_ok w'" "w_rules w' = (w_rules w)(r := None)"
      "w_sessions w' = sessions_without r (w_sessions w)"
      "w_contexts w' = (w_contexts w)(c \<mapsto> ctx\<lparr>c_rules := t\<rparr>)"
      "rb_map t = (rb_map (c_rules ctx))(r_service rule := None)"
      "w_runners w' = w_runners w" "w_g_runner w' = w_g_runner w" "w_callbacks w' = w_callbacks w" by blast
  have "rule_of w c r" using r by (simp add: rule_of_def)
  then have "context_frame c w w'"
    unfolding context_frame_def using d(3-5,7-9) r(3)
    by (auto simp: same_context_def rule_of_def sessions_without_def)
  with d log_ok_sub [OF log d(9,3)] show ?thesis by auto
qed

definition context_content :: "addr \<Rightarrow> world \<Rightarrow> cstr \<Rightarrow> addr option" where
  "context_content c w = (case w_contexts w c of None \<Rightarrow> Map.empty | Some ctx \<Rightarrow> rb_map (c_rules ctx))"

definition context_inv :: "addr \<Rightarrow> world \<Rightarrow> world \<Rightarrow> bool" where
  "context_inv c w w' \<longleftrightarrow> world_ok w' \<and> log_ok w' \<and> context_frame c w w'"

interpretation rules_loop: drain_loop "clear_rules os c" "context_content c" "context_inv c w0" for os c w0
proof
  fix w
  assume inv: "context_inv c w0 w"
  then obtain ctx where w: "world_ok w" "context_frame c w0 w" "w_contexts w c = Some ctx" "log_ok w"
    by (auto simp: context_inv_def context_frame_def)
  from world_okD(3) [OF w(1,3)] have ok: "rb_ok (c_rules ctx)" and
    rules: "\<And>k r. rb_map (c_rules ctx) k = Some r \<Longrightarrow>
      \<exists>rule. w_rules w r = Some rule \<and> r_context rule = Some c \<and> r_service rule = k"
    by (auto simp: context_ok_def)
  have cont: "context_content c w = rb_map (c_rules ctx)" using w(3) by (simp add: context_content_def)
  show "finite (dom (context_content c w))" unfolding cont by (rule rb.finite_content [OF ok])
  show "clear_rules os c w = Some w" if "context_content c w = Map.empty"
    using rb.root_empty [OF ok] that w(3) by (simp add: clear_rules.simps cont)
  show "\<exists>k w'. k \<in> dom (context_content c w) \<and> clear_rules os c w = clear_rules os c w' \<and>
      context_inv c w0 w' \<and> context_content c w' = (context_content c w)(k := None)"
    if "context_content c w \<noteq> Map.empty"
  proof -
    from rb.root_some [OF ok] that obtain k r where
      k: "rbtree_root_entry (c_rules ctx) = Some (Some (k, r))" "rb_map (c_rules ctx) k = Some r"
      unfolding cont by blast
    from rules [OF k(2)] obtain rule where
      r: "w_rules w r = Some rule" "r_context rule = Some c" "r_service rule = k" by blast
    from delete_rule_frame [OF w(1) r(1,2) w(3,4), of os] obtain w' ctx' where
      d: "t2u_delete_rule os r w = Some w'" "world_ok w'" "context_frame c w w'" "w_contexts w' c = Some ctx'"
        "rb_map (c_rules ctx') = (rb_map (c_rules ctx))(k := None)" "log_ok w'" using r(3) by auto
    have "clear_rules os c w = clear_rules os c w'"
      using w(3) k(1) d(1) by (subst clear_rules.simps) simp
    moreover have "context_inv c w0 w'" using context_frame_trans [OF w(2) d(3)] d(2,6) by (simp add: context_inv_def)
    ultimately show ?thesis using k(2) d(4,5) w(3)
      by (intro exI [of _ k] exI [of _ w']) (simp add: context_content_def dom_def)
  qed
qed

section \<open>Deleting a context\<close>

lemma world_ok_context_delete:
  assumes w: "world_ok w" and c: "w_contexts w c = Some ctx" "c_runner ctx = Some n" "w_runners w n = Some run"
    "n_contexts run = Some tree" and empty: "rb_map (c_rules ctx) = Map.empty"
    and t: "rb_ok t" "rb_map t = (rb_map tree)(c := None)"
  shows "world_ok (w\<lparr>w_runners := (w_runners w)(n \<mapsto> run\<lparr>n_contexts := Some t\<rparr>),
    w_contexts := (w_contexts w)(c := None)\<rparr>)" (is "world_ok ?w")
proof -
  note W = world_okD [OF w]
  have norule: "r_context rule \<noteq> Some c" if "w_rules w r = Some rule" for r rule
    using W(2) [OF that] c(1) empty by (auto simp: rule_ok_def rule_links_def)
  have "session_ok ?w s sess" if s: "w_sessions w s = Some sess" for s sess
  proof (rule session_okE [OF W(1) [OF s]])
    fix r rule c2 ctx2 n2
    assume l: "linked w sess r rule c2 ctx2 n2" and
      rest: "queues_ok (r, c2, n2) (w_messages w) s sess" "s_status sess \<in> {1, 2, 3}"
        "s_status sess = 1 \<longrightarrow> messages_of sess = {}" "session_events (r_mode rule) r c2 n2 s sess"
        "registry rule (s_status sess) (s_handle sess) = Some s"
    have "c2 \<noteq> c" using l norule by (auto simp: linked_def)
    then have "linked ?w sess r rule c2 ctx2 n2" using l by (auto simp: linked_def)
    with rest show ?thesis by (intro session_okI) simp_all
  qed
  moreover have "rule_ok ?w r rule" if r: "w_rules w r = Some rule" for r rule
    using W(2) [OF r] norule [OF r] by (fastforce simp: rule_ok_def rule_links_def)
  moreover have "context_ok ?w c2 ctx2" if c2: "w_contexts ?w c2 = Some ctx2" for c2 ctx2
  proof -
    from c2 have o: "w_contexts w c2 = Some ctx2" "c2 \<noteq> c" by (auto split: if_splits)
    from W(3) [OF o(1)] obtain n2 run2 tree2 where n2: "c_runner ctx2 = Some n2" "w_runners w n2 = Some run2"
      "n_contexts run2 = Some tree2" "rb_map tree2 c2 = Some c2" by (auto simp: context_ok_def)
    have "\<exists>n run tree. c_runner ctx2 = Some n \<and> w_runners ?w n = Some run \<and> n_contexts run = Some tree \<and>
        rb_map tree c2 = Some c2"
    proof (cases "n2 = n")
      case True
      with n2 c(3,4) o(2) show ?thesis by (simp add: t(2))
    next
      case False
      with n2 show ?thesis by simp
    qed
    with W(3) [OF o(1)] show ?thesis by (simp add: context_ok_def del: fun_upd_apply)
  qed
  moreover have "runner_ok ?w n2 run2" if n2: "w_runners ?w n2 = Some run2" for n2 run2
  proof (cases "n2 = n")
    case True
    with n2 W(4) [OF c(3)] c(4) t show ?thesis by (auto simp: runner_ok_def)
  next
    case False
    with n2 have o: "w_runners w n2 = Some run2" by simp
    have "k \<noteq> c" if "n_contexts run2 = Some tree2" "rb_map tree2 k = Some k" for k tree2
      using W(4) [OF o] that False c(1,2) unfolding runner_ok_def by force
    with W(4) [OF o] show ?thesis by (fastforce simp: runner_ok_def)
  qed
  moreover have "fresh_ok ?w" using W(6) c(3) by (auto simp: fresh_ok_def)
  ultimately show ?thesis using W(5) by (simp add: world_ok_def messages_ok_def)
qed

lemma delete_context_ok:
  assumes w: "world_ok w" and c: "w_contexts w c = Some ctx" "c_runner ctx = Some n" "w_runners w n = Some run"
    "n_contexts run = Some tree" and log: "log_ok w"
  shows "\<exists>w' t. t2u_delete_context os c w = Some w' \<and> world_ok w' \<and> log_ok w' \<and>
    w_contexts w' = (w_contexts w)(c := None) \<and>
    w_runners w' = (w_runners w)(n \<mapsto> run\<lparr>n_contexts := Some t\<rparr>) \<and> rb_ok t \<and>
    rb_map t = (rb_map tree)(c := None) \<and> w_g_runner w' = w_g_runner w \<and> w_callbacks w' = w_callbacks w \<and>
    (\<forall>r. \<not> rule_of w' c r) \<and> (\<forall>r. \<not> rule_of w c r \<longrightarrow> w_rules w' r = w_rules w r) \<and>
    (\<forall>s sess r. w_sessions w s = Some sess \<longrightarrow> s_rule sess = Some r \<longrightarrow> \<not> rule_of w c r \<longrightarrow>
       w_sessions w' s = Some sess)"
proof -
  have "context_inv c w w" using w log context_frame_refl [OF c(1)] by (simp add: context_inv_def)
  from rules_loop.drains [OF this, of os] obtain w1 where
    w1: "clear_rules os c w = Some w1" "world_ok w1" "context_frame c w w1" "context_content c w1 = Map.empty"
      "log_ok w1"
    by (auto simp: context_inv_def)
  from w1(3) c(1) obtain ctx1 where ctx1: "w_contexts w1 c = Some ctx1" "same_context ctx ctx1"
    by (auto simp: context_frame_def)
  have r1: "w_runners w1 n = Some run" using w1(3) c(3) by (simp add: context_frame_def)
  have cr: "c_runner ctx1 = Some n" using ctx1(2) c(2) by (simp add: same_context_def)
  have e1: "rb_map (c_rules ctx1) = Map.empty" using w1(4) ctx1(1) by (simp add: context_content_def)
  from world_okD(4) [OF w c(3)] c(4) have "rb_ok tree" by (simp add: runner_ok_def)
  from rb.del_total [OF this, of c] obtain code t where
    t: "rbtree_remove tree c = Some (code, t)" "rb_ok t" "rb_map t = (rb_map tree)(c := None)" by blast
  let ?w2 = "w1\<lparr>w_out := w_out w1 @ event_frees (c_ev_udp ctx1)\<rparr>"
  let ?w3 = "?w2\<lparr>w_runners := (w_runners ?w2)(n \<mapsto> run\<lparr>n_contexts := Some t\<rparr>),
    w_contexts := (w_contexts ?w2)(c := None)\<rparr>"
  have ok: "world_ok ?w3"
    by (rule world_ok_context_delete [OF _ _ cr _ c(4) e1 t(2,3)]) (use w1(2) ctx1(1) r1 in simp_all)
  have "t2u_delete_context os c w = Some ?w3"
    using c w1(1) ctx1(1) r1 t(1)
    by (simp add: t2u_delete_context_def t2u_runner_control_def the_runner_def delete_context_cb_def
        t2u_delete_event_exec put_runner_def free_context_def Let_def)
  moreover have "\<not> rule_of ?w3 c r" for r
  proof
    assume "rule_of ?w3 c r"
    then obtain rule where "w_rules ?w3 r = Some rule" "r_context rule = Some c" unfolding rule_of_def by blast
    with world_okD(2) [OF ok this(1)] show False by (auto simp: rule_ok_def rule_links_def)
  qed
  moreover have "log_ok ?w3" by (rule log_ok_same [OF w1(5)]) simp_all
  ultimately show ?thesis using ok t(2,3) w1(3)
    by (intro exI [of _ ?w3] exI [of _ t]) (auto simp: context_frame_def rule_of_def)
qed

section \<open>Deleting the runner\<close>

definition runner_frame :: "addr \<Rightarrow> world \<Rightarrow> world \<Rightarrow> bool" where
  "runner_frame n w w' \<longleftrightarrow>
     w_g_runner w' = w_g_runner w \<and> w_callbacks w' = w_callbacks w \<and> (\<forall>n'. n' \<noteq> n \<longrightarrow> w_runners w' n' = w_runners w n') \<and>
     (\<exists>run run'. w_runners w n = Some run \<and> w_runners w' n = Some run' \<and> n_sock0 run' = n_sock0 run \<and>
        n_sock1 run' = n_sock1 run \<and> n_control_event run' = n_control_event run \<and> n_running run' = n_running run)"

definition runner_content :: "addr \<Rightarrow> world \<Rightarrow> addr \<Rightarrow> addr option" where
  "runner_content n w =
     (case w_runners w n of
        None \<Rightarrow> Map.empty
      | Some run \<Rightarrow> (case n_contexts run of None \<Rightarrow> Map.empty | Some tree \<Rightarrow> rb_map tree))"

definition runner_inv :: "addr \<Rightarrow> world \<Rightarrow> world \<Rightarrow> bool" where
  "runner_inv n w w' \<longleftrightarrow> world_ok w' \<and> log_ok w' \<and> runner_frame n w w'"

lemma runner_frame_trans:
  assumes f: "runner_frame n w1 w2" and g: "runner_frame n w2 w3"
  shows "runner_frame n w1 w3"
proof -
  from f g obtain run1 run2 run3 where "w_runners w1 n = Some run1" "w_runners w3 n = Some run3"
    "n_sock0 run3 = n_sock0 run1" "n_sock1 run3 = n_sock1 run1" "n_control_event run3 = n_control_event run1"
    "n_running run3 = n_running run1"
    unfolding runner_frame_def by auto
  with f g show ?thesis unfolding runner_frame_def by auto
qed

interpretation contexts_loop: drain_loop "clear_contexts os n" "runner_content n" "runner_inv n w0" for os n w0
proof
  fix w
  assume inv: "runner_inv n w0 w"
  then obtain run where w: "world_ok w" "runner_frame n w0 w" "w_runners w n = Some run" "log_ok w"
    by (auto simp: runner_inv_def runner_frame_def)
  from world_okD(4) [OF w(1,3)] obtain tree where tree: "n_contexts run = Some tree" "rb_ok tree" and
    ctxs: "\<And>k c. rb_map tree k = Some c \<Longrightarrow> k = c \<and> (\<exists>ctx. w_contexts w c = Some ctx \<and> c_runner ctx = Some n)"
    by (auto simp: runner_ok_def)
  have cont: "runner_content n w = rb_map tree" using w(3) tree(1) by (simp add: runner_content_def)
  show "finite (dom (runner_content n w))" unfolding cont by (rule rb.finite_content [OF tree(2)])
  show "clear_contexts os n w = Some w" if "runner_content n w = Map.empty"
    using rb.root_empty [OF tree(2)] that w(3) tree(1) by (simp add: clear_contexts.simps cont)
  show "\<exists>k w'. k \<in> dom (runner_content n w) \<and> clear_contexts os n w = clear_contexts os n w' \<and>
      runner_inv n w0 w' \<and> runner_content n w' = (runner_content n w)(k := None)"
    if "runner_content n w \<noteq> Map.empty"
  proof -
    from rb.root_some [OF tree(2)] that obtain k c where
      k: "rbtree_root_entry tree = Some (Some (k, c))" "rb_map tree k = Some c"
      unfolding cont by blast
    from ctxs [OF k(2)] obtain ctx where c: "k = c" "w_contexts w c = Some ctx" "c_runner ctx = Some n" by blast
    from delete_context_ok [OF w(1) c(2,3) w(3) tree(1) w(4), of os] obtain w' t where
      d: "t2u_delete_context os c w = Some w'" "world_ok w'"
        "w_runners w' = (w_runners w)(n \<mapsto> run\<lparr>n_contexts := Some t\<rparr>)" "rb_map t = (rb_map tree)(c := None)"
        "w_g_runner w' = w_g_runner w" "w_callbacks w' = w_callbacks w" "log_ok w'" by blast
    have "runner_frame n w w'" using d(3,5,6) w(3) by (simp add: runner_frame_def)
    from runner_frame_trans [OF w(2) this] d(2,7) have "runner_inv n w0 w'" by (simp add: runner_inv_def)
    moreover have "clear_contexts os n w = clear_contexts os n w'"
      using w(3) tree(1) k(1) d(1) by (subst clear_contexts.simps) simp
    ultimately show ?thesis using k(2) d(3,4) c(1)
      by (intro exI [of _ k] exI [of _ w']) (simp add: cont, simp add: runner_content_def dom_def)
  qed
qed

lemma world_ok_runner_delete:
  assumes w: "world_ok w" and n: "w_runners w n = Some run" "n_contexts run = Some tree"
    and empty: "rb_map tree = Map.empty"
  shows "world_ok (w\<lparr>w_runners := (w_runners w)(n := None)\<rparr>)" (is "world_ok ?w")
proof -
  note W = world_okD [OF w]
  have none: "c_runner ctx \<noteq> Some n" if "w_contexts w c = Some ctx" for c ctx
    using W(3) [OF that] n empty by (auto simp: context_ok_def)
  have "session_ok ?w s sess" if s: "w_sessions w s = Some sess" for s sess
  proof (rule session_okE [OF W(1) [OF s]])
    fix r rule c ctx n2
    assume l: "linked w sess r rule c ctx n2" and
      rest: "queues_ok (r, c, n2) (w_messages w) s sess" "s_status sess \<in> {1, 2, 3}"
        "s_status sess = 1 \<longrightarrow> messages_of sess = {}" "session_events (r_mode rule) r c n2 s sess"
        "registry rule (s_status sess) (s_handle sess) = Some s"
    have "linked ?w sess r rule c ctx n2" using l none by (auto simp: linked_def)
    with rest show ?thesis by (intro session_okI) simp_all
  qed
  moreover have "rule_ok ?w r rule" if "w_rules w r = Some rule" for r rule
    using W(2) [OF that] by (simp add: rule_ok_def rule_links_def)
  moreover have "context_ok ?w c ctx" if c: "w_contexts w c = Some ctx" for c ctx
    using W(3) [OF c] none [OF c] by (fastforce simp: context_ok_def)
  moreover have "runner_ok ?w n2 run2" if "w_runners ?w n2 = Some run2" for n2 run2
    using that W(4) [of n2 run2] by (auto simp: runner_ok_def split: if_splits)
  moreover have "fresh_ok ?w" using W(6) by (auto simp: fresh_ok_def)
  ultimately show ?thesis using W(5) by (simp add: world_ok_def messages_ok_def)
qed

text \<open>The fields of a runner that the invariant does not look at.\<close>

lemma world_ok_runner_fields:
  assumes w: "world_ok w" and n: "w_runners w n = Some run" and run': "n_contexts run' = n_contexts run"
  shows "world_ok (w\<lparr>w_runners := (w_runners w)(n \<mapsto> run')\<rparr>)" (is "world_ok ?w")
proof -
  note W = world_okD [OF w]
  have l: "linked ?w sess r rule c ctx n2 = linked w sess r rule c ctx n2" for sess r rule c ctx n2
    using n by (auto simp: linked_def)
  have "session_ok ?w s sess" if s: "w_sessions w s = Some sess" for s sess
    using W(1) [OF s] by (simp add: session_ok_def l)
  moreover have "rule_ok ?w r rule" if "w_rules w r = Some rule" for r rule
    using W(2) [OF that] by (simp add: rule_ok_def rule_links_def)
  moreover have "context_ok ?w c ctx" if c: "w_contexts w c = Some ctx" for c ctx
    using W(3) [OF c] n run' by (fastforce simp: context_ok_def)
  moreover have "runner_ok ?w n2 run2" if "w_runners ?w n2 = Some run2" for n2 run2
    using that W(4) [of n2 run2] W(4) [OF n] run' by (auto simp: runner_ok_def split: if_splits)
  moreover have "fresh_ok ?w" using W(6) n by (auto simp: fresh_ok_def)
  ultimately show ?thesis using W(5) by (simp add: world_ok_def messages_ok_def)
qed

lemma delete_runner_ok:
  assumes w: "world_ok w" and n: "w_runners w n = Some run" "n_running run \<noteq> 0" and log: "log_ok w"
  shows "\<exists>w' pre. t2u_delete_runner os (Some n) w = Some w' \<and> world_ok w' \<and>
    w_runners w' = (w_runners w)(n := None) \<and> w_g_runner w' = w_g_runner w \<and>
    (\<forall>c ctx. w_contexts w' c = Some ctx \<longrightarrow> c_runner ctx \<noteq> Some n) \<and>
    w_out w' = pre @ (case n_control_event run of None \<Rightarrow> [] | Some e \<Rightarrow> [EventFree e]) @
      [CloseSocket (n_sock0 run), CloseSocket (n_sock1 run)]"
proof -
  let ?w1 = "w\<lparr>w_runners := (w_runners w)(n \<mapsto> run\<lparr>n_running := 0\<rparr>)\<rparr>"
  have "world_ok ?w1" by (rule world_ok_runner_fields [OF w n(1)]) simp
  moreover have "log_ok ?w1" by (rule log_ok_same [OF log]) simp_all
  ultimately have "runner_inv n ?w1 ?w1" by (simp add: runner_inv_def runner_frame_def)
  from contexts_loop.drains [OF this, of os] obtain w2 where
    w2: "clear_contexts os n ?w1 = Some w2" "world_ok w2" "runner_frame n ?w1 w2" "runner_content n w2 = Map.empty"
    by (auto simp: runner_inv_def)
  from w2(3) obtain run2 where run2: "w_runners w2 n = Some run2" "n_control_event run2 = n_control_event run"
    and f: "w_g_runner w2 = w_g_runner w" "\<And>n'. n' \<noteq> n \<Longrightarrow> w_runners w2 n' = w_runners w n'"
    by (auto simp: runner_frame_def)
  from world_okD(4) [OF w2(2) run2(1)] obtain tree where tree: "n_contexts run2 = Some tree"
    by (auto simp: runner_ok_def)
  have e: "rb_map tree = Map.empty" using w2(4) run2(1) tree by (simp add: runner_content_def)
  let ?ev = "case n_control_event run of None \<Rightarrow> [] | Some e \<Rightarrow> [EventFree e]"
  let ?w3 = "w2\<lparr>w_runners := (w_runners w2)(n := None), w_out := w_out w2 @ ?ev @
      [CloseSocket (n_sock0 run), CloseSocket (n_sock1 run)]\<rparr>"
  have ok: "world_ok ?w3" using world_ok_runner_delete [OF w2(2) run2(1) tree e] by simp
  have "t2u_delete_runner os (Some n) w = Some ?w3"
    using n w2(1) run2 
    by (cases "n_control_event run") (simp_all add: t2u_delete_runner_def t2u_runner_control_def the_runner_def
        delete_runner_cb_def world_defs Let_def)
  moreover have "c_runner ctx \<noteq> Some n" if "w_contexts ?w3 c = Some ctx" for c ctx
    using world_okD(3) [OF ok that] by (auto simp: context_ok_def)
  moreover have "(w_runners w2)(n := None) = (w_runners w)(n := None)" using f(2) by auto
  ultimately show ?thesis using ok f(1) by (intro exI [of _ ?w3] exI [of _ "w_out w2"]) simp
qed

section \<open>The shared runner\<close>

lemma delete_runner_idle:
  assumes w: "world_ok w" and n: "w_runners w n = Some run" "n_running run \<noteq> 0" "n_contexts run = Some tree"
    and empty: "rb_map tree = Map.empty" and log: "log_ok w"
  shows "\<exists>w'. t2u_delete_runner os (Some n) w = Some w' \<and> world_ok w' \<and>
    w' = w\<lparr>w_runners := (w_runners w)(n := None), w_out := w_out w @
        (case n_control_event run of None \<Rightarrow> [] | Some e \<Rightarrow> [EventFree e]) @
        [CloseSocket (n_sock0 run), CloseSocket (n_sock1 run)]\<rparr>"
proof -
  let ?w1 = "w\<lparr>w_runners := (w_runners w)(n \<mapsto> run\<lparr>n_running := 0\<rparr>)\<rparr>"
  have "world_ok ?w1" by (rule world_ok_runner_fields [OF w n(1)]) simp
  moreover have "log_ok ?w1" by (rule log_ok_same [OF log]) simp_all
  ultimately have "runner_inv n ?w1 ?w1" by (simp add: runner_inv_def runner_frame_def)
  moreover have "runner_content n ?w1 = Map.empty" using n(3) empty by (simp add: runner_content_def)
  ultimately have "clear_contexts os n ?w1 = Some ?w1" by (rule contexts_loop.stop)
  then have "t2u_delete_runner os (Some n) w = Some (w\<lparr>w_runners := (w_runners w)(n := None), w_out := w_out w @
        (case n_control_event run of None \<Rightarrow> [] | Some e \<Rightarrow> [EventFree e]) @
        [CloseSocket (n_sock0 run), CloseSocket (n_sock1 run)]\<rparr>)"
    using n by (cases "n_control_event run") (simp_all add: t2u_delete_runner_def t2u_runner_control_def
        the_runner_def delete_runner_cb_def world_defs Let_def)
  with world_ok_runner_delete [OF w n(1,3) empty] show ?thesis by simp
qed

text \<open>The runner goes with its last context, and only then.\<close>

lemma free_forward_ok_spec:
  assumes w: "world_ok w" and c: "w_contexts w c = Some ctx" "c_runner ctx = Some n" "w_runners w n = Some run"
    "n_contexts run = Some tree" and g: "w_g_runner w = Some n" and running: "n_running run \<noteq> 0" and log: "log_ok w"
  shows "\<exists>w'. free_forward os c w = Some w' \<and> world_ok w' \<and> log_ok w' \<and> w_callbacks w' = w_callbacks w \<and>
    w_contexts w' = (w_contexts w)(c := None) \<and> (\<forall>r. \<not> rule_of w' c r) \<and>
    (if dom (rb_map tree) = {c} then w_runners w' = (w_runners w)(n := None) \<and> w_g_runner w' = NULL
     else w_g_runner w' = Some n \<and> (\<exists>run'. w_runners w' = (w_runners w)(n \<mapsto> run') \<and> n_running run' = n_running run))"
proof -
  from delete_context_ok [OF w c log, of os] obtain w1 t where
    d: "t2u_delete_context os c w = Some w1" "world_ok w1" "w_contexts w1 = (w_contexts w)(c := None)"
      "w_runners w1 = (w_runners w)(n \<mapsto> run\<lparr>n_contexts := Some t\<rparr>)" "rb_ok t"
      "rb_map t = (rb_map tree)(c := None)" "w_g_runner w1 = w_g_runner w" "\<forall>r. \<not> rule_of w1 c r" "log_ok w1"
      "w_callbacks w1 = w_callbacks w" by blast
  let ?run = "run\<lparr>n_contexts := Some t\<rparr>"
  have "rb_map tree c = Some c"
    using world_okD(3) [OF w c(1)] c by (auto simp: context_ok_def)
  then have last: "rb_map t = Map.empty \<longleftrightarrow> dom (rb_map tree) = {c}"
    unfolding d(6) by (auto simp: fun_eq_iff dom_def split: if_splits)
  note root = rb_ok_root [OF d(5)]
  have n1: "w_runners w1 n = Some ?run" "n_running ?run \<noteq> 0" "n_contexts ?run = Some t" using d(4) running by simp_all
  show ?thesis
  proof (cases "rb_map t = Map.empty")
    case False
    then obtain a where "rb_root t = Some a" using root by blast
    then have "free_forward os c w = Some w1" using d(1,7) g n1 by (simp add: free_forward_def)
    with False last d(2,3,4,7-10) g show ?thesis by (intro exI [of _ w1]) auto
  next
    case True
    from delete_runner_idle [OF d(2) n1 True d(9), of os] obtain w2 where
      e: "t2u_delete_runner os (Some n) w1 = Some w2" "world_ok w2" and
      w2: "w2 = w1\<lparr>w_runners := (w_runners w1)(n := None), w_out := w_out w1 @
        (case n_control_event ?run of None \<Rightarrow> [] | Some e \<Rightarrow> [EventFree e]) @
        [CloseSocket (n_sock0 ?run), CloseSocket (n_sock1 ?run)]\<rparr>" by blast
    have "rb_root t = NULL" using root True by blast
    then have f: "free_forward os c w = Some (w2\<lparr>w_g_runner := NULL\<rparr>)"
      using d(1,7) g n1 e(1) by (simp add: free_forward_def)
    have "\<forall>r. \<not> rule_of (w2\<lparr>w_g_runner := NULL\<rparr>) c r" using d(8) by (simp add: rule_of_def w2)
    moreover have "log_ok (w2\<lparr>w_g_runner := NULL\<rparr>)" by (rule log_ok_same [OF d(9)]) (simp_all add: w2)
    moreover have "w_runners (w2\<lparr>w_g_runner := NULL\<rparr>) = (w_runners w)(n := None)" using d(4) by (simp add: w2)
    moreover have "dom (rb_map tree) = {c}" using True last by blast
    ultimately show ?thesis using f e(2) d(3,10) by (intro exI [of _ "w2\<lparr>w_g_runner := NULL\<rparr>"]) (simp add: w2)
  qed
qed

end
