(* ===== verification/T2u_Setup.thy ===== *)
theory T2u_Setup
  imports T2u_Shutdown
begin

text \<open>
  Options, and the creation of the runner, of contexts and of rules.
\<close>

text \<open>The invariant is about the six maps of the state.\<close>

lemma world_ok_same:
  assumes "world_ok w" "w_sessions w' = w_sessions w" "w_messages w' = w_messages w" "w_rules w' = w_rules w"
    "w_contexts w' = w_contexts w" "w_runners w' = w_runners w" "w_fresh w' = w_fresh w"
  shows "world_ok w'"
  using assms by (simp add: world_ok_def session_ok_def rule_ok_def rule_links_def context_ok_def runner_ok_def
      messages_ok_def fresh_ok_def linked_def)

section \<open>Options\<close>

lemma clamp_range: "lo \<le> hi \<Longrightarrow> lo \<le> clamp lo hi v \<and> clamp lo hi v \<le> hi"
  by (simp add: clamp_def)

lemma clamp_id: "lo \<le> v \<Longrightarrow> v \<le> hi \<Longrightarrow> clamp lo hi v = v"
  by (simp add: clamp_def)

text \<open>Options and tree of a context, as long as the tree has the same contents.\<close>

lemma world_ok_context_fields:
  assumes w: "world_ok w" and c: "w_contexts w c = Some ctx"
    and ctx': "c_sock ctx' = c_sock ctx" "c_runner ctx' = c_runner ctx" "c_rules ctx' = c_rules ctx"
      "c_ev_udp ctx' = c_ev_udp ctx"
      "10 \<le> c_utimeout ctx'" "c_utimeout ctx' \<le> 30000" "1 \<le> c_uretries ctx'" "c_uretries ctx' \<le> 20"
      "1 \<le> c_udp_slide_window ctx'" "c_udp_slide_window ctx' \<le> 64"
      "10 \<le> c_session_timeout ctx'" "c_session_timeout ctx' \<le> 86400"
  shows "world_ok (w\<lparr>w_contexts := (w_contexts w)(c \<mapsto> ctx')\<rparr>)" (is "world_ok ?w")
proof -
  note W = world_okD [OF w]
  have "session_ok ?w s sess" if s: "w_sessions w s = Some sess" for s sess
  proof (rule session_okE [OF W(1) [OF s]])
    fix r rule c2 ctx2 n
    assume l: "linked w sess r rule c2 ctx2 n" and
      rest: "queues_ok (r, c2, n) (w_messages w) s sess" "s_status sess \<in> {1, 2, 3}"
        "s_status sess = 1 \<longrightarrow> messages_of sess = {}" "session_events (r_mode rule) r c2 n s sess"
        "registry rule (s_status sess) (s_handle sess) = Some s"
    from l c ctx'(2) have "linked ?w sess r rule c2 (if c2 = c then ctx' else ctx2) n"
      by (auto simp: linked_def)
    with rest show ?thesis by (intro session_okI) simp_all
  qed
  moreover have "rule_ok ?w r rule" if r: "w_rules w r = Some rule" for r rule
    using W(2) [OF r] c ctx'(2,3) by (auto simp: rule_ok_def rule_links_def)
  moreover have "context_ok ?w c2 ctx2" if c2: "w_contexts ?w c2 = Some ctx2" for c2 ctx2
  proof (cases "c2 = c")
    case True
    with c2 W(3) [OF c] ctx' show ?thesis by (simp add: context_ok_def)
  next
    case False
    with c2 have "w_contexts w c2 = Some ctx2" by simp
    from W(3) [OF this] show ?thesis by (simp add: context_ok_def)
  qed
  moreover have "runner_ok ?w n run" if "w_runners w n = Some run" for n run
    using W(4) [OF that] c ctx'(2) by (fastforce simp: runner_ok_def)
  moreover have "fresh_ok ?w" using W(6) c by (auto simp: fresh_ok_def)
  ultimately show ?thesis using W(5) by (simp add: world_ok_def messages_ok_def)
qed

text \<open>What an option does to a context.\<close>

definition with_option :: "int \<Rightarrow> nat \<Rightarrow> t2u_context \<Rightarrow> t2u_context" where
  "with_option opt value ctx =
     (if opt = CTX_UDP_TIMEOUT then ctx\<lparr>c_utimeout := clamp 10 30000 value\<rparr>
      else if opt = CTX_UDP_RETRIES then ctx\<lparr>c_uretries := clamp 1 20 value\<rparr>
      else if opt = CTX_UDP_SLIDEWINDOW then ctx\<lparr>c_udp_slide_window := clamp 1 64 value\<rparr>
      else if opt = CTX_SESSION_TIMEOUT then ctx\<lparr>c_session_timeout := clamp 10 86400 value\<rparr>
      else ctx)"

lemma set_context_option_exec:
  assumes "w_contexts w c = Some ctx"
  shows "set_context_option c opt value w =
    Some (w\<lparr>w_contexts := (w_contexts w)(c \<mapsto> with_option opt value ctx)\<rparr>)"
  using assms by (simp add: set_context_option_def with_option_def put_context_def fun_upd_idem)

lemma set_context_option_keeps:
  assumes "world_ok w" "w_contexts w c = Some ctx"
  shows "world_ok (w\<lparr>w_contexts := (w_contexts w)(c \<mapsto> with_option opt value ctx)\<rparr>)"
proof -
  have "context_ok w c ctx" using world_okD(3) [OF assms] .
  then show ?thesis
    by (intro world_ok_context_fields [OF assms])
      (auto simp: with_option_def context_ok_def clamp_def)
qed

section \<open>The control port\<close>

text \<open>The first port from \<open>port\<close> on that can be bound, counting the calls.\<close>

lemma bind_control_port_spec:
  assumes "bind_control_port os sock port w = (q, w')" "port \<le> CONTROL_PORT_END"
  shows "port \<le> q \<and> q \<le> CONTROL_PORT_END \<and>
    (\<forall>p. port \<le> p \<longrightarrow> p < q \<longrightarrow> os_bind os (w_calls w + (p - port)) sock (control_addr os p) = - 1) \<and>
    (q < CONTROL_PORT_END \<longrightarrow> os_bind os (w_calls w + (q - port)) sock (control_addr os q) \<noteq> - 1) \<and>
    w' = w\<lparr>w_calls := w_calls w + (q - port) + (if q < CONTROL_PORT_END then 1 else 0)\<rparr>"
  using assms
proof (induction os sock port w arbitrary: q w' rule: bind_control_port.induct)
  case (1 os sock port w)
  let ?fail = "os_bind os (w_calls w) sock (control_addr os port) = - 1"
  show ?case
  proof (cases "port < CONTROL_PORT_END \<and> ?fail")
    case True
    then have "bind_control_port os sock (port + 1) (tick w) = (q, w')"
      using 1(2) by (simp add: bind_control_port.simps [of os sock port])
    from 1(1) [OF _ _ this] True have IH: "port + 1 \<le> q" "q \<le> CONTROL_PORT_END"
      "\<forall>p. port + 1 \<le> p \<longrightarrow> p < q \<longrightarrow>
        os_bind os (w_calls (tick w) + (p - (port + 1))) sock (control_addr os p) = - 1"
      "q < CONTROL_PORT_END \<longrightarrow>
        os_bind os (w_calls (tick w) + (q - (port + 1))) sock (control_addr os q) \<noteq> - 1"
      "w' = (tick w)\<lparr>w_calls := w_calls (tick w) + (q - (port + 1)) + (if q < CONTROL_PORT_END then 1 else 0)\<rparr>"
      by auto
    have "os_bind os (w_calls w + (p - port)) sock (control_addr os p) = - 1" if "port \<le> p" "p < q" for p
    proof (cases "p = port")
      case False
      with that IH(3) show ?thesis by (simp add: tick_def Suc_diff_Suc)
    qed (use True in simp)
    with IH show ?thesis by (simp add: tick_def Suc_diff_Suc)
  next
    case False
    with 1(2,3) show ?thesis
      by (auto simp: bind_control_port.simps [of os sock port] tick_def split: if_splits)
  qed
qed

section \<open>The runner\<close>

text \<open>A runner at a fresh address, with no contexts.\<close>

lemma world_ok_runner_add:
  assumes w: "world_ok w" and n: "n = w_fresh w" "n_contexts run = Some tree" "rb_ok tree" "rb_map tree = Map.empty"
  shows "world_ok (w\<lparr>w_fresh := Suc n, w_runners := (w_runners w)(n \<mapsto> run)\<rparr>)" (is "world_ok ?w")
proof -
  note W = world_okD [OF w] and fr = fresh_none [OF w]
  have l: "linked w sess r rule c ctx n2 \<Longrightarrow> linked ?w sess r rule c ctx n2" for sess r rule c ctx n2
    using fr(5) [of n] n(1) by (auto simp: linked_def)
  have "session_ok ?w s sess" if s: "w_sessions w s = Some sess" for s sess
    by (rule session_okE [OF W(1) [OF s]], rule session_okI [OF l]) auto
  moreover have "rule_ok ?w r rule" if "w_rules w r = Some rule" for r rule
    using W(2) [OF that] by (simp add: rule_ok_def rule_links_def)
  moreover have "context_ok ?w c ctx" if c: "w_contexts w c = Some ctx" for c ctx
    using W(3) [OF c] fr(5) [of n] n(1) by (fastforce simp: context_ok_def)
  moreover have "runner_ok ?w n2 run2" if "w_runners ?w n2 = Some run2" for n2 run2
    using that W(4) [of n2 run2] n by (auto simp: runner_ok_def split: if_splits)
  moreover have "fresh_ok ?w" using W(6) n(1) by (auto simp: fresh_ok_def)
  ultimately show ?thesis using W(5) by (simp add: world_ok_def messages_ok_def)
qed

text \<open>What \<open>t2u_runner_new\<close> asserts.\<close>

definition runner_available :: "os \<Rightarrow> nat \<Rightarrow> bool" where
  "runner_available os call \<longleftrightarrow>
     0 < os_socket os call \<and>
     (\<exists>q < CONTROL_PORT_END. CONTROL_PORT_START \<le> q \<and>
        (\<forall>p. CONTROL_PORT_START \<le> p \<longrightarrow> p < q \<longrightarrow>
           os_bind os (Suc call + (p - CONTROL_PORT_START)) (os_socket os call) (control_addr os p) = - 1) \<and>
        os_bind os (Suc call + (q - CONTROL_PORT_START)) (os_socket os call) (control_addr os q) \<noteq> - 1 \<and>
        0 < os_socket os (call + 2 + (q - CONTROL_PORT_START)) \<and>
        fst (os_connect os (call + 3 + (q - CONTROL_PORT_START))
          (os_socket os (call + 2 + (q - CONTROL_PORT_START))) (control_addr os q)) = 0)"

lemma bind_control_port_at:
  assumes q: "port \<le> q" "q < CONTROL_PORT_END"
    and f: "\<forall>p. port \<le> p \<longrightarrow> p < q \<longrightarrow> os_bind os (w_calls w + (p - port)) sock (control_addr os p) = - 1"
    and t: "os_bind os (w_calls w + (q - port)) sock (control_addr os q) \<noteq> - 1"
  shows "bind_control_port os sock port w = (q, w\<lparr>w_calls := Suc (w_calls w + (q - port))\<rparr>)"
proof -
  obtain q' w' where b: "bind_control_port os sock port w = (q', w')" by force
  from bind_control_port_spec [OF b] q have s: "port \<le> q'" "q' \<le> CONTROL_PORT_END"
    "\<forall>p. port \<le> p \<longrightarrow> p < q' \<longrightarrow> os_bind os (w_calls w + (p - port)) sock (control_addr os p) = - 1"
    "q' < CONTROL_PORT_END \<longrightarrow> os_bind os (w_calls w + (q' - port)) sock (control_addr os q') \<noteq> - 1"
    "w' = w\<lparr>w_calls := w_calls w + (q' - port) + (if q' < CONTROL_PORT_END then 1 else 0)\<rparr>" by auto
  have "\<not> q < q'" using s(3) t q(1) by auto
  moreover have "\<not> q' < q" using f s(1,4) q by fastforce
  ultimately have "q' = q" by simp
  with b s(5) q(2) show ?thesis by simp
qed

lemma bind_control_port_first:
  assumes "port \<le> q" "q < CONTROL_PORT_END"
    "\<forall>p. port \<le> p \<longrightarrow> p < q \<longrightarrow> os_bind os (w_calls w + (p - port)) sock (control_addr os p) = - 1"
    "os_bind os (w_calls w + (q - port)) sock (control_addr os q) \<noteq> - 1"
  shows "bind_control_port os sock port w = (q, w\<lparr>w_calls := Suc (w_calls w + (q - port))\<rparr>)"
  by (rule bind_control_port_at [OF assms])

lemma runner_new_ok:
  assumes w: "world_ok w" and av: "runner_available os (w_calls w)"
  shows "\<exists>w' run. t2u_runner_new os w = Some (w_fresh w, w') \<and> world_ok w' \<and>
    w_runners w' = (w_runners w)(w_fresh w \<mapsto> run) \<and> n_running run = 1 \<and> n_contexts run = Some (rbtree_init NULL) \<and>
    w_fresh w' = Suc (w_fresh w) \<and> w_contexts w' = w_contexts w \<and> w_g_runner w' = w_g_runner w \<and>
    w_sessions w' = w_sessions w \<and> w_rules w' = w_rules w \<and> w_callbacks w' = w_callbacks w"
proof -
  let ?n = "w_fresh w" and ?s0 = "os_socket os (w_calls w)"
  let ?w1 = "w\<lparr>w_fresh := Suc ?n, w_calls := Suc (w_calls w)\<rparr>"
  from av obtain q where q: "0 < ?s0" "q < CONTROL_PORT_END" "CONTROL_PORT_START \<le> q"
    "\<forall>p. CONTROL_PORT_START \<le> p \<longrightarrow> p < q \<longrightarrow>
       os_bind os (Suc (w_calls w) + (p - CONTROL_PORT_START)) ?s0 (control_addr os p) = - 1"
    "os_bind os (Suc (w_calls w) + (q - CONTROL_PORT_START)) ?s0 (control_addr os q) \<noteq> - 1"
    "0 < os_socket os (w_calls w + 2 + (q - CONTROL_PORT_START))"
    "fst (os_connect os (w_calls w + 3 + (q - CONTROL_PORT_START))
       (os_socket os (w_calls w + 2 + (q - CONTROL_PORT_START))) (control_addr os q)) = 0"
    unfolding runner_available_def by blast
  from q(4,5) have b: "bind_control_port os ?s0 CONTROL_PORT_START ?w1 =
      (q, ?w1\<lparr>w_calls := Suc (w_calls ?w1 + (q - CONTROL_PORT_START))\<rparr>)"
    by (intro bind_control_port_at [OF q(3,2)]) simp_all
  let ?s1 = "os_socket os (w_calls w + 2 + (q - CONTROL_PORT_START))"
  obtain err where c: "os_connect os (Suc (Suc (Suc (w_calls w + (q - CONTROL_PORT_START))))) ?s1 (control_addr os q) =
      (0, err)"
    using q(7) by (cases "os_connect os (w_calls w + 3 + (q - CONTROL_PORT_START)) ?s1 (control_addr os q)")
      (simp add: eval_nat_numeral)
  let ?run = "\<lparr>n_contexts = Some (rbtree_init NULL), n_running = 1, n_sock0 = ?s0, n_sock1 = ?s1,
    n_control_event = Some (ev_read Cb_runner_control ?s0)\<rparr>"
  let ?w2 = "w\<lparr>w_fresh := Suc ?n, w_calls := w_calls w + 4 + (q - CONTROL_PORT_START),
    w_out := w_out w @ [EventAdd (ev_read Cb_runner_control ?s0) None], w_runners := (w_runners w)(?n \<mapsto> ?run)\<rparr>"
  have "t2u_runner_new os w = Some (?n, ?w2)"
    using q(1,2,6) b c by (simp add: t2u_runner_new_def world_defs Let_def eval_nat_numeral)
  moreover have "world_ok (w\<lparr>w_fresh := Suc ?n, w_runners := (w_runners w)(?n \<mapsto> ?run)\<rparr>)"
    by (rule world_ok_runner_add [OF w refl, where tree = "rbtree_init NULL"]) simp_all
  then have "world_ok ?w2" by (rule world_ok_same) simp_all
  ultimately show ?thesis by (intro exI [of _ ?w2] exI [of _ ?run]) simp
qed

section \<open>Adding a context\<close>

lemma world_ok_context_add:
  assumes w: "world_ok w" and n: "w_runners w n = Some run" "n_contexts run = Some tree"
    and c: "c = w_fresh w" and t: "rb_ok t" "rb_map t = (rb_map tree)(c \<mapsto> c)"
    and ctx: "c_runner ctx = Some n" "rb_ok (c_rules ctx)" "rb_map (c_rules ctx) = Map.empty"
      "c_ev_udp ctx = Some ev" "te_context ev = Some c" "te_event ev = Some (ev_read Cb_process_udp (c_sock ctx))"
      "te_extra_event ev = None"
      "10 \<le> c_utimeout ctx" "c_utimeout ctx \<le> 30000" "1 \<le> c_uretries ctx" "c_uretries ctx \<le> 20"
      "1 \<le> c_udp_slide_window ctx" "c_udp_slide_window ctx \<le> 64"
      "10 \<le> c_session_timeout ctx" "c_session_timeout ctx \<le> 86400"
      "te_runner ev = Some n" "te_rule ev = NULL" "te_session ev = NULL" "te_message ev = NULL"
  shows "world_ok (w\<lparr>w_fresh := Suc c, w_contexts := (w_contexts w)(c \<mapsto> ctx),
    w_runners := (w_runners w)(n \<mapsto> run\<lparr>n_contexts := Some t\<rparr>)\<rparr>)" (is "world_ok ?w")
proof -
  note W = world_okD [OF w] and fr = fresh_none [OF w, of c]
  have nc: "w_contexts w c = None" using fr(4) c by simp
  have l: "linked ?w sess r rule c2 ctx2 n2" if "linked w sess r rule c2 ctx2 n2" for sess r rule c2 ctx2 n2
    using that nc by (auto simp: linked_def)
  have "session_ok ?w s sess" if s: "w_sessions w s = Some sess" for s sess
    by (rule session_okE [OF W(1) [OF s]], rule session_okI [OF l]) auto
  moreover have "rule_ok ?w r rule" if "w_rules w r = Some rule" for r rule
    using W(2) [OF that] nc by (fastforce simp: rule_ok_def rule_links_def)
  moreover have "context_ok ?w c2 ctx2" if c2: "w_contexts ?w c2 = Some ctx2" for c2 ctx2
  proof (cases "c2 = c")
    case True
    with c2 ctx t(2) show ?thesis by (simp add: context_ok_def)
  next
    case False
    with c2 have o: "w_contexts w c2 = Some ctx2" by simp
    from W(3) [OF o] obtain n2 run2 tree2 where n2: "c_runner ctx2 = Some n2" "w_runners w n2 = Some run2"
      "n_contexts run2 = Some tree2" "rb_map tree2 c2 = Some c2" by (auto simp: context_ok_def)
    have "\<exists>n run tree. c_runner ctx2 = Some n \<and> w_runners ?w n = Some run \<and> n_contexts run = Some tree \<and>
        rb_map tree c2 = Some c2"
    proof (cases "n2 = n")
      case True
      with n2 n False show ?thesis by (simp add: t(2))
    next
      case False
      with n2 show ?thesis by simp
    qed
    with W(3) [OF o] show ?thesis by (simp add: context_ok_def del: fun_upd_apply)
  qed
  moreover have "runner_ok ?w n2 run2" if n2: "w_runners ?w n2 = Some run2" for n2 run2
  proof (cases "n2 = n")
    case True
    with n2 W(4) [OF n(1)] n(2) t ctx(1) show ?thesis by (auto simp: runner_ok_def)
  next
    case False
    with n2 have o: "w_runners w n2 = Some run2" by simp
    from W(4) [OF o] nc show ?thesis by (fastforce simp: runner_ok_def)
  qed
  moreover have "fresh_ok ?w" using W(6) c n(1) by (auto simp: fresh_ok_def)
  ultimately show ?thesis using W(5) by (simp add: world_ok_def messages_ok_def)
qed

lemma add_context_ok:
  assumes w: "world_ok w" and n: "w_runners w n = Some run"
  shows "\<exists>w' ctx run' t. t2u_add_context n sock w = Some (w_fresh w, w') \<and> world_ok w' \<and>
    w_contexts w' = (w_contexts w)(w_fresh w \<mapsto> ctx) \<and> c_sock ctx = sock \<and> c_runner ctx = Some n \<and>
    c_utimeout ctx = 500 \<and> c_uretries ctx = 3 \<and> c_udp_slide_window ctx = 16 \<and> c_session_timeout ctx = 900 \<and>
    rb_map (c_rules ctx) = Map.empty \<and>
    w_runners w' = (w_runners w)(n \<mapsto> run') \<and> n_running run' = n_running run \<and> n_contexts run' = Some t \<and>
    rb_map t (w_fresh w) = Some (w_fresh w) \<and>
    w_g_runner w' = w_g_runner w \<and> w_sessions w' = w_sessions w \<and> w_rules w' = w_rules w \<and> w_callbacks w' = w_callbacks w"
proof -
  let ?c = "w_fresh w"
  from world_okD(4) [OF w n] obtain tree where tree: "n_contexts run = Some tree" "rb_ok tree" and
    e: "\<forall>k c. rb_map tree k = Some c \<longrightarrow> k = c \<and> (\<exists>ctx. w_contexts w c = Some ctx \<and> c_runner ctx = Some n)"
    unfolding runner_ok_def by blast
  have "rb_map tree ?c = None"
  proof (rule ccontr)
    assume "rb_map tree ?c \<noteq> None"
    then obtain d where "rb_map tree ?c = Some d" by auto
    with e have "\<exists>ctx. w_contexts w ?c = Some ctx" by blast
    with fresh_none(4) [OF w, of ?c] show False by simp
  qed
  from rb.ins_new [OF tree(2) this, of ?c] obtain t where
    t: "rbtree_insert True tree ?c ?c = Some (0, t)" "rb_ok t" "rb_map t = (rb_map tree)(?c \<mapsto> ?c)" by blast
  let ?ev = "t2u_event_new\<lparr>te_runner := Some n, te_context := Some ?c, te_event := Some (ev_read Cb_process_udp sock)\<rparr>"
  let ?ctx = "(new_context sock n)\<lparr>c_ev_udp := Some ?ev\<rparr>"
  let ?base = "w\<lparr>w_fresh := Suc ?c, w_contexts := (w_contexts w)(?c \<mapsto> ?ctx),
    w_runners := (w_runners w)(n \<mapsto> run\<lparr>n_contexts := Some t\<rparr>)\<rparr>"
  let ?w = "?base\<lparr>w_out := w_out w @ [EventAdd (ev_read Cb_process_udp sock) None]\<rparr>"
  have "world_ok ?base"
    by (rule world_ok_context_add [OF w n tree(1) _ t(2,3), where ev = ?ev])
      (simp_all add: new_context_def t2u_event_new_def)
  then have "world_ok ?w" by (rule world_ok_same) simp_all
  moreover have "t2u_add_context n sock w = Some (?c, ?w)"
    using n tree(1) t(1)
    by (simp add: t2u_add_context_def add_context_cb_def t2u_runner_control_def the_runner_def world_defs
        new_context_def Let_def)
  ultimately show ?thesis using t(3)
    by (intro exI [of _ ?w] exI [of _ ?ctx] exI [of _ "run\<lparr>n_contexts := Some t\<rparr>"] exI [of _ t])
      (simp add: new_context_def)
qed

text \<open>The first context creates the shared runner, later ones share it.\<close>

lemma create_forward_ok_spec:
  assumes w: "world_ok w"
    and g: "case w_g_runner w of None \<Rightarrow> runner_available os (w_calls w) | Some n \<Rightarrow> w_runners w n \<noteq> None"
  shows "\<exists>c w' ctx n run. create_forward os sock w = Some (c, w') \<and> world_ok w' \<and>
    w_contexts w c = None \<and> w_contexts w' = (w_contexts w)(c \<mapsto> ctx) \<and> c_sock ctx = sock \<and>
    c_runner ctx = Some n \<and> w_g_runner w' = Some n \<and> w_runners w' = (w_runners w)(n \<mapsto> run) \<and>
    (case w_g_runner w of
       None \<Rightarrow> w_runners w n = None \<and> n_running run = 1
     | Some n0 \<Rightarrow> n = n0 \<and> (\<exists>run0. w_runners w n0 = Some run0 \<and> n_running run = n_running run0)) \<and>
    c_utimeout ctx = 500 \<and> c_uretries ctx = 3 \<and> c_udp_slide_window ctx = 16 \<and> c_session_timeout ctx = 900 \<and>
    rb_map (c_rules ctx) = Map.empty \<and> w_sessions w' = w_sessions w \<and> w_rules w' = w_rules w \<and> w_callbacks w' = w_callbacks w"
proof (cases "w_g_runner w")
  case None
  with g have "runner_available os (w_calls w)" by simp
  from runner_new_ok [OF w this] obtain w1 run where
    w1: "t2u_runner_new os w = Some (w_fresh w, w1)" "world_ok w1" "w_runners w1 = (w_runners w)(w_fresh w \<mapsto> run)"
      "n_running run = 1" "w_fresh w1 = Suc (w_fresh w)" "w_contexts w1 = w_contexts w"
      "w_sessions w1 = w_sessions w" "w_rules w1 = w_rules w" "w_callbacks w1 = w_callbacks w" by blast
  let ?w2 = "w1\<lparr>w_g_runner := Some (w_fresh w)\<rparr>"
  have "world_ok ?w2" "w_runners ?w2 (w_fresh w) = Some run" using w1(2,3) by simp_all
  from add_context_ok [OF this, of sock] obtain w' ctx run' where
    a: "t2u_add_context (w_fresh w) sock ?w2 = Some (w_fresh ?w2, w')" "world_ok w'"
      "w_contexts w' = (w_contexts ?w2)(w_fresh ?w2 \<mapsto> ctx)" "c_sock ctx = sock" "c_runner ctx = Some (w_fresh w)"
      "c_utimeout ctx = 500" "c_uretries ctx = 3" "c_udp_slide_window ctx = 16" "c_session_timeout ctx = 900"
      "w_runners w' = (w_runners ?w2)(w_fresh w \<mapsto> run')" "n_running run' = n_running run"
      "w_g_runner w' = w_g_runner ?w2" "rb_map (c_rules ctx) = Map.empty" "w_sessions w' = w_sessions ?w2"
      "w_rules w' = w_rules ?w2" "w_callbacks w' = w_callbacks ?w2" by blast
  have "create_forward os sock w = Some (Suc (w_fresh w), w')"
    using None w1(1,5) a(1) by (simp add: create_forward_def)
  with a w1 None fresh_none(4,5) [OF w] show ?thesis
    by (intro exI [of _ "Suc (w_fresh w)"] exI [of _ w'] exI [of _ ctx] exI [of _ "w_fresh w"] exI [of _ run'])
      simp
next
  case (Some n)
  with g obtain run where run: "w_runners w n = Some run" by auto
  from add_context_ok [OF w this, of sock] obtain w' ctx run' where
    a: "t2u_add_context n sock w = Some (w_fresh w, w')" "world_ok w'"
      "w_contexts w' = (w_contexts w)(w_fresh w \<mapsto> ctx)" "c_sock ctx = sock" "c_runner ctx = Some n"
      "c_utimeout ctx = 500" "c_uretries ctx = 3" "c_udp_slide_window ctx = 16" "c_session_timeout ctx = 900"
      "w_runners w' = (w_runners w)(n \<mapsto> run')" "n_running run' = n_running run" "w_g_runner w' = w_g_runner w"
      "rb_map (c_rules ctx) = Map.empty" "w_sessions w' = w_sessions w" "w_rules w' = w_rules w"
      "w_callbacks w' = w_callbacks w" by blast
  have "create_forward os sock w = Some (w_fresh w, w')" using Some a(1) by (simp add: create_forward_def)
  with a Some run fresh_none(4) [OF w] show ?thesis
    by (intro exI [of _ "w_fresh w"] exI [of _ w'] exI [of _ ctx] exI [of _ n] exI [of _ run']) simp
qed

end
