(* ===== verification/T2u_Example.thy ===== *)
theory T2u_Example
  imports T2u_Setup
begin

text \<open>
  A concrete program state: a runner with one context, a client rule with an established and a
  connecting session, and a server rule with a connecting session. The established session has
  a message in each queue.
\<close>

section \<open>Trees with one and two entries\<close>

definition tree1 :: "('k::linorder \<Rightarrow> 'k \<Rightarrow> int) option \<Rightarrow> 'k \<Rightarrow> 'd \<Rightarrow> ('k, 'd) rbtree" where
  "tree1 cmp k d = snd (the (rbtree_insert True (rbtree_init cmp) k d))"

definition tree2 :: "('k::linorder \<Rightarrow> 'k \<Rightarrow> int) option \<Rightarrow> 'k \<Rightarrow> 'd \<Rightarrow> 'k \<Rightarrow> 'd \<Rightarrow> ('k, 'd) rbtree" where
  "tree2 cmp k d k' d' = snd (the (rbtree_insert True (tree1 cmp k d) k' d'))"

lemma tree1_ok:
  assumes "case cmp of None \<Rightarrow> True | Some c \<Rightarrow> cmp_ok c"
  shows "rb_ok (tree1 cmp k d)" "rb_map (tree1 cmp k d) = [k \<mapsto> d]"
proof -
  from rb.ins_new [OF rbtree_init_ok [OF assms], of k d] obtain t where
    "rbtree_insert True (rbtree_init cmp) k d = Some (0, t)" "rb_ok t" "rb_map t = [k \<mapsto> d]"
    by (auto simp: rbtree_init_map)
  then show "rb_ok (tree1 cmp k d)" "rb_map (tree1 cmp k d) = [k \<mapsto> d]" by (simp_all add: tree1_def)
qed

lemma tree2_ok:
  assumes "case cmp of None \<Rightarrow> True | Some c \<Rightarrow> cmp_ok c" "k \<noteq> k'"
  shows "rb_ok (tree2 cmp k d k' d')" "rb_map (tree2 cmp k d k' d') = [k \<mapsto> d, k' \<mapsto> d']"
proof -
  have "rb_map (tree1 cmp k d) k' = None" using assms(2) by (simp add: tree1_ok [OF assms(1)])
  from rb.ins_new [OF tree1_ok(1) [OF assms(1)] this, of d'] obtain t where
    "rbtree_insert True (tree1 cmp k d) k' d' = Some (0, t)" "rb_ok t" "rb_map t = [k \<mapsto> d, k' \<mapsto> d']"
    by (auto simp: tree1_ok [OF assms(1)])
  then show "rb_ok (tree2 cmp k d k' d')" "rb_map (tree2 cmp k d k' d') = [k \<mapsto> d, k' \<mapsto> d']"
    by (simp_all add: tree2_def)
qed

lemmas tree_simps =
  tree1_ok [of "Some compare_uint32_ptr", simplified] tree1_ok [of "Some compare_uint64_ptr", simplified]
  tree1_ok [of NULL, simplified] tree2_ok [of "Some compare_name", simplified]

section \<open>The state\<close>

definition ex_os :: os where
  "ex_os = \<lparr>os_arch = Other_arch, os_time = (\<lambda>call. 1000), os_recv = (\<lambda>call sock cap. if 0 < cap then (1, 0, [65]) else (0, 0, [])),
     os_send = (\<lambda>call sock bytes. (int (length bytes), 0)), os_connect = (\<lambda>call sock a. (0, 0)),
     os_socket = (\<lambda>call. 20), os_accept = (\<lambda>call sock. 21), os_bind = (\<lambda>call sock a. 0),
     os_listen = (\<lambda>call sock. 0), os_sock_error = (\<lambda>call sock. 0), os_inet_addr = (\<lambda>a. 0x0100007F),
     os_junk = (\<lambda>call cap. replicate cap 0),
     os_localtime = (\<lambda>call. \<lparr>tm_year = 14, tm_mon = 2, tm_mday = 9, tm_hour = 8, tm_min = 7, tm_sec = 6\<rparr>)\<rparr>"

lemma ex_os_ok [simp]: "os_ok ex_os"
  by (simp add: os_ok_def ex_os_def)

abbreviation (input) "ex_a \<equiv> CStr [97]"
abbreviation (input) "ex_b \<equiv> CStr [98]"

definition ex_session :: "addr \<Rightarrow> int \<Rightarrow> u64 \<Rightarrow> int \<Rightarrow> t2u_event \<Rightarrow> t2u_session" where
  "ex_session r sock h st ev = (new_session r sock h ev)\<lparr>s_status := st\<rparr>"

definition ex_send_msg :: t2u_message where
  "ex_send_msg = \<lparr>m_session = Some 4, m_data = Some (new_mdata Other_arch data_request 10 1 [65, 66, 67, 68, 69, 70, 71, 72, 73, 74]),
     m_len = 30, m_seq = 1, m_send_retries = 0,
     m_ev_timeout = Some (request_timer 7 4 (Some 2) (Some 1) (Some 0))\<rparr>"

definition ex_recv_data :: t2u_message_data where
  "ex_recv_data = \<lparr>md_magic = T2U_MESS_MAGIC, md_version = 1, md_oper = 4, md_handle = 10, md_seq = 3,
     md_payload = [67]\<rparr>"

definition ex_recv_msg :: t2u_message where
  "ex_recv_msg = \<lparr>m_session = NULL, m_data = Some ex_recv_data, m_len = 21, m_seq = 0, m_send_retries = 0,
     m_ev_timeout = None\<rparr>"

definition ex_established :: t2u_session where
  "ex_established = (ex_session 2 5 10 2 (connected_event (t2u_event_new
       \<lparr>te_runner := Some 0, te_context := Some 1, te_rule := Some 2, te_session := Some 4\<rparr>) 5))
     \<lparr>s_send_buffer_count := 1, s_send_seq := 1, s_send_mess := tree1 (Some compare_uint32_ptr) 1 7,
      s_recv_buffer_count := 1, s_recv_seq := 1, s_recv_mess := tree1 (Some compare_uint32_ptr) 3 8,
      s_last_send_ts := 990\<rparr>"

definition ex_connecting :: t2u_session where
  "ex_connecting = ex_session 2 6 11 1 (connecting_event forward_client_mode 2 1 0 5 6)"

definition ex_server :: t2u_session where
  "ex_server = ex_session 3 7 0x50000000B 1 (connecting_event forward_server_mode 3 1 0 6 7)"

definition ex_client_rule :: t2u_rule where
  "ex_client_rule = (new_rule forward_client_mode 9 \<lparr>sin_addr = 0, sin_port = 0\<rparr> ex_a 1)
     \<lparr>r_ev_listen := Some (t2u_event_new\<lparr>te_runner := Some 0, te_context := Some 1, te_rule := Some 2,
        te_event := Some (ev_read Cb_process_accept 9)\<rparr>),
      r_sessions := tree1 (Some compare_uint64_ptr) 10 4,
      r_connecting_sessions := tree1 (Some compare_uint64_ptr) 11 5\<rparr>"

definition ex_server_rule :: t2u_rule where
  "ex_server_rule = (new_rule forward_server_mode 0 \<lparr>sin_addr = 1, sin_port = 80\<rparr> ex_b 1)
     \<lparr>r_connecting_sessions := tree1 (Some compare_uint64_ptr) 0x50000000B 6\<rparr>"

definition ex_context :: t2u_context where
  "ex_context = (new_context 3 0)
     \<lparr>c_rules := tree2 (Some compare_name) ex_a 2 ex_b 3,
      c_ev_udp := Some (t2u_event_new\<lparr>te_runner := Some 0, te_context := Some 1,
        te_event := Some (ev_read Cb_process_udp 3)\<rparr>)\<rparr>"

definition ex_runner :: t2u_runner where
  "ex_runner = \<lparr>n_contexts = Some (tree1 NULL 1 1), n_running = 1, n_sock0 = 1, n_sock1 = 2,
     n_control_event = Some (ev_read Cb_runner_control 1)\<rparr>"

definition ex_world :: world where
  "ex_world = \<lparr>w_sessions = [4 \<mapsto> ex_established, 5 \<mapsto> ex_connecting, 6 \<mapsto> ex_server],
     w_messages = [7 \<mapsto> ex_send_msg, 8 \<mapsto> ex_recv_msg],
     w_rules = [2 \<mapsto> ex_client_rule, 3 \<mapsto> ex_server_rule], w_contexts = [1 \<mapsto> ex_context],
     w_runners = [0 \<mapsto> ex_runner], w_fresh = 9, w_handle_seq = 12, w_g_runner = Some 0,
     w_callbacks = \<lparr>cb_log = Some 7, cb_error = NULL, cb_unknown = Some 8\<rparr>, w_calls = 0, w_out = []\<rparr>"

lemmas ex_defs = ex_established_def ex_connecting_def ex_server_def ex_session_def ex_client_rule_def
  ex_server_rule_def ex_context_def ex_runner_def new_session_def new_rule_def new_context_def

text \<open>The parts, for witnesses.\<close>

lemma ex_world_sel [simp]:
  "w_sessions ex_world 4 = Some ex_established" "w_sessions ex_world 5 = Some ex_connecting"
  "w_sessions ex_world 6 = Some ex_server" "w_messages ex_world 7 = Some ex_send_msg"
  "w_messages ex_world 8 = Some ex_recv_msg" "w_rules ex_world 2 = Some ex_client_rule"
  "w_rules ex_world 3 = Some ex_server_rule" "w_contexts ex_world (Suc 0) = Some ex_context"
  "w_runners ex_world 0 = Some ex_runner" "w_fresh ex_world = 9" "w_calls ex_world = 0"
  "w_handle_seq ex_world = 12" "w_g_runner ex_world = Some 0" "w_out ex_world = []"
  "get_log_func (w_callbacks ex_world) = Some 7" "get_unknown_func (w_callbacks ex_world) = Some 8"
  by (simp_all add: ex_world_def get_log_func_def get_unknown_func_def)

lemma ex_parts [simp]:
  "s_status ex_established = 2" "s_status ex_connecting = 1" "s_status ex_server = 1"
  "s_handle ex_established = 10" "s_handle ex_connecting = 11" "s_handle ex_server = 0x50000000B"
  "s_sock ex_established = 5" "s_sock ex_connecting = 6" "s_sock ex_server = 7"
  "s_send_seq ex_established = 1" "s_recv_seq ex_established = 1" "s_send_buffer_count ex_established = 1"
  "s_recv_buffer_count ex_established = 1" "s_last_send_ts ex_established = 990"
  "s_retry_seq ex_established = 0" "s_connect_retries ex_connecting = 0"
  "s_ev ex_established = Some (connected_event (t2u_event_new
     \<lparr>te_runner := Some 0, te_context := Some (Suc 0), te_rule := Some 2, te_session := Some 4\<rparr>) 5)"
  "r_mode ex_client_rule = forward_client_mode" "r_mode ex_server_rule = forward_server_mode"
  "r_context ex_client_rule = Some (Suc 0)" "r_context ex_server_rule = Some (Suc 0)"
  "r_service ex_client_rule = ex_a" "r_service ex_server_rule = ex_b"
  "c_runner ex_context = Some 0" "c_udp_slide_window ex_context = 16" "c_uretries ex_context = 3"
  "c_utimeout ex_context = 500" "c_session_timeout ex_context = 900" "c_sock ex_context = 3"
  "n_running ex_runner = 1" "n_contexts ex_runner = Some (tree1 NULL (Suc 0) (Suc 0))"
  by (simp_all add: ex_defs)

lemma ex_maps [simp]:
  "send_map ex_established = [1 \<mapsto> 7]" "recv_map ex_established = [3 \<mapsto> 8]"
  "rb_map (r_sessions ex_client_rule) = [10 \<mapsto> 4]" "rb_map (r_connecting_sessions ex_client_rule) = [11 \<mapsto> 5]"
  "rb_map (r_sessions ex_server_rule) = Map.empty" "rb_map (r_connecting_sessions ex_server_rule) = [0x50000000B \<mapsto> 6]"
  "rb_map (c_rules ex_context) = [ex_a \<mapsto> 2, ex_b \<mapsto> 3]"
  by (simp_all add: ex_defs tree_simps rbtree_init_map)

lemma ex_linked [simp]:
  "linked ex_world ex_established 2 ex_client_rule (Suc 0) ex_context 0"
  "linked ex_world ex_connecting 2 ex_client_rule (Suc 0) ex_context 0"
  "linked ex_world ex_server 3 ex_server_rule (Suc 0) ex_context 0"
  by (simp_all add: linked_def) (simp_all add: ex_defs)

section \<open>The invariant holds\<close>

lemma ex_messages:
  "messages_of ex_established = {7, 8}" "messages_of ex_connecting = {}" "messages_of ex_server = {}"
  by (simp_all add: messages_of_def, auto simp: ex_defs rbtree_init_map)

lemma ex_queues:
  "queues_ok (2, Suc 0, 0) (w_messages ex_world) 4 ex_established"
  "queues_ok (2, Suc 0, 0) (w_messages ex_world) 5 ex_connecting"
  "queues_ok (3, Suc 0, 0) (w_messages ex_world) 6 ex_server"
proof -
  have ok: "rb_ok (s_send_mess ex_established)" "rb_ok (s_recv_mess ex_established)"
    by (simp_all add: ex_defs tree_simps)
  have m: "send_msg_ok (2, Suc 0, 0) 4 1 7 ex_send_msg" "recv_msg_ok 3 ex_recv_msg"
    by (simp_all add: send_msg_ok_def recv_msg_ok_def ex_send_msg_def ex_recv_msg_def ex_recv_data_def
        message_event_def request_timer_def t2u_event_new_def sizeof_md_def T2U_PAYLOAD_MAX_def)
  with ok show "queues_ok (2, Suc 0, 0) (w_messages ex_world) 4 ex_established"
    by (simp add: queues_ok_def send_queue_ok_def recv_queue_ok_def)
  show "queues_ok (2, Suc 0, 0) (w_messages ex_world) 5 ex_connecting" "queues_ok (3, Suc 0, 0) (w_messages ex_world) 6 ex_server"
    by (simp_all add: queues_ok_def send_queue_ok_def recv_queue_ok_def ex_defs)
qed

lemma ex_sessions:
  "session_ok ex_world 4 ex_established" "session_ok ex_world 5 ex_connecting" "session_ok ex_world 6 ex_server"
proof -
  show "session_ok ex_world 4 ex_established"
    by (rule session_okI [OF ex_linked(1) ex_queues(1)])
      (simp_all add: registry_def, simp add: session_events_def connected_event_def t2u_event_new_def)
  show "session_ok ex_world 5 ex_connecting"
    by (rule session_okI [OF ex_linked(2) ex_queues(2)])
      (simp_all add: registry_def ex_messages, simp add: session_events_def ex_defs connecting_event_def t2u_event_new_def)
  show "session_ok ex_world 6 ex_server"
    by (rule session_okI [OF ex_linked(3) ex_queues(3)])
      (simp_all add: registry_def ex_messages, simp add: session_events_def ex_defs connecting_event_def t2u_event_new_def)
qed

lemma ex_rules: "rule_ok ex_world 2 ex_client_rule" "rule_ok ex_world 3 ex_server_rule"
proof -
  have ok: "rb_ok (r_sessions ex_client_rule)" "rb_ok (r_connecting_sessions ex_client_rule)"
    "rb_ok (r_sessions ex_server_rule)" "rb_ok (r_connecting_sessions ex_server_rule)"
    by (simp_all add: ex_defs tree_simps)
  have "rule_links ex_world 2 ex_client_rule" "rule_links ex_world 3 ex_server_rule"
    by (simp_all add: rule_links_def) (simp_all add: ex_defs t2u_event_new_def)
  moreover have "s_rule ex_established = Some 2" "s_rule ex_connecting = Some 2" "s_rule ex_server = Some 3"
    by (simp_all add: ex_defs)
  ultimately show "rule_ok ex_world 2 ex_client_rule" "rule_ok ex_world 3 ex_server_rule"
    using ok by (simp_all add: rule_ok_def entries_ok_def)
qed

lemma ex_context_ok: "context_ok ex_world (Suc 0) ex_context"
proof -
  have "rb_ok (c_rules ex_context)" by (simp add: ex_defs tree_simps)
  moreover have "c_ev_udp ex_context = Some (t2u_event_new\<lparr>te_runner := Some 0, te_context := Some (Suc 0),
        te_event := Some (ev_read Cb_process_udp 3)\<rparr>)" by (simp add: ex_context_def)
  ultimately show ?thesis by (simp add: context_ok_def tree_simps t2u_event_new_def)
qed

lemma ex_runner_ok: "runner_ok ex_world 0 ex_runner"
  by (simp add: runner_ok_def tree_simps)

lemma ex_world_ok [simp]: "world_ok ex_world"
proof -
  have "messages_ok ex_world"
    unfolding messages_ok_def by (auto simp: ex_world_def ex_messages split: if_splits)
  moreover have "fresh_ok ex_world" by (auto simp: fresh_ok_def ex_world_def)
  ultimately show ?thesis
    using ex_sessions ex_rules ex_context_ok ex_runner_ok
    unfolding world_ok_def by (auto simp: ex_world_def split: if_splits)
qed

lemma ex_log_ok [simp]: "log_ok ex_world" "rule_logs ex_world ex_client_rule" "rule_logs ex_world ex_server_rule"
  by (auto simp: log_ok_def rule_logs_def ex_world_def ex_defs LOG_NAME_MAX_def split: if_splits)

end
