(* ===== verification/T2u_Witnesses.thy ===== *)
theory T2u_Witnesses
  imports T2u_Example
begin

text \<open>
  The properties of the handlers, each applied to the state \<open>ex_world\<close> or to a variant of it, in
  which its hypotheses hold.
\<close>

section \<open>Variants of the example\<close>

definition ex_narrow :: world where
  "ex_narrow = ex_world\<lparr>w_contexts := (w_contexts ex_world)(Suc 0 \<mapsto> with_option CTX_UDP_SLIDEWINDOW 1 ex_context)\<rparr>"

lemma ex_narrow [simp]:
  "world_ok ex_narrow" "w_sessions ex_narrow 4 = Some ex_established" "w_out ex_narrow = []"
  "linked ex_narrow ex_established 2 ex_client_rule (Suc 0) (ex_context\<lparr>c_udp_slide_window := 1\<rparr>) 0"
proof -
  show "world_ok ex_narrow"
    unfolding ex_narrow_def by (rule set_context_option_keeps) simp_all
  show "linked ex_narrow ex_established 2 ex_client_rule (Suc 0) (ex_context\<lparr>c_udp_slide_window := 1\<rparr>) 0"
    using ex_linked(1)
    by (simp add: linked_def ex_narrow_def with_option_def ctx_option_defs clamp_def)
qed (simp_all add: ex_narrow_def)

text \<open>A response and a request, as received.\<close>

definition ex_mdata :: "t2u_mess_oper \<Rightarrow> u64 \<Rightarrow> u32 \<Rightarrow> byte list \<Rightarrow> t2u_message_data" where
  "ex_mdata op h seq payload = \<lparr>md_magic = T2U_MESS_MAGIC, md_version = 1, md_oper = oper_code op,
     md_handle = h, md_seq = seq, md_payload = payload\<rparr>"

lemma ex_mdata_sel [simp]:
  "md_payload (ex_mdata op h seq payload) = payload" "md_handle (ex_mdata op h seq payload) = h"
  "md_seq (ex_mdata op h seq payload) = seq"
  by (simp_all add: ex_mdata_def)

lemma ex_response_value [simp]: "response_value (ex_mdata op h seq (put_u32 v)) = sint v"
  using get_put_u32 [of v "[]"] by (simp add: response_value_def)

lemma ex_msg_sel [simp]:
  "m_session ex_send_msg = Some 4" "valid_length ex_send_msg = 10" "m_seq ex_send_msg = 1"
  "m_data ex_send_msg = Some (new_mdata Other_arch data_request 10 1 [65, 66, 67, 68, 69, 70, 71, 72, 73, 74])" "m_send_retries ex_send_msg = 0"
  "m_len ex_send_msg = 30"
  by (simp_all add: ex_send_msg_def valid_length_def sizeof_md_def)

section \<open>TCP data\<close>

lemma process_tcp_full_witness:
  "\<exists>w'. t2u_session_process_tcp ex_os 5 4 ex_narrow = Some w' \<and> world_ok w' \<and>
    w_out w' = [EventFree (ev_read Cb_process_tcp 5)]"
proof -
  let ?ev = "connected_event (t2u_event_new
     \<lparr>te_runner := Some 0, te_context := Some (Suc 0), te_rule := Some 2, te_session := Some 4\<rparr>) 5"
  have "s_status ex_established \<noteq> 1" "s_ev ex_established = Some ?ev"
    "te_event ?ev = Some (ev_read Cb_process_tcp 5)" by (simp_all add: connected_event_def)
  from process_tcp_full [where os = ex_os and sock = 5, OF ex_narrow(1,2) this(1,2) ex_narrow(4) this(3)]
  show ?thesis by auto
qed

lemma process_tcp_data_witness:
  "\<exists>w' sess'. t2u_session_process_tcp ex_os 5 4 ex_world = Some w' \<and> world_ok w' \<and>
    w_sessions w' 4 = Some sess' \<and> send_map sess' = [1 \<mapsto> 7, 2 \<mapsto> 9]"
proof -
  have "s_status ex_established \<noteq> 1" "unat (s_send_buffer_count ex_established) < c_udp_slide_window ex_context"
    "send_map ex_established (s_send_seq ex_established + 1) = None"
    "os_recv ex_os (w_calls ex_world) 5 T2U_PAYLOAD_MAX = (1, 0, [65])"
    by (simp_all add: ex_os_def T2U_PAYLOAD_MAX_def)
  from process_tcp_data_spec [OF ex_world_ok ex_os_ok ex_world_sel(1) this(1) ex_linked(1) this(2-4)]
  show ?thesis by force
qed

lemma process_tcp_no_data_witness:
  "\<exists>w'. t2u_session_process_tcp (ex_os\<lparr>os_recv := \<lambda>call sock cap. (0, 0, [])\<rparr>) 5 4 ex_world = Some w' \<and>
    world_ok w' \<and> w_sessions w' 4 = None"
proof -
  let ?os = "ex_os\<lparr>os_recv := \<lambda>call sock cap. (0, 0, [])\<rparr>"
  have "s_status ex_established \<noteq> 1" "unat (s_send_buffer_count ex_established) < c_udp_slide_window ex_context"
    "os_recv ?os (w_calls ex_world) 5 T2U_PAYLOAD_MAX = (0, 0, [])" by simp_all
  from process_tcp_no_data_spec [OF ex_world_ok ex_world_sel(1) this(1) ex_linked(1) this(2,3)]
  show ?thesis by (auto simp: tcp_gone_def)
qed

section \<open>Messages\<close>

lemma request_timeout_ok_witness:
  "\<exists>w'. process_request_timeout_cb ex_os 7 ex_world = Some w' \<and> world_ok w' \<and> length (w_out w') = 2"
  using request_timeout_ok [OF ex_world_ok ex_world_sel(4) _ ex_world_sel(1) ex_linked(1), of _ ex_os] by auto

lemma data_response_success_witness:
  "\<exists>w'. t2u_message_handle_data_response ex_os 7 (ex_mdata data_response 10 1 (put_u32 10)) ex_world = Some w' \<and>
    world_ok w' \<and> w_messages w' 7 = None"
  using data_response_success_spec [OF ex_world_ok ex_world_sel(4) _ ex_world_sel(1),
      of "ex_mdata data_response 10 1 (put_u32 10)" ex_os] by auto

lemma data_response_error_witness:
  "\<exists>w'. t2u_message_handle_data_response ex_os 7 (ex_mdata data_response 10 1 (put_u32 (- 1))) ex_world = Some w' \<and>
    world_ok w' \<and> w_sessions w' 4 = None"
  using data_response_error_spec [OF ex_world_ok ex_world_sel(4) _ ex_world_sel(1) ex_linked(1),
      of "ex_mdata data_response 10 1 (put_u32 (- 1))" ex_os] by auto

text \<open>Four of the ten bytes were written. The next four take their place, the last two do not move.\<close>

lemma data_response_partial_witness:
  "\<exists>w' msg data. t2u_message_handle_data_response ex_os 7 (ex_mdata data_response 10 1 (put_u32 4)) ex_world =
    Some w' \<and> world_ok w' \<and> w_messages w' 7 = Some msg \<and> m_len msg = 26 \<and> m_data msg = Some data \<and>
    md_payload data = [69, 70, 71, 72, 69, 70, 71, 72, 73, 74]"
proof -
  let ?md = "ex_mdata data_response 10 1 (put_u32 4)"
  have v: "0 < response_value ?md" "response_value ?md < valid_length ex_send_msg" by simp_all
  have "shift_payload (nat (response_value ?md))
      (md_payload (new_mdata Other_arch data_request 10 1 [65, 66, 67, 68, 69, 70, 71, 72, 73, 74])) =
      Some [69, 70, 71, 72, 69, 70, 71, 72, 73, 74]" by (simp add: shift_payload_def)
  from data_response_partial_spec [OF ex_world_ok ex_world_sel(4) _ ex_world_sel(1) _ _ v this, of ex_os]
  show ?thesis by auto
qed

lemma data_response_undefined_witness:
  "t2u_message_handle_data_response ex_os 7 (ex_mdata data_response 10 1 (put_u32 1)) ex_world = None"
  by (rule data_response_undefined [OF ex_world_sel(4)]) simp_all

lemma data_response_blocked_witness:
  "t2u_message_handle_data_response ex_os 7 (ex_mdata data_response 10 1 (put_u32 0)) ex_world = Some ex_world"
  by (rule data_response_blocked [OF ex_world_ok ex_world_sel(4)]) simp_all

lemma retrans_request_ok_witness:
  "\<exists>w'. t2u_message_handle_retrans_request ex_os 7 (ex_mdata retrans_request 10 1 []) ex_world = Some w' \<and>
    world_ok w' \<and> length (w_out w') = 1"
  using retrans_request_ok [OF ex_world_ok ex_world_sel(4) _ ex_world_sel(1) ex_linked(1), of _ ex_os
      "ex_mdata retrans_request 10 1 []"] by auto

section \<open>Received data\<close>

lemma ex_packet_len [simp]: "packet_len_ok (ex_mdata op h seq [68]) 21"
  by (simp add: packet_len_ok_def sizeof_md_def T2U_MESS_BUFFER_MAX_def T2U_PAYLOAD_MAX_def)

text \<open>Packet 2 is the next one; packet 3 is in the queue.\<close>

lemma data_request_next_witness:
  "\<exists>w' ps. t2u_session_handle_data_request ex_os 4 (ex_mdata data_request 10 2 [68]) 21 ex_world = Some w' \<and>
    world_ok w' \<and> delivers (session_send ex_os ex_established) 0 (recv_payload (w_messages ex_world) ex_established) 2 [68] ps"
  using data_request_next [OF ex_world_ok ex_world_sel(1) _ ex_linked(1) ex_packet_len, of data_request 10 2 ex_os]
  by (auto simp: sizeof_md_def)

lemma data_request_answered_only_witness:
  "\<exists>w'. t2u_session_handle_data_request ex_os 4 (ex_mdata data_request 10 1 [68]) 21 ex_world = Some w' \<and>
    world_ok w' \<and> w_out w' = [UdpSend 3 (answer ex_os 10 1 0)]"
  using data_request_answered_only [OF ex_world_ok ex_world_sel(1) ex_linked(1),
      of "ex_mdata data_request 10 1 [68]" ex_os 21] by auto

lemma data_request_early_witness:
  "\<exists>w' sess'. t2u_session_handle_data_request ex_os 4 (ex_mdata data_request 10 5 [68]) 21 ex_world = Some w' \<and>
    world_ok w' \<and> w_sessions w' 4 = Some sess' \<and> recv_map sess' = [3 \<mapsto> 8, 5 \<mapsto> 9]"
  using data_request_early [OF ex_world_ok ex_world_sel(1) _ ex_linked(1) ex_packet_len, of data_request 10 5 ex_os]
  by auto

text \<open>A closing session whose last packet is delivered from the queue.\<close>

lemma deliver_closing_undefined_witness:
  "\<exists>w. world_ok w \<and>
    t2u_session_handle_data_request ex_os 4 (ex_mdata data_request 10 2 [68]) 21 w = None"
proof -
  obtain w1 t where w1: "world_ok w1" "rb_map t = Map.empty" "w_sessions w1 = (w_sessions ex_world)(4 \<mapsto>
      enable_read (ex_established\<lparr>s_send_mess := t, s_send_buffer_count := 0\<rparr>))"
    using data_response_success_spec [OF ex_world_ok ex_world_sel(4) _ ex_world_sel(1),
      of "ex_mdata data_response 10 1 (put_u32 10)" ex_os] by auto
  let ?s1 = "enable_read (ex_established\<lparr>s_send_mess := t, s_send_buffer_count := 0\<rparr>)"
  let ?sess = "?s1\<lparr>s_status := 3\<rparr>"
  let ?w = "w1\<lparr>w_sessions := (w_sessions w1)(4 \<mapsto> ?sess)\<rparr>"
  have s1: "w_sessions w1 4 = Some ?s1" by (simp add: w1(3))
  have st: "s_status ?s1 = 2" by simp
  have W: "world_ok ?w"
    by (rule world_ok_session_fields [OF w1(1) s1, of ?sess]) (use st in \<open>auto simp: session_events_def\<close>)
  have s: "w_sessions ?w 4 = Some ?sess" "s_status ?sess = 3" by simp_all
  from world_okD(1) [OF W s(1)] obtain r rule c ctx n where l: "linked ?w ?sess r rule c ctx n"
    by (rule session_okE)
  have "t2u_session_handle_data_request ex_os 4 (ex_mdata data_request 10 2 [68]) 21 ?w = None"
  proof (rule deliver_closing_undefined [OF W s l ex_packet_len])
    show "os_send ex_os (w_calls ?w) (s_sock ?sess) [68] = (int (length [68]), 0)" by (simp add: ex_os_def)
    show "messages_of ?sess = {8}" using w1(2) by (simp add: messages_of_def)
  qed (simp_all add: sizeof_md_def)
  with W show ?thesis by blast
qed

section \<open>Connecting sessions\<close>

lemma add_connecting_session_client_witness:
  "\<exists>w'. t2u_add_connecting_session ex_os 2 30 0 ex_world = Some (9, w') \<and> world_ok w' \<and> w_handle_seq w' = 13"
proof -
  have h: "next_handle_seq (w_handle_seq ex_world) = 13" "session_handle 0 13 = 13"
    by (simp_all add: next_handle_seq_def session_handle_def)
  have "rb_map (r_connecting_sessions ex_client_rule)
      (session_handle 0 (next_handle_seq (w_handle_seq ex_world))) = None" by (simp only: h) simp
  from add_connecting_session_client [OF ex_world_ok ex_world_sel(6) _ _ ex_world_sel(8) _ ex_world_sel(9) this,
      of ex_os 30] h show ?thesis by auto
qed

lemma add_connecting_session_server_witness:
  "\<exists>w' sess. t2u_add_connecting_session ex_os 3 30 20 ex_world = Some (9, w') \<and> world_ok w' \<and>
    w_sessions w' 9 = Some sess \<and> s_handle sess = 0xD00000014"
proof -
  have h: "next_handle_seq (w_handle_seq ex_world) = 13" "session_handle 20 13 = 0xD00000014"
    by (simp_all add: next_handle_seq_def session_handle_def)
  have "rb_map (r_connecting_sessions ex_server_rule)
      (session_handle 20 (next_handle_seq (w_handle_seq ex_world))) = None" by (simp only: h) simp
  moreover have "\<not> connect_failed (os_connect ex_os (w_calls ex_world) 30 (r_conn_addr ex_server_rule))"
    by (simp add: connect_failed_def ex_os_def)
  ultimately show ?thesis
    using add_connecting_session_server [OF ex_world_ok ex_world_sel(7) _ _ ex_world_sel(8) _ ex_world_sel(9),
      of 20 ex_os 30] h by auto
qed

lemma connect_timeout_retry_witness:
  "\<exists>w' sess'. session_connect_timeout_cb ex_os 5 ex_world = Some w' \<and> world_ok w' \<and>
    w_sessions w' 5 = Some sess' \<and> s_connect_retries sess' = 1"
  using connect_timeout_retry_spec [OF ex_world_ok ex_world_sel(2) _ ex_linked(2), of ex_os] by auto

text \<open>With one attempt allowed, the first timeout is the last.\<close>

lemma connect_timeout_last_witness:
  "\<exists>w w'. world_ok w \<and> w_sessions w 5 = Some ex_connecting \<and> session_connect_timeout_cb ex_os 5 w = Some w' \<and>
    world_ok w' \<and> w_sessions w' 5 = None"
proof -
  let ?ctx = "with_option CTX_UDP_RETRIES 1 ex_context"
  let ?w = "ex_world\<lparr>w_contexts := (w_contexts ex_world)(Suc 0 \<mapsto> ?ctx)\<rparr>"
  have W: "world_ok ?w" by (rule set_context_option_keeps) simp_all
  have s: "w_sessions ?w 5 = Some ex_connecting" by simp
  have l: "linked ?w ex_connecting 2 ex_client_rule (Suc 0) ?ctx 0"
    using ex_linked(2) by (simp add: linked_def with_option_def ctx_option_defs)
  have k: "c_uretries ?ctx \<le> s_connect_retries ex_connecting + 1"
    by (simp add: with_option_def ctx_option_defs clamp_def)
  from connect_timeout_last_spec [OF W s _ l k, of ex_os] W s show ?thesis by auto
qed

lemma connect_response_established_witness:
  "\<exists>w' sess'. t2u_session_handle_connect_response ex_os 5
      (ex_mdata connect_response 0x50000000B 0 (put_u32 0)) ex_world = Some w' \<and>
    world_ok w' \<and> w_sessions w' 5 = Some sess' \<and> s_status sess' = 2 \<and> s_handle sess' = 0x50000000B"
proof -
  let ?md = "ex_mdata connect_response 0x50000000B 0 (put_u32 0)"
  have "rb_map (r_sessions ex_client_rule) (md_handle ?md) = None" "4 \<le> length (md_payload ?md)"
    "get_u32 (md_payload ?md) = 0" using get_put_u32 [of 0 "[]"] by simp_all
  from connect_response_established_spec [OF ex_world_ok ex_world_sel(2) _ ex_linked(2) this, of ex_os]
  show ?thesis by auto
qed

lemma connect_response_refused_witness:
  "\<exists>w'. t2u_session_handle_connect_response ex_os 5 (ex_mdata connect_response 11 0 (put_u32 1)) ex_world = Some w' \<and>
    world_ok w' \<and> w_sessions w' 5 = None"
proof -
  let ?md = "ex_mdata connect_response 11 0 (put_u32 1)"
  have "4 \<le> length (md_payload ?md)" "get_u32 (md_payload ?md) \<noteq> 0" using get_put_u32 [of 1 "[]"] by simp_all
  from connect_response_refused [OF ex_world_ok ex_world_sel(2) _ ex_linked(2) this, of ex_os]
  show ?thesis by auto
qed

lemma connect_success_established_witness:
  "\<exists>w' sess'. session_connect_success_cb ex_os 7 6 ex_world = Some w' \<and> world_ok w' \<and>
    w_sessions w' 6 = Some sess' \<and> s_status sess' = 2"
proof -
  have "os_sock_error ex_os (w_calls ex_world) 7 = 0" by (simp add: ex_os_def)
  from connect_success_established_spec [OF ex_world_ok ex_world_sel(3) _ ex_linked(3) _ _ this]
  show ?thesis by auto
qed

lemma connect_success_refused_witness:
  "\<exists>w'. session_connect_success_cb (ex_os\<lparr>os_sock_error := \<lambda>call sock. 111\<rparr>) 7 6 ex_world = Some w' \<and>
    world_ok w' \<and> w_sessions w' 6 = None"
  using connect_success_refused [OF ex_world_ok ex_world_sel(3) _ ex_linked(3),
      of "ex_os\<lparr>os_sock_error := \<lambda>call sock. 111\<rparr>" 7] by auto

text \<open>The session has been silent for 1010 seconds, of 900 allowed.\<close>

lemma timeout_check_ok_witness:
  "\<exists>w'. session_timeout_check_cb (ex_os\<lparr>os_time := \<lambda>call. 2000\<rparr>) 4 ex_world = Some w' \<and>
    world_ok w' \<and> w_sessions w' 4 = None"
proof -
  let ?os = "ex_os\<lparr>os_time := \<lambda>call. 2000\<rparr>"
  have "inactive ex_context ex_established (os_time ?os (w_calls ex_world))" by (simp add: inactive_def)
  with timeout_check_ok [OF ex_world_ok ex_world_sel(1) _ ex_linked(1), of ?os] show ?thesis by auto
qed

section \<open>Contexts and runners\<close>

lemma bind_control_port_first_witness:
  "bind_control_port (ex_os\<lparr>os_bind := \<lambda>call sock a. if call = 0 then - 1 else 0\<rparr>) 1 CONTROL_PORT_START ex_world =
    (CONTROL_PORT_START + 1, ex_world\<lparr>w_calls := 2\<rparr>)"
proof -
  let ?os = "ex_os\<lparr>os_bind := \<lambda>call sock a. if call = 0 then - 1 else 0\<rparr>"
  have "bind_control_port ?os 1 CONTROL_PORT_START ex_world =
      (CONTROL_PORT_START + 1, ex_world\<lparr>w_calls := Suc (w_calls ex_world + (CONTROL_PORT_START + 1 - CONTROL_PORT_START))\<rparr>)"
  proof (rule bind_control_port_first)
    show "CONTROL_PORT_START + 1 < CONTROL_PORT_END" by (simp add: CONTROL_PORT_START_def CONTROL_PORT_END_def)
  qed auto
  then show ?thesis by (simp add: numeral_2_eq_2)
qed

lemma create_forward_ok_witness:
  "\<exists>w'. create_forward ex_os 40 ex_world = Some (9, w') \<and> world_ok w'"
proof -
  have "case w_g_runner ex_world of None \<Rightarrow> runner_available ex_os (w_calls ex_world)
      | Some n \<Rightarrow> w_runners ex_world n \<noteq> None" by simp
  from create_forward_ok_spec [OF ex_world_ok this, of 40] obtain c w' where
    w': "create_forward ex_os 40 ex_world = Some (c, w')" "world_ok w'" by blast
  moreover from w'(1) have "c = 9"
    by (auto simp: create_forward_def t2u_add_context_def malloc_def bind_eq_Some_conv)
  ultimately show ?thesis by blast
qed

lemma free_forward_ok_witness:
  "\<exists>w'. free_forward ex_os 1 ex_world = Some w' \<and> world_ok w' \<and> w_g_runner w' = None \<and> w_runners w' 0 = None"
proof -
  have t: "n_contexts ex_runner = Some (tree1 NULL (Suc 0) (Suc 0))" "n_running ex_runner \<noteq> 0"
    "dom (rb_map (tree1 NULL (Suc 0) (Suc 0))) = {Suc 0}" by (simp_all add: tree_simps)
  from free_forward_ok_spec [OF ex_world_ok ex_world_sel(8) _ ex_world_sel(9) t(1) _ t(2) ex_log_ok(1), of ex_os] t(3)
  show ?thesis by auto
qed

lemma delete_runner_ok_witness:
  "\<exists>w'. t2u_delete_runner ex_os (Some 0) ex_world = Some w' \<and> world_ok w' \<and> w_runners w' 0 = None \<and>
    (\<forall>c ctx. w_contexts w' c = Some ctx \<longrightarrow> c_runner ctx \<noteq> Some 0)"
  using delete_runner_ok [OF ex_world_ok ex_world_sel(9) _ ex_log_ok(1), of ex_os] by auto

end
