(* ===== verification/Rbtree_Iterate.thy ===== *)
theory Rbtree_Iterate
  imports Rbtree_Correct
begin

text \<open>
  Iteration over a red-black tree: \<open>rbtree_min\<close>, \<open>rbtree_max\<close>, \<open>rbtree_next\<close> and \<open>rbtree_prev\<close> move along
  the list of the nodes in key order. The height of the tree bounds the length of every path.
\<close>

section \<open>The nodes in key order\<close>

type_synonym ('k, 'd) entry = "addr \<times> 'k \<times> 'd"

fun nds :: "('k, 'd) rtree \<Rightarrow> ('k, 'd) entry list" where
  "nds Lf = []"
| "nds (Nd l a c k d r) = nds l @ (a, k, d) # nds r"

fun nlefts :: "('k, 'd) frame list \<Rightarrow> ('k, 'd) entry list" where
  "nlefts [] = []"
| "nlefts (LFr a c k d r # fs) = nlefts fs"
| "nlefts (RFr l a c k d # fs) = nlefts fs @ nds l @ [(a, k, d)]"

fun nrights :: "('k, 'd) frame list \<Rightarrow> ('k, 'd) entry list" where
  "nrights [] = []"
| "nrights (LFr a c k d r # fs) = (a, k, d) # nds r @ nrights fs"
| "nrights (RFr l a c k d # fs) = nrights fs"

lemma inorder_nds: "inorder x = map snd (nds x)"
  by (induction x) auto

lemma lefts_nlefts: "lefts fs = map snd (nlefts fs)" "rights fs = map snd (nrights fs)"
  by (induction fs rule: lefts.induct) (auto simp: inorder_nds)

lemma addrs_nds: "addrs x = fst ` set (nds x)"
  by (induction x) auto

lemma nds_plug [simp]: "nds (plug fs x) = nlefts fs @ nds x @ nrights fs"
proof (induction fs arbitrary: x)
  case (Cons f fs)
  then show ?case by (cases f) auto
qed simp

lemma nlefts_append [simp]:
  "nlefts (fs @ gs) = nlefts gs @ nlefts fs" "nrights (fs @ gs) = nrights fs @ nrights gs"
  by (induction fs rule: nlefts.induct) auto

text \<open>Every split of the list at a node comes from a position.\<close>

lemma nds_split:
  assumes "nds x = us @ (a, k, d) # vs"
  shows "\<exists>gs l c r. x = plug gs (Nd l a c k d r) \<and> us = nlefts gs @ nds l \<and> vs = nds r @ nrights gs"
  using assms
proof (induction x arbitrary: us vs)
  case (Nd l b c' k' d' r)
  consider (left) ws where "nds l = us @ (a, k, d) # ws" "vs = ws @ (b, k', d') # nds r"
    | (here) "us = nds l" "(a, k, d) = (b, k', d')" "vs = nds r"
    | (right) ws where "us = nds l @ (b, k', d') # ws" "nds r = ws @ (a, k, d) # vs"
    using Nd.prems by (auto simp: append_eq_append_conv2 append_eq_Cons_conv Cons_eq_append_conv)
  then show ?case
  proof cases
    case left
    from Nd.IH(1) [OF left(1)] obtain gs l0 c0 r0 where
      "l = plug gs (Nd l0 a c0 k d r0)" "us = nlefts gs @ nds l0" "ws = nds r0 @ nrights gs" by blast
    then show ?thesis
      using left(2) by (intro exI [of _ "gs @ [LFr b c' k' d' r]"]) auto
  next
    case here
    then show ?thesis by (intro exI [of _ "[]"]) auto
  next
    case right
    from Nd.IH(2) [OF right(2)] obtain gs l0 c0 r0 where
      "r = plug gs (Nd l0 a c0 k d r0)" "ws = nlefts gs @ nds l0" "vs = nds r0 @ nrights gs" by blast
    then show ?thesis
      using right(1) by (intro exI [of _ "gs @ [RFr l b c' k' d']"]) auto
  qed
qed simp

section \<open>One step\<close>

fun first_addr :: "('k, 'd) entry list \<Rightarrow> ptr" where
  "first_addr [] = NULL"
| "first_addr (e # es) = Some (fst e)"

definition last_addr :: "('k, 'd) entry list \<Rightarrow> ptr" where
  "last_addr es = first_addr (rev es)"

lemma first_addr_append: "first_addr (es @ fs) = (if es = [] then first_addr fs else first_addr es)"
  by (cases es) auto

lemma last_addr_simps [simp]:
  "last_addr [] = NULL" "last_addr (es @ [e]) = Some (fst e)"
  "last_addr (es @ e # fs) = (if fs = [] then Some (fst e) else last_addr fs)"
  by (simp_all add: last_addr_def first_addr_append)

lemma last_addr_append: "last_addr (es @ fs) = (if fs = [] then last_addr es else last_addr fs)"
  by (simp add: last_addr_def first_addr_append)

lemma nds_empty [simp]: "nds x = [] \<longleftrightarrow> x = Lf"
  by (cases x) auto

lemma get_min_nds: "trep (rb_nodes t) p x \<Longrightarrow> x \<noteq> Lf \<Longrightarrow> get_min t (rt x) = Some (first_addr (nds x))"
proof (induction x arbitrary: p)
  case (Nd l a c k d r)
  then show ?case by (cases "l = Lf") (auto simp: get_min.simps [of t "Some a"] deref_def first_addr_append)
qed simp

lemma get_max_nds: "trep (rb_nodes t) p x \<Longrightarrow> x \<noteq> Lf \<Longrightarrow> get_max t (rt x) = Some (last_addr (nds x))"
proof (induction x arbitrary: p)
  case (Nd l a c k d r)
  then show ?case by (cases "r = Lf") (auto simp: get_max.simps [of t "Some a"] deref_def)
qed simp

text \<open>What the climb reads.\<close>

lemma zrep_parent_links:
  assumes z: "zrep cmp nf t (f # fs) x" and x: "x \<noteq> Lf"
  shows "get_parent t (rt x) = Some (Some (faddr f))"
    "\<exists>n. deref t (Some (faddr f)) = Some n \<and>
       (case f of LFr a c k d r \<Rightarrow> rb_left n = rt x \<and> rb_right n \<noteq> rt x | RFr l a c k d \<Rightarrow> rb_right n = rt x \<and> rb_left n \<noteq> rt x)"
proof -
  show "get_parent t (rt x) = Some (Some (faddr f))" using zrep_get_parent [OF z x] by simp
  obtain l b c' k' d' r' where n: "x = Nd l b c' k' d' r'" using x by (cases x) auto
  show "\<exists>n. deref t (Some (faddr f)) = Some n \<and>
       (case f of LFr a c k d r \<Rightarrow> rb_left n = rt x \<and> rb_right n \<noteq> rt x | RFr l a c k d \<Rightarrow> rb_right n = rt x \<and> rb_left n \<noteq> rt x)"
    using z n by (cases f) (auto simp: zrep_def deref_def rt_neq)
qed

lemma next_up_sim: "zrep cmp nf t fs x \<Longrightarrow> x \<noteq> Lf \<Longrightarrow> next_up t (rt x) = Some (first_addr (nrights fs))"
proof (induction fs arbitrary: x)
  case Nil
  then show ?case using zrep_get_parent [OF Nil] by (simp add: next_up.simps [of t "rt x"])
next
  case (Cons f fs)
  have up: "zrep cmp nf t fs (fill f x)" using Cons.prems(1) by (simp add: zrep_up)
  show ?case
  proof (cases f)
    case (LFr a c k d r)
    with zrep_parent_links [OF Cons.prems] show ?thesis by (auto simp: next_up.simps [of t "rt x"])
  next
    case (RFr l a c k d)
    with zrep_parent_links [OF Cons.prems] Cons.IH [OF up] show ?thesis by (auto simp: next_up.simps [of t "rt x"])
  qed
qed

lemma prev_up_sim: "zrep cmp nf t fs x \<Longrightarrow> x \<noteq> Lf \<Longrightarrow> prev_up t (rt x) = Some (last_addr (nlefts fs))"
proof (induction fs arbitrary: x)
  case Nil
  then show ?case using zrep_get_parent [OF Nil] by (simp add: prev_up.simps [of t "rt x"])
next
  case (Cons f fs)
  have up: "zrep cmp nf t fs (fill f x)" using Cons.prems(1) by (simp add: zrep_up)
  show ?case
  proof (cases f)
    case (LFr a c k d r)
    with zrep_parent_links [OF Cons.prems] Cons.IH [OF up] show ?thesis by (auto simp: prev_up.simps [of t "rt x"])
  next
    case (RFr l a c k d)
    have "last_addr (nlefts (f # fs)) = Some a"
      using last_addr_simps(2) [of "nlefts fs @ nds l" "(a, k, d)"] RFr by simp
    with RFr zrep_parent_links [OF Cons.prems] show ?thesis by (auto simp: prev_up.simps [of t "rt x"])
  qed
qed

lemma zrep_position:
  assumes "zrep cmp nf t fs (Nd l a c k d r)"
  shows "deref t (Some a) = Some (mk_node (ctop fs) (rt l) (rt r) c k d)"
    "trep (rb_nodes t) (Some a) l" "trep (rb_nodes t) (Some a) r"
  using assms by (simp_all add: zrep_def deref_def)

lemma rbtree_next_sim:
  assumes z: "zrep cmp nf t fs (Nd l a c k d r)"
  shows "rbtree_next t (Some a) = Some (first_addr (nds r @ nrights fs))"
  using zrep_position [OF z] next_up_sim [OF z] get_min_nds [OF zrep_position(3) [OF z]]
  by (simp add: rbtree_next_def first_addr_append)

lemma rbtree_prev_sim:
  assumes z: "zrep cmp nf t fs (Nd l a c k d r)"
  shows "rbtree_prev t (Some a) = Some (last_addr (nlefts fs @ nds l))"
  using zrep_position [OF z] prev_up_sim [OF z] get_max_nds [OF zrep_position(2) [OF z]]
  by (simp add: rbtree_prev_def last_addr_append)

lemma rbtree_min_sim: "zrep cmp nf t [] x \<Longrightarrow> rbtree_min t = Some (first_addr (nds x))"
  using get_min_nds [of t NULL x] zrep_root [of cmp nf t x] by (cases x) (auto simp: rbtree_min_def zrep_def)

lemma rbtree_max_sim: "zrep cmp nf t [] x \<Longrightarrow> rbtree_max t = Some (last_addr (nds x))"
  using get_max_nds [of t NULL x] zrep_root [of cmp nf t x] by (cases x) (auto simp: rbtree_max_def zrep_def)

section \<open>The whole iteration\<close>

lemma rb_shape_iterate:
  assumes x: "rb_shape t x" and i: "i < length (nds x)"
  shows "rbtree_next t (Some (fst (nds x ! i))) = Some (if Suc i < length (nds x) then Some (fst (nds x ! Suc i)) else NULL)"
    "rbtree_prev t (Some (fst (nds x ! i))) = Some (if 0 < i then Some (fst (nds x ! (i - 1))) else NULL)"
    "\<exists>n. deref t (Some (fst (nds x ! i))) = Some n \<and> snd (nds x ! i) = (rb_key n, rb_data n)"
proof -
  obtain a k d where e: "nds x ! i = (a, k, d)" by (cases "nds x ! i") auto
  have split: "nds x = take i (nds x) @ (a, k, d) # drop (Suc i) (nds x)"
    using id_take_nth_drop [OF i] e by simp
  from nds_split [OF split] obtain gs l c r where
    p: "x = plug gs (Nd l a c k d r)" "take i (nds x) = nlefts gs @ nds l" "drop (Suc i) (nds x) = nds r @ nrights gs"
    by blast
  have "zrep (rb_compare t) (rb_fresh t) t [] x" using x by (simp add: rb_shape_def)
  then have z: "zrep (rb_compare t) (rb_fresh t) t gs (Nd l a c k d r)" using p(1) zrep_plug by metis
  have "first_addr (drop (Suc i) (nds x)) = (if Suc i < length (nds x) then Some (fst (nds x ! Suc i)) else NULL)"
    by (auto simp flip: Cons_nth_drop_Suc)
  with rbtree_next_sim [OF z] p(3) e
  show "rbtree_next t (Some (fst (nds x ! i))) = Some (if Suc i < length (nds x) then Some (fst (nds x ! Suc i)) else NULL)"
    by simp
  have "last_addr (take i (nds x)) = (if 0 < i then Some (fst (nds x ! (i - 1))) else NULL)"
  proof (cases i)
    case (Suc j)
    with i have "take i (nds x) = take j (nds x) @ [nds x ! j]" by (simp add: take_Suc_conv_app_nth)
    with Suc show ?thesis by simp
  qed simp
  with rbtree_prev_sim [OF z] p(2) e
  show "rbtree_prev t (Some (fst (nds x ! i))) = Some (if 0 < i then Some (fst (nds x ! (i - 1))) else NULL)" by simp
  show "\<exists>n. deref t (Some (fst (nds x ! i))) = Some n \<and> snd (nds x ! i) = (rb_key n, rb_data n)"
    using zrep_position(1) [OF z] e by simp
qed

text \<open>The entries of a tree, in key order, with the addresses of their nodes.\<close>

definition rb_entries :: "('k::linorder, 'd) rbtree \<Rightarrow> ('k, 'd) entry list \<Rightarrow> bool" where
  "rb_entries t es \<longleftrightarrow> sorted_wrt (<) (map (fst \<circ> snd) es) \<and> rb_map t = map_of (map snd es)"

lemma rb_shape_entries: "rb_shape t x \<Longrightarrow> rb_entries t (nds x)"
  by (simp add: rb_entries_def rb_shape_map inorder_nds) (simp add: rb_shape_def keys_sorted_def inorder_nds)

section \<open>Height\<close>

fun rheight :: "('k, 'd) rtree \<Rightarrow> nat" where
  "rheight Lf = 0"
| "rheight (Nd l a c k d r) = Suc (max (rheight l) (rheight r))"

text \<open>Searching for a key dereferences as many nodes as the path is long.\<close>

lemma bh_height: "invc x \<Longrightarrow> invh x \<Longrightarrow> rheight x \<le> 2 * bh x + (if tcol x = RB_RED then 1 else 0)"
proof (induction x)
  case (Nd l a c k d r)
  then show ?case by (cases c; cases "tcol l"; cases "tcol r") auto
qed simp

lemma bh_size: "invh x \<Longrightarrow> 2 ^ bh x \<le> length (nds x) + 1"
proof (induction x)
  case (Nd l a c k d r)
  then show ?case by (cases c) auto
qed simp

lemma rbt_inv_height:
  assumes "rbt_inv x"
  shows "2 ^ rheight x \<le> (length (nds x) + 1)\<^sup>2"
proof -
  have "rheight x \<le> 2 * bh x" using assms bh_height [of x] by (auto simp: rbt_inv_def)
  then have "2 ^ rheight x \<le> (2 :: nat) ^ (2 * bh x)" by (rule power_increasing) simp
  also have "\<dots> = (2 ^ bh x)\<^sup>2" by (simp add: power_mult mult.commute)
  also have "\<dots> \<le> (length (nds x) + 1)\<^sup>2"
    by (rule power_mono) (use bh_size [of x] assms in \<open>auto simp: rbt_inv_def\<close>)
  finally show ?thesis .
qed

text \<open>\<open>lookup_loop\<close> with a bound on its rounds.\<close>

fun lookup_rounds :: "nat \<Rightarrow> ('k, 'd) rbtree \<Rightarrow> 'k \<Rightarrow> ptr \<Rightarrow> ptr \<Rightarrow> (ptr \<times> ptr) option" where
  "lookup_rounds 0 t key current pparent = (if current = NULL then Some (NULL, pparent) else None)"
| "lookup_rounds (Suc n) t key current pparent =
     (if current = NULL then Some (NULL, pparent)
      else do {
        node \<leftarrow> deref t current;
        let ret = rb_compare t (rb_key node) key;
        if ret = 0 then Some (current, pparent)
        else if ret < 0 then lookup_rounds n t key (rb_right node) current
        else lookup_rounds n t key (rb_left node) current })"

lemma lookup_rounds_sim:
  "trep (rb_nodes t) p x \<Longrightarrow> rheight x \<le> n \<Longrightarrow> lookup_rounds n t key (rt x) q = lookup_loop t key (rt x) q"
proof (induction x arbitrary: p q n)
  case Lf
  then show ?case by (cases n) (simp_all add: lookup_loop.simps)
next
  case (Nd l a c k d r)
  then obtain m where m: "n = Suc m" "rheight l \<le> m" "rheight r \<le> m" by (cases n) auto
  with Nd.prems Nd.IH(1) [of "Some a" m "Some a"] Nd.IH(2) [of "Some a" m "Some a"] show ?case
    by (simp add: lookup_loop.simps [of t key "Some a"] deref_def Let_def)
qed

section \<open>Properties\<close>

text \<open>
  C34: On a well-formed tree, rbtree_min and rbtree_max give the first and the last node, and
  rbtree_next and rbtree_prev move by one along the list of the nodes in key order, with NULL at
  both ends.
\<close>

lemma rbtree_iteration:
  assumes "rb_ok t"
  shows "\<exists>es. rb_entries t es \<and> rbtree_min t = Some (first_addr es) \<and> rbtree_max t = Some (last_addr es) \<and>
    (\<forall>i < length es.
      rbtree_next t (Some (fst (es ! i))) = Some (if Suc i < length es then Some (fst (es ! Suc i)) else NULL) \<and>
      rbtree_prev t (Some (fst (es ! i))) = Some (if 0 < i then Some (fst (es ! (i - 1))) else NULL) \<and>
      (\<exists>n. deref t (Some (fst (es ! i))) = Some n \<and> snd (es ! i) = (rb_key n, rb_data n)))"
proof -
  from assms obtain x where x: "rb_shape t x" by (auto simp: rb_ok_def)
  then have z: "zrep (rb_compare t) (rb_fresh t) t [] x" by (simp add: rb_shape_def)
  from rb_shape_iterate [OF x] rb_shape_entries [OF x] rbtree_min_sim [OF z] rbtree_max_sim [OF z]
  show ?thesis by (intro exI [of _ "nds x"]) simp
qed

lemma rbtree_search_rounds:
  assumes "rb_ok t" "(card (dom (rb_map t)) + 1)\<^sup>2 \<le> 2 ^ n"
  shows "lookup_rounds n t key (rb_root t) NULL = do_lookup key t \<and> do_lookup key t \<noteq> None"
proof -
  from assms(1) obtain x where x: "rb_shape t x" by (auto simp: rb_ok_def)
  then have z: "zrep (rb_compare t) (rb_fresh t) t [] x" and inv: "rbt_inv x" and s: "keys_sorted (inorder x)"
    by (simp_all add: rb_shape_def)
  have "card (dom (rb_map t)) = length (nds x)"
    using keys_sorted_distinct [OF s]
    by (simp add: rb_shape_map [OF x] dom_map_of_conv_image_fst distinct_card inorder_nds flip: set_map)
  with rbt_inv_height [OF inv] assms(2) have "(2 :: nat) ^ rheight x \<le> 2 ^ n" by (metis order.trans)
  then have "rheight x \<le> n" by simp
  moreover have "trep (rb_nodes t) NULL x" using z by (simp add: zrep_def)
  ultimately have "lookup_rounds n t key (rb_root t) NULL = do_lookup key t"
    using lookup_rounds_sim [of t NULL x n key NULL] zrep_root [OF z] by (simp add: do_lookup_def)
  moreover have "do_lookup key t \<noteq> None"
    using do_lookup_sim [OF z] by (metis option.distinct(1) surj_pair)
  ultimately show ?thesis by simp
qed

end
