(* ===== verification/T2u_Properties.thy ===== *)
theory T2u_Properties
  imports T2u_Witnesses Rbtree_Iterate
begin

text \<open>
  The properties that other components rest on, stated over the model alone: the red-black tree as
  a finite map, the wire format, the options, the lookup of sessions and the teardown of rules and
  contexts. The properties of the handlers stand with the handlers.
\<close>

section \<open>The tree\<close>

text \<open>
  C20: Insertion into a well-formed red-black tree returns 0 and adds the entry when the key is new,
  returns -2 and leaves the contents alone when it is present, and keeps the tree well-formed:
  parent pointers, order, no red node with a red child, equal black heights.
\<close>

lemma rbtree_insert_correct:
  assumes "rb_ok t"
  shows "\<exists>t'. rbtree_insert True t k d = Some (if rb_map t k = None then 0 else - 2, t') \<and> rb_ok t' \<and>
    rb_map t' = (if rb_map t k = None then (rb_map t)(k \<mapsto> d) else rb_map t)"
  using rb.ins_new [OF assms, of k d] rb.ins_dup [OF assms, of k d] by (cases "rb_map t k") auto

lemma rbtree_insert_correct_witness:
  "\<exists>t'. rbtree_insert True (tree1 (Some compare_uint32_ptr) 1 (10 :: nat)) 2 20 = Some (0, t') \<and> rb_ok t' \<and>
    rb_map t' = [1 \<mapsto> 10, 2 \<mapsto> 20]"
  using rbtree_insert_correct [of "tree1 (Some compare_uint32_ptr) 1 (10 :: nat)" 2 20]
  by (simp add: tree_simps)

text \<open>
  C21: Removal from a well-formed red-black tree returns 0 when the key was present and -1
  otherwise, deletes exactly that entry, and keeps the tree well-formed through all six cases of the
  repair.
\<close>

lemma rbtree_remove_correct:
  assumes "rb_ok t"
  shows "\<exists>t'. rbtree_remove t k = Some (if rb_map t k = None then - 1 else 0, t') \<and> rb_ok t' \<and>
    rb_map t' = (rb_map t)(k := None)"
  using rb.del_hit [OF assms, of k] rb.del_miss [OF assms, of k] assms
  by (cases "rb_map t k") (auto simp: fun_upd_idem)

lemma rbtree_remove_correct_witness:
  "\<exists>t'. rbtree_remove (tree1 (Some compare_uint32_ptr) 1 (10 :: nat)) 1 = Some (0, t') \<and> rb_map t' = Map.empty"
  using rbtree_remove_correct [of "tree1 (Some compare_uint32_ptr) 1 (10 :: nat)" 1] by (auto simp: tree_simps)

lemma rbtree_lookup_correct:
  assumes "rb_ok t" "rbtree_insert True t k d = Some (0, t')"
  shows "rbtree_lookup t' j = (if j = k then Some (Some d) else rbtree_lookup t j)"
proof -
  from assms(2) rb.ins_dup [OF assms(1), of k d] have "rb_map t k = None" by (cases "rb_map t k") auto
  from rb.ins_new [OF assms(1) this, of d] assms show ?thesis by (auto simp: rb.look)
qed

lemma rbtree_lookup_correct_witness:
  "rbtree_lookup (tree2 (Some compare_name) ex_a (2 :: nat) ex_b 3) ex_b = Some (Some 3)"
proof -
  have "rb_ok (tree1 (Some compare_name) ex_a (2 :: nat))"
    "rb_map (tree1 (Some compare_name) ex_a (2 :: nat)) = [ex_a \<mapsto> 2]" by (rule tree1_ok, simp)+
  moreover from rb.ins_new [OF this(1), of ex_b 3] this(2) have
    "rbtree_insert True (tree1 (Some compare_name) ex_a 2) ex_b 3 =
      Some (0, tree2 (Some compare_name) ex_a (2 :: nat) ex_b 3)" by (auto simp: tree2_def)
  ultimately show ?thesis using rbtree_lookup_correct [of "tree1 (Some compare_name) ex_a 2" ex_b 3 _ ex_b] by simp
qed

lemma two_entries:
  assumes "sorted_wrt (<) (map fst kds)" "map_of kds = [ex_a \<mapsto> d, ex_b \<mapsto> e]"
  shows "kds = [(ex_a, d), (ex_b, e)]"
proof -
  have "ex_a < ex_b" by (simp add: less_cstr_def strcmp_def)
  moreover have "set (map fst kds) = {ex_a, ex_b}"
    using arg_cong [OF assms(2), of dom] by (simp add: dom_map_of_conv_image_fst insert_commute)
  ultimately have "map fst kds = [ex_a, ex_b]"
    using assms(1) by (intro strict_sorted_equal [of "[ex_a, ex_b]"]) simp_all
  then obtain d' e' where "kds = [(ex_a, d'), (ex_b, e')]" by (auto simp: map_eq_Cons_conv)
  with fun_cong [OF assms(2), of ex_a] fun_cong [OF assms(2), of ex_b] show ?thesis by auto
qed

lemma rbtree_iteration_witness:
  "\<exists>es. rb_entries (tree2 (Some compare_name) ex_b (3 :: nat) ex_a 2) es \<and> map (snd \<circ> snd) es = [2, 3] \<and>
    rbtree_next (tree2 (Some compare_name) ex_b (3 :: nat) ex_a 2) (Some (fst (es ! 0))) = Some (Some (fst (es ! 1)))"
proof -
  define t where "t = tree2 (Some compare_name) ex_b (3 :: nat) ex_a 2"
  have ok: "rb_ok t" "rb_map t = [ex_b \<mapsto> 3, ex_a \<mapsto> 2]" unfolding t_def by (rule tree2_ok; simp)+
  have "\<exists>es. rb_entries t es \<and> (\<forall>i < length es. rbtree_next t (Some (fst (es ! i))) =
      Some (if Suc i < length es then Some (fst (es ! Suc i)) else NULL))"
    using rbtree_iteration [OF ok(1)] by (elim ex_forward) simp
  then obtain es where es: "rb_entries t es" and n: "\<And>i. i < length es \<Longrightarrow> rbtree_next t (Some (fst (es ! i))) =
      Some (if Suc i < length es then Some (fst (es ! Suc i)) else NULL)" by auto
  have "sorted_wrt (<) (map fst (map snd es))" "map_of (map snd es) = [ex_a \<mapsto> 2, ex_b \<mapsto> 3]"
    using es by (simp_all add: rb_entries_def ok(2) fun_upd_twist [of ex_a ex_b])
  then have "map snd es = [(ex_a, 2), (ex_b, 3)]" by (rule two_entries)
  then obtain a b where e: "es = [(a, ex_a, 2), (b, ex_b, 3)]" by (auto simp: map_eq_Cons_conv)
  with n [of 0] es show ?thesis unfolding t_def [symmetric] by auto
qed

lemma rbtree_search_rounds_witness:
  "lookup_rounds 4 (tree2 (Some compare_name) ex_a (2 :: nat) ex_b 3) ex_b
     (rb_root (tree2 (Some compare_name) ex_a (2 :: nat) ex_b 3)) NULL \<noteq> None"
proof -
  have ok: "rb_ok (tree2 (Some compare_name) ex_a (2 :: nat) ex_b 3)"
    "rb_map (tree2 (Some compare_name) ex_a (2 :: nat) ex_b 3) = [ex_a \<mapsto> 2, ex_b \<mapsto> 3]" by (rule tree2_ok; simp)+
  have "dom (rb_map (tree2 (Some compare_name) ex_a (2 :: nat) ex_b 3)) = {ex_a, ex_b}" using ok(2) by auto
  then have "(card (dom (rb_map (tree2 (Some compare_name) ex_a (2 :: nat) ex_b 3))) + 1)\<^sup>2 \<le> 2 ^ 4"
    by (simp add: power2_eq_square)
  from rbtree_search_rounds [OF ok(1) this] show ?thesis by metis
qed

section \<open>The wire format\<close>

text \<open>
  C25: What a sender writes into a message is what the receiver reads from the bytes after its byte
  order conversion, with a header of 20 bytes; on x86-64 only the low half of the handle survives.
\<close>

lemma message_roundtrip:
  "ntoh_header ar (md_of_bytes (md_bytes (new_mdata ar op handle seq payload))) =
     \<lparr>md_magic = T2U_MESS_MAGIC, md_version = 1, md_oper = oper_code op,
      md_handle = (case ar of X86_64 \<Rightarrow> low32 handle | Other_arch \<Rightarrow> handle), md_seq = seq, md_payload = payload\<rparr> \<and>
   length (md_bytes (new_mdata ar op handle seq payload)) = 20 + length payload \<and>
   oper_of (oper_code op) = Some op"
  by (simp add: wire_simps sizeof_md_def split: arch.split)

lemma handle_truncated:
  "ntoh64 X86_64 (hton64 X86_64 handle) = handle \<longleftrightarrow> handle < 2 ^ 32"
  by (simp add: ntoh64_hton64_x86_64 low32_less)

section \<open>Options\<close>

lemma option_clamped:
  assumes w: "world_ok w" and c: "w_contexts w c = Some ctx"
  shows "\<exists>ctx'. set_context_option c opt value w = Some (w\<lparr>w_contexts := (w_contexts w)(c \<mapsto> ctx')\<rparr>) \<and>
    world_ok (w\<lparr>w_contexts := (w_contexts w)(c \<mapsto> ctx')\<rparr>) \<and>
    c_utimeout ctx' = (if opt = CTX_UDP_TIMEOUT then min 30000 (max 10 value) else c_utimeout ctx) \<and>
    c_uretries ctx' = (if opt = CTX_UDP_RETRIES then min 20 (max 1 value) else c_uretries ctx) \<and>
    c_udp_slide_window ctx' = (if opt = CTX_UDP_SLIDEWINDOW then min 64 (max 1 value) else c_udp_slide_window ctx) \<and>
    c_session_timeout ctx' = (if opt = CTX_SESSION_TIMEOUT then min 86400 (max 10 value) else c_session_timeout ctx)"
  by (intro exI [of _ "with_option opt value ctx"] conjI set_context_option_exec [OF c] set_context_option_keeps [OF w c])
    (auto simp: with_option_def clamp_def ctx_option_defs)

lemma option_clamped_witness:
  "\<exists>w' ctx'. set_context_option 1 CTX_UDP_SLIDEWINDOW 1000 ex_world = Some w' \<and> world_ok w' \<and>
    w_contexts w' 1 = Some ctx' \<and> c_udp_slide_window ctx' = 64 \<and> c_uretries ctx' = 3"
  using option_clamped [OF ex_world_ok ex_world_sel(8), of CTX_UDP_SLIDEWINDOW 1000]
  by (auto simp: ctx_option_defs)

section \<open>Finding a session\<close>

text \<open>
  C19: The lookup by handle, which walks over the tree of rules of a context and looks into one of
  the two trees of each rule, returns, and finds a session exactly when the context has one with
  that handle that is (or is not yet) connected.
\<close>

lemma session_lookup:
  assumes "world_ok w" "w_contexts w c = Some ctx"
  shows "\<exists>p. find_session_in_context w ctx handle connected = Some p \<and>
    (case p of
       None \<Rightarrow> \<forall>s. \<not> has_session w c handle connected s
     | Some s \<Rightarrow> has_session w c handle connected s)"
  by (rule find_session_sound_complete [OF assms])

lemma session_lookup_witness:
  "find_session_in_context ex_world ex_context 10 True = Some (Some 4)"
proof -
  have a: "has_session ex_world (Suc 0) 10 True s \<longleftrightarrow> s = 4" for s
    by (auto simp: has_session_def ex_world_def ex_defs split: if_splits)
  from session_lookup [OF ex_world_ok ex_world_sel(8), of 10 True] a show ?thesis
    by (auto split: option.splits)
qed

section \<open>Teardown\<close>

text \<open>
  C26: Deleting a rule returns, ends all its sessions, connecting and connected, frees no session of
  another rule, unregisters the service from the context and leaves a consistent program state. With
  a log callback, the name of the rule has at most 900 bytes, so that the log message about the
  deletion fits into its buffer.
\<close>

lemma rule_deleted:
  assumes w: "world_ok w" and r: "w_rules w r = Some rule" "r_context rule = Some c" "w_contexts w c = Some ctx"
    and log: "rule_logs w rule"
  shows "\<exists>w'. del_forward_rule os r w = Some w' \<and> world_ok w' \<and> w_rules w' = (w_rules w)(r := None) \<and>
    (\<forall>s sess. w_sessions w' s = Some sess \<longleftrightarrow> w_sessions w s = Some sess \<and> s_rule sess \<noteq> Some r) \<and>
    w_messages w' \<subseteq>\<^sub>m w_messages w \<and> w_runners w' = w_runners w \<and>
    (\<exists>t. w_contexts w' = (w_contexts w)(c \<mapsto> ctx\<lparr>c_rules := t\<rparr>) \<and>
      rb_map t = (rb_map (c_rules ctx))(r_service rule := None))"
proof -
  from delete_rule_ok [OF w r log, of os] obtain w' t where
    w': "t2u_delete_rule os r w = Some w'" "world_ok w'" "w_rules w' = (w_rules w)(r := None)"
      "w_sessions w' = sessions_without r (w_sessions w)" "w_messages w' \<subseteq>\<^sub>m w_messages w"
      "w_contexts w' = (w_contexts w)(c \<mapsto> ctx\<lparr>c_rules := t\<rparr>)"
      "rb_map t = (rb_map (c_rules ctx))(r_service rule := None)" "w_runners w' = w_runners w" by blast
  then show ?thesis
    by (intro exI [of _ w']) (auto simp: del_forward_rule_def sessions_without_def split: option.splits if_splits)
qed

lemma rule_deleted_witness:
  "\<exists>w'. del_forward_rule ex_os 2 ex_world = Some w' \<and> world_ok w' \<and> w_sessions w' 4 = None \<and>
    w_sessions w' 6 = Some ex_server"
proof -
  have "s_rule ex_established = Some 2" "s_rule ex_server = Some 3" by (simp_all add: ex_defs)
  with rule_deleted [OF ex_world_ok ex_world_sel(6) _ ex_world_sel(8) ex_log_ok(2), of ex_os] show ?thesis
    by (auto, metis ex_world_sel(1,3) not_Some_eq option.inject num.distinct numeral_eq_iff)
qed

end
