(* ===== verification/T2u_Frame.thy ===== *)
theory T2u_Frame
  imports T2u_Context T2u_Shutdown
begin

text \<open>
  What the handlers of events leave alone: the contexts, the runners, the pointer to the shared runner
  and the callbacks. The
  facts hold of every run that ends, whatever state it starts in; they are collected in
  \<open>keeps_dest\<close>, from which the fact on a handler follows by unfolding it.
\<close>

named_theorems keeps_dest "an operation that ends keeps the contexts, the runners and the globals"

definition keeps_all :: "world \<Rightarrow> world \<Rightarrow> bool" where
  "keeps_all w w' \<longleftrightarrow> w_runners w' = w_runners w \<and> w_g_runner w' = w_g_runner w \<and>
     w_callbacks w' = w_callbacks w \<and> w_contexts w' = w_contexts w"

definition keeps_runners :: "world \<Rightarrow> world \<Rightarrow> bool" where
  "keeps_runners w w' \<longleftrightarrow> w_runners w' = w_runners w \<and> w_g_runner w' = w_g_runner w \<and>
     w_callbacks w' = w_callbacks w"

lemma keeps_all_runners: "keeps_all w w' \<Longrightarrow> keeps_runners w w'"
  by (simp add: keeps_all_def keeps_runners_def)

lemma keeps_refl [simp]: "keeps_all w w"
  by (simp add: keeps_all_def)

lemma keeps_trans: "keeps_all w1 w2 \<Longrightarrow> keeps_all w2 w3 \<Longrightarrow> keeps_all w1 w3"
  by (simp add: keeps_all_def)

text \<open>Updates of the other fields.\<close>

lemma keeps_put [simp]:
  "keeps_all w (emit a w') = keeps_all w w'" "keeps_all w (event_add e tv w') = keeps_all w w'"
  "keeps_all w (event_free e w') = keeps_all w w'" "keeps_all w (tick w') = keeps_all w w'"
  "keeps_all w (put_session s sess w') = keeps_all w w'"
  "keeps_all w (put_message m msg w') = keeps_all w w'"
  "keeps_all w (put_rule r rule w') = keeps_all w w'"
  "keeps_all w (free_session s w') = keeps_all w w'"
  "keeps_all w (free_message m w') = keeps_all w w'"
  "keeps_all w (t2u_delete_event ev w') = keeps_all w w'"
  "keeps_all w (w'\<lparr>w_handle_seq := n\<rparr>) = keeps_all w w'"
  "keeps_all w (w'\<lparr>w_fresh := f\<rparr>) = keeps_all w w'"
  by (simp_all add: keeps_all_def world_defs t2u_delete_event_exec)

lemma keeps_put_before [simp]:
  "keeps_all (emit a w) w' = keeps_all w w'" "keeps_all (event_add e tv w) w' = keeps_all w w'"
  "keeps_all (event_free e w) w' = keeps_all w w'" "keeps_all (tick w) w' = keeps_all w w'"
  "keeps_all (put_session s sess w) w' = keeps_all w w'"
  "keeps_all (put_message m msg w) w' = keeps_all w w'"
  "keeps_all (put_rule r rule w) w' = keeps_all w w'"
  "keeps_all (free_message m w) w' = keeps_all w w'"
  "keeps_all (t2u_delete_event ev w) w' = keeps_all w w'"
  "keeps_all (w\<lparr>w_handle_seq := n\<rparr>) w' = keeps_all w w'"
  "keeps_all (w\<lparr>w_fresh := f\<rparr>) w' = keeps_all w w'"
  by (simp_all add: keeps_all_def world_defs t2u_delete_event_exec)

lemmas keeps_unfold = bind_Some_iff Let_def malloc_def

section \<open>Messages and sessions\<close>

lemma send_message_data_keeps [keeps_dest]:
  "t2u_send_message_data os c data len s w = Some w' \<Longrightarrow> keeps_all w w'"
  by (auto simp: t2u_send_message_data_def keeps_unfold split: option.splits)

lemma readd_read_event_keeps [keeps_dest]: "readd_read_event s w = Some w' \<Longrightarrow> keeps_all w w'"
  by (auto simp: readd_read_event_def keeps_unfold split: option.splits if_splits)

lemma delete_request_message_keeps [keeps_dest]:
  "t2u_delete_request_message m w = Some w' \<Longrightarrow> keeps_all w w'"
  by (auto simp: t2u_delete_request_message_def keeps_unfold dest!: keeps_dest split: option.splits if_splits)

lemma add_request_message_keeps [keeps_dest]:
  "t2u_add_request_message os s payload len w = Some (m, w') \<Longrightarrow> keeps_all w w'"
  by (auto simp: t2u_add_request_message_def keeps_unfold dest!: keeps_dest split: option.splits if_splits)

lemma delete_connecting_session_keeps [keeps_dest]:
  "t2u_delete_connecting_session s w = Some w' \<Longrightarrow> keeps_all w w'"
  by (auto simp: t2u_delete_connecting_session_def keeps_unfold split: if_splits)

lemma clear_recv_queue_keeps [keeps_dest]:
  "clear_recv_queue s w = Some w' \<Longrightarrow> keeps_all w w'"
proof (rule clear_recv_queue.raw_induct [of "\<lambda>s w w'. keeps_all w w'", rotated], assumption, goal_cases)
  case (1 f s2 w2 w2')
  note [keeps_dest] = 1(2)
  from 1(3) show ?case
    by (auto simp: keeps_unfold dest!: keeps_dest intro: keeps_trans split: option.splits)
qed

lemma clear_send_queue_keeps [keeps_dest]:
  "clear_send_queue s w = Some w' \<Longrightarrow> keeps_all w w'"
proof (rule clear_send_queue.raw_induct [of "\<lambda>s w w'. keeps_all w w'", rotated], assumption, goal_cases)
  case (1 f s2 w2 w2')
  note [keeps_dest] = 1(2)
  from 1(3) show ?case
    by (auto simp: keeps_unfold dest!: keeps_dest intro: keeps_trans split: option.splits)
qed

lemma close_session_io_keeps [keeps_dest]:
  "close_session_io os s sync w = Some w' \<Longrightarrow> keeps_all w w'"
  by (auto simp: close_session_io_def keeps_unfold dest!: keeps_dest split: if_splits)

lemma unregister_session_keeps [keeps_dest]: "unregister_session s w = Some w' \<Longrightarrow> keeps_all w w'"
  by (auto simp: unregister_session_def keeps_unfold)

lemma delete_connected_session_keeps [keeps_dest]:
  "t2u_delete_connected_session os s sync w = Some w' \<Longrightarrow> keeps_all w w'"
  by (auto simp: t2u_delete_connected_session_def keeps_unfold dest!: keeps_dest intro: keeps_trans)

lemma try_delete_keeps [keeps_dest]:
  "t2u_try_delete_connected_session os s w = Some w' \<Longrightarrow> keeps_all w w'"
  by (auto simp: t2u_try_delete_connected_session_def keeps_unfold dest!: keeps_dest split: if_splits)

lemma delete_later_keeps [keeps_dest]:
  "t2u_delete_connected_session_later os s w = Some w' \<Longrightarrow> keeps_all w w'"
  by (auto simp: t2u_delete_connected_session_later_def keeps_unfold dest!: keeps_dest)

section \<open>Handlers\<close>

lemma request_timeout_keeps [keeps_dest]:
  "process_request_timeout_cb os m w = Some w' \<Longrightarrow> keeps_all w w'"
  by (auto simp: process_request_timeout_cb_def keeps_unfold dest!: keeps_dest split: if_splits)

lemma data_response_keeps [keeps_dest]:
  "t2u_message_handle_data_response os m mdata w = Some w' \<Longrightarrow> keeps_all w w'"
  by (auto simp: t2u_message_handle_data_response_def keeps_unfold dest!: keeps_dest intro: keeps_trans
      split: if_splits)

lemma retrans_request_keeps [keeps_dest]:
  "t2u_message_handle_retrans_request os m mdata w = Some w' \<Longrightarrow> keeps_all w w'"
  by (auto simp: t2u_message_handle_retrans_request_def keeps_unfold dest!: keeps_dest)

lemma session_connect_keeps [keeps_dest]:
  "session_connect_response os s w = Some w' \<Longrightarrow> keeps_all w w'"
  "session_connect os s w = Some w' \<Longrightarrow> keeps_all w w'"
  by (auto simp: session_connect_response_def session_connect_def keeps_unfold dest!: keeps_dest
      split: if_splits prod.splits)

lemma add_connecting_session_keeps [keeps_dest]:
  "t2u_add_connecting_session os r sock h w = Some (s, w') \<Longrightarrow> keeps_all w w'"
  by (auto simp: t2u_add_connecting_session_def keeps_unfold dest!: keeps_dest split: if_splits prod.splits)

lemma connect_timeout_keeps [keeps_dest]:
  "session_connect_timeout_cb os s w = Some w' \<Longrightarrow> keeps_all w w'"
  by (auto simp: session_connect_timeout_cb_def keeps_unfold dest!: keeps_dest split: if_splits)

lemma move_to_connected_keeps [keeps_dest]: "move_to_connected r s h w = Some w' \<Longrightarrow> keeps_all w w'"
  by (auto simp: move_to_connected_def keeps_unfold)

lemma bind_connected_events_keeps [keeps_dest]:
  "bind_connected_events s sock t w = Some w' \<Longrightarrow> keeps_all w w'"
  by (auto simp: bind_connected_events_def keeps_unfold)

lemma connect_success_keeps [keeps_dest]:
  "session_connect_success_cb os sock s w = Some w' \<Longrightarrow> keeps_all w w'"
  by (auto simp: session_connect_success_cb_def keeps_unfold dest!: keeps_dest intro: keeps_trans split: if_splits)

lemma connect_response_keeps [keeps_dest]:
  "t2u_session_handle_connect_response os s mdata w = Some w' \<Longrightarrow> keeps_all w w'"
  by (auto simp: t2u_session_handle_connect_response_def keeps_unfold dest!: keeps_dest intro: keeps_trans
      split: if_splits)

lemma timeout_check_keeps [keeps_dest]:
  "session_timeout_check_cb os s w = Some w' \<Longrightarrow> keeps_all w w'"
  by (auto simp: session_timeout_check_cb_def keeps_unfold dest!: keeps_dest split: if_splits)

lemma process_tcp_keeps [keeps_dest]:
  "t2u_session_process_tcp os sock s w = Some w' \<Longrightarrow> keeps_all w w'"
  by (auto simp: t2u_session_process_tcp_def keeps_unfold dest!: keeps_dest split: if_splits prod.splits)

lemma deliver_packet_keeps [keeps_dest]:
  "deliver_packet os s c h mdata len k w = Some (failed, full, w') \<Longrightarrow> keeps_all w w'"
  by (auto simp: deliver_packet_def keeps_unfold case_prod_unfold dest!: keeps_dest)

lemma take_next_packet_keeps [keeps_dest]:
  "take_next_packet s k w = Some (p, w') \<Longrightarrow> keeps_all w w'"
  by (auto simp: take_next_packet_def keeps_unfold split: option.splits)

lemma deliver_loop_keeps [keeps_dest]:
  "deliver_loop os s c h mdata len k w = Some w' \<Longrightarrow> keeps_all w w'"
proof (rule deliver_loop.raw_induct
    [of "\<lambda>os s c h mdata len k w w'. keeps_all w w'", rotated], assumption, goal_cases)
  case (1 f os2 s2 c2 h2 mdata2 len2 k2 w2 w2')
  note [keeps_dest] = 1(2)
  from 1(3) show ?case
    by (auto simp: keeps_unfold dest!: keeps_dest split: option.splits if_splits) (simp_all add: keeps_all_def)
qed

lemma retrans_loop_keeps [keeps_dest]:
  "retrans_loop os s c window k js w = Some w' \<Longrightarrow> keeps_all w w'"
proof (induction js arbitrary: w)
  case (Cons j js)
  note [keeps_dest] = Cons.IH
  from Cons.prems show ?case
    by (auto simp: retrans_step_def keeps_unfold dest!: keeps_dest intro: keeps_trans split: if_splits)
qed simp

lemma queue_received_keeps [keeps_dest]:
  "queue_received s window mdata len w = Some w' \<Longrightarrow> keeps_all w w'"
  by (auto simp: queue_received_def keeps_unfold split: if_splits)

lemma data_request_keeps [keeps_dest]:
  "t2u_session_handle_data_request os s mdata len w = Some w' \<Longrightarrow> keeps_all w w'"
  by (auto simp: t2u_session_handle_data_request_def keeps_unfold dest!: keeps_dest intro: keeps_trans
      split: if_splits)

lemma connect_request_keeps [keeps_dest]:
  "t2u_rule_handle_connect_request os r mdata w = Some w' \<Longrightarrow> keeps_all w w'"
  by (auto simp: t2u_rule_handle_connect_request_def keeps_unfold dest!: keeps_dest intro: keeps_trans
      split: if_splits option.splits)

lemma accept_keeps [keeps_dest]: "rule_process_accept_cb os r w = Some w' \<Longrightarrow> keeps_all w w'"
  by (auto simp: rule_process_accept_cb_def keeps_unfold dest!: keeps_dest split: if_splits)

lemma log_unknown_service_same: "log_unknown_service os service w = Some w' \<Longrightarrow> w' = w"
  by (auto simp: log_unknown_service_def LOG_line_def bind_Some_iff split: if_splits log_result.splits)

lemma log_unknown_service_keeps [keeps_dest]: "log_unknown_service os service w = Some w' \<Longrightarrow> keeps_all w w'"
  by (drule log_unknown_service_same) simp

lemma dispatch_keeps [keeps_dest]: "dispatch_message os ctx mdata len w = Some w' \<Longrightarrow> keeps_all w w'"
  by (auto simp: dispatch_message_def keeps_unfold dest!: keeps_dest
      split: option.splits t2u_mess_oper.splits)

lemma process_udp_keeps [keeps_dest]: "process_udp_cb os sock c w = Some w' \<Longrightarrow> keeps_all w w'"
  by (auto simp: process_udp_cb_def keeps_unfold case_prod_unfold dest!: keeps_dest split: if_splits)

end
