(* ===== verification/T2u_Dispatch.thy ===== *)
theory T2u_Dispatch
  imports T2u_Frame
begin

text \<open>
  The operations that create sessions and rules, and the dispatch of a received datagram to the
  handlers: what they do, and that they keep the invariant of the program state.
\<close>

section \<open>Adding a rule\<close>

text \<open>Memory that is allocated and freed again.\<close>

lemma world_ok_grow: "world_ok w \<Longrightarrow> w_fresh w \<le> n \<Longrightarrow> world_ok (w\<lparr>w_fresh := n\<rparr>)"
  by (simp add: world_ok_def session_ok_def rule_ok_def rule_links_def context_ok_def runner_ok_def messages_ok_def
      fresh_ok_def)

lemma world_ok_rule_add:
  assumes w: "world_ok w" and c: "w_contexts w c = Some ctx" and new: "rb_map (c_rules ctx) (r_service rule) = None"
    and r: "r = w_fresh w" "r_context rule = Some c" "rb_ok (r_sessions rule)" "rb_ok (r_connecting_sessions rule)"
      "rb_map (r_sessions rule) = Map.empty" "rb_map (r_connecting_sessions rule) = Map.empty"
    and ev: "\<And>ev. r_ev_listen rule = Some ev \<Longrightarrow> r_mode rule = forward_client_mode \<and> te_rule ev = Some r \<and>
      te_context ev = Some c \<and> te_runner ev = c_runner ctx \<and> te_session ev = NULL \<and> te_message ev = NULL \<and>
      te_event ev = Some (ev_read Cb_process_accept (r_listen_sock rule)) \<and> te_extra_event ev = None"
    and t: "rb_ok t" "rb_map t = (rb_map (c_rules ctx))(r_service rule \<mapsto> r)"
  shows "world_ok (w\<lparr>w_fresh := Suc r, w_rules := (w_rules w)(r \<mapsto> rule),
    w_contexts := (w_contexts w)(c \<mapsto> ctx\<lparr>c_rules := t\<rparr>)\<rparr>)" (is "world_ok ?w")
proof -
  note W = world_okD [OF w] and fr = fresh_none [OF w, of r]
  let ?ctx = "ctx\<lparr>c_rules := t\<rparr>"
  have nr: "w_rules w r = None" using fr(3) r(1) by simp
  have "session_ok ?w s sess" if s: "w_sessions w s = Some sess" for s sess
  proof (rule session_okE [OF W(1) [OF s]])
    fix r2 rule2 c2 ctx2 n
    assume l: "linked w sess r2 rule2 c2 ctx2 n" and
      rest: "queues_ok (r2, c2, n) (w_messages w) s sess" "s_status sess \<in> {1, 2, 3}"
        "s_status sess = 1 \<longrightarrow> messages_of sess = {}" "session_events (r_mode rule2) r2 c2 n s sess"
        "registry rule2 (s_status sess) (s_handle sess) = Some s"
    have "linked ?w sess r2 rule2 c2 (if c2 = c then ?ctx else ctx2) n"
      using l c nr by (auto simp: linked_def)
    with rest show ?thesis by (intro session_okI) simp_all
  qed
  moreover have "rule_ok ?w r2 rule2" if r2: "w_rules ?w r2 = Some rule2" for r2 rule2
  proof (cases "r2 = r")
    case True
    with r2 have "rule2 = rule" by simp
    with r ev t(2) True show ?thesis by (auto simp: rule_ok_def rule_links_def entries_ok_def)
  next
    case False
    with r2 have o: "w_rules w r2 = Some rule2" by simp
    from W(2) [OF o] obtain c2 ctx2 where c2: "r_context rule2 = Some c2" "w_contexts w c2 = Some ctx2"
      "rb_map (c_rules ctx2) (r_service rule2) = Some r2"
      "\<forall>ev. r_ev_listen rule2 = Some ev \<longrightarrow> te_context ev = Some c2 \<and> te_runner ev = c_runner ctx2"
      by (auto simp: rule_ok_def rule_links_def)
    let ?ctx2 = "if c2 = c then ?ctx else ctx2"
    have "w_contexts ?w c2 = Some ?ctx2" "rb_map (c_rules ?ctx2) (r_service rule2) = Some r2"
      using c2 c new by (auto simp: t(2))
    moreover have "c_runner ?ctx2 = c_runner ctx2" using c2(2) c by auto
    ultimately show ?thesis using W(2) [OF o] c2(1,4) by (simp add: rule_ok_def rule_links_def)
  qed
  moreover have "context_ok ?w c2 ctx2" if c2: "w_contexts ?w c2 = Some ctx2" for c2 ctx2
  proof (cases "c2 = c")
    case True
    have "\<forall>k r2. rb_map t k = Some r2 \<longrightarrow> (\<exists>rule2. w_rules ?w r2 = Some rule2 \<and>
        r_context rule2 = Some c \<and> r_service rule2 = k)"
    proof (intro allI impI)
      fix k r2
      assume k: "rb_map t k = Some r2"
      show "\<exists>rule2. w_rules ?w r2 = Some rule2 \<and> r_context rule2 = Some c \<and> r_service rule2 = k"
      proof (cases "k = r_service rule")
        case True
        with k r(2) show ?thesis by (simp add: t(2))
      next
        case False
        with k have "rb_map (c_rules ctx) k = Some r2" by (simp add: t(2))
        with W(3) [OF c] obtain rule2 where "w_rules w r2 = Some rule2" "r_context rule2 = Some c" "r_service rule2 = k"
          unfolding context_ok_def by blast
        with nr show ?thesis by auto
      qed
    qed
    moreover have "ctx2 = ?ctx" using True c2 by simp
    ultimately show ?thesis using True W(3) [OF c] t(1) by (simp add: context_ok_def del: fun_upd_apply)
  next
    case False
    with c2 have o: "w_contexts w c2 = Some ctx2" by simp
    from W(3) [OF o] nr show ?thesis by (fastforce simp: context_ok_def)
  qed
  moreover have "runner_ok ?w n run" if "w_runners w n = Some run" for n run
    using W(4) [OF that] c by (fastforce simp: runner_ok_def)
  moreover have "fresh_ok ?w" using W(6) r(1) c by (auto simp: fresh_ok_def)
  ultimately show ?thesis using W(5) by (simp add: world_ok_def messages_ok_def)
qed

text \<open>The three calls that open the listening socket, of which each may fail.\<close>

definition listen_fails :: "os \<Rightarrow> nat \<Rightarrow> sockaddr_in \<Rightarrow> bool" where
  "listen_fails os call sin \<longleftrightarrow>
     os_socket os call = - 1 \<or> os_bind os (Suc call) (os_socket os call) sin = - 1 \<or>
     os_listen os (Suc (Suc call)) (os_socket os call) = - 1"

definition listen_trace :: "os \<Rightarrow> nat \<Rightarrow> sockaddr_in \<Rightarrow> action list" where
  "listen_trace os call sin =
     (if os_socket os call \<noteq> - 1 \<and> listen_fails os call sin then [CloseSocket (os_socket os call)] else [])"

lemma open_listen_sock_exec:
  "\<exists>k. open_listen_sock os sin w =
    (if listen_fails os (w_calls w) sin then Inl () else Inr (os_socket os (w_calls w)),
     w\<lparr>w_calls := k, w_out := w_out w @ listen_trace os (w_calls w) sin\<rparr>)"
  by (rule exI [of _ "if os_socket os (w_calls w) = - 1 then Suc (w_calls w)
      else if os_bind os (Suc (w_calls w)) (os_socket os (w_calls w)) sin = - 1 then Suc (Suc (w_calls w))
      else Suc (Suc (Suc (w_calls w)))"])
    (simp add: open_listen_sock_def listen_fails_def listen_trace_def tick_def emit_def Let_def)

text \<open>The rule that is registered.\<close>

definition listen_event :: "addr \<Rightarrow> addr \<Rightarrow> addr \<Rightarrow> int \<Rightarrow> t2u_event" where
  "listen_event n c r sock = t2u_event_new
     \<lparr>te_runner := Some n, te_context := Some c, te_rule := Some r,
      te_event := Some (ev_read Cb_process_accept sock)\<rparr>"

definition listening :: "addr \<Rightarrow> addr \<Rightarrow> addr \<Rightarrow> t2u_rule \<Rightarrow> t2u_rule" where
  "listening n c r rule =
     (if r_mode rule = forward_client_mode
      then rule\<lparr>r_ev_listen := Some (listen_event n c r (r_listen_sock rule))\<rparr> else rule)"

lemma add_rule_cb_ok:
  assumes w: "world_ok w" and c: "w_contexts w c = Some ctx" "c_runner ctx = Some n"
    and new: "rb_map (c_rules ctx) service = None" and r: "r = w_fresh w"
    and rule: "rule = new_rule mode sock conn service c"
  shows "\<exists>w' t. add_rule_cb n r (w\<lparr>w_fresh := Suc r, w_rules := (w_rules w)(r \<mapsto> rule)\<rparr>) = Some w' \<and>
    world_ok w' \<and> rb_map t = (rb_map (c_rules ctx))(service \<mapsto> r) \<and>
    w' = w\<lparr>w_fresh := Suc r, w_rules := (w_rules w)(r \<mapsto> listening n c r rule),
      w_contexts := (w_contexts w)(c \<mapsto> ctx\<lparr>c_rules := t\<rparr>),
      w_out := w_out w @ (if mode = forward_client_mode then [EventAdd (ev_read Cb_process_accept sock) None] else [])\<rparr>"
proof -
  from world_okD(3) [OF w c(1)] c(2) obtain run where ok: "rb_ok (c_rules ctx)" and n: "w_runners w n = Some run"
    by (auto simp: context_ok_def)
  from rb.ins_new [OF ok new, of r] obtain t where
    t: "rbtree_insert True (c_rules ctx) service r = Some (0, t)" "rb_ok t"
      "rb_map t = (rb_map (c_rules ctx))(service \<mapsto> r)" by blast
  let ?w = "w\<lparr>w_fresh := Suc r, w_rules := (w_rules w)(r \<mapsto> listening n c r rule),
      w_contexts := (w_contexts w)(c \<mapsto> ctx\<lparr>c_rules := t\<rparr>)\<rparr>"
  have "world_ok ?w"
    by (rule world_ok_rule_add [OF w c(1) _ r _ _ _ _ _ _ t(2)])
      (auto simp: rule listening_def new_rule_def new t(3) c(2) rbtree_init_map listen_event_def t2u_event_new_def
        split: if_splits)
  moreover have "add_rule_cb n r (w\<lparr>w_fresh := Suc r, w_rules := (w_rules w)(r \<mapsto> rule)\<rparr>) =
    Some (?w\<lparr>w_out := w_out w @ (if mode = forward_client_mode then [EventAdd (ev_read Cb_process_accept sock) None] else [])\<rparr>)"
    using c n t(1) by (simp add: add_rule_cb_def rule listening_def new_rule_def world_defs listen_event_def t2u_event_new_def
        Let_def)
  ultimately show ?thesis using t(3) by (intro exI [of _ "?w\<lparr>w_out := w_out w @ (if mode = forward_client_mode
      then [EventAdd (ev_read Cb_process_accept sock) None] else [])\<rparr>"] exI [of _ t]) simp
qed

text \<open>The message on the new rule fits into the buffer of the macro.\<close>

definition create_logs :: "world \<Rightarrow> cstr \<Rightarrow> cstr option \<Rightarrow> bool" where
  "create_logs w service address \<longleftrightarrow>
     (get_log_func (w_callbacks w) \<noteq> NULL \<longrightarrow>
        length (cbytes service) + length (fmt_s (map_option cbytes address)) \<le> LOG_NAME_MAX)"

lemma log_create_rule_fits:
  assumes "create_logs w service address" "w_callbacks w' = w_callbacks w"
  shows "LOG_line os 1 ''src/t2u_rule.c'' 213 (log_create_rule r service address port) w' = Some w'"
proof (rule LOG_line_fits)
  have "unat port < 2 ^ 16" using unsigned_less [of port] by simp
  then show "get_log_func (w_callbacks w') \<noteq> NULL \<longrightarrow> length ''src/t2u_rule.c'' + length (fmt_u 213) + 24 +
      length (log_create_rule r service address port) \<le> 1023"
    using assms fmt_p_length [of r] fmt_u_length [of 213] fmt_u_length [of "unat port"]
    by (auto simp: log_create_rule_def fmt_s_def create_logs_def LOG_NAME_MAX_def)
qed

lemma add_rule_ok_spec:
  fixes os address port w
  defines "sin \<equiv> rule_address os address port"
  assumes w: "world_ok w" and c: "w_contexts w c = Some ctx" and new: "rb_map (c_rules ctx) service = None"
    and log: "create_logs w service address"
  shows "\<exists>p w'. add_forward_rule os c mode service address port w = Some (p, w') \<and> world_ok w' \<and>
    w_sessions w' = w_sessions w \<and> keeps_runners w w' \<and> w_handle_seq w' = w_handle_seq w \<and>
    (if mode = forward_client_mode \<and> listen_fails os (w_calls w) sin
     then p = NULL \<and> w_rules w' = w_rules w \<and> w_contexts w' = w_contexts w \<and>
       w_out w' = w_out w @ listen_trace os (w_calls w) sin
     else \<exists>rule t. p = Some (w_fresh w) \<and> w_rules w (w_fresh w) = None \<and>
       w_rules w' = (w_rules w)(w_fresh w \<mapsto> rule) \<and> r_mode rule = mode \<and> r_service rule = service \<and>
       r_context rule = Some c \<and> rb_map (r_sessions rule) = Map.empty \<and>
       rb_map (r_connecting_sessions rule) = Map.empty \<and>
       w_contexts w' = (w_contexts w)(c \<mapsto> ctx\<lparr>c_rules := t\<rparr>) \<and>
       rb_map t = (rb_map (c_rules ctx))(service \<mapsto> w_fresh w) \<and>
       (if mode = forward_client_mode
        then r_listen_sock rule = os_socket os (w_calls w) \<and>
          (\<exists>ev. r_ev_listen rule = Some ev \<and>
             te_event ev = Some (ev_read Cb_process_accept (os_socket os (w_calls w)))) \<and>
          w_out w' = w_out w @ [EventAdd (ev_read Cb_process_accept (os_socket os (w_calls w))) None]
        else r_conn_addr rule = sin \<and> w_out w' = w_out w))"
proof (cases "mode = forward_client_mode \<and> listen_fails os (w_calls w) sin")
  case True
  obtain k where "open_listen_sock os sin (w\<lparr>w_fresh := Suc (w_fresh w)\<rparr>) =
      (Inl (), w\<lparr>w_fresh := Suc (w_fresh w), w_calls := k, w_out := w_out w @ listen_trace os (w_calls w) sin\<rparr>)"
    using open_listen_sock_exec [of os sin "w\<lparr>w_fresh := Suc (w_fresh w)\<rparr>"] True by auto
  moreover have "world_ok (w\<lparr>w_fresh := Suc (w_fresh w)\<rparr>)" by (rule world_ok_grow [OF w]) simp
  ultimately show ?thesis using True
    by (simp add: add_forward_rule_def t2u_add_rule_def malloc_def sin_def Let_def keeps_runners_def)
next
  case False
  from world_okD(3) [OF w c] obtain n run where n: "c_runner ctx = Some n" "w_runners w n = Some run"
    by (auto simp: context_ok_def)
  let ?r = "w_fresh w"
  define sock where "sock = (if mode = forward_client_mode then os_socket os (w_calls w) else 0)"
  define conn where "conn = (if mode = forward_client_mode then \<lparr>sin_addr = 0, sin_port = 0\<rparr> else sin)"
  define rule where "rule = new_rule mode sock conn service c"
  obtain k where k: "(if mode = forward_client_mode then open_listen_sock os sin (w\<lparr>w_fresh := Suc ?r\<rparr>)
      else (Inr 0, w\<lparr>w_fresh := Suc ?r\<rparr>)) = (Inr sock, w\<lparr>w_fresh := Suc ?r, w_calls := k\<rparr>)"
  proof (cases "mode = forward_client_mode")
    case True
    with False open_listen_sock_exec [of os sin "w\<lparr>w_fresh := Suc ?r\<rparr>"] that show ?thesis
      by (auto simp: sock_def listen_trace_def)
  next
    case False
    with that [of "w_calls w"] show ?thesis by (simp add: sock_def)
  qed
  let ?w = "w\<lparr>w_calls := k\<rparr>"
  have "world_ok ?w" "w_contexts ?w c = Some ctx" "?r = w_fresh ?w" using w c by simp_all
  from add_rule_cb_ok [OF this(1,2) n(1) new this(3) rule_def] obtain w' t where
    e: "add_rule_cb n ?r (?w\<lparr>w_fresh := Suc ?r, w_rules := (w_rules ?w)(?r \<mapsto> rule)\<rparr>) = Some w'" "world_ok w'"
      "rb_map t = (rb_map (c_rules ctx))(service \<mapsto> ?r)" and
    w': "w' = ?w\<lparr>w_fresh := Suc ?r, w_rules := (w_rules ?w)(?r \<mapsto> listening n c ?r rule),
      w_contexts := (w_contexts ?w)(c \<mapsto> ctx\<lparr>c_rules := t\<rparr>),
      w_out := w_out ?w @ (if mode = forward_client_mode then [EventAdd (ev_read Cb_process_accept sock) None] else [])\<rparr>"
    by blast
  have eq: "w\<lparr>w_fresh := Suc ?r, w_calls := k, w_rules := (w_rules w)(?r \<mapsto> rule)\<rparr> =
      ?w\<lparr>w_fresh := Suc ?r, w_rules := (w_rules ?w)(?r \<mapsto> rule)\<rparr>" by (rule world.equality) simp_all
  have "add_rule_cb n ?r (w\<lparr>w_fresh := Suc ?r, w_calls := k, w_rules := (w_rules w)(?r \<mapsto> rule)\<rparr>) = Some w'"
    unfolding eq by (rule e(1))
  moreover have "LOG_line os 1 ''src/t2u_rule.c'' 213 (log_create_rule ?r service address port)
      (w\<lparr>w_fresh := Suc ?r, w_calls := k, w_rules := (w_rules w)(?r \<mapsto> rule)\<rparr>) =
      Some (w\<lparr>w_fresh := Suc ?r, w_calls := k, w_rules := (w_rules w)(?r \<mapsto> rule)\<rparr>)"
    by (rule log_create_rule_fits [OF log]) simp
  ultimately have "add_forward_rule os c mode service address port w = Some (Some ?r, w')"
    using k c n
    by (simp add: add_forward_rule_def t2u_add_rule_def malloc_def Let_def put_rule_def t2u_runner_control_def
        the_runner_def flip: sin_def rule_def conn_def)
  with e(2,3) False fresh_none(3) [OF w, of ?r] show ?thesis
    by (intro exI [of _ "Some ?r"] exI [of _ w'])
      (auto simp: w' listening_def rule_def new_rule_def rbtree_init_map sock_def conn_def keeps_runners_def
        listen_event_def intro!: exI [of _ t])
qed

section \<open>New sessions\<close>

text \<open>The handle that the next session of a rule gets is not in use among its connecting sessions.\<close>

definition handle_free :: "world \<Rightarrow> t2u_rule \<Rightarrow> u64 \<Rightarrow> bool" where
  "handle_free w rule handle \<longleftrightarrow>
     rb_map (r_connecting_sessions rule) (session_handle handle (next_handle_seq (w_handle_seq w))) = None"

lemma add_connecting_session_ok:
  assumes w: "world_ok w" and r: "w_rules w r = Some rule" and new: "handle_free w rule handle"
  shows "\<exists>s w'. t2u_add_connecting_session os r sock handle w = Some (s, w') \<and> world_ok w'"
proof (rule live_rule [OF w r])
  fix c ctx n run
  assume c: "r_context rule = Some c" "w_contexts w c = Some ctx" "c_runner ctx = Some n" "w_runners w n = Some run"
  show ?thesis
  proof (cases "r_mode rule")
    case forward_client_mode
    from add_connecting_session_client [OF w r this c new [unfolded handle_free_def]] show ?thesis by blast
  next
    case forward_server_mode
    from add_connecting_session_server [OF w r this c new [unfolded handle_free_def]] show ?thesis by blast
  qed
qed

text \<open>A rule with a listen event is a client's.\<close>

lemma listening_client:
  assumes "world_ok w" "w_rules w r = Some rule" "r_ev_listen rule = Some ev"
  shows "r_mode rule = forward_client_mode" "te_rule ev = Some r"
    "te_event ev = Some (ev_read Cb_process_accept (r_listen_sock rule))" "te_extra_event ev = None"
  using world_okD(2) [OF assms(1,2)] assms(3) by (auto simp: rule_ok_def rule_links_def)

lemma accept_ok_spec:
  fixes os w
  defines "sock \<equiv> os_accept os (w_calls w)" and "seq \<equiv> next_handle_seq (w_handle_seq w)"
  assumes w: "world_ok w" and r: "w_rules w r = Some rule" "r_ev_listen rule = Some ev"
    and c: "r_context rule = Some c" "w_contexts w c = Some ctx" and new: "handle_free w rule 0"
  shows "\<exists>w'. rule_process_accept_cb os r w = Some w' \<and> world_ok w' \<and>
    (if sock (r_listen_sock rule) < 0 then w' = w\<lparr>w_calls := Suc (w_calls w)\<rparr>
     else \<exists>sess. w_sessions w' = (w_sessions w)(w_fresh w \<mapsto> sess) \<and> w_sessions w (w_fresh w) = None \<and>
       s_rule sess = Some r \<and> s_sock sess = sock (r_listen_sock rule) \<and> s_status sess = 1 \<and>
       s_handle sess = ucast seq \<and>
       w_out w' = w_out w @ [EventAdd (evtimer Cb_connect_timeout) (Some (timeval_ms (c_utimeout ctx))),
         UdpSend (c_sock ctx) (md_bytes (new_mdata (os_arch os) connect_request (ucast seq) 0
           (cbytes (r_service rule) @ [0])))])"
proof -
  let ?w = "w\<lparr>w_calls := Suc (w_calls w)\<rparr>"
  note L = listening_client [OF w r]
  from world_okD(3) [OF w c(2)] obtain n run where n: "c_runner ctx = Some n" "w_runners w n = Some run"
    by (auto simp: context_ok_def)
  have W: "world_ok ?w" "w_rules ?w r = Some rule" "w_contexts ?w c = Some ctx" "w_runners ?w n = Some run"
    "rb_map (r_connecting_sessions rule) (session_handle 0 (next_handle_seq (w_handle_seq ?w))) = None"
    using w r c n new by (simp_all add: handle_free_def)
  let ?sock = "sock (r_listen_sock rule)"
  from add_connecting_session_client [OF W(1,2) L(1) c(1) W(3) n(1) W(4,5), of os ?sock] obtain w' sess where
    a: "t2u_add_connecting_session os r ?sock 0 ?w = Some (w_fresh w, w')" "world_ok w'"
      "w_sessions w' = (w_sessions w)(w_fresh w \<mapsto> sess)"
      "s_rule sess = Some r" "s_sock sess = ?sock" "s_handle sess = session_handle 0 seq" "s_status sess = 1"
      "w_out w' = w_out w @ [EventAdd (evtimer Cb_connect_timeout) (Some (timeval_ms (c_utimeout ctx))),
        connect_request_datagram os ctx rule (session_handle 0 seq)]"
    by (auto simp: seq_def)
  have "rule_process_accept_cb os r w =
      (if ?sock < 0 then Some ?w else Some w')"
    using r L a(1) by (simp add: rule_process_accept_cb_def tick_def sock_def Let_def)
  with a W(1) fresh_none(1) [OF w, of "w_fresh w"] show ?thesis
    by (auto simp: session_handle_def connect_request_datagram_def)
qed

section \<open>A connect request\<close>

text \<open>The old sessions that the handler finds are deleted; other sessions and the counter stay.\<close>

definition drop_connected :: "os \<Rightarrow> addr \<Rightarrow> u64 \<Rightarrow> world \<Rightarrow> world option" where
  "drop_connected os r handle w = do {
     rule \<leftarrow> w_rules w r;
     oldsession \<leftarrow> rbtree_lookup (r_sessions rule) handle;
     case oldsession of None \<Rightarrow> Some w | Some s \<Rightarrow> t2u_delete_connected_session os s 0 w }"

definition drop_connecting :: "addr \<Rightarrow> u64 \<Rightarrow> world \<Rightarrow> world option" where
  "drop_connecting r handle w = do {
     rule \<leftarrow> w_rules w r;
     oldsession \<leftarrow> rbtree_lookup (r_connecting_sessions rule) handle;
     case oldsession of None \<Rightarrow> Some w | Some s \<Rightarrow> t2u_delete_connecting_session s w }"

lemma drop_connected_ok:
  assumes w: "world_ok w" and r: "w_rules w r = Some rule"
  shows "\<exists>w' rule'. drop_connected os r h w = Some w' \<and> world_ok w' \<and> rule_frame r w w' \<and>
    w_rules w' r = Some rule' \<and> r_connecting_sessions rule' = r_connecting_sessions rule \<and>
    (rb_map (r_sessions rule) h = None \<longrightarrow> w' = w)"
proof -
  from world_okD(2) [OF w r] have ok: "rb_ok (r_sessions rule)" by (simp add: rule_ok_def)
  show ?thesis
  proof (cases "rb_map (r_sessions rule) h")
    case None
    then show ?thesis using r w rb.look [OF ok, of h] rule_frame_refl [OF r] by (simp add: drop_connected_def)
  next
    case (Some s)
    obtain sess c ctx n where s: "w_sessions w s = Some sess" "s_handle sess = h" "(s_status sess = 1) = False"
      "linked w sess r rule c ctx n"
      by (rule rule_entry [OF w r, of False h s]) (use Some in simp_all)
    have st: "s_status sess \<noteq> 1" using s(3) by simp
    from delete_connected_session_ok [OF w s(1) st s(4), of os 0] delete_connected_session_frame [OF w s(1) st s(4), of os 0]
    obtain w' t where "t2u_delete_connected_session os s 0 w = Some w'" "world_ok w'" "rule_frame r w w'"
      "w_rules w' = (w_rules w)(r \<mapsto> rule\<lparr>r_sessions := t\<rparr>)" by auto
    with Some r show ?thesis using rb.look [OF ok, of h] by (simp add: drop_connected_def)
  qed
qed

lemma drop_connecting_ok:
  assumes w: "world_ok w" and r: "w_rules w r = Some rule"
  shows "\<exists>w' rule'. drop_connecting r h w = Some w' \<and> world_ok w' \<and> rule_frame r w w' \<and>
    w_rules w' r = Some rule' \<and> rb_map (r_connecting_sessions rule') \<subseteq>\<^sub>m rb_map (r_connecting_sessions rule) \<and>
    (rb_map (r_connecting_sessions rule) h = None \<longrightarrow> w' = w)"
proof -
  from world_okD(2) [OF w r] have ok: "rb_ok (r_connecting_sessions rule)" by (simp add: rule_ok_def)
  show ?thesis
  proof (cases "rb_map (r_connecting_sessions rule) h")
    case None
    then show ?thesis using r w rb.look [OF ok, of h] rule_frame_refl [OF r] by (simp add: drop_connecting_def)
  next
    case (Some s)
    obtain sess c ctx n where s: "w_sessions w s = Some sess" "s_handle sess = h" "(s_status sess = 1) = True"
      "linked w sess r rule c ctx n"
      by (rule rule_entry [OF w r, of True h s]) (use Some in simp_all)
    have st: "s_status sess = 1" using s(3) by simp
    from delete_connecting_session_frame [OF w s(1) st s(4)] obtain w' rule' where
      "t2u_delete_connecting_session s w = Some w'" "world_ok w'" "rule_frame r w w'" "w_rules w' r = Some rule'"
      "rb_map (r_connecting_sessions rule') = (rb_map (r_connecting_sessions rule))(s_handle sess := None)" by blast
    with Some r show ?thesis using rb.look [OF ok, of h] by (auto simp: drop_connecting_def map_le_def)
  qed
qed

lemma connect_request_eq:
  "t2u_rule_handle_connect_request os r mdata w = do {
     w \<leftarrow> drop_connected os r (md_handle mdata) w;
     w \<leftarrow> drop_connecting r (md_handle mdata) w;
     let s = os_socket os (w_calls w);
     let w = tick w;
     if s = - 1 then Some w
     else do {
       (_, w) \<leftarrow> t2u_add_connecting_session os r s (md_handle mdata) w;
       Some w } }"
  by (simp add: t2u_rule_handle_connect_request_def drop_connected_def drop_connecting_def Let_def)

lemma connect_request_ok:
  assumes w: "world_ok w" and r: "w_rules w r = Some rule" and new: "handle_free w rule (md_handle mdata)"
  shows "\<exists>w'. t2u_rule_handle_connect_request os r mdata w = Some w' \<and> world_ok w'"
proof -
  let ?h = "md_handle mdata"
  obtain w1 rule1 where a: "drop_connected os r ?h w = Some w1" "world_ok w1" "rule_frame r w w1"
    "w_rules w1 r = Some rule1" "r_connecting_sessions rule1 = r_connecting_sessions rule"
    using drop_connected_ok [OF w r, of os ?h] by blast
  obtain w2 rule2 where b: "drop_connecting r ?h w1 = Some w2" "world_ok w2" "rule_frame r w1 w2"
    "w_rules w2 r = Some rule2" "rb_map (r_connecting_sessions rule2) \<subseteq>\<^sub>m rb_map (r_connecting_sessions rule1)"
    using drop_connecting_ok [OF a(2,4), of ?h] by blast
  let ?w = "w2\<lparr>w_calls := Suc (w_calls w2)\<rparr>"
  have "w_handle_seq w2 = w_handle_seq w" using a(3) b(3) by (simp add: rule_frame_def)
  with new a(5) b(5) have "handle_free ?w rule2 ?h" by (auto simp: handle_free_def map_le_def dom_def)
  from add_connecting_session_ok [OF _ _ this, of r os "os_socket os (w_calls w2)"] b(2,4) obtain s w' where
    "t2u_add_connecting_session os r (os_socket os (w_calls w2)) ?h ?w = Some (s, w')" "world_ok w'" by auto
  with a(1) b(1,2) show ?thesis by (simp add: connect_request_eq tick_def Let_def)
qed

text \<open>
  The usual case on a server: the handle of the client is not the handle of a session, and a connection
  is started.
\<close>

lemma connect_request_new_spec:
  fixes os w mdata
  defines "h \<equiv> session_handle (md_handle mdata) (next_handle_seq (w_handle_seq w))"
    and "sock \<equiv> os_socket os (w_calls w)"
  assumes w: "world_ok w" and r: "w_rules w r = Some rule" "r_mode rule = forward_server_mode"
    and c: "r_context rule = Some c" "w_contexts w c = Some ctx"
    and new: "rb_map (r_sessions rule) (md_handle mdata) = None"
      "rb_map (r_connecting_sessions rule) (md_handle mdata) = None" "handle_free w rule (md_handle mdata)"
  shows "\<exists>w'. t2u_rule_handle_connect_request os r mdata w = Some w' \<and> world_ok w' \<and>
    w_messages w' = w_messages w \<and>
    (if sock = - 1 then w' = w\<lparr>w_calls := Suc (w_calls w)\<rparr>
     else if connect_failed (os_connect os (Suc (w_calls w)) sock (r_conn_addr rule))
     then w_sessions w' = w_sessions w
     else \<exists>sess rule'. w_sessions w' = (w_sessions w)(w_fresh w \<mapsto> sess) \<and> w_sessions w (w_fresh w) = None \<and>
       s_rule sess = Some r \<and> s_sock sess = sock \<and> s_status sess = 1 \<and> s_handle sess = h \<and>
       w_rules w' = (w_rules w)(r \<mapsto> rule') \<and> r_sessions rule' = r_sessions rule \<and>
       rb_map (r_connecting_sessions rule') = (rb_map (r_connecting_sessions rule))(h \<mapsto> w_fresh w) \<and>
       w_out w' = w_out w @ [EventAdd (evtimer Cb_connect_timeout) (Some (timeval_ms (c_utimeout ctx))),
         EventAdd (ev_write Cb_connect_success sock) None])"
proof -
  let ?w = "w\<lparr>w_calls := Suc (w_calls w)\<rparr>" and ?h = "md_handle mdata"
  from world_okD(3) [OF w c(2)] obtain n run where n: "c_runner ctx = Some n" "w_runners w n = Some run"
    by (auto simp: context_ok_def)
  have d: "drop_connected os r ?h w = Some w" "drop_connecting r ?h w = Some w"
    using drop_connected_ok [OF w r(1), of os ?h] drop_connecting_ok [OF w r(1), of ?h] new(1,2) by auto
  have W: "world_ok ?w" "w_rules ?w r = Some rule" "w_contexts ?w c = Some ctx" "w_runners ?w n = Some run"
    "rb_map (r_connecting_sessions rule) (session_handle ?h (next_handle_seq (w_handle_seq ?w))) = None"
    using w r c n new by (simp_all add: handle_free_def)
  let ?failed = "connect_failed (os_connect os (Suc (w_calls w)) sock (r_conn_addr rule))"
  note A = add_connecting_session_server [OF W(1,2) r(2) c(1) W(3) n(1) W(4,5), of os sock]
  have e: "t2u_rule_handle_connect_request os r mdata w = (if sock = - 1 then Some ?w
      else do { (_, w) \<leftarrow> t2u_add_connecting_session os r sock ?h ?w; Some w })"
    by (simp add: connect_request_eq d tick_def Let_def sock_def)
  consider "sock = - 1" | "sock \<noteq> - 1" "?failed" | "sock \<noteq> - 1" "\<not> ?failed" by blast
  then show ?thesis
  proof cases
    case 1
    with e W(1) show ?thesis by simp
  next
    case 2
    with A obtain w' where "t2u_add_connecting_session os r sock ?h ?w = Some (w_fresh w, w')" "world_ok w'"
      "w_messages w' = w_messages w" "w_sessions w' = w_sessions w" by auto
    with 2 e show ?thesis by simp
  next
    case 3
    with A obtain w' t sess where "t2u_add_connecting_session os r sock ?h ?w = Some (w_fresh w, w')" "world_ok w'"
      "w_messages w' = w_messages w" "w_sessions w' = (w_sessions w)(w_fresh w \<mapsto> sess)"
      "s_rule sess = Some r" "s_sock sess = sock" "s_handle sess = h" "s_status sess = 1"
      "w_rules w' = (w_rules w)(r \<mapsto> rule\<lparr>r_connecting_sessions := t\<rparr>)"
      "rb_map t = (rb_map (r_connecting_sessions rule))(h \<mapsto> w_fresh w)"
      "w_out w' = w_out w @ connecting_trace forward_server_mode ctx sock"
      by (auto simp: h_def)
    with 3 e fresh_none(1) [OF w, of "w_fresh w"] show ?thesis
      by (intro exI [of _ w']) (simp add: connecting_trace_def,
        intro exI [of _ sess] exI [of _ "rule\<lparr>r_connecting_sessions := t\<rparr>"] conjI, simp_all)
  qed
qed

section \<open>Dispatch of a datagram\<close>

text \<open>The lookup of a service that is terminated within the buffer is that of the tree.\<close>

lemma lookup_service_loop_eq:
  assumes z: "0 \<in> set service" and l: "lookup_loop t (cstr_at service) current p = Some r"
  shows "lookup_service_loop service t current = Some (fst r)"
proof -
  let ?P = "\<lambda>t key current p r. key = cstr_at service \<longrightarrow> lookup_service_loop service t current = Some (fst r)"
  have "?P t (cstr_at service) current p r"
  proof (rule lookup_loop.raw_induct [of ?P, OF _ l], goal_cases)
    case (1 f t key current p r)
    show ?case
    proof
      assume k: "key = cstr_at service"
      show "lookup_service_loop service t current = Some (fst r)"
        using 1 z unfolding k
        by (subst lookup_service_loop.simps, cases r)
          (fastforce simp: bind_Some_iff strcmp_overreads_def Let_def split: if_splits)
    qed
  qed
  then show ?thesis by simp
qed

lemma lookup_service_eq:
  assumes "rb_ok t" "0 \<in> set service"
  shows "lookup_service t service = Some (rb_map t (cstr_at service))"
proof -
  from rb_ok_lookup [OF assms(1), of "cstr_at service"] obtain node p where
    l: "lookup_loop t (cstr_at service) (rb_root t) NULL = Some (node, p)" and
    r: "(if node = NULL then Some None else do { n \<leftarrow> deref t node; Some (Some (rb_data n)) }) =
      Some (rb_map t (cstr_at service))"
    by (auto simp: rbtree_lookup_def do_lookup_def bind_Some_iff)
  from lookup_service_loop_eq [OF assms(2) l] r show ?thesis by (simp add: lookup_service_def)
qed

text \<open>
  The message on an unknown service is 70 bytes long without its name, so that it overruns the buffer
  when the name has more than 953 bytes.
\<close>

definition UNKNOWN_NAME_MAX :: nat where "UNKNOWN_NAME_MAX = 953"

definition unknown_logs :: "world \<Rightarrow> byte list \<Rightarrow> bool" where
  "unknown_logs w service \<longleftrightarrow>
     (get_log_func (w_callbacks w) \<noteq> NULL \<longrightarrow> length (cbytes (cstr_at service)) \<le> UNKNOWN_NAME_MAX)"

lemma log_unknown_service_exec:
  assumes "0 \<in> set service"
  shows "log_unknown_service os service w = (if unknown_logs w service then Some w else None)"
proof -
  let ?prefix = "log_prefix (os_localtime os (w_calls w)) (ascii ''src/t2u_context.c'') 69"
  let ?fmt = "ascii ''no rule match the service: '' @ fmt_s (Some (cbytes (cstr_at service)))"
  have "length ?prefix + length ?fmt = 70 + length (cbytes (cstr_at service))"
    by (simp add: log_prefix_length fmt_u_def digits.simps fmt_s_def)
  with assms log_gnuc_exec [of "w_callbacks w" _ ?prefix 2 ?fmt] show ?thesis
    by (auto simp: log_unknown_service_def LOG_line_def unknown_logs_def UNKNOWN_NAME_MAX_def)
qed

text \<open>
  Every handler runs to its end on a datagram for which this holds. The conditions exclude a service
  that is not terminated within the receive buffer or too long for the log message, a handle that is in use, a connect response for a server's session, and the runs that leave the program in an
  undefined state: the next packet for a session that is closing, and a partial response whose
  \<open>memcpy\<close> is undefined or that acknowledges more than was sent.
\<close>

definition response_ok :: "t2u_message_data \<Rightarrow> t2u_message \<Rightarrow> bool" where
  "response_ok mdata msg \<longleftrightarrow>
     (let v = response_value mdata in
      v \<le> 0 \<or> v = valid_length msg \<or>
      4 \<le> v \<and> v < valid_length msg \<and>
        (case m_data msg of None \<Rightarrow> False | Some data \<Rightarrow> v + 4 \<le> int (length (md_payload data))))"

definition datagram_ok :: "world \<Rightarrow> addr \<Rightarrow> t2u_context \<Rightarrow> t2u_message_data \<Rightarrow> bool" where
  "datagram_ok w c ctx mdata \<longleftrightarrow>
     (case oper_of (md_oper mdata) of
        Some connect_request \<Rightarrow>
          0 \<in> set (md_payload mdata) \<and>
          (rb_map (c_rules ctx) (cstr_at (md_payload mdata)) = None \<longrightarrow> unknown_logs w (md_payload mdata)) \<and>
          (\<forall>r rule. rb_map (c_rules ctx) (cstr_at (md_payload mdata)) = Some r \<longrightarrow> w_rules w r = Some rule \<longrightarrow>
             handle_free w rule (md_handle mdata))
      | Some connect_response \<Rightarrow>
          (\<forall>s sess rule. has_session w c (low32 (md_handle mdata)) False s \<longrightarrow>
             w_sessions w s = Some sess \<longrightarrow> the_rule w (s_rule sess) = Some rule \<longrightarrow>
             r_mode rule = forward_client_mode \<and>
             (get_u32 (md_payload mdata) = 0 \<longrightarrow> rb_map (r_sessions rule) (md_handle mdata) = None))
      | Some data_request \<Rightarrow>
          (\<forall>s sess. has_session w c (md_handle mdata) True s \<longrightarrow>
             w_sessions w s = Some sess \<longrightarrow> s_status sess = 3 \<longrightarrow> md_seq mdata \<noteq> s_recv_seq sess + 1)
      | Some data_response \<Rightarrow>
          (\<forall>s sess m msg. has_session w c (md_handle mdata) True s \<longrightarrow>
             w_sessions w s = Some sess \<longrightarrow> send_map sess (md_seq mdata) = Some m \<longrightarrow>
             w_messages w m = Some msg \<longrightarrow> response_ok mdata msg)
      | _ \<Rightarrow> True)"

lemma queued_message:
  assumes w: "world_ok w" and s: "w_sessions w s = Some sess" and k: "send_map sess k = Some m"
  obtains c msg data where "w_messages w m = Some msg" "m_session msg = Some s" "m_data msg = Some data"
    "send_msg_ok c s k m msg"
proof (rule session_okE [OF world_okD(1) [OF w s]])
  fix r rule c ctx n
  assume "queues_ok (r, c, n) (w_messages w) s sess"
  from send_queue_okD(3) [OF queues_okD(1) [OF this] k] obtain msg where
    msg: "w_messages w m = Some msg" "send_msg_ok (r, c, n) s k m msg" by blast
  from msg(2) obtain data where "m_session msg = Some s" "m_data msg = Some data" by (rule send_msg_okE)
  with that msg show thesis by blast
qed

lemma linked_has_session:
  assumes "w_sessions w s = Some sess" "s_handle sess = h" "(s_status sess = 1) = (\<not> connected)"
    "linked w sess r rule c ctx n"
  shows "has_session w c h connected s"
  using assms by (auto simp: has_session_def linked_def)

lemma data_request_ok:
  assumes w: "world_ok w" and s: "w_sessions w s = Some sess" "s_status sess \<noteq> 1"
    and l: "linked w sess r rule c ctx n" and len: "packet_len_ok mdata mdata_len"
    and open_: "s_status sess = 3 \<Longrightarrow> md_seq mdata \<noteq> s_recv_seq sess + 1"
  shows "\<exists>w'. t2u_session_handle_data_request os s mdata mdata_len w = Some w' \<and> world_ok w'"
proof -
  let ?d = "md_seq mdata - s_recv_seq sess"
  have st: "s_status sess \<in> {2, 3}" using world_okD(1) [OF w s(1)] s(2) by (auto simp: session_ok_def)
  consider "?d = 0 \<or> unat ?d > c_udp_slide_window ctx" | "?d = 1" | "1 < ?d" "unat ?d \<le> c_udp_slide_window ctx"
    unfolding word_unat_eq_iff word_less_nat_alt by (simp, linarith)
  then show ?thesis
  proof cases
    case 1
    then have "md_seq mdata = s_recv_seq sess \<or> unat ?d > c_udp_slide_window ctx" by auto
    from data_request_answered_only [OF w s(1) l this] show ?thesis by blast
  next
    case 2
    then have e: "md_seq mdata = s_recv_seq sess + 1" by (simp add: algebra_simps)
    with open_ st have "s_status sess = 2" by auto
    from data_request_next_spec [OF w s(1) this l len e] show ?thesis by blast
  next
    case 3
    from data_request_early_spec [OF w s l len 3] show ?thesis by blast
  qed
qed

lemma connect_response_ok:
  assumes w: "world_ok w" and s: "w_sessions w s = Some sess" "s_status sess = 1"
    and l: "linked w sess r rule c ctx n" and p: "4 \<le> length (md_payload mdata)"
    and new: "get_u32 (md_payload mdata) = 0 \<Longrightarrow> rb_map (r_sessions rule) (md_handle mdata) = None"
  shows "\<exists>w'. t2u_session_handle_connect_response os s mdata w = Some w' \<and> world_ok w'"
proof (cases "get_u32 (md_payload mdata) = 0")
  case True
  from connect_response_established_spec [OF w s l new [OF True] p True] show ?thesis by blast
next
  case False
  from connect_response_refused [OF w s l p False] show ?thesis by blast
qed

lemma data_response_ok:
  assumes w: "world_ok w" and s: "w_sessions w s = Some sess" and k: "send_map sess k = Some m"
    and msg: "w_messages w m = Some msg" and p: "4 \<le> length (md_payload mdata)" and ok: "response_ok mdata msg"
  shows "\<exists>w'. t2u_message_handle_data_response os m mdata w = Some w' \<and> world_ok w'"
proof (rule queued_message [OF w s k])
  fix c msg2 data
  assume "w_messages w m = Some msg2" "m_session msg2 = Some s" "m_data msg2 = Some data" "send_msg_ok c s k m msg2"
  with msg have m: "m_session msg = Some s" "m_data msg = Some data" by simp_all
  let ?v = "response_value mdata"
  consider "?v = valid_length msg" | "?v < 0" | "?v = 0" "valid_length msg \<noteq> 0"
    | "4 \<le> ?v" "?v < valid_length msg" "?v + 4 \<le> int (length (md_payload data))"
    using ok m(2) unfolding response_ok_def Let_def by fastforce
  then show ?thesis
  proof cases
    case 1
    from data_response_success_spec [OF w msg m(1) s p 1] show ?thesis by blast
  next
    case 2
    obtain r rule c ctx n where "linked w sess r rule c ctx n" by (rule session_okE [OF world_okD(1) [OF w s]])
    from data_response_error_spec [OF w msg m(1) s this p 2] show ?thesis by blast
  next
    case 3
    from data_response_blocked [OF w msg m(1) p 3] w show ?thesis by blast
  next
    case 4
    have "4 \<le> nat ?v \<and> nat ?v + 4 \<le> length (md_payload data)" using 4 by linarith
    then obtain payload where "shift_payload (nat ?v) (md_payload data) = Some payload"
      by (auto simp: shift_payload_def)
    with data_response_partial_spec [OF w msg m(1) s m(2) p _ 4(2)] 4(1) show ?thesis by fastforce
  qed
qed

lemma retrans_ok:
  assumes w: "world_ok w" and s: "w_sessions w s = Some sess" and k: "send_map sess k = Some m"
  shows "\<exists>w'. t2u_message_handle_retrans_request os m mdata w = Some w' \<and> world_ok w'"
proof (rule queued_message [OF w s k])
  fix c msg data
  assume m: "w_messages w m = Some msg" "m_session msg = Some s" "m_data msg = Some data"
  obtain r rule c ctx n where "linked w sess r rule c ctx n" by (rule session_okE [OF world_okD(1) [OF w s]])
  from retrans_request_ok [OF w m(1,2) s this m(3)] show ?thesis by blast
qed

lemma dispatch_ok:
  assumes w: "world_ok w" and c: "w_contexts w c = Some ctx" and ok: "datagram_ok w c ctx mdata"
    and len: "packet_len_ok mdata len" "4 \<le> length (md_payload mdata)"
  shows "\<exists>w'. dispatch_message os ctx mdata len w = Some w' \<and> world_ok w'"
proof (cases "oper_of (md_oper mdata)")
  case None
  then show ?thesis using w by (simp add: dispatch_message_def)
next
  case (Some op)
  note D = dispatch_message_def Some datagram_ok_def
  show ?thesis
  proof (cases op)
    case connect_request
    from world_okD(3) [OF w c] have rb: "rb_ok (c_rules ctx)" by (simp add: context_ok_def)
    have z: "0 \<in> set (md_payload mdata)" using ok connect_request Some by (simp add: datagram_ok_def)
    note look = lookup_service_eq [OF rb z]
    show ?thesis
    proof (cases "rb_map (c_rules ctx) (cstr_at (md_payload mdata))")
      case None
      with ok connect_request Some have "unknown_logs w (md_payload mdata)" by (simp add: datagram_ok_def)
      with None show ?thesis using w connect_request look log_unknown_service_exec [OF z] by (simp add: D)
    next
      case (Some r)
      with world_okD(3) [OF w c] obtain rule where r: "w_rules w r = Some rule" by (auto simp: context_ok_def)
      with ok Some connect_request have "handle_free w rule (md_handle mdata)" by (simp add: D)
      from connect_request_ok [OF w r this] show ?thesis
        using connect_request Some look by (simp add: D)
    qed
  next
    case connect_response
    show ?thesis
    proof (cases rule: find_sessionE [OF w c, of "low32 (md_handle mdata)" False])
      case 1
      then show ?thesis using w connect_response by (simp add: D)
    next
      case (2 s sess r rule n)
      from linkedD(7) [OF 2(5)] ok 2(2) linked_has_session [OF 2(2-5)] connect_response have
        "get_u32 (md_payload mdata) = 0 \<Longrightarrow> rb_map (r_sessions rule) (md_handle mdata) = None" by (simp add: D)
      from connect_response_ok [OF w 2(2) _ 2(5) len(2) this] 2(1,4) connect_response show ?thesis
        by (simp add: D)
    qed
  next
    case data_request
    show ?thesis
    proof (cases rule: find_sessionE [OF w c, of "md_handle mdata" True])
      case 1
      then show ?thesis using w data_request by (simp add: D)
    next
      case (2 s sess r rule n)
      with ok linked_has_session [OF 2(2-5)] data_request have "s_status sess = 3 \<Longrightarrow> md_seq mdata \<noteq> s_recv_seq sess + 1" by (simp add: D)
      from data_request_ok [OF w 2(2) _ 2(5) len(1) this] 2(1,4) data_request show ?thesis by (simp add: D)
    qed
  next
    case data_response
    show ?thesis
    proof (cases rule: find_sessionE [OF w c, of "md_handle mdata" True])
      case 1
      then show ?thesis using w data_response by (simp add: D)
    next
      case (2 s sess r rule n)
      from world_okD(1) [OF w 2(2)] have rb: "rb_ok (s_send_mess sess)"
        by (auto simp: session_ok_def queues_ok_def send_queue_ok_def)
      show ?thesis
      proof (cases "send_map sess (md_seq mdata)")
        case None
        then show ?thesis using w data_response 2(1,2) rb.look [OF rb] by (simp add: D)
      next
        case (Some m)
        obtain k msg data where msg: "w_messages w m = Some msg"
          by (rule queued_message [OF w 2(2) Some])
        with ok data_response 2(2) linked_has_session [OF 2(2-5)] Some have "response_ok mdata msg" by (simp add: D)
        from data_response_ok [OF w 2(2) Some msg len(2) this] show ?thesis
          using data_response 2(1,2) Some rb.look [OF rb] by (simp add: D)
      qed
    qed
  next
    case retrans_request
    show ?thesis
    proof (cases rule: find_sessionE [OF w c, of "md_handle mdata" True])
      case 1
      then show ?thesis using w retrans_request by (simp add: D)
    next
      case (2 s sess r rule n)
      from world_okD(1) [OF w 2(2)] have rb: "rb_ok (s_send_mess sess)"
        by (auto simp: session_ok_def queues_ok_def send_queue_ok_def)
      show ?thesis
        using retrans_request 2(1,2) w retrans_ok [OF w 2(2), of "md_seq mdata" _ os mdata] rb.look [OF rb]
        by (cases "send_map sess (md_seq mdata)") (auto simp: D)
    qed
  next
    case close_request
    show ?thesis
    proof (cases rule: find_sessionE [OF w c, of "md_handle mdata" True])
      case 1
      then show ?thesis using w close_request by (simp add: D)
    next
      case (2 s sess r rule n)
      from delete_connected_session_ok [OF w 2(2) _ 2(5), of os 1] 2(1,4) close_request show ?thesis
        by (auto simp: D)
    qed
  next
    case close_response
    then show ?thesis using w by (simp add: D)
  qed
qed

text \<open>The datagram that the next \<open>recv\<close> on the socket brings, after the conversion of its header.\<close>

definition received :: "os \<Rightarrow> int \<Rightarrow> world \<Rightarrow> int \<times> t2u_message_data" where
  "received os sock w =
     (case os_recv os (w_calls w) sock T2U_MESS_BUFFER_MAX of (n, _, bytes) \<Rightarrow>
        (n, ntoh_header (os_arch os) (md_of_bytes (recv_buffer os (w_calls w) T2U_MESS_BUFFER_MAX bytes))))"

lemma received_len:
  assumes "os_ok os" "received os sock w = (n, mdata)"
  shows "n \<le> int T2U_MESS_BUFFER_MAX" "length (md_payload mdata) = T2U_PAYLOAD_MAX"
    "valid_header n mdata \<Longrightarrow> packet_len_ok mdata (nat n)"
proof -
  obtain err bytes where e: "os_recv os (w_calls w) sock T2U_MESS_BUFFER_MAX = (n, err, bytes)" and
    m: "mdata = ntoh_header (os_arch os) (md_of_bytes (recv_buffer os (w_calls w) T2U_MESS_BUFFER_MAX bytes))"
    using assms(2) by (auto simp: received_def split: prod.splits)
  from assms(1) have "\<forall>call sock cap. case os_recv os call sock cap of (n, err, bytes) \<Rightarrow>
      n \<le> int cap \<and> int (length bytes) = max 0 n" by (simp add: os_ok_def)
  from this [rule_format, of T2U_MESS_BUFFER_MAX "w_calls w" sock]
  show n: "n \<le> int T2U_MESS_BUFFER_MAX" by (simp add: e)
  show l: "length (md_payload mdata) = T2U_PAYLOAD_MAX"
    using recv_buffer_ok(1) [OF assms(1) e]
    by (simp add: m ntoh_header_def md_of_bytes_def T2U_MESS_BUFFER_MAX_def sizeof_md_def)
  show "packet_len_ok mdata (nat n)" if "valid_header n mdata"
    using n l that by (auto simp: packet_len_ok_def valid_header_def T2U_MESS_BUFFER_MAX_def nat_le_iff)
qed

lemma process_udp_exec:
  assumes "world_ok w" "w_contexts w c = Some ctx" "received os sock w = (n, mdata)"
  shows "process_udp_cb os sock c w =
    (let w = w\<lparr>w_calls := Suc (w_calls w)\<rparr> in
     if n \<le> 0 then Some w
     else if valid_header n mdata then dispatch_message os ctx mdata (nat n) w
     else Some (w\<lparr>w_out := w_out w @
       (if w_unknown_cb w then [UnknownCallback c (take (nat n) (md_bytes mdata))] else [])\<rparr>))"
proof -
  from world_okD(3) [OF assms(1,2)] obtain ev where "c_ev_udp ctx = Some ev" "te_context ev = Some c"
    by (auto simp: context_ok_def)
  with assms(2,3) show ?thesis
    by (auto simp: process_udp_cb_def received_def tick_def emit_def Let_def split: prod.splits)
qed

lemma process_udp_ok_spec:
  assumes w: "world_ok w" "os_ok os" and c: "w_contexts w c = Some ctx"
    and recv: "received os sock w = (n, mdata)" and ok: "valid_header n mdata \<Longrightarrow> datagram_ok w c ctx mdata"
  shows "\<exists>w'. process_udp_cb os sock c w = Some w' \<and> world_ok w' \<and>
    (if n \<le> 0 then w' = w\<lparr>w_calls := Suc (w_calls w)\<rparr>
     else if valid_header n mdata
     then dispatch_message os ctx mdata (nat n) (w\<lparr>w_calls := Suc (w_calls w)\<rparr>) = Some w'
     else w' = w\<lparr>w_calls := Suc (w_calls w), w_out := w_out w @
       (if w_unknown_cb w then [UnknownCallback c (take (nat n) (md_bytes mdata))] else [])\<rparr>)"
proof -
  let ?w = "w\<lparr>w_calls := Suc (w_calls w)\<rparr>"
  note e = process_udp_exec [OF w(1) c recv, unfolded Let_def]
  consider "n \<le> 0" | "0 < n" "\<not> valid_header n mdata" | "0 < n" "valid_header n mdata" by linarith
  then show ?thesis
  proof cases
    case 3
    note len = received_len [OF w(2) recv]
    have "has_session ?w = has_session w" by (simp add: has_session_def fun_eq_iff)
    then have "datagram_ok ?w c ctx mdata"
      using ok [OF 3(2)] by (simp add: datagram_ok_def handle_free_def the_rule_def unknown_logs_def cong: option.case_cong
          t2u_mess_oper.case_cong)
    from dispatch_ok [OF _ _ this len(3) [OF 3(2)], of os] w(1) c len(2) 3 show ?thesis
      unfolding e by (auto simp: T2U_PAYLOAD_MAX_def)
  qed (use w(1) in \<open>simp_all add: e\<close>)
qed

section \<open>The events of a program, one by one\<close>

end
