(* ===== verification/T2u_Run.thy ===== *)
theory T2u_Run
  imports T2u_Dispatch T2u_Setup
begin

text \<open>
  The program as a whole: the calls of its interface and the events that libevent delivers, as
  inputs of one state machine. The invariant holds in every reachable state, and no handler runs
  into undefined behaviour there on an input that meets the stated conditions.
\<close>

section \<open>Inputs\<close>

datatype t2u_input =
    Create_forward int
  | Free_forward addr
  | Set_option addr int nat
  | Set_log ptr
  | Set_error ptr
  | Set_unknown ptr
  | Add_rule addr forward_mode cstr "cstr option" u16
  | Del_rule addr
  | Forward_send int "byte list" nat
  | Debug_dump
  | Fire callback addr

text \<open>
  The event structure that a callback gets as its argument: it belongs to a session, a message, a
  rule or a context. The control event of the runner is the subject of the theory of control requests.
\<close>

definition owner_event :: "world \<Rightarrow> callback \<Rightarrow> addr \<Rightarrow> t2u_event option" where
  "owner_event w cb a =
     (case cb of
        Cb_request_timeout \<Rightarrow> Option.bind (w_messages w a) m_ev_timeout
      | Cb_process_accept \<Rightarrow> Option.bind (w_rules w a) r_ev_listen
      | Cb_process_udp \<Rightarrow> Option.bind (w_contexts w a) c_ev_udp
      | Cb_runner_control \<Rightarrow> None
      | _ \<Rightarrow> Option.bind (w_sessions w a) s_ev)"

definition event_for :: "callback \<Rightarrow> event option \<Rightarrow> event option" where
  "event_for cb ev = (case ev of None \<Rightarrow> None | Some e \<Rightarrow> if ev_cb e = cb then Some e else None)"

definition pending :: "world \<Rightarrow> callback \<Rightarrow> addr \<Rightarrow> event option" where
  "pending w cb a = do {
     te \<leftarrow> owner_event w cb a;
     case event_for cb (te_event te) of
       Some e \<Rightarrow> Some e
     | None \<Rightarrow> event_for cb (te_extra_event te) }"

definition fire :: "os \<Rightarrow> callback \<Rightarrow> addr \<Rightarrow> world \<Rightarrow> world option" where
  "fire os cb a w = do {
     e \<leftarrow> pending w cb a;
     case cb of
       Cb_request_timeout \<Rightarrow> process_request_timeout_cb os a w
     | Cb_connect_timeout \<Rightarrow> session_connect_timeout_cb os a w
     | Cb_connect_success \<Rightarrow> session_connect_success_cb os (ev_sock e) a w
     | Cb_timeout_check \<Rightarrow> session_timeout_check_cb os a w
     | Cb_process_tcp \<Rightarrow> t2u_session_process_tcp os (ev_sock e) a w
     | Cb_process_accept \<Rightarrow> rule_process_accept_cb os a w
     | Cb_process_udp \<Rightarrow> process_udp_cb os (ev_sock e) a w
     | Cb_runner_control \<Rightarrow> Some w }"

fun t2u_exec :: "os \<Rightarrow> t2u_input \<Rightarrow> world \<Rightarrow> world option" where
  "t2u_exec os (Create_forward s) w = map_option snd (create_forward os s w)"
| "t2u_exec os (Free_forward c) w = free_forward os c w"
| "t2u_exec os (Set_option c opt v) w = set_context_option c opt v w"
| "t2u_exec os (Set_log cb) w = Some (w\<lparr>w_callbacks := set_log_callback cb (w_callbacks w)\<rparr>)"
| "t2u_exec os (Set_error cb) w = Some (w\<lparr>w_callbacks := set_error_callback cb (w_callbacks w)\<rparr>)"
| "t2u_exec os (Set_unknown cb) w = Some (w\<lparr>w_callbacks := set_unknown_callback cb (w_callbacks w)\<rparr>)"
| "t2u_exec os (Add_rule c mode service address port) w =
     map_option snd (add_forward_rule os c mode service address port w)"
| "t2u_exec os (Del_rule r) w = del_forward_rule os r w"
| "t2u_exec os (Forward_send s buffer len) w = (let _ = forward_send s buffer len in Some w)"
| "t2u_exec os Debug_dump w = do { _ \<leftarrow> debug_dump w; Some w }"
| "t2u_exec os (Fire cb a) w = fire os cb a w"

section \<open>Conditions on the inputs\<close>

text \<open>
  A caller passes live handles and does not register a service twice; a handle or a sequence number
  that is about to be used is not in use (both are counters of 32 bits that wrap around); a datagram
  meets \<open>datagram_ok\<close>; the first context finds a control port; and as long as a log callback is set,
  the names of the rules are short enough for the log messages that contain them.
\<close>

definition event_ok :: "os \<Rightarrow> world \<Rightarrow> callback \<Rightarrow> addr \<Rightarrow> event \<Rightarrow> bool" where
  "event_ok os w cb a e \<longleftrightarrow>
     (case cb of
        Cb_process_tcp \<Rightarrow> (\<forall>sess. w_sessions w a = Some sess \<longrightarrow> send_map sess (s_send_seq sess + 1) = None)
      | Cb_process_accept \<Rightarrow> (\<forall>rule. w_rules w a = Some rule \<longrightarrow> handle_free w rule 0)
      | Cb_connect_success \<Rightarrow>
          (\<forall>sess rule. w_sessions w a = Some sess \<longrightarrow> the_rule w (s_rule sess) = Some rule \<longrightarrow>
             rb_map (r_sessions rule) (s_handle sess) = None)
      | Cb_process_udp \<Rightarrow>
          (\<forall>ctx n mdata. w_contexts w a = Some ctx \<longrightarrow> received os (ev_sock e) w = (n, mdata) \<longrightarrow>
             valid_header n mdata \<longrightarrow> datagram_ok w a ctx mdata)
      | _ \<Rightarrow> True)"

fun input_ok :: "os \<Rightarrow> world \<Rightarrow> t2u_input \<Rightarrow> bool" where
  "input_ok os w (Create_forward s) \<longleftrightarrow>
     (w_g_runner w = None \<longrightarrow> runner_available os (w_calls w))"
| "input_ok os w (Free_forward c) \<longleftrightarrow> w_contexts w c \<noteq> None"
| "input_ok os w (Set_option c opt v) \<longleftrightarrow> w_contexts w c \<noteq> None"
| "input_ok os w (Set_log cb) \<longleftrightarrow>
     (cb \<noteq> NULL \<longrightarrow> (\<forall>r rule. w_rules w r = Some rule \<longrightarrow> length (cbytes (r_service rule)) \<le> LOG_NAME_MAX))"
| "input_ok os w (Set_error cb) \<longleftrightarrow> True"
| "input_ok os w (Set_unknown cb) \<longleftrightarrow> True"
| "input_ok os w (Add_rule c mode service address port) \<longleftrightarrow>
     (\<exists>ctx. w_contexts w c = Some ctx \<and> rb_map (c_rules ctx) service = None) \<and> create_logs w service address"
| "input_ok os w (Del_rule r) \<longleftrightarrow> w_rules w r \<noteq> None"
| "input_ok os w (Forward_send s buffer len) \<longleftrightarrow> True"
| "input_ok os w Debug_dump \<longleftrightarrow> True"
| "input_ok os w (Fire cb a) \<longleftrightarrow> (\<exists>e. pending w cb a = Some e \<and> event_ok os w cb a e)"

section \<open>Runs\<close>

definition t2u_init :: world where
  "t2u_init =
     \<lparr>w_sessions = Map.empty, w_messages = Map.empty, w_rules = Map.empty, w_contexts = Map.empty,
      w_runners = Map.empty, w_fresh = 0, w_handle_seq = 0, w_g_runner = NULL, w_callbacks = no_callbacks,
      w_calls = 0, w_out = []\<rparr>"

inductive t2u_step :: "os \<Rightarrow> world \<Rightarrow> world \<Rightarrow> bool" for os where
  input: "input_ok os w i \<Longrightarrow> t2u_exec os i w = Some w' \<Longrightarrow> t2u_step os w w'"

inductive_cases t2u_stepE: "t2u_step os w w'"

section \<open>The invariant\<close>

text \<open>There is at most one runner, the shared one, and it is running.\<close>

definition shared_ok :: "world \<Rightarrow> bool" where
  "shared_ok w \<longleftrightarrow>
     (case w_g_runner w of
        None \<Rightarrow> w_runners w = Map.empty
      | Some n \<Rightarrow> \<exists>run. w_runners w = [n \<mapsto> run] \<and> n_running run \<noteq> 0)"

definition state_ok :: "world \<Rightarrow> bool" where
  "state_ok w \<longleftrightarrow> world_ok w \<and> shared_ok w \<and> log_ok w"

lemma state_ok_init: "state_ok t2u_init"
  by (simp add: state_ok_def shared_ok_def t2u_init_def world_ok_def messages_ok_def fresh_ok_def log_ok_def)

lemma shared_ok_keeps: "shared_ok w \<Longrightarrow> keeps_runners w w' \<Longrightarrow> shared_ok w'"
  by (simp add: shared_ok_def keeps_runners_def cong: option.case_cong)

lemma shared_runner:
  assumes "state_ok w" "w_contexts w c = Some ctx"
  obtains n run tree where "w_g_runner w = Some n" "c_runner ctx = Some n" "w_runners w = [n \<mapsto> run]"
    "n_running run \<noteq> 0" "n_contexts run = Some tree" "rb_map tree c = Some c"
proof -
  from assms have "context_ok w c ctx" by (auto simp: state_ok_def world_ok_def)
  then obtain n run tree where n: "c_runner ctx = Some n" "w_runners w n = Some run" "n_contexts run = Some tree"
    "rb_map tree c = Some c" by (auto simp: context_ok_def)
  with assms(1) that show thesis by (auto simp: state_ok_def shared_ok_def split: option.splits if_splits)
qed

text \<open>The pending event of a callback says in which state its owner is.\<close>

lemma event_for_Some: "event_for cb ev = Some e \<longleftrightarrow> ev = Some e \<and> ev_cb e = cb"
  by (auto simp: event_for_def split: option.splits)

lemma pendingE:
  assumes "pending w cb a = Some e"
  obtains te where "owner_event w cb a = Some te" "te_event te = Some e \<or> te_extra_event te = Some e" "ev_cb e = cb"
  using assms by (auto simp: pending_def bind_Some_iff event_for_Some split: option.splits)

lemma pending_session:
  assumes w: "world_ok w" and p: "pending w cb s = Some e"
    and cb: "cb \<in> {Cb_connect_timeout, Cb_connect_success, Cb_timeout_check, Cb_process_tcp}"
  obtains sess r rule c ctx n where "w_sessions w s = Some sess" "linked w sess r rule c ctx n"
    "(s_status sess = 1) = (cb \<in> {Cb_connect_timeout, Cb_connect_success})"
    "cb = Cb_connect_success \<Longrightarrow> r_mode rule = forward_server_mode"
    "cb = Cb_process_tcp \<Longrightarrow> \<exists>ev. s_ev sess = Some ev \<and> te_event ev = Some e"
proof (rule pendingE [OF p])
  fix te
  assume te: "owner_event w cb s = Some te" "te_event te = Some e \<or> te_extra_event te = Some e" "ev_cb e = cb"
  then obtain sess where s: "w_sessions w s = Some sess" "s_ev sess = Some te"
    using cb by (auto simp: owner_event_def bind_Some_iff)
  from world_okD(1) [OF w s(1)] obtain r rule c ctx n where l: "linked w sess r rule c ctx n"
    and ev: "session_events (r_mode rule) r c n s sess" by (rule session_okE)
  have x: "(s_status sess = 1) = (cb \<in> {Cb_connect_timeout, Cb_connect_success})"
    "cb = Cb_connect_success \<Longrightarrow> r_mode rule = forward_server_mode"
    "cb = Cb_process_tcp \<Longrightarrow> \<exists>ev. s_ev sess = Some ev \<and> te_event ev = Some e"
    using ev s(2) te(2,3) cb
    by (auto simp: session_events_def evtimer_def ev_read_def ev_write_def split: if_splits)
  show thesis by (rule that [OF s(1) l x])
qed

section \<open>Events\<close>

lemma request_timeout_fires:
  assumes w: "world_ok w" and p: "pending w Cb_request_timeout m = Some e"
  shows "\<exists>w'. fire os Cb_request_timeout m w = Some w' \<and> world_ok w'"
proof (rule pendingE [OF p])
  fix te
  assume "owner_event w Cb_request_timeout m = Some te"
  then obtain msg where m: "w_messages w m = Some msg" "m_ev_timeout msg = Some te"
    by (auto simp: owner_event_def bind_Some_iff)
  from world_okD(5) [OF w] m(1) obtain s sess where s: "w_sessions w s = Some sess" "m \<in> messages_of sess"
    unfolding messages_ok_def by blast
  from world_okD(1) [OF w s(1)] obtain r rule c ctx n where l: "linked w sess r rule c ctx n" and
    q: "queues_ok (r, c, n) (w_messages w) s sess" by (rule session_okE)
  have "recv_map sess k \<noteq> Some m" for k
    using recv_queue_okD(3) [OF queues_okD(2) [OF q], of k m] m by (auto simp: recv_msg_ok_def)
  with s(2) obtain k where k: "send_map sess k = Some m" by (auto simp: messages_of_def ran_def)
  obtain c2 msg2 data where "w_messages w m = Some msg2" "m_session msg2 = Some s" "m_data msg2 = Some data"
    by (rule queued_message [OF w s(1) k])
  with m have "m_session msg = Some s" "m_data msg = Some data" by simp_all
  from request_timeout_ok_spec [OF w m(1) this(1) s(1) l this(2), of os] p show ?thesis
    by (auto simp: fire_def)
qed

lemma connect_timeout_fires:
  assumes w: "world_ok w" and p: "pending w Cb_connect_timeout s = Some e"
  shows "\<exists>w'. fire os Cb_connect_timeout s w = Some w' \<and> world_ok w'"
proof (rule pending_session [OF w p])
  fix sess r rule c ctx n
  assume s: "w_sessions w s = Some sess" and l: "linked w sess r rule c ctx n"
    and "(s_status sess = 1) = (Cb_connect_timeout \<in> {Cb_connect_timeout, Cb_connect_success})"
  then have st: "s_status sess = 1" by simp
  show ?thesis
  proof (cases "c_uretries ctx \<le> s_connect_retries sess + 1")
    case True
    from connect_timeout_last_spec [OF w s st l True, of os] p show ?thesis by (auto simp: fire_def)
  next
    case False
    from connect_timeout_retry_spec [OF w s st l, of os] False p show ?thesis by (auto simp: fire_def)
  qed
qed simp

lemma connect_success_fires:
  assumes w: "world_ok w" and p: "pending w Cb_connect_success s = Some e"
    and ok: "event_ok os w Cb_connect_success s e"
  shows "\<exists>w'. fire os Cb_connect_success s w = Some w' \<and> world_ok w'"
proof (rule pending_session [OF w p])
  fix sess r rule c ctx n
  assume s: "w_sessions w s = Some sess" and l: "linked w sess r rule c ctx n"
    and "(s_status sess = 1) = (Cb_connect_success \<in> {Cb_connect_timeout, Cb_connect_success})"
    and "Cb_connect_success = Cb_connect_success \<Longrightarrow> r_mode rule = forward_server_mode"
  then have st: "s_status sess = 1" "r_mode rule = forward_server_mode" by simp_all
  have new: "rb_map (r_sessions rule) (s_handle sess) = None"
    using ok s linkedD(7) [OF l] by (simp add: event_ok_def)
  show ?thesis
  proof (cases "os_sock_error os (w_calls w) (ev_sock e) = 0")
    case True
    from connect_success_established_spec [OF w s st(1) l st(2) new True] p show ?thesis by (auto simp: fire_def)
  next
    case False
    from connect_success_refused [OF w s st(1) l False] p show ?thesis by (auto simp: fire_def)
  qed
qed simp

lemma timeout_check_fires:
  assumes w: "world_ok w" and p: "pending w Cb_timeout_check s = Some e"
  shows "\<exists>w'. fire os Cb_timeout_check s w = Some w' \<and> world_ok w'"
proof (rule pending_session [OF w p])
  fix sess r rule c ctx n
  assume s: "w_sessions w s = Some sess" and l: "linked w sess r rule c ctx n"
    and "(s_status sess = 1) = (Cb_timeout_check \<in> {Cb_connect_timeout, Cb_connect_success})"
  then have st: "s_status sess \<noteq> 1" by simp
  from timeout_check_ok_spec [OF w s st l, of os] p show ?thesis by (auto simp: fire_def)
qed simp

lemma process_tcp_fires:
  assumes w: "world_ok w" "os_ok os" and p: "pending w Cb_process_tcp s = Some e"
    and ok: "event_ok os w Cb_process_tcp s e"
  shows "\<exists>w'. fire os Cb_process_tcp s w = Some w' \<and> world_ok w'"
proof (rule pending_session [OF w(1) p])
  fix sess r rule c ctx n
  assume s: "w_sessions w s = Some sess" and l: "linked w sess r rule c ctx n"
    and "(s_status sess = 1) = (Cb_process_tcp \<in> {Cb_connect_timeout, Cb_connect_success})"
    and "Cb_process_tcp = Cb_process_tcp \<Longrightarrow> \<exists>ev. s_ev sess = Some ev \<and> te_event ev = Some e"
  then obtain ev where st: "s_status sess \<noteq> 1" and ev: "s_ev sess = Some ev" "te_event ev = Some e" by auto
  have new: "send_map sess (s_send_seq sess + 1) = None" using ok s by (simp add: event_ok_def)
  obtain rd err bytes where recv: "os_recv os (w_calls w) (ev_sock e) T2U_PAYLOAD_MAX = (rd, err, bytes)"
    by (metis prod_cases3)
  consider "c_udp_slide_window ctx \<le> unat (s_send_buffer_count sess)"
    | "unat (s_send_buffer_count sess) < c_udp_slide_window ctx" "0 < rd"
    | "unat (s_send_buffer_count sess) < c_udp_slide_window ctx" "rd \<le> 0" by linarith
  then show ?thesis
  proof cases
    case 1
    from process_tcp_full [OF w(1) s st ev(1) l ev(2) 1] p show ?thesis by (auto simp: fire_def)
  next
    case 2
    from process_tcp_data_spec [OF w s st l 2(1) new recv 2(2)] p show ?thesis by (auto simp: fire_def)
  next
    case 3
    from process_tcp_no_data_spec [OF w(1) s st l 3(1) recv 3(2)] p show ?thesis by (auto simp: fire_def)
  qed
qed simp_all

lemma accept_fires:
  assumes w: "world_ok w" and p: "pending w Cb_process_accept r = Some e"
    and ok: "event_ok os w Cb_process_accept r e"
  shows "\<exists>w'. fire os Cb_process_accept r w = Some w' \<and> world_ok w'"
proof (rule pendingE [OF p])
  fix te
  assume "owner_event w Cb_process_accept r = Some te"
  then obtain rule where r: "w_rules w r = Some rule" "r_ev_listen rule = Some te"
    by (auto simp: owner_event_def bind_Some_iff)
  show ?thesis
  proof (rule live_rule [OF w r(1)])
    fix c ctx n run
    assume c: "r_context rule = Some c" "w_contexts w c = Some ctx"
    have "handle_free w rule 0" using ok r(1) by (simp add: event_ok_def)
    from accept_ok_spec [OF w r c this, of os] p show ?thesis by (auto simp: fire_def)
  qed
qed

lemma process_udp_fires:
  assumes w: "world_ok w" "os_ok os" and p: "pending w Cb_process_udp c = Some e"
    and ok: "event_ok os w Cb_process_udp c e"
  shows "\<exists>w'. fire os Cb_process_udp c w = Some w' \<and> world_ok w'"
proof (rule pendingE [OF p])
  fix te
  assume "owner_event w Cb_process_udp c = Some te"
  then obtain ctx where c: "w_contexts w c = Some ctx" by (auto simp: owner_event_def bind_Some_iff)
  obtain n mdata where recv: "received os (ev_sock e) w = (n, mdata)" by force
  have "datagram_ok w c ctx mdata" if "valid_header n mdata"
    using ok c recv that by (simp add: event_ok_def)
  from process_udp_ok_spec [OF w c recv this] p show ?thesis by (auto simp: fire_def)
qed

lemmas fires = request_timeout_fires connect_timeout_fires connect_success_fires timeout_check_fires
  process_tcp_fires accept_fires process_udp_fires

lemma fire_ok:
  assumes "world_ok w" "os_ok os" "pending w cb a = Some e" "event_ok os w cb a e"
  shows "\<exists>w'. fire os cb a w = Some w' \<and> world_ok w'"
  using fires assms by (cases cb) (blast | simp add: fire_def)+

lemma fire_keeps: "fire os cb a w = Some w' \<Longrightarrow> keeps_all w w'"
  by (cases cb) (auto simp: fire_def bind_Some_iff dest!: keeps_dest)

section \<open>Every input keeps the invariant\<close>

text \<open>What an input other than the creation or the end of a context does is not about runners.\<close>

lemma state_ok_keeps: "state_ok w \<Longrightarrow> world_ok w' \<Longrightarrow> keeps_runners w w' \<Longrightarrow> log_ok w' \<Longrightarrow> state_ok w'"
  by (auto simp: state_ok_def intro: shared_ok_keeps)

text \<open>Where the contexts are as before, so are the names of the rules.\<close>

lemma log_ok_keeps:
  assumes w: "world_ok w" "world_ok w'" and k: "keeps_all w w'" and l: "log_ok w"
  shows "log_ok w'"
  unfolding log_ok_def
proof (intro allI impI)
  fix r rule
  assume "w_rules w' r = Some rule"
  from world_okD(2) [OF w(2) this] obtain c ctx where
    "w_contexts w' c = Some ctx" "rb_map (c_rules ctx) (r_service rule) = Some r"
    by (auto simp: rule_ok_def rule_links_def)
  with k have c: "w_contexts w c = Some ctx" "rb_map (c_rules ctx) (r_service rule) = Some r" by (simp_all add: keeps_all_def)
  from world_okD(3) [OF w(1) c(1)] c(2) obtain rule0 where "w_rules w r = Some rule0" "r_service rule0 = r_service rule"
    by (auto simp: context_ok_def)
  with log_okD [OF l, of r rule0] k show "rule_logs w' rule" by (simp add: rule_logs_def keeps_all_def)
qed

lemma set_callbacks_state:
  assumes "state_ok w" "get_log_func g \<noteq> NULL \<longrightarrow> (\<forall>r rule. w_rules w r = Some rule \<longrightarrow> length (cbytes (r_service rule)) \<le> LOG_NAME_MAX)"
  shows "state_ok (w\<lparr>w_callbacks := g\<rparr>)"
  using assms by (simp add: state_ok_def shared_ok_def log_ok_def rule_logs_def cong: option.case_cong)

lemma log_ok_names:
  "log_ok w \<Longrightarrow> get_log_func (w_callbacks w) \<noteq> NULL \<Longrightarrow> w_rules w r = Some rule \<Longrightarrow>
    length (cbytes (r_service rule)) \<le> LOG_NAME_MAX"
  by (simp add: log_ok_def rule_logs_def)

lemma debug_dump_returns: "state_ok w \<Longrightarrow> \<exists>lines. debug_dump w = Some lines"
  by (auto simp: debug_dump_def t2u_runner_control_def the_runner_def state_ok_def shared_ok_def split: option.splits)

lemma create_forward_state:
  assumes st: "state_ok w" and ok: "input_ok os w (Create_forward s)"
  shows "\<exists>w'. t2u_exec os (Create_forward s) w = Some w' \<and> state_ok w'"
proof -
  have w: "world_ok w" using st by (simp add: state_ok_def)
  have g: "case w_g_runner w of None \<Rightarrow> runner_available os (w_calls w) | Some n \<Rightarrow> w_runners w n \<noteq> None"
    using st ok by (auto simp: state_ok_def shared_ok_def split: option.splits)
  from create_forward_ok_spec [OF w g, of s] obtain c w' n run where
    e: "create_forward os s w = Some (c, w')" "world_ok w'" "w_g_runner w' = Some n"
      "w_runners w' = (w_runners w)(n \<mapsto> run)"
      "case w_g_runner w of None \<Rightarrow> w_runners w n = None \<and> n_running run = 1
       | Some n0 \<Rightarrow> n = n0 \<and> (\<exists>run0. w_runners w n0 = Some run0 \<and> n_running run = n_running run0)"
      "w_callbacks w' = w_callbacks w \<and> w_rules w' = w_rules w" by blast
  have "shared_ok w'"
    using st e(3-5) by (auto simp: state_ok_def shared_ok_def split: option.splits if_splits)
  moreover have "log_ok w'" using st e(6) log_ok_same [of w w'] by (simp add: state_ok_def)
  ultimately show ?thesis using e(1,2) by (simp add: state_ok_def)
qed

lemma free_forward_state:
  assumes st: "state_ok w" and c: "w_contexts w c = Some ctx"
  shows "\<exists>w'. t2u_exec os (Free_forward c) w = Some w' \<and> state_ok w'"
proof (rule shared_runner [OF st c])
  fix n run tree
  assume n: "w_g_runner w = Some n" "c_runner ctx = Some n" "w_runners w = [n \<mapsto> run]" "n_running run \<noteq> 0"
    "n_contexts run = Some tree"
  have w: "world_ok w" "log_ok w" and r: "w_runners w n = Some run" using st n(3) by (simp_all add: state_ok_def)
  from free_forward_ok_spec [OF w(1) c n(2) r n(5,1,4) w(2), of os] obtain w' where
    e: "free_forward os c w = Some w'" "world_ok w'" "log_ok w'" and
    sh: "if dom (rb_map tree) = {c} then w_runners w' = (w_runners w)(n := None) \<and> w_g_runner w' = NULL
       else w_g_runner w' = Some n \<and> (\<exists>run'. w_runners w' = (w_runners w)(n \<mapsto> run') \<and> n_running run' = n_running run)"
    by blast
  from sh n(3,4) have "shared_ok w'" by (auto simp: shared_ok_def split: if_splits)
  with e show ?thesis by (simp add: state_ok_def)
qed

lemma exec_ok:
  assumes st: "state_ok w" "os_ok os" and ok: "input_ok os w i"
  shows "\<exists>w'. t2u_exec os i w = Some w' \<and> state_ok w'"
proof (cases i)
  case (Create_forward s)
  from create_forward_state [OF st(1), of os s] ok show ?thesis by (simp add: Create_forward)
next
  case (Free_forward c)
  with ok obtain ctx where "w_contexts w c = Some ctx" by auto
  from free_forward_state [OF st(1) this] show ?thesis by (simp add: Free_forward)
next
  case (Set_option c opt v)
  with ok obtain ctx where c: "w_contexts w c = Some ctx" by auto
  from set_context_option_keeps [of w c ctx opt v] st(1) c have
    "world_ok (w\<lparr>w_contexts := (w_contexts w)(c \<mapsto> with_option opt v ctx)\<rparr>)" by (simp add: state_ok_def)
  moreover have "log_ok (w\<lparr>w_contexts := (w_contexts w)(c \<mapsto> with_option opt v ctx)\<rparr>)"
    by (rule log_ok_same [of w]) (use st(1) in \<open>simp_all add: state_ok_def\<close>)
  ultimately show ?thesis using state_ok_keeps [OF st(1)]
    by (simp add: Set_option set_context_option_exec [OF c] keeps_runners_def)
next
  case (Set_log cb)
  with ok set_callbacks_state [OF st(1)] show ?thesis by simp
next
  case (Set_error cb)
  with set_callbacks_state [OF st(1)] log_ok_names [of w] st(1) show ?thesis by (simp add: state_ok_def)
next
  case (Set_unknown cb)
  with set_callbacks_state [OF st(1)] log_ok_names [of w] st(1) show ?thesis by (simp add: state_ok_def)
next
  case (Forward_send s buffer len)
  with st(1) show ?thesis by simp
next
  case Debug_dump
  with debug_dump_returns [OF st(1)] st(1) show ?thesis by auto
next
  case (Add_rule c mode service address port)
  with ok obtain ctx where c: "w_contexts w c = Some ctx" "rb_map (c_rules ctx) service = None" and
    log: "create_logs w service address" by auto
  have w: "world_ok w" "log_ok w" using st(1) by (simp_all add: state_ok_def)
  from add_rule_ok_spec [OF w(1) c log, of os mode port] obtain p w' where
    e: "add_forward_rule os c mode service address port w = Some (p, w')" "world_ok w'" "keeps_runners w w'" and
    r: "w_rules w' = w_rules w \<or> (\<exists>rule. w_rules w' = (w_rules w)(w_fresh w \<mapsto> rule) \<and> r_service rule = service)"
    by meson
  have "log_ok w'"
    using r w(2) e(3) log by (auto simp: log_ok_def rule_logs_def keeps_runners_def create_logs_def split: if_splits)
  with e show ?thesis using state_ok_keeps [OF st(1)] by (simp add: Add_rule)
next
  case (Del_rule r)
  with ok obtain rule where r: "w_rules w r = Some rule" by auto
  have w: "world_ok w" and l: "log_ok w" using st(1) by (simp_all add: state_ok_def)
  from live_rule [OF w r] obtain c ctx where "r_context rule = Some c" "w_contexts w c = Some ctx" by blast
  from delete_rule_ok [OF w r this log_okD [OF l r], of os] obtain w' where
    d: "t2u_delete_rule os r w = Some w'" "world_ok w'" "w_runners w' = w_runners w" "w_g_runner w' = w_g_runner w"
      "w_callbacks w' = w_callbacks w" "w_rules w' = (w_rules w)(r := None)" by blast
  from d state_ok_keeps [OF st(1) d(2) _ log_ok_sub [OF l d(5,6)]] show ?thesis
    by (simp add: Del_rule del_forward_rule_def keeps_runners_def)
next
  case (Fire cb a)
  with ok obtain e where e: "pending w cb a = Some e" "event_ok os w cb a e" by auto
  have w: "world_ok w" "log_ok w" using st(1) by (simp_all add: state_ok_def)
  from fire_ok [OF w(1) st(2) e] obtain w' where f: "fire os cb a w = Some w'" "world_ok w'" by blast
  note k = fire_keeps [OF f(1)]
  from f state_ok_keeps [OF st(1) f(2) keeps_all_runners [OF k] log_ok_keeps [OF w(1) f(2) k w(2)]] show ?thesis
    by (simp add: Fire)
qed

lemma reachable_state_ok:
  assumes "(t2u_step os)\<^sup>*\<^sup>* t2u_init w" "os_ok os"
  shows "state_ok w"
  using assms(1)
proof (induction rule: rtranclp_induct)
  case base
  show ?case by (rule state_ok_init)
next
  case (step w w')
  from step(2) obtain i where "input_ok os w i" "t2u_exec os i w = Some w'" by (rule t2u_stepE)
  with exec_ok [OF step(3) assms(2), of i] show ?case by simp
qed

section \<open>The invariant, link by link\<close>

lemma session_registered:
  assumes st: "state_ok w" and s: "w_sessions w s = Some sess"
  shows "\<exists>r rule c ctx n run tree. s_rule sess = Some r \<and> w_rules w r = Some rule \<and>
    registry rule (s_status sess) (s_handle sess) = Some s \<and>
    r_context rule = Some c \<and> w_contexts w c = Some ctx \<and> rb_map (c_rules ctx) (r_service rule) = Some r \<and>
    c_runner ctx = Some n \<and> w_runners w = [n \<mapsto> run] \<and> n_contexts run = Some tree \<and> rb_map tree c = Some c"
proof -
  have w: "world_ok w" using st by (simp add: state_ok_def)
  show ?thesis
  proof (rule session_okE [OF world_okD(1) [OF w s]])
    fix r rule c ctx n
    assume l: "linked w sess r rule c ctx n" and g: "registry rule (s_status sess) (s_handle sess) = Some s"
    note L = linkedD [OF l]
    have "rb_map (c_rules ctx) (r_service rule) = Some r"
      using world_okD(2) [OF w L(2)] L(3,4) by (auto simp: rule_ok_def rule_links_def)
    with shared_runner [OF st L(4)] L g show ?thesis by metis
  qed
qed

lemma session_counters:
  assumes w: "world_ok w" and s: "w_sessions w s = Some sess"
  shows "s_status sess \<in> {1, 2, 3} \<and> unat (s_send_buffer_count sess) = card (dom (send_map sess)) \<and>
    unat (s_recv_buffer_count sess) = card (dom (recv_map sess))"
  using world_okD(1) [OF w s] by (auto simp: session_ok_def queues_ok_def send_queue_ok_def recv_queue_ok_def)

text \<open>The pointers of an event structure: to a runner, a context, a rule, a session and a message.\<close>

definition event_pointers :: "t2u_event \<Rightarrow> ptr \<times> ptr \<times> ptr \<times> ptr \<times> ptr" where
  "event_pointers ev = (te_runner ev, te_context ev, te_rule ev, te_session ev, te_message ev)"

lemma session_pointers:
  assumes st: "state_ok w" and s: "w_sessions w s = Some sess"
  shows "\<exists>r rule c ctx n run ev. s_rule sess = Some r \<and> w_rules w r = Some rule \<and> r_context rule = Some c \<and>
    w_contexts w c = Some ctx \<and> c_runner ctx = Some n \<and> w_g_runner w = Some n \<and> w_runners w n = Some run \<and>
    s_ev sess = Some ev \<and> event_pointers ev = (Some n, Some c, Some r, Some s, NULL) \<and>
    messages_of sess \<subseteq> dom (w_messages w)"
proof -
  have w: "world_ok w" using st by (simp add: state_ok_def)
  show ?thesis
  proof (rule session_okE [OF world_okD(1) [OF w s]])
    fix r rule c ctx n
    assume l: "linked w sess r rule c ctx n" and ev: "session_events (r_mode rule) r c n s sess"
      and q: "queues_ok (r, c, n) (w_messages w) s sess"
    note L = linkedD [OF l]
    have "messages_of sess \<subseteq> dom (w_messages w)"
      using q by (fastforce simp: messages_of_def ran_def queues_ok_def send_queue_ok_def recv_queue_ok_def)
    moreover have "w_g_runner w = Some n" "\<exists>run. w_runners w n = Some run"
      using shared_runner [OF st L(4)] L(5) by (metis option.inject fun_upd_same)+
    ultimately show ?thesis using L ev by (auto simp: session_events_def event_pointers_def)
  qed
qed

lemma context_pointers:
  assumes st: "state_ok w" and c: "w_contexts w c = Some ctx"
  shows "ran (rb_map (c_rules ctx)) \<subseteq> dom (w_rules w) \<and> w_g_runner w \<noteq> NULL \<and> c_runner ctx = w_g_runner w \<and>
    (\<exists>ev. c_ev_udp ctx = Some ev \<and> event_pointers ev = (w_g_runner w, Some c, NULL, NULL, NULL))"
proof (rule shared_runner [OF st c])
  fix n
  assume n: "w_g_runner w = Some n" "c_runner ctx = Some n"
  have "context_ok w c ctx" using st c by (simp add: state_ok_def world_okD(3))
  then have "ran (rb_map (c_rules ctx)) \<subseteq> dom (w_rules w)" and
    "\<exists>ev. c_ev_udp ctx = Some ev \<and> event_pointers ev = (w_g_runner w, Some c, NULL, NULL, NULL)"
    using n by (fastforce simp: context_ok_def ran_def, auto simp: context_ok_def event_pointers_def)
  with n show ?thesis by simp
qed

lemma rule_pointers:
  assumes st: "state_ok w" and r: "w_rules w r = Some rule"
  shows "ran (rb_map (r_sessions rule)) \<union> ran (rb_map (r_connecting_sessions rule)) \<subseteq> dom (w_sessions w) \<and>
    (\<exists>c. r_context rule = Some c \<and> c \<in> dom (w_contexts w) \<and>
       (\<forall>ev. r_ev_listen rule = Some ev \<longrightarrow> event_pointers ev = (w_g_runner w, Some c, Some r, NULL, NULL)))"
proof -
  from st have "rule_ok w r rule" using r by (simp add: state_ok_def world_okD(2))
  then obtain c ctx where c: "r_context rule = Some c" "w_contexts w c = Some ctx" and
    ev: "\<forall>ev. r_ev_listen rule = Some ev \<longrightarrow> te_context ev = Some c \<and> te_runner ev = c_runner ctx \<and> te_rule ev = Some r \<and>
      te_session ev = NULL \<and> te_message ev = NULL" and
    e: "ran (rb_map (r_sessions rule)) \<union> ran (rb_map (r_connecting_sessions rule)) \<subseteq> dom (w_sessions w)"
    by (fastforce simp: rule_ok_def rule_links_def entries_ok_def ran_def)
  from context_pointers [OF st c(2)] have "c_runner ctx = w_g_runner w" by blast
  with c ev e show ?thesis by (auto simp: event_pointers_def)
qed

lemma runner_pointers:
  assumes st: "state_ok w" and n: "w_runners w n = Some run"
  shows "w_g_runner w = Some n \<and> (\<exists>tree. n_contexts run = Some tree \<and> ran (rb_map tree) \<subseteq> dom (w_contexts w))"
proof -
  have "runner_ok w n run" using st n by (simp add: state_ok_def world_okD(4))
  then have "\<exists>tree. n_contexts run = Some tree \<and> ran (rb_map tree) \<subseteq> dom (w_contexts w)"
    by (fastforce simp: runner_ok_def ran_def)
  with st n show ?thesis by (auto simp: state_ok_def shared_ok_def split: option.splits if_splits)
qed

lemma message_pointers:
  assumes st: "state_ok w" and m: "w_messages w m = Some msg"
  shows "case m_session msg of
      None \<Rightarrow> m_ev_timeout msg = NULL
    | Some s \<Rightarrow> \<exists>sess rule. w_sessions w s = Some sess \<and> the_rule w (s_rule sess) = Some rule \<and>
        (\<forall>ev. m_ev_timeout msg = Some ev \<longrightarrow>
           event_pointers ev = (w_g_runner w, r_context rule, s_rule sess, Some s, Some m))"
proof -
  have w: "world_ok w" using st by (simp add: state_ok_def)
  from world_okD(5) [OF w] m obtain s sess where s: "w_sessions w s = Some sess" "m \<in> messages_of sess"
    unfolding messages_ok_def by blast
  show ?thesis
  proof (rule session_okE [OF world_okD(1) [OF w s(1)]])
    fix r rule c ctx n
    assume l: "linked w sess r rule c ctx n" and q: "queues_ok (r, c, n) (w_messages w) s sess"
    note L = linkedD [OF l]
    have g: "w_g_runner w = Some n" using context_pointers [OF st L(4)] L(5) by simp
    from s(2) consider k where "send_map sess k = Some m" | k where "recv_map sess k = Some m"
      by (auto simp: messages_of_def ran_def)
    then show ?thesis
    proof cases
      case 1
      from send_queue_okD(3) [OF queues_okD(1) [OF q] 1] m have "send_msg_ok (r, c, n) s k m msg" by auto
      with s(1) L g show ?thesis by (auto simp: send_msg_ok_def message_event_def event_pointers_def)
    next
      case 2
      from recv_queue_okD(3) [OF queues_okD(2) [OF q] 2] m show ?thesis by (auto simp: recv_msg_ok_def)
    qed
  qed
qed

text \<open>Without a runner there is nothing.\<close>

lemma no_runner_empty:
  assumes w: "world_ok w" and n: "w_runners w = Map.empty"
  shows "w_sessions w = Map.empty \<and> w_messages w = Map.empty \<and> w_rules w = Map.empty \<and> w_contexts w = Map.empty"
proof -
  have c: "w_contexts w c = None" for c
    using w n by (cases "w_contexts w c") (auto simp: world_ok_def context_ok_def)
  have r: "w_rules w r = None" for r
    using w c by (cases "w_rules w r") (auto simp: world_ok_def rule_ok_def rule_links_def)
  have s: "w_sessions w s = None" for s
    using w r by (cases "w_sessions w s") (auto simp: world_ok_def session_ok_def linked_def)
  have "w_messages w m = None" for m
    using w s by (cases "w_messages w m") (auto simp: world_ok_def messages_ok_def)
  with c r s show ?thesis by (simp add: fun_eq_iff)
qed

section \<open>What holds of every run\<close>


text \<open>
  C11: In every reachable state every pointer that a structure holds leads to a live structure of
  the right kind: from a session to its rule, its event structure and its messages, and on to its
  context and its runner; from a rule to its context, to its event structure and, through its two
  trees, to its sessions; from a context to the runner, to its event structure and, through its
  tree, to its rules; from the runner, through its tree, to its contexts; from a message in a send
  queue to its session and its event structure; and every event structure points back to exactly the
  structures it belongs to.
\<close>

lemma run_pointers:
  assumes "(t2u_step os)\<^sup>*\<^sup>* t2u_init w" "os_ok os"
  shows "(\<forall>s sess. w_sessions w s = Some sess \<longrightarrow>
      (\<exists>r rule c ctx n run ev. s_rule sess = Some r \<and> w_rules w r = Some rule \<and> r_context rule = Some c \<and>
         w_contexts w c = Some ctx \<and> c_runner ctx = Some n \<and> w_g_runner w = Some n \<and> w_runners w n = Some run \<and>
         s_ev sess = Some ev \<and> event_pointers ev = (Some n, Some c, Some r, Some s, NULL) \<and>
         messages_of sess \<subseteq> dom (w_messages w))) \<and>
    (\<forall>r rule. w_rules w r = Some rule \<longrightarrow>
      ran (rb_map (r_sessions rule)) \<union> ran (rb_map (r_connecting_sessions rule)) \<subseteq> dom (w_sessions w) \<and>
      (\<exists>c. r_context rule = Some c \<and> c \<in> dom (w_contexts w) \<and>
         (\<forall>ev. r_ev_listen rule = Some ev \<longrightarrow> event_pointers ev = (w_g_runner w, Some c, Some r, NULL, NULL)))) \<and>
    (\<forall>c ctx. w_contexts w c = Some ctx \<longrightarrow>
      ran (rb_map (c_rules ctx)) \<subseteq> dom (w_rules w) \<and> w_g_runner w \<noteq> NULL \<and> c_runner ctx = w_g_runner w \<and>
      (\<exists>ev. c_ev_udp ctx = Some ev \<and> event_pointers ev = (w_g_runner w, Some c, NULL, NULL, NULL))) \<and>
    (\<forall>n run. w_runners w n = Some run \<longrightarrow>
      w_g_runner w = Some n \<and> (\<exists>tree. n_contexts run = Some tree \<and> ran (rb_map tree) \<subseteq> dom (w_contexts w))) \<and>
    (\<forall>n. w_g_runner w = Some n \<longrightarrow> n \<in> dom (w_runners w)) \<and>
    (\<forall>m msg. w_messages w m = Some msg \<longrightarrow>
      (case m_session msg of
         None \<Rightarrow> m_ev_timeout msg = NULL
       | Some s \<Rightarrow> \<exists>sess rule. w_sessions w s = Some sess \<and> the_rule w (s_rule sess) = Some rule \<and>
           (\<forall>ev. m_ev_timeout msg = Some ev \<longrightarrow>
              event_pointers ev = (w_g_runner w, r_context rule, s_rule sess, Some s, Some m))))"
proof -
  have st: "state_ok w" by (rule reachable_state_ok [OF assms])
  then have "\<forall>n. w_g_runner w = Some n \<longrightarrow> n \<in> dom (w_runners w)"
    by (auto simp: state_ok_def shared_ok_def)
  then show ?thesis
    using session_pointers [OF st] rule_pointers [OF st] context_pointers [OF st] runner_pointers [OF st]
      message_pointers [OF st] by (intro conjI) blast+
qed

text \<open>
  C7: In every reachable state each session is registered under its handle in the tree of its rule
  that fits its status, its rule under its service in its context, and the context in the one runner
  there is; the counters of a session's queues are the numbers of their entries; and each message
  belongs to exactly one session.
\<close>

lemma run_invariant:
  assumes "(t2u_step os)\<^sup>*\<^sup>* t2u_init w" "os_ok os"
  shows "(\<forall>s sess. w_sessions w s = Some sess \<longrightarrow>
      (\<exists>r rule c ctx n run tree. s_rule sess = Some r \<and> w_rules w r = Some rule \<and>
         registry rule (s_status sess) (s_handle sess) = Some s \<and>
         r_context rule = Some c \<and> w_contexts w c = Some ctx \<and> rb_map (c_rules ctx) (r_service rule) = Some r \<and>
         c_runner ctx = Some n \<and> w_runners w = [n \<mapsto> run] \<and> n_contexts run = Some tree \<and> rb_map tree c = Some c) \<and>
      s_status sess \<in> {1, 2, 3} \<and>
      unat (s_send_buffer_count sess) = card (dom (send_map sess)) \<and>
      unat (s_recv_buffer_count sess) = card (dom (recv_map sess))) \<and>
    (\<forall>m \<in> dom (w_messages w). \<exists>!s. \<exists>sess. w_sessions w s = Some sess \<and> m \<in> messages_of sess)"
proof -
  have st: "state_ok w" by (rule reachable_state_ok [OF assms])
  then have w: "world_ok w" by (simp add: state_ok_def)
  have "\<exists>!s. \<exists>sess. w_sessions w s = Some sess \<and> m \<in> messages_of sess" if m: "m \<in> dom (w_messages w)" for m
  proof (rule ex_ex1I)
    show "\<exists>s sess. w_sessions w s = Some sess \<and> m \<in> messages_of sess"
      using world_okD(5) [OF w] m by (auto simp: messages_ok_def)
    fix s s'
    assume "\<exists>sess. w_sessions w s = Some sess \<and> m \<in> messages_of sess"
      "\<exists>sess. w_sessions w s' = Some sess \<and> m \<in> messages_of sess"
    then show "s = s'" using world_okD(5) [OF w] unfolding messages_ok_def by blast
  qed
  with session_registered [OF st] session_counters [OF w] show ?thesis by blast
qed

text \<open>
  C12: Freeing the last context of a program in any reachable state frees everything: no session,
  message, rule, context or runner is left.
\<close>

lemma last_context_frees_all:
  assumes run: "(t2u_step os)\<^sup>*\<^sup>* t2u_init w" "os_ok os" and last: "dom (w_contexts w) = {c}"
  shows "\<exists>w'. free_forward os c w = Some w' \<and> w_sessions w' = Map.empty \<and> w_messages w' = Map.empty \<and>
    w_rules w' = Map.empty \<and> w_contexts w' = Map.empty \<and> w_runners w' = Map.empty \<and> w_g_runner w' = NULL"
proof -
  have st: "state_ok w" by (rule reachable_state_ok [OF run])
  from last obtain ctx where c: "w_contexts w c = Some ctx" by blast
  show ?thesis
  proof (rule shared_runner [OF st c])
    fix n run tree
    assume n: "w_g_runner w = Some n" "c_runner ctx = Some n" "w_runners w = [n \<mapsto> run]" "n_running run \<noteq> 0"
      "n_contexts run = Some tree" "rb_map tree c = Some c"
    have w: "world_ok w" "log_ok w" and r: "w_runners w n = Some run" using st n(3) by (simp_all add: state_ok_def)
    have "runner_ok w n run" using w r by (auto simp: world_ok_def)
    then have "k \<in> dom (w_contexts w)" if "k \<in> dom (rb_map tree)" for k
      using that n(5) by (fastforce simp: runner_ok_def)
    with last n(6) have one: "dom (rb_map tree) = {c}" by auto
    from free_forward_ok_spec [OF w(1) c n(2) r n(5,1,4) w(2), of os] obtain w' where
      e: "free_forward os c w = Some w'" "world_ok w'" and
      sh: "if dom (rb_map tree) = {c} then w_runners w' = (w_runners w)(n := None) \<and> w_g_runner w' = NULL
         else w_g_runner w' = Some n \<and> (\<exists>run'. w_runners w' = (w_runners w)(n \<mapsto> run') \<and> n_running run' = n_running run)"
      by blast
    from sh one n(3) have "w_runners w' = Map.empty" "w_g_runner w' = NULL" by simp_all
    with e no_runner_empty [OF e(2)] show ?thesis by simp
  qed
qed

end
