(* ===== verification/T2u_Tunnel.thy ===== *)
theory T2u_Tunnel
  imports T2u_Run
begin

text \<open>
  Two programs that are connected by their UDP sockets: what one sends, the other receives. The
  network enters as a hypothesis on the datagrams that arrive; a datagram that is lost does not arrive.
\<close>

section \<open>Datagrams\<close>

text \<open>The next \<open>recv\<close> on the socket brings these bytes.\<close>

definition arrives :: "os \<Rightarrow> world \<Rightarrow> int \<Rightarrow> byte list \<Rightarrow> bool" where
  "arrives os w sock d \<longleftrightarrow>
     (\<exists>err. os_recv os (w_calls w) sock T2U_MESS_BUFFER_MAX = (int (length d), err, d))"

lemma md_bytes_append: "md_bytes md @ rest = md_bytes (md\<lparr>md_payload := md_payload md @ rest\<rparr>)"
  by (simp add: md_bytes_def)

text \<open>What the handlers get to see of a message.\<close>

definition wire_md :: "arch \<Rightarrow> t2u_mess_oper \<Rightarrow> u64 \<Rightarrow> u32 \<Rightarrow> byte list \<Rightarrow> t2u_message_data" where
  "wire_md ar op h k payload =
     \<lparr>md_magic = T2U_MESS_MAGIC, md_version = 1, md_oper = oper_code op, md_handle = wire_handle ar h,
      md_seq = k, md_payload = payload\<rparr>"

lemma wire_md_sel [simp]:
  "oper_of (md_oper (wire_md ar op h k payload)) = Some op"
  "md_handle (wire_md ar op h k payload) = wire_handle ar h" "md_seq (wire_md ar op h k payload) = k"
  "md_payload (wire_md ar op h k payload) = payload"
  "valid_header (int (sizeof_md + len)) (wire_md ar op h k payload)"
  by (simp_all add: wire_md_def valid_header_def)

lemma arrives_received:
  assumes a: "arrives os w sock (md_bytes (new_mdata (os_arch os) op h k payload))"
  shows "\<exists>junk. received os sock w =
    (int (sizeof_md + length payload), wire_md (os_arch os) op h k (payload @ junk))"
proof -
  let ?md = "new_mdata (os_arch os) op h k payload"
  from a obtain err where r: "os_recv os (w_calls w) sock T2U_MESS_BUFFER_MAX =
      (int (length (md_bytes ?md)), err, md_bytes ?md)" by (auto simp: arrives_def)
  obtain junk where "recv_buffer os (w_calls w) T2U_MESS_BUFFER_MAX (md_bytes ?md) = md_bytes ?md @ junk"
    by (simp add: recv_buffer_def)
  then have "md_of_bytes (recv_buffer os (w_calls w) T2U_MESS_BUFFER_MAX (md_bytes ?md)) =
      new_mdata (os_arch os) op h k (payload @ junk)"
    by (simp only: md_bytes_append md_of_bytes_md_bytes) (simp add: new_mdata_def)
  then show ?thesis
    by (intro exI [of _ junk]) (simp add: received_def r ntoh_new_mdata wire_md_def)
qed

lemma arrives_dispatched:
  assumes w: "world_ok w" and c: "w_contexts w c = Some ctx"
    and a: "arrives os w sock (md_bytes (new_mdata (os_arch os) op h k payload))"
  obtains junk where "process_udp_cb os sock c w =
    dispatch_message os ctx (wire_md (os_arch os) op h k (payload @ junk)) (sizeof_md + length payload)
      (w\<lparr>w_calls := Suc (w_calls w)\<rparr>)"
proof -
  let ?n = "int (sizeof_md + length payload)"
  from arrives_received [OF a] obtain junk where
    "received os sock w = (?n, wire_md (os_arch os) op h k (payload @ junk))" ..
  moreover have "\<not> ?n \<le> 0" by (simp add: sizeof_md_def)
  ultimately have "process_udp_cb os sock c w =
    dispatch_message os ctx (wire_md (os_arch os) op h k (payload @ junk)) (nat ?n) (w\<lparr>w_calls := Suc (w_calls w)\<rparr>)"
    using process_udp_exec [OF w c] wire_md_sel(5) by (simp only: Let_def if_True if_False simp_thms)
  with that show thesis by (simp only: nat_int)
qed

text \<open>The lookup of a session finds the only one with its handle.\<close>

definition only_session :: "world \<Rightarrow> addr \<Rightarrow> u64 \<Rightarrow> bool \<Rightarrow> addr \<Rightarrow> bool" where
  "only_session w c h connected s \<longleftrightarrow>
     has_session w c h connected s \<and> (\<forall>s'. has_session w c h connected s' \<longrightarrow> s' = s)"

lemma find_only:
  assumes "world_ok w" "w_contexts w c = Some ctx" "only_session w c h connected s"
  shows "find_session_in_context w ctx h connected = Some (Some s)"
proof -
  obtain p where p: "find_session_in_context w ctx h connected = Some p"
    "case p of None \<Rightarrow> \<forall>s. \<not> has_session w c h connected s | Some s \<Rightarrow> has_session w c h connected s"
    using find_session_sound_complete [OF assms(1,2)] by blast
  then show ?thesis using assms(3) by (cases p) (auto simp: only_session_def)
qed

lemma find_no_session:
  assumes "world_ok w" "w_contexts w c = Some ctx" "\<And>s. \<not> has_session w c h connected s"
  shows "find_session_in_context w ctx h connected = Some NULL"
proof -
  obtain p where p: "find_session_in_context w ctx h connected = Some p"
    "case p of None \<Rightarrow> \<forall>s. \<not> has_session w c h connected s | Some s \<Rightarrow> has_session w c h connected s"
    using find_session_sound_complete [OF assms(1,2)] by blast
  then show ?thesis using assms(3) by (cases p) auto
qed

lemma session_frame [simp]:
  "has_session (w\<lparr>w_calls := k\<rparr>) = has_session w" "only_session (w\<lparr>w_calls := k\<rparr>) = only_session w"
  by (simp_all add: has_session_def only_session_def fun_eq_iff)

section \<open>Data\<close>

lemma received_bytes:
  assumes "os_ok os" "os_recv os call sock cap = (n, err, bytes)"
  shows "n \<le> int cap" "int (length bytes) = max 0 n"
proof -
  from assms(1) have "\<forall>call sock cap. case os_recv os call sock cap of (n, err, bytes) \<Rightarrow>
      n \<le> int cap \<and> int (length bytes) = max 0 n" by (simp add: os_ok_def)
  from this [rule_format, of cap call sock] show "n \<le> int cap" "int (length bytes) = max 0 n"
    by (simp_all add: assms(2))
qed

definition data_datagram :: "os \<Rightarrow> t2u_session \<Rightarrow> byte list \<Rightarrow> byte list" where
  "data_datagram os sess bytes =
     md_bytes (new_mdata (os_arch os) data_request (s_handle sess) (s_send_seq sess + 1) bytes)"

text \<open>The next packet of a session, with nothing queued behind it, is written to its socket.\<close>

lemma data_arrives:
  assumes w: "world_ok w" and s: "w_sessions w s = Some sess" "s_status sess = 2"
    and l: "linked w sess r rule c ctx n" and h: "only_session w c (wire_handle (os_arch os) h) True s"
    and a: "arrives os w sock (md_bytes (new_mdata (os_arch os) data_request h k bytes))"
    and k: "k = s_recv_seq sess + 1" "recv_map sess (k + 1) = None" "bytes \<noteq> []" "length bytes \<le> T2U_PAYLOAD_MAX"
    and send: "os_send os (Suc (w_calls w)) (s_sock sess) bytes = (int (length bytes), err)"
  shows "\<exists>w' sess'. process_udp_cb os sock c w = Some w' \<and> world_ok w' \<and> w_sessions w' s = Some sess' \<and>
    s_recv_seq sess' = k \<and> s_status sess' = 2 \<and>
    w_out w' = w_out w @ [TcpSend (s_sock sess) bytes (int (length bytes)),
      UdpSend (c_sock ctx) (answer os (s_handle sess) k (int (length bytes)))]"
proof -
  note L = linkedD [OF l]
  let ?w = "w\<lparr>w_calls := Suc (w_calls w)\<rparr>"
  obtain junk where e: "process_udp_cb os sock c w = dispatch_message os ctx
      (wire_md (os_arch os) data_request h k (bytes @ junk)) (sizeof_md + length bytes) ?w"
    (is "_ = dispatch_message os ctx ?md ?n ?w") by (rule arrives_dispatched [OF w L(4) a])
  have W: "world_ok ?w" "w_sessions ?w s = Some sess" "linked ?w sess r rule c ctx n" using w s l by simp_all
  have f: "find_session_in_context ?w ctx (wire_handle (os_arch os) h) True = Some (Some s)"
    using find_only [OF W(1), of c ctx] L(4) h by simp
  have len: "packet_len_ok ?md ?n" using k(4) by (simp add: packet_len_ok_def T2U_MESS_BUFFER_MAX_def)
  have "process_udp_cb os sock c w = t2u_session_handle_data_request os s ?md ?n ?w"
    using f by (simp add: e dispatch_message_def)
  moreover from data_request_next_spec [OF W(1,2) s(2) W(3) len, of os] k(1) obtain w' ps where
    d: "t2u_session_handle_data_request os s ?md ?n ?w = Some w'" "world_ok w'"
      "delivers (session_send os sess) (Suc (w_calls w)) (recv_payload (w_messages w) sess) k bytes ps"
      "delivered os ctx s sess ps ?w w'" by auto
  have "ps = [(bytes, int (length bytes), False)]"
    by (rule deliversE [OF d(3)])
      (use send k(2,3) in \<open>auto simp: session_send_def recv_payload_def write_failed_def\<close>)
  ultimately show ?thesis
    using d(1,2,4) s(2) k(1) by (auto simp: delivered_def complete_def split: option.splits)
qed

text \<open>An answer is handed to the message with its number.\<close>

lemma answer_dispatched:
  assumes w: "world_ok w" and s: "w_sessions w s = Some sess" and l: "linked w sess r rule c ctx n"
    and h: "only_session w c (wire_handle (os_arch os) h) True s"
    and a: "arrives os w sock (md_bytes (new_mdata (os_arch os) data_response h k (put_u32 (word_of_int v))))"
    and m: "send_map sess k = Some m" "w_messages w m = Some msg" "0 \<le> v" "v \<le> int T2U_PAYLOAD_MAX"
  obtains md where "process_udp_cb os sock c w = t2u_message_handle_data_response os m md (w\<lparr>w_calls := Suc (w_calls w)\<rparr>)"
    "response_value md = v" "4 \<le> length (md_payload md)" "m_session msg = Some s" "m_seq msg = k"
proof -
  note L = linkedD [OF l]
  let ?w = "w\<lparr>w_calls := Suc (w_calls w)\<rparr>" and ?p = "put_u32 (word_of_int v)"
  obtain junk where e: "process_udp_cb os sock c w = dispatch_message os ctx
      (wire_md (os_arch os) data_response h k (?p @ junk)) (sizeof_md + length ?p) ?w"
    (is "_ = dispatch_message os ctx ?md ?n ?w") by (rule arrives_dispatched [OF w L(4) a])
  have W: "world_ok ?w" using w by simp
  have f: "find_session_in_context ?w ctx (wire_handle (os_arch os) h) True = Some (Some s)"
    using find_only [OF W, of c ctx] L(4) h by simp
  from world_okD(1) [OF w s] have rb: "rb_ok (s_send_mess sess)"
    by (auto simp: session_ok_def queues_ok_def send_queue_ok_def)
  have u: "process_udp_cb os sock c w = t2u_message_handle_data_response os m ?md ?w"
    using f rb.look [OF rb, of k] s m(1) by (simp add: e dispatch_message_def)
  have v: "response_value ?md = v"
    using m(3,4) by (simp add: response_value_def get_put_u32 T2U_PAYLOAD_MAX_def signed_of_int
        signed_take_bit_int_eq_self)
  have ms: "m_session msg = Some s" "m_seq msg = k"
    by (rule queued_message [OF w s m(1)], simp_all add: m(2) send_msg_ok_def)+
  show thesis by (rule that [OF u v _ ms]) simp
qed

text \<open>The answer to a packet that was written completely removes its message from the send queue.\<close>

lemma answer_arrives:
  assumes w: "world_ok w" and s: "w_sessions w s = Some sess" "s_status sess = 2"
    and l: "linked w sess r rule c ctx n" and h: "only_session w c (wire_handle (os_arch os) h) True s"
    and a: "arrives os w sock (md_bytes (new_mdata (os_arch os) data_response h k (put_u32 (word_of_int v))))"
    and m: "send_map sess k = Some m" "w_messages w m = Some msg" "valid_length msg = v"
      "0 < v" "v \<le> int T2U_PAYLOAD_MAX"
  shows "\<exists>w' sess'. process_udp_cb os sock c w = Some w' \<and> world_ok w' \<and>
    w_messages w' = (w_messages w)(m := None) \<and> w_sessions w' s = Some sess' \<and> s_status sess' = 2 \<and>
    send_map sess' = (send_map sess)(k := None)"
proof -
  let ?w = "w\<lparr>w_calls := Suc (w_calls w)\<rparr>"
  have W: "world_ok ?w" "w_sessions ?w s = Some sess" "w_messages ?w m = Some msg" using w s m by simp_all
  obtain md where u: "process_udp_cb os sock c w = t2u_message_handle_data_response os m md ?w"
    and v: "response_value md = valid_length msg" and p: "4 \<le> length (md_payload md)"
    and ms: "m_session msg = Some s" "m_seq msg = k"
    using answer_dispatched [OF w s(1) l h a m(1,2) less_imp_le [OF m(4)] m(5)] m(3) by metis
  from data_response_success_spec [OF W(1,3) ms(1) W(2) p v, of os] s(2) ms(2) obtain w' t where
    d: "t2u_message_handle_data_response os m md ?w = Some w'" "world_ok w'"
      "w_messages w' = (w_messages w)(m := None)" "rb_map t = (send_map sess)(k := None)"
      "w_sessions w' = (w_sessions w)(s \<mapsto> enable_read (sess\<lparr>s_send_mess := t,
         s_send_buffer_count := s_send_buffer_count sess - 1\<rparr>))" by auto
  have "s_status (enable_read x) = s_status x" "send_map (enable_read x) = send_map x" for x
    by (simp_all add: enable_read_def)
  with u d s(2) show ?thesis by simp
qed

text \<open>
  Both ends of a transfer: the client's world, the server's, and the client's at the time when the
  answer comes back, with the message still in the queue.
\<close>

definition peers :: "os \<Rightarrow> os \<Rightarrow> t2u_session \<Rightarrow> t2u_session \<Rightarrow> bool" where
  "peers os1 os2 sess1 sess2 \<longleftrightarrow>
     os_arch os1 = os_arch os2 \<and> wire_handle (os_arch os1) (s_handle sess1) = s_handle sess2 \<and>
     wire_handle (os_arch os1) (s_handle sess2) = s_handle sess1"

lemma tunnel_both:
  assumes w1: "world_ok w1" "os_ok os1" "w_sessions w1 s1 = Some sess1" "s_status sess1 = 2"
    "linked w1 sess1 r1 rule1 c1 ctx1 n1"
    and room: "unat (s_send_buffer_count sess1) < c_udp_slide_window ctx1"
      "send_map sess1 (s_send_seq sess1 + 1) = None"
    and recv: "os_recv os1 (w_calls w1) sock1 T2U_PAYLOAD_MAX = (rd, err1, bytes)" "0 < rd"
    and w2: "world_ok w2" "w_sessions w2 s2 = Some sess2" "s_status sess2 = 2" "linked w2 sess2 r2 rule2 c2 ctx2 n2"
    and peers: "peers os1 os2 sess1 sess2" "only_session w2 c2 (s_handle sess2) True s2"
    and seq: "s_recv_seq sess2 = s_send_seq sess1" "recv_map sess2 (s_recv_seq sess2 + 2) = None"
    and net: "arrives os2 w2 sock2 (data_datagram os1 sess1 bytes)"
    and send: "os_send os2 (Suc (w_calls w2)) (s_sock sess2) bytes = (int (length bytes), err2)"
  shows "\<exists>w1' w2' sess1' sess2' msg. t2u_session_process_tcp os1 sock1 s1 w1 = Some w1' \<and> world_ok w1' \<and>
    w_out w1' = w_out w1 @ [EventAdd (evtimer Cb_request_timeout) (Some (timeval_ms (c_utimeout ctx1))),
      UdpSend (c_sock ctx1) (data_datagram os1 sess1 bytes)] \<and>
    w_sessions w1' s1 = Some sess1' \<and> s_send_seq sess1' = s_send_seq sess1 + 1 \<and>
    send_map sess1' (s_send_seq sess1 + 1) = Some (w_fresh w1) \<and>
    w_messages w1' (w_fresh w1) = Some msg \<and> valid_length msg = int (length bytes) \<and>
    process_udp_cb os2 sock2 c2 w2 = Some w2' \<and> world_ok w2' \<and>
    w_sessions w2' s2 = Some sess2' \<and> s_recv_seq sess2' = s_send_seq sess1' \<and>
    w_out w2' = w_out w2 @ [TcpSend (s_sock sess2) bytes (int (length bytes)),
      UdpSend (c_sock ctx2) (answer os2 (s_handle sess2) (s_send_seq sess1') (int (length bytes)))]"
proof -
  from process_tcp_data_spec [OF w1(1-3) _ w1(5) room recv] w1(4) obtain w1' sess1' msg where
    c: "t2u_session_process_tcp os1 sock1 s1 w1 = Some w1'" "world_ok w1'" "w_sessions w1' s1 = Some sess1'"
      "send_map sess1' = (send_map sess1)(s_send_seq sess1 + 1 \<mapsto> w_fresh w1)" "s_send_seq sess1' = s_send_seq sess1 + 1"
      "w_messages w1' (w_fresh w1) = Some msg" "valid_length msg = int (length bytes)"
      "w_out w1' = w_out w1 @ [EventAdd (evtimer Cb_request_timeout) (Some (timeval_ms (c_utimeout ctx1))),
        UdpSend (c_sock ctx1) (data_datagram os1 sess1 bytes)]"
    by (auto simp: data_datagram_def)
  have len: "bytes \<noteq> []" "length bytes \<le> T2U_PAYLOAD_MAX"
    using received_bytes [OF w1(2) recv(1)] recv(2) by auto
  have h: "only_session w2 c2 (wire_handle (os_arch os2) (s_handle sess1)) True s2" "os_arch os1 = os_arch os2"
    using peers by (auto simp: peers_def)
  from data_arrives [OF w2 h(1) _ _ _ len send, of sock2 "s_send_seq sess1 + 1"] net seq h(2) obtain w2' sess2' where
    "process_udp_cb os2 sock2 c2 w2 = Some w2'" "world_ok w2'" "w_sessions w2' s2 = Some sess2'"
    "s_recv_seq sess2' = s_send_seq sess1 + 1"
    "w_out w2' = w_out w2 @ [TcpSend (s_sock sess2) bytes (int (length bytes)),
      UdpSend (c_sock ctx2) (answer os2 (s_handle sess2) (s_send_seq sess1 + 1) (int (length bytes)))]"
    by (auto simp: data_datagram_def algebra_simps)
  with c show ?thesis by (intro exI [of _ w1'] exI [of _ w2'] exI [of _ sess1'] exI [of _ sess2'] exI [of _ msg]) simp
qed

text \<open>
  C5: End to end: bytes that a client reads from its TCP socket become a datagram, and when that
  datagram arrives at the server whose session is the peer, the server writes exactly these bytes to
  its own TCP socket and answers with their number; the sequence numbers of both ends agree again,
  and the client keeps the message until the answer comes.
\<close>

lemma tunnel_data:
  assumes w1: "world_ok w1" "os_ok os1" "w_sessions w1 s1 = Some sess1" "s_status sess1 = 2"
    "linked w1 sess1 r1 rule1 c1 ctx1 n1"
    and room: "unat (s_send_buffer_count sess1) < c_udp_slide_window ctx1"
      "send_map sess1 (s_send_seq sess1 + 1) = None"
    and recv: "os_recv os1 (w_calls w1) sock1 T2U_PAYLOAD_MAX = (rd, err1, bytes)" "0 < rd"
    and w2: "world_ok w2" "w_sessions w2 s2 = Some sess2" "s_status sess2 = 2" "linked w2 sess2 r2 rule2 c2 ctx2 n2"
    and peers: "peers os1 os2 sess1 sess2" "only_session w2 c2 (s_handle sess2) True s2"
    and seq: "s_recv_seq sess2 = s_send_seq sess1" "recv_map sess2 (s_recv_seq sess2 + 2) = None"
    and net: "arrives os2 w2 sock2 (data_datagram os1 sess1 bytes)"
    and send: "os_send os2 (Suc (w_calls w2)) (s_sock sess2) bytes = (int (length bytes), err2)"
  shows "\<exists>w1' w2' sess1' sess2' msg. t2u_session_process_tcp os1 sock1 s1 w1 = Some w1' \<and> world_ok w1' \<and>
    w_out w1' = w_out w1 @ [EventAdd (evtimer Cb_request_timeout) (Some (timeval_ms (c_utimeout ctx1))),
      UdpSend (c_sock ctx1) (data_datagram os1 sess1 bytes)] \<and>
    w_sessions w1' s1 = Some sess1' \<and> s_send_seq sess1' = s_send_seq sess1 + 1 \<and>
    send_map sess1' (s_send_seq sess1 + 1) = Some (w_fresh w1) \<and>
    w_messages w1' (w_fresh w1) = Some msg \<and> valid_length msg = int (length bytes) \<and>
    process_udp_cb os2 sock2 c2 w2 = Some w2' \<and> world_ok w2' \<and>
    w_sessions w2' s2 = Some sess2' \<and> s_recv_seq sess2' = s_send_seq sess1' \<and>
    w_out w2' = w_out w2 @ [TcpSend (s_sock sess2) bytes (int (length bytes)),
      UdpSend (c_sock ctx2) (answer os2 (s_handle sess2) (s_send_seq sess1') (int (length bytes)))]"
  by (rule tunnel_both [OF w1 room recv w2 peers seq net send])

text \<open>
  C10: When the answer that the peer sends for a packet it has written completely arrives, the
  message of that packet, and no other, is freed and leaves the send queue of its session.
\<close>

lemma tunnel_acknowledged:
  assumes w: "world_ok w" "w_sessions w s1 = Some sess1" "s_status sess1 = 2" "linked w sess1 r1 rule1 c1 ctx1 n1"
    and peers: "peers os1 os2 sess1 sess2" "only_session w c1 (s_handle sess1) True s1"
    and net: "arrives os1 w sock (answer os2 (s_handle sess2) k v)"
    and m: "send_map sess1 k = Some m" "w_messages w m = Some msg" "valid_length msg = v"
      "0 < v" "v \<le> int T2U_PAYLOAD_MAX"
  shows "\<exists>w' sess1'. process_udp_cb os1 sock c1 w = Some w' \<and> world_ok w' \<and>
    w_messages w' = (w_messages w)(m := None) \<and> w_sessions w' s1 = Some sess1' \<and> s_status sess1' = 2 \<and>
    send_map sess1' = (send_map sess1)(k := None)"
proof -
  have "only_session w c1 (wire_handle (os_arch os1) (s_handle sess2)) True s1"
    "arrives os1 w sock (md_bytes (new_mdata (os_arch os1) data_response (s_handle sess2) k (put_u32 (word_of_int v))))"
    using peers net by (auto simp: peers_def answer_def)
  from answer_arrives [OF w this m] show ?thesis .
qed

text \<open>
  When the answer to a delivered packet is lost, the packet comes again; the answer to it does not
  confirm anything.
\<close>

text \<open>
  C17: When the answer to a packet that the peer has delivered is lost, the packet is sent again,
  and the peer answers the duplicate with 0, which confirms nothing: the message stays in the send
  queue with its bytes.
\<close>

lemma tunnel_duplicate:
  assumes w1: "world_ok w1" "w_sessions w1 s1 = Some sess1" "s_status sess1 = 2" "linked w1 sess1 r1 rule1 c1 ctx1 n1"
    and w2: "world_ok w2" "w_sessions w2 s2 = Some sess2" "s_status sess2 = 2" "linked w2 sess2 r2 rule2 c2 ctx2 n2"
    and peers: "peers os1 os2 sess1 sess2" "only_session w1 c1 (s_handle sess1) True s1"
      "only_session w2 c2 (s_handle sess2) True s2"
    and m: "send_map sess1 k = Some m" "w_messages w1 m = Some msg" "valid_length msg \<noteq> 0"
    and again: "s_recv_seq sess2 = k"
      "arrives os2 w2 sock2 (md_bytes (new_mdata (os_arch os2) data_request (s_handle sess1) k bytes))"
    and net: "arrives os1 w1 sock1 (answer os2 (s_handle sess2) k 0)"
  shows "\<exists>w1' w2'. process_udp_cb os2 sock2 c2 w2 = Some w2' \<and>
    w_out w2' = w_out w2 @ [UdpSend (c_sock ctx2) (answer os2 (s_handle sess2) k 0)] \<and>
    process_udp_cb os1 sock1 c1 w1 = Some w1' \<and> w_messages w1' = w_messages w1 \<and>
    w_sessions w1' = w_sessions w1 \<and> w_out w1' = w_out w1"
proof -
  note L = linkedD [OF w2(4)]
  let ?w2 = "w2\<lparr>w_calls := Suc (w_calls w2)\<rparr>" and ?w1 = "w1\<lparr>w_calls := Suc (w_calls w1)\<rparr>"
  obtain junk where e: "process_udp_cb os2 sock2 c2 w2 = dispatch_message os2 ctx2
      (wire_md (os_arch os2) data_request (s_handle sess1) k (bytes @ junk)) (sizeof_md + length bytes) ?w2"
    (is "_ = dispatch_message os2 ctx2 ?md ?n ?w2") by (rule arrives_dispatched [OF w2(1) L(4) again(2)])
  have W2: "world_ok ?w2" "w_sessions ?w2 s2 = Some sess2" "linked ?w2 sess2 r2 rule2 c2 ctx2 n2" using w2 by simp_all
  have h: "wire_handle (os_arch os2) (s_handle sess1) = s_handle sess2"
    "wire_handle (os_arch os1) (s_handle sess2) = s_handle sess1" "os_arch os1 = os_arch os2"
    using peers(1) by (auto simp: peers_def)
  have "find_session_in_context ?w2 ctx2 (s_handle sess2) True = Some (Some s2)"
    using find_only [OF W2(1), of c2 ctx2] L(4) peers(3) by simp
  then have u: "process_udp_cb os2 sock2 c2 w2 = t2u_session_handle_data_request os2 s2 ?md ?n ?w2"
    by (simp add: e dispatch_message_def h(1))
  have "md_seq ?md = s_recv_seq sess2" by (simp add: again(1))
  with data_request_answered_only [OF W2, of ?md os2 ?n] u obtain w2' where
    w2': "process_udp_cb os2 sock2 c2 w2 = Some w2'"
      "w_out w2' = w_out w2 @ [UdpSend (c_sock ctx2) (answer os2 (s_handle sess2) k 0)]" by auto
  have a: "arrives os1 w1 sock1 (md_bytes (new_mdata (os_arch os1) data_response (s_handle sess2) k (put_u32 (word_of_int 0))))"
    and o: "only_session w1 c1 (wire_handle (os_arch os1) (s_handle sess2)) True s1"
    using net peers(2) h by (simp_all add: answer_def)
  obtain md where v: "process_udp_cb os1 sock1 c1 w1 = t2u_message_handle_data_response os1 m md ?w1"
    and md: "response_value md = 0" "4 \<le> length (md_payload md)" and ms: "m_session msg = Some s1"
    using answer_dispatched [OF w1(1,2,4) o a m(1,2)] by auto
  have W1: "world_ok ?w1" "w_sessions ?w1 s1 = Some sess1" "w_messages ?w1 m = Some msg" using w1 m by simp_all
  from data_response_blocked [OF W1(1,3) ms md(2,1) m(3), of os1] v have
    "process_udp_cb os1 sock1 c1 w1 = Some ?w1" by simp
  with w2' show ?thesis by (intro exI [of _ ?w1] exI [of _ w2']) simp
qed

section \<open>The handshake\<close>

lemma low32_ucast [simp]: "low32 (ucast (x :: u32)) = ucast x"
  by (rule bit_eqI) (auto simp: bit_simps bit_low32 dest: bit_imp_le_length)

lemma wire_handle_ucast [simp]: "wire_handle ar (ucast (x :: u32)) = ucast x"
  by (cases ar) (simp_all add: wire_simps)

lemma next_handle_seq_nonzero: "next_handle_seq n \<noteq> 0"
  by (simp add: next_handle_seq_def)

lemma ucast_zero_iff: "(ucast (x :: u32) :: u64) = 0 \<longleftrightarrow> x = 0"
proof -
  have "(ucast (ucast x :: u64) :: u32) = x" by (rule bit_eqI) (simp add: bit_simps)
  then show ?thesis by force
qed

text \<open>The handle of the server's session holds the client's in its low half and a number of its own above.\<close>

definition server_handle :: "u32 \<Rightarrow> u32 \<Rightarrow> u64" where
  "server_handle client own = ucast client + push_bit 32 (ucast own)"

lemma server_handle_or: "server_handle client own = push_bit 32 (ucast own) OR ucast client"
proof -
  have "(ucast client :: u64) AND push_bit 32 (ucast own) = 0"
    by (rule bit_eqI) (auto simp: bit_simps dest: bit_imp_le_length)
  then show ?thesis unfolding server_handle_def by (simp add: disjunctive_add_eq_or or.commute)
qed

lemma low32_server_handle [simp]: "low32 (server_handle client own) = ucast client"
  unfolding server_handle_or by (rule bit_eqI) (auto simp: bit_simps bit_low32 dest: bit_imp_le_length)

lemma server_handle_eq: "server_handle client own = ucast client \<longleftrightarrow> own = 0"
proof
  assume e: "server_handle client own = ucast client"
  have "ucast (drop_bit 32 (server_handle client own) :: u64) = own" unfolding server_handle_or by (rule ucast_halves)
  moreover have "drop_bit 32 (ucast client :: u64) = 0"
    by (rule bit_eqI) (auto simp: bit_simps dest: bit_imp_le_length)
  ultimately show "own = 0" by (simp add: e)
qed (simp add: server_handle_def)

text \<open>The connect request that a client sends when it accepts a connection.\<close>

definition request_datagram :: "os \<Rightarrow> t2u_rule \<Rightarrow> u32 \<Rightarrow> byte list" where
  "request_datagram os rule seq =
     md_bytes (new_mdata (os_arch os) connect_request (ucast seq) 0 (cbytes (r_service rule) @ [0]))"

lemma cstr_at_bytes:
  assumes "0 \<notin> set (cbytes s)"
  shows "cstr_at (cbytes s @ 0 # rest) = s"
proof -
  have "takeWhile (\<lambda>b. b \<noteq> 0) (bs @ 0 # rest) = bs" if "0 \<notin> set bs" for bs :: "byte list"
    using that by (induction bs) auto
  with assms show ?thesis by (simp add: cstr_at_def)
qed

lemma request_arrives:
  fixes os w
  defines "seq2 \<equiv> next_handle_seq (w_handle_seq w)" and "sock2 \<equiv> os_socket os (Suc (w_calls w))"
  assumes w: "world_ok w" and c: "w_contexts w c = Some ctx" and arch: "os_arch os = os_arch os1"
    and r: "rb_map (c_rules ctx) (r_service rule1) = Some r" "w_rules w r = Some rule" "r_mode rule = forward_server_mode"
    and name: "0 \<notin> set (cbytes (r_service rule1))"
    and net: "arrives os w sock (request_datagram os1 rule1 seq1)"
    and new: "rb_map (r_sessions rule) (ucast seq1) = None" "rb_map (r_connecting_sessions rule) (ucast seq1) = None"
      "handle_free w rule (ucast seq1)" "seq1 \<noteq> 0"
    and conn: "sock2 \<noteq> - 1" "\<not> connect_failed (os_connect os (Suc (Suc (w_calls w))) sock2 (r_conn_addr rule))"
  shows "\<exists>w' sess rule'. process_udp_cb os sock c w = Some w' \<and> world_ok w' \<and>
    w_sessions w' = (w_sessions w)(w_fresh w \<mapsto> sess) \<and> w_sessions w (w_fresh w) = None \<and>
    s_rule sess = Some r \<and> s_sock sess = sock2 \<and> s_status sess = 1 \<and> s_handle sess = server_handle seq1 seq2 \<and>
    w_rules w' = (w_rules w)(r \<mapsto> rule') \<and> r_sessions rule' = r_sessions rule"
proof -
  let ?w = "w\<lparr>w_calls := Suc (w_calls w)\<rparr>" and ?p = "cbytes (r_service rule1) @ [0]"
  from net have a: "arrives os w sock (md_bytes (new_mdata (os_arch os) connect_request (ucast seq1) 0 ?p))"
    by (simp add: request_datagram_def arch)
  obtain junk where e: "process_udp_cb os sock c w = dispatch_message os ctx
      (wire_md (os_arch os) connect_request (ucast seq1) 0 (?p @ junk)) (sizeof_md + length ?p) ?w"
    (is "_ = dispatch_message os ctx ?md ?n ?w") by (rule arrives_dispatched [OF w c a])
  from world_okD(3) [OF w c] have rb: "rb_ok (c_rules ctx)" and
    "\<forall>k r. rb_map (c_rules ctx) k = Some r \<longrightarrow> (\<exists>rule. w_rules w r = Some rule \<and> r_context rule = Some c \<and> r_service rule = k)"
    by (simp_all add: context_ok_def)
  with r(1,2) have rc: "r_context rule = Some c" by fastforce
  have u: "process_udp_cb os sock c w = t2u_rule_handle_connect_request os r ?md ?w"
    using lookup_service_eq [OF rb, of "?p @ junk"] cstr_at_bytes [OF name, of junk] r(1) by (simp add: e dispatch_message_def)
  have W: "world_ok ?w" "w_rules ?w r = Some rule" "w_contexts ?w c = Some ctx" "handle_free ?w rule (md_handle ?md)"
    using w r c new(3) by (simp_all add: handle_free_def)
  have h: "session_handle (md_handle ?md) (next_handle_seq (w_handle_seq ?w)) = server_handle seq1 seq2"
    using new(4) by (simp add: session_handle_def server_handle_def seq2_def ucast_zero_iff)
  from connect_request_new_spec [OF W(1,2) r(3) rc W(3) _ _ W(4), of os, unfolded h] new(1,2) conn
  show ?thesis unfolding u by (auto simp: sock2_def)
qed

text \<open>
  C33: A datagram with a connect request for a service that no rule of the context has: without a log
  callback, or when the name has at most 953 bytes, it is dropped, and apart from the count of system
  calls the state is as before. With a log callback and a longer name, which still fits into the
  datagram, the \<open>sprintf\<close> of the log message writes past the end of its buffer of 1024 bytes.
\<close>

text \<open>
  C33: A datagram with a connect request for a service that no rule of the context has: without a
  log callback, or when the name has at most 953 bytes, it is dropped, and apart from the count of
  system calls the state is as before. With a log callback and a longer name, which still fits into
  the datagram, the sprintf of the log message writes past the end of its buffer of 1024 bytes.
\<close>

lemma unknown_service_request:
  assumes w: "world_ok w" and c: "w_contexts w c = Some ctx" and name: "0 \<notin> set name"
    and unknown: "rb_map (c_rules ctx) (CStr name) = None"
    and net: "arrives os w sock (md_bytes (new_mdata (os_arch os) connect_request h k (name @ [0])))"
  shows "process_udp_cb os sock c w =
    (if get_log_func (w_callbacks w) \<noteq> NULL \<and> 953 < length name then None
     else Some (w\<lparr>w_calls := Suc (w_calls w)\<rparr>))"
proof -
  let ?w = "w\<lparr>w_calls := Suc (w_calls w)\<rparr>"
  obtain junk where e: "process_udp_cb os sock c w = dispatch_message os ctx
      (wire_md (os_arch os) connect_request h k ((name @ [0]) @ junk)) (sizeof_md + length (name @ [0])) ?w"
    by (rule arrives_dispatched [OF w c net])
  have n: "cstr_at ((name @ [0]) @ junk) = CStr name" using cstr_at_bytes [of "CStr name" junk] name by simp
  have "rb_ok (c_rules ctx)" using world_okD(3) [OF w c] by (simp add: context_ok_def)
  from lookup_service_eq [OF this, of "(name @ [0]) @ junk"] n unknown have
    "lookup_service (c_rules ctx) ((name @ [0]) @ junk) = Some None" by simp
  then show ?thesis
    using log_unknown_service_exec [of "(name @ [0]) @ junk" os ?w] n
    by (auto simp: e dispatch_message_def unknown_logs_def UNKNOWN_NAME_MAX_def)
qed

text \<open>The answer, and what it makes of the client's session.\<close>

definition response_datagram :: "os \<Rightarrow> u64 \<Rightarrow> byte list" where
  "response_datagram os h = md_bytes (new_mdata (os_arch os) connect_response h 0 (put_u32 0))"

lemma response_arrives:
  assumes w: "world_ok w" and s: "w_sessions w s = Some sess" "s_status sess = 1"
    and l: "linked w sess r rule c ctx n" and arch: "os_arch os = os_arch os2"
    and only: "only_session w c (s_handle sess) False s" "low32 h = s_handle sess"
    and net: "arrives os w sock (response_datagram os2 h)"
    and new: "rb_map (r_sessions rule) (wire_handle (os_arch os) h) = None"
  shows "\<exists>w' sess'. process_udp_cb os sock c w = Some w' \<and> world_ok w' \<and>
    w_sessions w' = (w_sessions w)(s \<mapsto> sess') \<and> s_status sess' = 2 \<and> s_sock sess' = s_sock sess \<and>
    s_handle sess' = wire_handle (os_arch os) h"
proof -
  note L = linkedD [OF l]
  let ?w = "w\<lparr>w_calls := Suc (w_calls w)\<rparr>"
  from net have a: "arrives os w sock (md_bytes (new_mdata (os_arch os) connect_response h 0 (put_u32 0)))"
    by (simp add: response_datagram_def arch)
  obtain junk where e: "process_udp_cb os sock c w = dispatch_message os ctx
      (wire_md (os_arch os) connect_response h 0 (put_u32 0 @ junk)) (sizeof_md + length (put_u32 0)) ?w"
    (is "_ = dispatch_message os ctx ?md ?n ?w") by (rule arrives_dispatched [OF w L(4) a])
  have W: "world_ok ?w" "w_sessions ?w s = Some sess" "linked ?w sess r rule c ctx n" using w s l by simp_all
  have lw: "low32 (wire_handle (os_arch os) h) = low32 h" by (cases "os_arch os") (simp_all add: wire_simps)
  have f: "find_session_in_context ?w ctx (low32 (wire_handle (os_arch os) h)) False = Some (Some s)"
    unfolding lw only(2) using find_only [OF W(1), of c ctx] L(4) only(1) by simp
  have u: "process_udp_cb os sock c w = t2u_session_handle_connect_response os s ?md ?w"
    using f by (simp add: e dispatch_message_def)
  from connect_response_established_spec [OF W(1,2) s(2) W(3), of ?md os] new
  show ?thesis unfolding u by (auto simp: get_put_u32)
qed

section \<open>Both ends\<close>

text \<open>
  C8: When a client accepts a connection and its connect request arrives at a program that has a
  server rule of the same name, both have a connecting session, and the handle of the server's
  session holds the client's in its low half and the server's own number in its high half.
\<close>

lemma tunnel_request:
  fixes os1 os2 w1 w2
  defines "seq1 \<equiv> next_handle_seq (w_handle_seq w1)" and "seq2 \<equiv> next_handle_seq (w_handle_seq w2)"
    and "sock2 \<equiv> os_socket os2 (Suc (w_calls w2))"
  assumes w1: "world_ok w1" "w_rules w1 r1 = Some rule1" "r_ev_listen rule1 = Some ev"
      "r_context rule1 = Some c1" "w_contexts w1 c1 = Some ctx1" "handle_free w1 rule1 0"
    and accept: "0 \<le> os_accept os1 (w_calls w1) (r_listen_sock rule1)"
    and w2: "world_ok w2" "w_contexts w2 c2 = Some ctx2" "os_arch os2 = os_arch os1"
      "rb_map (c_rules ctx2) (r_service rule1) = Some r2" "w_rules w2 r2 = Some rule2"
      "r_mode rule2 = forward_server_mode" "0 \<notin> set (cbytes (r_service rule1))"
    and new: "rb_map (r_sessions rule2) (ucast seq1) = None" "rb_map (r_connecting_sessions rule2) (ucast seq1) = None"
      "handle_free w2 rule2 (ucast seq1)"
    and net: "arrives os2 w2 sock (request_datagram os1 rule1 seq1)"
    and conn: "sock2 \<noteq> - 1" "\<not> connect_failed (os_connect os2 (Suc (Suc (w_calls w2))) sock2 (r_conn_addr rule2))"
  shows "\<exists>w1' w2' sess1 sess2. rule_process_accept_cb os1 r1 w1 = Some w1' \<and> world_ok w1' \<and>
    w_sessions w1' (w_fresh w1) = Some sess1 \<and> s_status sess1 = 1 \<and> s_handle sess1 = ucast seq1 \<and>
    UdpSend (c_sock ctx1) (request_datagram os1 rule1 seq1) \<in> set (w_out w1') \<and>
    process_udp_cb os2 sock c2 w2 = Some w2' \<and> world_ok w2' \<and>
    w_sessions w2' (w_fresh w2) = Some sess2 \<and> s_status sess2 = 1 \<and> s_rule sess2 = Some r2 \<and>
    s_handle sess2 = server_handle seq1 seq2 \<and> low32 (s_handle sess2) = s_handle sess1"
proof -
  from accept_ok_spec [OF w1, of os1] accept obtain w1' sess1 where
    a: "rule_process_accept_cb os1 r1 w1 = Some w1'" "world_ok w1'" "w_sessions w1' = (w_sessions w1)(w_fresh w1 \<mapsto> sess1)"
      "s_status sess1 = 1" "s_handle sess1 = ucast seq1"
      "UdpSend (c_sock ctx1) (request_datagram os1 rule1 seq1) \<in> set (w_out w1')"
    by (auto simp: seq1_def request_datagram_def)
  have "seq1 \<noteq> 0" by (simp add: seq1_def next_handle_seq_nonzero)
  from request_arrives [OF w2(1-7) net new this conn [unfolded sock2_def]] obtain w2' sess2 where
    b: "process_udp_cb os2 sock c2 w2 = Some w2'" "world_ok w2'" "w_sessions w2' = (w_sessions w2)(w_fresh w2 \<mapsto> sess2)"
      "s_status sess2 = 1" "s_rule sess2 = Some r2" "s_handle sess2 = server_handle seq1 seq2"
    by (auto simp: seq2_def)
  from a b show ?thesis
    by (intro exI [of _ w1'] exI [of _ w2'] exI [of _ sess1] exI [of _ sess2]) simp
qed

text \<open>
  C9: When the server's TCP connection is established and its connect response arrives at the
  client, both sessions are connected. With an intact byte order conversion they then have the same
  handle; on x86-64 the client is left with the low half of it.
\<close>

lemma tunnel_response:
  assumes w2: "world_ok w2" "w_sessions w2 s2 = Some sess2" "s_status sess2 = 1" "linked w2 sess2 r2 rule2 c2 ctx2 n2"
      "r_mode rule2 = forward_server_mode" "rb_map (r_sessions rule2) (s_handle sess2) = None"
    and made: "os_sock_error os2 (w_calls w2) (s_sock sess2) = 0"
    and w1: "world_ok w1" "w_sessions w1 s1 = Some sess1" "s_status sess1 = 1" "linked w1 sess1 r1 rule1 c1 ctx1 n1"
      "os_arch os1 = os_arch os2"
    and same: "only_session w1 c1 (s_handle sess1) False s1" "low32 (s_handle sess2) = s_handle sess1"
    and net: "arrives os1 w1 sock1 (response_datagram os2 (s_handle sess2))"
    and new: "rb_map (r_sessions rule1) (wire_handle (os_arch os1) (s_handle sess2)) = None"
  shows "\<exists>w1' w2' sess1' sess2'. session_connect_success_cb os2 (s_sock sess2) s2 w2 = Some w2' \<and> world_ok w2' \<and>
    w_sessions w2' s2 = Some sess2' \<and> s_status sess2' = 2 \<and> s_handle sess2' = s_handle sess2 \<and>
    UdpSend (c_sock ctx2) (response_datagram os2 (s_handle sess2)) \<in> set (w_out w2') \<and>
    process_udp_cb os1 sock1 c1 w1 = Some w1' \<and> world_ok w1' \<and>
    w_sessions w1' s1 = Some sess1' \<and> s_status sess1' = 2 \<and>
    (case os_arch os1 of
       Other_arch \<Rightarrow> s_handle sess1' = s_handle sess2' \<and> peers os1 os2 sess1' sess2'
     | X86_64 \<Rightarrow> s_handle sess1' = low32 (s_handle sess2'))"
proof -
  from connect_success_established_spec [OF w2 made] obtain w2' sess2' where
    a: "session_connect_success_cb os2 (s_sock sess2) s2 w2 = Some w2'" "world_ok w2'"
      "w_sessions w2' = (w_sessions w2)(s2 \<mapsto> sess2')" "s_status sess2' = 2" "s_handle sess2' = s_handle sess2"
      "UdpSend (c_sock ctx2) (response_datagram os2 (s_handle sess2)) \<in> set (w_out w2')"
    by (auto simp: connect_response_datagram_def response_datagram_def)
  from response_arrives [OF w1 same net new] obtain w1' sess1' where
    b: "process_udp_cb os1 sock1 c1 w1 = Some w1'" "world_ok w1'" "w_sessions w1' = (w_sessions w1)(s1 \<mapsto> sess1')"
      "s_status sess1' = 2" "s_handle sess1' = wire_handle (os_arch os1) (s_handle sess2)" by blast
  from a b w1(5) show ?thesis
    by (intro exI [of _ w1'] exI [of _ w2'] exI [of _ sess1'] exI [of _ sess2'])
      (auto simp: peers_def wire_simps split: arch.split)
qed

text \<open>
  On x86-64 the client is left with the low half of the handle, and the server, whose sessions all have
  a number in the high half, finds no session for the client's data.
\<close>

text \<open>
  C18: Between two programs on x86-64, a server whose connected sessions all have a number in the
  high half of their handle drops every data request of its client: the handle arrives without the
  high half, no session is found, and nothing is written or answered.
\<close>

lemma tunnel_data_lost:
  assumes w: "world_ok w" "w_contexts w c = Some ctx" "os_arch os = X86_64" "os_arch os1 = X86_64"
    and server: "\<And>s sess. w_sessions w s = Some sess \<Longrightarrow> s_status sess \<noteq> 1 \<Longrightarrow> 2 ^ 32 \<le> s_handle sess"
    and net: "arrives os w sock (data_datagram os1 sess1 bytes)"
  shows "process_udp_cb os sock c w = Some (w\<lparr>w_calls := Suc (w_calls w)\<rparr>)"
proof -
  let ?w = "w\<lparr>w_calls := Suc (w_calls w)\<rparr>" and ?h = "wire_handle (os_arch os) (s_handle sess1)"
  from net have a: "arrives os w sock (md_bytes (new_mdata (os_arch os) data_request (s_handle sess1) (s_send_seq sess1 + 1) bytes))"
    by (simp add: data_datagram_def w(3,4))
  obtain junk where e: "process_udp_cb os sock c w = dispatch_message os ctx
      (wire_md (os_arch os) data_request (s_handle sess1) (s_send_seq sess1 + 1) (bytes @ junk)) (sizeof_md + length bytes) ?w"
    by (rule arrives_dispatched [OF w(1,2) a])
  have "?h < 2 ^ 32" using low32_less [of "low32 (s_handle sess1)"] by (simp add: w(3) wire_simps low32_def)
  then have "\<not> has_session ?w c ?h True s" for s
    by (auto simp: has_session_def not_le [symmetric] dest: server)
  from find_no_session [OF _ _ this, of ctx] w(1,2) show ?thesis by (simp add: e dispatch_message_def)
qed

lemma server_handle_high: "own \<noteq> 0 \<Longrightarrow> 2 ^ 32 \<le> server_handle client own"
  using low32_less [of "server_handle client own"] server_handle_eq [of client own] by (simp add: not_less)

end
