(* ===== verification/T2u_Links.thy ===== *)
theory T2u_Links
  imports T2u_Tunnel
begin

text \<open>
  What the handlers of established sessions leave alone in every run that ends: the contexts, the
  context of each rule, and of each session that is left its rule, handle and socket. They create no
  session. The facts are collected in \<open>links_dest\<close>.
\<close>

named_theorems links_dest "an operation that ends keeps the links"

definition core :: "t2u_session \<Rightarrow> ptr \<times> u64 \<times> int" where
  "core sess = (s_rule sess, s_handle sess, s_sock sess)"

definition cores :: "world \<Rightarrow> addr \<Rightarrow> (ptr \<times> u64 \<times> int) option" where
  "cores w s = map_option core (w_sessions w s)"

definition rule_contexts :: "world \<Rightarrow> addr \<Rightarrow> ptr option" where
  "rule_contexts w r = map_option r_context (w_rules w r)"

definition keeps_links :: "world \<Rightarrow> world \<Rightarrow> bool" where
  "keeps_links w w' \<longleftrightarrow>
     w_contexts w' = w_contexts w \<and> rule_contexts w' = rule_contexts w \<and> cores w' \<subseteq>\<^sub>m cores w"

lemma links_refl [simp]: "keeps_links w w"
  by (simp add: keeps_links_def)

lemma links_trans: "keeps_links w1 w2 \<Longrightarrow> keeps_links w2 w3 \<Longrightarrow> keeps_links w1 w3"
  by (auto simp: keeps_links_def intro: map_le_trans)

text \<open>The views after an update.\<close>

lemma cores_put:
  "cores (emit a w) = cores w" "cores (event_add e tv w) = cores w" "cores (event_free e w) = cores w"
  "cores (tick w) = cores w" "cores (put_message m msg w) = cores w" "cores (free_message m w) = cores w"
  "cores (put_rule r rule w) = cores w" "cores (t2u_delete_event ev w) = cores w"
  "cores (w\<lparr>w_fresh := f\<rparr>) = cores w"
  "cores (put_session s sess w) = (cores w)(s \<mapsto> (s_rule sess, s_handle sess, s_sock sess))"
  "cores (free_session s w) = (cores w)(s := None)"
  by (auto simp: cores_def fun_eq_iff world_defs t2u_delete_event_exec core_def)

lemma rule_contexts_put:
  "rule_contexts (emit a w) = rule_contexts w" "rule_contexts (event_add e tv w) = rule_contexts w"
  "rule_contexts (event_free e w) = rule_contexts w" "rule_contexts (tick w) = rule_contexts w"
  "rule_contexts (put_message m msg w) = rule_contexts w" "rule_contexts (free_message m w) = rule_contexts w"
  "rule_contexts (put_session s sess w) = rule_contexts w" "rule_contexts (free_session s w) = rule_contexts w"
  "rule_contexts (t2u_delete_event ev w) = rule_contexts w" "rule_contexts (w\<lparr>w_fresh := f\<rparr>) = rule_contexts w"
  "rule_contexts (put_rule r rule w) = (rule_contexts w)(r \<mapsto> r_context rule)"
  by (auto simp: rule_contexts_def fun_eq_iff world_defs t2u_delete_event_exec)

lemma fields_put:
  "w_contexts (emit a w) = w_contexts w" "w_contexts (event_add e tv w) = w_contexts w"
  "w_contexts (event_free e w) = w_contexts w" "w_contexts (tick w) = w_contexts w"
  "w_contexts (put_message m msg w) = w_contexts w" "w_contexts (free_message m w) = w_contexts w"
  "w_contexts (put_session s sess w) = w_contexts w" "w_contexts (free_session s w) = w_contexts w"
  "w_contexts (t2u_delete_event ev w) = w_contexts w" "w_contexts (put_rule r rule w) = w_contexts w"
  "w_sessions (emit a w) = w_sessions w" "w_sessions (event_add e tv w) = w_sessions w"
  "w_sessions (event_free e w) = w_sessions w" "w_sessions (tick w) = w_sessions w"
  "w_sessions (put_message m msg w) = w_sessions w" "w_sessions (free_message m w) = w_sessions w"
  "w_sessions (put_session s sess w) = (w_sessions w)(s \<mapsto> sess)"
  "w_sessions (t2u_delete_event ev w) = w_sessions w" "w_sessions (put_rule r rule w) = w_sessions w"
  "w_rules (emit a w) = w_rules w" "w_rules (put_session s sess w) = w_rules w"
  by (simp_all add: world_defs t2u_delete_event_exec)

lemma cores_same:
  "w_sessions w s = Some sess \<Longrightarrow> s_rule sess = r \<Longrightarrow> s_handle sess = h \<Longrightarrow> s_sock sess = sock \<Longrightarrow>
    (cores w)(s \<mapsto> (r, h, sock)) = cores w"
  by (auto simp: cores_def fun_eq_iff core_def)

lemma rule_contexts_same: "w_rules w r = Some rule \<Longrightarrow> (rule_contexts w)(r \<mapsto> r_context rule) = rule_contexts w"
  by (auto simp: rule_contexts_def fun_eq_iff)

lemmas links_simps = bind_Some_iff Let_def malloc_def keeps_links_def cores_put rule_contexts_put fields_put
  cores_same rule_contexts_same

section \<open>Messages and sessions\<close>

lemma send_message_data_links [links_dest]:
  "t2u_send_message_data os c data len s w = Some w' \<Longrightarrow> keeps_links w w'"
  by (auto simp: t2u_send_message_data_def links_simps split: option.splits)

lemma readd_read_event_links [links_dest]: "readd_read_event s w = Some w' \<Longrightarrow> keeps_links w w'"
  by (auto simp: readd_read_event_def links_simps split: option.splits if_splits)

lemma delete_request_message_links [links_dest]:
  "t2u_delete_request_message m w = Some w' \<Longrightarrow> keeps_links w w'"
  by (auto simp: t2u_delete_request_message_def links_simps dest!: links_dest split: option.splits if_splits)

lemma add_request_message_links [links_dest]:
  "t2u_add_request_message os s payload len w = Some (m, w') \<Longrightarrow> keeps_links w w'"
  by (auto simp: t2u_add_request_message_def links_simps dest!: links_dest split: option.splits if_splits)

lemma clear_recv_queue_links [links_dest]:
  "clear_recv_queue s w = Some w' \<Longrightarrow> keeps_links w w'"
proof (rule clear_recv_queue.raw_induct [of "\<lambda>s w w'. keeps_links w w'", rotated], assumption, goal_cases)
  case (1 f s2 w2 w2')
  note [links_dest] = 1(2)
  from 1(3) show ?case
    by (auto simp: links_simps dest!: links_dest split: option.splits)
qed

lemma clear_send_queue_links [links_dest]:
  "clear_send_queue s w = Some w' \<Longrightarrow> keeps_links w w'"
proof (rule clear_send_queue.raw_induct [of "\<lambda>s w w'. keeps_links w w'", rotated], assumption, goal_cases)
  case (1 f s2 w2 w2')
  note [links_dest] = 1(2)
  from 1(3) show ?case
    by (auto simp: bind_Some_iff dest!: links_dest intro: links_trans split: option.splits)
qed

lemma close_session_io_links [links_dest]:
  "close_session_io os s sync w = Some w' \<Longrightarrow> keeps_links w w'"
  by (auto simp: close_session_io_def links_simps dest!: links_dest split: if_splits)

lemma unregister_session_links [links_dest]: "unregister_session s w = Some w' \<Longrightarrow> keeps_links w w'"
  by (auto simp: unregister_session_def links_simps map_le_del)

lemma delete_connected_session_links [links_dest]:
  "t2u_delete_connected_session os s sync w = Some w' \<Longrightarrow> keeps_links w w'"
  by (auto simp: t2u_delete_connected_session_def bind_Some_iff dest!: links_dest intro: links_trans)

lemma try_delete_links [links_dest]:
  "t2u_try_delete_connected_session os s w = Some w' \<Longrightarrow> keeps_links w w'"
  by (auto simp: t2u_try_delete_connected_session_def bind_Some_iff dest!: links_dest split: if_splits)

lemma delete_later_links [links_dest]:
  "t2u_delete_connected_session_later os s w = Some w' \<Longrightarrow> keeps_links w w'"
  by (auto simp: t2u_delete_connected_session_later_def links_simps dest!: links_dest)

section \<open>Handlers\<close>

lemma request_timeout_links [links_dest]:
  "process_request_timeout_cb os m w = Some w' \<Longrightarrow> keeps_links w w'"
  by (auto simp: process_request_timeout_cb_def links_simps dest!: links_dest split: if_splits)

lemma data_response_links [links_dest]:
  "t2u_message_handle_data_response os m mdata w = Some w' \<Longrightarrow> keeps_links w w'"
  by (auto simp: t2u_message_handle_data_response_def links_simps dest!: links_dest intro: map_le_trans
      split: if_splits)

lemma retrans_request_links [links_dest]:
  "t2u_message_handle_retrans_request os m mdata w = Some w' \<Longrightarrow> keeps_links w w'"
  by (auto simp: t2u_message_handle_retrans_request_def bind_Some_iff dest!: links_dest)

lemma timeout_check_links [links_dest]:
  "session_timeout_check_cb os s w = Some w' \<Longrightarrow> keeps_links w w'"
  by (auto simp: session_timeout_check_cb_def links_simps dest!: links_dest split: if_splits)

lemma process_tcp_links [links_dest]:
  "t2u_session_process_tcp os sock s w = Some w' \<Longrightarrow> keeps_links w w'"
  by (auto simp: t2u_session_process_tcp_def links_simps dest!: links_dest split: if_splits prod.splits)

lemma deliver_packet_links [links_dest]:
  "deliver_packet os s c h mdata len k w = Some (failed, full, w') \<Longrightarrow> keeps_links w w'"
  by (auto simp: deliver_packet_def links_simps case_prod_unfold dest!: links_dest)

lemma take_next_packet_links [links_dest]:
  "take_next_packet s k w = Some (p, w') \<Longrightarrow> keeps_links w w'"
  by (auto simp: take_next_packet_def links_simps split: option.splits)

lemma deliver_loop_links [links_dest]:
  "deliver_loop os s c h mdata len k w = Some w' \<Longrightarrow> keeps_links w w'"
proof (rule deliver_loop.raw_induct
    [of "\<lambda>os s c h mdata len k w w'. keeps_links w w'", rotated], assumption, goal_cases)
  case (1 f os2 s2 c2 h2 mdata2 len2 k2 w2 w2')
  note [links_dest] = 1(2)
  from 1(3) show ?case
    by (auto simp: links_simps dest!: links_dest intro: map_le_trans split: option.splits if_splits)
      (blast intro: map_le_trans)
qed

lemma retrans_loop_links [links_dest]:
  "retrans_loop os s c window k js w = Some w' \<Longrightarrow> keeps_links w w'"
proof (induction js arbitrary: w)
  case (Cons j js)
  note [links_dest] = Cons.IH
  from Cons.prems show ?case
    by (auto simp: retrans_step_def links_simps dest!: links_dest intro: map_le_trans split: if_splits)
qed simp

lemma queue_received_links [links_dest]:
  "queue_received s window mdata len w = Some w' \<Longrightarrow> keeps_links w w'"
  by (auto simp: queue_received_def links_simps split: if_splits)

lemma data_request_links [links_dest]:
  "t2u_session_handle_data_request os s mdata len w = Some w' \<Longrightarrow> keeps_links w w'"
  by (auto simp: t2u_session_handle_data_request_def Let_def bind_Some_iff dest!: links_dest intro: links_trans
      split: if_splits)

end
