(* ===== verification/T2u_Stream.thy ===== *)
theory T2u_Stream
  imports T2u_Links
begin

text \<open>
  A connection over a network that loses, repeats and reorders datagrams: whatever order the events at
  its two ends come in, each end writes to its TCP socket what the other has read from its own, in the
  same order, without a gap and without a repetition, and no message leaves a send queue before the
  other end has written it.
\<close>

section \<open>What an end has written\<close>

definition tcp_bytes :: "int \<Rightarrow> action \<Rightarrow> byte list" where
  "tcp_bytes sock a = (case a of TcpSend so b r \<Rightarrow> if so = sock then take (nat r) b else [] | _ \<Rightarrow> [])"

definition full_write :: "int \<Rightarrow> action \<Rightarrow> bool" where
  "full_write sock a \<longleftrightarrow> (case a of TcpSend so b r \<Rightarrow> so = sock \<and> r = int (length b) | _ \<Rightarrow> False)"

definition written :: "int \<Rightarrow> world \<Rightarrow> byte list" where
  "written sock w = concat (map (tcp_bytes sock) (w_out w))"

definition delivered_count :: "int \<Rightarrow> world \<Rightarrow> nat" where
  "delivered_count sock w = length (filter (full_write sock) (w_out w))"

lemma write_simps [simp]:
  "tcp_bytes sock (TcpSend so b r) = (if so = sock then take (nat r) b else [])" "tcp_bytes sock (UdpSend so d) = []"
  "full_write sock (TcpSend so b r) \<longleftrightarrow> so = sock \<and> r = int (length b)" "\<not> full_write sock (UdpSend so d)"
  by (simp_all add: tcp_bytes_def full_write_def)

text \<open>A write is either complete or writes nothing. (A message that is written in part is truncated by the code.)\<close>

definition whole_writes :: "os \<Rightarrow> bool" where
  "whole_writes os \<longleftrightarrow> (\<forall>call sock b. fst (os_send os call sock b) \<in> {int (length b), 0, - 1})"

definition chunks_ok :: "byte list list \<Rightarrow> bool" where
  "chunks_ok xs \<longleftrightarrow> length xs < 2 ^ 32 \<and> (\<forall>x \<in> set xs. x \<noteq> [] \<and> length x \<le> T2U_PAYLOAD_MAX)"

abbreviation seq_of :: "nat \<Rightarrow> u32" where
  "seq_of i \<equiv> of_nat (Suc i)"

lemma len_u32: "LENGTH(32) = 32"
  by simp

lemma u32_inj: "m < 2 ^ 32 \<Longrightarrow> n < 2 ^ 32 \<Longrightarrow> (of_nat m :: u32) = of_nat n \<longleftrightarrow> m = n"
  using unat_of_nat_small [of m, where 'a = 32] unat_of_nat_small [of n, where 'a = 32]
  by (metis len_u32)

lemma seq_of_eq: "i < 2 ^ 32 \<Longrightarrow> j < 2 ^ 32 \<Longrightarrow> seq_of i = seq_of j \<longleftrightarrow> i = j"
  using u32_inj [of i j] by simp

lemma seq_of_next: "i < 2 ^ 32 \<Longrightarrow> j < 2 ^ 32 - 1 \<Longrightarrow> seq_of j + 1 = seq_of i \<longleftrightarrow> i = Suc j"
  using u32_inj [of i "Suc j"] by (auto simp: algebra_simps)

lemma chunks_nth: "chunks_ok xs \<Longrightarrow> i < length xs \<Longrightarrow> xs ! i \<noteq> [] \<and> length (xs ! i) \<le> T2U_PAYLOAD_MAX"
  by (simp add: chunks_ok_def)

lemma chunk_seq_inj: "chunks_ok xs \<Longrightarrow> i < length xs \<Longrightarrow> j < length xs \<Longrightarrow> seq_of i = seq_of j \<longleftrightarrow> i = j"
  by (rule seq_of_eq) (simp_all add: chunks_ok_def)

section \<open>The reordering buffer against the stream\<close>

lemma whole_write_cases:
  assumes "whole_writes os" "session_send os sess call b = (r, err)" "b \<noteq> []"
  shows "write_failed r err \<Longrightarrow> r \<in> {0, - 1}" "r \<noteq> int (length b) \<Longrightarrow> r \<in> {0, - 1}"
proof -
  from assms(1) have "fst (os_send os call (s_sock sess) b) \<in> {int (length b), 0, - 1}"
    unfolding whole_writes_def by blast
  with assms(2) have r: "r \<in> {int (length b), 0, - 1}" by (simp add: session_send_def)
  then show "r \<noteq> int (length b) \<Longrightarrow> r \<in> {0, - 1}" by simp
  show "write_failed r err \<Longrightarrow> r \<in> {0, - 1}" using r assms(3) by (auto simp: write_failed_def)
qed

definition good_answer :: "os \<Rightarrow> u64 \<Rightarrow> byte list list \<Rightarrow> nat \<Rightarrow> byte list \<Rightarrow> bool" where
  "good_answer os h xs n d \<longleftrightarrow>
     (\<exists>k v. d = answer os h k v \<and> (v \<in> {0, - 1} \<or> (\<exists>j < n. k = seq_of j \<and> v = int (length (xs ! j)))))"

lemma delivers_stream:
  assumes "delivers (session_send os sess) call q k b ps" "whole_writes os" "chunks_ok xs"
    and "\<forall>k b. q k = Some b \<longrightarrow> (\<exists>i < length xs. k = seq_of i \<and> b = xs ! i)"
    and "k = seq_of j" "j < length xs" "b = xs ! j"
  shows "j + complete ps \<le> length xs"
    "concat (map (tcp_bytes (s_sock sess)) (deliver_trace os ctx sess k ps)) = concat (take (complete ps) (drop j xs))"
    "length (filter (full_write (s_sock sess)) (deliver_trace os ctx sess k ps)) = complete ps"
    "UdpSend so d \<in> set (deliver_trace os ctx sess k ps) \<Longrightarrow>
      good_answer os (s_handle sess) xs (j + complete ps) d"
proof -
  have "j + complete ps \<le> length xs \<and>
    concat (map (tcp_bytes (s_sock sess)) (deliver_trace os ctx sess k ps)) = concat (take (complete ps) (drop j xs)) \<and>
    length (filter (full_write (s_sock sess)) (deliver_trace os ctx sess k ps)) = complete ps \<and>
    (\<forall>so d. UdpSend so d \<in> set (deliver_trace os ctx sess k ps) \<longrightarrow>
      good_answer os (s_handle sess) xs (j + complete ps) d)"
    using assms
  proof (induction arbitrary: j rule: delivers.induct)
    case (failed call b r err q k)
    have "b \<noteq> []" using chunks_nth [OF failed(4,7)] failed(8) by simp
    with whole_write_cases(1) [OF failed(3,1)] failed(2) have "r \<in> {0, - 1}" by blast
    with \<open>b \<noteq> []\<close> failed(7) show ?case
      by (auto simp: complete_def good_answer_def)
  next
    case (partly call b r err q k)
    have "b \<noteq> []" using chunks_nth [OF partly(5,8)] partly(9) by simp
    with whole_write_cases(2) [OF partly(4,1)] partly(3) have "r \<in> {0, - 1}" by blast
    with partly show ?case
      by (auto simp: complete_def good_answer_def)
  next
    case (finished call b err q k)
    have "drop j xs = b # drop (Suc j) xs" using finished by (simp add: Cons_nth_drop_Suc)
    with finished show ?case
      by (auto simp: complete_def good_answer_def)
  next
    case (more call b err q k b' ps)
    from more.prems(3) more.hyps(3) obtain i where i: "i < length xs" "k + 1 = seq_of i" "b' = xs ! i" by blast
    have "i < 2 ^ 32" "j < 2 ^ 32 - 1" using i(1) more.prems(2,5) by (simp_all add: chunks_ok_def)
    from seq_of_next [OF this] have ij: "i = Suc j" using i(2) more.prems(4) by simp
    have "\<forall>k2 b2. (q(k + 1 := None)) k2 = Some b2 \<longrightarrow> (\<exists>i < length xs. k2 = seq_of i \<and> b2 = xs ! i)"
      using more.prems(3) by simp
    from more.IH [OF more.prems(1,2) this i(2,1) i(3)] have ih: "Suc j + complete ps \<le> length xs"
      "concat (map (tcp_bytes (s_sock sess)) (deliver_trace os ctx sess (k + 1) ps)) =
        concat (take (complete ps) (drop (Suc j) xs))"
      "length (filter (full_write (s_sock sess)) (deliver_trace os ctx sess (k + 1) ps)) = complete ps"
      "\<forall>so d. UdpSend so d \<in> set (deliver_trace os ctx sess (k + 1) ps) \<longrightarrow>
        good_answer os (s_handle sess) xs (Suc j + complete ps) d" by (simp_all add: ij)
    have "drop j xs = b # drop (Suc j) xs" using more.prems by (simp add: Cons_nth_drop_Suc)
    moreover have "good_answer os (s_handle sess) xs (j + Suc (complete ps)) (answer os (s_handle sess) k (int (length b)))"
      using more.prems(4,6) unfolding good_answer_def by (intro exI conjI) (auto intro!: exI [of _ j])
    moreover have "complete ((b, int (length b), False) # ps) = Suc (complete ps)" by (simp add: complete_def)
    ultimately show ?case using ih by auto
  qed
  then show "j + complete ps \<le> length xs"
    "concat (map (tcp_bytes (s_sock sess)) (deliver_trace os ctx sess k ps)) = concat (take (complete ps) (drop j xs))"
    "length (filter (full_write (s_sock sess)) (deliver_trace os ctx sess k ps)) = complete ps"
    "UdpSend so d \<in> set (deliver_trace os ctx sess k ps) \<Longrightarrow>
      good_answer os (s_handle sess) xs (j + complete ps) d" by blast+
qed

section \<open>The invariant of one end\<close>

text \<open>
  \<open>sent\<close> are the chunks that the end has read from its TCP socket, \<open>peer\<close> those of the other end, of
  which this end has written the first \<open>delivered_count\<close>; the other end has written \<open>acked\<close> of \<open>sent\<close>.
  Sessions have handle \<open>h\<close> at both ends.
\<close>

definition own_msg :: "arch \<Rightarrow> u64 \<Rightarrow> byte list list \<Rightarrow> t2u_message \<Rightarrow> bool" where
  "own_msg ar h sent msg \<longleftrightarrow>
     (\<exists>i < length sent. m_seq msg = seq_of i \<and> valid_length msg = int (length (sent ! i)) \<and>
        m_data msg = Some (new_mdata ar data_request h (seq_of i) (sent ! i)))"

definition early_msg :: "byte list list \<Rightarrow> t2u_message \<Rightarrow> bool" where
  "early_msg peer msg \<longleftrightarrow>
     (\<exists>i < length peer. \<exists>data. m_data msg = Some data \<and> md_seq data = seq_of i \<and> md_payload data = peer ! i)"

definition stream_msg :: "arch \<Rightarrow> u64 \<Rightarrow> byte list list \<Rightarrow> byte list list \<Rightarrow> t2u_message \<Rightarrow> bool" where
  "stream_msg ar h sent peer msg \<longleftrightarrow> (if m_session msg = NULL then early_msg peer msg else own_msg ar h sent msg)"

text \<open>What an end sends: its chunks, answers, requests for missing packets, and close requests.\<close>

definition stream_datagram :: "arch \<Rightarrow> u64 \<Rightarrow> byte list list \<Rightarrow> byte list list \<Rightarrow> nat \<Rightarrow> byte list \<Rightarrow> bool" where
  "stream_datagram ar h sent peer n d \<longleftrightarrow>
     (\<exists>i < length sent. d = md_bytes (new_mdata ar data_request h (seq_of i) (sent ! i))) \<or>
     (\<exists>k v. d = md_bytes (new_mdata ar data_response h k (put_u32 (word_of_int v))) \<and>
        (v \<in> {0, - 1} \<or> (\<exists>i < n. k = seq_of i \<and> v = int (length (peer ! i))))) \<or>
     (\<exists>k. d = md_bytes (new_mdata ar retrans_request h k [])) \<or>
     (\<exists>h'. d = md_bytes (new_mdata ar close_request h' 0 []))"

abbreviation chunk_datagram :: "arch \<Rightarrow> u64 \<Rightarrow> byte list list \<Rightarrow> nat \<Rightarrow> byte list" where
  "chunk_datagram ar h sent i \<equiv> md_bytes (new_mdata ar data_request h (seq_of i) (sent ! i))"

definition end_session :: "u64 \<Rightarrow> int \<Rightarrow> addr \<Rightarrow> byte list list \<Rightarrow> nat \<Rightarrow> nat \<Rightarrow> world \<Rightarrow> t2u_session \<Rightarrow> bool" where
  "end_session h sock c sent n acked w sess \<longleftrightarrow>
     s_status sess \<noteq> 1 \<and> s_handle sess = h \<and> s_sock sess = sock \<and>
     s_send_seq sess = of_nat (length sent) \<and> s_recv_seq sess = of_nat n \<and>
     (\<exists>r rule ctx run. linked w sess r rule c ctx run) \<and>
     (\<forall>i < length sent. send_map sess (seq_of i) = None \<longrightarrow> i < acked)"

definition end_ok ::
  "arch \<Rightarrow> u64 \<Rightarrow> addr \<Rightarrow> int \<Rightarrow> addr \<Rightarrow> byte list list \<Rightarrow> byte list list \<Rightarrow> nat \<Rightarrow> world \<Rightarrow> bool" where
  "end_ok ar h s sock c sent peer acked w \<longleftrightarrow>
     world_ok w \<and> (\<exists>ctx. w_contexts w c = Some ctx) \<and>
     (\<forall>s' sess. w_sessions w s' = Some sess \<longrightarrow> s_handle sess = h \<longrightarrow> s' = s) \<and>
     (\<forall>sess. w_sessions w s = Some sess \<longrightarrow>
        end_session h sock c sent (delivered_count sock w) acked w sess) \<and>
     (\<forall>m msg. w_messages w m = Some msg \<longrightarrow> stream_msg ar h sent peer msg) \<and>
     (\<forall>so d. UdpSend so d \<in> set (w_out w) \<longrightarrow> stream_datagram ar h sent peer (delivered_count sock w) d) \<and>
     delivered_count sock w \<le> length peer \<and>
     written sock w = concat (take (delivered_count sock w) peer) \<and>
     (\<forall>i < length sent. \<exists>so. UdpSend so (chunk_datagram ar h sent i) \<in> set (w_out w))"

lemma end_okD:
  assumes "end_ok ar h s sock c sent peer acked w"
  shows "world_ok w" "\<exists>ctx. w_contexts w c = Some ctx"
    "w_sessions w s' = Some sess \<Longrightarrow> s_handle sess = h \<Longrightarrow> s' = s"
    "w_sessions w s = Some sess \<Longrightarrow> end_session h sock c sent (delivered_count sock w) acked w sess"
    "w_messages w m = Some msg \<Longrightarrow> stream_msg ar h sent peer msg"
    "UdpSend so d \<in> set (w_out w) \<Longrightarrow> stream_datagram ar h sent peer (delivered_count sock w) d"
    "delivered_count sock w \<le> length peer" "written sock w = concat (take (delivered_count sock w) peer)"
    "i < length sent \<Longrightarrow> \<exists>so. UdpSend so (chunk_datagram ar h sent i) \<in> set (w_out w)"
  using assms unfolding end_ok_def by blast+

text \<open>The chunks of both ends only grow, and so does what the other end has written.\<close>

lemma own_msg_mono: "own_msg ar h sent msg \<Longrightarrow> own_msg ar h (sent @ l) msg"
  by (fastforce simp: own_msg_def nth_append)

lemma early_msg_mono: "early_msg peer msg \<Longrightarrow> early_msg (peer @ l) msg"
  by (fastforce simp: early_msg_def nth_append)

lemma stream_msg_mono: "stream_msg ar h sent peer msg \<Longrightarrow> stream_msg ar h (sent @ l) (peer @ l') msg"
  by (simp add: stream_msg_def own_msg_mono early_msg_mono)

lemma stream_datagram_mono:
  assumes d: "stream_datagram ar h sent peer n d" and n: "n \<le> n'" "n \<le> length peer"
  shows "stream_datagram ar h (sent @ l) (peer @ l') n' d"
  using d unfolding stream_datagram_def
proof (elim disjE exE conjE)
  fix i
  assume "i < length sent" "d = md_bytes (new_mdata ar data_request h (seq_of i) (sent ! i))"
  then have "i < length (sent @ l) \<and> d = md_bytes (new_mdata ar data_request h (seq_of i) ((sent @ l) ! i))"
    by (simp add: nth_append)
  then show "(\<exists>i < length (sent @ l). d = md_bytes (new_mdata ar data_request h (seq_of i) ((sent @ l) ! i))) \<or>
     (\<exists>k v. d = md_bytes (new_mdata ar data_response h k (put_u32 (word_of_int v))) \<and>
        (v \<in> {0, - 1} \<or> (\<exists>i < n'. k = seq_of i \<and> v = int (length ((peer @ l') ! i))))) \<or>
     (\<exists>k. d = md_bytes (new_mdata ar retrans_request h k [])) \<or>
     (\<exists>h'. d = md_bytes (new_mdata ar close_request h' 0 []))" by blast
next
  fix k v i
  assume "i < n" "k = seq_of i" "v = int (length (peer ! i))"
    "d = md_bytes (new_mdata ar data_response h k (put_u32 (word_of_int v)))"
  moreover have "(peer @ l') ! i = peer ! i" "i < n'" using \<open>i < n\<close> n by (simp_all add: nth_append)
  ultimately show "(\<exists>i < length (sent @ l). d = md_bytes (new_mdata ar data_request h (seq_of i) ((sent @ l) ! i))) \<or>
     (\<exists>k v. d = md_bytes (new_mdata ar data_response h k (put_u32 (word_of_int v))) \<and>
        (v \<in> {0, - 1} \<or> (\<exists>i < n'. k = seq_of i \<and> v = int (length ((peer @ l') ! i))))) \<or>
     (\<exists>k. d = md_bytes (new_mdata ar retrans_request h k [])) \<or>
     (\<exists>h'. d = md_bytes (new_mdata ar close_request h' 0 []))" by metis
qed blast+

lemma end_ok_mono:
  assumes "end_ok ar h s sock c sent peer acked w" "acked \<le> acked'"
  shows "end_ok ar h s sock c sent (peer @ l) acked' w"
proof -
  note E = end_okD [OF assms(1)]
  have "end_session h sock c sent (delivered_count sock w) acked' w sess" if "w_sessions w s = Some sess" for sess
    using E(4) [OF that] assms(2) by (fastforce simp: end_session_def)
  moreover have "stream_msg ar h sent (peer @ l) msg" if "w_messages w m = Some msg" for m msg
    using stream_msg_mono [OF E(5) [OF that], of "[]"] by simp
  moreover have "stream_datagram ar h sent (peer @ l) (delivered_count sock w) d" if "UdpSend so d \<in> set (w_out w)" for so d
    using stream_datagram_mono [OF E(6) [OF that] order_refl E(7), of "[]"] by simp
  ultimately show ?thesis using assms(1) E(7,8,9) by (auto simp: end_ok_def)
qed

lemma end_ok_calls [simp]: "end_ok ar h s sock c sent peer acked (w\<lparr>w_calls := k\<rparr>) = end_ok ar h s sock c sent peer acked w"
  by (simp add: end_ok_def end_session_def delivered_count_def written_def)

section \<open>Steps that keep the invariant\<close>

lemma map_le_Some: "f \<subseteq>\<^sub>m g \<Longrightarrow> f x = Some y \<Longrightarrow> g x = Some y"
  by (force simp: map_le_def)

lemma cores_session:
  assumes "cores w' \<subseteq>\<^sub>m cores w" "w_sessions w' s = Some sess'"
  shows "\<exists>sess. w_sessions w s = Some sess \<and> core sess' = core sess"
  using map_le_Some [OF assms(1), of s] assms(2) by (auto simp: cores_def)

lemma links_linked:
  assumes k: "keeps_links w w'" and w': "world_ok w'" and s: "w_sessions w s = Some sess" "w_sessions w' s = Some sess'"
    and l: "linked w sess r rule c ctx n"
  shows "\<exists>rule'. linked w' sess' r rule' c ctx n" "s_handle sess' = s_handle sess" "s_sock sess' = s_sock sess"
proof -
  have "cores w' s = Some (core sess')" "cores w s = Some (core sess)" using s by (simp_all add: cores_def)
  with k map_le_Some [of "cores w'" "cores w" s] have c: "core sess' = core sess" by (simp add: keeps_links_def)
  then show "s_handle sess' = s_handle sess" "s_sock sess' = s_sock sess" by (simp_all add: core_def)
  from world_okD(1) [OF w' s(2)] obtain r2 rule' c2 ctx2 n2 where l2: "linked w' sess' r2 rule' c2 ctx2 n2"
    by (rule session_okE)
  have r: "r2 = r" using l l2 c by (auto simp: linked_def core_def)
  have "rule_contexts w' r = rule_contexts w r" using k by (simp add: keeps_links_def)
  then have "r_context rule' = r_context rule" using l l2 r by (simp add: rule_contexts_def linked_def)
  moreover have "w_contexts w' = w_contexts w" using k by (simp add: keeps_links_def)
  ultimately have "linked w' sess' r rule' c ctx n" using l l2 r by (auto simp: linked_def)
  then show "\<exists>rule'. linked w' sess' r rule' c ctx n" ..
qed

lemma end_ok_step:
  assumes E: "end_ok ar h s sock c sent peer acked w" and w': "world_ok w'" and k: "keeps_links w w'"
    and alive: "\<And>sess sess'. w_sessions w s = Some sess \<Longrightarrow> w_sessions w' s = Some sess' \<Longrightarrow>
      s_status sess' \<noteq> 1 \<and> s_send_seq sess' = of_nat (length (sent @ l)) \<and> s_recv_seq sess' = of_nat n' \<and>
      (\<forall>i < length (sent @ l). send_map sess' (seq_of i) = None \<longrightarrow> i < acked)"
    and msgs: "\<And>m msg. w_messages w' m = Some msg \<Longrightarrow> stream_msg ar h (sent @ l) peer msg"
    and out: "w_out w' = w_out w @ acts" "n' = delivered_count sock w + length (filter (full_write sock) acts)"
      "n' \<le> length peer"
      "concat (map (tcp_bytes sock) acts) = concat (take (n' - delivered_count sock w) (drop (delivered_count sock w) peer))"
      "\<And>so d. UdpSend so d \<in> set acts \<Longrightarrow> stream_datagram ar h (sent @ l) peer n' d"
    and new: "\<And>i. length sent \<le> i \<Longrightarrow> i < length (sent @ l) \<Longrightarrow>
      \<exists>so. UdpSend so (chunk_datagram ar h (sent @ l) i) \<in> set acts"
  shows "end_ok ar h s sock c (sent @ l) peer acked w' \<and> delivered_count sock w' = n'"
proof -
  note E = end_okD [OF E]
  have n: "delivered_count sock w' = n'" using out(1,2) by (simp add: delivered_count_def)
  have "written sock w' = concat (take (delivered_count sock w) peer) @
      concat (take (n' - delivered_count sock w) (drop (delivered_count sock w) peer))"
    using E(8) out(1,4) by (simp add: written_def)
  also have "\<dots> = concat (take (delivered_count sock w + (n' - delivered_count sock w)) peer)"
    by (simp add: take_add)
  also have "delivered_count sock w + (n' - delivered_count sock w) = n'" using out(2) by simp
  finally have wr: "written sock w' = concat (take n' peer)" .
  have cores: "cores w' \<subseteq>\<^sub>m cores w" "w_contexts w' = w_contexts w" using k by (simp_all add: keeps_links_def)
  have only: "s' = s" if "w_sessions w' s' = Some sess'" "s_handle sess' = h" for s' sess'
    using cores_session [OF cores(1) that(1)] E(3) that(2) by (auto simp: core_def)
  have "end_session h sock c (sent @ l) n' acked w' sess'" if s': "w_sessions w' s = Some sess'" for sess'
  proof -
    from cores_session [OF cores(1) s'] obtain sess where s: "w_sessions w s = Some sess" by blast
    from E(4) [OF s] obtain r rule ctx run where l: "linked w sess r rule c ctx run" and
      hs: "s_handle sess = h" "s_sock sess = sock" by (auto simp: end_session_def)
    from links_linked [OF k w' s s' l] alive [OF s s'] hs show ?thesis by (auto simp: end_session_def)
  qed
  moreover have "stream_datagram ar h (sent @ l) peer n' d" if "UdpSend so d \<in> set (w_out w')" for so d
    using that out(1,5) stream_datagram_mono [OF E(6) _ E(7), of so d n' l "[]"] out(2) by auto
  moreover have "\<exists>so. UdpSend so (chunk_datagram ar h (sent @ l) i) \<in> set (w_out w')" if i: "i < length (sent @ l)" for i
    using new [OF _ i] E(9) [of i] out(1) i by (cases "i < length sent") (auto simp: nth_append)
  ultimately show ?thesis
    unfolding end_ok_def n using w' E(2) cores(2) only msgs out(3) wr by auto
qed

text \<open>A step that neither reads nor writes TCP data.\<close>

definition quiet :: "arch \<Rightarrow> u64 \<Rightarrow> byte list list \<Rightarrow> byte list list \<Rightarrow> nat \<Rightarrow> action \<Rightarrow> bool" where
  "quiet ar h sent peer n a \<longleftrightarrow>
     (case a of TcpSend _ _ _ \<Rightarrow> False | UdpSend _ d \<Rightarrow> stream_datagram ar h sent peer n d | _ \<Rightarrow> True)"

lemma quiet_simps [simp]:
  "quiet ar h sent peer n (EventAdd e tv)" "quiet ar h sent peer n (EventFree e)"
  "quiet ar h sent peer n (UdpSend so d) = stream_datagram ar h sent peer n d"
  by (simp_all add: quiet_def)

lemma quiet_ending: "ending ar a \<Longrightarrow> quiet ar h sent peer n a"
  by (auto simp: ending_def quiet_def stream_datagram_def split: action.splits)

lemma quiet_silent: "quiet ar h sent peer n a \<Longrightarrow> tcp_bytes sock a = []" "quiet ar h sent peer n a \<Longrightarrow> \<not> full_write sock a"
  by (auto simp: quiet_def tcp_bytes_def full_write_def split: action.splits)

lemma end_ok_quiet:
  assumes E: "end_ok ar h s sock c sent peer acked w" and w': "world_ok w'" and k: "keeps_links w w'"
    and alive: "\<And>sess sess'. w_sessions w s = Some sess \<Longrightarrow> w_sessions w' s = Some sess' \<Longrightarrow>
      s_status sess' \<noteq> 1 \<and> s_send_seq sess' = of_nat (length (sent @ l)) \<and> s_recv_seq sess' = s_recv_seq sess \<and>
      (\<forall>i < length (sent @ l). send_map sess' (seq_of i) = None \<longrightarrow> i < acked)"
    and msgs: "\<And>m msg. w_messages w' m = Some msg \<Longrightarrow> stream_msg ar h (sent @ l) peer msg"
    and out: "w_out w' = w_out w @ acts" "\<And>a. a \<in> set acts \<Longrightarrow> quiet ar h (sent @ l) peer (delivered_count sock w) a"
    and new: "\<And>i. length sent \<le> i \<Longrightarrow> i < length (sent @ l) \<Longrightarrow>
      \<exists>so. UdpSend so (chunk_datagram ar h (sent @ l) i) \<in> set acts"
  shows "end_ok ar h s sock c (sent @ l) peer acked w' \<and> delivered_count sock w' = delivered_count sock w"
proof (rule end_ok_step [OF E w' k _ msgs out(1) _ _ _ _ new])
  have "concat (map (tcp_bytes sock) acts) = []" "filter (full_write sock) acts = []"
    using quiet_silent [OF out(2)] by (simp_all add: filter_empty_conv)
  then show "delivered_count sock w = delivered_count sock w + length (filter (full_write sock) acts)"
    "concat (map (tcp_bytes sock) acts) =
      concat (take (delivered_count sock w - delivered_count sock w) (drop (delivered_count sock w) peer))" by simp_all
  show "delivered_count sock w \<le> length peer" by (rule end_okD(7) [OF E])
  show "stream_datagram ar h (sent @ l) peer (delivered_count sock w) d" if "UdpSend so d \<in> set acts" for so d
    using out(2) [OF that] by simp
  show "s_status sess' \<noteq> 1 \<and> s_send_seq sess' = of_nat (length (sent @ l)) \<and>
      s_recv_seq sess' = of_nat (delivered_count sock w) \<and>
      (\<forall>i < length (sent @ l). send_map sess' (seq_of i) = None \<longrightarrow> i < acked)"
    if "w_sessions w s = Some sess" "w_sessions w' s = Some sess'" for sess sess'
    using alive [OF that] end_okD(4) [OF E that(1)] by (simp add: end_session_def)
qed

section \<open>Timers and the TCP socket\<close>

lemma end_session_keep:
  assumes E: "end_ok ar h s sock c sent peer acked w" and s: "w_sessions w s = Some sess"
    and f: "s_status sess' \<noteq> 1" "s_send_seq sess' = s_send_seq sess" "s_recv_seq sess' = s_recv_seq sess"
      "send_map sess' = send_map sess"
  shows "s_status sess' \<noteq> 1 \<and> s_send_seq sess' = of_nat (length (sent @ [])) \<and> s_recv_seq sess' = s_recv_seq sess \<and>
    (\<forall>i < length (sent @ []). send_map sess' (seq_of i) = None \<longrightarrow> i < acked)"
  using end_okD(4) [OF E s] f by (simp add: end_session_def)

lemma end_ok_status: "end_ok ar h s sock c sent peer acked w \<Longrightarrow> w_sessions w s = Some sess \<Longrightarrow> s_status sess \<noteq> 1"
  by (drule (1) end_okD(4)) (simp add: end_session_def)

text \<open>A session ends, this one or another.\<close>

lemma end_ok_ended:
  assumes E: "end_ok ar h s sock c sent peer acked w" and w': "world_ok w'" "keeps_links w w'"
    and d: "w_sessions w' = (w_sessions w)(s2 := None)" "w_messages w' \<subseteq>\<^sub>m w_messages w"
    and out: "w_out w' = w_out w @ acts" "\<And>a. a \<in> set acts \<Longrightarrow> ending ar a"
  shows "end_ok ar h s sock c sent peer acked w' \<and> delivered_count sock w' = delivered_count sock w"
proof -
  have "end_ok ar h s sock c (sent @ []) peer acked w' \<and> delivered_count sock w' = delivered_count sock w"
  proof (rule end_ok_quiet [OF E w' _ _ out(1)])
    show "s_status sess' \<noteq> 1 \<and> s_send_seq sess' = of_nat (length (sent @ [])) \<and> s_recv_seq sess' = s_recv_seq sess \<and>
        (\<forall>i < length (sent @ []). send_map sess' (seq_of i) = None \<longrightarrow> i < acked)"
      if "w_sessions w s = Some sess" "w_sessions w' s = Some sess'" for sess sess'
    proof -
      have "sess' = sess" using that d(1) by (simp split: if_splits)
      with end_session_keep [OF E that(1), of sess] end_ok_status [OF E that(1)] show ?thesis by simp
    qed
    show "stream_msg ar h (sent @ []) peer msg" if "w_messages w' m = Some msg" for m msg
      using end_okD(5) [OF E map_le_Some [OF d(2) that]] by simp
  qed (simp_all add: quiet_ending [OF out(2)])
  then show ?thesis by simp
qed

lemma end_ok_deleted:
  assumes E: "end_ok ar h s sock c sent peer acked w" and s2: "w_sessions w s2 = Some sess" "s_status sess \<noteq> 1"
    and e: "t2u_delete_connected_session os s2 sync w = Some w'" "os_arch os = ar"
  shows "end_ok ar h s sock c sent peer acked w' \<and> delivered_count sock w' = delivered_count sock w"
proof -
  note w = end_okD(1) [OF E]
  obtain r rule c2 ctx n where l: "linked w sess r rule c2 ctx n" by (rule session_okE [OF world_okD(1) [OF w s2(1)]])
  from delete_connected_session_ok [OF w s2 l, of os sync] e(1) have
    d: "world_ok w'" "w_sessions w' = (w_sessions w)(s2 := None)" "w_messages w' = w_messages w |` (- messages_of sess)"
      "w_out w' = w_out w @ session_end_trace os ctx sess sync" by auto
  have "w_messages w' \<subseteq>\<^sub>m w_messages w" unfolding d(3) by (auto simp: map_le_def restrict_map_def split: if_splits)
  from end_ok_ended [OF E d(1) delete_connected_session_links [OF e(1)] d(2) this d(4)] session_end_ending e(2)
  show ?thesis by blast
qed

text \<open>A message in the send queue carries its chunk, so its datagram is one of the stream.\<close>

lemma own_msg_datagram:
  assumes o: "own_msg ar h sent msg" and m: "send_msg_ok c s k m msg" "m_data msg = Some data"
  shows "stream_datagram ar h sent peer n (take (unat (m_len msg)) (md_bytes data))"
proof -
  from o obtain i where i: "i < length sent" "valid_length msg = int (length (sent ! i))"
    "data = new_mdata ar data_request h (seq_of i) (sent ! i)" using m(2) by (auto simp: own_msg_def)
  have "unat (m_len msg) = sizeof_md + length (sent ! i)" using valid_length_ok [OF m(1)] i(2) by linarith
  then have "unat (m_len msg) = length (md_bytes data)" by (simp add: i(3) new_mdata_def)
  then have "take (unat (m_len msg)) (md_bytes data) = md_bytes (new_mdata ar data_request h (seq_of i) (sent ! i))"
    using i(3) by simp
  with i(1) show ?thesis unfolding stream_datagram_def by blast
qed

text \<open>The session of a message that has a timer.\<close>

lemma timer_owner:
  assumes w: "world_ok w" and m: "w_messages w m = Some msg" "m_ev_timeout msg = Some ev"
  shows "\<exists>s sess r rule c ctx n data. w_sessions w s = Some sess \<and> linked w sess r rule c ctx n \<and>
    m_session msg = Some s \<and> m_data msg = Some data \<and> send_msg_ok (r, c, n) s (m_seq msg) m msg \<and> s_status sess \<noteq> 1"
proof -
  from world_okD(5) [OF w] m(1) obtain s sess where s: "w_sessions w s = Some sess" "m \<in> messages_of sess"
    unfolding messages_ok_def by blast
  from world_okD(1) [OF w s(1)] obtain r rule c ctx n where l: "linked w sess r rule c ctx n" and
    q: "queues_ok (r, c, n) (w_messages w) s sess" by (rule session_okE)
  have "recv_map sess k \<noteq> Some m" for k
    using recv_queue_okD(3) [OF queues_okD(2) [OF q], of k m] m by (auto simp: recv_msg_ok_def)
  with s(2) obtain k where k: "send_map sess k = Some m" by (auto simp: messages_of_def ran_def)
  from send_queue_okD(3) [OF queues_okD(1) [OF q] k] m(1) have o: "send_msg_ok (r, c, n) s k m msg" by auto
  have "s_status sess \<noteq> 1" using world_okD(1) [OF w s(1)] s(2) by (auto simp: session_ok_def)
  with s(1) l o show ?thesis unfolding send_msg_ok_def by blast
qed

lemma end_ok_request_timeout:
  assumes E: "end_ok ar h s sock c sent peer acked w"
    and e: "process_request_timeout_cb os m w = Some w'" "os_arch os = ar"
  shows "end_ok ar h s sock c sent peer acked w' \<and> delivered_count sock w' = delivered_count sock w"
proof -
  note w = end_okD(1) [OF E]
  from e(1) obtain msg ev where m: "w_messages w m = Some msg" "m_ev_timeout msg = Some ev"
    by (auto simp: process_request_timeout_cb_def bind_Some_iff)
  from timer_owner [OF w m] obtain s2 sess r rule c2 ctx n data where
    s2: "w_sessions w s2 = Some sess" "linked w sess r rule c2 ctx n" "m_session msg = Some s2" "m_data msg = Some data"
      "send_msg_ok (r, c2, n) s2 (m_seq msg) m msg" "s_status sess \<noteq> 1" by blast
  from request_timeout_ok_spec [OF w m(1) s2(3,1,2,4), of os] e(1) have
    t: "world_ok w'" "w_messages w' = (w_messages w)(m \<mapsto> msg\<lparr>m_send_retries := m_send_retries msg + 1\<rparr>)" and
    c: "if m_send_retries msg > c_udp_slide_window ctx
     then w_sessions w' = (w_sessions w)(s2 \<mapsto> sess\<lparr>s_status := 3\<rparr>) \<and> w_out w' = w_out w
     else w_sessions w' = (w_sessions w)(s2 \<mapsto> sess\<lparr>s_last_send_ts := os_time os (w_calls w)\<rparr>) \<and>
       w_out w' = w_out w @
         [EventAdd (evtimer Cb_request_timeout) (Some (timeval_ms (c_utimeout ctx))),
          UdpSend (c_sock ctx) (take (unat (m_len msg)) (md_bytes data))]" by auto
  obtain sess2 acts where st: "w_sessions w' = (w_sessions w)(s2 \<mapsto> sess2)" "w_out w' = w_out w @ acts"
    "s_status sess2 \<noteq> 1" "s_send_seq sess2 = s_send_seq sess" "s_recv_seq sess2 = s_recv_seq sess"
    "send_map sess2 = send_map sess"
    "set acts \<subseteq> {EventAdd (evtimer Cb_request_timeout) (Some (timeval_ms (c_utimeout ctx))),
          UdpSend (c_sock ctx) (take (unat (m_len msg)) (md_bytes data))}"
  proof (cases "m_send_retries msg > c_udp_slide_window ctx")
    case True
    with c show thesis by (intro that [of "sess\<lparr>s_status := 3\<rparr>" "[]"]) simp_all
  next
    case False
    with c s2(6) show thesis by (intro that [of "sess\<lparr>s_last_send_ts := os_time os (w_calls w)\<rparr>"]) auto
  qed
  have own: "own_msg ar h sent msg" using end_okD(5) [OF E m(1)] s2(3) by (simp add: stream_msg_def)
  have "end_ok ar h s sock c (sent @ []) peer acked w' \<and> delivered_count sock w' = delivered_count sock w"
  proof (rule end_ok_quiet [OF E t(1) request_timeout_links [OF e(1)] _ _ st(2)])
    show "s_status sess' \<noteq> 1 \<and> s_send_seq sess' = of_nat (length (sent @ [])) \<and> s_recv_seq sess' = s_recv_seq sess1 \<and>
        (\<forall>i < length (sent @ []). send_map sess' (seq_of i) = None \<longrightarrow> i < acked)"
      if "w_sessions w s = Some sess1" "w_sessions w' s = Some sess'" for sess1 sess'
      using that st s2(1) end_session_keep [OF E that(1), of sess'] end_ok_status [OF E that(1)]
      by (simp split: if_splits)
    show "stream_msg ar h (sent @ []) peer msg2" if "w_messages w' m2 = Some msg2" for m2 msg2
    proof (cases "m2 = m")
      case True
      with that t(2) have "msg2 = msg\<lparr>m_send_retries := m_send_retries msg + 1\<rparr>" by simp
      with own s2(3) show ?thesis by (simp add: stream_msg_def own_msg_def valid_length_def)
    next
      case False
      with that t(2) end_okD(5) [OF E, of m2 msg2] show ?thesis by simp
    qed
    show "quiet ar h (sent @ []) peer (delivered_count sock w) a" if "a \<in> set acts" for a
      using that st(7) own_msg_datagram [OF own s2(5,4)] by auto
  qed simp
  then show ?thesis by simp
qed

text \<open>The periodic check.\<close>

lemma end_ok_check:
  assumes E: "end_ok ar h s sock c sent peer acked w" and s2: "w_sessions w s2 = Some sess" "s_status sess \<noteq> 1"
    and e: "session_timeout_check_cb os s2 w = Some w'" "os_arch os = ar"
  shows "end_ok ar h s sock c sent peer acked w' \<and> delivered_count sock w' = delivered_count sock w"
proof -
  note w = end_okD(1) [OF E]
  obtain r rule c2 ctx n where l: "linked w sess r rule c2 ctx n" by (rule session_okE [OF world_okD(1) [OF w s2(1)]])
  from timeout_check_ok_spec [OF w s2 l, of os, unfolded e(1) option.inject] obtain k where w': "world_ok w'" and
    c: "if inactive ctx sess (os_time os (w_calls w))
     then w_sessions w' = (w_sessions w)(s2 := None) \<and> w_messages w' = w_messages w |` (- messages_of sess) \<and>
       w_out w' = w_out w @ session_end_trace os ctx sess 0
     else w' = w\<lparr>w_calls := Suc (w_calls w), w_out := w_out w @ [EventAdd (evtimer Cb_timeout_check) (Some (k, 0))]\<rparr>"
    by metis
  show ?thesis
  proof (cases "inactive ctx sess (os_time os (w_calls w))")
    case True
    then have d: "w_sessions w' = (w_sessions w)(s2 := None)" "w_messages w' = w_messages w |` (- messages_of sess)"
      "w_out w' = w_out w @ session_end_trace os ctx sess 0" using c by simp_all
    have "w_messages w' \<subseteq>\<^sub>m w_messages w" unfolding d(2) by (auto simp: map_le_def restrict_map_def split: if_splits)
    from end_ok_ended [OF E w' timeout_check_links [OF e(1)] d(1) this d(3)] session_end_ending e(2) show ?thesis by blast
  next
    case False
    then have d: "w' = w\<lparr>w_calls := Suc (w_calls w), w_out := w_out w @ [EventAdd (evtimer Cb_timeout_check) (Some (k, 0))]\<rparr>"
      using c by simp
    have "end_ok ar h s sock c (sent @ []) peer acked w' \<and> delivered_count sock w' = delivered_count sock w"
    proof (rule end_ok_quiet [OF E w' timeout_check_links [OF e(1)]])
      show "w_out w' = w_out w @ [EventAdd (evtimer Cb_timeout_check) (Some (k, 0))]" by (simp add: d)
      show "s_status sess' \<noteq> 1 \<and> s_send_seq sess' = of_nat (length (sent @ [])) \<and> s_recv_seq sess' = s_recv_seq sess1 \<and>
        (\<forall>i < length (sent @ []). send_map sess' (seq_of i) = None \<longrightarrow> i < acked)"
        if "w_sessions w s = Some sess1" "w_sessions w' s = Some sess'" for sess1 sess'
        using that end_session_keep [OF E that(1), of sess'] end_ok_status [OF E that(1)] by (simp add: d)
      show "stream_msg ar h (sent @ []) peer msg" if "w_messages w' m = Some msg" for m msg
        using that end_okD(5) [OF E, of m] by (simp add: d)
    qed simp_all
    then show ?thesis by simp
  qed
qed

text \<open>Reading from the TCP socket: a new chunk, or none.\<close>

definition has_room :: "world \<Rightarrow> addr \<Rightarrow> addr \<Rightarrow> bool" where
  "has_room w s c \<longleftrightarrow>
     (\<exists>sess ctx. w_sessions w s = Some sess \<and> w_contexts w c = Some ctx \<and>
        unat (s_send_buffer_count sess) < c_udp_slide_window ctx)"

lemma next_seq_free:
  assumes E: "end_ok ar h s sock c sent peer acked w" and s: "w_sessions w s = Some sess"
    and n: "length sent < 2 ^ 32"
  shows "send_map sess (s_send_seq sess + 1) = None"
proof (rule ccontr)
  assume "send_map sess (s_send_seq sess + 1) \<noteq> None"
  then obtain m where k: "send_map sess (s_send_seq sess + 1) = Some m" by auto
  obtain c2 msg data where m: "w_messages w m = Some msg" "m_session msg = Some s"
    "send_msg_ok c2 s (s_send_seq sess + 1) m msg" by (rule queued_message [OF end_okD(1) [OF E] s k])
  from end_okD(5) [OF E m(1)] m(2) obtain i where i: "i < length sent" "m_seq msg = seq_of i"
    by (auto simp: stream_msg_def own_msg_def)
  have "m_seq msg = s_send_seq sess + 1" using m(3) by (simp add: send_msg_ok_def)
  moreover have "s_send_seq sess = of_nat (length sent)" using end_okD(4) [OF E s] by (simp add: end_session_def)
  ultimately have "seq_of i = seq_of (length sent)" using i(2) by simp
  with seq_of_eq [of i "length sent"] i(1) n show False by simp
qed

lemma end_ok_read_data:
  assumes E: "end_ok ar h s sock c sent peer acked w" and os: "os_ok os" "os_arch os = ar"
    and room: "has_room w s c" and recv: "os_recv os (w_calls w) so T2U_PAYLOAD_MAX = (rd, err, bytes)" "0 < rd"
    and e: "t2u_session_process_tcp os so s w = Some w'" and n: "length sent + 1 < 2 ^ 32"
  shows "end_ok ar h s sock c (sent @ [bytes]) peer acked w' \<and> delivered_count sock w' = delivered_count sock w"
proof -
  from room obtain sess ctx where s: "w_sessions w s = Some sess" and ctx: "w_contexts w c = Some ctx"
    "unat (s_send_buffer_count sess) < c_udp_slide_window ctx" by (auto simp: has_room_def)
  from end_okD(4) [OF E s] obtain r rule ctx2 run where l: "linked w sess r rule c ctx2 run" and
    st: "s_status sess \<noteq> 1" "s_handle sess = h" "s_send_seq sess = of_nat (length sent)"
    "\<forall>i < length sent. send_map sess (seq_of i) = None \<longrightarrow> i < acked" by (auto simp: end_session_def)
  have ctx2: "ctx2 = ctx" using l ctx(1) by (simp add: linked_def)
  have new: "send_map sess (s_send_seq sess + 1) = None" using next_seq_free [OF E s] n by simp
  let ?i = "length sent" and ?d = "new_mdata ar data_request h (seq_of (length sent)) bytes"
  have q: "s_send_seq sess + 1 = seq_of ?i" using st(3) by simp
  from process_tcp_data_spec [OF end_okD(1) [OF E] os(1) s st(1) l [unfolded ctx2] ctx(2) new recv,
      unfolded e option.inject q st(2) os(2)] obtain sess' msg where
    w': "world_ok w'" "w_sessions w' = (w_sessions w)(s \<mapsto> sess')"
      "send_map sess' = (send_map sess)(seq_of ?i \<mapsto> w_fresh w)" "s_send_seq sess' = seq_of ?i"
      "s_recv_seq sess' = s_recv_seq sess" "m_seq msg = seq_of ?i" "w_messages w' = (w_messages w)(w_fresh w \<mapsto> msg)"
      "valid_length msg = int (length bytes)" "m_data msg = Some ?d"
      "w_out w' = w_out w @ [EventAdd (evtimer Cb_request_timeout) (Some (timeval_ms (c_utimeout ctx))),
        UdpSend (c_sock ctx) (md_bytes ?d)]"
    by blast
  have own: "own_msg ar h (sent @ [bytes]) msg"
    using w'(6,8,9) unfolding own_msg_def by (intro exI [of _ ?i]) simp
  have status: "s_status sess' \<noteq> 1"
  proof -
    have m: "w_fresh w \<in> messages_of sess'" using w'(3) by (intro in_messages_of [of _ "seq_of ?i"]) simp
    have "w_sessions w' s = Some sess'" using w'(2) by simp
    from world_okD(1) [OF w'(1) this] m show ?thesis by (auto simp: session_ok_def)
  qed
  show ?thesis
  proof (rule end_ok_quiet [OF E w'(1) process_tcp_links [OF e] _ _ w'(10)])
    show "s_status sess2 \<noteq> 1 \<and> s_send_seq sess2 = of_nat (length (sent @ [bytes])) \<and> s_recv_seq sess2 = s_recv_seq sess1 \<and>
        (\<forall>i < length (sent @ [bytes]). send_map sess2 (seq_of i) = None \<longrightarrow> i < acked)"
      if "w_sessions w s = Some sess1" "w_sessions w' s = Some sess2" for sess1 sess2
    proof -
      have eq: "sess1 = sess" "sess2 = sess'" using that s w'(2) by simp_all
      have "i < acked" if "i < length (sent @ [bytes])" "send_map sess' (seq_of i) = None" for i
        using that st(4) w'(3) by (auto simp: less_Suc_eq split: if_splits)
      then show ?thesis unfolding eq using status w'(4,5) by simp
    qed
    show "stream_msg ar h (sent @ [bytes]) peer msg2" if "w_messages w' m = Some msg2" for m msg2
    proof (cases "m = w_fresh w")
      case True
      have "m_session msg \<noteq> NULL"
      proof -
        have "send_map sess' (seq_of ?i) = Some (w_fresh w)" "w_sessions w' s = Some sess'" using w'(2,3) by simp_all
        from queued_message [OF w'(1) this(2,1)] w'(7) show ?thesis by auto
      qed
      with True that w'(7) own show ?thesis by (auto simp: stream_msg_def)
    next
      case False
      with that w'(7) stream_msg_mono [OF end_okD(5) [OF E, of m msg2], of "[bytes]" "[]"] show ?thesis by simp
    qed
    have "stream_datagram ar h (sent @ [bytes]) peer (delivered_count sock w) (md_bytes ?d)"
      unfolding stream_datagram_def by (intro disjI1 exI [of _ ?i]) simp
    then show "quiet ar h (sent @ [bytes]) peer (delivered_count sock w) a" if
      "a \<in> set [EventAdd (evtimer Cb_request_timeout) (Some (timeval_ms (c_utimeout ctx))), UdpSend (c_sock ctx) (md_bytes ?d)]" for a
      using that by auto
    show "\<exists>so. UdpSend so (chunk_datagram ar h (sent @ [bytes]) i) \<in>
        set [EventAdd (evtimer Cb_request_timeout) (Some (timeval_ms (c_utimeout ctx))), UdpSend (c_sock ctx) (md_bytes ?d)]"
      if "length sent \<le> i" "i < length (sent @ [bytes])" for i
    proof -
      have "i = ?i" using that by simp
      then show ?thesis by simp
    qed
  qed
qed

lemma end_ok_read_none:
  assumes E: "end_ok ar h s sock c sent peer acked w" and os: "os_arch os = ar"
    and recv: "os_recv os (w_calls w) so T2U_PAYLOAD_MAX = (rd, err, bytes)" "\<not> (has_room w s c \<and> 0 < rd)"
    and e: "t2u_session_process_tcp os so s w = Some w'"
  shows "end_ok ar h s sock c sent peer acked w' \<and> delivered_count sock w' = delivered_count sock w"
proof -
  note w = end_okD(1) [OF E]
  from e obtain sess where s: "w_sessions w s = Some sess" by (auto simp: t2u_session_process_tcp_def bind_Some_iff)
  from end_okD(4) [OF E s] obtain r rule ctx run where l: "linked w sess r rule c ctx run" and st: "s_status sess \<noteq> 1"
    by (auto simp: end_session_def)
  note L = linkedD [OF l]
  show ?thesis
  proof (cases "c_udp_slide_window ctx \<le> unat (s_send_buffer_count sess)")
    case True
    obtain ev where ev: "s_ev sess = Some ev" "te_context ev = Some c" "te_session ev = Some s"
      by (rule established [OF w s st l])
    from e s ev L(4) True obtain event where armed: "te_event ev = Some event"
      by (auto simp: t2u_session_process_tcp_def the_context_def bind_Some_iff)
    let ?sess = "sess\<lparr>s_ev := Some (ev\<lparr>te_event := None\<rparr>)\<rparr>"
    from process_tcp_full [OF w s st ev(1) l armed True, of os so, unfolded e option.inject] have
      d: "world_ok w'" "w' = w\<lparr>w_sessions := (w_sessions w)(s \<mapsto> ?sess), w_out := w_out w @ [EventFree event]\<rparr>" by auto
    have "end_ok ar h s sock c (sent @ []) peer acked w' \<and> delivered_count sock w' = delivered_count sock w"
    proof (rule end_ok_quiet [OF E d(1) process_tcp_links [OF e]])
      show "w_out w' = w_out w @ [EventFree event]" by (simp add: d)
      show "s_status sess' \<noteq> 1 \<and> s_send_seq sess' = of_nat (length (sent @ [])) \<and> s_recv_seq sess' = s_recv_seq sess1 \<and>
        (\<forall>i < length (sent @ []). send_map sess' (seq_of i) = None \<longrightarrow> i < acked)"
        if "w_sessions w s = Some sess1" "w_sessions w' s = Some sess'" for sess1 sess'
      proof -
        have "sess1 = sess" "sess' = ?sess" using that s by (simp_all add: d)
        then show ?thesis using end_session_keep [OF E that(1), of sess'] st by simp
      qed
      show "stream_msg ar h (sent @ []) peer msg" if "w_messages w' m = Some msg" for m msg
        using that end_okD(5) [OF E, of m] by (simp add: d)
    qed simp_all
    then show ?thesis by simp
  next
    case False
    with recv(2) s L(4) have rd: "rd \<le> 0" by (auto simp: has_room_def not_le)
    from process_tcp_no_data_spec [OF w s st l _ recv(1) rd, unfolded e option.inject] False have
      w': "world_ok w'" and
      c: "if tcp_gone rd err
       then w_sessions w' = (w_sessions w)(s := None) \<and> w_messages w' = w_messages w |` (- messages_of sess) \<and>
         w_out w' = w_out w @ session_end_trace os ctx sess 0
       else w' = w\<lparr>w_calls := Suc (w_calls w)\<rparr>" by auto
    show ?thesis
    proof (cases "tcp_gone rd err")
      case True
      with c have d: "w_sessions w' = (w_sessions w)(s := None)" "w_messages w' = w_messages w |` (- messages_of sess)"
        "w_out w' = w_out w @ session_end_trace os ctx sess 0" by simp_all
      have "w_messages w' \<subseteq>\<^sub>m w_messages w" unfolding d(2) by (auto simp: map_le_def restrict_map_def split: if_splits)
      from end_ok_ended [OF E w' process_tcp_links [OF e] d(1) this d(3)] session_end_ending os show ?thesis by blast
    next
      case False
      with c E show ?thesis by (simp add: delivered_count_def)
    qed
  qed
qed

section \<open>Arrivals\<close>

lemma found_session:
  assumes w: "world_ok w" and c: "w_contexts w c = Some ctx"
    and f: "find_session_in_context w ctx hh True = Some (Some s)"
  shows "\<exists>sess. w_sessions w s = Some sess \<and> s_status sess \<noteq> 1 \<and> s_handle sess = hh"
proof -
  from find_session_sound_complete [OF w c, of hh True] f have "has_session w c hh True s" by auto
  then show ?thesis by (auto simp: has_session_def)
qed

lemma find_returns:
  assumes "world_ok w" "w_contexts w c = Some ctx"
  obtains p where "find_session_in_context w ctx hh connected = Some p"
  using find_session_sound_complete [OF assms, of hh connected] by blast

text \<open>What waits in the receive queue.\<close>

lemma early_payload:
  assumes E: "end_ok ar h s sock c sent peer acked w" and s: "w_sessions w s = Some sess"
    and p: "recv_payload (w_messages w) sess k = Some b"
  shows "\<exists>i < length peer. k = seq_of i \<and> b = peer ! i"
proof -
  from p obtain m msg data where m: "recv_map sess k = Some m" "w_messages w m = Some msg" "m_data msg = Some data"
    "b = md_payload data" by (auto simp: recv_payload_def bind_Some_iff)
  from world_okD(1) [OF end_okD(1) [OF E] s] obtain c2 where q: "recv_queue_ok (w_messages w) sess"
    by (auto simp: session_ok_def queues_ok_def)
  from recv_queue_okD(3) [OF q m(1)] m(2,3) have "m_session msg = NULL" "md_seq data = k" by (auto simp: recv_msg_ok_def)
  with end_okD(5) [OF E m(2)] m(3,4) show ?thesis by (auto simp: stream_msg_def early_msg_def)
qed

text \<open>A chunk of the other end.\<close>

lemma end_ok_data_request:
  assumes md_def: "md = wire_md ar data_request h (seq_of i) (peer ! i @ junk)"
    and E: "end_ok ar h s sock c sent peer acked w" and s: "w_sessions w s = Some sess"
    and os: "os_arch os = ar" "whole_writes os" and ch: "chunks_ok peer" and i: "i < length peer"
    and e: "t2u_session_handle_data_request os s md (sizeof_md + length (peer ! i)) w = Some w'"
  shows "end_ok ar h s sock c sent peer acked w' \<and> delivered_count sock w \<le> delivered_count sock w'"
proof -
  note w = end_okD(1) [OF E]
  let ?len = "sizeof_md + length (peer ! i)" and ?n = "delivered_count sock w"
  from end_okD(4) [OF E s] obtain r rule ctx run where l: "linked w sess r rule c ctx run" and st: "s_status sess \<noteq> 1"
    and hs: "s_handle sess = h" "s_sock sess = sock" "s_recv_seq sess = of_nat ?n" by (auto simp: end_session_def)
  have len: "packet_len_ok md ?len"
    using chunks_nth [OF ch i] by (simp add: packet_len_ok_def md_def T2U_MESS_BUFFER_MAX_def)
  have tk: "take (?len - sizeof_md) (md_payload md) = peer ! i" by (simp add: md_def)
  have links: "keeps_links w w'" by (rule data_request_links [OF e])
  let ?d = "md_seq md - s_recv_seq sess"
  consider "?d = 0 \<or> unat ?d > c_udp_slide_window ctx" | "?d = 1" | "1 < ?d" "unat ?d \<le> c_udp_slide_window ctx"
    unfolding word_unat_eq_iff word_less_nat_alt by (simp, linarith)
  then show ?thesis
  proof cases
    case 1
    then have "md_seq md = s_recv_seq sess \<or> unat ?d > c_udp_slide_window ctx" by auto
    from data_request_answered_only [OF w s l this, of os ?len, unfolded e option.inject] have
      w': "world_ok w'" and
      d: "w' = w\<lparr>w_sessions := (w_sessions w)(s \<mapsto> sess\<lparr>s_last_send_ts := os_time os (w_calls w)\<rparr>),
        w_calls := Suc (w_calls w),
        w_out := w_out w @ [UdpSend (c_sock ctx) (answer os (s_handle sess) (md_seq md) 0)]\<rparr>" by auto
    have "end_ok ar h s sock c (sent @ []) peer acked w' \<and> delivered_count sock w' = ?n"
    proof (rule end_ok_quiet [OF E w' links])
      show "w_out w' = w_out w @ [UdpSend (c_sock ctx) (answer os (s_handle sess) (md_seq md) 0)]" by (simp add: d)
      show "s_status sess' \<noteq> 1 \<and> s_send_seq sess' = of_nat (length (sent @ [])) \<and> s_recv_seq sess' = s_recv_seq sess1 \<and>
        (\<forall>i < length (sent @ []). send_map sess' (seq_of i) = None \<longrightarrow> i < acked)"
        if "w_sessions w s = Some sess1" "w_sessions w' s = Some sess'" for sess1 sess'
      proof -
        have "sess1 = sess" "sess' = sess\<lparr>s_last_send_ts := os_time os (w_calls w)\<rparr>" using that s by (simp_all add: d)
        then show ?thesis using end_session_keep [OF E that(1), of sess'] st by simp
      qed
      show "stream_msg ar h (sent @ []) peer msg" if "w_messages w' m = Some msg" for m msg
        using that end_okD(5) [OF E, of m] by (simp add: d)
      have "stream_datagram ar h (sent @ []) peer ?n (answer os (s_handle sess) (md_seq md) 0)"
        unfolding stream_datagram_def answer_def hs(1) os(1) by blast
      then show "quiet ar h (sent @ []) peer ?n a"
        if "a \<in> set [UdpSend (c_sock ctx) (answer os (s_handle sess) (md_seq md) 0)]" for a using that by simp
    qed simp
    then show ?thesis by simp
  next
    case 2
    then have sq: "md_seq md = s_recv_seq sess + 1" by (simp add: algebra_simps)
    from data_request_next_closing [OF w s st l len sq e] obtain ps where w': "world_ok w'" and
      dl: "delivers (session_send os sess) (w_calls w) (recv_payload (w_messages w) sess) (md_seq md) (peer ! i) ps"
      and d: "delivered os ctx s sess ps w w'" unfolding tk by blast
    have "seq_of i = seq_of ?n" using sq hs(3) by (simp add: md_def)
    with seq_of_eq [of i ?n] i end_okD(7) [OF E] ch have i_n: "i = ?n" by (simp add: chunks_ok_def)
    have q: "\<forall>k b. recv_payload (w_messages w) sess k = Some b \<longrightarrow> (\<exists>i < length peer. k = seq_of i \<and> b = peer ! i)"
      using early_payload [OF E s] by blast
    have "md_seq md = seq_of i" by (simp add: md_def)
    note S = delivers_stream [OF dl os(2) ch q this i refl, unfolded hs(2)]
    have rs: "s_recv_seq sess + 1 = md_seq md" by (simp add: sq)
    obtain acts where acts: "w_out w' = w_out w @ deliver_trace os ctx sess (md_seq md) ps @ acts"
      "\<And>a. a \<in> set acts \<Longrightarrow> ending ar a"
      using d os(1) that [of "[]"] unfolding delivered_def rs by (cases "w_sessions w' s") auto
    have silent: "concat (map (tcp_bytes sock) acts) = []" "filter (full_write sock) acts = []"
      using quiet_silent [OF quiet_ending [OF acts(2)]] by (simp_all add: filter_empty_conv)
    let ?n' = "?n + complete ps"
    have "end_ok ar h s sock c (sent @ []) peer acked w' \<and> delivered_count sock w' = ?n'"
    proof (rule end_ok_step [OF E w' links _ _ acts(1)])
      show "s_status sess' \<noteq> 1 \<and> s_send_seq sess' = of_nat (length (sent @ [])) \<and> s_recv_seq sess' = of_nat ?n' \<and>
        (\<forall>i < length (sent @ []). send_map sess' (seq_of i) = None \<longrightarrow> i < acked)"
        if "w_sessions w s = Some sess1" "w_sessions w' s = Some sess'" for sess1 sess'
        using d that s st hs(3) end_okD(4) [OF E s] by (auto simp: delivered_def end_session_def)
      show "stream_msg ar h (sent @ []) peer msg" if "w_messages w' m = Some msg" for m msg
      proof -
        have "w_messages w' \<subseteq>\<^sub>m w_messages w" using d by (simp add: delivered_def)
        from end_okD(5) [OF E map_le_Some [OF this that]] show ?thesis by simp
      qed
      show "?n' = ?n + length (filter (full_write sock) (deliver_trace os ctx sess (md_seq md) ps @ acts))"
        using S(3) silent(2) by simp
      show "?n' \<le> length peer" using S(1) i_n by simp
      show "concat (map (tcp_bytes sock) (deliver_trace os ctx sess (md_seq md) ps @ acts)) =
          concat (take (?n' - ?n) (drop ?n peer))" using S(2) silent(1) i_n by simp
      show "stream_datagram ar h (sent @ []) peer ?n' dg"
        if "UdpSend so dg \<in> set (deliver_trace os ctx sess (md_seq md) ps @ acts)" for so dg
      proof -
        from that consider "UdpSend so dg \<in> set (deliver_trace os ctx sess (md_seq md) ps)" | "UdpSend so dg \<in> set acts"
          by auto
        then show ?thesis
        proof cases
          case 1
          from S(4) [OF this] show ?thesis
            unfolding good_answer_def answer_def stream_datagram_def hs(1) os(1) i_n by blast
        next
          case 2
          from quiet_ending [OF acts(2) [OF this]] show ?thesis by simp
        qed
      qed
    qed simp
    then show ?thesis by simp
  next
    case 3
    from data_request_early_spec [OF w s st l len 3, of os, unfolded e option.inject] obtain sess' where
      w': "world_ok w'" "w_sessions w' = (w_sessions w)(s \<mapsto> sess')" "s_recv_seq sess' = s_recv_seq sess"
        "s_status sess' = s_status sess" "s_send_seq sess' = s_send_seq sess" "send_map sess' = send_map sess" and
      m: "w_messages w' = w_messages w \<or> w_messages w' = (w_messages w)(w_fresh w \<mapsto> kept_message md ?len)" and
      out: "w_out w' = w_out w @ map (retrans_datagram os ctx (s_handle sess))
        (retrans_seqs (c_udp_slide_window ctx) (dom (recv_map sess')) (s_recv_seq sess) (md_seq md)
          (s_retry_seq sess) (map of_nat [0..<c_udp_slide_window ctx]))" by metis
    have "end_ok ar h s sock c (sent @ []) peer acked w' \<and> delivered_count sock w' = ?n"
    proof (rule end_ok_quiet [OF E w'(1) links _ _ out])
      show "s_status sess2 \<noteq> 1 \<and> s_send_seq sess2 = of_nat (length (sent @ [])) \<and> s_recv_seq sess2 = s_recv_seq sess1 \<and>
        (\<forall>i < length (sent @ []). send_map sess2 (seq_of i) = None \<longrightarrow> i < acked)"
        if "w_sessions w s = Some sess1" "w_sessions w' s = Some sess2" for sess1 sess2
      proof -
        have "sess1 = sess" "sess2 = sess'" using that s w'(2) by simp_all
        then show ?thesis using end_session_keep [OF E that(1), of sess2] st w'(3-6) by simp
      qed
      show "stream_msg ar h (sent @ []) peer msg" if "w_messages w' m2 = Some msg" for m2 msg
      proof (cases "w_messages w m2 = Some msg")
        case True
        with end_okD(5) [OF E] show ?thesis by simp
      next
        case False
        with that m have "msg = kept_message md ?len" by (auto split: if_splits)
        then show ?thesis using i by (auto simp: stream_msg_def kept_message_def early_msg_def md_def)
      qed
      show "quiet ar h (sent @ []) peer ?n a" if "a \<in> set (map (retrans_datagram os ctx (s_handle sess))
        (retrans_seqs (c_udp_slide_window ctx) (dom (recv_map sess')) (s_recv_seq sess) (md_seq md)
          (s_retry_seq sess) (map of_nat [0..<c_udp_slide_window ctx])))" for a
        using that by (auto simp: retrans_datagram_def stream_datagram_def hs(1) os(1))
    qed simp
    then show ?thesis by simp
  qed
qed

text \<open>An answer of the other end. It has written \<open>acked\<close> chunks.\<close>

lemma sent_message:
  assumes E: "end_ok ar h s sock c sent peer acked w" and s: "w_sessions w s = Some sess"
    and k: "send_map sess k = Some m" and ch: "chunks_ok sent"
  shows "\<exists>i msg data. i < length sent \<and> k = seq_of i \<and> w_messages w m = Some msg \<and> m_session msg = Some s \<and>
    m_seq msg = k \<and> m_data msg = Some data \<and> valid_length msg = int (length (sent ! i)) \<and>
    own_msg ar h sent msg \<and> (\<exists>c2. send_msg_ok c2 s k m msg)"
proof -
  obtain c2 msg data where m: "w_messages w m = Some msg" "m_session msg = Some s" "m_data msg = Some data"
    "send_msg_ok c2 s k m msg" by (rule queued_message [OF end_okD(1) [OF E] s k])
  have own: "own_msg ar h sent msg" using end_okD(5) [OF E m(1)] m(2) by (simp add: stream_msg_def)
  have "m_seq msg = k" using m(4) by (simp add: send_msg_ok_def)
  with own m show ?thesis unfolding own_msg_def by blast
qed

lemma response_value_wire:
  assumes "v \<in> {0, - 1} \<or> (0 \<le> v \<and> v \<le> int T2U_PAYLOAD_MAX)"
  shows "response_value (wire_md ar data_response h k (put_u32 (word_of_int v) @ junk)) = v"
  using assms by (auto simp: response_value_def get_put_u32 T2U_PAYLOAD_MAX_def signed_of_int
      signed_take_bit_int_eq_self)

lemma end_ok_data_response:
  assumes md: "md = wire_md ar data_response h k (put_u32 (word_of_int v) @ junk)"
    and E: "end_ok ar h s sock c sent peer acked w" and s: "w_sessions w s = Some sess"
    and os: "os_arch os = ar" and ch: "chunks_ok sent"
    and v: "v \<in> {0, - 1} \<or> (\<exists>i < acked. k = seq_of i \<and> v = int (length (sent ! i)))" "acked \<le> length sent"
    and m: "send_map sess k = Some m" and e: "t2u_message_handle_data_response os m md w = Some w'"
  shows "end_ok ar h s sock c sent peer acked w' \<and> delivered_count sock w' = delivered_count sock w"
proof -
  note w = end_okD(1) [OF E]
  from sent_message [OF E s m ch] obtain i msg data where i: "i < length sent" "k = seq_of i" and
    msg: "w_messages w m = Some msg" "m_session msg = Some s" "m_seq msg = k" "m_data msg = Some data"
      "valid_length msg = int (length (sent ! i))" by blast
  note C = chunks_nth [OF ch i(1)]
  have v': "v \<in> {0, - 1} \<or> (i < acked \<and> v = int (length (sent ! i)))"
    using v(1)
  proof
    assume "\<exists>i < acked. k = seq_of i \<and> v = int (length (sent ! i))"
    then obtain j where j: "j < acked" "seq_of j = seq_of i" "v = int (length (sent ! j))" using i(2) by metis
    then have "j = i" using chunk_seq_inj [OF ch _ i(1), of j] v(2) by simp
    with j show ?thesis by simp
  qed simp
  have rv: "response_value md = v" unfolding md by (rule response_value_wire) (use v' C in auto)
  have p: "4 \<le> length (md_payload md)" by (simp add: md)
  from end_okD(4) [OF E s] obtain r rule ctx run where l: "linked w sess r rule c ctx run" and st: "s_status sess \<noteq> 1"
    and lk: "\<forall>i < length sent. send_map sess (seq_of i) = None \<longrightarrow> i < acked" by (auto simp: end_session_def)
  from v' consider "v = 0" | "v = - 1" | "i < acked" "v = int (length (sent ! i))" by auto
  then show ?thesis
  proof cases
    case 1
    have "valid_length msg \<noteq> 0" using msg(5) C by simp
    from data_response_blocked [OF w msg(1,2) p _ this] rv 1 e E show ?thesis by simp
  next
    case 2
    from data_response_error_spec [OF w msg(1,2) s l p, of os, unfolded e option.inject] rv 2 have
      w': "world_ok w'" "w_sessions w' = (w_sessions w)(s := None)" "w_messages w' = w_messages w |` (- messages_of sess)"
        "w_out w' = w_out w @ session_end_trace os ctx sess 0" by auto
    have "w_messages w' \<subseteq>\<^sub>m w_messages w" unfolding w'(3) by (auto simp: map_le_def restrict_map_def split: if_splits)
    from end_ok_ended [OF E w'(1) data_response_links [OF e] w'(2) this w'(4)] session_end_ending os show ?thesis by blast
  next
    case 3
    have "response_value md = valid_length msg" by (simp add: rv 3 msg(5))
    from data_response_success_spec [OF w msg(1,2) s p this, of os, unfolded e option.inject] obtain acts where
      w': "world_ok w'" "w_messages w' = (w_messages w)(m := None)" "w_out w' = w_out w @ acts"
        "\<forall>a \<in> set acts. ending (os_arch os) a" and
      c: "if s_status sess = 3 \<and> messages_of sess = {m} then w_sessions w' = (w_sessions w)(s := None)
       else \<exists>t. rb_map t = (send_map sess)(m_seq msg := None) \<and>
         w_sessions w' = (w_sessions w)(s \<mapsto> enable_read (sess\<lparr>s_send_mess := t,
           s_send_buffer_count := s_send_buffer_count sess - 1\<rparr>))" by auto
    have "end_ok ar h s sock c (sent @ []) peer acked w' \<and> delivered_count sock w' = delivered_count sock w"
    proof (rule end_ok_quiet [OF E w'(1) data_response_links [OF e] _ _ w'(3)])
      show "s_status sess2 \<noteq> 1 \<and> s_send_seq sess2 = of_nat (length (sent @ [])) \<and> s_recv_seq sess2 = s_recv_seq sess1 \<and>
        (\<forall>i < length (sent @ []). send_map sess2 (seq_of i) = None \<longrightarrow> i < acked)"
        if s1: "w_sessions w s = Some sess1" and s2: "w_sessions w' s = Some sess2" for sess1 sess2
      proof -
        have "\<not> (s_status sess = 3 \<and> messages_of sess = {m})" using c s2 by auto
        with c obtain t where t: "rb_map t = (send_map sess)(k := None)" and
          w2: "w_sessions w' = (w_sessions w)(s \<mapsto> enable_read (sess\<lparr>s_send_mess := t,
            s_send_buffer_count := s_send_buffer_count sess - 1\<rparr>))" unfolding msg(3) by metis
        have t2: "sess2 = enable_read (sess\<lparr>s_send_mess := t, s_send_buffer_count := s_send_buffer_count sess - 1\<rparr>)"
          using s2 w2 by simp
        have eq: "sess1 = sess" using s1 s by simp
        have f: "s_status sess2 = s_status sess" "s_send_seq sess2 = s_send_seq sess" "s_recv_seq sess2 = s_recv_seq sess"
          "send_map sess2 = (send_map sess)(k := None)" by (simp_all add: t t2 enable_read_def)
        have "i2 < acked" if "i2 < length sent" "send_map sess2 (seq_of i2) = None" for i2
        proof (cases "i2 = i")
          case False
          with that lk chunk_seq_inj [OF ch that(1) i(1)] show ?thesis by (simp add: f(4) i(2) split: if_splits)
        qed (simp add: 3)
        with f st end_okD(4) [OF E s] show ?thesis unfolding eq by (simp add: end_session_def)
      qed
      show "stream_msg ar h (sent @ []) peer msg2" if "w_messages w' m2 = Some msg2" for m2 msg2
        using that w'(2) end_okD(5) [OF E, of m2] by (simp split: if_splits)
      show "quiet ar h (sent @ []) peer (delivered_count sock w) a" if "a \<in> set acts" for a
        using quiet_ending w'(4) that os by blast
    qed simp
    then show ?thesis by simp
  qed
qed

text \<open>A request to send a chunk again.\<close>

lemma end_ok_retrans:
  assumes E: "end_ok ar h s sock c sent peer acked w" and s: "w_sessions w s = Some sess"
    and os: "os_arch os = ar" and ch: "chunks_ok sent"
    and m: "send_map sess k = Some m" and e: "t2u_message_handle_retrans_request os m md w = Some w'"
  shows "end_ok ar h s sock c sent peer acked w' \<and> delivered_count sock w' = delivered_count sock w"
proof -
  note w = end_okD(1) [OF E]
  from sent_message [OF E s m ch] obtain msg data c2 where
    msg: "w_messages w m = Some msg" "m_session msg = Some s" "m_data msg = Some data"
      "own_msg ar h sent msg" "send_msg_ok c2 s k m msg" by blast
  from end_okD(4) [OF E s] obtain r rule ctx run where l: "linked w sess r rule c ctx run" and st: "s_status sess \<noteq> 1"
    by (auto simp: end_session_def)
  let ?a = "UdpSend (c_sock ctx) (take (unat (m_len msg)) (md_bytes data))"
  from retrans_request_ok [OF w msg(1,2) s l msg(3), of os md, unfolded e option.inject] have
    w': "world_ok w'" and
    d: "w' = w\<lparr>w_sessions := (w_sessions w)(s \<mapsto> sess\<lparr>s_last_send_ts := os_time os (w_calls w)\<rparr>),
           w_calls := Suc (w_calls w), w_out := w_out w @ [?a]\<rparr>" by auto
  have "end_ok ar h s sock c (sent @ []) peer acked w' \<and> delivered_count sock w' = delivered_count sock w"
  proof (rule end_ok_quiet [OF E w' retrans_request_links [OF e]])
    show "w_out w' = w_out w @ [?a]" by (simp add: d)
    show "s_status sess' \<noteq> 1 \<and> s_send_seq sess' = of_nat (length (sent @ [])) \<and> s_recv_seq sess' = s_recv_seq sess1 \<and>
      (\<forall>i < length (sent @ []). send_map sess' (seq_of i) = None \<longrightarrow> i < acked)"
      if "w_sessions w s = Some sess1" "w_sessions w' s = Some sess'" for sess1 sess'
    proof -
      have "sess1 = sess" "sess' = sess\<lparr>s_last_send_ts := os_time os (w_calls w)\<rparr>" using that s by (simp_all add: d)
      then show ?thesis using end_session_keep [OF E that(1), of sess'] st by simp
    qed
    show "stream_msg ar h (sent @ []) peer msg2" if "w_messages w' m2 = Some msg2" for m2 msg2
      using that end_okD(5) [OF E, of m2] by (simp add: d)
    show "quiet ar h (sent @ []) peer (delivered_count sock w) a" if "a \<in> set [?a]" for a
      using that own_msg_datagram [OF msg(4,5,3)] by simp
  qed simp
  then show ?thesis by simp
qed

text \<open>Any datagram of the other end.\<close>

lemma session_with_handle:
  assumes E: "end_ok ar h s sock c sent peer acked w" and c: "w_contexts w c = Some ctx"
    and f: "find_session_in_context w ctx h True = Some (Some s2)"
  shows "s2 = s \<and> (\<exists>sess. w_sessions w s = Some sess)"
  using found_session [OF end_okD(1) [OF E] c f] end_okD(3) [OF E] by blast

lemma send_lookup:
  assumes "end_ok ar h s sock c sent peer acked w" "w_sessions w s = Some sess"
  shows "rbtree_lookup (s_send_mess sess) k = Some (send_map sess k)"
  using world_okD(1) [OF end_okD(1) [OF assms(1)] assms(2)]
  by (intro rb.look) (auto simp: session_ok_def queues_ok_def send_queue_ok_def)

lemma end_ok_arrival:
  assumes E: "end_ok ar h s sock c sent peer acked w" and os: "os_arch os = ar" "whole_writes os"
    and ch: "chunks_ok sent" "chunks_ok peer" "acked \<le> length sent" and h: "wire_handle ar h = h"
    and d: "stream_datagram ar h peer sent acked d" "arrives os w so d"
    and e: "process_udp_cb os so c w = Some w'"
  shows "end_ok ar h s sock c sent peer acked w' \<and> delivered_count sock w \<le> delivered_count sock w'"
proof -
  let ?w = "w\<lparr>w_calls := Suc (w_calls w)\<rparr>"
  have n: "delivered_count sock ?w = delivered_count sock w" by (simp add: delivered_count_def)
  have E1: "end_ok ar h s sock c sent peer acked ?w" using E by simp
  note w = end_okD(1) [OF E] and w1 = end_okD(1) [OF E1]
  from end_okD(2) [OF E] obtain ctx where c: "w_contexts w c = Some ctx" by blast
  have c1: "w_contexts ?w c = Some ctx" using c by simp
  from d(1) consider
      (data) i where "i < length peer" "d = md_bytes (new_mdata (os_arch os) data_request h (seq_of i) (peer ! i))"
    | (response) k v where "d = md_bytes (new_mdata (os_arch os) data_response h k (put_u32 (word_of_int v)))"
        "v \<in> {0, - 1} \<or> (\<exists>i < acked. k = seq_of i \<and> v = int (length (sent ! i)))"
    | (retrans) k where "d = md_bytes (new_mdata (os_arch os) retrans_request h k [])"
    | (close) h' where "d = md_bytes (new_mdata (os_arch os) close_request h' 0 [])"
    unfolding stream_datagram_def os(1) by blast
  then show ?thesis
  proof cases
    case data
    obtain junk where x: "process_udp_cb os so c w = dispatch_message os ctx
        (wire_md ar data_request h (seq_of i) (peer ! i @ junk)) (sizeof_md + length (peer ! i)) ?w"
      using arrives_dispatched [OF w c, of os so data_request h "seq_of i" "peer ! i"] d(2) data(2) os(1) by metis
    obtain p where f: "find_session_in_context ?w ctx h True = Some p" by (rule find_returns [OF w1 c1])
    show ?thesis
    proof (cases p)
      case None
      with x e f E show ?thesis by (auto simp: dispatch_message_def h n)
    next
      case (Some s2)
      from session_with_handle [OF E1 c1] f Some obtain sess where s: "s2 = s" "w_sessions ?w s = Some sess" by blast
      from x e f Some s(1) have "t2u_session_handle_data_request os s
          (wire_md ar data_request h (seq_of i) (peer ! i @ junk)) (sizeof_md + length (peer ! i)) ?w = Some w'"
        by (simp add: dispatch_message_def h)
      from end_ok_data_request [OF refl E1 s(2) os ch(2) data(1) this] show ?thesis by (simp add: n)
    qed
  next
    case response
    obtain junk where x: "process_udp_cb os so c w = dispatch_message os ctx
        (wire_md ar data_response h k (put_u32 (word_of_int v) @ junk)) (sizeof_md + length (put_u32 (word_of_int v))) ?w"
      using arrives_dispatched [OF w c, of os so data_response h k "put_u32 (word_of_int v)"] d(2) response(1) os(1) by metis
    obtain p where f: "find_session_in_context ?w ctx h True = Some p" by (rule find_returns [OF w1 c1])
    show ?thesis
    proof (cases p)
      case None
      with x e f E show ?thesis by (auto simp: dispatch_message_def h n)
    next
      case (Some s2)
      from session_with_handle [OF E1 c1] f Some obtain sess where s: "s2 = s" "w_sessions ?w s = Some sess" by blast
      show ?thesis
      proof (cases "send_map sess k")
        case None
        with x e f Some s E send_lookup [OF E1 s(2), of k] show ?thesis by (auto simp: dispatch_message_def h n)
      next
        case m: (Some m)
        with x e f Some s send_lookup [OF E1 s(2), of k] have "t2u_message_handle_data_response os m
            (wire_md ar data_response h k (put_u32 (word_of_int v) @ junk)) ?w = Some w'"
          by (simp add: dispatch_message_def h)
        from end_ok_data_response [OF refl E1 s(2) os(1) ch(1) response(2) ch(3) m this] show ?thesis by (simp add: n)
      qed
    qed
  next
    case retrans
    obtain junk where x: "process_udp_cb os so c w = dispatch_message os ctx
        (wire_md ar retrans_request h k ([] @ junk)) (sizeof_md + length ([] :: byte list)) ?w"
      using arrives_dispatched [OF w c, of os so retrans_request h k "[]"] d(2) retrans(1) os(1) by metis
    obtain p where f: "find_session_in_context ?w ctx h True = Some p" by (rule find_returns [OF w1 c1])
    show ?thesis
    proof (cases p)
      case None
      with x e f E show ?thesis by (auto simp: dispatch_message_def h n)
    next
      case (Some s2)
      from session_with_handle [OF E1 c1] f Some obtain sess where s: "s2 = s" "w_sessions ?w s = Some sess" by blast
      show ?thesis
      proof (cases "send_map sess k")
        case None
        with x e f Some s E send_lookup [OF E1 s(2), of k] show ?thesis by (auto simp: dispatch_message_def h n)
      next
        case m: (Some m)
        with x e f Some s send_lookup [OF E1 s(2), of k] have "t2u_message_handle_retrans_request os m
            (wire_md ar retrans_request h k ([] @ junk)) ?w = Some w'"
          by (simp add: dispatch_message_def h)
        from end_ok_retrans [OF E1 s(2) os(1) ch(1) m this] show ?thesis by (simp add: n)
      qed
    qed
  next
    case close
    obtain junk where x: "process_udp_cb os so c w = dispatch_message os ctx
        (wire_md ar close_request h' 0 ([] @ junk)) (sizeof_md + length ([] :: byte list)) ?w"
      using arrives_dispatched [OF w c, of os so close_request h' 0 "[]"] d(2) close(1) os(1) by metis
    obtain p where f: "find_session_in_context ?w ctx (wire_handle ar h') True = Some p" by (rule find_returns [OF w1 c1])
    show ?thesis
    proof (cases p)
      case None
      with x e f E show ?thesis by (auto simp: dispatch_message_def n)
    next
      case (Some s2)
      from found_session [OF w1 c1] f Some obtain sess where s: "w_sessions ?w s2 = Some sess" "s_status sess \<noteq> 1" by blast
      from x e f Some have "t2u_delete_connected_session os s2 1 ?w = Some w'" by (simp add: dispatch_message_def)
      from end_ok_deleted [OF E1 s this os(1)] show ?thesis by (simp add: n)
    qed
  qed
qed

section \<open>A connection\<close>

text \<open>
  A step of one end, whose session \<open>s\<close> belongs to context \<open>c\<close>: a pending event of the connection, with
  some result of the system calls. \<open>net\<close> are the datagrams in flight to this end; the list is the chunk
  that was read.
\<close>

inductive end_step :: "arch \<Rightarrow> addr \<Rightarrow> addr \<Rightarrow> byte list set \<Rightarrow> world \<Rightarrow> byte list list \<Rightarrow> world \<Rightarrow> bool"
  for ar s c net where
  read: "os_ok os \<Longrightarrow> os_arch os = ar \<Longrightarrow> pending w Cb_process_tcp s = Some ev \<Longrightarrow>
    os_recv os (w_calls w) (ev_sock ev) T2U_PAYLOAD_MAX = (rd, err, bytes) \<Longrightarrow>
    t2u_session_process_tcp os (ev_sock ev) s w = Some w' \<Longrightarrow>
    end_step ar s c net w (if has_room w s c \<and> 0 < rd then [bytes] else []) w'"
| timer: "os_arch os = ar \<Longrightarrow> pending w Cb_request_timeout m = Some ev \<Longrightarrow>
    process_request_timeout_cb os m w = Some w' \<Longrightarrow> end_step ar s c net w [] w'"
| check: "os_arch os = ar \<Longrightarrow> pending w Cb_timeout_check s = Some ev \<Longrightarrow>
    session_timeout_check_cb os s w = Some w' \<Longrightarrow> end_step ar s c net w [] w'"
| arrival: "os_arch os = ar \<Longrightarrow> whole_writes os \<Longrightarrow> pending w Cb_process_udp c = Some ev \<Longrightarrow>
    d \<in> net \<Longrightarrow> arrives os w (ev_sock ev) d \<Longrightarrow>
    process_udp_cb os (ev_sock ev) c w = Some w' \<Longrightarrow> end_step ar s c net w [] w'"

inductive_cases end_stepE: "end_step ar s c net w l w'"

text \<open>
  Both ends, the chunks they have read, and the datagrams that are in flight from each end to the other.
  What an end sends in a step is in flight from then on. A datagram in flight may arrive, at any time,
  and stay in flight, for the network may deliver it again; and any of the datagrams in flight may be
  lost. An end reads less than \<open>2 ^ 32\<close> chunks.
\<close>

record connection =
  x_w1 :: world
  x_w2 :: world
  x_sent1 :: "byte list list"
  x_sent2 :: "byte list list"
  x_net1 :: "byte list set"
  x_net2 :: "byte list set"

definition new_datagrams :: "world \<Rightarrow> world \<Rightarrow> byte list set" where
  "new_datagrams w w' = {d. \<exists>so. UdpSend so d \<in> set (drop (length (w_out w)) (w_out w'))}"

inductive connection_step :: "arch \<Rightarrow> addr \<times> addr \<Rightarrow> addr \<times> addr \<Rightarrow> connection \<Rightarrow> connection \<Rightarrow> bool"
  for ar e1 e2 where
  first: "end_step ar (fst e1) (snd e1) (x_net2 x) (x_w1 x) l w' \<Longrightarrow> length (x_sent1 x @ l) < 2 ^ 32 \<Longrightarrow>
    connection_step ar e1 e2 x
      (x\<lparr>x_w1 := w', x_sent1 := x_sent1 x @ l, x_net1 := x_net1 x \<union> new_datagrams (x_w1 x) w'\<rparr>)"
| second: "end_step ar (fst e2) (snd e2) (x_net1 x) (x_w2 x) l w' \<Longrightarrow> length (x_sent2 x @ l) < 2 ^ 32 \<Longrightarrow>
    connection_step ar e1 e2 x
      (x\<lparr>x_w2 := w', x_sent2 := x_sent2 x @ l, x_net2 := x_net2 x \<union> new_datagrams (x_w2 x) w'\<rparr>)"
| lose: "n1 \<subseteq> x_net1 x \<Longrightarrow> n2 \<subseteq> x_net2 x \<Longrightarrow> connection_step ar e1 e2 x (x\<lparr>x_net1 := n1, x_net2 := n2\<rparr>)"

inductive_cases connection_stepE: "connection_step ar e1 e2 x y"

text \<open>An end whose session has just been established; its trace starts here.\<close>

definition fresh_end :: "u64 \<Rightarrow> addr \<Rightarrow> int \<Rightarrow> addr \<Rightarrow> world \<Rightarrow> bool" where
  "fresh_end h s sock c w \<longleftrightarrow>
     world_ok w \<and> w_messages w = Map.empty \<and> w_out w = [] \<and>
     (\<forall>s' sess. w_sessions w s' = Some sess \<longrightarrow> s_handle sess = h \<longrightarrow> s' = s) \<and>
     (\<exists>sess r rule ctx n. w_sessions w s = Some sess \<and> linked w sess r rule c ctx n \<and> s_status sess = 2 \<and>
        s_handle sess = h \<and> s_sock sess = sock \<and> s_send_seq sess = 0 \<and> s_recv_seq sess = 0)"

definition connection_start :: "world \<Rightarrow> world \<Rightarrow> connection" where
  "connection_start w1 w2 = \<lparr>x_w1 = w1, x_w2 = w2, x_sent1 = [], x_sent2 = [], x_net1 = {}, x_net2 = {}\<rparr>"

lemma fresh_end_ok: "fresh_end h s sock c w \<Longrightarrow> end_ok ar h s sock c [] [] 0 w"
  by (auto simp: fresh_end_def end_ok_def end_session_def delivered_count_def written_def linked_def)

lemma end_step_ok:
  assumes E: "end_ok ar h s sock c sent peer acked w" and ch: "chunks_ok sent" "chunks_ok peer" "acked \<le> length sent"
    and h: "wire_handle ar h = h" and net: "\<And>d. d \<in> net \<Longrightarrow> stream_datagram ar h peer sent acked d"
    and st: "end_step ar s c net w l w'" and n: "length (sent @ l) < 2 ^ 32"
  shows "end_ok ar h s sock c (sent @ l) peer acked w' \<and> delivered_count sock w \<le> delivered_count sock w' \<and>
    chunks_ok (sent @ l)"
  using st
proof (rule end_stepE, goal_cases)
  case (1 os ev rd err bytes)
  show ?case
  proof (cases "has_room w s c \<and> 0 < rd")
    case True
    have "length sent + 1 < 2 ^ 32" using n 1(1) True by simp
    moreover have "bytes \<noteq> [] \<and> length bytes \<le> T2U_PAYLOAD_MAX"
      using received_bytes [OF 1(2,5)] True by auto
    ultimately show ?thesis
      using end_ok_read_data [OF E 1(2,3) _ 1(5) _ 1(6)] True 1(1) ch(1) by (simp add: chunks_ok_def)
  next
    case False
    have "end_ok ar h s sock c sent peer acked w' \<and> delivered_count sock w' = delivered_count sock w"
      by (rule end_ok_read_none [OF E 1(3,5) False 1(6)])
    moreover have "l = []" using 1(1) False by simp
    ultimately show ?thesis using ch(1) by simp
  qed
next
  case (2 os m ev)
  with end_ok_request_timeout [OF E, of os m w'] ch(1) show ?case by simp
next
  case (3 os ev)
  then obtain sess where s: "w_sessions w s = Some sess" by (auto simp: session_timeout_check_cb_def bind_Some_iff)
  from end_ok_check [OF E s end_ok_status [OF E s] 3(4,2)] 3(1) ch(1) show ?case by simp
next
  case (4 os ev d)
  from end_ok_arrival [OF E 4(2,3) ch h net [OF 4(5)] 4(6,7)] 4(1) ch(1) show ?case by simp
qed

definition connection_ok :: "arch \<Rightarrow> u64 \<Rightarrow> addr \<times> addr \<Rightarrow> int \<Rightarrow> addr \<times> addr \<Rightarrow> int \<Rightarrow> connection \<Rightarrow> bool" where
  "connection_ok ar h e1 sock1 e2 sock2 x \<longleftrightarrow>
     end_ok ar h (fst e1) sock1 (snd e1) (x_sent1 x) (x_sent2 x) (delivered_count sock2 (x_w2 x)) (x_w1 x) \<and>
     end_ok ar h (fst e2) sock2 (snd e2) (x_sent2 x) (x_sent1 x) (delivered_count sock1 (x_w1 x)) (x_w2 x) \<and>
     chunks_ok (x_sent1 x) \<and> chunks_ok (x_sent2 x) \<and>
     (\<forall>d \<in> x_net1 x. stream_datagram ar h (x_sent1 x) (x_sent2 x) (delivered_count sock1 (x_w1 x)) d) \<and>
     (\<forall>d \<in> x_net2 x. stream_datagram ar h (x_sent2 x) (x_sent1 x) (delivered_count sock2 (x_w2 x)) d)"

lemma connection_okD:
  assumes "connection_ok ar h e1 sock1 e2 sock2 x"
  shows "end_ok ar h (fst e1) sock1 (snd e1) (x_sent1 x) (x_sent2 x) (delivered_count sock2 (x_w2 x)) (x_w1 x)"
    "end_ok ar h (fst e2) sock2 (snd e2) (x_sent2 x) (x_sent1 x) (delivered_count sock1 (x_w1 x)) (x_w2 x)"
    "chunks_ok (x_sent1 x)" "chunks_ok (x_sent2 x)"
    "d \<in> x_net1 x \<Longrightarrow> stream_datagram ar h (x_sent1 x) (x_sent2 x) (delivered_count sock1 (x_w1 x)) d"
    "d \<in> x_net2 x \<Longrightarrow> stream_datagram ar h (x_sent2 x) (x_sent1 x) (delivered_count sock2 (x_w2 x)) d"
  using assms by (simp_all add: connection_ok_def)

text \<open>The two ends are alike.\<close>

definition swap_ends :: "connection \<Rightarrow> connection" where
  "swap_ends x = \<lparr>x_w1 = x_w2 x, x_w2 = x_w1 x, x_sent1 = x_sent2 x, x_sent2 = x_sent1 x,
     x_net1 = x_net2 x, x_net2 = x_net1 x\<rparr>"

lemma swap_ends_simps [simp]:
  "x_w1 (swap_ends x) = x_w2 x" "x_w2 (swap_ends x) = x_w1 x" "x_sent1 (swap_ends x) = x_sent2 x"
  "x_sent2 (swap_ends x) = x_sent1 x" "x_net1 (swap_ends x) = x_net2 x" "x_net2 (swap_ends x) = x_net1 x"
  "swap_ends (swap_ends x) = x"
  by (simp_all add: swap_ends_def)

lemma connection_ok_swap [simp]:
  "connection_ok ar h e2 sock2 e1 sock1 (swap_ends x) = connection_ok ar h e1 sock1 e2 sock2 x"
  by (auto simp: connection_ok_def)

lemma connection_step_swap: "connection_step ar e1 e2 x y \<Longrightarrow> connection_step ar e2 e1 (swap_ends x) (swap_ends y)"
proof (erule connection_stepE, goal_cases)
  case (1 l w')
  then show ?case using connection_step.second [of ar e1 "swap_ends x" l w' e2] by (simp add: swap_ends_def)
next
  case (2 l w')
  then show ?case using connection_step.first [of ar e2 "swap_ends x" l w' e1] by (simp add: swap_ends_def)
next
  case (3 n1 n2)
  then show ?case using connection_step.lose [of n2 "swap_ends x" n1 ar e2 e1] by (simp add: swap_ends_def)
qed

lemma connection_steps_swap:
  "(connection_step ar e1 e2)\<^sup>*\<^sup>* x y \<Longrightarrow> (connection_step ar e2 e1)\<^sup>*\<^sup>* (swap_ends x) (swap_ends y)"
  by (induction rule: rtranclp_induct) (auto intro: rtranclp.rtrancl_into_rtrancl connection_step_swap)


lemma connection_ok_first:
  assumes C: "connection_ok ar h e1 sock1 e2 sock2 x" and h: "wire_handle ar h = h"
    and st: "end_step ar (fst e1) (snd e1) (x_net2 x) (x_w1 x) l w'" and n: "length (x_sent1 x @ l) < 2 ^ 32"
  shows "connection_ok ar h e1 sock1 e2 sock2
    (x\<lparr>x_w1 := w', x_sent1 := x_sent1 x @ l, x_net1 := x_net1 x \<union> new_datagrams (x_w1 x) w'\<rparr>)"
proof -
  note C = connection_okD [OF C]
  from end_step_ok [OF C(1,3,4) end_okD(7) [OF C(2)] h C(6) st n] have
    E1: "end_ok ar h (fst e1) sock1 (snd e1) (x_sent1 x @ l) (x_sent2 x) (delivered_count sock2 (x_w2 x)) w'" and
    w': "delivered_count sock1 (x_w1 x) \<le> delivered_count sock1 w'" "chunks_ok (x_sent1 x @ l)" by blast+
  have "stream_datagram ar h (x_sent1 x @ l) (x_sent2 x) (delivered_count sock1 w') d"
    if "d \<in> x_net1 x \<union> new_datagrams (x_w1 x) w'" for d
    using that
  proof
    assume "d \<in> x_net1 x"
    from stream_datagram_mono [OF C(5) [OF this] w'(1) end_okD(7) [OF C(1)], of l "[]"] show ?thesis by simp
  next
    assume "d \<in> new_datagrams (x_w1 x) w'"
    then show ?thesis using end_okD(6) [OF E1] by (auto simp: new_datagrams_def dest: in_set_dropD)
  qed
  moreover have "stream_datagram ar h (x_sent2 x) (x_sent1 x @ l) (delivered_count sock2 (x_w2 x)) d" if "d \<in> x_net2 x" for d
    using stream_datagram_mono [OF C(6) [OF that] order_refl end_okD(7) [OF C(2)], of "[]" l] by simp
  moreover have "end_ok ar h (fst e2) sock2 (snd e2) (x_sent2 x) (x_sent1 x @ l) (delivered_count sock1 w') (x_w2 x)"
    by (rule end_ok_mono [OF C(2) w'(1)])
  ultimately show ?thesis using E1 w'(2) C(4) by (simp add: connection_ok_def)
qed

lemma connection_ok_lose:
  assumes "connection_ok ar h e1 sock1 e2 sock2 x" "n1 \<subseteq> x_net1 x" "n2 \<subseteq> x_net2 x"
  shows "connection_ok ar h e1 sock1 e2 sock2 (x\<lparr>x_net1 := n1, x_net2 := n2\<rparr>)"
  using assms by (auto simp: connection_ok_def)

lemma connection_ok_step:
  assumes C: "connection_ok ar h e1 sock1 e2 sock2 x" and h: "wire_handle ar h = h"
    and st: "connection_step ar e1 e2 x y"
  shows "connection_ok ar h e1 sock1 e2 sock2 y"
  using st
proof (rule connection_stepE, goal_cases)
  case (1 l w')
  with connection_ok_first [OF C h 1(2)] show ?case by simp
next
  case (2 l w')
  have "connection_ok ar h e2 sock2 e1 sock1 (swap_ends x)" using C by simp
  from connection_ok_first [OF this h, of l w'] 2(2,3) have
    "connection_ok ar h e2 sock2 e1 sock1 (swap_ends y)" unfolding 2(1) by (simp add: swap_ends_def)
  then show ?case by simp
next
  case (3 n1 n2)
  with connection_ok_lose [OF C 3(2,3)] show ?case by simp
qed

lemma connection_reachable:
  assumes f: "fresh_end h s1 sock1 c1 w1" "fresh_end h s2 sock2 c2 w2" and h: "wire_handle ar h = h"
    and r: "(connection_step ar (s1, c1) (s2, c2))\<^sup>*\<^sup>* (connection_start w1 w2) x"
  shows "connection_ok ar h (s1, c1) sock1 (s2, c2) sock2 x"
  using r
proof (induction rule: rtranclp_induct)
  case base
  have "delivered_count sock1 w1 = 0" "delivered_count sock2 w2 = 0"
    using f by (simp_all add: fresh_end_def delivered_count_def)
  with fresh_end_ok [OF f(1)] fresh_end_ok [OF f(2)] show ?case
    by (simp add: connection_ok_def connection_start_def chunks_ok_def)
next
  case (step x y)
  from connection_ok_step [OF step(3) h step(2)] show ?case .
qed

section \<open>What holds of a connection\<close>

text \<open>
  C2: Two ends with a fresh established session exchange datagrams over a network that may lose,
  repeat and reorder them, their timers fire in any order and both sides read and send at will. In
  every reachable state what each end has written to its TCP socket is exactly the first chunks that
  the other end has read from its own, in order, without a gap or a repetition. The conditions: each
  write to a TCP socket is complete or writes nothing (the code loses data on a partial write); both
  ends run on the same architecture and have the session under the same handle, which survives the
  byte order conversion (the sessions of an x86-64 server do not meet this, see the theory of the two
  ends of a tunnel); and each end reads less than \<open>2 ^ 32\<close> chunks.
\<close>

text \<open>
  C2: Two ends with a fresh established session exchange datagrams over a network that may lose,
  repeat and reorder them, their timers fire in any order and both sides read and send at will. In
  every reachable state what each end has written to its TCP socket is exactly the first chunks that
  the other end has read from its own, in order, without a gap or a repetition. The conditions: each
  write to a TCP socket is complete or writes nothing (after a partial write the code sends the rest
  of the bytes wrongly); both ends run on the same kind of machine and have the session under the
  same handle, which survives the byte order conversion of the wire (the handle that an x86-64
  server gives to its session does not); and each end reads fewer than 2^32 chunks.
\<close>

lemma stream_integrity:
  assumes f: "fresh_end h s1 sock1 c1 w1" "fresh_end h s2 sock2 c2 w2" and h: "wire_handle ar h = h"
    and r: "(connection_step ar (s1, c1) (s2, c2))\<^sup>*\<^sup>* (connection_start w1 w2) x"
  shows "(\<exists>n \<le> length (x_sent1 x). written sock2 (x_w2 x) = concat (take n (x_sent1 x))) \<and>
    (\<exists>n \<le> length (x_sent2 x). written sock1 (x_w1 x) = concat (take n (x_sent2 x)))"
proof -
  note C = connection_okD(1,2) [OF connection_reachable [OF f h r]]
  show ?thesis using end_okD(7,8) [OF C(1)] end_okD(7,8) [OF C(2)] by blast
qed

text \<open>
  C3: In every reachable state of such a connection, under the conditions of C2 (TCP writes that are
  complete or write nothing, the same handle at both ends that survives the byte order conversion, less
  than \<open>2 ^ 32\<close> chunks), and while the session of the first end lives, each chunk that this end has
  read from its TCP socket has been written by the other end or is still in the send queue under its
  number, with its bytes, ready to be sent again.
\<close>

text \<open>
  C3: In every reachable state of such a connection, under the same conditions (every TCP write is
  complete or writes nothing, both ends have the session under the same handle, which survives the
  byte order conversion of the wire, and each end reads fewer than 2^32 chunks), and while the
  session of the first end lives, each chunk that this end has read from its TCP socket has been
  written by the other end, or is still in the send queue under its number, with its bytes, ready to
  be sent again.
\<close>

lemma stream_kept:
  assumes f: "fresh_end h s1 sock1 c1 w1" "fresh_end h s2 sock2 c2 w2" and h: "wire_handle ar h = h"
    and r: "(connection_step ar (s1, c1) (s2, c2))\<^sup>*\<^sup>* (connection_start w1 w2) x"
    and s: "w_sessions (x_w1 x) s1 = Some sess"
  shows "(\<forall>i < length (x_sent1 x). i < delivered_count sock2 (x_w2 x) \<or>
      (\<exists>m msg. send_map sess (of_nat (Suc i)) = Some m \<and> w_messages (x_w1 x) m = Some msg \<and>
         m_data msg = Some (new_mdata ar data_request h (of_nat (Suc i)) (x_sent1 x ! i)))) \<and>
    written sock2 (x_w2 x) = concat (take (delivered_count sock2 (x_w2 x)) (x_sent1 x))"
proof -
  from connection_reachable [OF f h r] have
    E: "end_ok ar h s1 sock1 c1 (x_sent1 x) (x_sent2 x) (delivered_count sock2 (x_w2 x)) (x_w1 x)"
      "end_ok ar h s2 sock2 c2 (x_sent2 x) (x_sent1 x) (delivered_count sock1 (x_w1 x)) (x_w2 x)"
    and ch: "chunks_ok (x_sent1 x)" by (auto dest: connection_okD)
  have "\<exists>m msg. send_map sess (seq_of i) = Some m \<and> w_messages (x_w1 x) m = Some msg \<and>
      m_data msg = Some (new_mdata ar data_request h (seq_of i) (x_sent1 x ! i))"
    if i: "i < length (x_sent1 x)" "\<not> i < delivered_count sock2 (x_w2 x)" for i
  proof -
    from end_okD(4) [OF E(1) s] i obtain m where m: "send_map sess (seq_of i) = Some m" by (auto simp: end_session_def)
    from sent_message [OF E(1) s m ch] obtain msg where msg: "w_messages (x_w1 x) m = Some msg" "m_seq msg = seq_of i"
      "own_msg ar h (x_sent1 x) msg" by blast
    then obtain j where j: "j < length (x_sent1 x)" "seq_of i = seq_of j"
      "m_data msg = Some (new_mdata ar data_request h (seq_of j) (x_sent1 x ! j))" unfolding own_msg_def by metis
    with chunk_seq_inj [OF ch i(1) j(1)] m msg(1) show ?thesis by blast
  qed
  with end_okD(8) [OF E(2)] show ?thesis by blast
qed

end
