(* ===== verification/T2u_Progress.thy ===== *)
theory T2u_Progress
  imports T2u_Stream
begin

text \<open>
  A connection recovers: even when every datagram in flight is lost, the timers of the messages that
  are still queued send them again, and as long as both sessions are established and no message has
  used up its retries there is a way to go on after which each end has written everything the other
  has read.
\<close>

section \<open>A delivery that succeeds\<close>

text \<open>System calls under which datagram \<open>d\<close> arrives and every write is complete.\<close>

definition delivering_os :: "arch \<Rightarrow> byte list \<Rightarrow> os" where
  "delivering_os ar d =
     \<lparr>os_arch = ar, os_time = \<lambda>_. 0, os_recv = \<lambda>_ _ cap. (int (length (take cap d)), 0, take cap d),
      os_send = \<lambda>_ _ b. (int (length b), 0), os_connect = \<lambda>_ _ _. (0, 0), os_socket = \<lambda>_. 0,
      os_accept = \<lambda>_ _. 0, os_bind = \<lambda>_ _ _. 0, os_listen = \<lambda>_ _. 0, os_sock_error = \<lambda>_ _. 0,
      os_inet_addr = \<lambda>_. 0, os_junk = \<lambda>_ n. replicate n 0,
      os_localtime = \<lambda>_. \<lparr>tm_year = 0, tm_mon = 0, tm_mday = 1, tm_hour = 0, tm_min = 0, tm_sec = 0\<rparr>\<rparr>"

lemma delivering_os_sel [simp]:
  "os_arch (delivering_os ar d) = ar" "whole_writes (delivering_os ar d)"
  "session_send (delivering_os ar d) sess call b = (int (length b), 0)"
  by (simp_all add: delivering_os_def whole_writes_def session_send_def)

lemma delivering_os_arrives: "length d \<le> T2U_MESS_BUFFER_MAX \<Longrightarrow> arrives (delivering_os ar d) w so d"
  by (simp add: arrives_def delivering_os_def)

lemma delivers_complete:
  assumes "delivers send call q k b ps" "\<forall>call b. send call b = (int (length b), 0)"
    and "b \<noteq> []" "\<forall>k b. q k = Some b \<longrightarrow> b \<noteq> []"
  shows "0 < complete ps \<and> \<not> snd (snd (last ps))"
  using assms
proof (induction rule: delivers.induct)
  case (failed call b r err q k)
  then show ?case by (auto simp: write_failed_def)
next
  case (more call b err q k b' ps)
  have "b' \<noteq> []" "\<forall>k2 b2. (q(k + 1 := None)) k2 = Some b2 \<longrightarrow> b2 \<noteq> []"
    using more.prems(3) more.hyps(3) by auto
  from more.IH [OF more.prems(1) this] have "0 < complete ps \<and> \<not> snd (snd (last ps))" .
  with delivers_nonempty [OF more.hyps(4)] show ?case by (simp add: complete_def)
qed (auto simp: complete_def)

lemma chunk_datagram_length: "chunks_ok xs \<Longrightarrow> i < length xs \<Longrightarrow> length (chunk_datagram ar h xs i) \<le> T2U_MESS_BUFFER_MAX"
  using chunks_nth [of xs i] by (simp add: T2U_MESS_BUFFER_MAX_def new_mdata_def)

text \<open>The next chunk of the other end arrives at an end whose session is established.\<close>

lemma deliver_next:
  assumes E: "end_ok ar h s sock c sent peer acked w" and s: "w_sessions w s = Some sess" "s_status sess = 2"
    and ch: "chunks_ok peer" and h: "wire_handle ar h = h" and n: "delivered_count sock w < length peer"
  defines "os \<equiv> delivering_os ar (chunk_datagram ar h peer (delivered_count sock w))"
  shows "\<exists>w' sess'. process_udp_cb os so c w = Some w' \<and> delivered_count sock w < delivered_count sock w' \<and>
    w_sessions w' s = Some sess' \<and> s_status sess' = 2 \<and> send_map sess' = send_map sess \<and>
    w_messages w' \<subseteq>\<^sub>m w_messages w \<and> w_contexts w' = w_contexts w"
proof -
  let ?n = "delivered_count sock w" and ?w = "w\<lparr>w_calls := Suc (w_calls w)\<rparr>"
  have E1: "end_ok ar h s sock c sent peer acked ?w" using E by simp
  note w = end_okD(1) [OF E] and w1 = end_okD(1) [OF E1]
  have s1: "w_sessions ?w s = Some sess" using s by simp
  from end_okD(4) [OF E1 s1] obtain r rule ctx run where l: "linked ?w sess r rule c ctx run" and
    hs: "s_handle sess = h" "s_sock sess = sock" "s_recv_seq sess = of_nat ?n"
    by (auto simp: end_session_def delivered_count_def)
  note L = linkedD [OF l]
  have c: "w_contexts w c = Some ctx" using L(4) by simp
  have a: "arrives os w so (chunk_datagram (os_arch os) h peer ?n)"
    using delivering_os_arrives [OF chunk_datagram_length [OF ch n]] by (simp add: os_def)
  obtain junk where x: "process_udp_cb os so c w =
      dispatch_message os ctx (wire_md ar data_request h (seq_of ?n) (peer ! ?n @ junk)) (sizeof_md + length (peer ! ?n)) ?w"
    using arrives_dispatched [OF w c a] by (auto simp: os_def)
  let ?md = "wire_md ar data_request h (seq_of ?n) (peer ! ?n @ junk)" and ?len = "sizeof_md + length (peer ! ?n)"
  have "has_session ?w c h True s" using s1 s(2) hs(1) l by (auto simp: has_session_def linked_def)
  then have "only_session ?w c h True s"
    using end_okD(3) [OF E1] by (auto simp: only_session_def has_session_def)
  from find_only [OF w1 _ this] c have f: "find_session_in_context ?w ctx h True = Some (Some s)" by simp
  have y: "process_udp_cb os so c w = t2u_session_handle_data_request os s ?md ?len ?w"
    unfolding x using f by (simp add: dispatch_message_def h)
  have len: "packet_len_ok ?md ?len"
    using chunks_nth [OF ch n] by (simp add: packet_len_ok_def T2U_MESS_BUFFER_MAX_def)
  have seq: "md_seq ?md = s_recv_seq sess + 1" by (simp add: hs(3))
  from data_request_next_spec [OF w1 s1 s(2) l len seq, of os] obtain w' ps where
    w': "t2u_session_handle_data_request os s ?md ?len ?w = Some w'" and
    dl: "delivers (session_send os sess) (w_calls ?w) (recv_payload (w_messages ?w) sess) (md_seq ?md) (peer ! ?n) ps" and
    d: "delivered os ctx s sess ps ?w w'" by auto
  have q: "\<forall>k b. recv_payload (w_messages ?w) sess k = Some b \<longrightarrow> (\<exists>i < length peer. k = seq_of i \<and> b = peer ! i)"
    using early_payload [OF E1 s1] by blast
  have ps: "0 < complete ps \<and> \<not> snd (snd (last ps))"
  proof (rule delivers_complete [OF dl])
    show "peer ! ?n \<noteq> []" using chunks_nth [OF ch n] by simp
    show "\<forall>k b. recv_payload (w_messages ?w) sess k = Some b \<longrightarrow> b \<noteq> []"
    proof (intro allI impI)
      fix k b
      assume "recv_payload (w_messages ?w) sess k = Some b"
      with q obtain i where "i < length peer" "b = peer ! i" by blast
      with chunks_nth [OF ch] show "b \<noteq> []" by simp
    qed
  qed (simp add: os_def)
  obtain sess' where s': "w_sessions w' s = Some sess'"
    using d ps by (cases "w_sessions w' s") (auto simp: delivered_def)
  with d ps s(2) have "s_status sess' = 2" "send_map sess' = send_map sess" "w_messages w' \<subseteq>\<^sub>m w_messages w" and
    out: "w_out w' = w_out w @ deliver_trace os ctx sess (md_seq ?md) ps" unfolding seq by (auto simp: delivered_def)
  have "length (filter (full_write sock) (deliver_trace os ctx sess (md_seq ?md) ps)) = complete ps"
    using delivers_stream(3) [OF dl _ ch q _ n refl] hs(2) by (simp add: os_def)
  with out have "delivered_count sock w' = ?n + complete ps" by (simp add: delivered_count_def)
  moreover have "w_contexts w' = w_contexts w" using data_request_links [OF w'] by (simp add: keeps_links_def)
  ultimately show ?thesis using y w' s' \<open>s_status sess' = 2\<close> \<open>send_map sess' = send_map sess\<close> \<open>w_messages w' \<subseteq>\<^sub>m w_messages w\<close> ps
    by auto
qed

section \<open>A message that is sent again\<close>

definition established_at :: "world \<Rightarrow> addr \<Rightarrow> bool" where
  "established_at w s \<longleftrightarrow> (\<exists>sess. w_sessions w s = Some sess \<and> s_status sess = 2)"

text \<open>The message with chunk \<open>i\<close> is queued in session \<open>s\<close>, and its timer will send it once more.\<close>

definition retry_left :: "world \<Rightarrow> addr \<Rightarrow> addr \<Rightarrow> nat \<Rightarrow> bool" where
  "retry_left w s c i \<longleftrightarrow>
     (\<exists>sess ctx m msg. w_sessions w s = Some sess \<and> w_contexts w c = Some ctx \<and>
        send_map sess (seq_of i) = Some m \<and> w_messages w m = Some msg \<and>
        m_send_retries msg \<le> c_udp_slide_window ctx)"

lemma timer_pending:
  assumes "send_msg_ok own s k m msg" "w_messages w m = Some msg"
  shows "pending w Cb_request_timeout m = Some (evtimer Cb_request_timeout)"
  using assms by (auto simp: send_msg_ok_def message_event_def pending_def owner_event_def event_for_def evtimer_def)

text \<open>The timer of the message fires: its datagram is in flight again.\<close>

lemma resend:
  assumes E: "end_ok ar h s sock c sent peer acked w" and st: "established_at w s" and ch: "chunks_ok sent"
    and i: "i < length sent" "retry_left w s c i"
  shows "\<exists>w'. end_step ar s c net w [] w' \<and> chunk_datagram ar h sent i \<in> new_datagrams w w' \<and>
    delivered_count sock w' = delivered_count sock w \<and>
    established_at w' s \<and> (\<forall>j < length sent. j \<noteq> i \<longrightarrow> retry_left w s c j \<longrightarrow> retry_left w' s c j)"
proof -
  note w = end_okD(1) [OF E]
  from i(2) obtain sess ctx m msg where s: "w_sessions w s = Some sess" and c: "w_contexts w c = Some ctx" and
    k: "send_map sess (seq_of i) = Some m" and m: "w_messages w m = Some msg" "m_send_retries msg \<le> c_udp_slide_window ctx"
    unfolding retry_left_def by blast
  from sent_message [OF E s k ch] m(1) obtain data own where o: "m_session msg = Some s" "m_seq msg = seq_of i"
    "m_data msg = Some data" "own_msg ar h sent msg" "send_msg_ok own s (seq_of i) m msg" by auto
  from o(2,4) obtain j where j: "j < length sent" "seq_of i = seq_of j" "valid_length msg = int (length (sent ! j))"
    "m_data msg = Some (new_mdata ar data_request h (seq_of j) (sent ! j))" unfolding own_msg_def by metis
  then have ji: "j = i" using chunk_seq_inj [OF ch i(1) j(1)] by blast
  have len: "unat (m_len msg) = length (chunk_datagram ar h sent i)"
  proof -
    have "unat (m_len msg) = sizeof_md + length (sent ! i)" using valid_length_ok [OF o(5)] j(3) unfolding ji by linarith
    then show ?thesis by (simp add: new_mdata_def)
  qed
  from end_okD(4) [OF E s] obtain r rule ctx2 n where l: "linked w sess r rule c ctx2 n"
    unfolding end_session_def by blast
  with c have l: "linked w sess r rule c ctx n" by (simp add: linked_def)
  let ?os = "delivering_os ar []" and ?sess = "sess\<lparr>s_last_send_ts := 0\<rparr>"
  let ?msg = "msg\<lparr>m_send_retries := m_send_retries msg + 1\<rparr>"
  from request_timeout_ok_spec [OF w m(1) o(1) s l j(4), of ?os] m(2) len obtain w' where
    e: "process_request_timeout_cb ?os m w = Some w'" and
    w': "world_ok w'" "w_messages w' = (w_messages w)(m \<mapsto> ?msg)" "w_sessions w' = (w_sessions w)(s \<mapsto> ?sess)"
      "w_out w' = w_out w @ [EventAdd (evtimer Cb_request_timeout) (Some (timeval_ms (c_utimeout ctx))),
          UdpSend (c_sock ctx) (chunk_datagram ar h sent i)]"
    by (auto simp: ji delivering_os_def)
  have "w_contexts w' = w_contexts w" using request_timeout_links [OF e] by (simp add: keeps_links_def)
  moreover have "m2 \<noteq> m" if "send_map sess (seq_of j) = Some m2" "j < length sent" "j \<noteq> i" for j m2
  proof
    assume "m2 = m"
    with sent_message [OF E s that(1) ch] m(1) o(2) have "seq_of j = seq_of i" by auto
    with chunk_seq_inj [OF ch that(2) i(1)] that(3) show False by simp
  qed
  ultimately have "retry_left w' s c j" if "j < length sent" "j \<noteq> i" "retry_left w s c j" for j
    using that s w'(2,3) unfolding retry_left_def by fastforce
  moreover have "end_step ar s c net w [] w'" by (rule end_step.timer [OF _ timer_pending [OF o(5) m(1)] e]) simp
  moreover have "chunk_datagram ar h sent i \<in> new_datagrams w w'" by (auto simp: new_datagrams_def w'(4))
  moreover have "delivered_count sock w' = delivered_count sock w" by (simp add: delivered_count_def w'(4) full_write_def)
  moreover have "established_at w' s" using st s w'(3) by (auto simp: established_at_def)
  ultimately show ?thesis by blast
qed

text \<open>A message that stays queued keeps its retries.\<close>

lemma retry_left_kept:
  assumes r: "retry_left w s c i" and s: "w_sessions w s = Some sess" and w': "world_ok w'" "w_contexts w' = w_contexts w"
    "w_sessions w' s = Some sess'" "send_map sess' = send_map sess" "w_messages w' \<subseteq>\<^sub>m w_messages w"
  shows "retry_left w' s c i"
proof -
  from r s obtain ctx m msg where m: "w_contexts w c = Some ctx" "send_map sess (seq_of i) = Some m"
    "w_messages w m = Some msg" "m_send_retries msg \<le> c_udp_slide_window ctx" unfolding retry_left_def by auto
  obtain own msg' data where "w_messages w' m = Some msg'" using queued_message [OF w'(1,3)] m(2) w'(4) by metis
  moreover from map_le_Some [OF w'(5) this] m(3) have "msg' = msg" by simp
  ultimately show ?thesis unfolding retry_left_def using m w'(2-4) by auto
qed

section \<open>Everything is delivered\<close>

lemma udp_pending:
  assumes w: "world_ok w" and c: "w_contexts w c = Some ctx"
  obtains ev where "pending w Cb_process_udp c = Some ev"
proof -
  from world_okD(3) [OF w c] obtain te where "c_ev_udp ctx = Some te" "te_event te = Some (ev_read Cb_process_udp (c_sock ctx))"
    by (auto simp: context_ok_def)
  with c have "pending w Cb_process_udp c = Some (ev_read Cb_process_udp (c_sock ctx))"
    by (simp add: pending_def owner_event_def event_for_def ev_read_def)
  then show thesis by (rule that)
qed

text \<open>
  The second end writes the chunks that it still lacks, one after the other: the timer of the message
  fires at the first end, and the datagram arrives.
\<close>

lemma second_completes:
  assumes "connection_ok ar h (s1, c1) sock1 (s2, c2) sock2 x" "wire_handle ar h = h"
    and "established_at (x_w1 x) s1" "established_at (x_w2 x) s2"
    and "\<forall>i < length (x_sent1 x). delivered_count sock2 (x_w2 x) \<le> i \<longrightarrow> retry_left (x_w1 x) s1 c1 i"
  shows "\<exists>y. (connection_step ar (s1, c1) (s2, c2))\<^sup>*\<^sup>* x y \<and> x_sent1 y = x_sent1 x \<and> x_sent2 y = x_sent2 x \<and>
    delivered_count sock2 (x_w2 y) = length (x_sent1 x) \<and> delivered_count sock1 (x_w1 y) = delivered_count sock1 (x_w1 x) \<and>
    established_at (x_w1 y) s1 \<and> established_at (x_w2 y) s2 \<and>
    (\<forall>i. retry_left (x_w2 x) s2 c2 i \<longrightarrow> retry_left (x_w2 y) s2 c2 i)"
  using assms
proof (induction "length (x_sent1 x) - delivered_count sock2 (x_w2 x)" arbitrary: x rule: less_induct)
  case (less x)
  let ?step = "connection_step ar (s1, c1) (s2, c2)" and ?n = "delivered_count sock2 (x_w2 x)"
  let ?d = "chunk_datagram ar h (x_sent1 x) ?n"
  note C = connection_okD [OF less.prems(1), unfolded fst_conv snd_conv]
  show ?case
  proof (cases "?n = length (x_sent1 x)")
    case True
    with less.prems(3,4) show ?thesis by (intro exI [of _ x]) simp
  next
    case False
    with end_okD(7) [OF C(2)] have n: "?n < length (x_sent1 x)" by simp
    with less.prems(5) have left: "retry_left (x_w1 x) s1 c1 ?n" by simp
    from resend [OF C(1) less.prems(3) C(3) n left, of "x_net2 x"] obtain w1 where
      w1: "end_step ar s1 c1 (x_net2 x) (x_w1 x) [] w1" "?d \<in> new_datagrams (x_w1 x) w1" "established_at w1 s1"
        "delivered_count sock1 w1 = delivered_count sock1 (x_w1 x)"
        "\<forall>j < length (x_sent1 x). j \<noteq> ?n \<longrightarrow> retry_left (x_w1 x) s1 c1 j \<longrightarrow> retry_left w1 s1 c1 j" by blast
    let ?x1 = "x\<lparr>x_w1 := w1, x_net1 := x_net1 x \<union> new_datagrams (x_w1 x) w1\<rparr>"
    have st1: "?step x ?x1"
      using connection_step.first [of ar "(s1, c1)" x "[]" w1 "(s2, c2)"] w1(1) C(3) by (simp add: chunks_ok_def)
    note C1 = connection_ok_step [OF less.prems(1,2) st1]
    from less.prems(4) obtain sess where s: "w_sessions (x_w2 x) s2 = Some sess" "s_status sess = 2"
      by (auto simp: established_at_def)
    from end_okD(2) [OF C(2)] obtain ctx where "w_contexts (x_w2 x) c2 = Some ctx" by blast
    from udp_pending [OF end_okD(1) [OF C(2)] this] obtain ev where ev: "pending (x_w2 x) Cb_process_udp c2 = Some ev" .
    from deliver_next [OF C(2) s C(3) less.prems(2) n, of "ev_sock ev"] obtain w2 sess' where
      w2: "process_udp_cb (delivering_os ar ?d) (ev_sock ev) c2 (x_w2 x) = Some w2" "?n < delivered_count sock2 w2"
        "w_sessions w2 s2 = Some sess'" "s_status sess' = 2" "send_map sess' = send_map sess"
        "w_messages w2 \<subseteq>\<^sub>m w_messages (x_w2 x)" "w_contexts w2 = w_contexts (x_w2 x)" by blast
    let ?x2 = "?x1\<lparr>x_w2 := w2, x_net2 := x_net2 ?x1 \<union> new_datagrams (x_w2 ?x1) w2\<rparr>"
    have "end_step ar s2 c2 (x_net1 ?x1) (x_w2 ?x1) [] w2"
      using end_step.arrival [OF _ _ ev _ delivering_os_arrives [OF chunk_datagram_length [OF C(3) n]] w2(1)] w1(2) by simp
    then have st2: "?step ?x1 ?x2"
      using connection_step.second [of ar "(s2, c2)" ?x1 "[]" w2 "(s1, c1)"] C(4) by (simp add: chunks_ok_def)
    note C2 = connection_ok_step [OF C1 less.prems(2) st2]
    have "world_ok w2" using end_okD(1) [OF connection_okD(2) [OF C2]] by simp
    then have kept: "retry_left w2 s2 c2 i" if "retry_left (x_w2 x) s2 c2 i" for i
      by (rule retry_left_kept [OF that s(1) _ w2(7,3,5,6)])
    have "\<exists>y. ?step\<^sup>*\<^sup>* ?x2 y \<and> x_sent1 y = x_sent1 ?x2 \<and> x_sent2 y = x_sent2 ?x2 \<and>
        delivered_count sock2 (x_w2 y) = length (x_sent1 ?x2) \<and>
        delivered_count sock1 (x_w1 y) = delivered_count sock1 (x_w1 ?x2) \<and>
        established_at (x_w1 y) s1 \<and> established_at (x_w2 y) s2 \<and>
        (\<forall>i. retry_left (x_w2 ?x2) s2 c2 i \<longrightarrow> retry_left (x_w2 y) s2 c2 i)"
      by (rule less.hyps [OF _ C2 less.prems(2)])
        (use n w1(3,5) w2(2-4) less.prems(5) in \<open>auto simp: established_at_def\<close>)
    then obtain y where y: "?step\<^sup>*\<^sup>* ?x2 y" "x_sent1 y = x_sent1 x" "x_sent2 y = x_sent2 x"
      "delivered_count sock2 (x_w2 y) = length (x_sent1 x)" "delivered_count sock1 (x_w1 y) = delivered_count sock1 w1"
      "established_at (x_w1 y) s1" "established_at (x_w2 y) s2" "\<forall>i. retry_left w2 s2 c2 i \<longrightarrow> retry_left (x_w2 y) s2 c2 i"
      by auto
    have "?step\<^sup>*\<^sup>* x y"
      by (rule converse_rtranclp_into_rtranclp [of ?step, OF st1 converse_rtranclp_into_rtranclp [of ?step, OF st2 y(1)]])
    with y(2-8) w1(4) kept show ?thesis by auto
  qed
qed

lemma first_completes:
  assumes C: "connection_ok ar h (s1, c1) sock1 (s2, c2) sock2 x" and h: "wire_handle ar h = h"
    and s: "established_at (x_w1 x) s1" "established_at (x_w2 x) s2"
    and left: "\<forall>i < length (x_sent2 x). delivered_count sock1 (x_w1 x) \<le> i \<longrightarrow> retry_left (x_w2 x) s2 c2 i"
  shows "\<exists>y. (connection_step ar (s1, c1) (s2, c2))\<^sup>*\<^sup>* x y \<and> x_sent1 y = x_sent1 x \<and> x_sent2 y = x_sent2 x \<and>
    delivered_count sock1 (x_w1 y) = length (x_sent2 x) \<and> delivered_count sock2 (x_w2 y) = delivered_count sock2 (x_w2 x) \<and>
    established_at (x_w1 y) s1 \<and> established_at (x_w2 y) s2"
proof -
  have "connection_ok ar h (s2, c2) sock2 (s1, c1) sock1 (swap_ends x)" using C by simp
  from second_completes [OF this h] s left obtain y where
    y: "(connection_step ar (s2, c2) (s1, c1))\<^sup>*\<^sup>* (swap_ends x) y" "x_sent2 y = x_sent1 x" "x_sent1 y = x_sent2 x"
      "delivered_count sock1 (x_w2 y) = length (x_sent2 x)" "delivered_count sock2 (x_w1 y) = delivered_count sock2 (x_w2 x)"
      "established_at (x_w2 y) s1" "established_at (x_w1 y) s2" by auto
  from connection_steps_swap [OF y(1)] y(2-7) show ?thesis by (intro exI [of _ "swap_ends y"]) simp
qed

text \<open>Each message in the send queue of session \<open>s\<close> may be sent once more.\<close>

definition retries_left :: "world \<Rightarrow> addr \<Rightarrow> addr \<Rightarrow> bool" where
  "retries_left w s c \<longleftrightarrow>
     (\<forall>sess ctx k m msg. w_sessions w s = Some sess \<longrightarrow> w_contexts w c = Some ctx \<longrightarrow>
        send_map sess k = Some m \<longrightarrow> w_messages w m = Some msg \<longrightarrow> m_send_retries msg \<le> c_udp_slide_window ctx)"

lemma retries_leftD:
  assumes E: "end_ok ar h s sock c sent peer acked w" and ch: "chunks_ok sent" and r: "retries_left w s c"
    and st: "established_at w s" and i: "i < length sent" "acked \<le> i"
  shows "retry_left w s c i"
proof -
  from st obtain sess where s: "w_sessions w s = Some sess" by (auto simp: established_at_def)
  from end_okD(4) [OF E s] i obtain m where k: "send_map sess (seq_of i) = Some m" by (auto simp: end_session_def)
  from sent_message [OF E s k ch] obtain msg where "w_messages w m = Some msg" by blast
  with end_okD(2) [OF E] s k r show ?thesis unfolding retries_left_def retry_left_def by blast
qed


end
