(* ===== verification/T2u_Run_Witnesses.thy ===== *)
theory T2u_Run_Witnesses
  imports T2u_Tunnel T2u_Witnesses
begin

text \<open>
  The properties of runs and of the two ends of a tunnel, each applied to concrete states in which
  its hypotheses hold.
\<close>

section \<open>A run: a context, a client rule and a connection\<close>

lemma ex_runner_available: "runner_available ex_os call"
  unfolding runner_available_def
  by (intro conjI exI [of _ CONTROL_PORT_START])
    (simp_all add: ex_os_def CONTROL_PORT_START_def CONTROL_PORT_END_def)

lemma ex_run_created:
  "\<exists>c ctx w. (t2u_step ex_os)\<^sup>*\<^sup>* t2u_init w \<and> w_contexts w = [c \<mapsto> ctx] \<and> rb_map (c_rules ctx) = Map.empty"
proof -
  have w: "world_ok t2u_init" using state_ok_init by (simp add: state_ok_def)
  have g: "case w_g_runner t2u_init of None \<Rightarrow> runner_available ex_os (w_calls t2u_init)
      | Some n \<Rightarrow> w_runners t2u_init n \<noteq> None" by (simp add: t2u_init_def ex_runner_available)
  from create_forward_ok_spec [OF w g, of 3] obtain c w1 ctx where
    c: "create_forward ex_os 3 t2u_init = Some (c, w1)" "w_contexts w1 = (w_contexts t2u_init)(c \<mapsto> ctx)"
      "rb_map (c_rules ctx) = Map.empty" by blast
  have "t2u_step ex_os t2u_init w1"
    by (rule t2u_step.input [of _ _ "Create_forward 3"]) (simp_all add: ex_runner_available c)
  then show ?thesis using c(2,3) by (auto simp: t2u_init_def)
qed

lemma ex_create_logs: "create_logs w ex_a NULL" "create_logs w (CStr [99]) NULL"
  by (simp_all add: create_logs_def fmt_s_def LOG_NAME_MAX_def ascii_def)

lemma ex_run_listening:
  "\<exists>c w r. (t2u_step ex_os)\<^sup>*\<^sup>* t2u_init w \<and> dom (w_contexts w) = {c} \<and> w_rules w r \<noteq> None \<and>
    input_ok ex_os w (Fire Cb_process_accept r)"
proof -
  from ex_run_created obtain c ctx w1 where
    c: "(t2u_step ex_os)\<^sup>*\<^sup>* t2u_init w1" "w_contexts w1 = [c \<mapsto> ctx]" "rb_map (c_rules ctx) = Map.empty" by blast
  have w1: "world_ok w1" "w_contexts w1 c = Some ctx" "rb_map (c_rules ctx) ex_a = None"
    using reachable_state_ok [OF c(1) ex_os_ok] c(2,3) by (simp_all add: state_ok_def)
  have "\<not> listen_fails ex_os (w_calls w1) (rule_address ex_os None 80)" by (simp add: listen_fails_def ex_os_def)
  with add_rule_ok_spec [OF w1 ex_create_logs(1), of ex_os forward_client_mode 80] obtain r w2 rule t ev where
    r: "add_forward_rule ex_os c forward_client_mode ex_a None 80 w1 = Some (Some r, w2)"
      "w_contexts w2 = (w_contexts w1)(c \<mapsto> ctx\<lparr>c_rules := t\<rparr>)" "w_rules w2 r = Some rule"
      "rb_map (r_connecting_sessions rule) = Map.empty" "r_ev_listen rule = Some ev"
      "te_event ev = Some (ev_read Cb_process_accept (os_socket ex_os (w_calls w1)))" by auto
  have "t2u_step ex_os w1 w2"
    by (rule t2u_step.input [of _ _ "Add_rule c forward_client_mode ex_a None 80"]) (use w1 r(1) ex_create_logs in simp_all)
  with c(1) have "(t2u_step ex_os)\<^sup>*\<^sup>* t2u_init w2" by (rule rtranclp.rtrancl_into_rtrancl)
  moreover have "input_ok ex_os w2 (Fire Cb_process_accept r)"
    using r(3-6) by (simp add: pending_def owner_event_def event_for_def ev_read_def event_ok_def handle_free_def)
  moreover have "dom (w_contexts w2) = {c}" using c(2) r(2) by simp
  ultimately show ?thesis using r(3) by blast
qed

lemma ex_run_connecting:
  "\<exists>w s sess. (t2u_step ex_os)\<^sup>*\<^sup>* t2u_init w \<and> w_sessions w s = Some sess \<and> s_status sess = 1"
proof -
  from ex_run_listening obtain w r rule where
    w: "(t2u_step ex_os)\<^sup>*\<^sup>* t2u_init w" "w_rules w r = Some rule" "input_ok ex_os w (Fire Cb_process_accept r)" by blast
  have ok: "world_ok w" using reachable_state_ok [OF w(1) ex_os_ok] by (simp add: state_ok_def)
  from w(3) obtain e where e: "pending w Cb_process_accept r = Some e" "event_ok ex_os w Cb_process_accept r e" by auto
  then obtain ev where ev: "r_ev_listen rule = Some ev" "handle_free w rule 0"
    using w(2) by (auto elim!: pendingE simp: owner_event_def event_ok_def)
  from live_rule [OF ok w(2)] obtain c ctx where c: "r_context rule = Some c" "w_contexts w c = Some ctx" by blast
  have "\<not> os_accept ex_os (w_calls w) (r_listen_sock rule) < 0" by (simp add: ex_os_def)
  with accept_ok_spec [OF ok w(2) ev(1) c ev(2), of ex_os] obtain w' sess where
    w': "rule_process_accept_cb ex_os r w = Some w'" "w_sessions w' (w_fresh w) = Some sess" "s_status sess = 1" by auto
  have "t2u_step ex_os w w'"
    by (rule t2u_step.input [OF w(3)]) (simp add: fire_def e w')
  with w(1) have "(t2u_step ex_os)\<^sup>*\<^sup>* t2u_init w'" by (rule rtranclp.rtrancl_into_rtrancl)
  with w'(2,3) show ?thesis by blast
qed


lemma run_pointers_witness:
  "\<exists>w s r. (t2u_step ex_os)\<^sup>*\<^sup>* t2u_init w \<and> (\<exists>sess. w_sessions w s = Some sess \<and> s_rule sess = Some r) \<and>
    w_rules w r \<noteq> None"
proof -
  from ex_run_connecting obtain w s sess where
    w: "(t2u_step ex_os)\<^sup>*\<^sup>* t2u_init w" "w_sessions w s = Some sess" by blast
  from run_pointers [OF w(1) ex_os_ok] w(2) obtain r rule where "s_rule sess = Some r" "w_rules w r = Some rule" by blast
  with w show ?thesis by blast
qed

lemma run_invariant_witness:
  "\<exists>w s sess. \<exists>rule :: t2u_rule. (t2u_step ex_os)\<^sup>*\<^sup>* t2u_init w \<and> w_sessions w s = Some sess \<and>
    rb_map (r_connecting_sessions rule) (s_handle sess) = Some s"
proof -
  from ex_run_connecting obtain w s sess where
    w: "(t2u_step ex_os)\<^sup>*\<^sup>* t2u_init w" "w_sessions w s = Some sess" "s_status sess = 1" by blast
  from run_invariant [OF w(1) ex_os_ok] w(2) obtain rule where
    "registry rule (s_status sess) (s_handle sess) = Some s" by blast
  then have "rb_map (r_connecting_sessions rule) (s_handle sess) = Some s" by (simp add: registry_def w(3))
  with w(1,2) show ?thesis by blast
qed

lemma last_context_frees_all_witness:
  "\<exists>w c w'. (t2u_step ex_os)\<^sup>*\<^sup>* t2u_init w \<and> free_forward ex_os c w = Some w' \<and> w_rules w \<noteq> Map.empty \<and>
    w_rules w' = Map.empty \<and> w_runners w' = Map.empty"
proof -
  from ex_run_listening obtain w c r where
    w: "(t2u_step ex_os)\<^sup>*\<^sup>* t2u_init w" "dom (w_contexts w) = {c}" "w_rules w r \<noteq> None" by blast
  from last_context_frees_all [OF w(1) ex_os_ok w(2)] w(1,3) show ?thesis by fastforce
qed

section \<open>Single events\<close>

lemma add_rule_ok_witness:
  "\<exists>w' rule. add_forward_rule ex_os (Suc 0) forward_client_mode (CStr [99]) None 80 ex_world = Some (Some 9, w') \<and>
    world_ok w' \<and> w_rules w' 9 = Some rule \<and> r_listen_sock rule = 20"
proof -
  have new: "rb_map (c_rules ex_context) (CStr [99]) = None" by simp
  have l: "\<not> listen_fails ex_os 0 (rule_address ex_os None 80)" and s: "os_socket ex_os 0 = 20"
    by (simp_all add: listen_fails_def ex_os_def)
  from add_rule_ok_spec [OF ex_world_ok ex_world_sel(8) new ex_create_logs(2), of ex_os forward_client_mode 80] l s show ?thesis by auto
qed

lemma ex_listening: "\<exists>ev. r_ev_listen ex_client_rule = Some ev"
  by (simp add: ex_defs)

lemma ex_next_seq [simp]: "next_handle_seq 12 = 13"
  by (simp add: next_handle_seq_def)

lemma accept_ok_witness:
  "\<exists>w' sess. rule_process_accept_cb ex_os 2 ex_world = Some w' \<and> world_ok w' \<and>
    w_sessions w' 9 = Some sess \<and> s_handle sess = 13 \<and> s_sock sess = 21"
proof -
  obtain ev where ev: "r_ev_listen ex_client_rule = Some ev" using ex_listening ..
  have new: "handle_free ex_world ex_client_rule 0" by (simp add: handle_free_def session_handle_def)
  have a: "os_accept ex_os 0 sock = 21" for sock by (simp add: ex_os_def)
  from accept_ok_spec [OF ex_world_ok ex_world_sel(6) ev _ ex_world_sel(8) new, of ex_os] a show ?thesis by auto
qed

lemma connect_request_new_witness:
  "\<exists>w' sess. t2u_rule_handle_connect_request ex_os 3 (ex_mdata connect_request 5 0 [98, 0]) ex_world = Some w' \<and>
    world_ok w' \<and> w_sessions w' 9 = Some sess \<and> s_handle sess = 0xD00000005"
proof -
  let ?md = "ex_mdata connect_request 5 0 [98, 0]"
  have h: "session_handle (md_handle ?md) (next_handle_seq (w_handle_seq ex_world)) = 0xD00000005"
    by (simp add: session_handle_def)
  then have new: "handle_free ex_world ex_server_rule (md_handle ?md)"
    unfolding handle_free_def by (simp only: h) simp
  have s: "os_socket ex_os 0 \<noteq> - 1" "\<not> connect_failed (os_connect ex_os call sock a)" for call sock a
    by (simp_all add: ex_os_def connect_failed_def)
  have "rb_map (r_sessions ex_server_rule) (md_handle ?md) = None"
    "rb_map (r_connecting_sessions ex_server_rule) (md_handle ?md) = None" by simp_all
  from connect_request_new_spec [OF ex_world_ok ex_world_sel(7) _ _ ex_world_sel(8) this new, of ex_os, unfolded h] s
  show ?thesis by auto
qed

section \<open>A network that brings one datagram\<close>

definition ex_net :: "byte list \<Rightarrow> os" where
  "ex_net d = ex_os\<lparr>os_recv := \<lambda>call sock cap. (int (length (take cap d)), 0, take cap d)\<rparr>"

lemma ex_net_ok: "os_ok (ex_net d)"
  using ex_os_ok by (simp add: ex_net_def os_ok_def)

lemma ex_net_sel [simp]:
  "os_arch (ex_net d) = Other_arch" "os_send (ex_net d) call sock bytes = (int (length bytes), 0)"
  "os_socket (ex_net d) call = 20" "os_connect (ex_net d) call sock a = (0, 0)"
  "os_sock_error (ex_net d) call sock = 0"
  by (simp_all add: ex_net_def ex_os_def)

lemma ex_net_arrives: "length d \<le> T2U_MESS_BUFFER_MAX \<Longrightarrow> arrives (ex_net d) w sock d"
  by (simp add: arrives_def ex_net_def)

text \<open>The sessions of the example.\<close>

lemma ex_has_session:
  "has_session ex_world (Suc 0) h connected s \<longleftrightarrow>
     (s = 4 \<and> h = 10 \<and> connected) \<or> (s = 5 \<and> h = 11 \<and> \<not> connected) \<or> (s = 6 \<and> h = 0x50000000B \<and> \<not> connected)"
proof -
  have "w_sessions ex_world s = (if s = 4 then Some ex_established else if s = 5 then Some ex_connecting
      else if s = 6 then Some ex_server else None)" by (simp add: ex_world_def)
  moreover have "s_rule ex_established = Some 2" "s_rule ex_connecting = Some 2" "s_rule ex_server = Some 3"
    by (simp_all add: ex_defs)
  ultimately show ?thesis by (auto simp: has_session_def split: if_splits)
qed

lemma process_udp_ok_witness:
  "\<exists>w'. process_udp_cb (ex_net (md_bytes (new_mdata Other_arch data_request 10 2 [68]))) 3 (Suc 0) ex_world = Some w' \<and>
    world_ok w'"
proof -
  let ?d = "md_bytes (new_mdata Other_arch data_request 10 2 [68])"
  let ?os = "ex_net ?d"
  have "arrives ?os ex_world 3 (md_bytes (new_mdata (os_arch ?os) data_request 10 2 [68]))"
    unfolding ex_net_sel by (rule ex_net_arrives) (simp add: T2U_MESS_BUFFER_MAX_def T2U_PAYLOAD_MAX_def new_mdata_def)
  from arrives_received [OF this] obtain junk where
    r: "received ?os 3 ex_world = (int (sizeof_md + length [68 :: byte]), wire_md (os_arch ?os) data_request 10 2 ([68] @ junk))" ..
  have "s_status sess \<noteq> 3" if "has_session ex_world (Suc 0) h True s" "w_sessions ex_world s = Some sess" for h s sess
    using that by (auto simp: ex_has_session)
  then have "datagram_ok ex_world (Suc 0) ex_context (wire_md (os_arch ?os) data_request 10 2 ([68] @ junk))"
    by (auto simp: datagram_ok_def)
  from process_udp_ok_spec [OF ex_world_ok ex_net_ok ex_world_sel(8) r this] show ?thesis by blast
qed

section \<open>Two ends\<close>

text \<open>Both ends of a connection: five packets have gone each way.\<close>

definition ex_peer_session :: t2u_session where
  "ex_peer_session = ex_established\<lparr>s_send_seq := 5, s_recv_seq := 5\<rparr>"

definition ex_peer :: world where
  "ex_peer = ex_world\<lparr>w_sessions := (w_sessions ex_world)(4 \<mapsto> ex_peer_session)\<rparr>"

lemma ex_peer_session [simp]:
  "s_status ex_peer_session = 2" "s_handle ex_peer_session = 10" "s_sock ex_peer_session = 5"
  "s_send_seq ex_peer_session = 5" "s_recv_seq ex_peer_session = 5" "s_send_buffer_count ex_peer_session = 1"
  "send_map ex_peer_session = [1 \<mapsto> 7]" "recv_map ex_peer_session = [3 \<mapsto> 8]"
  by (simp_all add: ex_peer_session_def)

lemma ex_peer [simp]:
  "world_ok ex_peer" "w_sessions ex_peer 4 = Some ex_peer_session" "w_calls ex_peer = 0"
  "linked ex_peer ex_peer_session 2 ex_client_rule (Suc 0) ex_context 0"
  "only_session ex_peer (Suc 0) 10 True 4"
proof -
  show "world_ok ex_peer"
    by (rule world_ok_session_fields [OF ex_world_ok ex_world_sel(1), of ex_peer_session])
      (simp_all add: ex_peer_session_def ex_peer_def session_events_def)
  show "linked ex_peer ex_peer_session 2 ex_client_rule (Suc 0) ex_context 0"
    using ex_linked(1) by (simp add: linked_def ex_peer_def ex_peer_session_def)
  have "has_session ex_peer (Suc 0) h connected s = has_session ex_world (Suc 0) h connected s" for h connected s
    by (auto simp: has_session_def ex_peer_def ex_peer_session_def)
  then show "only_session ex_peer (Suc 0) 10 True 4" by (simp add: only_session_def ex_has_session)
qed (simp_all add: ex_peer_def)

lemma tunnel_data_witness:
  "\<exists>w1' w2' sess2'. t2u_session_process_tcp ex_os 5 4 ex_peer = Some w1' \<and>
    process_udp_cb (ex_net (data_datagram ex_os ex_peer_session [65])) 3 (Suc 0) ex_peer = Some w2' \<and>
    w_sessions w2' 4 = Some sess2' \<and> s_recv_seq sess2' = 6 \<and> TcpSend 5 [65] 1 \<in> set (w_out w2')"
proof -
  let ?d = "data_datagram ex_os ex_peer_session [65]"
  have recv: "os_recv ex_os (w_calls ex_peer) 5 T2U_PAYLOAD_MAX = (1, 0, [65])" "(0 :: int) < 1"
    by (simp_all add: ex_os_def T2U_PAYLOAD_MAX_def)
  have net: "arrives (ex_net ?d) ex_peer 3 ?d"
    by (rule ex_net_arrives) (simp add: data_datagram_def T2U_MESS_BUFFER_MAX_def T2U_PAYLOAD_MAX_def new_mdata_def)
  have room: "unat (s_send_buffer_count ex_peer_session) < c_udp_slide_window ex_context"
    "send_map ex_peer_session (s_send_seq ex_peer_session + 1) = None" by simp_all
  have peers: "peers ex_os (ex_net ?d) ex_peer_session ex_peer_session"
    "only_session ex_peer (Suc 0) (s_handle ex_peer_session) True 4"
    by (simp_all add: peers_def wire_simps ex_os_def)
  have seq: "s_recv_seq ex_peer_session = s_send_seq ex_peer_session"
    "recv_map ex_peer_session (s_recv_seq ex_peer_session + 2) = None" by simp_all
  have send: "os_send (ex_net ?d) (Suc (w_calls ex_peer)) (s_sock ex_peer_session) [65] = (int (length [65]), 0)" by simp
  from tunnel_data [OF ex_peer(1) ex_os_ok ex_peer(2) _ ex_peer(4) room recv ex_peer(1,2) _ ex_peer(4) peers seq net send]
  show ?thesis by auto
qed

text \<open>The answer to the packet of ten bytes that the example has in its send queue.\<close>

lemma tunnel_acknowledged_witness:
  "\<exists>w' sess1'. process_udp_cb (ex_net (answer ex_os 10 1 10)) 3 (Suc 0) ex_world = Some w' \<and> w_messages w' 7 = None \<and>
    w_sessions w' 4 = Some sess1' \<and> send_map sess1' = Map.empty"
proof -
  let ?d = "answer ex_os 10 1 10"
  have net: "arrives (ex_net ?d) ex_world 3 (answer ex_os (s_handle ex_established) 1 10)"
    unfolding ex_parts by (rule ex_net_arrives)
      (simp add: answer_def T2U_MESS_BUFFER_MAX_def T2U_PAYLOAD_MAX_def new_mdata_def put_u32_def)
  have peers: "peers (ex_net ?d) ex_os ex_established ex_established"
    "only_session ex_world (Suc 0) (s_handle ex_established) True 4"
    by (simp_all add: peers_def wire_simps ex_os_def only_session_def ex_has_session)
  have m: "send_map ex_established 1 = Some 7" by simp
  from tunnel_acknowledged [OF ex_world_ok ex_world_sel(1) _ ex_linked(1) peers net m ex_world_sel(4) ex_msg_sel(2)]
  show ?thesis by (simp add: T2U_PAYLOAD_MAX_def) fastforce
qed

text \<open>The packet with number 1 comes again, at an end that has delivered it.\<close>

lemma tunnel_duplicate_witness:
  "\<exists>w1' w2'. process_udp_cb (ex_net (md_bytes (new_mdata Other_arch data_request 10 1 [65]))) 3 (Suc 0) ex_world = Some w2' \<and>
    w_out w2' = [UdpSend 3 (answer ex_os 10 1 0)] \<and>
    process_udp_cb (ex_net (answer ex_os 10 1 0)) 3 (Suc 0) ex_world = Some w1' \<and> w_messages w1' 7 = Some ex_send_msg"
proof -
  let ?d = "md_bytes (new_mdata Other_arch data_request 10 1 [65])"
  have a: "answer (ex_net ?d) 10 1 0 = answer ex_os 10 1 0" by (simp add: answer_def ex_os_def)
  have again: "arrives (ex_net ?d) ex_world 3 (md_bytes (new_mdata (os_arch (ex_net ?d)) data_request (s_handle ex_established) 1 [65]))"
    unfolding ex_net_sel ex_parts
    by (rule ex_net_arrives) (simp add: T2U_MESS_BUFFER_MAX_def T2U_PAYLOAD_MAX_def new_mdata_def)
  have net: "arrives (ex_net (answer ex_os 10 1 0)) ex_world 3 (answer (ex_net ?d) (s_handle ex_established) 1 0)"
    unfolding ex_parts a
    by (rule ex_net_arrives) (simp add: answer_def T2U_MESS_BUFFER_MAX_def T2U_PAYLOAD_MAX_def new_mdata_def put_u32_def)
  have peers: "peers (ex_net (answer ex_os 10 1 0)) (ex_net ?d) ex_established ex_established"
    "only_session ex_world (Suc 0) (s_handle ex_established) True 4"
    by (simp_all add: peers_def wire_simps only_session_def ex_has_session)
  have m: "send_map ex_established 1 = Some 7" "valid_length ex_send_msg \<noteq> 0" by simp_all
  from tunnel_duplicate [OF ex_world_ok ex_world_sel(1) _ ex_linked(1) ex_world_ok ex_world_sel(1) _ ex_linked(1)
      peers(1,2,2) m(1) ex_world_sel(4) m(2) _ again net] a show ?thesis by auto
qed

text \<open>Two programs with a rule of the same name: the client accepts a connection, the server connects.\<close>

lemma tunnel_request_witness:
  "\<exists>w1 w2 d w1' w2' sess2. rule_process_accept_cb ex_os 9 w1 = Some w1' \<and>
    process_udp_cb (ex_net d) 3 (Suc 0) w2 = Some w2' \<and> UdpSend 3 d \<in> set (w_out w1') \<and>
    w_sessions w2' (w_fresh w2) = Some sess2 \<and> s_handle sess2 = 0xD0000000D"
proof -
  let ?s = "CStr [99]"
  have new: "rb_map (c_rules ex_context) ?s = None" by simp
  have "\<not> listen_fails ex_os (w_calls ex_world) (rule_address ex_os None 80)" by (simp add: listen_fails_def ex_os_def)
  with add_rule_ok_spec [OF ex_world_ok ex_world_sel(8) new ex_create_logs(2), of ex_os forward_client_mode 80]
  obtain w1 rule1 t1 ev where w1: "world_ok w1" "w_rules w1 9 = Some rule1" "r_service rule1 = ?s"
      "r_context rule1 = Some (Suc 0)" "rb_map (r_connecting_sessions rule1) = Map.empty" "r_ev_listen rule1 = Some ev"
      "w_contexts w1 (Suc 0) = Some (ex_context\<lparr>c_rules := t1\<rparr>)" "w_handle_seq w1 = 12" by auto
  from add_rule_ok_spec [OF ex_world_ok ex_world_sel(8) new ex_create_logs(2), of ex_os forward_server_mode 80]
  obtain w2 rule2 t2 where w2: "world_ok w2" "w_rules w2 9 = Some rule2" "r_mode rule2 = forward_server_mode"
      "rb_map (r_sessions rule2) = Map.empty" "rb_map (r_connecting_sessions rule2) = Map.empty"
      "w_contexts w2 (Suc 0) = Some (ex_context\<lparr>c_rules := t2\<rparr>)" "w_handle_seq w2 = 12"
      "rb_map t2 = (rb_map (c_rules ex_context))(?s \<mapsto> 9)" by auto
  let ?d = "request_datagram ex_os rule1 13"
  have net: "arrives (ex_net ?d) w2 3 (request_datagram ex_os rule1 (next_handle_seq (w_handle_seq w1)))"
    unfolding w1(8) ex_next_seq by (rule ex_net_arrives)
      (simp add: request_datagram_def T2U_MESS_BUFFER_MAX_def T2U_PAYLOAD_MAX_def new_mdata_def w1(3))
  have h: "handle_free w1 rule1 0" "handle_free w2 rule2 h" for h using w1(5) w2(5) by (simp_all add: handle_free_def)
  have a: "0 \<le> os_accept ex_os (w_calls w1) (r_listen_sock rule1)" by (simp add: ex_os_def)
  have arch: "os_arch (ex_net ?d) = os_arch ex_os" by (simp add: ex_os_def)
  have r2: "rb_map (c_rules (ex_context\<lparr>c_rules := t2\<rparr>)) (r_service rule1) = Some 9" "0 \<notin> set (cbytes (r_service rule1))"
    by (simp_all add: w2(8) w1(3))
  have "server_handle 13 13 = 0xD0000000D" by (simp add: server_handle_def)
  with tunnel_request [OF w1(1,2,6,4,7) h(1) a w2(1,6) arch r2(1) w2(2,3) r2(2) _ _ h(2) net] w1(8) w2(4,5,7)
  have "\<exists>w1' w2' sess2. rule_process_accept_cb ex_os 9 w1 = Some w1' \<and>
    process_udp_cb (ex_net ?d) 3 (Suc 0) w2 = Some w2' \<and> UdpSend 3 ?d \<in> set (w_out w1') \<and>
    w_sessions w2' (w_fresh w2) = Some sess2 \<and> s_handle sess2 = 0xD0000000D"
    by (simp add: connect_failed_def) fastforce
  then show ?thesis by blast
qed

text \<open>A name of 954 bytes, at a program that has a log callback.\<close>

lemma unknown_service_request_witness:
  "process_udp_cb (ex_net (md_bytes (new_mdata Other_arch connect_request 1 0 (replicate 954 99 @ [0])))) 3 (Suc 0) ex_world =
    None"
proof -
  let ?name = "replicate 954 (99 :: byte)"
  let ?d = "md_bytes (new_mdata Other_arch connect_request 1 0 (?name @ [0]))"
  have net: "arrives (ex_net ?d) ex_world 3 (md_bytes (new_mdata (os_arch (ex_net ?d)) connect_request 1 0 (?name @ [0])))"
    unfolding ex_net_sel by (rule ex_net_arrives)
      (simp add: T2U_MESS_BUFFER_MAX_def T2U_PAYLOAD_MAX_def new_mdata_def)
  have "?name \<noteq> [97]" "?name \<noteq> [98]" by (auto dest: arg_cong [of _ _ length])
  then have "rb_map (c_rules ex_context) (CStr ?name) = None" by simp
  from unknown_service_request [OF ex_world_ok ex_world_sel(8) _ this net] show ?thesis by simp
qed

lemma tunnel_response_witness:
  "\<exists>w1' w2' sess1' sess2'. session_connect_success_cb ex_os 7 6 ex_world = Some w2' \<and>
    process_udp_cb (ex_net (response_datagram ex_os 0x50000000B)) 3 (Suc 0) ex_world = Some w1' \<and>
    w_sessions w1' 5 = Some sess1' \<and> w_sessions w2' 6 = Some sess2' \<and> s_status sess1' = 2 \<and> s_status sess2' = 2 \<and>
    s_handle sess1' = s_handle sess2'"
proof -
  let ?d = "response_datagram ex_os 0x50000000B"
  have net: "arrives (ex_net ?d) ex_world 3 (response_datagram ex_os (s_handle ex_server))"
    unfolding ex_parts by (rule ex_net_arrives)
      (simp add: response_datagram_def T2U_MESS_BUFFER_MAX_def T2U_PAYLOAD_MAX_def new_mdata_def put_u32_def)
  have new: "rb_map (r_sessions ex_server_rule) (s_handle ex_server) = None"
    "rb_map (r_sessions ex_client_rule) (wire_handle (os_arch (ex_net ?d)) (s_handle ex_server)) = None"
    by (simp_all add: wire_simps)
  have made: "os_sock_error ex_os (w_calls ex_world) (s_sock ex_server) = 0" "os_arch (ex_net ?d) = os_arch ex_os"
    by (simp_all add: ex_os_def)
  have same: "only_session ex_world (Suc 0) (s_handle ex_connecting) False 5" "low32 (s_handle ex_server) = s_handle ex_connecting"
    by (simp_all add: only_session_def ex_has_session low32_def)
  from tunnel_response [OF ex_world_ok ex_world_sel(3) _ ex_linked(3) _ new(1) made(1) ex_world_ok ex_world_sel(2) _
      ex_linked(2) made(2) same net new(2)]
  show ?thesis by auto
qed

text \<open>A server with one connected session, and data of the client under the low half of its handle.\<close>

lemma ex_server_world:
  "\<exists>w c ctx sess. world_ok w \<and> w_contexts w c = Some ctx \<and> w_sessions w = [6 \<mapsto> sess] \<and> s_status sess = 2 \<and>
    s_handle sess = 0x50000000B"
proof -
  from delete_rule_ok [OF ex_world_ok ex_world_sel(6) _ ex_world_sel(8) ex_log_ok(2), of ex_os] obtain w t where
    w: "world_ok w" "w_rules w = (w_rules ex_world)(2 := None)" "w_sessions w = sessions_without 2 (w_sessions ex_world)"
      "w_contexts w = (w_contexts ex_world)(Suc 0 \<mapsto> ex_context\<lparr>c_rules := t\<rparr>)" "w_runners w = w_runners ex_world" by auto
  have "s_rule ex_established = Some 2" "s_rule ex_connecting = Some 2" "s_rule ex_server = Some 3"
    by (simp_all add: ex_defs)
  then have s: "w_sessions w = [6 \<mapsto> ex_server]"
    unfolding w(3) by (auto simp: sessions_without_def ex_world_def fun_eq_iff)
  have l: "linked w ex_server 3 ex_server_rule (Suc 0) (ex_context\<lparr>c_rules := t\<rparr>) 0"
    using ex_linked(3) w(2,4,5) by (simp add: linked_def)
  have "os_sock_error ex_os (w_calls w) 7 = 0" by (simp add: ex_os_def)
  with connect_success_established_spec [OF w(1) _ _ l, of 6 ex_os 7] s obtain w' sess rule where
    w': "world_ok w'" "w_sessions w' = [6 \<mapsto> sess]" "s_status sess = 2" "s_handle sess = 0x50000000B"
      "w_rules w' 3 = Some rule" by auto
  from live_rule [OF w'(1,5)] obtain c ctx where "w_contexts w' c = Some ctx" by blast
  with w' show ?thesis by blast
qed

lemma tunnel_data_lost_witness:
  "\<exists>w c ctx sess w'. w_contexts w c = Some ctx \<and> w_sessions w 6 = Some sess \<and> s_handle sess = 0x50000000B \<and>
    process_udp_cb ((ex_net (data_datagram (ex_os\<lparr>os_arch := X86_64\<rparr>) ex_connecting [65]))\<lparr>os_arch := X86_64\<rparr>) 3 c w =
      Some w' \<and> w_out w' = w_out w"
proof -
  let ?os1 = "ex_os\<lparr>os_arch := X86_64\<rparr>"
  let ?d = "data_datagram ?os1 ex_connecting [65]"
  let ?os = "(ex_net ?d)\<lparr>os_arch := X86_64\<rparr>"
  from ex_server_world obtain w c ctx sess where
    w: "world_ok w" "w_contexts w c = Some ctx" "w_sessions w = [6 \<mapsto> sess]" "s_handle sess = 0x50000000B" by blast
  have "length ?d \<le> T2U_MESS_BUFFER_MAX"
    by (simp add: data_datagram_def T2U_MESS_BUFFER_MAX_def T2U_PAYLOAD_MAX_def new_mdata_def)
  then have net: "arrives ?os w 3 ?d" using ex_net_arrives [of ?d w 3] by (simp add: arrives_def)
  have server: "2 ^ 32 \<le> s_handle x" if "w_sessions w s = Some x" "s_status x \<noteq> 1" for s x
    using that w(3,4) by (auto split: if_splits)
  have "process_udp_cb ?os 3 c w = Some (w\<lparr>w_calls := Suc (w_calls w)\<rparr>)"
    by (rule tunnel_data_lost [OF w(1,2) _ _ server net]) simp_all
  moreover have "w_out (w\<lparr>w_calls := Suc (w_calls w)\<rparr>) = w_out w" "w_sessions w 6 = Some sess" using w(3) by simp_all
  ultimately show ?thesis using w(2,4) by blast
qed

end
