(* ===== verification/T2u_Stream_Witnesses.thy ===== *)
theory T2u_Stream_Witnesses
  imports T2u_Progress T2u_Run_Witnesses
begin

text \<open>
  A connection with two ends whose sessions have just been established, and the run in which the
  first end reads one byte and the second writes it.
\<close>

lemma no_messages:
  assumes w: "world_ok w" and s: "\<And>s sess. w_sessions w s = Some sess \<Longrightarrow> messages_of sess = {}"
  shows "w_messages w = Map.empty"
proof
  fix m
  show "w_messages w m = None"
    using world_okD(5) [OF w] s by (cases "w_messages w m") (auto simp: messages_ok_def)
qed

lemma ex_fresh_end: "\<exists>w c. fresh_end 0x50000000B 6 7 c w \<and> pending w Cb_process_tcp 6 = Some (ev_read Cb_process_tcp 7)"
proof -
  from delete_rule_ok [OF ex_world_ok ex_world_sel(6) _ ex_world_sel(8) ex_log_ok(2), of ex_os] obtain w t where
    w: "world_ok w" "w_rules w = (w_rules ex_world)(2 := None)" "w_sessions w = sessions_without 2 (w_sessions ex_world)"
      "w_contexts w = (w_contexts ex_world)(Suc 0 \<mapsto> ex_context\<lparr>c_rules := t\<rparr>)" "w_runners w = w_runners ex_world" by auto
  have "s_rule ex_established = Some 2" "s_rule ex_connecting = Some 2" "s_rule ex_server = Some 3"
    by (simp_all add: ex_defs)
  then have s: "w_sessions w = [6 \<mapsto> ex_server]"
    unfolding w(3) by (auto simp: sessions_without_def ex_world_def fun_eq_iff)
  have l: "linked w ex_server 3 ex_server_rule (Suc 0) (ex_context\<lparr>c_rules := t\<rparr>) 0"
    using ex_linked(3) w(2,4,5) by (simp add: linked_def)
  have m0: "w_messages w = Map.empty" by (rule no_messages [OF w(1)]) (simp add: s ex_messages split: if_splits)
  have "os_sock_error ex_os (w_calls w) 7 = 0" by (simp add: ex_os_def)
  with connect_success_established_spec [OF w(1) _ _ l, of 6 ex_os 7] s obtain w' sess ev where
    ev: "s_ev sess = Some ev" "te_event ev = Some (ev_read Cb_process_tcp (s_sock sess))" and
    w': "world_ok w'" "w_sessions w' = [6 \<mapsto> sess]" "s_status sess = 2" "s_handle sess = 0x50000000B" "s_sock sess = 7"
      "s_send_seq sess = 0" "s_recv_seq sess = s_recv_seq ex_server" "w_messages w' = w_messages w" by auto
  have "s_recv_seq ex_server = 0" by (simp add: ex_defs)
  moreover have s6: "w_sessions w' 6 = Some sess" by (simp add: w'(2))
  obtain r rule c ctx n where "linked w' sess r rule c ctx n" by (rule session_okE [OF world_okD(1) [OF w'(1) s6]])
  then have "linked (w'\<lparr>w_out := []\<rparr>) sess r rule c ctx n" by (simp add: linked_def)
  moreover have "world_ok (w'\<lparr>w_out := []\<rparr>)" using w'(1) by simp
  moreover have "s' = 6" if "w_sessions (w'\<lparr>w_out := []\<rparr>) s' = Some sess'" for s' sess'
    using that w'(2) by (simp split: if_splits)
  moreover have "w_messages (w'\<lparr>w_out := []\<rparr>) = Map.empty" "w_out (w'\<lparr>w_out := []\<rparr>) = []"
    "w_sessions (w'\<lparr>w_out := []\<rparr>) 6 = Some sess" by (simp_all add: w'(8) m0 s6)
  ultimately have "fresh_end 0x50000000B 6 7 c (w'\<lparr>w_out := []\<rparr>)"
    unfolding fresh_end_def using w'(3-7) by metis
  moreover have "pending (w'\<lparr>w_out := []\<rparr>) Cb_process_tcp 6 = Some (ev_read Cb_process_tcp 7)"
    using ev w'(5) s6 by (simp add: pending_def owner_event_def event_for_def ev_read_def)
  ultimately show ?thesis by blast
qed

text \<open>Both ends start in this state.\<close>

lemma ex_connection_run:
  "\<exists>w c x y sess. fresh_end 0x50000000B 6 7 c w \<and>
    (connection_step Other_arch (6, c) (6, c))\<^sup>*\<^sup>* (connection_start w w) x \<and>
    (connection_step Other_arch (6, c) (6, c))\<^sup>*\<^sup>* (connection_start w w) y \<and>
    x_sent1 x = [[65]] \<and> x_w2 x = w \<and> established_at (x_w1 x) 6 \<and> established_at (x_w2 x) 6 \<and>
    retries_left (x_w1 x) 6 c \<and> retries_left (x_w2 x) 6 c \<and>
    x_sent1 y = [[65]] \<and> written 7 (x_w2 y) = [65] \<and> w_sessions (x_w1 y) 6 = Some sess"
proof -
  from ex_fresh_end obtain w c where f: "fresh_end 0x50000000B 6 7 c w" and
    p: "pending w Cb_process_tcp 6 = Some (ev_read Cb_process_tcp 7)" by blast
  from f obtain sess r rule ctx n where w: "world_ok w" "w_messages w = Map.empty" "w_out w = []" and
    s: "w_sessions w 6 = Some sess" "s_status sess = 2" "s_handle sess = 0x50000000B" "s_sock sess = 7"
      "s_send_seq sess = 0" "s_recv_seq sess = 0" and l: "linked w sess r rule c ctx n" and
    o: "\<forall>s' sess'. w_sessions w s' = Some sess' \<longrightarrow> s_handle sess' = 0x50000000B \<longrightarrow> s' = 6" unfolding fresh_end_def by blast
  from world_okD(1) [OF w(1) s(1)] obtain c2 where q: "queues_ok c2 (w_messages w) 6 sess" by (auto simp: session_ok_def)
  have maps: "send_map sess = Map.empty" "recv_map sess = Map.empty"
    using send_queue_okD(3) [OF queues_okD(1) [OF q]] recv_queue_okD(3) [OF queues_okD(2) [OF q]] w(2)
    by (auto simp: fun_eq_iff) (metis not_Some_eq)+
  have room: "unat (s_send_buffer_count sess) < c_udp_slide_window ctx" "send_map sess (s_send_seq sess + 1) = None"
    using send_queue_okD(2) [OF queues_okD(1) [OF q]] maps(1) world_okD(3) [OF w(1) linkedD(4) [OF l]]
    by (simp_all add: context_ok_def)
  let ?d = "data_datagram ex_os sess [65]"
  have recv: "os_recv ex_os (w_calls w) 7 T2U_PAYLOAD_MAX = (1, 0, [65])" "(0 :: int) < 1"
    by (simp_all add: ex_os_def T2U_PAYLOAD_MAX_def)
  from world_okD(3) [OF w(1) linkedD(4) [OF l]] obtain te where "c_ev_udp ctx = Some te"
    "te_event te = Some (ev_read Cb_process_udp (c_sock ctx))" by (auto simp: context_ok_def)
  with linkedD(4) [OF l] have pu: "pending w Cb_process_udp c = Some (ev_read Cb_process_udp (c_sock ctx))"
    by (simp add: pending_def owner_event_def event_for_def ev_read_def)
  let ?so = "c_sock ctx"
  have net: "arrives (ex_net ?d) w ?so ?d"
    by (rule ex_net_arrives) (simp add: data_datagram_def T2U_MESS_BUFFER_MAX_def T2U_PAYLOAD_MAX_def new_mdata_def)
  have "has_session w c 0x50000000B True 6"
    using s l by (auto simp: has_session_def linked_def)
  then have only: "only_session w c (s_handle sess) True 6" using o s(3) by (auto simp: only_session_def has_session_def)
  have peers: "peers ex_os (ex_net ?d) sess sess" by (simp add: peers_def wire_simps ex_os_def)
  have seq: "s_recv_seq sess = s_send_seq sess" "recv_map sess (s_recv_seq sess + 2) = None" by (simp_all add: s maps)
  have send: "os_send (ex_net ?d) (Suc (w_calls w)) (s_sock sess) [65] = (int (length [65 :: byte]), 0)" by simp
  have "\<exists>w1' w2' sess1' sess2' msg. t2u_session_process_tcp ex_os 7 6 w = Some w1' \<and> world_ok w1' \<and>
    w_out w1' = w_out w @ [EventAdd (evtimer Cb_request_timeout) (Some (timeval_ms (c_utimeout ctx))),
      UdpSend (c_sock ctx) ?d] \<and> w_sessions w1' 6 = Some sess1' \<and>
    process_udp_cb (ex_net ?d) ?so c w = Some w2' \<and>
    w_out w2' = w_out w @ [TcpSend (s_sock sess) [65] (int (length [65 :: byte])),
      UdpSend (c_sock ctx) (answer (ex_net ?d) (s_handle sess) (s_send_seq sess1') (int (length [65 :: byte])))]"
    using tunnel_both [OF w(1) ex_os_ok s(1,2) l room recv w(1) s(1,2) l peers only seq net send] by blast
  then obtain w1 w2 sess1 k v where
    t: "t2u_session_process_tcp ex_os 7 6 w = Some w1" "?d \<in> new_datagrams w w1"
      "w_sessions w1 6 = Some sess1" "process_udp_cb (ex_net ?d) ?so c w = Some w2"
      "w_out w2 = [TcpSend 7 [65] 1, UdpSend (c_sock ctx) (answer (ex_net ?d) (s_handle sess) k v)]"
    using w(3) s(4) by (auto simp: new_datagrams_def)
  from process_tcp_data_spec [OF w(1) ex_os_ok s(1) _ l room recv] s(2) t(1,3) obtain msg where
    st1: "s_status sess1 = 2" "m_send_retries msg = 0" "w_messages w1 = [w_fresh w \<mapsto> msg]" by (auto simp: w(2))
  have left: "retries_left w1 6 c" "retries_left w 6 c"
    using st1(2,3) w(2) by (auto simp: retries_left_def split: if_splits)
  have est: "established_at w1 6" "established_at w 6" using t(3) st1(1) s(1,2) by (simp_all add: established_at_def)
  have hr: "has_room w 6 c" using s(1) linkedD(4) [OF l] room(1) by (auto simp: has_room_def)
  have "end_step Other_arch 6 c {} w (if has_room w 6 c \<and> (0 :: int) < 1 then [[65]] else []) w1"
    by (rule end_step.read [OF ex_os_ok _ p]) (use recv(1) t(1) in \<open>simp_all add: ex_os_def ev_read_def\<close>)
  then have e1: "end_step Other_arch 6 c {} w [[65]] w1" using hr by simp
  have e2: "end_step Other_arch 6 c (new_datagrams w w1) w [] w2"
    by (rule end_step.arrival [OF _ _ pu t(2)]) (use net t(4) in \<open>auto simp: whole_writes_def ev_read_def\<close>)
  let ?x0 = "connection_start w w"
  let ?x1 = "?x0\<lparr>x_w1 := w1, x_sent1 := [[65]], x_net1 := new_datagrams w w1\<rparr>"
  let ?x2 = "?x1\<lparr>x_w2 := w2, x_net2 := new_datagrams w w2\<rparr>"
  have "connection_step Other_arch (6, c) (6, c) ?x0 ?x1"
    using connection_step.first [of Other_arch "(6, c)" ?x0 "[[65]]" w1 "(6, c)"] e1 by (simp add: connection_start_def)
  moreover have "connection_step Other_arch (6, c) (6, c) ?x1 ?x2"
    using connection_step.second [of Other_arch "(6, c)" ?x1 "[]" w2 "(6, c)"] e2 by (simp add: connection_start_def)
  ultimately have "(connection_step Other_arch (6, c) (6, c))\<^sup>*\<^sup>* ?x0 ?x1" "(connection_step Other_arch (6, c) (6, c))\<^sup>*\<^sup>* ?x0 ?x2"
    by (meson r_into_rtranclp rtranclp.rtrancl_into_rtrancl)+
  moreover have "written 7 (x_w2 ?x2) = [65]" using t(5) by (simp add: written_def)
  moreover have "w_sessions (x_w1 ?x2) 6 = Some sess1" using t(3) by simp
  moreover have "x_sent1 ?x2 = [[65]]" "x_sent1 ?x1 = [[65]]" "x_w1 ?x1 = w1" "x_w2 ?x1 = w"
    by (simp_all add: connection_start_def)
  moreover note left est
  ultimately show ?thesis using f by (metis (no_types))
qed

lemma stream_integrity_witness:
  "\<exists>w c x n. (connection_step Other_arch (6, c) (6, c))\<^sup>*\<^sup>* (connection_start w w) x \<and> x_sent1 x = [[65]] \<and>
    written 7 (x_w2 x) = concat (take n (x_sent1 x)) \<and> written 7 (x_w2 x) = [65]"
proof -
  from ex_connection_run obtain w c x where
    x: "fresh_end 0x50000000B 6 7 c w" "(connection_step Other_arch (6, c) (6, c))\<^sup>*\<^sup>* (connection_start w w) x"
      "x_sent1 x = [[65]]" "written 7 (x_w2 x) = [65]" by blast
  have "wire_handle Other_arch 0x50000000B = 0x50000000B" by (simp add: wire_simps)
  from stream_integrity [OF x(1,1) this x(2)] x show ?thesis by metis
qed

lemma stream_kept_witness:
  "\<exists>w c x. (connection_step Other_arch (6, c) (6, c))\<^sup>*\<^sup>* (connection_start w w) x \<and> x_sent1 x = [[65]] \<and>
    written 7 (x_w2 x) = concat (take (delivered_count 7 (x_w2 x)) (x_sent1 x))"
proof -
  from ex_connection_run obtain w c x sess where
    x: "fresh_end 0x50000000B 6 7 c w" "(connection_step Other_arch (6, c) (6, c))\<^sup>*\<^sup>* (connection_start w w) x"
      "x_sent1 x = [[65]]" "w_sessions (x_w1 x) 6 = Some sess" by blast
  have "wire_handle Other_arch 0x50000000B = 0x50000000B" by (simp add: wire_simps)
  from stream_kept [OF x(1,1) this x(2,4)] x show ?thesis by metis
qed


end
