(* ===== verification/T2u_Global.thy ===== *)
theory T2u_Global
  imports T2u_Run
begin

text \<open>
  \<open>create_forward\<close> and \<open>free_forward\<close> of src/t2u.c, called by any number of threads at the same
  time. Each statement that reads or writes the global variables is a step of its own; the other
  calls of the interface, and the events, come between the steps. As long as one context is kept,
  the calls do not disturb each other. When the last context is freed while another thread creates
  one, and when the first two contexts are created at the same time, they do.
\<close>

section \<open>State\<close>

type_synonym caller = nat

text \<open>
  Where a thread stands in \<open>create_forward\<close> or \<open>free_forward\<close>: each constructor names the statement
  that comes next, with the local variables that are still needed.
\<close>

datatype call_pc =
    Idle
  | Create_test int
  | Create_mutex int
  | Create_flag int
  | Create_lock int
  | Create_check int
  | Create_runner int
  | Create_context int
  | Create_unlock addr
  | Free_context addr
  | Free_check
  | Free_lock
  | Free_runner
  | Free_clear
  | Free_unlock

text \<open>
  \<open>g_runner\<close> is a field of the world. \<open>g_owned\<close> are the contexts that a thread has got from
  \<open>create_forward\<close> and not yet passed to \<open>free_forward\<close>.
\<close>

record shared =
  g_world :: world
  g_runner_mutex_init :: bool
  g_runner_mutex :: "caller option"
  g_pc :: "caller \<Rightarrow> call_pc"
  g_owned :: "caller \<Rightarrow> addr set"

definition shared_start :: "bool \<Rightarrow> (caller \<Rightarrow> addr set) \<Rightarrow> world \<Rightarrow> shared" where
  "shared_start ready owned w =
     \<lparr>g_world = w, g_runner_mutex_init = ready, g_runner_mutex = None, g_pc = \<lambda>_. Idle, g_owned = owned\<rparr>"

section \<open>Steps\<close>

definition goto :: "caller \<Rightarrow> call_pc \<Rightarrow> shared \<Rightarrow> shared" where
  "goto th pc g = g\<lparr>g_pc := (g_pc g)(th := pc)\<rparr>"

text \<open>The next step of a thread; \<^term>\<open>None\<close> if it is undefined behaviour.\<close>

definition create_forward_step :: "os \<Rightarrow> caller \<Rightarrow> shared \<Rightarrow> shared option" where
  "create_forward_step os th g =
     (case g_pc g th of
        Create_test s \<Rightarrow> Some (goto th (if g_runner_mutex_init g then Create_lock s else Create_mutex s) g)
      | Create_mutex s \<Rightarrow> Some (goto th (Create_flag s) (g\<lparr>g_runner_mutex := None\<rparr>))
      | Create_flag s \<Rightarrow> Some (goto th (Create_lock s) (g\<lparr>g_runner_mutex_init := True\<rparr>))
      | Create_lock s \<Rightarrow> Some (goto th (Create_check s) (g\<lparr>g_runner_mutex := Some th\<rparr>))
      | Create_check s \<Rightarrow>
          Some (goto th (if w_g_runner (g_world g) = NULL then Create_runner s else Create_context s) g)
      | Create_runner s \<Rightarrow> do {
          (n, w) \<leftarrow> t2u_runner_new os (g_world g);
          Some (goto th (Create_context s) (g\<lparr>g_world := w\<lparr>w_g_runner := Some n\<rparr>\<rparr>)) }
      | Create_context s \<Rightarrow> do {
          runner \<leftarrow> w_g_runner (g_world g);
          (c, w) \<leftarrow> t2u_add_context runner s (g_world g);
          Some (goto th (Create_unlock c) (g\<lparr>g_world := w\<rparr>)) }
      | Create_unlock c \<Rightarrow>
          Some (goto th Idle (g\<lparr>g_runner_mutex := None, g_owned := (g_owned g)(th := insert c (g_owned g th))\<rparr>))
      | _ \<Rightarrow> None)"

definition free_forward_step :: "os \<Rightarrow> caller \<Rightarrow> shared \<Rightarrow> shared option" where
  "free_forward_step os th g =
     (case g_pc g th of
        Free_context c \<Rightarrow> do {
          w \<leftarrow> t2u_delete_context os c (g_world g);
          Some (goto th Free_check (g\<lparr>g_world := w\<rparr>)) }
      | Free_check \<Rightarrow>
          (case w_g_runner (g_world g) of
             None \<Rightarrow> Some (goto th Idle g)
           | Some n \<Rightarrow> do {
               run \<leftarrow> w_runners (g_world g) n;
               let empty = (case n_contexts run of None \<Rightarrow> True | Some contexts \<Rightarrow> rb_root contexts = NULL);
               Some (goto th (if empty then Free_lock else Idle) g) })
      | Free_lock \<Rightarrow> Some (goto th Free_runner (g\<lparr>g_runner_mutex := Some th\<rparr>))
      | Free_runner \<Rightarrow> do {
          w \<leftarrow> t2u_delete_runner os (w_g_runner (g_world g)) (g_world g);
          Some (goto th Free_clear (g\<lparr>g_world := w\<rparr>)) }
      | Free_clear \<Rightarrow> Some (goto th Free_unlock (g\<lparr>g_world := (g_world g)\<lparr>w_g_runner := NULL\<rparr>\<rparr>))
      | Free_unlock \<Rightarrow> Some (goto th Idle (g\<lparr>g_runner_mutex := None\<rparr>))
      | _ \<Rightarrow> None)"

text \<open>A thread that is not in a call, or waits for the mutex, has no step.\<close>

fun creating :: "call_pc \<Rightarrow> bool" where
  "creating Idle \<longleftrightarrow> False"
| "creating (Free_context c) \<longleftrightarrow> False"
| "creating Free_check \<longleftrightarrow> False"
| "creating Free_lock \<longleftrightarrow> False"
| "creating Free_runner \<longleftrightarrow> False"
| "creating Free_clear \<longleftrightarrow> False"
| "creating Free_unlock \<longleftrightarrow> False"
| "creating pc \<longleftrightarrow> True"

definition enabled :: "caller \<Rightarrow> shared \<Rightarrow> bool" where
  "enabled th g \<longleftrightarrow>
     (case g_pc g th of
        Idle \<Rightarrow> False
      | Create_lock s \<Rightarrow> g_runner_mutex g = None
      | Free_lock \<Rightarrow> g_runner_mutex g = None
      | _ \<Rightarrow> True)"

definition call_step :: "os \<Rightarrow> caller \<Rightarrow> shared \<Rightarrow> shared option" where
  "call_step os th g = (if creating (g_pc g th) then create_forward_step os th g else free_forward_step os th g)"

definition other_input :: "t2u_input \<Rightarrow> bool" where
  "other_input i \<longleftrightarrow> (case i of Create_forward s \<Rightarrow> False | Free_forward c \<Rightarrow> False | _ \<Rightarrow> True)"

inductive shared_step :: "os \<Rightarrow> shared \<Rightarrow> shared \<Rightarrow> bool" for os where
  create: "g_pc g th = Idle \<Longrightarrow> shared_step os g (goto th (Create_test s) g)"
| free: "g_pc g th = Idle \<Longrightarrow> c \<in> g_owned g th \<Longrightarrow>
    shared_step os g (goto th (Free_context c) (g\<lparr>g_owned := (g_owned g)(th := g_owned g th - {c})\<rparr>))"
| call: "enabled th g \<Longrightarrow> call_step os th g = Some g' \<Longrightarrow> shared_step os g g'"
| other: "other_input i \<Longrightarrow> input_ok os (g_world g) i \<Longrightarrow> t2u_exec os i (g_world g) = Some w \<Longrightarrow>
    shared_step os g (g\<lparr>g_world := w\<rparr>)"

inductive_simps shared_step_simps: "shared_step os g g'"

lemmas step_defs = call_step_def create_forward_step_def free_forward_step_def goto_def enabled_def

section \<open>Contexts that threads hold\<close>

text \<open>Each thread has contexts of its own, all of them live, and none of them is the one that is kept.\<close>

definition holding :: "addr \<Rightarrow> (caller \<Rightarrow> addr set) \<Rightarrow> addr set \<Rightarrow> bool" where
  "holding keep held live \<longleftrightarrow> keep \<in> live \<and> (\<forall>th. held th \<subseteq> live - {keep}) \<and>
     (\<forall>th th'. th \<noteq> th' \<longrightarrow> held th \<inter> held th' = {})"

lemma holding_new: "holding keep held live \<Longrightarrow> c \<notin> live \<Longrightarrow> holding keep (held(th := insert c (held th))) (insert c live)"
  unfolding holding_def by (auto 4 3 split: if_splits)

lemma holding_remove:
  "holding keep held live \<Longrightarrow> c \<in> held th \<Longrightarrow> holding keep (held(th := held th - {c})) (live - {c})"
  unfolding holding_def by (auto 4 3 split: if_splits)

text \<open>
  What \<open>create_forward\<close> and \<open>free_forward\<close> rely on: contexts can be added while there is a runner,
  and deleted, and the runner is not idle while there is a context.
\<close>

locale context_store =
  fixes good :: "'w \<Rightarrow> bool"
    and live :: "'w \<Rightarrow> addr set"
    and runner :: "'w \<Rightarrow> ptr"
    and add :: "addr \<Rightarrow> int \<Rightarrow> 'w \<Rightarrow> (addr \<times> 'w) option"
    and del :: "addr \<Rightarrow> 'w \<Rightarrow> 'w option"
    and idle :: "addr \<Rightarrow> 'w \<Rightarrow> bool option"
  assumes attached: "good w \<Longrightarrow> c \<in> live w \<Longrightarrow> \<exists>n. runner w = Some n"
    and add_new: "good w \<Longrightarrow> runner w = Some n \<Longrightarrow>
      \<exists>c w'. add n s w = Some (c, w') \<and> good w' \<and> runner w' = Some n \<and> c \<notin> live w \<and> live w' = insert c (live w)"
    and del_live: "good w \<Longrightarrow> c \<in> live w \<Longrightarrow>
      \<exists>w'. del c w = Some w' \<and> good w' \<and> runner w' = runner w \<and> live w' = live w - {c}"
    and busy: "good w \<Longrightarrow> runner w = Some n \<Longrightarrow> c \<in> live w \<Longrightarrow> idle n w = Some False"
begin

definition store_ok :: "addr \<Rightarrow> ptr \<Rightarrow> (caller \<Rightarrow> addr set) \<Rightarrow> 'w \<Rightarrow> bool" where
  "store_ok keep n held w \<longleftrightarrow> good w \<and> runner w = n \<and> holding keep held (live w)"

lemma store_okD:
  assumes "store_ok keep n held w"
  shows "good w" "runner w = n" "keep \<in> live w" "c \<in> held th \<Longrightarrow> c \<in> live w" "n \<noteq> NULL"
  using assms attached [of w keep] by (auto simp: store_ok_def holding_def)

lemma store_ok_add:
  assumes "store_ok keep (Some n) held w"
  shows "\<exists>c w'. add n s w = Some (c, w') \<and> c \<notin> held th \<and> store_ok keep (Some n) (held(th := insert c (held th))) w'"
proof -
  note K = store_okD [OF assms]
  from add_new [OF K(1,2)] obtain c w' where
    w': "add n s w = Some (c, w')" "good w'" "runner w' = Some n" "c \<notin> live w" "live w' = insert c (live w)" by blast
  from K(4) [of c th] w' assms holding_new [OF _ w'(4)] show ?thesis by (auto simp: store_ok_def)
qed

lemma store_ok_del:
  assumes k: "store_ok keep n held w" and c: "c \<in> held th"
  shows "\<exists>w'. del c w = Some w' \<and> store_ok keep n (held(th := held th - {c})) w'"
proof -
  note K = store_okD [OF k]
  from del_live [OF K(1) K(4) [OF c]] obtain w' where
    w': "del c w = Some w'" "good w'" "runner w' = runner w" "live w' = live w - {c}" by blast
  from w' k holding_remove [where held = held and th = th, OF _ c] show ?thesis by (auto simp: store_ok_def)
qed

lemma store_ok_busy: "store_ok keep (Some n) held w \<Longrightarrow> idle n w = Some False"
  using store_okD [of keep "Some n" held w] busy by blast

end

definition live_contexts :: "world \<Rightarrow> addr set" where
  "live_contexts w = dom (w_contexts w)"

text \<open>The test of \<open>free_forward\<close> on the runner.\<close>

definition runner_idle :: "addr \<Rightarrow> world \<Rightarrow> bool option" where
  "runner_idle n w = do {
     run \<leftarrow> w_runners w n;
     Some (case n_contexts run of None \<Rightarrow> True | Some contexts \<Rightarrow> rb_root contexts = NULL) }"

lemma runner_busy:
  assumes st: "state_ok w" and n: "w_g_runner w = Some n" and c: "c \<in> live_contexts w"
  shows "runner_idle n w = Some False"
proof -
  from c obtain ctx where ctx: "w_contexts w c = Some ctx" by (auto simp: live_contexts_def)
  show ?thesis
  proof (rule shared_runner [OF st ctx])
    fix n' run tree
    assume r: "w_g_runner w = Some n'" "w_runners w = [n' \<mapsto> run]" "n_contexts run = Some tree" "rb_map tree c = Some c"
    have w: "world_ok w" using st by (simp add: state_ok_def)
    have "rb_ok tree" using world_okD(4) [OF w, of n' run] r(2,3) by (auto simp: runner_ok_def)
    with r(4) have "rb_root tree \<noteq> NULL" by (auto simp: rb_ok_root)
    with r n show ?thesis by (simp add: runner_idle_def)
  qed
qed

lemma add_context_live:
  assumes st: "state_ok w" and n: "w_g_runner w = Some n"
  shows "\<exists>c w'. t2u_add_context n s w = Some (c, w') \<and> state_ok w' \<and> w_g_runner w' = Some n \<and>
    c \<notin> live_contexts w \<and> live_contexts w' = insert c (live_contexts w)"
proof -
  have w: "world_ok w" using st by (simp add: state_ok_def)
  from st n obtain run where r: "w_runners w = [n \<mapsto> run]" "n_running run \<noteq> 0"
    by (auto simp: state_ok_def shared_ok_def)
  from add_context_ok [OF w, of n run s] r obtain w' ctx run' where
    w': "t2u_add_context n s w = Some (w_fresh w, w')" "world_ok w'" "w_contexts w' = (w_contexts w)(w_fresh w \<mapsto> ctx)"
      "w_runners w' = (w_runners w)(n \<mapsto> run')" "n_running run' = n_running run" "w_g_runner w' = w_g_runner w"
      "w_rules w' = w_rules w" "w_callbacks w' = w_callbacks w"
    by auto
  have l: "log_ok w'" using st w'(7,8) log_ok_same [of w w'] by (simp add: state_ok_def)
  have "w_contexts w (w_fresh w) = None" using world_okD(6) [OF w] by (simp add: fresh_ok_def)
  moreover have "state_ok w'"
    unfolding state_ok_def shared_ok_def w'(6) n option.case
    using w'(2,4,5) r l by (intro conjI exI [of _ run']) simp_all
  ultimately show ?thesis using w' n by (auto simp: live_contexts_def)
qed

lemma delete_context_live:
  assumes st: "state_ok w" and c: "c \<in> live_contexts w"
  shows "\<exists>w'. t2u_delete_context os c w = Some w' \<and> state_ok w' \<and> w_g_runner w' = w_g_runner w \<and>
    live_contexts w' = live_contexts w - {c}"
proof -
  from c obtain ctx where ctx: "w_contexts w c = Some ctx" by (auto simp: live_contexts_def)
  show ?thesis
  proof (rule shared_runner [OF st ctx])
    fix n run tree
    assume r: "w_g_runner w = Some n" "c_runner ctx = Some n" "w_runners w = [n \<mapsto> run]" "n_running run \<noteq> 0"
      "n_contexts run = Some tree"
    have w: "world_ok w" "w_runners w n = Some run" "log_ok w" using st r(3) by (simp_all add: state_ok_def)
    from delete_context_ok [OF w(1) ctx r(2) w(2) r(5) w(3), of os] obtain w' t where
      "t2u_delete_context os c w = Some w'" "world_ok w'" "log_ok w'" "w_contexts w' = (w_contexts w)(c := None)"
      "w_runners w' = (w_runners w)(n \<mapsto> run\<lparr>n_contexts := Some t\<rparr>)" "w_g_runner w' = w_g_runner w" by blast
    with r show ?thesis by (auto simp: state_ok_def shared_ok_def live_contexts_def)
  qed
qed

interpretation api: context_store state_ok live_contexts w_g_runner t2u_add_context "t2u_delete_context os" runner_idle for os
proof
  show "\<exists>n. w_g_runner w = Some n" if "state_ok w" "c \<in> live_contexts w" for w c
  proof -
    from that(2) obtain ctx where "w_contexts w c = Some ctx" by (auto simp: live_contexts_def)
    then show ?thesis by (rule shared_runner [OF that(1)]) blast
  qed
qed (fact add_context_live delete_context_live runner_busy)+

text \<open>The other calls and the events neither create nor end contexts.\<close>

lemma exec_keeps:
  assumes st: "state_ok w" and i: "other_input i" "input_ok os w i" and e: "t2u_exec os i w = Some w'"
  shows "w_runners w' = w_runners w \<and> w_g_runner w' = w_g_runner w"
proof (cases i)
  case (Set_option c opt v)
  with i obtain ctx where "w_contexts w c = Some ctx" by auto
  with e show ?thesis by (auto simp: Set_option set_context_option_exec)
next
  case Debug_dump
  with e show ?thesis by (simp add: bind_Some_iff)
next
  case (Add_rule c mode service address port)
  with i obtain ctx where c: "w_contexts w c = Some ctx" "rb_map (c_rules ctx) service = None" "create_logs w service address" by auto
  have "world_ok w" using st by (simp add: state_ok_def)
  from add_rule_ok_spec [OF this c, of os mode port] e show ?thesis by (auto simp: Add_rule keeps_runners_def)
next
  case (Del_rule r)
  with i obtain rule where r: "w_rules w r = Some rule" by auto
  have w: "world_ok w" "log_ok w" using st by (simp_all add: state_ok_def)
  from live_rule [OF w(1) r] obtain c ctx where "r_context rule = Some c" "w_contexts w c = Some ctx" by blast
  from delete_rule_ok [OF w(1) r this log_okD [OF w(2) r], of os] e show ?thesis by (auto simp: Del_rule del_forward_rule_def)
next
  case (Fire cb a)
  with e fire_keeps [of os cb a w w'] show ?thesis by (simp add: keeps_all_def)
qed (use i e in \<open>auto simp: other_input_def\<close>)

text \<open>A context is live exactly when the shared runner has it.\<close>

lemma live_registered:
  assumes st: "state_ok w"
  shows "c \<in> live_contexts w \<longleftrightarrow>
    (\<exists>n run tree. w_g_runner w = Some n \<and> w_runners w n = Some run \<and> n_contexts run = Some tree \<and> c \<in> dom (rb_map tree))"
proof
  assume "c \<in> live_contexts w"
  then obtain ctx where "w_contexts w c = Some ctx" by (auto simp: live_contexts_def)
  then show "\<exists>n run tree. w_g_runner w = Some n \<and> w_runners w n = Some run \<and> n_contexts run = Some tree \<and> c \<in> dom (rb_map tree)"
    by (rule shared_runner [OF st]) auto
next
  assume "\<exists>n run tree. w_g_runner w = Some n \<and> w_runners w n = Some run \<and> n_contexts run = Some tree \<and> c \<in> dom (rb_map tree)"
  then obtain n run tree where r: "w_runners w n = Some run" "n_contexts run = Some tree" "c \<in> dom (rb_map tree)" by blast
  have "world_ok w" using st by (simp add: state_ok_def)
  from world_okD(4) [OF this r(1)] r(2,3) show "c \<in> live_contexts w" by (fastforce simp: runner_ok_def live_contexts_def)
qed

lemma exec_live:
  assumes st: "state_ok w" and os: "os_ok os" and i: "other_input i" "input_ok os w i"
    and e: "t2u_exec os i w = Some w'"
  shows "state_ok w'" "w_g_runner w' = w_g_runner w" "live_contexts w' = live_contexts w"
proof -
  from exec_ok [OF st os i(2)] e show st': "state_ok w'" by simp
  from exec_keeps [OF st i e] show g: "w_g_runner w' = w_g_runner w" by simp
  from exec_keeps [OF st i e] g show "live_contexts w' = live_contexts w"
    using live_registered [OF st] live_registered [OF st'] by auto
qed

section \<open>While one context is kept\<close>

definition call_holds :: "call_pc \<Rightarrow> addr set" where
  "call_holds pc = (case pc of Create_unlock c \<Rightarrow> {c} | Free_context c \<Rightarrow> {c} | _ \<Rightarrow> {})"

definition held :: "shared \<Rightarrow> caller \<Rightarrow> addr set" where
  "held g th = g_owned g th \<union> call_holds (g_pc g th)"

text \<open>Between the lock and the unlock.\<close>

definition in_section :: "call_pc \<Rightarrow> bool" where
  "in_section pc \<longleftrightarrow>
     (case pc of Create_check s \<Rightarrow> True | Create_runner s \<Rightarrow> True | Create_context s \<Rightarrow> True | Create_unlock c \<Rightarrow> True
      | Free_runner \<Rightarrow> True | Free_clear \<Rightarrow> True | Free_unlock \<Rightarrow> True | _ \<Rightarrow> False)"

text \<open>The statements that create or delete the mutex and the runner are not reached.\<close>

definition settled :: "call_pc \<Rightarrow> bool" where
  "settled pc \<longleftrightarrow>
     (case pc of Create_mutex s \<Rightarrow> False | Create_flag s \<Rightarrow> False | Create_runner s \<Rightarrow> False
      | Free_lock \<Rightarrow> False | Free_runner \<Rightarrow> False | Free_clear \<Rightarrow> False | Free_unlock \<Rightarrow> False | _ \<Rightarrow> True)"

lemmas pc_defs = call_holds_def in_section_def settled_def

definition calls_ok :: "addr \<Rightarrow> addr \<Rightarrow> shared \<Rightarrow> bool" where
  "calls_ok keep n g \<longleftrightarrow>
     api.store_ok keep (Some n) (held g) (g_world g) \<and> g_runner_mutex_init g \<and>
     (\<forall>th. settled (g_pc g th) \<and> (in_section (g_pc g th) \<longleftrightarrow> g_runner_mutex g = Some th) \<and>
        g_owned g th \<inter> call_holds (g_pc g th) = {})"

lemma calls_okD:
  assumes "calls_ok keep n g"
  shows "api.store_ok keep (Some n) (held g) (g_world g)" "g_runner_mutex_init g" "settled (g_pc g th)"
    "in_section (g_pc g th) \<longleftrightarrow> g_runner_mutex g = Some th" "g_owned g th \<inter> call_holds (g_pc g th) = {}"
  using assms by (simp_all add: calls_ok_def)

text \<open>A step of the thread \<open>th\<close>, which takes, keeps or releases the mutex.\<close>

lemma calls_ok_move:
  assumes g: "calls_ok keep n g"
    and others: "\<forall>t. t \<noteq> th \<longrightarrow> g_pc g' t = g_pc g t \<and> g_owned g' t = g_owned g t"
    and store: "api.store_ok keep (Some n) ((held g)(th := held g' th)) (g_world g')" and ready: "g_runner_mutex_init g'"
    and pc: "settled (g_pc g' th)" "g_owned g' th \<inter> call_holds (g_pc g' th) = {}"
    and mutex: "g_runner_mutex g' = g_runner_mutex g \<and> in_section (g_pc g' th) = in_section (g_pc g th) \<or>
      g_runner_mutex g \<in> {None, Some th} \<and> g_runner_mutex g' = (if in_section (g_pc g' th) then Some th else None)"
  shows "calls_ok keep n g'"
proof -
  have "held g' = (held g)(th := held g' th)" using others by (auto simp: held_def fun_eq_iff)
  with store have "api.store_ok keep (Some n) (held g') (g_world g')" by simp
  moreover have "in_section (g_pc g' t) \<longleftrightarrow> g_runner_mutex g' = Some t" for t
    using calls_okD(4) [OF g, of t] others mutex by (cases "t = th") (auto split: if_splits)
  moreover have "settled (g_pc g' t)" "g_owned g' t \<inter> call_holds (g_pc g' t) = {}" for t
    using calls_okD(3,5) [OF g, of t] others pc by (cases "t = th"; simp)+
  ultimately show ?thesis using ready by (simp add: calls_ok_def)
qed

text \<open>If the step leaves the world and the contexts of the thread alone, the store is as before.\<close>

lemma calls_ok_goto:
  assumes g: "calls_ok keep n g" and h: "call_holds pc = call_holds (g_pc g th)" and pc: "settled pc"
    and mutex: "m = g_runner_mutex g \<and> in_section pc = in_section (g_pc g th) \<or>
      g_runner_mutex g \<in> {None, Some th} \<and> m = (if in_section pc then Some th else None)"
  shows "calls_ok keep n (goto th pc (g\<lparr>g_runner_mutex := m\<rparr>))"
proof (rule calls_ok_move [OF g, of th])
  have "(held g)(th := held (goto th pc (g\<lparr>g_runner_mutex := m\<rparr>)) th) = held g"
    using h by (auto simp: held_def goto_def fun_eq_iff)
  then show "api.store_ok keep (Some n) ((held g)(th := held (goto th pc (g\<lparr>g_runner_mutex := m\<rparr>)) th))
      (g_world (goto th pc (g\<lparr>g_runner_mutex := m\<rparr>)))"
    using calls_okD(1) [OF g] by (simp add: goto_def)
qed (use calls_okD(2,5) [OF g] h pc mutex in \<open>auto simp: goto_def\<close>)

lemmas calls_ok_stay = calls_ok_goto [where m = "g_runner_mutex g" and g = g for g, simplified]

lemma call_step_ok:
  assumes g: "calls_ok keep n g" and en: "enabled th g"
  shows "\<exists>g'. call_step os th g = Some g' \<and> calls_ok keep n g'"
proof -
  note G = calls_okD(1,2) [OF g] calls_okD(3-5) [OF g, of th]
  note K = api.store_okD [OF G(1)]
  show ?thesis
  proof (cases "g_pc g th")
    case (Create_test s)
    with g G(2) calls_ok_stay [OF g, of "Create_lock s" th] show ?thesis
      by (simp add: call_step_def create_forward_step_def pc_defs)
  next
    case (Create_lock s)
    with en G(4) calls_ok_goto [OF g, of "Create_check s" th "Some th"] show ?thesis
      by (simp add: call_step_def create_forward_step_def pc_defs enabled_def)
  next
    case (Create_check s)
    with K(2) calls_ok_stay [OF g, of "Create_context s" th] show ?thesis
      by (simp add: call_step_def create_forward_step_def pc_defs)
  next
    case (Create_context s)
    from api.store_ok_add [OF G(1), of s th] obtain c w' where
      c: "t2u_add_context n s (g_world g) = Some (c, w')" "c \<notin> held g th"
        "api.store_ok keep (Some n) ((held g)(th := insert c (held g th))) w'" by blast
    let ?g = "goto th (Create_unlock c) (g\<lparr>g_world := w'\<rparr>)"
    have h: "held ?g th = insert c (held g th)" using Create_context by (auto simp: held_def goto_def pc_defs)
    have "calls_ok keep n ?g"
    proof (rule calls_ok_move [OF g, of th])
      show "api.store_ok keep (Some n) ((held g)(th := held ?g th)) (g_world ?g)" using c(3) h by (simp add: goto_def)
    qed (use G(2,4) c(2) Create_context in \<open>auto simp: goto_def pc_defs held_def\<close>)
    with c(1) K(2) Create_context show ?thesis by (simp add: call_step_def create_forward_step_def)
  next
    case (Create_unlock c)
    let ?g = "goto th Idle (g\<lparr>g_runner_mutex := None, g_owned := (g_owned g)(th := insert c (g_owned g th))\<rparr>)"
    have h: "held ?g th = held g th" using Create_unlock by (auto simp: held_def goto_def pc_defs)
    have "calls_ok keep n ?g"
    proof (rule calls_ok_move [OF g, of th])
      show "api.store_ok keep (Some n) ((held g)(th := held ?g th)) (g_world ?g)"
        unfolding h using G(1) by (simp add: goto_def)
    qed (use G(2,4) Create_unlock in \<open>auto simp: goto_def pc_defs\<close>)
    with Create_unlock show ?thesis by (simp add: call_step_def create_forward_step_def)
  next
    case (Free_context c)
    then have "c \<in> held g th" by (simp add: held_def pc_defs)
    from api.store_ok_del [OF G(1) this, of os] obtain w' where
      c: "t2u_delete_context os c (g_world g) = Some w'"
        "api.store_ok keep (Some n) ((held g)(th := held g th - {c})) w'" by blast
    let ?g = "goto th Free_check (g\<lparr>g_world := w'\<rparr>)"
    have h: "held ?g th = held g th - {c}" using Free_context G(5) by (auto simp: held_def goto_def pc_defs)
    have "calls_ok keep n ?g"
    proof (rule calls_ok_move [OF g, of th])
      show "api.store_ok keep (Some n) ((held g)(th := held ?g th)) (g_world ?g)" using c(2) h by (simp add: goto_def)
    qed (use G(2,4) Free_context in \<open>auto simp: goto_def pc_defs\<close>)
    with c(1) Free_context show ?thesis by (simp add: call_step_def free_forward_step_def)
  next
    case Free_check
    from api.store_ok_busy [OF G(1)] obtain run where
      r: "w_runners (g_world g) n = Some run"
        "\<not> (case n_contexts run of None \<Rightarrow> True | Some contexts \<Rightarrow> rb_root contexts = NULL)"
      by (auto simp: runner_idle_def bind_Some_iff)
    from r K(2) Free_check calls_ok_stay [OF g, of Idle th] show ?thesis
      by (auto simp: call_step_def free_forward_step_def pc_defs split: option.splits)
  qed (use G(3) en in \<open>simp_all add: pc_defs enabled_def\<close>)
qed

lemma calls_ok_step:
  assumes st: "shared_step os g g'" and g: "calls_ok keep n g" and os: "os_ok os"
  shows "calls_ok keep n g'"
  using st
proof cases
  case (create th s)
  with calls_ok_stay [OF g, of "Create_test s" th] show ?thesis by (simp add: pc_defs)
next
  case (free th c)
  let ?g = "goto th (Free_context c) (g\<lparr>g_owned := (g_owned g)(th := g_owned g th - {c})\<rparr>)"
  have h: "held ?g th = held g th" using free by (auto simp: held_def goto_def pc_defs)
  have "calls_ok keep n ?g"
  proof (rule calls_ok_move [OF g, of th])
    show "api.store_ok keep (Some n) ((held g)(th := held ?g th)) (g_world ?g)"
      unfolding h using calls_okD(1) [OF g] by (simp add: goto_def)
  qed (use calls_okD(2) [OF g] free in \<open>auto simp: goto_def pc_defs\<close>)
  with free show ?thesis by simp
next
  case (call th)
  with call_step_ok [OF g call(1), of os] show ?thesis by simp
next
  case (other i w)
  note K = calls_okD(1) [OF g]
  from exec_live [OF api.store_okD(1) [OF K] os other(2-4)] K have "api.store_ok keep (Some n) (held g) w"
    by (simp add: api.store_ok_def)
  moreover have "held (g\<lparr>g_world := w\<rparr>) = held g" by (simp add: held_def fun_eq_iff)
  ultimately show ?thesis using g unfolding other(1) calls_ok_def by simp
qed

lemma calls_ok_start:
  assumes st: "state_ok w" and keep: "w_contexts w keep \<noteq> None"
  obtains n where "w_g_runner w = Some n" "calls_ok keep n (shared_start True (\<lambda>_. {}) w)"
proof -
  have k: "keep \<in> live_contexts w" using keep by (auto simp: live_contexts_def)
  from api.attached [OF st k] obtain n where n: "w_g_runner w = Some n" by blast
  have "held (shared_start True (\<lambda>_. {}) w) = (\<lambda>_. {})" by (simp add: held_def shared_start_def pc_defs fun_eq_iff)
  with st k n have "calls_ok keep n (shared_start True (\<lambda>_. {}) w)"
    by (simp add: calls_ok_def api.store_ok_def holding_def) (simp add: shared_start_def pc_defs)
  with n that show thesis by blast
qed

lemma calls_ok_reachable:
  assumes "(shared_step os)\<^sup>*\<^sup>* g g'" "calls_ok keep n g" "os_ok os"
  shows "calls_ok keep n g'"
  using assms by (induction rule: rtranclp_induct) (auto intro: calls_ok_step)

text \<open>If a thread waits for the mutex, the thread that holds it can go on.\<close>

lemma calls_not_stuck:
  assumes g: "calls_ok keep n g" and th: "g_pc g th \<noteq> Idle"
  shows "\<exists>th. enabled th g"
proof (cases "enabled th g")
  case False
  with th obtain h where "g_runner_mutex g = Some h" by (auto simp: enabled_def split: call_pc.splits)
  with calls_okD(4) [OF g, of h] have "enabled h g" by (auto simp: in_section_def enabled_def split: call_pc.splits)
  then show ?thesis ..
qed blast

section \<open>Properties of calls from several threads\<close>

text \<open>
  C13: Any number of threads may create and free contexts at the same time, with the other calls and
  the events in between, as long as one context is kept and each thread frees only contexts it has
  created: at every point of every interleaving no statement has undefined behaviour, at most one
  thread is between the lock and the unlock, some thread can go on, the runner is the one of the
  start, and each thread has contexts of its own, live and attached to that runner.
\<close>

lemma shared_calls_safe:
  assumes run: "(t2u_step os)\<^sup>*\<^sup>* t2u_init w" "os_ok os" and keep: "w_contexts w keep \<noteq> None"
    and r: "(shared_step os)\<^sup>*\<^sup>* (shared_start True (\<lambda>_. {}) w) g"
  shows "(\<forall>th. enabled th g \<longrightarrow> call_step os th g \<noteq> None) \<and>
    (\<forall>i. input_ok os (g_world g) i \<longrightarrow> t2u_exec os i (g_world g) \<noteq> None) \<and>
    w_g_runner (g_world g) = w_g_runner w \<and> w_contexts (g_world g) keep \<noteq> None \<and>
    (\<forall>th. \<forall>c \<in> g_owned g th. \<exists>ctx. w_contexts (g_world g) c = Some ctx \<and> c_runner ctx = w_g_runner w) \<and>
    (\<forall>th th'. th \<noteq> th' \<longrightarrow> g_owned g th \<inter> g_owned g th' = {}) \<and>
    (\<exists>h. \<forall>th. in_section (g_pc g th) \<longrightarrow> th = h) \<and>
    ((\<exists>th. g_pc g th \<noteq> Idle) \<longrightarrow> (\<exists>th. enabled th g))"
proof -
  obtain n where n: "w_g_runner w = Some n" "calls_ok keep n (shared_start True (\<lambda>_. {}) w)"
    by (rule calls_ok_start [OF reachable_state_ok [OF run] keep])
  note g = calls_ok_reachable [OF r n(2) run(2)]
  note K = api.store_okD [OF calls_okD(1) [OF g]]
  have "\<exists>ctx. w_contexts (g_world g) c = Some ctx \<and> c_runner ctx = Some n" if "c \<in> g_owned g th" for th c
  proof -
    have "c \<in> live_contexts (g_world g)" using that K(4) [of c th] by (simp add: held_def)
    then obtain ctx where ctx: "w_contexts (g_world g) c = Some ctx" by (auto simp: live_contexts_def)
    then show ?thesis by (rule shared_runner [OF K(1)]) (use ctx K(2) in auto)
  qed
  moreover have "g_owned g th \<inter> g_owned g th' = {}" if "th \<noteq> th'" for th th'
  proof -
    have "held g th \<inter> held g th' = {}" using calls_okD(1) [OF g] that by (simp add: api.store_ok_def holding_def)
    then show ?thesis by (auto simp: held_def)
  qed
  moreover have "\<exists>h. \<forall>th. in_section (g_pc g th) \<longrightarrow> th = h"
    using calls_okD(4) [OF g] by (intro exI [of _ "the (g_runner_mutex g)"]) auto
  moreover have "call_step os th g \<noteq> None" if "enabled th g" for th
    using call_step_ok [OF g that, of os] by auto
  moreover have "t2u_exec os i (g_world g) \<noteq> None" if "input_ok os (g_world g) i" for i
    using exec_ok [OF K(1) run(2) that] by auto
  moreover have "w_contexts (g_world g) keep \<noteq> None" using K(3) by (auto simp: live_contexts_def)
  moreover have "(\<exists>th. g_pc g th \<noteq> Idle) \<longrightarrow> (\<exists>th. enabled th g)"
    using calls_not_stuck [OF g] by blast
  ultimately show ?thesis using K(2) n(1) by simp
qed

text \<open>A schedule: the threads that take the next steps, in this order.\<close>

primrec schedule :: "os \<Rightarrow> caller list \<Rightarrow> shared \<Rightarrow> shared option" where
  "schedule os [] g = Some g"
| "schedule os (th # ths) g =
     (if enabled th g then do { g \<leftarrow> call_step os th g; schedule os ths g } else None)"

lemma schedule_steps: "schedule os ths g = Some g' \<Longrightarrow> (shared_step os)\<^sup>*\<^sup>* g g'"
  by (induction ths arbitrary: g)
    (auto simp: bind_Some_iff split: if_splits intro: converse_rtranclp_into_rtranclp shared_step.call)

lemma schedule_into: "shared_step os g g1 \<Longrightarrow> schedule os ths g1 = Some g' \<Longrightarrow> (shared_step os)\<^sup>*\<^sup>* g g'"
  by (blast intro: converse_rtranclp_into_rtranclp schedule_steps)

lemma runner_emptied:
  assumes st: "state_ok w" and n: "w_g_runner w = Some n" and e: "live_contexts w = {}"
  obtains run t where "w_runners w = [n \<mapsto> run]" "n_running run \<noteq> 0" "n_contexts run = Some t" "rb_root t = NULL"
proof -
  from st n obtain run where r: "w_runners w = [n \<mapsto> run]" "n_running run \<noteq> 0"
    by (auto simp: state_ok_def shared_ok_def)
  have "world_ok w" using st by (simp add: state_ok_def)
  from world_okD(4) [OF this, of n run] r obtain t where t: "n_contexts run = Some t" "rb_ok t"
    by (auto simp: runner_ok_def)
  have "rb_map t = Map.empty"
    using live_registered [OF st] e n r t(1) by (auto simp: dom_def fun_eq_iff)
  with t that r show thesis by (simp add: rb_ok_root)
qed

text \<open>
  Thread 1 frees the only context and finds the runner idle; before it locks the mutex, thread 2
  creates a context; then thread 1 deletes the runner.
\<close>

text \<open>
  C14: A thread that frees the last context tests whether the runner is idle before it locks the
  mutex; when another thread creates a context in between, the first deletes the runner with that
  context, and the second is left with a handle to freed memory.
\<close>

lemma free_create_race:
  assumes run: "(t2u_step os)\<^sup>*\<^sup>* t2u_init w" "os_ok os" and last: "dom (w_contexts w) = {c}"
  shows "\<exists>g c'. (shared_step os)\<^sup>*\<^sup>* (shared_start True ((\<lambda>_. {})(1 := {c})) w) g \<and> (\<forall>th. g_pc g th = Idle) \<and>
    c' \<in> g_owned g 2 \<and> w_contexts (g_world g) c' = None"
proof -
  have st: "state_ok w" by (rule reachable_state_ok [OF run])
  from last have c: "c \<in> live_contexts w" by (simp add: live_contexts_def)
  from delete_context_live [OF st c, of os] obtain w1 where
    w1: "t2u_delete_context os c w = Some w1" "state_ok w1" "w_g_runner w1 = w_g_runner w" "live_contexts w1 = {}"
    using last by (auto simp: live_contexts_def)
  from api.attached [OF st c] obtain n where n: "w_g_runner w = Some n" by blast
  from runner_emptied [OF w1(2) _ w1(4)] w1(3) n obtain run1 t where
    r1: "w_runners w1 = [n \<mapsto> run1]" "n_running run1 \<noteq> 0" "n_contexts run1 = Some t" "rb_root t = NULL" by auto
  from add_context_live [OF w1(2), of n 3] w1(3) n obtain c' w2 where
    w2: "t2u_add_context n 3 w1 = Some (c', w2)" "state_ok w2" "w_g_runner w2 = Some n" by auto
  then obtain run2 where r2: "w_runners w2 = [n \<mapsto> run2]" "n_running run2 \<noteq> 0" by (auto simp: state_ok_def shared_ok_def)
  have ok2: "world_ok w2" "log_ok w2" using w2(2) by (simp_all add: state_ok_def)
  from delete_runner_ok [OF ok2(1) _ _ ok2(2), of n run2 os] r2 obtain w3 where
    w3: "t2u_delete_runner os (Some n) w2 = Some w3" "world_ok w3" "w_runners w3 = (w_runners w2)(n := None)" by auto
  then have gone: "w_contexts w3 c' = None" using no_runner_empty [OF w3(2)] r2(1) by simp
  let ?g0 = "shared_start True ((\<lambda>_. {})(1 := {c})) w"
  let ?g1 = "goto 1 (Free_context c) (?g0\<lparr>g_owned := (g_owned ?g0)(1 := g_owned ?g0 1 - {c})\<rparr>)"
  let ?g2 = "goto 1 Free_lock (?g1\<lparr>g_world := w1\<rparr>)"
  have "schedule os [1, 1] ?g1 = Some ?g2"
    using w1(1,3) n r1 by (simp add: step_defs shared_start_def)
  moreover have "shared_step os ?g0 ?g1" by (rule shared_step.free) (simp_all add: shared_start_def)
  ultimately have s1: "(shared_step os)\<^sup>*\<^sup>* ?g0 ?g2" by (intro schedule_into)
  obtain g where g: "schedule os [2, 2, 2, 2, 2, 1, 1, 1, 1] (goto 2 (Create_test 3) ?g2) = Some g"
    "\<forall>th. g_pc g th = Idle" "c' \<in> g_owned g 2" "g_world g = w3\<lparr>w_g_runner := NULL\<rparr>"
    using w1(3) w2(1,3) w3(1) n by (simp add: step_defs shared_start_def)
  have "shared_step os ?g2 (goto 2 (Create_test 3) ?g2)"
    by (rule shared_step.create) (simp add: goto_def shared_start_def)
  from rtranclp_trans [OF s1 schedule_into [OF this g(1)]] g gone show ?thesis by (intro exI [of _ g] exI [of _ c']) simp
qed

text \<open>
  Two threads free the last two contexts. Thread 1 deletes the runner, and before it clears
  \<open>g_runner\<close>, thread 2 reads the contexts of the runner.
\<close>

text \<open>
  C15: Two threads that free the last two contexts at the same time: one deletes the runner and,
  before it clears the pointer to it, the other reads the runner, which is freed memory.
\<close>

lemma free_free_race:
  assumes run: "(t2u_step os)\<^sup>*\<^sup>* t2u_init w" "os_ok os" and two: "dom (w_contexts w) = {c1, c2}" "c1 \<noteq> c2"
  shows "\<exists>g. (shared_step os)\<^sup>*\<^sup>* (shared_start True ((\<lambda>_. {})(1 := {c1}, 2 := {c2})) w) g \<and>
    enabled 2 g \<and> call_step os 2 g = None"
proof -
  have st: "state_ok w" by (rule reachable_state_ok [OF run])
  from two have c: "c1 \<in> live_contexts w" by (simp add: live_contexts_def)
  from delete_context_live [OF st c, of os] obtain w1 where
    w1: "t2u_delete_context os c1 w = Some w1" "state_ok w1" "w_g_runner w1 = w_g_runner w" "live_contexts w1 = {c2}"
    using two by (auto simp: live_contexts_def)
  from delete_context_live [OF w1(2), of c2 os] w1(3,4) obtain w2 where
    w2: "t2u_delete_context os c2 w1 = Some w2" "state_ok w2" "w_g_runner w2 = w_g_runner w" "live_contexts w2 = {}"
    by auto
  from api.attached [OF st c] obtain n where n: "w_g_runner w = Some n" by blast
  from runner_emptied [OF w2(2) _ w2(4)] w2(3) n obtain run2 t where
    r2: "w_runners w2 = [n \<mapsto> run2]" "n_running run2 \<noteq> 0" "n_contexts run2 = Some t" "rb_root t = NULL" by auto
  have ok2: "world_ok w2" "log_ok w2" using w2(2) by (simp_all add: state_ok_def)
  from delete_runner_ok [OF ok2(1) _ _ ok2(2), of n run2 os] r2 obtain w3 where
    w3: "t2u_delete_runner os (Some n) w2 = Some w3" "w_runners w3 n = None" "w_g_runner w3 = Some n"
    using w2(3) n by auto
  let ?g0 = "shared_start True ((\<lambda>_. {})(1 := {c1}, 2 := {c2})) w"
  let ?g1 = "goto 1 (Free_context c1) (?g0\<lparr>g_owned := (g_owned ?g0)(1 := g_owned ?g0 1 - {c1})\<rparr>)"
  let ?g2 = "goto 2 (Free_context c2) (?g1\<lparr>g_owned := (g_owned ?g1)(2 := g_owned ?g1 2 - {c2})\<rparr>)"
  obtain g where g: "schedule os [1, 2, 1, 1, 1] ?g2 = Some g" "g_pc g 2 = Free_check" "g_world g = w3"
    using w1(1) w2(1,3) w3(1) n r2 by (simp add: step_defs shared_start_def)
  have "shared_step os ?g0 ?g1" by (rule shared_step.free) (simp_all add: shared_start_def)
  moreover have "shared_step os ?g1 ?g2" by (rule shared_step.free) (simp_all add: shared_start_def goto_def)
  ultimately have "(shared_step os)\<^sup>*\<^sup>* ?g0 g"
    using schedule_steps [OF g(1)] by (meson converse_rtranclp_into_rtranclp)
  moreover have "enabled 2 g" "call_step os 2 g = None" using g(2,3) w3(2,3) by (simp_all add: step_defs)
  ultimately show ?thesis by blast
qed

lemma init_no_runner: "w_g_runner t2u_init = NULL"
  by (simp add: t2u_init_def)

text \<open>
  Two threads create the first two contexts. Both find that the mutex has not been created, and the
  second creates it again while the first holds it.
\<close>

text \<open>
  C16: Two threads that create the first two contexts at the same time can both initialise the
  mutex, the second while the first holds it; then both create a runner, and the first context stays
  attached to a runner that the program no longer knows.
\<close>

lemma create_init_race:
  assumes os: "\<forall>call. runner_available os call"
  shows "\<exists>g c1 n1 run1 ctx1. (shared_step os)\<^sup>*\<^sup>* (shared_start False (\<lambda>_. {}) t2u_init) g \<and> (\<forall>th. g_pc g th = Idle) \<and>
    c1 \<in> g_owned g 1 \<and> w_contexts (g_world g) c1 = Some ctx1 \<and> c_runner ctx1 = Some n1 \<and>
    w_runners (g_world g) n1 = Some run1 \<and> n_running run1 \<noteq> 0 \<and> w_g_runner (g_world g) \<noteq> Some n1 \<and>
    (\<exists>n2 run2. w_g_runner (g_world g) = Some n2 \<and> w_runners (g_world g) n2 = Some run2)"
proof -
  have w0: "world_ok t2u_init" using state_ok_init by (simp add: state_ok_def)
  obtain n1 w1 run1 where w1: "t2u_runner_new os t2u_init = Some (n1, w1)" "world_ok w1" "w_runners w1 n1 = Some run1"
      "n_running run1 = 1"
    using runner_new_ok [OF w0] os by fastforce
  let ?w1 = "w1\<lparr>w_g_runner := Some n1\<rparr>"
  have "world_ok ?w1" "w_runners ?w1 n1 = Some run1" using w1 by simp_all
  from add_context_ok [OF this, of 3] obtain c1 w2 ctx1 run1' where
    w2: "t2u_add_context n1 3 ?w1 = Some (c1, w2)" "world_ok w2" "w_contexts w2 c1 = Some ctx1" "c_runner ctx1 = Some n1"
      "w_runners w2 n1 = Some run1'" "n_running run1' = 1" "w_g_runner w2 = Some n1"
    using w1(4) by fastforce
  obtain n2 w3 run2 where w3: "t2u_runner_new os w2 = Some (n2, w3)" "world_ok w3" "w_runners w3 = (w_runners w2)(n2 \<mapsto> run2)"
      "n2 = w_fresh w2" "w_contexts w3 = w_contexts w2"
    using runner_new_ok [OF w2(2)] os by fastforce
  have "w_runners w2 n2 = None" using world_okD(6) [OF w2(2)] w3(4) by (simp add: fresh_ok_def)
  with w2(5) have n: "n1 \<noteq> n2" by auto
  let ?w3 = "w3\<lparr>w_g_runner := Some n2\<rparr>"
  have "world_ok ?w3" "w_runners ?w3 n2 = Some run2" using w3 by simp_all
  from add_context_ok [OF this, of 4] obtain c2 w4 ctx2 run2' where
    w4: "t2u_add_context n2 4 ?w3 = Some (c2, w4)" "w_contexts w4 = (w_contexts w2)(c2 \<mapsto> ctx2)" "c2 = w_fresh w3"
      "w_runners w4 = (w_runners w3)(n2 \<mapsto> run2')" "w_g_runner w4 = Some n2"
    using w3(5) by fastforce
  have "c1 \<noteq> c2"
    using world_okD(6) [OF w3(2)] w4(3) w3(5) w2(3) by (auto simp: fresh_ok_def)
  with w4 w2 w3(3) n have fin: "w_contexts w4 c1 = Some ctx1" "w_runners w4 n1 = Some run1'" "w_runners w4 n2 = Some run2'"
    by simp_all
  let ?g0 = "shared_start False (\<lambda>_. {}) t2u_init"
  let ?g1 = "goto 1 (Create_test 3) ?g0"
  let ?g2 = "goto 2 (Create_test 4) ?g1"
  obtain g where g: "schedule os [1, 2, 1, 1, 1, 1, 2, 2, 2, 2, 1, 1, 1, 2, 2, 2] ?g2 = Some g"
    "\<forall>th. g_pc g th = Idle" "c1 \<in> g_owned g 1" "g_world g = w4"
    using w1(1) w2(1) w3(1) w4(1) w4(5) by (simp add: step_defs shared_start_def init_no_runner)
  have "shared_step os ?g0 ?g1" by (rule shared_step.create) (simp add: shared_start_def)
  moreover have "shared_step os ?g1 ?g2" by (rule shared_step.create) (simp add: goto_def shared_start_def)
  ultimately have "(shared_step os)\<^sup>*\<^sup>* ?g0 g"
    using schedule_steps [OF g(1)] by (meson converse_rtranclp_into_rtranclp)
  with g(2-4) fin w2(4,6) w4(5) n show ?thesis
    by (intro exI [of _ g] exI [of _ c1] exI [of _ n1] exI [of _ run1'] exI [of _ ctx1]) simp
qed

end
