(* ===== verification/T2u_Global_Witnesses.thy ===== *)
theory T2u_Global_Witnesses
  imports T2u_Global T2u_Run_Witnesses
begin

text \<open>The properties of calls from several threads, each applied to a concrete run.\<close>

text \<open>A thread creates a context beside the one that the program has.\<close>

lemma ex_second_context:
  "\<exists>w keep g c. (t2u_step ex_os)\<^sup>*\<^sup>* t2u_init w \<and> w_contexts w keep \<noteq> None \<and>
    (shared_step ex_os)\<^sup>*\<^sup>* (shared_start True (\<lambda>_. {}) w) g \<and> c \<in> g_owned g 5 \<and> w_contexts w c = None"
proof -
  from ex_run_created obtain keep ctx w where
    w: "(t2u_step ex_os)\<^sup>*\<^sup>* t2u_init w" "w_contexts w = [keep \<mapsto> ctx]" by blast
  have st: "state_ok w" by (rule reachable_state_ok [OF w(1) ex_os_ok])
  have k: "keep \<in> live_contexts w" by (simp add: w(2) live_contexts_def)
  from api.attached [OF st k] obtain n where n: "w_g_runner w = Some n" by blast
  from add_context_live [OF st n, of 3] obtain c w' where
    c: "t2u_add_context n 3 w = Some (c, w')" "c \<notin> live_contexts w" by blast
  let ?g0 = "shared_start True (\<lambda>_. {}) w"
  obtain g where g: "schedule ex_os [5, 5, 5, 5, 5] (goto 5 (Create_test 3) ?g0) = Some g" "c \<in> g_owned g 5"
    using c(1) n by (simp add: step_defs shared_start_def)
  have "shared_step ex_os ?g0 (goto 5 (Create_test 3) ?g0)"
    by (rule shared_step.create) (simp add: shared_start_def)
  from schedule_into [OF this g(1)] w c(2) g(2) show ?thesis
    by (intro exI [of _ w] exI [of _ keep] exI [of _ g] exI [of _ c]) (auto simp: live_contexts_def)
qed

lemma shared_calls_safe_witness:
  "\<exists>w g c. (shared_step ex_os)\<^sup>*\<^sup>* (shared_start True (\<lambda>_. {}) w) g \<and> c \<in> g_owned g 5 \<and>
    w_contexts w c = None \<and> w_contexts (g_world g) c \<noteq> None"
proof -
  from ex_second_context obtain w keep g c where
    w: "(t2u_step ex_os)\<^sup>*\<^sup>* t2u_init w" "w_contexts w keep \<noteq> None"
      "(shared_step ex_os)\<^sup>*\<^sup>* (shared_start True (\<lambda>_. {}) w) g" "c \<in> g_owned g 5" "w_contexts w c = None" by blast
  from shared_calls_safe [OF w(1) ex_os_ok w(2,3)] w(4) have "w_contexts (g_world g) c \<noteq> None" by fastforce
  with w(3-5) show ?thesis by blast
qed

lemma free_create_race_witness:
  "\<exists>w c g c'. (t2u_step ex_os)\<^sup>*\<^sup>* t2u_init w \<and> dom (w_contexts w) = {c} \<and>
    (shared_step ex_os)\<^sup>*\<^sup>* (shared_start True ((\<lambda>_. {})(1 := {c})) w) g \<and> c' \<in> g_owned g 2 \<and>
    w_contexts (g_world g) c' = None"
proof -
  from ex_run_created obtain c ctx w where
    w: "(t2u_step ex_os)\<^sup>*\<^sup>* t2u_init w" "w_contexts w = [c \<mapsto> ctx]" by blast
  then have d: "dom (w_contexts w) = {c}" by simp
  from free_create_race [OF w(1) ex_os_ok d] w(1) d show ?thesis by blast
qed

lemma ex_run_two_contexts:
  "\<exists>c1 c2 w. (t2u_step ex_os)\<^sup>*\<^sup>* t2u_init w \<and> dom (w_contexts w) = {c1, c2} \<and> c1 \<noteq> c2"
proof -
  from ex_run_created obtain c1 ctx w where
    w: "(t2u_step ex_os)\<^sup>*\<^sup>* t2u_init w" "w_contexts w = [c1 \<mapsto> ctx]" by blast
  have st: "state_ok w" by (rule reachable_state_ok [OF w(1) ex_os_ok])
  then have ok: "world_ok w" by (simp add: state_ok_def)
  have "case w_g_runner w of None \<Rightarrow> runner_available ex_os (w_calls w) | Some n \<Rightarrow> w_runners w n \<noteq> None"
    using st by (auto simp: state_ok_def shared_ok_def ex_runner_available split: option.splits)
  from create_forward_ok_spec [OF ok this, of 4] obtain c2 w' ctx2 where
    c: "create_forward ex_os 4 w = Some (c2, w')" "w_contexts w c2 = None" "w_contexts w' = (w_contexts w)(c2 \<mapsto> ctx2)" by blast
  have "t2u_step ex_os w w'"
    by (rule t2u_step.input [of _ _ "Create_forward 4"]) (simp_all add: ex_runner_available c)
  with w(1) have "(t2u_step ex_os)\<^sup>*\<^sup>* t2u_init w'" by (rule rtranclp.rtrancl_into_rtrancl)
  moreover have "dom (w_contexts w') = {c1, c2}" "c1 \<noteq> c2" using c(2,3) w(2) by auto
  ultimately show ?thesis by blast
qed

lemma free_free_race_witness:
  "\<exists>w c1 c2 g. (t2u_step ex_os)\<^sup>*\<^sup>* t2u_init w \<and> c1 \<noteq> c2 \<and>
    (shared_step ex_os)\<^sup>*\<^sup>* (shared_start True ((\<lambda>_. {})(1 := {c1}, 2 := {c2})) w) g \<and>
    enabled 2 g \<and> call_step ex_os 2 g = None"
proof -
  from ex_run_two_contexts obtain c1 c2 w where
    w: "(t2u_step ex_os)\<^sup>*\<^sup>* t2u_init w" "dom (w_contexts w) = {c1, c2}" "c1 \<noteq> c2" by blast
  from free_free_race [OF w(1) ex_os_ok w(2,3)] w(1,3) show ?thesis by blast
qed

lemma create_init_race_witness:
  "\<exists>g c1 n1 ctx1. (shared_step ex_os)\<^sup>*\<^sup>* (shared_start False (\<lambda>_. {}) t2u_init) g \<and> (\<forall>th. g_pc g th = Idle) \<and>
    c1 \<in> g_owned g 1 \<and> w_contexts (g_world g) c1 = Some ctx1 \<and> c_runner ctx1 = Some n1 \<and>
    w_g_runner (g_world g) \<noteq> Some n1"
proof -
  have "\<forall>call. runner_available ex_os call" by (simp add: ex_runner_available)
  from create_init_race [OF this] show ?thesis by blast
qed

end
