(* ===== verification/T2u_Thread.thy ===== *)
theory T2u_Thread
  imports T2u_Prelude
begin

text \<open>
  The thread functions of src/t2u_thread.c for both platforms. A call of the platform is recorded,
  and its result is taken from the environment: \<open>tr_ret\<close> is what the \<open>n\<close>-th call returns and
  \<open>tr_handle\<close> the handle it creates, with 0 for NULL.
\<close>

section \<open>The calls of the platform\<close>

datatype platform = GNUC | MSVC

type_synonym timespec = "nat \<times> nat"

datatype thr_call =
    Pthread_create
  | CreateThread
  | Pthread_join int
  | WaitForSingleObject int nat
  | CloseHandle int
  | Pthread_mutex_init addr
  | InitializeCriticalSection addr
  | Pthread_mutex_lock addr
  | EnterCriticalSection addr
  | Pthread_mutex_unlock addr
  | LeaveCriticalSection addr
  | Pthread_cond_init addr
  | CreateEvent
  | Pthread_cond_wait addr addr
  | Pthread_cond_timedwait addr addr timespec
  | Pthread_cond_signal addr
  | SetEvent int
  | Pthread_self
  | GetCurrentThreadId
  | Select_timeval "nat \<times> nat"
  | Sleep nat

record thr_env =
  tr_platform :: platform
  tr_ret :: "nat \<Rightarrow> int"
  tr_handle :: "nat \<Rightarrow> int"

text \<open>A condition variable is an event on Windows; \<open>cv_event\<close> is its handle there.\<close>

record t2u_cond =
  cv_addr :: addr
  cv_event :: int

definition INFINITE :: nat where "INFINITE = 4294967295"
definition WAIT_OBJECT_0 :: int where "WAIT_OBJECT_0 = 0"
definition WAIT_TIMEOUT :: int where "WAIT_TIMEOUT = 258"
definition T2U_ETIMEDOUT :: int where "T2U_ETIMEDOUT = 110"

type_synonym calls = "thr_call list"

text \<open>One call, with its result.\<close>

definition do_call :: "thr_env \<Rightarrow> thr_call \<Rightarrow> calls \<Rightarrow> int \<times> calls" where
  "do_call env call tr = (tr_ret env (length tr), tr @ [call])"

section \<open>Threads\<close>

text \<open>The result code and the new thread.\<close>

definition t2u_thr_create :: "thr_env \<Rightarrow> calls \<Rightarrow> int \<times> int \<times> calls" where
  "t2u_thr_create env tr =
     (let tid = tr_handle env (length tr) in
      case tr_platform env of
        GNUC \<Rightarrow> let (r, tr) = do_call env Pthread_create tr in (r, tid, tr)
      | MSVC \<Rightarrow> let (_, tr) = do_call env CreateThread tr in (if tid \<noteq> 0 then 0 else - 1, tid, tr))"

definition t2u_thr_join :: "thr_env \<Rightarrow> int \<Rightarrow> calls \<Rightarrow> int \<times> calls" where
  "t2u_thr_join env tid tr =
     (case tr_platform env of
        GNUC \<Rightarrow> do_call env (Pthread_join tid) tr
      | MSVC \<Rightarrow>
          let (_, tr) = do_call env (WaitForSingleObject tid INFINITE) tr;
              (_, tr) = do_call env (CloseHandle tid) tr
          in (0, tr))"

definition t2u_thr_self :: "thr_env \<Rightarrow> calls \<Rightarrow> int \<times> calls" where
  "t2u_thr_self env tr =
     (case tr_platform env of
        GNUC \<Rightarrow> do_call env Pthread_self tr
      | MSVC \<Rightarrow> do_call env GetCurrentThreadId tr)"

definition t2u_sleep :: "thr_env \<Rightarrow> nat \<Rightarrow> calls \<Rightarrow> calls" where
  "t2u_sleep env ms tr =
     (case tr_platform env of
        GNUC \<Rightarrow> snd (do_call env (Select_timeval (ms div 1000, (ms mod 1000) * 1000)) tr)
      | MSVC \<Rightarrow> snd (do_call env (Sleep ms) tr))"

section \<open>Mutexes\<close>

definition t2u_mutex_init :: "thr_env \<Rightarrow> addr \<Rightarrow> calls \<Rightarrow> int \<times> calls" where
  "t2u_mutex_init env m tr =
     (case tr_platform env of
        GNUC \<Rightarrow> do_call env (Pthread_mutex_init m) tr
      | MSVC \<Rightarrow> (0, snd (do_call env (InitializeCriticalSection m) tr)))"

definition t2u_mutex_lock :: "thr_env \<Rightarrow> addr \<Rightarrow> calls \<Rightarrow> int \<times> calls" where
  "t2u_mutex_lock env m tr =
     (case tr_platform env of
        GNUC \<Rightarrow> do_call env (Pthread_mutex_lock m) tr
      | MSVC \<Rightarrow> (0, snd (do_call env (EnterCriticalSection m) tr)))"

definition t2u_mutex_unlock :: "thr_env \<Rightarrow> addr \<Rightarrow> calls \<Rightarrow> int \<times> calls" where
  "t2u_mutex_unlock env m tr =
     (case tr_platform env of
        GNUC \<Rightarrow> do_call env (Pthread_mutex_unlock m) tr
      | MSVC \<Rightarrow> (0, snd (do_call env (LeaveCriticalSection m) tr)))"

section \<open>Condition variables\<close>

text \<open>The result code and the new condition variable.\<close>

definition t2u_cond_init :: "thr_env \<Rightarrow> addr \<Rightarrow> calls \<Rightarrow> int \<times> t2u_cond \<times> calls" where
  "t2u_cond_init env c tr =
     (let h = tr_handle env (length tr) in
      case tr_platform env of
        GNUC \<Rightarrow> let (r, tr) = do_call env (Pthread_cond_init c) tr in (r, \<lparr>cv_addr = c, cv_event = 0\<rparr>, tr)
      | MSVC \<Rightarrow> let (_, tr) = do_call env CreateEvent tr
               in (if h \<noteq> 0 then 0 else - 1, \<lparr>cv_addr = c, cv_event = h\<rparr>, tr))"

text \<open>The result of a wait on Windows.\<close>

definition wait_result :: "int \<Rightarrow> int" where
  "wait_result ret =
     (if ret = WAIT_OBJECT_0 then 0 else if ret = WAIT_TIMEOUT then T2U_ETIMEDOUT else - 1)"

definition t2u_cond_wait :: "thr_env \<Rightarrow> t2u_cond \<Rightarrow> addr \<Rightarrow> calls \<Rightarrow> int \<times> calls" where
  "t2u_cond_wait env c m tr =
     (case tr_platform env of
        GNUC \<Rightarrow> do_call env (Pthread_cond_wait (cv_addr c) m) tr
      | MSVC \<Rightarrow>
          let (_, tr) = t2u_mutex_unlock env m tr;
              (ret, tr) = do_call env (WaitForSingleObject (cv_event c) INFINITE) tr;
              (_, tr) = t2u_mutex_lock env m tr
          in (wait_result ret, tr))"

definition t2u_cond_timedwait :: "thr_env \<Rightarrow> t2u_cond \<Rightarrow> addr \<Rightarrow> nat \<Rightarrow> calls \<Rightarrow> int \<times> calls" where
  "t2u_cond_timedwait env c m wait tr =
     (case tr_platform env of
        GNUC \<Rightarrow> do_call env (Pthread_cond_timedwait (cv_addr c) m (wait div 1000, (wait mod 1000) * 1000000)) tr
      | MSVC \<Rightarrow>
          let (_, tr) = t2u_mutex_unlock env m tr;
              (ret, tr) = do_call env (WaitForSingleObject (cv_event c) wait) tr;
              (_, tr) = t2u_mutex_lock env m tr
          in (wait_result ret, tr))"

definition t2u_cond_signal :: "thr_env \<Rightarrow> t2u_cond \<Rightarrow> calls \<Rightarrow> int \<times> calls" where
  "t2u_cond_signal env c tr =
     (case tr_platform env of
        GNUC \<Rightarrow> do_call env (Pthread_cond_signal (cv_addr c)) tr
      | MSVC \<Rightarrow>
          let (r, tr) = do_call env (SetEvent (cv_event c)) tr
          in (if r = 0 then - 1 else 0, tr))"

section \<open>Waiting on Windows\<close>

text \<open>A wait holds the mutex again when it returns, and releases it only while it waits.\<close>

lemma cond_wait_windows:
  assumes "tr_platform env = MSVC"
  shows "t2u_cond_wait env c m tr =
    (if tr_ret env (Suc (length tr)) = 0 then 0 else if tr_ret env (Suc (length tr)) = 258 then 110 else - 1,
     tr @ [LeaveCriticalSection m, WaitForSingleObject (cv_event c) INFINITE, EnterCriticalSection m])"
  using assms
  by (simp add: t2u_cond_wait_def do_call_def t2u_mutex_unlock_def t2u_mutex_lock_def wait_result_def
      WAIT_OBJECT_0_def WAIT_TIMEOUT_def T2U_ETIMEDOUT_def)

end
