(* ===== verification/T2u_Control.thy ===== *)
theory T2u_Control
  imports T2u_Prelude
begin

text \<open>
  The control requests of src/t2u_runner.c as an interleaving of threads. Any number of threads
  call \<open>t2u_runner_control\<close>, which locks the mutex of the runner, sends the request to the control
  socket, waits for the reply and unlocks; the thread of the runner takes a request from the socket,
  runs its function and sends it back. Each of the four socket calls may fail: the flag \<open>fault\<close> of a
  step says that the call of this step does. The code looks at none of the results, so that it goes
  on without the datagram. A datagram that has been sent is delivered, in order (loopback interface).
  A request carries the thread it comes from, which the code does not: it serves to state what is
  proved. The runner ends when \<open>delete_runner_cb_\<close> has freed the control event.
\<close>

section \<open>State\<close>

type_synonym thread = nat

text \<open>The thread of the runner, \<open>tid_\<close>; its other fields are in \<open>T2u_State\<close>.\<close>

definition runner_tid :: thread where "runner_tid = 0"

text \<open>The function of a request: a null pointer, \<open>delete_runner_cb_\<close>, or another function of the program.\<close>

datatype func = Null_func | Delete_runner_cb | Func nat

record control_data =
  cd_func :: func
  cd_arg :: nat

type_synonym request = "thread \<times> control_data"

text \<open>
  Where a thread stands in \<open>t2u_runner_control\<close>. The thread of the runner can be in it only while it
  runs the function of another request. After \<open>recv\<close> the reply has overwritten \<open>cdata\<close>, or, when
  \<open>recv\<close> has failed, nothing has.
\<close>

datatype control_pc =
    Outside
  | Calling control_data
  | Locked control_data
  | Waiting control_data
  | Received control_data "request option"

datatype runner_pc =
    Dispatching
  | Processing request
  | Replying request
  | Stopped

record control =
  k_mutex :: "thread option"
  k_pc :: "thread \<Rightarrow> control_pc"
  k_runner :: runner_pc
  k_event :: bool
  k_sock0 :: "request list"
  k_sock1 :: "request list"
  k_run :: "(thread \<times> request) list"
  k_returned :: "thread \<Rightarrow> control_data list"

text \<open>
  \<open>k_event\<close> says that the control event of the runner is registered; \<open>k_run\<close> are the requests whose
  function has run, each with the thread that has run it; \<open>k_returned\<close> is what the argument of the
  calls of a thread held when they returned.
\<close>

definition control_init :: control where
  "control_init = \<lparr>k_mutex = None, k_pc = (\<lambda>_. Outside), k_runner = Dispatching, k_event = True, k_sock0 = [],
     k_sock1 = [], k_run = [], k_returned = (\<lambda>_. [])\<rparr>"

section \<open>Steps\<close>

text \<open>A step of a thread is not possible now, has undefined behaviour, or leads to a state.\<close>

datatype 'a outcome = Blocked | Undefined | Next 'a

text \<open>
  \<open>t2u_runner_control_process\<close> in the thread \<open>self\<close>. The function \<open>delete_runner_cb_\<close> frees the
  control event; what the others do is the subject of the other theories.
\<close>

definition runner_control_process :: "thread \<Rightarrow> request \<Rightarrow> control \<Rightarrow> control option" where
  "runner_control_process self cdata k = do {
     _ \<leftarrow> assert_that (cd_func (snd cdata) \<noteq> Null_func);
     Some (k\<lparr>k_run := k_run k @ [(self, cdata)],
             k_event := k_event k \<and> cd_func (snd cdata) \<noteq> Delete_runner_cb\<rparr>) }"

text \<open>
  The next step of a thread in \<open>t2u_runner_control\<close>. It is blocked when it is outside, or waits for
  the mutex or for the reply.
\<close>

definition runner_control_step :: "bool \<Rightarrow> thread \<Rightarrow> control \<Rightarrow> control outcome" where
  "runner_control_step fault self k =
     (case k_pc k self of
        Outside \<Rightarrow> Blocked
      | Calling d \<Rightarrow>
          if self = runner_tid then
            (case runner_control_process self (self, d) k of
               None \<Rightarrow> Undefined
             | Some k \<Rightarrow> Next (k\<lparr>k_pc := (k_pc k)(self := Outside),
                                k_returned := (k_returned k)(self := k_returned k self @ [d])\<rparr>))
          else if k_mutex k = None
          then Next (k\<lparr>k_mutex := Some self, k_pc := (k_pc k)(self := Locked d)\<rparr>) else Blocked
      | Locked d \<Rightarrow>
          Next (k\<lparr>k_sock0 := k_sock0 k @ (if fault then [] else [(self, d)]), k_pc := (k_pc k)(self := Waiting d)\<rparr>)
      | Waiting d \<Rightarrow>
          if fault then Next (k\<lparr>k_pc := (k_pc k)(self := Received d None)\<rparr>)
          else (case k_sock1 k of
                  [] \<Rightarrow> Blocked
                | reply # rest \<Rightarrow> Next (k\<lparr>k_sock1 := rest, k_pc := (k_pc k)(self := Received d (Some reply))\<rparr>))
      | Received d reply \<Rightarrow>
          Next (k\<lparr>k_mutex := None, k_pc := (k_pc k)(self := Outside),
                  k_returned := (k_returned k)(self := k_returned k self @
                    [case reply of None \<Rightarrow> d | Some r \<Rightarrow> snd r])\<rparr>))"

text \<open>
  The next step of the runner in \<open>event_base_dispatch\<close> and \<open>runner_control_cb_\<close>. When \<open>recvfrom\<close>
  fails the uninitialised request is processed. The function of a request returns when no request it
  has made itself is left; the loop ends after the callback that has freed the last event.
\<close>

definition runner_control_cb_step :: "bool \<Rightarrow> control \<Rightarrow> control outcome" where
  "runner_control_cb_step fault k =
     (case k_runner k of
        Dispatching \<Rightarrow>
          if fault then Undefined
          else (case k_sock0 k of
                  [] \<Rightarrow> Blocked
                | cdata # rest \<Rightarrow> Next (k\<lparr>k_sock0 := rest, k_runner := Processing cdata\<rparr>))
      | Processing cdata \<Rightarrow>
          if k_pc k runner_tid = Outside then
            (case runner_control_process runner_tid cdata k of
               None \<Rightarrow> Undefined
             | Some k \<Rightarrow> Next (k\<lparr>k_runner := Replying cdata\<rparr>))
          else Blocked
      | Replying cdata \<Rightarrow>
          Next (k\<lparr>k_sock1 := k_sock1 k @ (if fault then [] else [cdata]),
                  k_runner := (if k_event k then Dispatching else Stopped)\<rparr>)
      | Stopped \<Rightarrow> Blocked)"

inductive control_step :: "bool \<Rightarrow> control \<Rightarrow> control \<Rightarrow> bool" for fault where
  call: "k_pc k th = Outside \<Longrightarrow> cd_func d \<noteq> Null_func \<Longrightarrow>
    th = runner_tid \<longrightarrow> (\<exists>q. k_runner k = Processing q) \<Longrightarrow>
    control_step fault k (k\<lparr>k_pc := (k_pc k)(th := Calling d)\<rparr>)"
| caller: "runner_control_step fault th k = Next k' \<Longrightarrow> control_step fault k k'"
| runner: "runner_control_cb_step fault k = Next k' \<Longrightarrow> control_step fault k k'"

text \<open>The states of a run in which socket calls may fail, or, with \<open>faulty = False\<close>, none does.\<close>

inductive control_reachable :: "bool \<Rightarrow> control \<Rightarrow> bool" for faulty where
  init: "control_reachable faulty control_init"
| step: "control_reachable faulty k \<Longrightarrow> control_step fault k k' \<Longrightarrow> (fault \<longrightarrow> faulty) \<Longrightarrow> control_reachable faulty k'"

section \<open>The lock\<close>

definition inside :: "control_pc \<Rightarrow> bool" where
  "inside pc \<longleftrightarrow> (case pc of Outside \<Rightarrow> False | Calling d \<Rightarrow> False | _ \<Rightarrow> True)"

lemma inside_simps [simp]:
  "\<not> inside Outside" "\<not> inside (Calling d)" "inside (Locked d)" "inside (Waiting d)" "inside (Received d reply)"
  by (simp_all add: inside_def)

text \<open>
  The holder of the mutex is the thread between its lock and its unlock, and it is not the runner,
  which alone runs the functions. This holds whatever calls fail.
\<close>

definition lock_ok :: "control \<Rightarrow> bool" where
  "lock_ok k \<longleftrightarrow> (\<forall>th. inside (k_pc k th) \<longleftrightarrow> k_mutex k = Some th) \<and> k_mutex k \<noteq> Some runner_tid \<and>
     (\<forall>e \<in> set (k_run k). fst e = runner_tid)"

lemma runner_control_process_Some:
  "runner_control_process self cdata k = Some k' \<longleftrightarrow> cd_func (snd cdata) \<noteq> Null_func \<and>
     k' = k\<lparr>k_run := k_run k @ [(self, cdata)], k_event := k_event k \<and> cd_func (snd cdata) \<noteq> Delete_runner_cb\<rparr>"
  by (auto simp: runner_control_process_def bind_Some_iff)

text \<open>What a step of a caller does.\<close>

lemma runner_control_stepE:
  assumes "runner_control_step fault th k = Next k'"
  obtains (nested) d where "k_pc k th = Calling d" "th = runner_tid" "cd_func d \<noteq> Null_func"
      "k' = k\<lparr>k_run := k_run k @ [(th, th, d)], k_event := k_event k \<and> cd_func d \<noteq> Delete_runner_cb,
             k_pc := (k_pc k)(th := Outside), k_returned := (k_returned k)(th := k_returned k th @ [d])\<rparr>"
    | (lock) d where "k_pc k th = Calling d" "th \<noteq> runner_tid" "k_mutex k = None"
      "k' = k\<lparr>k_mutex := Some th, k_pc := (k_pc k)(th := Locked d)\<rparr>"
    | (send) d where "k_pc k th = Locked d"
      "k' = k\<lparr>k_sock0 := k_sock0 k @ (if fault then [] else [(th, d)]), k_pc := (k_pc k)(th := Waiting d)\<rparr>"
    | (recv) d reply rest where "k_pc k th = Waiting d" "\<not> fault" "k_sock1 k = reply # rest"
      "k' = k\<lparr>k_sock1 := rest, k_pc := (k_pc k)(th := Received d (Some reply))\<rparr>"
    | (recv_failed) d where "k_pc k th = Waiting d" "fault"
      "k' = k\<lparr>k_pc := (k_pc k)(th := Received d None)\<rparr>"
    | (unlock) d reply where "k_pc k th = Received d reply"
      "k' = k\<lparr>k_mutex := None, k_pc := (k_pc k)(th := Outside), k_returned := (k_returned k)(th := k_returned k th @
         [case reply of None \<Rightarrow> d | Some r \<Rightarrow> snd r])\<rparr>"
proof (cases "k_pc k th")
  case (Calling d)
  with assms nested lock show thesis
    by (cases "th = runner_tid") (auto simp: runner_control_step_def runner_control_process_Some
        split: option.splits if_splits)
qed (use assms that in \<open>auto simp: runner_control_step_def split: list.splits if_splits\<close>)

text \<open>What a step of the runner does.\<close>

lemma runner_control_cb_stepE:
  assumes "runner_control_cb_step fault k = Next k'"
  obtains (take) q rest where "k_runner k = Dispatching" "\<not> fault" "k_sock0 k = q # rest"
      "k' = k\<lparr>k_sock0 := rest, k_runner := Processing q\<rparr>"
    | (run) q where "k_runner k = Processing q" "k_pc k runner_tid = Outside" "cd_func (snd q) \<noteq> Null_func"
      "k' = k\<lparr>k_run := k_run k @ [(runner_tid, q)],
             k_event := k_event k \<and> cd_func (snd q) \<noteq> Delete_runner_cb, k_runner := Replying q\<rparr>"
    | (reply) q where "k_runner k = Replying q"
      "k' = k\<lparr>k_sock1 := k_sock1 k @ (if fault then [] else [q]),
             k_runner := (if k_event k then Dispatching else Stopped)\<rparr>"
proof (cases "k_runner k")
  case (Processing q)
  with assms run show thesis
    by (auto simp: runner_control_cb_step_def runner_control_process_Some split: option.splits if_splits)
qed (use assms that in \<open>auto simp: runner_control_cb_step_def split: list.splits if_splits\<close>)

lemma lock_ok_caller: "lock_ok k \<Longrightarrow> runner_control_step fault th k = Next k' \<Longrightarrow> lock_ok k'"
  by (erule runner_control_stepE) (auto simp: lock_ok_def split: if_splits)

lemma lock_ok_runner: "lock_ok k \<Longrightarrow> runner_control_cb_step fault k = Next k' \<Longrightarrow> lock_ok k'"
  by (erule runner_control_cb_stepE) (auto simp: lock_ok_def)

lemma lock_ok_step: "control_step fault k k' \<Longrightarrow> lock_ok k \<Longrightarrow> lock_ok k'"
proof (induction rule: control_step.induct)
  case (call k th d)
  then show ?case by (auto simp: lock_ok_def split: if_splits) (metis inside_simps(1))+
qed (auto intro: lock_ok_caller lock_ok_runner)

lemma lock_ok_reachable: "control_reachable faulty k \<Longrightarrow> lock_ok k"
proof (induction rule: control_reachable.induct)
  case init
  show ?case by (simp add: lock_ok_def control_init_def)
qed (rule lock_ok_step)

section \<open>The invariant of the runs without failures\<close>

text \<open>No datagram is under way and the runner is idle.\<close>

definition idle :: "runner_pc \<Rightarrow> bool" where
  "idle pc \<longleftrightarrow> pc = Dispatching \<or> pc = Stopped"

definition quiet :: "control \<Rightarrow> bool" where
  "quiet k \<longleftrightarrow> k_sock0 k = [] \<and> k_sock1 k = [] \<and> idle (k_runner k)"

text \<open>The request \<open>q\<close>, and nothing else, is under way; the flag says whether its function has run.\<close>

definition under_way :: "control \<Rightarrow> request \<Rightarrow> bool \<Rightarrow> bool" where
  "under_way k q done \<longleftrightarrow>
     (if done then k_sock0 k = [] \<and> (k_runner k = Replying q \<and> k_sock1 k = [] \<or> idle (k_runner k) \<and> k_sock1 k = [q])
      else k_sock1 k = [] \<and> (idle (k_runner k) \<and> k_sock0 k = [q] \<or> k_runner k = Processing q \<and> k_sock0 k = []))"

text \<open>The requests of a thread whose function has run.\<close>

definition run_of :: "control \<Rightarrow> thread \<Rightarrow> control_data list" where
  "run_of k th = map (snd \<circ> snd) (filter (\<lambda>e. fst (snd e) = th) (k_run k))"

definition holder_ok :: "control \<Rightarrow> bool" where
  "holder_ok k \<longleftrightarrow> lock_ok k \<and> (k_mutex k = None \<longrightarrow> quiet k) \<and>
     (k_pc k runner_tid \<noteq> Outside \<longrightarrow> (\<exists>q. k_runner k = Processing q))"

definition thread_ok :: "control \<Rightarrow> thread \<Rightarrow> bool" where
  "thread_ok k th \<longleftrightarrow>
     (case k_pc k th of
        Outside \<Rightarrow> run_of k th = k_returned k th
      | Calling d \<Rightarrow> cd_func d \<noteq> Null_func \<and> run_of k th = k_returned k th
      | Locked d \<Rightarrow> cd_func d \<noteq> Null_func \<and> quiet k \<and> run_of k th = k_returned k th
      | Waiting d \<Rightarrow> cd_func d \<noteq> Null_func \<and>
          (\<exists>done. under_way k (th, d) done \<and> run_of k th = k_returned k th @ (if done then [d] else []))
      | Received d reply \<Rightarrow> quiet k \<and> reply = Some (th, d) \<and> run_of k th = k_returned k th @ [d])"

definition control_ok :: "control \<Rightarrow> bool" where
  "control_ok k \<longleftrightarrow> holder_ok k \<and> (\<forall>th. thread_ok k th)"

lemma control_okI:
  assumes "lock_ok k" "k_mutex k = None \<Longrightarrow> quiet k"
    "k_pc k runner_tid \<noteq> Outside \<Longrightarrow> \<exists>q. k_runner k = Processing q" "\<And>th. thread_ok k th"
  shows "control_ok k"
  using assms by (simp add: control_ok_def holder_ok_def)

lemma control_okD:
  assumes "control_ok k"
  shows "inside (k_pc k th) \<longleftrightarrow> k_mutex k = Some th" "k_mutex k = None \<Longrightarrow> quiet k" "thread_ok k th"
    "k_mutex k \<noteq> Some runner_tid" "k_pc k runner_tid \<noteq> Outside \<Longrightarrow> \<exists>q. k_runner k = Processing q" "lock_ok k"
  using assms by (simp_all add: control_ok_def holder_ok_def lock_ok_def)

lemma pc_update_simps [simp]:
  "quiet (k\<lparr>k_pc := p\<rparr>) = quiet k" "under_way (k\<lparr>k_pc := p\<rparr>) = under_way k" "run_of (k\<lparr>k_pc := p\<rparr>) = run_of k"
  by (simp_all add: quiet_def under_way_def run_of_def fun_eq_iff)

lemma thread_ok_same:
  assumes "thread_ok k th" "k_pc k' th = k_pc k th" "run_of k' th = run_of k th" "k_returned k' th = k_returned k th"
    "inside (k_pc k th) \<Longrightarrow> quiet k' = quiet k \<and> under_way k' = under_way k"
  shows "thread_ok k' th"
  using assms by (cases "k_pc k th") (auto simp: thread_ok_def)

lemma control_ok_init: "control_ok control_init"
  by (rule control_okI) (auto simp: control_init_def thread_ok_def quiet_def idle_def run_of_def lock_ok_def)

lemma control_ok_call:
  assumes k: "control_ok k" and pc: "k_pc k th = Outside" "cd_func d \<noteq> Null_func"
    and r: "th = runner_tid \<longrightarrow> (\<exists>q. k_runner k = Processing q)"
  shows "control_ok (k\<lparr>k_pc := (k_pc k)(th := Calling d)\<rparr>)" (is "control_ok ?k")
proof (rule control_okI)
  show "lock_ok ?k" by (rule lock_ok_step [OF control_step.call [OF pc r] control_okD(6) [OF k]])
  show "thread_ok ?k t" for t
  proof (cases "t = th")
    case True
    with control_okD(3) [OF k, of th] pc show ?thesis by (simp add: thread_ok_def)
  next
    case False
    then show ?thesis by (intro thread_ok_same [OF control_okD(3) [OF k, of t]]) simp_all
  qed
  show "k_pc ?k runner_tid \<noteq> Outside \<Longrightarrow> \<exists>q. k_runner ?k = Processing q"
    using control_okD(5) [OF k] r by (auto split: if_splits)
qed (use control_okD(2) [OF k] in simp_all)

text \<open>A step of the thread \<open>th\<close>, which holds the mutex before or after it.\<close>

lemma control_ok_holder:
  assumes k: "control_ok k" "lock_ok k'" and hold: "k_mutex k \<in> {None, Some th}"
    and others: "\<And>t. t \<noteq> th \<Longrightarrow> k_pc k' t = k_pc k t \<and> run_of k' t = run_of k t \<and> k_returned k' t = k_returned k t"
    and quiet: "k_mutex k' = None \<Longrightarrow> quiet k'" and th: "thread_ok k' th" "th \<noteq> runner_tid"
    and run: "k_runner k' = k_runner k \<or> k_pc k runner_tid = Outside"
  shows "control_ok k'"
proof (rule control_okI [OF k(2) quiet])
  have out: "\<not> inside (k_pc k t)" if "t \<noteq> th" for t
    using control_okD(1) [OF k(1), of t] hold that by auto
  show "thread_ok k' t" for t
    using thread_ok_same [OF control_okD(3) [OF k(1), of t]] out others [of t] th by (cases "t = th") auto
  show "k_pc k' runner_tid \<noteq> Outside \<Longrightarrow> \<exists>q. k_runner k' = Processing q"
    using others [of runner_tid] th(2) run control_okD(5) [OF k(1)] by auto
qed

text \<open>A request that the runner makes itself.\<close>

lemma control_ok_nested:
  assumes k: "control_ok k" and pc: "k_pc k runner_tid = Calling d" and l: "lock_ok k'"
    and k': "k' = k\<lparr>k_run := k_run k @ [(runner_tid, runner_tid, d)], k_event := e,
             k_pc := (k_pc k)(runner_tid := Outside),
             k_returned := (k_returned k)(runner_tid := k_returned k runner_tid @ [d])\<rparr>"
  shows "control_ok k'"
proof (rule control_okI [OF l])
  show "k_mutex k' = None \<Longrightarrow> quiet k'" using control_okD(2) [OF k] by (simp add: k' quiet_def)
  show "k_pc k' runner_tid \<noteq> Outside \<Longrightarrow> \<exists>q. k_runner k' = Processing q" by (simp add: k')
  show "thread_ok k' t" for t
  proof (cases "t = runner_tid")
    case True
    with control_okD(3) [OF k, of t] pc show ?thesis by (simp add: thread_ok_def k' run_of_def)
  next
    case False
    then show ?thesis
      by (intro thread_ok_same [OF control_okD(3) [OF k, of t]])
        (simp_all add: k' run_of_def quiet_def under_way_def fun_eq_iff)
  qed
qed

lemma control_ok_caller:
  assumes k: "control_ok k" and s: "runner_control_step False th k = Next k'"
  shows "control_ok k'"
proof -
  note T = control_okD(3) [OF k, of th] and H = control_okD(1) [OF k, of th]
  have l: "lock_ok k'" by (rule lock_ok_caller [OF control_okD(6) [OF k] s])
  have nr: "th \<noteq> runner_tid" if "inside (k_pc k th)" using H control_okD(4) [OF k] that by auto
  note own = control_ok_holder [OF k l, of th]
  show ?thesis
    using s
  proof (cases rule: runner_control_stepE)
    case (nested d)
    then show ?thesis by (intro control_ok_nested [OF k _ l]) simp_all
  next
    case (lock d)
    from T lock(1) control_okD(2) [OF k lock(3)] have "thread_ok k' th"
      unfolding lock(4) by (simp add: thread_ok_def run_of_def quiet_def)
    with lock show ?thesis by (intro own) (auto simp: run_of_def)
  next
    case (send d)
    from T send have "thread_ok k' th"
      by (auto simp: thread_ok_def run_of_def quiet_def under_way_def intro!: exI [of _ False])
    with send H nr show ?thesis by (intro own) (auto simp: run_of_def)
  next
    case (recv d reply rest)
    from T recv(1) obtain dn where "under_way k (th, d) dn" "run_of k th = k_returned k th @ (if dn then [d] else [])"
      by (auto simp: thread_ok_def)
    with recv have "thread_ok k' th"
      by (auto simp: thread_ok_def run_of_def quiet_def under_way_def split: if_splits)
    with recv H nr show ?thesis by (intro own) (auto simp: run_of_def)
  next
    case (unlock d reply)
    from T unlock have "thread_ok k' th" "quiet k'" by (auto simp: thread_ok_def run_of_def quiet_def)
    with unlock H nr show ?thesis by (intro own) (auto simp: run_of_def)
  qed simp
qed

text \<open>The runner works for the thread that holds the mutex.\<close>

lemma control_ok_busy:
  assumes k: "control_ok k" and b: "\<not> quiet k"
  obtains th d dn where "k_mutex k = Some th" "k_pc k th = Waiting d" "under_way k (th, d) dn" "cd_func d \<noteq> Null_func"
    "run_of k th = k_returned k th @ (if dn then [d] else [])" "th \<noteq> runner_tid"
proof -
  from control_okD(2) [OF k] b obtain th where th: "k_mutex k = Some th" by auto
  with control_okD(1) [OF k, of th] have i: "inside (k_pc k th)" by simp
  from control_okD(3) [OF k, of th] i b obtain d dn where "k_pc k th = Waiting d" "under_way k (th, d) dn" "cd_func d \<noteq> Null_func"
    "run_of k th = k_returned k th @ (if dn then [d] else [])"
    by (cases "k_pc k th") (auto simp: thread_ok_def)
  with th that control_okD(4) [OF k] show ?thesis by blast
qed

lemma control_ok_runner:
  assumes k: "control_ok k" and s: "runner_control_cb_step False k = Next k'"
  shows "control_ok k'"
proof -
  have "\<not> quiet k" using s by (cases rule: runner_control_cb_stepE) (simp_all add: quiet_def idle_def)
  then obtain th d dn where m: "k_mutex k = Some th" "k_pc k th = Waiting d" and u: "under_way k (th, d) dn" and
    f: "cd_func d \<noteq> Null_func" and r: "run_of k th = k_returned k th @ (if dn then [d] else [])" and nr: "th \<noteq> runner_tid"
    by (rule control_ok_busy [OF k])
  note th = m f nr
  have same: "k_pc k' = k_pc k \<and> k_mutex k' = k_mutex k \<and> k_returned k' = k_returned k"
    using s by (cases rule: runner_control_cb_stepE) simp_all
  have out: "k_pc k runner_tid = Outside"
    using s by (cases rule: runner_control_cb_stepE) (use control_okD(5) [OF k] in auto)
  have "\<exists>dn. under_way k' (th, d) dn \<and> run_of k' th = k_returned k th @ (if dn then [d] else [])"
    using s
  proof (cases rule: runner_control_cb_stepE)
    case take
    with u r show ?thesis by (intro exI [of _ False]) (auto simp: under_way_def run_of_def idle_def split: if_splits)
  next
    case run
    with u r show ?thesis by (intro exI [of _ True]) (auto simp: under_way_def run_of_def idle_def split: if_splits)
  next
    case reply
    with u r show ?thesis by (intro exI [of _ True]) (auto simp: under_way_def run_of_def idle_def split: if_splits)
  qed
  then have T: "thread_ok k' th" using th same by (simp add: thread_ok_def)
  have "run_of k' t = run_of k t" if "t \<noteq> th" for t
    using s by (cases rule: runner_control_cb_stepE)
      (use u that in \<open>auto simp: under_way_def run_of_def idle_def split: if_splits\<close>)
  with th same T out show ?thesis
    by (intro control_ok_holder [OF k lock_ok_runner [OF control_okD(6) [OF k] s], of th]) auto
qed

lemma control_ok_step: "control_step False k k' \<Longrightarrow> control_ok k \<Longrightarrow> control_ok k'"
  by (induction rule: control_step.induct) (auto intro: control_ok_call control_ok_caller control_ok_runner)

lemma control_ok_reachable: "control_reachable False k \<Longrightarrow> control_ok k"
  by (induction rule: control_reachable.induct) (auto intro: control_ok_init control_ok_step)

section \<open>What callers rely on\<close>

lemma no_undefined_step:
  assumes k: "control_ok k"
  shows "runner_control_step False th k \<noteq> Undefined" "runner_control_cb_step False k \<noteq> Undefined"
proof -
  show "runner_control_step False th k \<noteq> Undefined"
    using control_okD(3) [OF k, of th]
    by (auto simp: runner_control_step_def runner_control_process_def thread_ok_def split: control_pc.split list.split)
  show "runner_control_cb_step False k \<noteq> Undefined"
  proof (cases "k_runner k")
    case (Processing q)
    then have "\<not> quiet k" by (simp add: quiet_def idle_def)
    then obtain th d dn where "under_way k (th, d) dn" "cd_func d \<noteq> Null_func" by (rule control_ok_busy [OF k])
    with Processing show ?thesis
      by (auto simp: runner_control_cb_step_def runner_control_process_def under_way_def idle_def split: if_splits)
  qed (simp_all add: runner_control_cb_step_def split: list.split)
qed

text \<open>At most one request is under way, and it is that of the thread in the section.\<close>

lemma control_exclusive:
  assumes k: "control_ok k"
  shows "length (k_sock0 k @ k_sock1 k) + (if idle (k_runner k) then 0 else 1) \<le> 1"
proof (cases "quiet k")
  case True
  then show ?thesis by (simp add: quiet_def)
next
  case False
  then obtain th d dn where "under_way k (th, d) dn" by (rule control_ok_busy [OF k])
  then show ?thesis by (auto simp: under_way_def idle_def split: if_splits)
qed

text \<open>
  How many steps of its holder and of the runner the mutex is still held for, when the function of
  the request makes no further request.
\<close>

definition remaining :: "control \<Rightarrow> nat" where
  "remaining k =
     (case k_mutex k of
        None \<Rightarrow> 0
      | Some th \<Rightarrow>
          (case k_pc k th of
             Locked d \<Rightarrow> 6
           | Waiting d \<Rightarrow>
               (case k_runner k of
                  Processing q \<Rightarrow> 4 + (if k_pc k runner_tid = Outside then 0 else 1)
                | Replying q \<Rightarrow> 3
                | _ \<Rightarrow> if k_sock0 k = [] then 2 else 5)
           | Received d reply \<Rightarrow> 1
           | _ \<Rightarrow> 0))"

definition holder_step :: "thread \<Rightarrow> control \<Rightarrow> control \<Rightarrow> bool" where
  "holder_step h k k' \<longleftrightarrow>
     (\<exists>th \<in> {h, runner_tid}. runner_control_step False th k = Next k') \<or> runner_control_cb_step False k = Next k'"

text \<open>The holder of the mutex waits, or is about to wait, for a reply that the ended runner does not send.\<close>

definition stuck :: "control \<Rightarrow> thread \<Rightarrow> bool" where
  "stuck k h \<longleftrightarrow> k_runner k = Stopped \<and> k_sock1 k = [] \<and> (\<exists>d. k_pc k h = Locked d \<or> k_pc k h = Waiting d)"

lemma remaining_le: "remaining k \<le> 6"
  by (simp add: remaining_def split: option.split control_pc.split runner_pc.split)

lemma holder_inside:
  assumes k: "control_ok k" and h: "k_mutex k = Some h"
  obtains (locked) d where "k_pc k h = Locked d" "cd_func d \<noteq> Null_func" "quiet k" "h \<noteq> runner_tid"
    | (waiting) d dn where "k_pc k h = Waiting d" "cd_func d \<noteq> Null_func" "under_way k (h, d) dn" "h \<noteq> runner_tid"
    | (received) d where "k_pc k h = Received d (Some (h, d))" "quiet k" "h \<noteq> runner_tid"
proof -
  have "inside (k_pc k h)" "h \<noteq> runner_tid" using control_okD(1,4) [OF k] h by auto
  with that control_okD(3) [OF k, of h] show thesis by (cases "k_pc k h") (auto simp: thread_ok_def)
qed

lemma runner_idle_outside: "control_ok k \<Longrightarrow> idle (k_runner k) \<Longrightarrow> k_pc k runner_tid = Outside"
  by (rule ccontr) (drule (1) control_okD(5), auto simp: idle_def)

lemma inside_holder: "control_ok k \<Longrightarrow> k_mutex k = Some h \<Longrightarrow> inside (k_pc k t) \<Longrightarrow> t = h"
  using control_okD(1) [of k t] by simp

text \<open>While the runner works, the holder waits.\<close>

lemma holder_busy:
  assumes k: "control_ok k" and h: "k_mutex k = Some h" and b: "\<not> quiet k"
  obtains d dn where "k_pc k h = Waiting d" "under_way k (h, d) dn" "h \<noteq> runner_tid"
  using control_ok_busy [OF k b] h by (metis option.inject)

lemma busyI: "k_runner k = Processing q \<Longrightarrow> \<not> quiet k" "k_runner k = Replying q \<Longrightarrow> \<not> quiet k" "k_sock0 k \<noteq> [] \<Longrightarrow> \<not> quiet k"
  by (simp_all add: quiet_def idle_def)

lemma holder_progress:
  assumes k: "control_ok k" and h: "k_mutex k = Some h" and s: "\<not> stuck k h"
  shows "\<exists>k'. holder_step h k k'"
  using k h
proof (cases rule: holder_inside)
  case locked
  then show ?thesis by (auto simp: holder_step_def runner_control_step_def)
next
  case received
  then show ?thesis by (auto simp: holder_step_def runner_control_step_def)
next
  case (waiting d dn)
  show ?thesis
  proof (cases "k_pc k runner_tid")
    case (Calling d')
    with control_okD(3) [OF k, of runner_tid] show ?thesis
      by (auto simp: holder_step_def runner_control_step_def runner_control_process_def thread_ok_def)
  next
    case Outside
    from waiting(3) s waiting(1,2) Outside show ?thesis
      by (auto simp: holder_step_def stuck_def runner_control_step_def runner_control_cb_step_def
          runner_control_process_def under_way_def idle_def split: if_splits)
  qed (use control_okD(1,4) [OF k] in \<open>metis inside_simps(3-5)\<close>)+
qed

lemma holder_decreases:
  assumes k: "control_ok k" and h: "k_mutex k = Some h" and s: "holder_step h k k'"
  shows "remaining k' < remaining k"
proof -
  have caller: ?thesis if t: "t \<in> {h, runner_tid}" "runner_control_step False t k = Next k'" for t
    using t(2)
  proof (cases rule: runner_control_stepE)
    case (nested d)
    with control_okD(5) [OF k] obtain q where q: "k_runner k = Processing q" by auto
    from holder_busy [OF k h busyI(1) [OF q]] obtain d2 where "k_pc k h = Waiting d2" "h \<noteq> runner_tid" by blast
    with q h nested show ?thesis by (simp add: remaining_def)
  next
    case (recv d reply rest)
    have th: "t = h" using inside_holder [OF k h, of t] recv(1) by simp
    from control_okD(3) [OF k, of h] recv(1) th obtain dn where "under_way k (h, d) dn" by (auto simp: thread_ok_def)
    with recv h th show ?thesis by (auto simp: remaining_def under_way_def idle_def split: if_splits)
  next
    case (send d)
    have th: "t = h" using inside_holder [OF k h, of t] send(1) by simp
    from control_okD(3) [OF k, of h] send(1) th have "quiet k" by (auto simp: thread_ok_def)
    with send h th show ?thesis by (auto simp: remaining_def quiet_def idle_def)
  next
    case (unlock d reply)
    have "t = h" using inside_holder [OF k h, of t] unlock(1) by simp
    with unlock h show ?thesis by (auto simp: remaining_def)
  qed (use h in simp_all)
  have runner: ?thesis if "runner_control_cb_step False k = Next k'"
    using that
  proof (cases rule: runner_control_cb_stepE)
    case (take q rest)
    have "k_pc k runner_tid = Outside" using runner_idle_outside [OF k] take(1) by (simp add: idle_def)
    moreover have "k_sock0 k \<noteq> []" using take(3) by simp
    from holder_busy [OF k h busyI(3) [OF this]] obtain d dn where "k_pc k h = Waiting d" "under_way k (h, d) dn" by blast
    ultimately show ?thesis using take h by (auto simp: remaining_def under_way_def idle_def split: if_splits)
  next
    case (run q)
    obtain d dn where "k_pc k h = Waiting d" using holder_busy [OF k h busyI(1) [OF run(1)]] by blast
    with run h show ?thesis by (simp add: remaining_def)
  next
    case (reply q)
    obtain d dn where "k_pc k h = Waiting d" "under_way k (h, d) dn"
      using holder_busy [OF k h busyI(2) [OF reply(1)]] by blast
    with reply h show ?thesis by (auto simp: remaining_def under_way_def idle_def split: if_splits)
  qed
  from s caller runner show ?thesis by (auto simp: holder_step_def)
qed

lemma holder_keeps:
  assumes k: "control_ok k" and h: "k_mutex k = Some h" "\<not> stuck k h" and s: "control_step False k k'"
  shows "k_mutex k' = None \<or> k_mutex k' = Some h \<and> \<not> stuck k' h"
  using s
proof cases
  case (call th d)
  have "h \<noteq> th" using control_okD(1) [OF k, of th] call(2) h(1) by auto
  with call(1) h show ?thesis by (simp add: stuck_def)
next
  case (caller th)
  then show ?thesis
  proof (cases rule: runner_control_stepE)
    case (send d)
    have "th = h" using inside_holder [OF k h(1), of th] send(1) by simp
    with send h show ?thesis by (auto simp: stuck_def)
  next
    case (recv d reply rest)
    have "th = h" using inside_holder [OF k h(1), of th] recv(1) by simp
    with recv h show ?thesis by (simp add: stuck_def)
  next
    case (nested d)
    then obtain q where "k_runner k = Processing q" using control_okD(5) [OF k] by auto
    with nested h show ?thesis by (simp add: stuck_def)
  qed (use h in simp_all)
next
  case runner
  then show ?thesis by (cases rule: runner_control_cb_stepE) (use h in \<open>auto simp: stuck_def\<close>)
qed

text \<open>A step that is none of the holder and the runner: a thread calls, or tries to lock.\<close>

lemma other_step:
  assumes k: "control_ok k" and h: "k_mutex k = Some h" and s: "control_step False k k'"
  shows "holder_step h k k' \<or> k_mutex k' = Some h \<and> (remaining k' = remaining k \<or>
    k_pc k runner_tid = Outside \<and> k_pc k' runner_tid \<noteq> Outside \<and> remaining k' = Suc (remaining k))"
  using s
proof cases
  case (call th d)
  have "h \<noteq> th" using control_okD(1) [OF k, of th] call(2) h by auto
  with call h show ?thesis
    by (cases "th = runner_tid") (auto simp: remaining_def split: control_pc.split runner_pc.split)
next
  case (caller th)
  have "th \<in> {h, runner_tid}" using caller
    by (cases rule: runner_control_stepE) (use inside_holder [OF k h, of th] h in simp_all)
  with caller show ?thesis by (auto simp: holder_step_def)
next
  case runner
  then show ?thesis by (simp add: holder_step_def)
qed

text \<open>Once the holder is stuck, no call of any thread returns.\<close>

lemma stuck_step:
  assumes k: "control_ok k" and h: "k_mutex k = Some h" "stuck k h" and s: "control_step False k k'"
  shows "k_mutex k' = Some h \<and> stuck k' h \<and> k_returned k' = k_returned k"
  using s
proof cases
  case (call th d)
  have "h \<noteq> th" using control_okD(1) [OF k, of th] call(2) h(1) by auto
  with call(1) h show ?thesis by (simp add: stuck_def)
next
  case (caller th)
  have i: "k_pc k runner_tid = Outside" using runner_idle_outside [OF k] h by (simp add: stuck_def idle_def)
  note own = inside_holder [OF k h(1), of th]
  from caller show ?thesis
    by (cases rule: runner_control_stepE) (use own h i in \<open>simp_all add: stuck_def\<close>)
next
  case runner
  then show ?thesis by (cases rule: runner_control_cb_stepE) (use h in \<open>auto simp: stuck_def\<close>)
qed

lemma stuck_forever:
  assumes k: "control_ok k" and h: "k_mutex k = Some h" "stuck k h" and s: "(control_step False)\<^sup>*\<^sup>* k k'"
  shows "k_mutex k' = Some h \<and> stuck k' h \<and> k_returned k' = k_returned k"
proof -
  from s have "control_ok k' \<and> k_mutex k' = Some h \<and> stuck k' h \<and> k_returned k' = k_returned k"
  proof (induction rule: rtranclp_induct)
    case (step k1 k2)
    then show ?case using stuck_step [of k1 h k2] control_ok_step [of k1 k2] by simp
  qed (use k h in simp)
  then show ?thesis by simp
qed

section \<open>Properties of the control requests\<close>

text \<open>
  C29: As long as no socket call fails: the functions of the requests of a thread have run, each
  exactly once, in the order of its calls and in the thread of the runner, when the calls have
  returned; while a call is on its way its function has run once more at most; the reply a caller
  receives is the one to its own request; and a call returns with the argument it was made with.
\<close>

lemma control_exactly_once:
  assumes "control_reachable False k"
  shows "(\<forall>(self, q) \<in> set (k_run k). self = runner_tid) \<and>
    (case k_pc k th of
      Outside \<Rightarrow> run_of k th = k_returned k th
    | Calling d \<Rightarrow> run_of k th = k_returned k th
    | Locked d \<Rightarrow> run_of k th = k_returned k th
    | Waiting d \<Rightarrow> run_of k th = k_returned k th \<or> run_of k th = k_returned k th @ [d]
    | Received d reply \<Rightarrow> reply = Some (th, d) \<and> run_of k th = k_returned k th @ [d])"
proof (rule conjI)
  show "\<forall>(self, q) \<in> set (k_run k). self = runner_tid"
    using lock_ok_reachable [OF assms] by (auto simp: lock_ok_def)
qed (use control_okD(3) [OF control_ok_reachable [OF assms], of th] in
    \<open>auto simp: thread_ok_def split: control_pc.splits if_splits\<close>)

text \<open>
  C28: In every reachable state, whatever socket calls fail, a thread is between its lock and its
  unlock in t2u_runner_control exactly when it holds the mutex, so that at most one is, and every
  function of a request that has run has run in the thread of the runner. As long as no socket call
  has failed, at most one request or reply is on the control sockets or being processed, and no step
  of any thread has undefined behaviour.
\<close>

lemma control_mutual_exclusion:
  assumes "control_reachable faulty k"
  shows "(\<forall>th. inside (k_pc k th) \<longleftrightarrow> k_mutex k = Some th) \<and> k_mutex k \<noteq> Some runner_tid \<and>
    (\<forall>(self, q) \<in> set (k_run k). self = runner_tid) \<and>
    (\<not> faulty \<longrightarrow>
       length (k_sock0 k @ k_sock1 k) + (if idle (k_runner k) then 0 else 1) \<le> 1 \<and>
       (\<forall>th. runner_control_step False th k \<noteq> Undefined) \<and> runner_control_cb_step False k \<noteq> Undefined)"
proof -
  have "control_ok k" if "\<not> faulty" using control_ok_reachable assms that by simp
  then show ?thesis
    using lock_ok_reachable [OF assms] control_exclusive [of k] no_undefined_step [of k] by (auto simp: lock_ok_def)
qed

text \<open>
  C30: As long as no socket call fails, take the thread that holds the mutex. If the runner has
  ended, after delete_runner_cb_ has freed its event, and there is no reply for this thread, it
  waits for ever, and so does every other caller. Otherwise it is at most six steps of its own and
  of the runner from the unlock (each request that the function itself makes adds one), one of these
  steps is always possible, each of them brings the unlock nearer, and no step of another thread
  takes the mutex away or makes the holder wait for ever.
\<close>

lemma control_returns:
  assumes "control_reachable False k" "k_mutex k = Some h"
  shows "if stuck k h
    then \<forall>k'. (control_step False)\<^sup>*\<^sup>* k k' \<longrightarrow> k_mutex k' = Some h \<and> k_returned k' = k_returned k
    else remaining k \<le> 6 \<and> (\<exists>k'. holder_step h k k') \<and>
      (\<forall>k'. control_step False k k' \<longrightarrow>
         (k_mutex k' = None \<or> k_mutex k' = Some h \<and> \<not> stuck k' h) \<and>
         (if holder_step h k k' then remaining k' < remaining k
          else k_mutex k' = Some h \<and> (remaining k' = remaining k \<or>
            k_pc k runner_tid = Outside \<and> k_pc k' runner_tid \<noteq> Outside \<and> remaining k' = Suc (remaining k))))"
proof -
  note k = control_ok_reachable [OF assms(1)]
  show ?thesis
  proof (cases "stuck k h")
    case True
    show ?thesis
      unfolding if_P [OF True] by (intro allI impI) (drule stuck_forever [OF k assms(2) True], simp)
  next
    case False
    have "(k_mutex k' = None \<or> k_mutex k' = Some h \<and> \<not> stuck k' h) \<and>
      (if holder_step h k k' then remaining k' < remaining k
       else k_mutex k' = Some h \<and> (remaining k' = remaining k \<or>
         k_pc k runner_tid = Outside \<and> k_pc k' runner_tid \<noteq> Outside \<and> remaining k' = Suc (remaining k)))"
      if "control_step False k k'" for k'
      using holder_keeps [OF k assms(2) False that] holder_decreases [OF k assms(2), of k']
        other_step [OF k assms(2) that] by auto
    then show ?thesis
      unfolding if_not_P [OF False] using holder_progress [OF k assms(2) False] remaining_le [of k] by blast
  qed
qed

section \<open>Runs given by their steps\<close>

datatype move = Call thread control_data | Caller bool thread | Runner bool

fun move_faulty :: "move \<Rightarrow> bool" where
  "move_faulty (Call th d) = False"
| "move_faulty (Caller fault th) = fault"
| "move_faulty (Runner fault) = fault"

fun next_of :: "'a outcome \<Rightarrow> 'a option" where
  "next_of (Next x) = Some x"
| "next_of _ = None"

fun make_move :: "move \<Rightarrow> control \<Rightarrow> control option" where
  "make_move (Call th d) k =
     (if k_pc k th = Outside \<and> cd_func d \<noteq> Null_func \<and> th \<noteq> runner_tid
      then Some (k\<lparr>k_pc := (k_pc k)(th := Calling d)\<rparr>) else None)"
| "make_move (Caller fault th) k = next_of (runner_control_step fault th k)"
| "make_move (Runner fault) k = next_of (runner_control_cb_step fault k)"

fun make_moves :: "move list \<Rightarrow> control \<Rightarrow> control option" where
  "make_moves [] k = Some k"
| "make_moves (m # ms) k = Option.bind (make_move m k) (make_moves ms)"

lemma next_of_Some [simp]: "next_of x = Some y \<longleftrightarrow> x = Next y"
  by (cases x) auto

lemma make_move_step: "make_move m k = Some k' \<Longrightarrow> control_step (move_faulty m) k k'"
  by (cases m) (auto intro: control_step.intros split: if_splits)

lemma make_moves_reachable:
  "make_moves ms k = Some k' \<Longrightarrow> control_reachable faulty k \<Longrightarrow> \<forall>m \<in> set ms. move_faulty m \<longrightarrow> faulty \<Longrightarrow>
    control_reachable faulty k'"
  by (induction ms arbitrary: k)
    (auto simp: bind_Some_iff dest: make_move_step intro: control_reachable.step)

lemma make_moves_steps:
  "make_moves ms k = Some k' \<Longrightarrow> \<forall>m \<in> set ms. \<not> move_faulty m \<Longrightarrow> (control_step False)\<^sup>*\<^sup>* k k'"
proof (induction ms arbitrary: k)
  case (Cons m ms)
  from Cons.prems(1) obtain k1 where k1: "make_move m k = Some k1" "make_moves ms k1 = Some k'"
    by (auto simp: bind_Some_iff)
  from make_move_step [OF k1(1)] Cons.prems(2) have "control_step False k k1" by simp
  moreover have "(control_step False)\<^sup>*\<^sup>* k1 k'" using Cons.IH [OF k1(2)] Cons.prems(2) by simp
  ultimately show ?case by (rule converse_rtranclp_into_rtranclp)
qed simp

lemmas control_step_defs =
  runner_control_step_def runner_control_cb_step_def runner_control_process_def control_init_def

section \<open>After a failed call\<close>

text \<open>One \<open>recv\<close> fails after the function of the first request has run; its reply stays on the socket.\<close>

text \<open>
  C32: When a recv on the control socket fails after the request has been sent, the thread unlocks
  the mutex with its request still under way, and the reply stays on the socket: the next caller
  takes the reply of the first for its own, and returns with the argument of the other thread before
  its own function has run.
\<close>

lemma control_failed_recv:
  assumes th: "th1 \<noteq> th2" "th1 \<noteq> runner_tid" "th2 \<noteq> runner_tid"
    and d: "cd_func d1 = Func f1" "cd_func d2 = Func f2"
  shows "\<exists>k k'. control_reachable True k \<and> k_sock0 k = [(th2, d2)] \<and> k_sock1 k = [(th1, d1)] \<and>
    run_of k th2 = [] \<and> (control_step False)\<^sup>*\<^sup>* k k' \<and>
    k_pc k' th2 = Outside \<and> k_returned k' th2 = [d1] \<and> run_of k' th2 = []"
proof -
  let ?ms = "[Call th1 d1, Caller False th1, Caller False th1, Runner False, Runner False, Runner False,
    Caller True th1, Caller False th1, Call th2 d2, Caller False th2, Caller False th2]"
  let ?ms' = "[Caller False th2, Caller False th2]"
  obtain k where k: "make_moves ?ms control_init = Some k" "k_sock0 k = [(th2, d2)]" "k_sock1 k = [(th1, d1)]"
    "run_of k th2 = []" "k_pc k th2 = Waiting d2" "k_returned k th2 = []" 
    using th d by (auto simp: control_step_defs run_of_def)
  then obtain k' where k': "make_moves ?ms' k = Some k'" "k_pc k' th2 = Outside" "k_returned k' th2 = [d1]"
    "run_of k' th2 = []"
    using th d by (auto simp: control_step_defs run_of_def)
  have "control_reachable True k" by (rule make_moves_reachable [OF k(1) control_reachable.init]) simp
  moreover have "(control_step False)\<^sup>*\<^sup>* k k'" by (rule make_moves_steps [OF k'(1)]) simp
  ultimately show ?thesis using k(2-4) k'(2-4) by blast
qed

section \<open>Witnesses\<close>

text \<open>Thread 5 calls with argument 8, and thread 6 with argument 9 while thread 5 is in the section.\<close>

definition ex_request :: "nat \<Rightarrow> control_data" where
  "ex_request a = \<lparr>cd_func = Func 1, cd_arg = a\<rparr>"

definition ex_moves :: "move list" where
  "ex_moves = [Call 5 (ex_request 8), Caller False 5, Call 6 (ex_request 9), Caller False 5, Runner False, Runner False]"

definition ex_control :: control where
  "ex_control = the (make_moves ex_moves control_init)"

lemma ex_control_fields:
  "make_moves ex_moves control_init = Some ex_control \<and> k_pc ex_control 5 = Waiting (ex_request 8) \<and>
   k_pc ex_control 6 = Calling (ex_request 9) \<and> run_of ex_control 5 = [ex_request 8] \<and> run_of ex_control 6 = [] \<and>
   k_mutex ex_control = Some 5 \<and> k_runner ex_control = Replying (5, ex_request 8) \<and> k_sock0 ex_control = []"
  by (simp add: ex_control_def ex_moves_def control_step_defs ex_request_def runner_tid_def run_of_def)

lemma ex_control_reachable: "control_reachable False ex_control"
  by (rule make_moves_reachable [OF conjunct1 [OF ex_control_fields] control_reachable.init]) (simp add: ex_moves_def)

lemma control_exactly_once_witness:
  "k_pc ex_control 5 = Waiting (ex_request 8) \<and> k_returned ex_control 5 = [] \<and>
   run_of ex_control 5 = [ex_request 8] \<and> map fst (k_run ex_control) = [runner_tid]"
proof -
  obtain self where k: "k_run ex_control = [(self, 5, ex_request 8)]" "k_returned ex_control 5 = []"
    by (simp add: ex_control_def ex_moves_def control_step_defs ex_request_def runner_tid_def)
  with control_exactly_once [OF ex_control_reachable, of 5] ex_control_fields show ?thesis by simp
qed

lemma control_mutual_exclusion_witness:
  "inside (k_pc ex_control 5) \<and> k_mutex ex_control = Some 5 \<and> (\<forall>th. inside (k_pc ex_control th) \<longleftrightarrow> Some 5 = Some th)"
  using control_mutual_exclusion [OF ex_control_reachable] ex_control_fields by simp

lemma control_returns_witness:
  "\<not> stuck ex_control 5 \<and> remaining ex_control \<le> 6 \<and> (\<exists>k'. holder_step 5 ex_control k')"
  using control_returns [OF ex_control_reachable, of 5] ex_control_fields by (simp add: stuck_def)

lemma control_failed_recv_witness:
  "\<exists>k'. k_pc k' 6 = Outside \<and> k_returned k' 6 = [ex_request 8] \<and> run_of k' 6 = []"
  using control_failed_recv [of 5 6 "ex_request 8" 1 "ex_request 9" 1] by (auto simp: runner_tid_def ex_request_def)

text \<open>A call that is made after the runner has ended, while its caller has not yet freed the runner.\<close>

lemma stuck_reached:
  "\<exists>k. control_reachable False k \<and> k_mutex k = Some 6 \<and> stuck k 6"
proof -
  let ?d = "\<lparr>cd_func = Delete_runner_cb, cd_arg = 0\<rparr>"
  let ?ms = "[Call 5 ?d, Caller False 5, Caller False 5, Runner False, Runner False, Runner False,
    Caller False 5, Caller False 5, Call 6 (ex_request 9), Caller False 6, Caller False 6]"
  obtain k where k: "make_moves ?ms control_init = Some k" "k_mutex k = Some 6" "stuck k 6"
    by (auto simp: control_step_defs ex_request_def runner_tid_def stuck_def)
  have "control_reachable False k" by (rule make_moves_reachable [OF k(1) control_reachable.init]) simp
  with k(2,3) show ?thesis by blast
qed

end
