(* ===== verification/T2u_Start.thy ===== *)
theory T2u_Start
  imports T2u_Prelude
begin

text \<open>
  The start of the runner's thread: the end of \<open>t2u_runner_new\<close> in the creating thread and the
  beginning of \<open>t2u_runner_loop_\<close> in the new one (src/t2u_runner.c), with the mutex and the condition
  variable of the runner as POSIX describes them. A wait releases the mutex and goes to sleep in one
  step; a signal wakes a sleeping thread, which has to take the mutex again, and is lost when no thread
  sleeps. A thread may also wake up without a signal.
\<close>

section \<open>State\<close>

datatype side = Creator | Runner

datatype creator_pc = C_lock | C_create | C_wait | C_sleep | C_wake | C_unlock | C_return

datatype loop_pc = R_absent | R_begin | R_lock | R_signal | R_unlock | R_dispatch

record start =
  st_mutex :: "side option"
  st_creator :: creator_pc
  st_loop :: loop_pc
  st_tid :: bool

text \<open>\<open>st_tid\<close>: whether \<open>tid_\<close> has been set.\<close>

definition start_init :: start where
  "start_init = \<lparr>st_mutex = None, st_creator = C_lock, st_loop = R_absent, st_tid = False\<rparr>"

section \<open>Steps\<close>

definition runner_new_step :: "start \<Rightarrow> start option" where
  "runner_new_step k =
     (case st_creator k of
        C_lock \<Rightarrow>
          if st_mutex k = None then Some (k\<lparr>st_mutex := Some Creator, st_creator := C_create\<rparr>) else None
      | C_create \<Rightarrow> Some (k\<lparr>st_loop := R_begin, st_creator := C_wait\<rparr>)
      | C_wait \<Rightarrow> Some (k\<lparr>st_mutex := None, st_creator := C_sleep\<rparr>)
      | C_sleep \<Rightarrow> None
      | C_wake \<Rightarrow>
          if st_mutex k = None then Some (k\<lparr>st_mutex := Some Creator, st_creator := C_unlock\<rparr>) else None
      | C_unlock \<Rightarrow> Some (k\<lparr>st_mutex := None, st_creator := C_return\<rparr>)
      | C_return \<Rightarrow> None)"

definition runner_loop_step :: "start \<Rightarrow> start option" where
  "runner_loop_step k =
     (case st_loop k of
        R_absent \<Rightarrow> None
      | R_begin \<Rightarrow> Some (k\<lparr>st_tid := True, st_loop := R_lock\<rparr>)
      | R_lock \<Rightarrow>
          if st_mutex k = None then Some (k\<lparr>st_mutex := Some Runner, st_loop := R_signal\<rparr>) else None
      | R_signal \<Rightarrow>
          Some (k\<lparr>st_creator := (if st_creator k = C_sleep then C_wake else st_creator k), st_loop := R_unlock\<rparr>)
      | R_unlock \<Rightarrow> Some (k\<lparr>st_mutex := None, st_loop := R_dispatch\<rparr>)
      | R_dispatch \<Rightarrow> None)"

inductive start_step :: "start \<Rightarrow> start \<Rightarrow> bool" where
  creator: "runner_new_step k = Some k' \<Longrightarrow> start_step k k'"
| loop: "runner_loop_step k = Some k' \<Longrightarrow> start_step k k'"

inductive spurious_step :: "start \<Rightarrow> start \<Rightarrow> bool" where
  wakeup: "st_creator k = C_sleep \<Longrightarrow> spurious_step k (k\<lparr>st_creator := C_wake\<rparr>)"

section \<open>The invariant\<close>

text \<open>\<open>signalled\<close>: the runner has passed its signal.\<close>

definition signalled :: "start \<Rightarrow> bool" where
  "signalled k \<longleftrightarrow> st_loop k \<in> {R_unlock, R_dispatch}"

definition start_ok :: "start \<Rightarrow> bool" where
  "start_ok k \<longleftrightarrow>
     (st_mutex k = Some Creator \<longleftrightarrow> st_creator k \<in> {C_create, C_wait, C_unlock}) \<and>
     (st_mutex k = Some Runner \<longleftrightarrow> st_loop k \<in> {R_signal, R_unlock}) \<and>
     (st_loop k = R_absent \<longleftrightarrow> st_creator k \<in> {C_lock, C_create}) \<and>
     (st_tid k \<longleftrightarrow> st_loop k \<notin> {R_absent, R_begin}) \<and>
     (signalled k \<longrightarrow> st_creator k \<in> {C_wake, C_unlock, C_return})"

definition awake_only_if_signalled :: "start \<Rightarrow> bool" where
  "awake_only_if_signalled k \<longleftrightarrow> (st_creator k \<in> {C_wake, C_unlock, C_return} \<longrightarrow> signalled k)"

lemmas start_defs = start_ok_def signalled_def awake_only_if_signalled_def

lemma start_ok_init: "start_ok start_init" "awake_only_if_signalled start_init"
  by (simp_all add: start_defs start_init_def)

lemma start_ok_step:
  assumes "start_step k k'" "start_ok k"
  shows "start_ok k' \<and> (awake_only_if_signalled k \<longrightarrow> awake_only_if_signalled k')"
  using assms
proof cases
  case creator
  with assms(2) show ?thesis
    by (cases "st_creator k") (auto simp: runner_new_step_def start_defs split: if_splits)
next
  case loop
  with assms(2) show ?thesis
    by (cases "st_loop k"; cases "st_creator k") (auto simp: runner_loop_step_def start_defs split: if_splits)
qed

lemma start_ok_spurious: "spurious_step k k' \<Longrightarrow> start_ok k \<Longrightarrow> start_ok k'"
  by (induction rule: spurious_step.induct) (simp add: start_defs)

lemma start_ok_run: "start_step\<^sup>*\<^sup>* k k' \<Longrightarrow> start_ok k \<Longrightarrow> awake_only_if_signalled k \<Longrightarrow> start_ok k' \<and> awake_only_if_signalled k'"
  by (induction rule: rtranclp_induct) (auto dest: start_ok_step)

lemma start_ok_any_run: "(sup start_step spurious_step)\<^sup>*\<^sup>* k k' \<Longrightarrow> start_ok k \<Longrightarrow> start_ok k'"
  by (induction rule: rtranclp_induct) (auto dest: start_ok_step start_ok_spurious)

text \<open>Every step brings one of the two threads closer to its end.\<close>

primrec creator_left :: "creator_pc \<Rightarrow> nat" where
  "creator_left C_lock = 6"
| "creator_left C_create = 5"
| "creator_left C_wait = 4"
| "creator_left C_sleep = 3"
| "creator_left C_wake = 2"
| "creator_left C_unlock = 1"
| "creator_left C_return = 0"

primrec loop_left :: "loop_pc \<Rightarrow> nat" where
  "loop_left R_absent = 5"
| "loop_left R_begin = 4"
| "loop_left R_lock = 3"
| "loop_left R_signal = 2"
| "loop_left R_unlock = 1"
| "loop_left R_dispatch = 0"

definition start_left :: "start \<Rightarrow> nat" where
  "start_left k = creator_left (st_creator k) + loop_left (st_loop k)"

lemma start_step_left:
  assumes "start_step k k'" "start_ok k"
  shows "start_left k' < start_left k"
  using assms
proof cases
  case creator
  with assms(2) show ?thesis
    by (cases "st_creator k") (auto simp: runner_new_step_def start_defs start_left_def split: if_splits)
next
  case loop
  with assms(2) show ?thesis
    by (cases "st_loop k") (auto simp: runner_loop_step_def start_left_def split: if_splits)
qed

lemma start_progress:
  assumes "start_ok k" "\<not> (st_creator k = C_return \<and> st_loop k = R_dispatch)"
  shows "\<exists>k'. start_step k k'"
proof (rule ccontr)
  assume "\<nexists>k'. start_step k k'"
  then have "runner_new_step k = None" "runner_loop_step k = None"
    by (metis creator loop not_None_eq)+
  with assms show False
    by (cases "st_creator k"; cases "st_loop k"; cases "st_mutex k"; cases "the (st_mutex k)")
      (auto simp: runner_new_step_def runner_loop_step_def start_defs)
qed

section \<open>Properties of the start\<close>

text \<open>From every state of a run, spurious wakeups included, the start can be, and is, completed.\<close>

lemma start_finishes:
  assumes "start_ok k"
  shows "\<exists>k'. start_step\<^sup>*\<^sup>* k k' \<and> st_creator k' = C_return \<and> st_loop k' = R_dispatch \<and> st_tid k' \<and> st_mutex k' = None"
  using assms
proof (induction "start_left k" arbitrary: k rule: less_induct)
  case less
  show ?case
  proof (cases "st_creator k = C_return \<and> st_loop k = R_dispatch")
    case True
    with less.prems have "st_tid k" "st_mutex k \<noteq> Some Creator" "st_mutex k \<noteq> Some Runner" by (auto simp: start_ok_def)
    with True show ?thesis by (metis not_None_eq rtranclp.rtrancl_refl side.exhaust)
  next
    case False
    from start_progress [OF less.prems False] obtain k1 where k1: "start_step k k1" by blast
    from start_ok_step [OF k1 less.prems] have "start_ok k1" by blast
    from less.hyps [OF start_step_left [OF k1 less.prems] this] k1
    show ?thesis by (meson converse_rtranclp_into_rtranclp)
  qed
qed

text \<open>
  C31: However the creating thread and the new thread of a runner interleave, and wake up, both can
  complete the start and do: the signal of the new thread is not lost, because the creator holds the
  mutex until it waits.
\<close>

lemma start_completes:
  assumes "(sup start_step spurious_step)\<^sup>*\<^sup>* start_init k"
  shows "\<exists>k'. start_step\<^sup>*\<^sup>* k k' \<and> st_creator k' = C_return \<and> st_loop k' = R_dispatch \<and> st_tid k' \<and> st_mutex k' = None"
  by (rule start_finishes [OF start_ok_any_run [OF assms start_ok_init(1)]])

lemma start_completes_witness:
  "\<exists>k'. start_step\<^sup>*\<^sup>* start_init k' \<and> st_creator k' = C_return \<and> st_loop k' = R_dispatch"
  using start_completes [of start_init] by blast

text \<open>Without spurious wakeups the creator returns only after the runner's thread is known.\<close>

lemma start_tid_known:
  assumes "start_step\<^sup>*\<^sup>* start_init k" "st_creator k = C_return"
  shows "st_tid k"
  using start_ok_run [OF assms(1) start_ok_init] assms(2) by (auto simp: start_defs)

lemma start_tid_known_witness: "\<exists>k. start_step\<^sup>*\<^sup>* start_init k \<and> st_creator k = C_return \<and> st_tid k"
  using start_finishes [OF start_ok_init(1)] start_tid_known by blast

text \<open>With one, it may return before: the wait is not repeated until a condition holds.\<close>

lemma start_spurious_return:
  "\<exists>k. (sup start_step spurious_step)\<^sup>*\<^sup>* start_init k \<and> st_creator k = C_return \<and> \<not> st_tid k"
proof -
  let ?R = "(sup start_step spurious_step)\<^sup>*\<^sup>*"
  have new: "?R start_init k'" if "?R start_init k" "runner_new_step k = Some k'" for k k'
    using that by (auto intro: rtranclp.rtrancl_into_rtrancl start_step.creator)
  have "?R start_init \<lparr>st_mutex = Some Creator, st_creator = C_create, st_loop = R_absent, st_tid = False\<rparr>"
    by (rule new [OF rtranclp.rtrancl_refl]) (simp add: runner_new_step_def start_init_def)
  then have "?R start_init \<lparr>st_mutex = Some Creator, st_creator = C_wait, st_loop = R_begin, st_tid = False\<rparr>"
    by (rule new) (simp add: runner_new_step_def)
  then have "?R start_init \<lparr>st_mutex = None, st_creator = C_sleep, st_loop = R_begin, st_tid = False\<rparr>"
    by (rule new) (simp add: runner_new_step_def)
  then have "?R start_init \<lparr>st_mutex = None, st_creator = C_wake, st_loop = R_begin, st_tid = False\<rparr>"
    by (rule rtranclp.rtrancl_into_rtrancl)
      (use spurious_step.wakeup [of "\<lparr>st_mutex = None, st_creator = C_sleep, st_loop = R_begin, st_tid = False\<rparr>"] in simp)
  then have "?R start_init \<lparr>st_mutex = Some Creator, st_creator = C_unlock, st_loop = R_begin, st_tid = False\<rparr>"
    by (rule new) (simp add: runner_new_step_def)
  then have "?R start_init \<lparr>st_mutex = None, st_creator = C_return, st_loop = R_begin, st_tid = False\<rparr>"
    by (rule new) (simp add: runner_new_step_def)
  then show ?thesis by force
qed

end
