(* ===== verification/Bsd_Rbtree.thy ===== *)
theory Bsd_Rbtree
  imports Rbtree_Correct
begin

text \<open>
  The red-black tree macros of src/c/libevent2/include/tree.h. \<open>RB_GENERATE(name, type, field, cmp)\<close>
  defines functions on elements of a structure \<open>type\<close> that contains the links; \<open>RB_AUGMENT\<close> is empty.
  An element is a node of \<open>Rbtree\<close>: its fields \<open>rbe_left\<close>, \<open>rbe_right\<close>, \<open>rbe_parent\<close> and \<open>rbe_color\<close> are
  \<open>rb_left\<close>, \<open>rb_right\<close>, \<open>rb_parent\<close> and \<open>rb_color\<close>, and the rest of the structure is \<open>rb_key\<close> and \<open>rb_data\<close>.
  The head is the tree record, with \<open>rbh_root\<close> as \<open>rb_root\<close>; \<open>cmp\<close> compares the keys by \<open>rb_compare\<close>.
  Elements belong to the caller: no function allocates or frees one.
\<close>

section \<open>Elements\<close>

definition RB_INIT :: "('k, 'd) rbtree \<Rightarrow> ('k, 'd) rbtree" where
  "RB_INIT t = t\<lparr>rb_root := NULL\<rparr>"

definition RB_EMPTY :: "('k, 'd) rbtree \<Rightarrow> bool" where
  "RB_EMPTY t \<longleftrightarrow> rb_root t = NULL"

definition RB_SET :: "ptr \<Rightarrow> ptr \<Rightarrow> ('k, 'd) rbtree \<Rightarrow> ('k, 'd) rbtree option" where
  "RB_SET elm parent t = do {
     t \<leftarrow> set_parent parent elm t;
     t \<leftarrow> set_right NULL elm t;
     t \<leftarrow> set_left NULL elm t;
     set_color RB_RED elm t }"

definition RB_SET_BLACKRED :: "ptr \<Rightarrow> ptr \<Rightarrow> ('k, 'd) rbtree \<Rightarrow> ('k, 'd) rbtree option" where
  "RB_SET_BLACKRED black red t = do {
     t \<leftarrow> set_color RB_BLACK black t;
     set_color RB_RED red t }"

text \<open>\<open>cmp\<close> on two elements.\<close>

definition elm_cmp :: "('k, 'd) rbtree \<Rightarrow> ptr \<Rightarrow> ptr \<Rightarrow> int option" where
  "elm_cmp t a b = do {
     an \<leftarrow> deref t a;
     bn \<leftarrow> deref t b;
     Some (rb_compare t (rb_key an) (rb_key bn)) }"

section \<open>Rotations\<close>

text \<open>\<open>tmp\<close> in the place of \<open>elm\<close> below the parent of \<open>elm\<close>, or at the root.\<close>

definition replace_child :: "ptr \<Rightarrow> ptr \<Rightarrow> ptr \<Rightarrow> ('k, 'd) rbtree \<Rightarrow> ('k, 'd) rbtree option" where
  "replace_child parent elm tmp t =
     (if parent \<noteq> NULL then do {
        pn \<leftarrow> deref t parent;
        if elm = rb_left pn then set_left tmp parent t else set_right tmp parent t }
      else Some (t\<lparr>rb_root := tmp\<rparr>))"

text \<open>The rotations also give the value that the macro leaves in its argument \<open>tmp\<close>.\<close>

definition RB_ROTATE_LEFT :: "ptr \<Rightarrow> ('k, 'd) rbtree \<Rightarrow> (ptr \<times> ('k, 'd) rbtree) option" where
  "RB_ROTATE_LEFT elm t = do {
     en \<leftarrow> deref t elm;
     let tmp = rb_right en;
     tn \<leftarrow> deref t tmp;
     t \<leftarrow> set_right (rb_left tn) elm t;
     t \<leftarrow> (if rb_left tn \<noteq> NULL then set_parent elm (rb_left tn) t else Some t);
     en \<leftarrow> deref t elm;
     t \<leftarrow> set_parent (rb_parent en) tmp t;
     t \<leftarrow> replace_child (rb_parent en) elm tmp t;
     t \<leftarrow> set_left elm tmp t;
     t \<leftarrow> set_parent tmp elm t;
     Some (tmp, t) }"

definition RB_ROTATE_RIGHT :: "ptr \<Rightarrow> ('k, 'd) rbtree \<Rightarrow> (ptr \<times> ('k, 'd) rbtree) option" where
  "RB_ROTATE_RIGHT elm t = do {
     en \<leftarrow> deref t elm;
     let tmp = rb_left en;
     tn \<leftarrow> deref t tmp;
     t \<leftarrow> set_left (rb_right tn) elm t;
     t \<leftarrow> (if rb_right tn \<noteq> NULL then set_parent elm (rb_right tn) t else Some t);
     en \<leftarrow> deref t elm;
     t \<leftarrow> set_parent (rb_parent en) tmp t;
     t \<leftarrow> replace_child (rb_parent en) elm tmp t;
     t \<leftarrow> set_right elm tmp t;
     t \<leftarrow> set_parent tmp elm t;
     Some (tmp, t) }"

section \<open>Insertion\<close>

text \<open>\<open>get_color\<close> takes NULL for black: \<open>tmp && RB_COLOR(tmp) == RB_RED\<close> says that it is red.\<close>

partial_function (option) RB_INSERT_COLOR :: "ptr \<Rightarrow> ('k, 'd) rbtree \<Rightarrow> ('k, 'd) rbtree option" where
  "RB_INSERT_COLOR elm t = do {
     parent \<leftarrow> get_parent t elm;
     pc \<leftarrow> get_color t parent;
     if parent = NULL \<or> pc \<noteq> RB_RED then set_color RB_BLACK (rb_root t) t
     else do {
       pn \<leftarrow> deref t parent;
       let gparent = rb_parent pn;
       gn \<leftarrow> deref t gparent;
       if parent = rb_left gn then do {
         let tmp = rb_right gn;
         tc \<leftarrow> get_color t tmp;
         if tc = RB_RED then do {
           t \<leftarrow> set_color RB_BLACK tmp t;
           t \<leftarrow> RB_SET_BLACKRED parent gparent t;
           RB_INSERT_COLOR gparent t }
         else do {
           (parent, elm, t) \<leftarrow>
             (if rb_right pn = elm then do {
                (tmp, t) \<leftarrow> RB_ROTATE_LEFT parent t;
                Some (elm, parent, t) }
              else Some (parent, elm, t));
           t \<leftarrow> RB_SET_BLACKRED parent gparent t;
           (tmp, t) \<leftarrow> RB_ROTATE_RIGHT gparent t;
           RB_INSERT_COLOR elm t } }
       else do {
         let tmp = rb_left gn;
         tc \<leftarrow> get_color t tmp;
         if tc = RB_RED then do {
           t \<leftarrow> set_color RB_BLACK tmp t;
           t \<leftarrow> RB_SET_BLACKRED parent gparent t;
           RB_INSERT_COLOR gparent t }
         else do {
           (parent, elm, t) \<leftarrow>
             (if rb_left pn = elm then do {
                (tmp, t) \<leftarrow> RB_ROTATE_RIGHT parent t;
                Some (elm, parent, t) }
              else Some (parent, elm, t));
           t \<leftarrow> RB_SET_BLACKRED parent gparent t;
           (tmp, t) \<leftarrow> RB_ROTATE_LEFT gparent t;
           RB_INSERT_COLOR elm t } } } }"

text \<open>The loop of \<open>RB_INSERT\<close>: the element found or NULL, its parent and the last comparison.\<close>

partial_function (option) rb_insert_walk ::
  "('k, 'd) rbtree \<Rightarrow> ptr \<Rightarrow> ptr \<Rightarrow> ptr \<Rightarrow> int \<Rightarrow> (ptr \<times> ptr \<times> int) option" where
  "rb_insert_walk t elm tmp parent cm =
     (if tmp = NULL then Some (NULL, parent, cm)
      else do {
        tn \<leftarrow> deref t tmp;
        cm \<leftarrow> elm_cmp t elm tmp;
        if cm < 0 then rb_insert_walk t elm (rb_left tn) tmp cm
        else if cm > 0 then rb_insert_walk t elm (rb_right tn) tmp cm
        else Some (tmp, tmp, cm) })"

definition RB_INSERT :: "ptr \<Rightarrow> ('k, 'd) rbtree \<Rightarrow> (ptr \<times> ('k, 'd) rbtree) option" where
  "RB_INSERT elm t = do {
     (tmp, parent, cm) \<leftarrow> rb_insert_walk t elm (rb_root t) NULL 0;
     if tmp \<noteq> NULL then Some (tmp, t)
     else do {
       t \<leftarrow> RB_SET elm parent t;
       t \<leftarrow> (if parent \<noteq> NULL
             then if cm < 0 then set_left elm parent t else set_right elm parent t
             else Some (t\<lparr>rb_root := elm\<rparr>));
       t \<leftarrow> RB_INSERT_COLOR elm t;
       Some (NULL, t) } }"

section \<open>Removal\<close>

text \<open>What follows the loop of \<open>RB_REMOVE_COLOR\<close>.\<close>

definition rb_paint_black :: "ptr \<Rightarrow> ('k, 'd) rbtree \<Rightarrow> ('k, 'd) rbtree option" where
  "rb_paint_black elm t = (if elm \<noteq> NULL then set_color RB_BLACK elm t else Some t)"

text \<open>
  The parts of the loop's body that do not go round again, each with its mirror image. First, a red
  sibling is rotated away; the result is the new sibling \<open>tmp\<close>.
\<close>

definition rb_sibling_left :: "ptr \<Rightarrow> ptr \<Rightarrow> ('k, 'd) rbtree \<Rightarrow> (ptr \<times> ('k, 'd) rbtree) option" where
  "rb_sibling_left parent tmp t = do {
     tn \<leftarrow> deref t tmp;
     if rb_color tn = RB_RED then do {
       t \<leftarrow> RB_SET_BLACKRED tmp parent t;
       (tmp, t) \<leftarrow> RB_ROTATE_LEFT parent t;
       pn \<leftarrow> deref t parent;
       Some (rb_right pn, t) }
     else Some (tmp, t) }"

definition rb_sibling_right :: "ptr \<Rightarrow> ptr \<Rightarrow> ('k, 'd) rbtree \<Rightarrow> (ptr \<times> ('k, 'd) rbtree) option" where
  "rb_sibling_right parent tmp t = do {
     tn \<leftarrow> deref t tmp;
     if rb_color tn = RB_RED then do {
       t \<leftarrow> RB_SET_BLACKRED tmp parent t;
       (tmp, t) \<leftarrow> RB_ROTATE_RIGHT parent t;
       pn \<leftarrow> deref t parent;
       Some (rb_left pn, t) }
     else Some (tmp, t) }"

text \<open>Then, a black sibling with a red child gives a node to the other side.\<close>

definition rb_borrow_left :: "ptr \<Rightarrow> ptr \<Rightarrow> ('k, 'd) rbtree \<Rightarrow> ('k, 'd) rbtree option" where
  "rb_borrow_left parent tmp t = do {
     tn \<leftarrow> deref t tmp;
     rc \<leftarrow> get_color t (rb_right tn);
     (tmp, t) \<leftarrow>
       (if rc = RB_BLACK then do {
          let oleft = rb_left tn;
          t \<leftarrow> rb_paint_black oleft t;
          t \<leftarrow> set_color RB_RED tmp t;
          (oleft, t) \<leftarrow> RB_ROTATE_RIGHT tmp t;
          pn \<leftarrow> deref t parent;
          Some (rb_right pn, t) }
        else Some (tmp, t));
     pn \<leftarrow> deref t parent;
     t \<leftarrow> set_color (rb_color pn) tmp t;
     t \<leftarrow> set_color RB_BLACK parent t;
     tn \<leftarrow> deref t tmp;
     t \<leftarrow> rb_paint_black (rb_right tn) t;
     (tmp, t) \<leftarrow> RB_ROTATE_LEFT parent t;
     Some t }"

definition rb_borrow_right :: "ptr \<Rightarrow> ptr \<Rightarrow> ('k, 'd) rbtree \<Rightarrow> ('k, 'd) rbtree option" where
  "rb_borrow_right parent tmp t = do {
     tn \<leftarrow> deref t tmp;
     lc \<leftarrow> get_color t (rb_left tn);
     (tmp, t) \<leftarrow>
       (if lc = RB_BLACK then do {
          let oright = rb_right tn;
          t \<leftarrow> rb_paint_black oright t;
          t \<leftarrow> set_color RB_RED tmp t;
          (oright, t) \<leftarrow> RB_ROTATE_LEFT tmp t;
          pn \<leftarrow> deref t parent;
          Some (rb_left pn, t) }
        else Some (tmp, t));
     pn \<leftarrow> deref t parent;
     t \<leftarrow> set_color (rb_color pn) tmp t;
     t \<leftarrow> set_color RB_BLACK parent t;
     tn \<leftarrow> deref t tmp;
     t \<leftarrow> rb_paint_black (rb_left tn) t;
     (tmp, t) \<leftarrow> RB_ROTATE_RIGHT parent t;
     Some t }"

text \<open>The condition on the children of the sibling.\<close>

definition rb_black_children :: "('k, 'd) rbtree \<Rightarrow> ptr \<Rightarrow> bool option" where
  "rb_black_children t tmp = do {
     tn \<leftarrow> deref t tmp;
     lc \<leftarrow> get_color t (rb_left tn);
     rc \<leftarrow> get_color t (rb_right tn);
     Some (lc = RB_BLACK \<and> rc = RB_BLACK) }"

partial_function (option) RB_REMOVE_COLOR ::
  "ptr \<Rightarrow> ptr \<Rightarrow> ('k, 'd) rbtree \<Rightarrow> ('k, 'd) rbtree option" where
  "RB_REMOVE_COLOR parent elm t = do {
     ec \<leftarrow> get_color t elm;
     if ec = RB_BLACK \<and> elm \<noteq> rb_root t then do {
       pn \<leftarrow> deref t parent;
       if rb_left pn = elm then do {
         (tmp, t) \<leftarrow> rb_sibling_left parent (rb_right pn) t;
         black \<leftarrow> rb_black_children t tmp;
         if black then do {
           t \<leftarrow> set_color RB_RED tmp t;
           p \<leftarrow> get_parent t parent;
           RB_REMOVE_COLOR p parent t }
         else do {
           t \<leftarrow> rb_borrow_left parent tmp t;
           rb_paint_black (rb_root t) t } }
       else do {
         (tmp, t) \<leftarrow> rb_sibling_right parent (rb_left pn) t;
         black \<leftarrow> rb_black_children t tmp;
         if black then do {
           t \<leftarrow> set_color RB_RED tmp t;
           p \<leftarrow> get_parent t parent;
           RB_REMOVE_COLOR p parent t }
         else do {
           t \<leftarrow> rb_borrow_right parent tmp t;
           rb_paint_black (rb_root t) t } } }
     else rb_paint_black elm t }"

text \<open>The unlinking of \<open>elm\<close>, which has at most the child \<open>child\<close>: both copies in \<open>RB_REMOVE\<close>.\<close>

definition rb_unlink :: "ptr \<Rightarrow> ptr \<Rightarrow> ptr \<Rightarrow> ('k, 'd) rbtree \<Rightarrow> ('k, 'd) rbtree option" where
  "rb_unlink elm child parent t = do {
     t \<leftarrow> (if child \<noteq> NULL then set_parent parent child t else Some t);
     replace_child parent elm child t }"

text \<open>\<open>(elm)->field = (old)->field\<close>\<close>

definition rb_copy_field :: "ptr \<Rightarrow> ('k, 'd) rbtree_node \<Rightarrow> ('k, 'd) rbtree \<Rightarrow> ('k, 'd) rbtree option" where
  "rb_copy_field elm on t =
     upd_node (\<lambda>n. n\<lparr>rb_parent := rb_parent on, rb_left := rb_left on, rb_right := rb_right on,
       rb_color := rb_color on\<rparr>) elm t"

text \<open>
  An element with two children gives its place to the leftmost element below its right child, found
  by a loop that is \<open>get_min\<close>. The result is the removed element.
\<close>

definition RB_REMOVE :: "ptr \<Rightarrow> ('k, 'd) rbtree \<Rightarrow> (ptr \<times> ('k, 'd) rbtree) option" where
  "RB_REMOVE elm t = do {
     let old = elm;
     en \<leftarrow> deref t elm;
     (child, parent, color, t) \<leftarrow>
       (if rb_left en \<noteq> NULL \<and> rb_right en \<noteq> NULL then do {
          elm \<leftarrow> get_min t (rb_right en);
          mn \<leftarrow> deref t elm;
          let child = rb_right mn;
          let parent = rb_parent mn;
          let color = rb_color mn;
          t \<leftarrow> rb_unlink elm child parent t;
          mn \<leftarrow> deref t elm;
          let parent = (if rb_parent mn = old then elm else parent);
          on \<leftarrow> deref t old;
          t \<leftarrow> rb_copy_field elm on t;
          t \<leftarrow> replace_child (rb_parent on) old elm t;
          on \<leftarrow> deref t old;
          t \<leftarrow> set_parent elm (rb_left on) t;
          t \<leftarrow> (if rb_right on \<noteq> NULL then set_parent elm (rb_right on) t else Some t);
          Some (child, parent, color, t) }
        else do {
          let child = (if rb_left en = NULL then rb_right en else rb_left en);
          let parent = rb_parent en;
          let color = rb_color en;
          t \<leftarrow> rb_unlink elm child parent t;
          Some (child, parent, color, t) });
     t \<leftarrow> (if color = RB_BLACK then RB_REMOVE_COLOR parent child t else Some t);
     Some (old, t) }"

section \<open>Search and iteration\<close>

partial_function (option) rb_find_walk :: "('k, 'd) rbtree \<Rightarrow> ptr \<Rightarrow> ptr \<Rightarrow> ptr option" where
  "rb_find_walk t elm tmp =
     (if tmp = NULL then Some NULL
      else do {
        tn \<leftarrow> deref t tmp;
        cm \<leftarrow> elm_cmp t elm tmp;
        if cm < 0 then rb_find_walk t elm (rb_left tn)
        else if cm > 0 then rb_find_walk t elm (rb_right tn)
        else Some tmp })"

definition RB_FIND :: "ptr \<Rightarrow> ('k, 'd) rbtree \<Rightarrow> ptr option" where
  "RB_FIND elm t = rb_find_walk t elm (rb_root t)"

text \<open>The climb of \<open>RB_NEXT\<close> while the element is a right child; the result is its parent.\<close>

partial_function (option) rb_next_climb :: "('k, 'd) rbtree \<Rightarrow> ptr \<Rightarrow> ptr option" where
  "rb_next_climb t elm = do {
     parent \<leftarrow> get_parent t elm;
     if parent = NULL then Some parent
     else do {
       pn \<leftarrow> deref t parent;
       if elm = rb_right pn then rb_next_climb t parent else Some parent } }"

definition RB_NEXT :: "ptr \<Rightarrow> ('k, 'd) rbtree \<Rightarrow> ptr option" where
  "RB_NEXT elm t = do {
     en \<leftarrow> deref t elm;
     if rb_right en \<noteq> NULL then get_min t (rb_right en)
     else if rb_parent en \<noteq> NULL then do {
       pn \<leftarrow> deref t (rb_parent en);
       if elm = rb_left pn then Some (rb_parent en) else rb_next_climb t elm }
     else rb_next_climb t elm }"

partial_function (option) rb_minmax_walk :: "('k, 'd) rbtree \<Rightarrow> int \<Rightarrow> ptr \<Rightarrow> ptr \<Rightarrow> ptr option" where
  "rb_minmax_walk t val tmp parent =
     (if tmp = NULL then Some parent
      else do {
        tn \<leftarrow> deref t tmp;
        if val < 0 then rb_minmax_walk t val (rb_left tn) tmp
        else rb_minmax_walk t val (rb_right tn) tmp })"

definition RB_MINMAX :: "int \<Rightarrow> ('k, 'd) rbtree \<Rightarrow> ptr option" where
  "RB_MINMAX val t = rb_minmax_walk t val (rb_root t) NULL"

definition RB_NEGINF :: int where "RB_NEGINF = - 1"
definition RB_INF :: int where "RB_INF = 1"

definition RB_MIN :: "('k, 'd) rbtree \<Rightarrow> ptr option" where
  "RB_MIN t = RB_MINMAX RB_NEGINF t"

definition RB_MAX :: "('k, 'd) rbtree \<Rightarrow> ptr option" where
  "RB_MAX t = RB_MINMAX RB_INF t"

text \<open>\<open>RB_FOREACH\<close> with a body that leaves the tree alone: the elements it visits, in order.\<close>

partial_function (option) rb_visit :: "('k, 'd) rbtree \<Rightarrow> ptr \<Rightarrow> addr list option" where
  "rb_visit t x =
     (case x of
        None \<Rightarrow> Some []
      | Some a \<Rightarrow> do {
          x \<leftarrow> RB_NEXT x t;
          as \<leftarrow> rb_visit t x;
          Some (a # as) })"

definition RB_FOREACH :: "('k, 'd) rbtree \<Rightarrow> addr list option" where
  "RB_FOREACH t = do { x \<leftarrow> RB_MIN t; rb_visit t x }"

declare RB_INSERT_COLOR.simps [code] rb_insert_walk.simps [code] RB_REMOVE_COLOR.simps [code]
  rb_find_walk.simps [code] rb_next_climb.simps [code] rb_minmax_walk.simps [code]
  rb_visit.simps [code]

end
