(* ===== verification/Bsd_Rbtree_Insert.thy ===== *)
theory Bsd_Rbtree_Insert
  imports Bsd_Rbtree
begin

text \<open>
  Simulation of the rotations and of the insertion of tree.h: \<open>RB_INSERT_COLOR\<close> computes the same
  tree function \<open>zfix\<close> as the loop of \<open>__rbtree_insert\<close>.
\<close>

section \<open>Rotations and colours\<close>

lemma bsd_rotate_left:
  assumes "zrep cmp nf t fs (Nd x a c k d (Nd y b c' k' d' z))"
  shows "\<exists>t'. RB_ROTATE_LEFT (Some a) t = Some (Some b, t') \<and>
           zrep cmp nf t' fs (Nd (Nd x a c k d y) b c' k' d' z)"
proof (cases fs)
  case Nil
  with assms show ?thesis
    by (cases y; simp add: zrep_def rb_defs RB_ROTATE_LEFT_def replace_child_def Let_def zrep_norm)
next
  case (Cons f gs)
  with assms show ?thesis
    by (cases y; cases f; simp add: zrep_def rb_defs RB_ROTATE_LEFT_def replace_child_def Let_def rt_neq rt_neq [symmetric] zrep_norm)
qed

lemma bsd_rotate_right:
  assumes "zrep cmp nf t fs (Nd (Nd x b c' k' d' y) a c k d z)"
  shows "\<exists>t'. RB_ROTATE_RIGHT (Some a) t = Some (Some b, t') \<and>
           zrep cmp nf t' fs (Nd x b c' k' d' (Nd y a c k d z))"
proof (cases fs)
  case Nil
  with assms show ?thesis
    by (cases y; simp add: zrep_def rb_defs RB_ROTATE_RIGHT_def replace_child_def Let_def zrep_norm)
next
  case (Cons f gs)
  with assms show ?thesis
    by (cases y; cases f; simp add: zrep_def rb_defs RB_ROTATE_RIGHT_def replace_child_def Let_def rt_neq rt_neq [symmetric] zrep_norm)
qed

lemma bsd_blackred_L:
  assumes "zrep cmp nf t fs (Nd (Nd xl pa pc pk pd xr) ga gc gk gd u)"
  shows "\<exists>t'. RB_SET_BLACKRED (Some pa) (Some ga) t = Some t' \<and>
     zrep cmp nf t' fs (Nd (Nd xl pa RB_BLACK pk pd xr) ga RB_RED gk gd u)"
proof -
  from zrep_set_color_L [OF assms, of RB_BLACK] obtain t1 where
    t1: "set_color RB_BLACK (Some pa) t = Some t1" and
    z1: "zrep cmp nf t1 fs (Nd (Nd xl pa RB_BLACK pk pd xr) ga gc gk gd u)" by blast
  from zrep_set_color [OF z1, of RB_RED] t1 show ?thesis by (auto simp: RB_SET_BLACKRED_def)
qed

lemma bsd_blackred_R:
  assumes "zrep cmp nf t fs (Nd u ga gc gk gd (Nd xl pa pc pk pd xr))"
  shows "\<exists>t'. RB_SET_BLACKRED (Some pa) (Some ga) t = Some t' \<and>
     zrep cmp nf t' fs (Nd u ga RB_RED gk gd (Nd xl pa RB_BLACK pk pd xr))"
proof -
  from zrep_set_color_R [OF assms, of RB_BLACK] obtain t1 where
    t1: "set_color RB_BLACK (Some pa) t = Some t1" and
    z1: "zrep cmp nf t1 fs (Nd u ga gc gk gd (Nd xl pa RB_BLACK pk pd xr))" by blast
  from zrep_set_color [OF z1, of RB_RED] t1 show ?thesis by (auto simp: RB_SET_BLACKRED_def)
qed

text \<open>A red uncle.\<close>

lemma bsd_recolor_L:
  assumes z: "zrep cmp nf t fs (Nd (Nd xl pa pc pk pd xr) ga gc gk gd u)" and u: "tcol u = RB_RED"
  shows "\<exists>t1 t2. set_color RB_BLACK (rt u) t = Some t1 \<and> RB_SET_BLACKRED (Some pa) (Some ga) t1 = Some t2 \<and>
     zrep cmp nf t2 fs (Nd (Nd xl pa RB_BLACK pk pd xr) ga RB_RED gk gd (paint RB_BLACK u))"
proof -
  obtain ul ua uk ud ur where u: "u = Nd ul ua RB_RED uk ud ur" using tcol_red_Nd u by blast
  from zrep_set_color_R [OF z [unfolded u], of RB_BLACK] obtain t1 where
    t1: "set_color RB_BLACK (Some ua) t = Some t1" and
    z1: "zrep cmp nf t1 fs (Nd (Nd xl pa pc pk pd xr) ga gc gk gd (Nd ul ua RB_BLACK uk ud ur))" by blast
  from bsd_blackred_L [OF z1] t1 u show ?thesis by auto
qed

lemma bsd_recolor_R:
  assumes z: "zrep cmp nf t fs (Nd u ga gc gk gd (Nd xl pa pc pk pd xr))" and u: "tcol u = RB_RED"
  shows "\<exists>t1 t2. set_color RB_BLACK (rt u) t = Some t1 \<and> RB_SET_BLACKRED (Some pa) (Some ga) t1 = Some t2 \<and>
     zrep cmp nf t2 fs (Nd (paint RB_BLACK u) ga RB_RED gk gd (Nd xl pa RB_BLACK pk pd xr))"
proof -
  obtain ul ua uk ud ur where u: "u = Nd ul ua RB_RED uk ud ur" using tcol_red_Nd u by blast
  from zrep_set_color_L [OF z [unfolded u], of RB_BLACK] obtain t1 where
    t1: "set_color RB_BLACK (Some ua) t = Some t1" and
    z1: "zrep cmp nf t1 fs (Nd (Nd ul ua RB_BLACK uk ud ur) ga gc gk gd (Nd xl pa pc pk pd xr))" by blast
  from bsd_blackred_R [OF z1] t1 u show ?thesis by auto
qed

text \<open>A black uncle.\<close>

lemma bsd_rotate_fix_L:
  assumes "zrep cmp nf t fs (Nd (Nd x pa pc pk pd y) ga gc gk gd u)"
  shows "\<exists>t1 t2. RB_SET_BLACKRED (Some pa) (Some ga) t = Some t1 \<and> RB_ROTATE_RIGHT (Some ga) t1 = Some (Some pa, t2) \<and>
     zrep cmp nf t2 fs (Nd x pa RB_BLACK pk pd (Nd y ga RB_RED gk gd u))"
proof -
  from bsd_blackred_L [OF assms] obtain t1 where
    t1: "RB_SET_BLACKRED (Some pa) (Some ga) t = Some t1" and
    z1: "zrep cmp nf t1 fs (Nd (Nd x pa RB_BLACK pk pd y) ga RB_RED gk gd u)" by blast
  from bsd_rotate_right [OF z1] t1 show ?thesis by blast
qed

lemma bsd_rotate_fix_R:
  assumes "zrep cmp nf t fs (Nd u ga gc gk gd (Nd x pa pc pk pd y))"
  shows "\<exists>t1 t2. RB_SET_BLACKRED (Some pa) (Some ga) t = Some t1 \<and> RB_ROTATE_LEFT (Some ga) t1 = Some (Some pa, t2) \<and>
     zrep cmp nf t2 fs (Nd (Nd u ga RB_RED gk gd x) pa RB_BLACK pk pd y)"
proof -
  from bsd_blackred_R [OF assms] obtain t1 where
    t1: "RB_SET_BLACKRED (Some pa) (Some ga) t = Some t1" and
    z1: "zrep cmp nf t1 fs (Nd u ga RB_RED gk gd (Nd x pa RB_BLACK pk pd y))" by blast
  from bsd_rotate_left [OF z1] t1 show ?thesis by blast
qed

lemma bsd_rotate_left_L:
  assumes "zrep cmp nf t fs (Nd (Nd x a c k d (Nd y b c' k' d' z)) ga gc gk gd u)"
  shows "\<exists>t'. RB_ROTATE_LEFT (Some a) t = Some (Some b, t') \<and>
           zrep cmp nf t' fs (Nd (Nd (Nd x a c k d y) b c' k' d' z) ga gc gk gd u)"
  using bsd_rotate_left [of cmp nf t "LFr ga gc gk gd u # fs"] assms by (simp add: zrep_up)

lemma bsd_rotate_right_R:
  assumes "zrep cmp nf t fs (Nd u ga gc gk gd (Nd (Nd x b c' k' d' y) a c k d z))"
  shows "\<exists>t'. RB_ROTATE_RIGHT (Some a) t = Some (Some b, t') \<and>
           zrep cmp nf t' fs (Nd u ga gc gk gd (Nd x b c' k' d' (Nd y a c k d z)))"
  using bsd_rotate_right [of cmp nf t "RFr u ga gc gk gd # fs"] assms by (simp add: zrep_up)

lemma plug_not_Lf: "x \<noteq> Lf \<Longrightarrow> plug fs x \<noteq> Lf"
proof (induction fs arbitrary: x)
  case (Cons f fs)
  then show ?case by (cases f) auto
qed simp

lemma zrep_root_black:
  assumes "zrep cmp nf t fs x" "x \<noteq> Lf"
  shows "\<exists>t'. set_color RB_BLACK (rb_root t) t = Some t' \<and> zrep cmp nf t' [] (paint RB_BLACK (plug fs x))"
proof -
  from assms(1) have z: "zrep cmp nf t [] (plug fs x)" by (simp flip: zrep_plug)
  have "plug fs x \<noteq> Lf" by (rule plug_not_Lf [OF assms(2)])
  then obtain l a c k d r where p: "plug fs x = Nd l a c k d r" by (cases "plug fs x") auto
  from zrep_set_color [OF z [unfolded p], of RB_BLACK] zrep_root [OF z] p show ?thesis by simp
qed

section \<open>The insertion loop\<close>

lemma bsd_insert_stop:
  assumes z: "zrep cmp nf t fs x" and x: "x \<noteq> Lf" and c: "ccol fs = RB_BLACK"
  shows "\<exists>t'. RB_INSERT_COLOR (rt x) t = Some t' \<and> zrep cmp nf t' [] (paint RB_BLACK (plug fs x))"
proof -
  have "RB_INSERT_COLOR (rt x) t = set_color RB_BLACK (rb_root t) t"
  proof (cases fs)
    case Nil
    then show ?thesis using zrep_get_parent [OF z x] by (simp add: RB_INSERT_COLOR.simps [of "rt x"] get_color_def)
  next
    case (Cons f gs)
    have "get_color t (Some (faddr f)) = Some (fcol f)"
      using z Cons by (cases f) (auto simp: get_color_def deref_def zrep_def)
    then show ?thesis
      using zrep_get_parent [OF z x] c Cons by (simp add: RB_INSERT_COLOR.simps [of "rt x"])
  qed
  with zrep_root_black [OF z x] show ?thesis by simp
qed

text \<open>What the loop reads below a red parent.\<close>

lemma bsd_parent_color: "deref t (Some a) = Some n \<Longrightarrow> get_color t (Some a) = Some (rb_color n)"
  by (simp add: get_color_def)

lemma bsd_insert_color:
  assumes "zrep cmp nf t fs x" "x \<noteq> Lf" "root_black fs"
  shows "\<exists>t'. RB_INSERT_COLOR (rt x) t = Some t' \<and> zrep cmp nf t' [] (paint RB_BLACK (zfix fs x))"
  using assms
proof (induction fs x arbitrary: t rule: zfix.induct)
  case (1 pa pc pk pd pr ga gc gk gd u fs x)
  obtain xl a c k d xr where x: "x = Nd xl a c k d xr" using "1.prems"(2) by (cases x) auto
  note rd = loop_nodes_LL [OF "1.prems"(1) [unfolded x]]
  have foc: "zrep cmp nf t fs (Nd (Nd x pa pc pk pd pr) ga gc gk gd u)"
    using "1.prems"(1) by (simp add: zrep_up)
  consider "pc = RB_BLACK" | "pc = RB_RED" "tcol u = RB_RED" | "pc = RB_RED" "tcol u = RB_BLACK"
    by (cases pc; cases "tcol u") auto
  then show ?case
  proof cases
    case 1
    then show ?thesis using bsd_insert_stop [OF "1.prems"(1,2)] by simp
  next
    case 2
    from bsd_recolor_L [OF foc 2(2)] obtain t1 t2 where
      st: "set_color RB_BLACK (rt u) t = Some t1" "RB_SET_BLACKRED (Some pa) (Some ga) t1 = Some t2" and
      z: "zrep cmp nf t2 fs (Nd (Nd x pa RB_BLACK pk pd pr) ga RB_RED gk gd (paint RB_BLACK u))" by blast
    have "RB_INSERT_COLOR (rt x) t = RB_INSERT_COLOR (Some ga) t2"
      using rd st 2 x by (simp add: RB_INSERT_COLOR.simps [of "Some a" t] bsd_parent_color)
    moreover have "\<exists>t'. RB_INSERT_COLOR (Some ga) t2 = Some t' \<and>
        zrep cmp nf t' [] (paint RB_BLACK (zfix fs (Nd (Nd x pa RB_BLACK pk pd pr) ga RB_RED gk gd (paint RB_BLACK u))))"
      using "1.IH" [of t2] z 2 root_black_Cons2 "1.prems"(3) by force
    ultimately show ?thesis using 2 by simp
  next
    case 3
    from bsd_rotate_fix_L [OF foc] obtain t1 t2 where
      st: "RB_SET_BLACKRED (Some pa) (Some ga) t = Some t1" "RB_ROTATE_RIGHT (Some ga) t1 = Some (Some pa, t2)" and
      z: "zrep cmp nf t2 fs (Nd x pa RB_BLACK pk pd (Nd pr ga RB_RED gk gd u))" by blast
    have "RB_INSERT_COLOR (rt x) t = RB_INSERT_COLOR (rt x) t2"
      using rd st 3 x by (simp add: RB_INSERT_COLOR.simps [of "Some a" t] bsd_parent_color)
    moreover have "zrep cmp nf t2 (LFr pa RB_BLACK pk pd (Nd pr ga RB_RED gk gd u) # fs) x"
      using z by (simp add: zrep_up)
    ultimately show ?thesis
      using bsd_insert_stop [OF _ "1.prems"(2), of cmp nf t2 "LFr pa RB_BLACK pk pd (Nd pr ga RB_RED gk gd u) # fs"]
        3 by simp
  qed
next
  case (2 pl pa pc pk pd ga gc gk gd u fs x)
  obtain xl a c k d xr where x: "x = Nd xl a c k d xr" using "2.prems"(2) by (cases x) auto
  note rd = loop_nodes_RL [OF "2.prems"(1) [unfolded x]]
  have foc: "zrep cmp nf t fs (Nd (Nd pl pa pc pk pd x) ga gc gk gd u)"
    using "2.prems"(1) by (simp add: zrep_up)
  consider "pc = RB_BLACK" | "pc = RB_RED" "tcol u = RB_RED" | "pc = RB_RED" "tcol u = RB_BLACK"
    by (cases pc; cases "tcol u") auto
  then show ?case
  proof cases
    case 1
    then show ?thesis using bsd_insert_stop [OF "2.prems"(1,2)] by simp
  next
    case 2
    from bsd_recolor_L [OF foc 2(2)] obtain t1 t2 where
      st: "set_color RB_BLACK (rt u) t = Some t1" "RB_SET_BLACKRED (Some pa) (Some ga) t1 = Some t2" and
      z: "zrep cmp nf t2 fs (Nd (Nd pl pa RB_BLACK pk pd x) ga RB_RED gk gd (paint RB_BLACK u))" by blast
    have "RB_INSERT_COLOR (rt x) t = RB_INSERT_COLOR (Some ga) t2"
      using rd st 2 x by (simp add: RB_INSERT_COLOR.simps [of "Some a" t] bsd_parent_color)
    moreover have "\<exists>t'. RB_INSERT_COLOR (Some ga) t2 = Some t' \<and>
        zrep cmp nf t' [] (paint RB_BLACK (zfix fs (Nd (Nd pl pa RB_BLACK pk pd x) ga RB_RED gk gd (paint RB_BLACK u))))"
      using "2.IH" [of t2] z 2 root_black_Cons2 "2.prems"(3) by force
    ultimately show ?thesis using 2 by simp
  next
    case 3
    from bsd_rotate_left_L [OF foc [unfolded x]] obtain t0 where
      t0: "RB_ROTATE_LEFT (Some pa) t = Some (Some a, t0)" and
      z0: "zrep cmp nf t0 fs (Nd (Nd (Nd pl pa pc pk pd xl) a c k d xr) ga gc gk gd u)" by blast
    from bsd_rotate_fix_L [OF z0] obtain t1 t2 where
      st: "RB_SET_BLACKRED (Some a) (Some ga) t0 = Some t1" "RB_ROTATE_RIGHT (Some ga) t1 = Some (Some a, t2)" and
      z: "zrep cmp nf t2 fs (Nd (Nd pl pa pc pk pd xl) a RB_BLACK k d (Nd xr ga RB_RED gk gd u))" by blast
    have "RB_INSERT_COLOR (rt x) t = RB_INSERT_COLOR (Some pa) t2"
      using rd t0 st 3 x by (simp add: RB_INSERT_COLOR.simps [of "Some a" t] bsd_parent_color)
    moreover have "zrep cmp nf t2 (LFr a RB_BLACK k d (Nd xr ga RB_RED gk gd u) # fs) (Nd pl pa pc pk pd xl)"
      using z by (simp add: zrep_up)
    ultimately show ?thesis
      using bsd_insert_stop [of cmp nf t2 "LFr a RB_BLACK k d (Nd xr ga RB_RED gk gd u) # fs" "Nd pl pa pc pk pd xl"]
        3 x by simp
  qed
next
  case (3 pl pa pc pk pd u ga gc gk gd fs x)
  obtain xl a c k d xr where x: "x = Nd xl a c k d xr" using "3.prems"(2) by (cases x) auto
  note rd = loop_nodes_RR [OF "3.prems"(1) [unfolded x]]
  have foc: "zrep cmp nf t fs (Nd u ga gc gk gd (Nd pl pa pc pk pd x))"
    using "3.prems"(1) by (simp add: zrep_up)
  consider "pc = RB_BLACK" | "pc = RB_RED" "tcol u = RB_RED" | "pc = RB_RED" "tcol u = RB_BLACK"
    by (cases pc; cases "tcol u") auto
  then show ?case
  proof cases
    case 1
    then show ?thesis using bsd_insert_stop [OF "3.prems"(1,2)] by simp
  next
    case 2
    from bsd_recolor_R [OF foc 2(2)] obtain t1 t2 where
      st: "set_color RB_BLACK (rt u) t = Some t1" "RB_SET_BLACKRED (Some pa) (Some ga) t1 = Some t2" and
      z: "zrep cmp nf t2 fs (Nd (paint RB_BLACK u) ga RB_RED gk gd (Nd pl pa RB_BLACK pk pd x))" by blast
    have "RB_INSERT_COLOR (rt x) t = RB_INSERT_COLOR (Some ga) t2"
      using rd st 2 x by (simp add: RB_INSERT_COLOR.simps [of "Some a" t] bsd_parent_color eq_commute [of "Some pa"])
    moreover have "\<exists>t'. RB_INSERT_COLOR (Some ga) t2 = Some t' \<and>
        zrep cmp nf t' [] (paint RB_BLACK (zfix fs (Nd (paint RB_BLACK u) ga RB_RED gk gd (Nd pl pa RB_BLACK pk pd x))))"
      using "3.IH" [of t2] z 2 root_black_Cons2 "3.prems"(3) by force
    ultimately show ?thesis using 2 by simp
  next
    case 3
    from bsd_rotate_fix_R [OF foc] obtain t1 t2 where
      st: "RB_SET_BLACKRED (Some pa) (Some ga) t = Some t1" "RB_ROTATE_LEFT (Some ga) t1 = Some (Some pa, t2)" and
      z: "zrep cmp nf t2 fs (Nd (Nd u ga RB_RED gk gd pl) pa RB_BLACK pk pd x)" by blast
    have "RB_INSERT_COLOR (rt x) t = RB_INSERT_COLOR (rt x) t2"
      using rd st 3 x by (simp add: RB_INSERT_COLOR.simps [of "Some a" t] bsd_parent_color eq_commute [of "Some pa"])
    moreover have "zrep cmp nf t2 (RFr (Nd u ga RB_RED gk gd pl) pa RB_BLACK pk pd # fs) x"
      using z by (simp add: zrep_up)
    ultimately show ?thesis
      using bsd_insert_stop [OF _ "3.prems"(2), of cmp nf t2 "RFr (Nd u ga RB_RED gk gd pl) pa RB_BLACK pk pd # fs"]
        3 by simp
  qed
next
  case (4 pa pc pk pd pr u ga gc gk gd fs x)
  obtain xl a c k d xr where x: "x = Nd xl a c k d xr" using "4.prems"(2) by (cases x) auto
  note rd = loop_nodes_LR [OF "4.prems"(1) [unfolded x]]
  have foc: "zrep cmp nf t fs (Nd u ga gc gk gd (Nd x pa pc pk pd pr))"
    using "4.prems"(1) by (simp add: zrep_up)
  consider "pc = RB_BLACK" | "pc = RB_RED" "tcol u = RB_RED" | "pc = RB_RED" "tcol u = RB_BLACK"
    by (cases pc; cases "tcol u") auto
  then show ?case
  proof cases
    case 1
    then show ?thesis using bsd_insert_stop [OF "4.prems"(1,2)] by simp
  next
    case 2
    from bsd_recolor_R [OF foc 2(2)] obtain t1 t2 where
      st: "set_color RB_BLACK (rt u) t = Some t1" "RB_SET_BLACKRED (Some pa) (Some ga) t1 = Some t2" and
      z: "zrep cmp nf t2 fs (Nd (paint RB_BLACK u) ga RB_RED gk gd (Nd x pa RB_BLACK pk pd pr))" by blast
    have "RB_INSERT_COLOR (rt x) t = RB_INSERT_COLOR (Some ga) t2"
      using rd st 2 x by (simp add: RB_INSERT_COLOR.simps [of "Some a" t] bsd_parent_color eq_commute [of "Some pa"])
    moreover have "\<exists>t'. RB_INSERT_COLOR (Some ga) t2 = Some t' \<and>
        zrep cmp nf t' [] (paint RB_BLACK (zfix fs (Nd (paint RB_BLACK u) ga RB_RED gk gd (Nd x pa RB_BLACK pk pd pr))))"
      using "4.IH" [of t2] z 2 root_black_Cons2 "4.prems"(3) by force
    ultimately show ?thesis using 2 by simp
  next
    case 3
    from bsd_rotate_right_R [OF foc [unfolded x]] obtain t0 where
      t0: "RB_ROTATE_RIGHT (Some pa) t = Some (Some a, t0)" and
      z0: "zrep cmp nf t0 fs (Nd u ga gc gk gd (Nd xl a c k d (Nd xr pa pc pk pd pr)))" by blast
    from bsd_rotate_fix_R [OF z0] obtain t1 t2 where
      st: "RB_SET_BLACKRED (Some a) (Some ga) t0 = Some t1" "RB_ROTATE_LEFT (Some ga) t1 = Some (Some a, t2)" and
      z: "zrep cmp nf t2 fs (Nd (Nd u ga RB_RED gk gd xl) a RB_BLACK k d (Nd xr pa pc pk pd pr))" by blast
    have "RB_INSERT_COLOR (rt x) t = RB_INSERT_COLOR (Some pa) t2"
      using rd t0 st 3 x by (simp add: RB_INSERT_COLOR.simps [of "Some a" t] bsd_parent_color eq_commute [of "Some pa"])
    moreover have "zrep cmp nf t2 (RFr (Nd u ga RB_RED gk gd xl) a RB_BLACK k d # fs) (Nd xr pa pc pk pd pr)"
      using z by (simp add: zrep_up)
    ultimately show ?thesis
      using bsd_insert_stop [of cmp nf t2 "RFr (Nd u ga RB_RED gk gd xl) a RB_BLACK k d # fs" "Nd xr pa pc pk pd pr"]
        3 x by simp
  qed
next
  case (5 x)
  then show ?case using bsd_insert_stop [of cmp nf t "[]" x] by simp
next
  case (6 f x)
  then show ?case using bsd_insert_stop [of cmp nf t "[f]" x] by simp
qed

end
