(* ===== verification/Bsd_Rbtree_Delete.thy ===== *)
theory Bsd_Rbtree_Delete
  imports Bsd_Rbtree_Insert
begin

text \<open>
  Simulation of \<open>RB_REMOVE_COLOR\<close>: after a black node has been unlinked, the loop computes the tree
  function \<open>zdel\<close>, which the delete cases of \<open>t2u_rbtree.c\<close> compute before they unlink it.
\<close>

section \<open>The sibling\<close>

lemma bsd_sibling_left:
  assumes z: "zrep cmp nf t (LFr a c k d (Nd sl sa RB_RED sk sd sr) # fs) x"
  shows "\<exists>t'. rb_sibling_left (Some a) (Some sa) t = Some (rt sl, t') \<and>
     zrep cmp nf t' (LFr a RB_RED k d sl # LFr sa RB_BLACK sk sd sr # fs) x"
proof -
  have foc: "zrep cmp nf t fs (Nd x a c k d (Nd sl sa RB_RED sk sd sr))" using z by (simp add: zrep_up)
  from bsd_blackred_R [OF foc] obtain t1 where
    t1: "RB_SET_BLACKRED (Some sa) (Some a) t = Some t1" and
    z1: "zrep cmp nf t1 fs (Nd x a RB_RED k d (Nd sl sa RB_BLACK sk sd sr))" by blast
  from bsd_rotate_left [OF z1] obtain t2 where
    t2: "RB_ROTATE_LEFT (Some a) t1 = Some (Some sa, t2)" and
    z2: "zrep cmp nf t2 fs (Nd (Nd x a RB_RED k d sl) sa RB_BLACK sk sd sr)" by blast
  have z3: "zrep cmp nf t2 (LFr a RB_RED k d sl # LFr sa RB_BLACK sk sd sr # fs) x"
    using z2 by (simp add: zrep_up)
  have "deref t (Some sa) = Some (mk_node (Some a) (rt sl) (rt sr) RB_RED sk sd)"
    using zrep_sib_node(1) [OF z] by simp
  with t1 t2 zrep_deref_L [OF z3] z3 show ?thesis by (simp add: rb_sibling_left_def)
qed

lemma bsd_sibling_right:
  assumes z: "zrep cmp nf t (RFr (Nd sl sa RB_RED sk sd sr) a c k d # fs) x"
  shows "\<exists>t'. rb_sibling_right (Some a) (Some sa) t = Some (rt sr, t') \<and>
     zrep cmp nf t' (RFr sr a RB_RED k d # RFr sl sa RB_BLACK sk sd # fs) x"
proof -
  have foc: "zrep cmp nf t fs (Nd (Nd sl sa RB_RED sk sd sr) a c k d x)" using z by (simp add: zrep_up)
  from bsd_blackred_L [OF foc] obtain t1 where
    t1: "RB_SET_BLACKRED (Some sa) (Some a) t = Some t1" and
    z1: "zrep cmp nf t1 fs (Nd (Nd sl sa RB_BLACK sk sd sr) a RB_RED k d x)" by blast
  from bsd_rotate_right [OF z1] obtain t2 where
    t2: "RB_ROTATE_RIGHT (Some a) t1 = Some (Some sa, t2)" and
    z2: "zrep cmp nf t2 fs (Nd sl sa RB_BLACK sk sd (Nd sr a RB_RED k d x))" by blast
  have z3: "zrep cmp nf t2 (RFr sr a RB_RED k d # RFr sl sa RB_BLACK sk sd # fs) x"
    using z2 by (simp add: zrep_up)
  have "deref t (Some sa) = Some (mk_node (Some a) (rt sl) (rt sr) RB_RED sk sd)"
    using zrep_sib_node(1) [OF z] by simp
  with t1 t2 zrep_deref_R [OF z3] z3 show ?thesis by (simp add: rb_sibling_right_def)
qed

lemma bsd_sibling_black:
  assumes "zrep cmp nf t (f # fs) x" "sib f = Nd sl sa RB_BLACK sk sd sr"
  shows "rb_sibling_left p (Some sa) t = Some (Some sa, t)" "rb_sibling_right p (Some sa) t = Some (Some sa, t)"
  using zrep_sib_node(1) [OF assms] by (simp_all add: rb_sibling_left_def rb_sibling_right_def)

lemma bsd_black_children:
  assumes "zrep cmp nf t (f # fs) x" "sib f = Nd sl sa sc sk sd sr"
  shows "rb_black_children t (Some sa) = Some (black_kids (sib f))"
  using zrep_sib_node [OF assms] assms(2) by (simp add: rb_black_children_def)

section \<open>Borrowing from the sibling\<close>

text \<open>The end of \<open>rb_borrow_left\<close>, when the outer child of the sibling is red.\<close>

lemma bsd_outer_left:
  assumes z: "zrep cmp nf t (LFr a c k d (Nd sl sa sc sk sd sr) # fs) x" and sr: "tcol sr = RB_RED"
  shows "\<exists>t1 t2 t3 t4. set_color c (Some sa) t = Some t1 \<and> set_color RB_BLACK (Some a) t1 = Some t2 \<and>
     deref t2 (Some sa) = Some (mk_node (Some a) (rt sl) (rt sr) c sk sd) \<and>
     rb_paint_black (rt sr) t2 = Some t3 \<and> RB_ROTATE_LEFT (Some a) t3 = Some (Some sa, t4) \<and>
     zrep cmp nf t4 (zcase6 (LFr a c k d (Nd sl sa sc sk sd sr) # fs)) x"
proof -
  obtain rl ra rk rd rr where r: "sr = Nd rl ra RB_RED rk rd rr" using tcol_red_Nd sr by blast
  have foc: "zrep cmp nf t fs (Nd x a c k d (Nd sl sa sc sk sd sr))" using z by (simp add: zrep_up)
  from zrep_set_color_R [OF foc, of c] obtain t1 where
    t1: "set_color c (Some sa) t = Some t1" and z1: "zrep cmp nf t1 fs (Nd x a c k d (Nd sl sa c sk sd sr))" by blast
  from zrep_set_color [OF z1, of RB_BLACK] obtain t2 where
    t2: "set_color RB_BLACK (Some a) t1 = Some t2" and z2: "zrep cmp nf t2 fs (Nd x a RB_BLACK k d (Nd sl sa c sk sd sr))" by blast
  from zrep_set_color_RR [OF z2 [unfolded r], of RB_BLACK] obtain t3 where
    t3: "set_color RB_BLACK (Some ra) t2 = Some t3" and
    z3: "zrep cmp nf t3 fs (Nd x a RB_BLACK k d (Nd sl sa c sk sd (Nd rl ra RB_BLACK rk rd rr)))" by blast
  from bsd_rotate_left [OF z3] obtain t4 where
    t4: "RB_ROTATE_LEFT (Some a) t3 = Some (Some sa, t4)" and
    z4: "zrep cmp nf t4 fs (Nd (Nd x a RB_BLACK k d sl) sa c sk sd (Nd rl ra RB_BLACK rk rd rr))" by blast
  have f2: "zrep cmp nf t2 (LFr a RB_BLACK k d (Nd sl sa c sk sd sr) # fs) x" using z2 by (simp add: zrep_up)
  from t1 t2 t3 t4 z4 r zrep_sib_node(1) [OF f2] show ?thesis by (simp add: rb_paint_black_def zrep_up)
qed

lemma bsd_outer_right:
  assumes z: "zrep cmp nf t (RFr (Nd sl sa sc sk sd sr) a c k d # fs) x" and sl: "tcol sl = RB_RED"
  shows "\<exists>t1 t2 t3 t4. set_color c (Some sa) t = Some t1 \<and> set_color RB_BLACK (Some a) t1 = Some t2 \<and>
     deref t2 (Some sa) = Some (mk_node (Some a) (rt sl) (rt sr) c sk sd) \<and>
     rb_paint_black (rt sl) t2 = Some t3 \<and> RB_ROTATE_RIGHT (Some a) t3 = Some (Some sa, t4) \<and>
     zrep cmp nf t4 (zcase6 (RFr (Nd sl sa sc sk sd sr) a c k d # fs)) x"
proof -
  obtain rl ra rk rd rr where r: "sl = Nd rl ra RB_RED rk rd rr" using tcol_red_Nd sl by blast
  have foc: "zrep cmp nf t fs (Nd (Nd sl sa sc sk sd sr) a c k d x)" using z by (simp add: zrep_up)
  from zrep_set_color_L [OF foc, of c] obtain t1 where
    t1: "set_color c (Some sa) t = Some t1" and z1: "zrep cmp nf t1 fs (Nd (Nd sl sa c sk sd sr) a c k d x)" by blast
  from zrep_set_color [OF z1, of RB_BLACK] obtain t2 where
    t2: "set_color RB_BLACK (Some a) t1 = Some t2" and z2: "zrep cmp nf t2 fs (Nd (Nd sl sa c sk sd sr) a RB_BLACK k d x)" by blast
  from zrep_set_color_LL [OF z2 [unfolded r], of RB_BLACK] obtain t3 where
    t3: "set_color RB_BLACK (Some ra) t2 = Some t3" and
    z3: "zrep cmp nf t3 fs (Nd (Nd (Nd rl ra RB_BLACK rk rd rr) sa c sk sd sr) a RB_BLACK k d x)" by blast
  from bsd_rotate_right [OF z3] obtain t4 where
    t4: "RB_ROTATE_RIGHT (Some a) t3 = Some (Some sa, t4)" and
    z4: "zrep cmp nf t4 fs (Nd (Nd rl ra RB_BLACK rk rd rr) sa c sk sd (Nd sr a RB_BLACK k d x))" by blast
  have f2: "zrep cmp nf t2 (RFr (Nd sl sa c sk sd sr) a RB_BLACK k d # fs) x" using z2 by (simp add: zrep_up)
  from t1 t2 t3 t4 z4 r zrep_sib_node(1) [OF f2] show ?thesis by (simp add: rb_paint_black_def zrep_up)
qed

lemma bsd_borrow_left:
  assumes z: "zrep cmp nf t (LFr a c k d (Nd sl sa RB_BLACK sk sd sr) # fs) x"
    and kids: "\<not> (tcol sl = RB_BLACK \<and> tcol sr = RB_BLACK)"
  shows "\<exists>t'. rb_borrow_left (Some a) (Some sa) t = Some t' \<and>
     zrep cmp nf t' (zcase5 (LFr a c k d (Nd sl sa RB_BLACK sk sd sr) # fs)) x"
proof (cases "tcol sr")
  case RB_RED
  have "zcase5 (LFr a c k d (Nd sl sa RB_BLACK sk sd sr) # fs) = zcase6 (LFr a c k d (Nd sl sa RB_BLACK sk sd sr) # fs)"
    using RB_RED by (cases sl) auto
  with bsd_outer_left [OF z RB_RED] zrep_sib_node [OF z] zrep_deref_L [OF z] RB_RED show ?thesis
    by (auto simp: rb_borrow_left_def)
next
  case RB_BLACK
  with kids have "tcol sl = RB_RED" by (cases "tcol sl") auto
  then obtain p la lk ld q where sl: "sl = Nd p la RB_RED lk ld q" using tcol_red_Nd by blast
  have foc: "zrep cmp nf t fs (Nd x a c k d (Nd sl sa RB_BLACK sk sd sr))" using z by (simp add: zrep_up)
  from zrep_set_color_RL [OF foc [unfolded sl], of RB_BLACK] obtain t1 where
    t1: "set_color RB_BLACK (Some la) t = Some t1" and
    z1: "zrep cmp nf t1 fs (Nd x a c k d (Nd (Nd p la RB_BLACK lk ld q) sa RB_BLACK sk sd sr))" by blast
  from zrep_set_color_R [OF z1, of RB_RED] obtain t2 where
    t2: "set_color RB_RED (Some sa) t1 = Some t2" and
    z2: "zrep cmp nf t2 fs (Nd x a c k d (Nd (Nd p la RB_BLACK lk ld q) sa RB_RED sk sd sr))" by blast
  from bsd_rotate_right_R [OF z2] obtain t3 where
    t3: "RB_ROTATE_RIGHT (Some sa) t2 = Some (Some la, t3)" and
    z3: "zrep cmp nf t3 fs (Nd x a c k d (Nd p la RB_BLACK lk ld (Nd q sa RB_RED sk sd sr)))" by blast
  have f3: "zrep cmp nf t3 (LFr a c k d (Nd p la RB_BLACK lk ld (Nd q sa RB_RED sk sd sr)) # fs) x"
    using z3 by (simp add: zrep_up)
  from bsd_outer_left [OF f3] t1 t2 t3 zrep_sib_node [OF z] zrep_deref_L [OF f3] sl RB_BLACK show ?thesis
    by (auto simp: rb_borrow_left_def rb_paint_black_def [of "Some la"])
qed

lemma bsd_borrow_right:
  assumes z: "zrep cmp nf t (RFr (Nd sl sa RB_BLACK sk sd sr) a c k d # fs) x"
    and kids: "\<not> (tcol sl = RB_BLACK \<and> tcol sr = RB_BLACK)"
  shows "\<exists>t'. rb_borrow_right (Some a) (Some sa) t = Some t' \<and>
     zrep cmp nf t' (zcase5 (RFr (Nd sl sa RB_BLACK sk sd sr) a c k d # fs)) x"
proof (cases "tcol sl")
  case RB_RED
  have "zcase5 (RFr (Nd sl sa RB_BLACK sk sd sr) a c k d # fs) = zcase6 (RFr (Nd sl sa RB_BLACK sk sd sr) a c k d # fs)"
    using RB_RED by (cases sr) auto
  with bsd_outer_right [OF z RB_RED] zrep_sib_node [OF z] zrep_deref_R [OF z] RB_RED show ?thesis
    by (auto simp: rb_borrow_right_def)
next
  case RB_BLACK
  with kids have "tcol sr = RB_RED" by (cases "tcol sr") auto
  then obtain p la lk ld q where sr: "sr = Nd p la RB_RED lk ld q" using tcol_red_Nd by blast
  have foc: "zrep cmp nf t fs (Nd (Nd sl sa RB_BLACK sk sd sr) a c k d x)" using z by (simp add: zrep_up)
  from zrep_set_color_LR [OF foc [unfolded sr], of RB_BLACK] obtain t1 where
    t1: "set_color RB_BLACK (Some la) t = Some t1" and
    z1: "zrep cmp nf t1 fs (Nd (Nd sl sa RB_BLACK sk sd (Nd p la RB_BLACK lk ld q)) a c k d x)" by blast
  from zrep_set_color_L [OF z1, of RB_RED] obtain t2 where
    t2: "set_color RB_RED (Some sa) t1 = Some t2" and
    z2: "zrep cmp nf t2 fs (Nd (Nd sl sa RB_RED sk sd (Nd p la RB_BLACK lk ld q)) a c k d x)" by blast
  from bsd_rotate_left_L [OF z2] obtain t3 where
    t3: "RB_ROTATE_LEFT (Some sa) t2 = Some (Some la, t3)" and
    z3: "zrep cmp nf t3 fs (Nd (Nd (Nd sl sa RB_RED sk sd p) la RB_BLACK lk ld q) a c k d x)" by blast
  have f3: "zrep cmp nf t3 (RFr (Nd (Nd sl sa RB_RED sk sd p) la RB_BLACK lk ld q) a c k d # fs) x"
    using z3 by (simp add: zrep_up)
  from bsd_outer_right [OF f3] t1 t2 t3 zrep_sib_node [OF z] zrep_deref_R [OF f3] sr RB_BLACK show ?thesis
    by (auto simp: rb_borrow_right_def rb_paint_black_def [of "Some la"])
qed

section \<open>The loop\<close>

lemma croot_in: "croot (Some a) fs \<in> Some ` insert a (caddrs fs)"
proof (induction fs arbitrary: a)
  case (Cons f fs)
  from Cons.IH [of "faddr f"] show ?case by (cases f) auto
qed simp

lemma zrep_root_neq:
  assumes "zrep cmp nf t (f # fs) x"
  shows "rb_root t \<noteq> rt x"
proof -
  have "rb_root t \<in> Some ` insert (faddr f) (caddrs fs)"
    using assms croot_in [of "faddr f" fs] by (simp add: zrep_def)
  moreover have "insert (faddr f) (caddrs fs) \<subseteq> caddrs (f # fs)" by (cases f) auto
  moreover have "addrs x \<inter> caddrs (f # fs) = {}" using assms by (simp add: zrep_def)
  ultimately show ?thesis by (cases x) auto
qed

lemma root_black_plug: "root_black fs \<Longrightarrow> fs \<noteq> [] \<Longrightarrow> tcol (plug fs x) = RB_BLACK"
proof (induction fs arbitrary: x)
  case (Cons f fs)
  show ?case
  proof (cases fs)
    case Nil
    with Cons.prems show ?thesis by (cases f) auto
  next
    case (Cons g gs)
    with Cons.prems have "root_black fs" by simp
    with Cons.IH [of "fill f x"] Cons show ?thesis by simp
  qed
qed simp

lemma paint_same: "tcol x = c \<Longrightarrow> paint c x = x"
  by (cases x) auto

lemma bsd_paint_root:
  assumes z: "zrep cmp nf t gs x" and g: "root_black gs" "gs \<noteq> []"
  shows "\<exists>t'. rb_paint_black (rb_root t) t = Some t' \<and> zrep cmp nf t' [] (plug gs x)"
proof -
  have w: "zrep cmp nf t [] (plug gs x)" using z by (simp flip: zrep_plug)
  show ?thesis
  proof (cases "plug gs x = Lf")
    case True
    with w zrep_root [OF w] show ?thesis by (simp add: rb_paint_black_def)
  next
    case False
    from zrep_root_black [OF w False] paint_same [OF root_black_plug [OF g]] zrep_root [OF w] False
    show ?thesis by (simp add: rb_paint_black_def)
  qed
qed

text \<open>The loop ends at a red element, which it paints black, and at the root.\<close>

lemma bsd_remove_stop:
  assumes z: "zrep cmp nf t fs x" and x: "tcol x = RB_RED"
  shows "\<exists>t'. RB_REMOVE_COLOR p (rt x) t = Some t' \<and> zrep cmp nf t' [] (plug fs (paint RB_BLACK x))"
proof -
  obtain l a k d r where n: "x = Nd l a RB_RED k d r" using tcol_red_Nd x by blast
  from zrep_set_color [OF z [unfolded n], of RB_BLACK] obtain t' where
    t': "set_color RB_BLACK (Some a) t = Some t'" "zrep cmp nf t' fs (Nd l a RB_BLACK k d r)" by blast
  then have "zrep cmp nf t' [] (plug fs (paint RB_BLACK x))" using n zrep_plug by fastforce
  moreover have "RB_REMOVE_COLOR p (rt x) t = Some t'"
    using zrep_get_color [OF z] n t'(1) by (simp add: RB_REMOVE_COLOR.simps [of p] rb_paint_black_def)
  ultimately show ?thesis by blast
qed

lemma bsd_remove_root:
  assumes z: "zrep cmp nf t [] x" and x: "tcol x = RB_BLACK"
  shows "\<exists>t'. RB_REMOVE_COLOR p (rt x) t = Some t' \<and> zrep cmp nf t' [] x"
proof -
  have "RB_REMOVE_COLOR p (rt x) t = rb_paint_black (rt x) t"
    using zrep_get_color [OF z] x zrep_root [OF z] by (simp add: RB_REMOVE_COLOR.simps [of p])
  moreover have "\<exists>t'. rb_paint_black (rt x) t = Some t' \<and> zrep cmp nf t' [] x"
  proof (cases x)
    case Lf
    with z show ?thesis by (simp add: rb_paint_black_def)
  next
    case (Nd l a c k d r)
    with zrep_set_color [OF z [unfolded Nd], of RB_BLACK] x show ?thesis by (simp add: rb_paint_black_def)
  qed
  ultimately show ?thesis by simp
qed

text \<open>One round with a black element.\<close>

lemma bsd_round_left:
  assumes z: "zrep cmp nf t (LFr a c k d s # fs) x" and x: "tcol x = RB_BLACK"
    and st: "rb_sibling_left (Some a) (rt s) t = Some (tmp, t1)" "rb_black_children t1 tmp = Some black"
  shows "RB_REMOVE_COLOR (Some a) (rt x) t =
    (if black then do {
       t \<leftarrow> set_color RB_RED tmp t1;
       p \<leftarrow> get_parent t (Some a);
       RB_REMOVE_COLOR p (Some a) t }
     else do {
       t \<leftarrow> rb_borrow_left (Some a) tmp t1;
       rb_paint_black (rb_root t) t })"
  using zrep_get_color [OF z] x zrep_root_neq [OF z, symmetric] zrep_deref_L [OF z] st
  by (simp add: RB_REMOVE_COLOR.simps [of "Some a" "rt x"])

lemma bsd_round_right:
  assumes z: "zrep cmp nf t (RFr s a c k d # fs) x" and x: "tcol x = RB_BLACK" and s: "s \<noteq> Lf"
    and st: "rb_sibling_right (Some a) (rt s) t = Some (tmp, t1)" "rb_black_children t1 tmp = Some black"
  shows "RB_REMOVE_COLOR (Some a) (rt x) t =
    (if black then do {
       t \<leftarrow> set_color RB_RED tmp t1;
       p \<leftarrow> get_parent t (Some a);
       RB_REMOVE_COLOR p (Some a) t }
     else do {
       t \<leftarrow> rb_borrow_right (Some a) tmp t1;
       rb_paint_black (rb_root t) t })"
proof -
  have "rt s \<noteq> rt x"
    using z s by (cases s; cases x) (auto simp: zrep_def)
  then show ?thesis
    using zrep_get_color [OF z] x zrep_root_neq [OF z, symmetric] zrep_deref_R [OF z] st
    by (simp add: RB_REMOVE_COLOR.simps [of "Some a" "rt x"])
qed

text \<open>The sibling becomes red.\<close>

lemma bsd_recolor_sibling:
  assumes z: "zrep cmp nf t (f # fs) x" and s: "sib f = Nd sl sa sc sk sd sr"
  shows "\<exists>t'. set_color RB_RED (Some sa) t = Some t' \<and> get_parent t' (Some (faddr f)) = Some (ctop fs) \<and>
     zrep cmp nf t' fs (fill (set_sib (paint RB_RED (sib f)) f) x)"
proof (cases f)
  case (LFr a c k d r)
  with s z have foc: "zrep cmp nf t fs (Nd x a c k d (Nd sl sa sc sk sd sr))" by (simp add: zrep_up)
  from zrep_set_color_R [OF foc, of RB_RED] obtain t1 where
    t1: "set_color RB_RED (Some sa) t = Some t1" "zrep cmp nf t1 fs (Nd x a c k d (Nd sl sa RB_RED sk sd sr))" by blast
  with zrep_get_parent [OF t1(2)] LFr s show ?thesis by simp
next
  case (RFr l a c k d)
  with s z have foc: "zrep cmp nf t fs (Nd (Nd sl sa sc sk sd sr) a c k d x)" by (simp add: zrep_up)
  from zrep_set_color_L [OF foc, of RB_RED] obtain t1 where
    t1: "set_color RB_RED (Some sa) t = Some t1" "zrep cmp nf t1 fs (Nd (Nd sl sa RB_RED sk sd sr) a c k d x)" by blast
  with zrep_get_parent [OF t1(2)] RFr s show ?thesis by simp
qed

text \<open>
  The rest of a round, when the sibling \<open>sib g\<close> is black: \<open>again\<close> says that the loop goes on at the
  parent. Both sides at once.
\<close>

definition bsd_tail :: "('k, 'd) frame \<Rightarrow> ptr \<Rightarrow> ('k, 'd) rbtree \<Rightarrow> ('k, 'd) rbtree option" where
  "bsd_tail g tmp t =
     (case g of
        LFr a c k d r \<Rightarrow> rb_borrow_left (Some a) tmp t
      | RFr l a c k d \<Rightarrow> rb_borrow_right (Some a) tmp t)"

lemma bsd_borrow:
  assumes z: "zrep cmp nf t (g # gs) x" and s: "sib g = Nd sl sa RB_BLACK sk sd sr" "\<not> black_kids (sib g)"
    and h: "cinv (g # gs) (Suc h)"
  shows "\<exists>t1 t2. bsd_tail g (Some sa) t = Some t1 \<and> rb_paint_black (rb_root t1) t1 = Some t2 \<and>
     zrep cmp nf t2 [] (plug (zcase5 (g # gs)) x)"
proof -
  have "\<exists>t1. bsd_tail g (Some sa) t = Some t1 \<and> zrep cmp nf t1 (zcase5 (g # gs)) x"
  proof (cases g)
    case (LFr a c k d r)
    with bsd_borrow_left [of cmp nf t a c k d sl sa sk sd sr gs x] z s show ?thesis by (simp add: bsd_tail_def)
  next
    case (RFr l a c k d)
    with bsd_borrow_right [of cmp nf t sl sa sk sd sr a c k d gs x] z s show ?thesis by (simp add: bsd_tail_def)
  qed
  then obtain t1 where t1: "bsd_tail g (Some sa) t = Some t1" "zrep cmp nf t1 (zcase5 (g # gs)) x" by blast
  have "cinv (zcase5 (g # gs)) h" using zcase5_inv [OF h] s by simp
  then have "root_black (zcase5 (g # gs))" by (rule cinv_root_black)
  moreover have "zcase5 (g # gs) \<noteq> []"
  proof -
    have "zcase6 (e # es) \<noteq> []" for e :: "('a, 'b) frame" and es
      by (cases "(e # es)" rule: zcase6.cases) auto
    then show ?thesis by (cases "(g # gs)" rule: zcase5.cases) auto
  qed
  ultimately show ?thesis using bsd_paint_root [OF t1(2)] t1(1) by blast
qed

text \<open>The two sides of a round as one statement.\<close>

definition rb_sibling :: "('k, 'd) frame \<Rightarrow> ('k, 'd) rbtree \<Rightarrow> (ptr \<times> ('k, 'd) rbtree) option" where
  "rb_sibling f t =
     (case f of
        LFr a c k d r \<Rightarrow> rb_sibling_left (Some a) (rt r) t
      | RFr l a c k d \<Rightarrow> rb_sibling_right (Some a) (rt l) t)"

lemma bsd_round:
  assumes z: "zrep cmp nf t (f # fs) x" and x: "tcol x = RB_BLACK" and s: "sib f \<noteq> Lf"
    and st: "rb_sibling f t = Some (tmp, t1)" "rb_black_children t1 tmp = Some black"
    and g: "\<And>t. bsd_tail g tmp t = bsd_tail f tmp t"
  shows "RB_REMOVE_COLOR (Some (faddr f)) (rt x) t =
    (if black then do {
       t \<leftarrow> set_color RB_RED tmp t1;
       p \<leftarrow> get_parent t (Some (faddr f));
       RB_REMOVE_COLOR p (Some (faddr f)) t }
     else do {
       t \<leftarrow> bsd_tail g tmp t1;
       rb_paint_black (rb_root t) t })"
proof (cases f)
  case (LFr a c k d r)
  with bsd_round_left [of cmp nf t a c k d r fs x tmp t1 black] z x st g show ?thesis
    by (simp add: rb_sibling_def bsd_tail_def)
next
  case (RFr l a c k d)
  with bsd_round_right [of cmp nf t l a c k d fs x tmp t1 black] z x s st g show ?thesis
    by (simp add: rb_sibling_def bsd_tail_def)
qed

lemma bsd_sibling_red:
  assumes z: "zrep cmp nf t (f # fs) x" and s: "sib f = Nd sl sa RB_RED sk sd sr"
  shows "\<exists>t1 g gs. zcase2 (f # fs) = g # gs \<and> rb_sibling f t = Some (rt (sib g), t1) \<and>
    zrep cmp nf t1 (g # gs) x \<and> faddr g = faddr f \<and> (\<forall>tmp t. bsd_tail g tmp t = bsd_tail f tmp t) \<and> fcol g = RB_RED"
proof (cases f)
  case (LFr a c k d r)
  with s z have "zrep cmp nf t (LFr a c k d (Nd sl sa RB_RED sk sd sr) # fs) x" by simp
  from bsd_sibling_left [OF this] LFr s show ?thesis by (auto simp: rb_sibling_def bsd_tail_def)
next
  case (RFr l a c k d)
  with s z have "zrep cmp nf t (RFr (Nd sl sa RB_RED sk sd sr) a c k d # fs) x" by simp
  from bsd_sibling_right [OF this] RFr s show ?thesis by (auto simp: rb_sibling_def bsd_tail_def)
qed

lemma paint_fill: "paint c (fill f x) = fill (fpaint c f) x"
  by (cases f) auto

lemma rt_fill: "rt (fill f x) = Some (faddr f)" "tcol (fill f x) = fcol f"
  by (cases f; simp)+

lemma set_sib_sel: "faddr (set_sib s f) = faddr f" "fcol (set_sib s f) = fcol f"
  by (cases f; simp)+

lemma zcase2_inv:
  assumes "cinv (f # fs) (Suc h)" "tcol (sib f) = RB_RED" "zcase2 (f # fs) = g # gs"
  shows "cinv (g # gs) (Suc h) \<and> tcol (sib g) = RB_BLACK"
  using assms by (cases "(f # fs)" rule: zcase2.cases) (auto split: if_splits)

text \<open>A round whose sibling \<open>sib g\<close>, after the first step, has two black children.\<close>

lemma bsd_round_recolor:
  assumes z: "zrep cmp nf t (f # fs) x" and x: "tcol x = RB_BLACK" and s: "sib f \<noteq> Lf"
    and st: "rb_sibling f t = Some (rt (sib g), t1)" "zrep cmp nf t1 (g # gs) x" "faddr g = faddr f"
    and sg: "sib g = Nd sl sa RB_BLACK sk sd sr" "black_kids (sib g)"
  shows "\<exists>t2. RB_REMOVE_COLOR (Some (faddr f)) (rt x) t = RB_REMOVE_COLOR (ctop gs) (Some (faddr f)) t2 \<and>
    zrep cmp nf t2 gs (fill (set_sib (paint RB_RED (sib g)) g) x)"
proof -
  from bsd_recolor_sibling [OF st(2) sg(1)] obtain t2 where
    t2: "set_color RB_RED (Some sa) t1 = Some t2" "get_parent t2 (Some (faddr g)) = Some (ctop gs)"
      "zrep cmp nf t2 gs (fill (set_sib (paint RB_RED (sib g)) g) x)" by blast
  have "rb_black_children t1 (Some sa) = Some True" using bsd_black_children [OF st(2) sg(1)] sg(2) by simp
  with bsd_round [OF z x s, of "Some sa" t1 True f] st sg(1) t2 show ?thesis by auto
qed

lemma bsd_round_borrow:
  assumes z: "zrep cmp nf t (f # fs) x" and x: "tcol x = RB_BLACK" and s: "sib f \<noteq> Lf"
    and st: "rb_sibling f t = Some (rt (sib g), t1)" "zrep cmp nf t1 (g # gs) x"
      "\<And>tmp t. bsd_tail g tmp t = bsd_tail f tmp t"
    and sg: "sib g = Nd sl sa RB_BLACK sk sd sr" "\<not> black_kids (sib g)" and h: "cinv (g # gs) (Suc h)"
  shows "\<exists>t2. RB_REMOVE_COLOR (Some (faddr f)) (rt x) t = Some t2 \<and> zrep cmp nf t2 [] (plug (zcase5 (g # gs)) x)"
proof -
  from bsd_borrow [OF st(2) sg h] obtain t2 t3 where
    t2: "bsd_tail g (Some sa) t1 = Some t2" "rb_paint_black (rb_root t2) t2 = Some t3"
      "zrep cmp nf t3 [] (plug (zcase5 (g # gs)) x)" by blast
  have "rb_black_children t1 (Some sa) = Some False" using bsd_black_children [OF st(2) sg(1)] sg(2) by simp
  with bsd_round [OF z x s, of "Some sa" t1 False g] st sg(1) t2 show ?thesis by auto
qed

lemma bsd_remove_color:
  assumes "zrep cmp nf t fs x" "tcol x = RB_BLACK" "cinv fs (Suc h)"
  shows "\<exists>t'. RB_REMOVE_COLOR (ctop fs) (rt x) t = Some t' \<and> zrep cmp nf t' [] (plug (zdel fs) x)"
  using assms
proof (induction fs arbitrary: x t h)
  case Nil
  with bsd_remove_root [OF Nil.prems(1,2)] show ?case by simp
next
  case (Cons f fs)
  note z = Cons.prems(1) and x = Cons.prems(2) and h = Cons.prems(3)
  from cinv_Suc_sib [OF h] have s: "sib f \<noteq> Lf" .
  then obtain sl sa sc sk sd sr where sf: "sib f = Nd sl sa sc sk sd sr" by (cases "sib f") auto
  text \<open>The end of a round at a position \<open>g # gs\<close> whose sibling is black.\<close>
  have finish: "\<exists>t'. RB_REMOVE_COLOR (Some (faddr f)) (rt x) t = Some t' \<and> zrep cmp nf t' [] (plug (zcase4 (g # gs)) x)"
    if st: "rb_sibling f t = Some (rt (sib g), t1)" "zrep cmp nf t1 (g # gs) x" "faddr g = faddr f"
      "\<And>tmp t. bsd_tail g tmp t = bsd_tail f tmp t"
      and g: "cinv (g # gs) (Suc h)" "tcol (sib g) = RB_BLACK" "black_kids (sib g) \<longrightarrow> fcol g = RB_RED" for g gs t1
  proof -
    from cinv_Suc_sib [OF g(1)] g(2) obtain l a k d r where sg: "sib g = Nd l a RB_BLACK k d r"
      by (cases "sib g") auto
    show ?thesis
    proof (cases "black_kids (sib g)")
      case True
      with g(3) have red: "fcol g = RB_RED" by simp
      let ?x = "fill (set_sib (paint RB_RED (sib g)) g) x"
      from bsd_round_recolor [OF z x s st(1-3) sg True] obtain t2 where
        t2: "RB_REMOVE_COLOR (Some (faddr f)) (rt x) t = RB_REMOVE_COLOR (ctop gs) (Some (faddr f)) t2"
          "zrep cmp nf t2 gs ?x" by blast
      from bsd_remove_stop [OF t2(2)] red obtain t' where
        "RB_REMOVE_COLOR (ctop gs) (rt ?x) t2 = Some t'" "zrep cmp nf t' [] (plug gs (paint RB_BLACK ?x))"
        by (auto simp: rt_fill set_sib_sel)
      with t2(1) st(3) red g(2) True show ?thesis by (simp add: rt_fill set_sib_sel paint_fill)
    next
      case False
      from bsd_round_borrow [OF z x s st(1,2,4) sg False g(1)] False show ?thesis by simp
    qed
  qed
  show ?case
  proof (cases "sc = RB_RED")
    case True
    with sf bsd_sibling_red [OF z] obtain t1 g gs where
      g: "zcase2 (f # fs) = g # gs" "rb_sibling f t = Some (rt (sib g), t1)" "zrep cmp nf t1 (g # gs) x"
        "faddr g = faddr f" "\<And>tmp t. bsd_tail g tmp t = bsd_tail f tmp t" "fcol g = RB_RED" by blast
    from zcase2_inv [OF h _ g(1)] sf True have "cinv (g # gs) (Suc h)" "tcol (sib g) = RB_BLACK" by simp_all
    from finish [OF g(2-5) this] g(1,6) sf True show ?thesis by simp
  next
    case False
    then have sb: "sib f = Nd sl sa RB_BLACK sk sd sr" using sf by (cases sc) auto
    have st: "rb_sibling f t = Some (rt (sib f), t)"
      using bsd_sibling_black [OF z sb] sb by (cases f) (simp_all add: rb_sibling_def)
    show ?thesis
    proof (cases "fcol f = RB_BLACK \<and> black_kids (sib f)")
      case True
      let ?x = "fill (set_sib (paint RB_RED (sib f)) f) x"
      from bsd_round_recolor [OF z x s st z refl sb] True obtain t2 where
        t2: "RB_REMOVE_COLOR (Some (faddr f)) (rt x) t = RB_REMOVE_COLOR (ctop fs) (Some (faddr f)) t2"
          "zrep cmp nf t2 fs ?x" by blast
      have "cinv fs (Suc (Suc h))" using h True by (cases f) auto
      from Cons.IH [OF t2(2) _ this] True t2(1) sb show ?thesis by (simp add: rt_fill set_sib_sel)
    next
      case other: False
      then have "black_kids (sib f) \<longrightarrow> fcol f = RB_RED" by (cases "fcol f") auto
      from finish [OF st z refl refl h _ this] sb other show ?thesis by (auto split: if_splits)
    qed
  qed
qed

end
