(* ===== verification/Bsd_Rbtree_Correct.thy ===== *)
theory Bsd_Rbtree_Correct
  imports Bsd_Rbtree_Delete Rbtree_Iterate
begin

text \<open>
  Correctness of the red-black tree of tree.h: search, insertion, removal and iteration act on the
  list of the elements in key order, and keep the tree well-formed.
\<close>

section \<open>The elements of a tree\<close>

definition bsd_holds :: "('k::linorder, 'd) rbtree \<Rightarrow> ('k, 'd) entry list \<Rightarrow> bool" where
  "bsd_holds t es \<longleftrightarrow> (\<exists>x. rb_shape t x \<and> nds x = es)"

abbreviation ekey :: "('k, 'd) entry \<Rightarrow> 'k" where
  "ekey e \<equiv> fst (snd e)"

text \<open>The element with a key, if there is one.\<close>

definition elm_with :: "'k \<Rightarrow> ('k, 'd) entry list \<Rightarrow> ptr" where
  "elm_with key es = first_addr (filter (\<lambda>e. ekey e = key) es)"

lemma nds_zfix: "x \<noteq> Lf \<Longrightarrow> nds (zfix fs x) = nlefts fs @ nds x @ nrights fs"
proof -
  have p: "nds (paint c u) = nds u" for c and u :: "('a, 'b) rtree" by (cases u) auto
  have f: "nds (fill f x) = nlefts [f] @ nds x @ nrights [f]" for f and x :: "('a, 'b) rtree" by (cases f) auto
  show "x \<noteq> Lf \<Longrightarrow> nds (zfix fs x) = nlefts fs @ nds x @ nrights fs"
    by (induction fs x rule: zfix.induct) (auto simp: p f split: rtree.splits)
qed

lemma nds_paint [simp]: "nds (paint c x) = nds x"
  by (cases x) auto

lemma nlefts_nrights_set_sib:
  "nds s = nds (sib f) \<Longrightarrow> nlefts (set_sib s f # fs) = nlefts (f # fs) \<and> nrights (set_sib s f # fs) = nrights (f # fs)"
  by (cases f) auto

lemma nlefts_nrights_fpaint [simp]:
  "nlefts (fpaint c f # fs) = nlefts (f # fs)" "nrights (fpaint c f # fs) = nrights (f # fs)"
  by (cases f; simp)+

lemma nlefts_zcase6 [simp]: "nlefts (zcase6 fs) = nlefts fs" "nrights (zcase6 fs) = nrights fs"
  by (induction fs rule: zcase6.induct) auto

lemma nlefts_zcase5 [simp]: "nlefts (zcase5 fs) = nlefts fs" "nrights (zcase5 fs) = nrights fs"
  by (induction fs rule: zcase5.induct) auto

lemma nlefts_zcase4 [simp]: "nlefts (zcase4 fs) = nlefts fs" "nrights (zcase4 fs) = nrights fs"
  by (induction fs rule: zcase4.induct) (simp_all add: nlefts_nrights_set_sib)

lemma nlefts_zcase2 [simp]: "nlefts (zcase2 fs) = nlefts fs" "nrights (zcase2 fs) = nrights fs"
  by (induction fs rule: zcase2.induct) auto

lemma nlefts_zdel [simp]: "nlefts (zdel fs) = nlefts fs \<and> nrights (zdel fs) = nrights fs"
proof (induction fs)
  case (Cons f fs)
  then have "nlefts (f # zdel fs) = nlefts (f # fs)" "nrights (f # zdel fs) = nrights (f # fs)" by (cases f; simp)+
  then show ?case using nlefts_nrights_set_sib [of "paint RB_RED (sib f)" f "zdel fs"]
      nlefts_nrights_set_sib [of "paint RB_RED (sib f)" f fs] by simp
qed simp

section \<open>The search\<close>

text \<open>The comparison of the macros has the arguments of \<open>do_lookup\<close>'s exchanged.\<close>

definition flip_cmp :: "('k \<Rightarrow> 'k \<Rightarrow> int) \<Rightarrow> 'k \<Rightarrow> 'k \<Rightarrow> int" where
  "flip_cmp cmp k key = - cmp key k"

lemma flip_cmp_ok: "cmp_ok cmp \<Longrightarrow> cmp_ok (flip_cmp cmp)"
  using cmp_okD [of cmp] unfolding cmp_ok_def flip_cmp_def by (metis linorder_neqE neg_0_less_iff_less neg_equal_0_iff_equal neg_less_0_iff_less not_less_iff_gr_or_eq)

lemma bsd_find_sim:
  assumes "zrep cmp nf t fs x" "deref t (Some e) = Some n" "zfind (flip_cmp cmp) (rb_key n) fs x = (gs, y)"
  shows "rb_find_walk t (Some e) (rt x) = Some (rt y)"
  using assms
proof (induction x arbitrary: fs)
  case Lf
  then show ?case by (simp add: rb_find_walk.simps)
next
  case (Nd l a c k d r)
  have cmp: "rb_compare t = cmp" using Nd.prems(1) by (simp add: zrep_def)
  have L: "zrep cmp nf t (LFr a c k d r # fs) l" and R: "zrep cmp nf t (RFr l a c k d # fs) r"
    using Nd.prems(1) by (simp_all add: zrep_up)
  note read = zrep_position(1) [OF Nd.prems(1)] Nd.prems(2) cmp
  consider "cmp (rb_key n) k = 0" | "cmp (rb_key n) k < 0" | "cmp (rb_key n) k > 0" by linarith
  then show ?case
  proof cases
    case 1
    with read Nd.prems(3) show ?thesis by (auto simp: rb_find_walk.simps [of t _ "Some a"] elm_cmp_def flip_cmp_def)
  next
    case 2
    with read Nd.prems(3) Nd.IH(1) [OF L] Nd.prems(2) show ?thesis
      by (simp add: rb_find_walk.simps [of t _ "Some a"] elm_cmp_def flip_cmp_def Let_def)
  next
    case 3
    with read Nd.prems(3) Nd.IH(2) [OF R] Nd.prems(2) show ?thesis
      by (simp add: rb_find_walk.simps [of t _ "Some a"] elm_cmp_def flip_cmp_def Let_def)
  qed
qed

text \<open>The walk of \<open>RB_INSERT\<close> also knows the side on which the element has to be linked.\<close>

definition link_side :: "('k, 'd) frame list \<Rightarrow> int \<Rightarrow> bool" where
  "link_side gs cm \<longleftrightarrow> (case gs of [] \<Rightarrow> True | LFr a c k d r # fs \<Rightarrow> cm < 0 | RFr l a c k d # fs \<Rightarrow> cm > 0)"

lemma bsd_insert_walk_sim:
  assumes "zrep cmp nf t fs x" "deref t (Some e) = Some n" "zfind (flip_cmp cmp) (rb_key n) fs x = (gs, y)" "link_side fs cm"
  shows "\<exists>p cm'. rb_insert_walk t (Some e) (rt x) (ctop fs) cm = Some (rt y, p, cm') \<and>
    (y = Lf \<longrightarrow> p = ctop gs \<and> link_side gs cm')"
  using assms
proof (induction x arbitrary: fs cm)
  case Lf
  then show ?case by (simp add: rb_insert_walk.simps)
next
  case (Nd l a c k d r)
  have cmp: "rb_compare t = cmp" using Nd.prems(1) by (simp add: zrep_def)
  have L: "zrep cmp nf t (LFr a c k d r # fs) l" and R: "zrep cmp nf t (RFr l a c k d # fs) r"
    using Nd.prems(1) by (simp_all add: zrep_up)
  note read = zrep_position(1) [OF Nd.prems(1)] Nd.prems(2) cmp
  consider "cmp (rb_key n) k = 0" | "cmp (rb_key n) k < 0" | "cmp (rb_key n) k > 0" by linarith
  then show ?case
  proof cases
    case 1
    with read Nd.prems(3) show ?thesis by (auto simp: rb_insert_walk.simps [of t _ "Some a"] elm_cmp_def flip_cmp_def)
  next
    case 2
    with Nd.prems(3) have f: "zfind (flip_cmp cmp) (rb_key n) (LFr a c k d r # fs) l = (gs, y)"
      by (simp add: flip_cmp_def [of cmp k] Let_def)
    have "link_side (LFr a c k d r # fs) (cmp (rb_key n) k)" using 2 by (simp add: link_side_def)
    from Nd.IH(1) [OF L Nd.prems(2) f this] read 2 show ?thesis
      by (simp add: rb_insert_walk.simps [of t _ "Some a"] elm_cmp_def)
  next
    case 3
    with Nd.prems(3) have f: "zfind (flip_cmp cmp) (rb_key n) (RFr l a c k d # fs) r = (gs, y)"
      by (simp add: flip_cmp_def [of cmp k] Let_def)
    have "link_side (RFr l a c k d # fs) (cmp (rb_key n) k)" using 3 by (simp add: link_side_def)
    from Nd.IH(2) [OF R Nd.prems(2) f this] read 3 show ?thesis
      by (simp add: rb_insert_walk.simps [of t _ "Some a"] elm_cmp_def)
  qed
qed

text \<open>What the position found says about the elements.\<close>

lemma bsd_position:
  assumes x: "rb_shape t x" and f: "zfind (flip_cmp (rb_compare t)) key [] x = (gs, y)"
  shows "nds x = nlefts gs @ nds y @ nrights gs" "\<forall>e \<in> set (nlefts gs). ekey e < key" "\<forall>e \<in> set (nrights gs). key < ekey e"
    "elm_with key (nds x) = rt y" "y = Lf \<longleftrightarrow> key \<notin> ekey ` set (nds x)"
proof -
  have c: "cmp_ok (flip_cmp (rb_compare t))" and s: "keys_sorted (inorder x)"
    using x flip_cmp_ok by (auto simp: rb_shape_def)
  show n: "nds x = nlefts gs @ nds y @ nrights gs" using zfind_plug [OF f] by (metis nds_plug plug.simps(1))
  note o = zfind_order [OF c f s]
  show l: "\<forall>e \<in> set (nlefts gs). ekey e < key" and r: "\<forall>e \<in> set (nrights gs). key < ekey e"
    using o by (auto simp: lefts_nlefts)
  have none: "filter (\<lambda>e. ekey e = key) (nlefts gs) = []" "filter (\<lambda>e. ekey e = key) (nrights gs) = []"
    using l r by (auto simp: filter_empty_conv)
  have y: "elm_with key (nds x) = rt y \<and> (y = Lf \<longleftrightarrow> key \<notin> ekey ` set (nds x))"
  proof (cases y)
    case Lf
    with n l r none show ?thesis by (auto simp: elm_with_def)
  next
    case (Nd yl a c k d yr)
    with o have k: "k = key" by simp
    have "keys_sorted (inorder y)"
      using s n by (simp add: inorder_nds)
    then have "\<forall>p \<in> set (inorder yl). fst p < k" "\<forall>p \<in> set (inorder yr). k < fst p" using Nd by auto
    then have "filter (\<lambda>e. ekey e = key) (nds yl) = []" "filter (\<lambda>e. ekey e = key) (nds yr) = []"
      using k by (auto simp: filter_empty_conv inorder_nds)
    with n none Nd k show ?thesis by (simp add: elm_with_def)
  qed
  then show "elm_with key (nds x) = rt y" "y = Lf \<longleftrightarrow> key \<notin> ekey ` set (nds x)" by blast+
qed

section \<open>Finding\<close>

lemma bsd_holds_find:
  assumes "bsd_holds t es" "deref t (Some e) = Some n"
  shows "RB_FIND (Some e) t = Some (elm_with (rb_key n) es)"
proof -
  from assms(1) obtain x where x: "rb_shape t x" "nds x = es" by (auto simp: bsd_holds_def)
  then have z: "zrep (rb_compare t) (rb_fresh t) t [] x" by (simp add: rb_shape_def)
  obtain gs y where f: "zfind (flip_cmp (rb_compare t)) (rb_key n) [] x = (gs, y)" by force
  from bsd_find_sim [OF z assms(2) f] bsd_position(4) [OF x(1) f] x(2) zrep_root [OF z]
  show ?thesis by (simp add: RB_FIND_def)
qed

section \<open>Inserting\<close>

lemma bsd_link_sim:
  assumes z: "zrep cmp nf t gs Lf" and a: "a \<notin> caddrs gs" "a < nf"
    and n: "rb_nodes t a = Some (mk_node p0 l0 r0 c0 key data)" and s: "link_side gs cm"
  shows "\<exists>t1 t'. RB_SET (Some a) (ctop gs) t = Some t1 \<and>
     (if ctop gs \<noteq> NULL
      then if cm < 0 then set_left (Some a) (ctop gs) t1 else set_right (Some a) (ctop gs) t1
      else Some (t1\<lparr>rb_root := Some a\<rparr>)) = Some t' \<and>
     zrep cmp nf t' gs (Nd Lf a RB_RED key data Lf)"
proof (cases gs)
  case Nil
  with z a n show ?thesis by (simp add: zrep_def rb_defs RB_SET_def)
next
  case (Cons f fs)
  show ?thesis
  proof (cases f)
    case (LFr b c k d r)
    with s Cons have "cm < 0" by (simp add: link_side_def)
    with z a n Cons LFr show ?thesis by (auto simp: zrep_def rb_defs RB_SET_def)
  next
    case (RFr l b c k d)
    with s Cons have "\<not> cm < 0" by (simp add: link_side_def)
    with z a n Cons RFr show ?thesis by (auto simp: zrep_def rb_defs RB_SET_def)
  qed
qed

lemma rb_shapeI:
  assumes "zrep (rb_compare t) (rb_fresh t) t' [] y" "rbt_inv y" "sorted_wrt (<) (map ekey (nds y))" "cmp_ok (rb_compare t)"
  shows "rb_shape t' y"
  using assms by (auto simp: rb_shape_def zrep_def keys_sorted_def inorder_nds comp_def)

lemma rb_shape_sorted: "rb_shape t x \<Longrightarrow> sorted_wrt (<) (map ekey (nds x))"
  by (simp add: rb_shape_def keys_sorted_def inorder_nds comp_def)

lemma bsd_holds_insert_new:
  assumes h: "bsd_holds t es" and n: "deref t (Some e) = Some n" and e: "e \<notin> fst ` set es" "e < rb_fresh t"
    and k: "rb_key n \<notin> ekey ` set es"
  shows "\<exists>t'. RB_INSERT (Some e) t = Some (NULL, t') \<and> bsd_holds t' (insort_key ekey (e, rb_key n, rb_data n) es)"
proof -
  let ?cmp = "rb_compare t" and ?nf = "rb_fresh t" and ?new = "Nd Lf e RB_RED (rb_key n) (rb_data n) Lf"
  from h obtain x where x: "rb_shape t x" "nds x = es" by (auto simp: bsd_holds_def)
  then have z: "zrep ?cmp ?nf t [] x" and inv: "rbt_inv x" and c: "cmp_ok ?cmp" by (simp_all add: rb_shape_def)
  obtain gs y where f: "zfind (flip_cmp ?cmp) (rb_key n) [] x = (gs, y)" by force
  note pos = bsd_position [OF x(1) f]
  have y: "y = Lf" using pos(5) k x(2) by simp
  have px: "plug gs Lf = x" using zfind_plug [OF f] y by simp
  have zg: "zrep ?cmp ?nf t gs Lf" using z px zrep_plug by metis
  have a: "e \<notin> caddrs gs" using e(1) addrs_plug [of gs Lf] px x(2) by (auto simp: addrs_nds)
  have "link_side [] (0 :: int)" by (simp add: link_side_def)
  from bsd_insert_walk_sim [OF z n f this] y obtain cm where
    w: "rb_insert_walk t (Some e) (rt x) NULL 0 = Some (NULL, ctop gs, cm)" "link_side gs cm" by auto
  have "rb_nodes t e = Some (mk_node (rb_parent n) (rb_left n) (rb_right n) (rb_color n) (rb_key n) (rb_data n))"
    using n by (simp add: deref_def)
  from bsd_link_sim [OF zg a e(2) this w(2)] obtain t1 t2 where
    t1: "RB_SET (Some e) (ctop gs) t = Some t1"
      "(if ctop gs \<noteq> NULL
        then if cm < 0 then set_left (Some e) (ctop gs) t1 else set_right (Some e) (ctop gs) t1
        else Some (t1\<lparr>rb_root := Some e\<rparr>)) = Some t2" and
    z2: "zrep ?cmp ?nf t2 gs ?new" by blast
  have g: "cinv gs 0" using rbt_inv_unplug [of gs Lf] inv px by simp
  from bsd_insert_color [OF z2 _ cinv_root_black [OF g]] obtain t3 where
    t3: "RB_INSERT_COLOR (Some e) t2 = Some t3" and z3: "zrep ?cmp ?nf t3 [] (paint RB_BLACK (zfix gs ?new))" by auto
  have "RB_INSERT (Some e) t = Some (NULL, t3)"
    using w(1) t1 t3 zrep_root [OF z] by (cases gs) (auto simp: RB_INSERT_def)
  moreover have nd: "nds (paint RB_BLACK (zfix gs ?new)) = insort_key ekey (e, rb_key n, rb_data n) es"
    using pos(1-3) y x(2) insort_mid [of "nlefts gs" ekey "(e, rb_key n, rb_data n)" "nrights gs"] by (simp add: nds_zfix)
  moreover have "rb_shape t3 (paint RB_BLACK (zfix gs ?new))"
  proof (rule rb_shapeI [OF z3 _ _ c])
    show "rbt_inv (paint RB_BLACK (zfix gs ?new))" using zfix_rbt_inv [of gs ?new] g by simp
    show "sorted_wrt (<) (map ekey (nds (paint RB_BLACK (zfix gs ?new))))"
      using rb_shape_sorted [OF x(1)] pos(1-3) y
      by (auto simp: nds_zfix sorted_wrt_append intro: less_trans)
  qed
  ultimately show ?thesis by (auto simp: bsd_holds_def)
qed

lemma bsd_holds_insert_dup:
  assumes h: "bsd_holds t es" and n: "deref t (Some e) = Some n" and k: "rb_key n \<in> ekey ` set es"
  shows "RB_INSERT (Some e) t = Some (elm_with (rb_key n) es, t)"
proof -
  from h obtain x where x: "rb_shape t x" "nds x = es" by (auto simp: bsd_holds_def)
  then have z: "zrep (rb_compare t) (rb_fresh t) t [] x" by (simp add: rb_shape_def)
  obtain gs y where f: "zfind (flip_cmp (rb_compare t)) (rb_key n) [] x = (gs, y)" by force
  have y: "y \<noteq> Lf" "elm_with (rb_key n) es = rt y" using bsd_position(4,5) [OF x(1) f] k x(2) by auto
  have "link_side [] (0 :: int)" by (simp add: link_side_def)
  from bsd_insert_walk_sim [OF z n f this] obtain p cm where
    "rb_insert_walk t (Some e) (rt x) NULL 0 = Some (rt y, p, cm)" by auto
  with y zrep_root [OF z] show ?thesis by (cases y) (auto simp: RB_INSERT_def)
qed

end
