(* ===== verification/Bsd_Rbtree_Remove.thy ===== *)
theory Bsd_Rbtree_Remove
  imports Bsd_Rbtree_Correct
begin

text \<open>
  Removal and iteration of the red-black tree of tree.h: \<open>RB_REMOVE\<close> takes an element out of the list of
  the elements, \<open>RB_NEXT\<close> and \<open>RB_MINMAX\<close> move along it.
\<close>

section \<open>Unlinking an element with at most one child\<close>

lemma bsd_unlink_sim:
  assumes z: "zrep cmp nf t gs (Nd l a c k d r)" and one: "l = Lf \<or> r = Lf"
    and child: "child = (if l = Lf then r else l)"
  shows "\<exists>t'. rb_unlink (Some a) (rt child) (ctop gs) t = Some t' \<and> zrep cmp nf t' gs child \<and>
     rb_nodes t' a = rb_nodes t a \<and> a \<notin> addrs child \<union> caddrs gs"
proof (cases gs)
  case Nil
  with assms show ?thesis
    by (cases r; cases l; simp add: zrep_def rb_defs rb_unlink_def replace_child_def zrep_norm)
next
  case (Cons f hs)
  then show ?thesis
  proof (cases f)
    case (LFr b c' k' d' u)
    with z one child Cons show ?thesis
      by (cases r; cases l; simp add: zrep_def rb_defs rb_unlink_def replace_child_def rt_neq zrep_norm)
  next
    case (RFr u b c' k' d')
    with z one child Cons have "rt u \<noteq> Some a" by (auto simp: zrep_def dest: rt_in_addrs)
    with z one child Cons RFr show ?thesis
      by (cases r; cases l;
          simp add: zrep_def rb_defs rb_unlink_def replace_child_def rt_neq rt_neq [symmetric] zrep_norm)
  qed
qed

text \<open>Rebalancing where the element was.\<close>

lemma bsd_finish:
  assumes z: "zrep cmp nf t gs child" and one: "l = Lf \<or> r = Lf" and child: "child = (if l = Lf then r else l)"
    and inv: "rbt_inv (plug gs (Nd l a c k d r))"
  shows "\<exists>t' y. (if c = RB_BLACK then RB_REMOVE_COLOR (ctop gs) (rt child) t else Some t) = Some t' \<and>
     zrep cmp nf t' [] y \<and> rbt_inv y \<and> nds y = nlefts gs @ nds child @ nrights gs"
proof -
  have y: "cinv gs (bh (Nd l a c k d r))" "invh (Nd l a c k d r)" "invc (Nd l a c k d r)"
    "ccol gs = RB_RED \<longrightarrow> c = RB_BLACK"
    using rbt_inv_unplug [OF inv] by auto
  have bh: "bh l = 0" "bh r = 0" using one y(2) by auto
  have ch: "bh child = 0" "invh child" "invc child" using bh y(2,3) by (auto simp: child)
  consider (red) "c = RB_RED" | (stop) "c = RB_BLACK" "tcol child = RB_RED" | (color) "c = RB_BLACK" "tcol child = RB_BLACK"
    using color_not_red by blast
  then show ?thesis
  proof cases
    case red
    then have "child = Lf" using y(3) bh bh_0 by (auto simp: child)
    moreover have "gs \<noteq> []" using inv red by (auto simp: rbt_inv_def)
    ultimately have "rbt_inv (plug gs child)" using plug_rbt_inv [of gs Lf] y(1) bh red by simp
    moreover have "zrep cmp nf t [] (plug gs child)" using z by (simp flip: zrep_plug)
    ultimately show ?thesis using red by (intro exI [of _ t] exI [of _ "plug gs child"]) simp
  next
    case stop
    have "rbt_inv (plug gs (paint RB_BLACK child))"
      by (rule plug_rbt_inv) (use y(1) bh ch stop in \<open>auto simp: bh_paint_black\<close>)
    with bsd_remove_stop [OF z stop(2), of "ctop gs"] stop show ?thesis by fastforce
  next
    case color
    then have "child = Lf" using bh_0 ch by blast
    moreover have g: "cinv gs (Suc 0)" using y(1) bh color by simp
    then have "cinv (zdel gs) 0 \<and> ccol (zdel gs) = RB_BLACK" using zdel_inv [of gs 0] by simp
    ultimately have "rbt_inv (plug (zdel gs) child)" using plug_rbt_inv [of "zdel gs" child] by simp
    with bsd_remove_color [OF z color(2) g] color show ?thesis by fastforce
  qed
qed

section \<open>An element with two children\<close>

text \<open>The leftmost element below the right child takes the place of the removed one.\<close>

lemma bsd_substitute:
  assumes z: "zrep cmp nf t fs (Nd l a c k d r)" and l: "l \<noteq> Lf"
    and m: "rb_nodes t m = Some (mk_node p0 l0 r0 c0 mk md)" "m \<notin> addrs (Nd l a c k d r) \<union> caddrs fs" "m < nf"
  shows "\<exists>on t1 t2 t3 t'. deref t (Some a) = Some on \<and> rb_copy_field (Some m) on t = Some t1 \<and>
     replace_child (rb_parent on) (Some a) (Some m) t1 = Some t2 \<and> deref t2 (Some a) = Some on \<and>
     set_parent (Some m) (rb_left on) t2 = Some t3 \<and>
     (if rb_right on \<noteq> NULL then set_parent (Some m) (rb_right on) t3 else Some t3) = Some t' \<and>
     zrep cmp nf t' fs (Nd l m c mk md r)"
proof (cases fs)
  case Nil
  with assms show ?thesis
    by (cases r; cases l; clarsimp simp: zrep_def zrep_norm; simp add: rb_defs rb_copy_field_def replace_child_def)
next
  case (Cons f hs)
  then show ?thesis
  proof (cases f)
    case (LFr b c' k' d' u)
    with assms Cons show ?thesis
      by (cases r; cases l; clarsimp simp: zrep_def zrep_norm; simp add: rb_defs rb_copy_field_def replace_child_def rt_neq)
  next
    case (RFr u b c' k' d')
    with assms Cons have "rt u \<noteq> Some a" by (auto simp: zrep_def dest: rt_in_addrs)
    with assms Cons RFr show ?thesis
      by (cases r; cases l; clarsimp simp: zrep_def zrep_norm;
          simp add: rb_defs rb_copy_field_def replace_child_def rt_neq rt_neq [symmetric])
  qed
qed

section \<open>Removing\<close>

lemma zmin_nlefts: "zmin fs x = (gs, y) \<Longrightarrow> nlefts gs = nlefts fs"
  by (induction x arbitrary: fs) (auto split: if_splits)

lemma rbt_inv_rename:
  assumes "rbt_inv (plug fs (Nd l a c k d r))"
  shows "rbt_inv (plug fs (Nd l b c k' d' r))"
proof -
  have "fs = [] \<Longrightarrow> c = RB_BLACK" using assms by (auto simp: rbt_inv_def)
  with rbt_inv_unplug [OF assms] show ?thesis by (intro plug_rbt_inv) auto
qed

lemma bsd_remove_one:
  assumes z: "zrep cmp nf t fs (Nd l a c k d r)" and one: "l = Lf \<or> r = Lf"
    and inv: "rbt_inv (plug fs (Nd l a c k d r))"
  shows "\<exists>t' y. RB_REMOVE (Some a) t = Some (Some a, t') \<and> zrep cmp nf t' [] y \<and> rbt_inv y \<and>
     nds y = nlefts fs @ nds l @ nds r @ nrights fs"
proof -
  define child where "child = (if l = Lf then r else l)"
  from bsd_unlink_sim [OF z one child_def] obtain t1 where
    t1: "rb_unlink (Some a) (rt child) (ctop fs) t = Some t1" and z1: "zrep cmp nf t1 fs child" by blast
  from bsd_finish [OF z1 one child_def inv] obtain t2 y where
    t2: "(if c = RB_BLACK then RB_REMOVE_COLOR (ctop fs) (rt child) t1 else Some t1) = Some t2"
      "zrep cmp nf t2 [] y" "rbt_inv y" "nds y = nlefts fs @ nds child @ nrights fs" by blast
  have "RB_REMOVE (Some a) t = Some (Some a, t2)"
    using zrep_position(1) [OF z] one t1 t2(1)
    by (cases "l = Lf"; cases c) (auto simp: RB_REMOVE_def child_def Let_def)
  with t2 one show ?thesis by (auto simp: child_def)
qed

text \<open>The element that takes the place: its position, and the position it leaves.\<close>

lemma bsd_leftmost:
  assumes z: "zrep cmp nf t fs (Nd l a c k d r)" and r: "r \<noteq> Lf"
  obtains ms m mc mk md mr where "get_min t (rt r) = Some (Some m)" "r = plug ms (Nd Lf m mc mk md mr)"
    "nlefts ms = []" "zrep cmp nf t (ms @ RFr l a c k d # fs) (Nd Lf m mc mk md mr)"
proof -
  obtain ms y where ms: "\<And>hs. zmin hs r = (ms @ hs, y)" using zmin_frames by blast
  have "zrep cmp nf t (RFr l a c k d # fs) r" using z by (simp add: zrep_up)
  from get_min_sim [OF this r ms] have
    g: "get_min t (rt r) = Some (rt y)" and zy: "zrep cmp nf t (ms @ RFr l a c k d # fs) y" by auto
  from zmin_shape [OF ms r] obtain m mc mk md mr where y: "y = Nd Lf m mc mk md mr" by blast
  have "r = plug ms y" using zmin_plug [OF ms [of "[]"]] by simp
  moreover have "nlefts ms = []" using zmin_nlefts [OF ms [of "[]"]] by simp
  ultimately show thesis using that g zy y by auto
qed

lemma caddrs_append: "caddrs (fs @ gs) = caddrs fs \<union> caddrs gs"
  by (induction fs rule: caddrs.induct) auto

lemma RB_REMOVE_two:
  assumes "deref t old = Some en" "rb_left en \<noteq> NULL" "rb_right en \<noteq> NULL" "get_min t (rb_right en) = Some elm"
    and "deref t elm = Some mn" "rb_unlink elm (rb_right mn) (rb_parent mn) t = Some t1" "deref t1 elm = Some mn1"
    and "deref t1 old = Some on" "rb_copy_field elm on t1 = Some t2" "replace_child (rb_parent on) old elm t2 = Some t3"
    and "deref t3 old = Some on" "set_parent elm (rb_left on) t3 = Some t4"
    and "(if rb_right on \<noteq> NULL then set_parent elm (rb_right on) t4 else Some t4) = Some t5"
    and "(if rb_parent mn1 = old then elm else rb_parent mn) = p"
    and "(if rb_color mn = RB_BLACK then RB_REMOVE_COLOR p (rb_right mn) t5 else Some t5) = Some t6"
  shows "RB_REMOVE old t = Some (old, t6)"
  by (simp only: RB_REMOVE_def Let_def assms simp_thms if_True Option.bind.bind_lunit split_conv)

lemma bsd_remove_two:
  assumes z: "zrep cmp nf t fs (Nd l a c k d r)" and two: "l \<noteq> Lf" "r \<noteq> Lf"
    and inv: "rbt_inv (plug fs (Nd l a c k d r))"
  shows "\<exists>t' y. RB_REMOVE (Some a) t = Some (Some a, t') \<and> zrep cmp nf t' [] y \<and> rbt_inv y \<and>
     nds y = nlefts fs @ nds l @ nds r @ nrights fs"
proof -
  obtain ms m mc mk md mr where
    g: "get_min t (rt r) = Some (Some m)" and r: "r = plug ms (Nd Lf m mc mk md mr)" and ms: "nlefts ms = []" and
    zm: "zrep cmp nf t (ms @ RFr l a c k d # fs) (Nd Lf m mc mk md mr)"
    by (rule bsd_leftmost [OF z two(2)])
  let ?p = "ctop (ms @ RFr l a c k d # fs)" and ?gs = "ms @ RFr l m c mk md # fs"
  have mn: "deref t (Some m) = Some (mk_node ?p NULL (rt mr) mc mk md)" using zrep_position(1) [OF zm] by simp
  from bsd_unlink_sim [OF zm, of mr] obtain t1 where
    t1: "rb_unlink (Some m) (rt mr) ?p t = Some t1" and z1: "zrep cmp nf t1 (ms @ RFr l a c k d # fs) mr" and
    m1: "rb_nodes t1 m = rb_nodes t m" "m \<notin> addrs mr \<union> caddrs (ms @ RFr l a c k d # fs)" by auto
  have zs: "zrep cmp nf t1 fs (Nd l a c k d (plug ms mr))"
    using z1 zrep_plug [of cmp nf t1 "ms @ RFr l a c k d # fs" mr] zrep_plug [of cmp nf t1 fs] by simp
  have n1: "rb_nodes t1 m = Some (mk_node ?p NULL (rt mr) mc mk md)" using m1(1) mn by (simp add: deref_def)
  have fr: "m \<notin> addrs (Nd l a c k d (plug ms mr)) \<union> caddrs fs" "m < nf"
    using m1(2) zm by (auto simp: addrs_plug caddrs_append zrep_def)
  from bsd_substitute [OF zs two(1) n1 fr] obtain on t2 t3 t4 t5 where
    t5: "deref t1 (Some a) = Some on" "rb_copy_field (Some m) on t1 = Some t2"
      "replace_child (rb_parent on) (Some a) (Some m) t2 = Some t3" "deref t3 (Some a) = Some on"
      "set_parent (Some m) (rb_left on) t3 = Some t4"
      "(if rb_right on \<noteq> NULL then set_parent (Some m) (rb_right on) t4 else Some t4) = Some t5" and
    z5: "zrep cmp nf t5 fs (Nd l m c mk md (plug ms mr))" by blast
  have zg: "zrep cmp nf t5 ?gs mr"
    using z5 zrep_plug [of cmp nf t5 ?gs mr] zrep_plug [of cmp nf t5 fs] by simp
  have inv': "rbt_inv (plug ?gs (Nd Lf m mc mk md mr))"
    using rbt_inv_rename [OF inv, of m mk md] r by simp
  from bsd_finish [OF zg _ _ inv'] obtain t6 y where
    t6: "(if mc = RB_BLACK then RB_REMOVE_COLOR (ctop ?gs) (rt mr) t5 else Some t5) = Some t6" and
    y: "zrep cmp nf t6 [] y" "rbt_inv y" "nds y = nlefts ?gs @ nds mr @ nrights ?gs" by auto
  have "(if ?p = Some a then Some m else ?p) = ctop ?gs"
  proof (cases ms)
    case (Cons h hs)
    have "a \<notin> addrs r" using z by (simp add: zrep_def)
    then have "a \<notin> caddrs ms" using r by (simp add: addrs_plug)
    then have "faddr h \<noteq> a" using Cons faddr_in_caddrs by metis
    with Cons show ?thesis by simp
  qed simp
  then have "RB_REMOVE (Some a) t = Some (Some a, t6)"
    by (intro RB_REMOVE_two [OF zrep_position(1) [OF z] _ _ _ mn _ _ t5, where p = "ctop ?gs" and ?mn1.0 = "mk_node ?p NULL (rt mr) mc mk md"])
      (use two g t1 n1 t6 in \<open>auto simp: deref_def split: if_splits\<close>)
  moreover have "nds y = nlefts fs @ nds l @ nds r @ nrights fs" using y(3) r ms by simp
  ultimately show ?thesis using y by blast
qed

lemma bsd_holds_remove:
  assumes "bsd_holds t (us @ (e, k, d) # vs)"
  shows "\<exists>t'. RB_REMOVE (Some e) t = Some (Some e, t') \<and> bsd_holds t' (us @ vs)"
proof -
  from assms obtain x where x: "rb_shape t x" "nds x = us @ (e, k, d) # vs" by (auto simp: bsd_holds_def)
  from nds_split [OF x(2)] obtain gs l c r where
    p: "x = plug gs (Nd l e c k d r)" "us = nlefts gs @ nds l" "vs = nds r @ nrights gs" by blast
  from x(1) have inv: "rbt_inv (plug gs (Nd l e c k d r))" and c: "cmp_ok (rb_compare t)"
    and z0: "zrep (rb_compare t) (rb_fresh t) t [] x" by (simp_all add: rb_shape_def p(1))
  have z: "zrep (rb_compare t) (rb_fresh t) t gs (Nd l e c k d r)" using z0 p(1) zrep_plug by metis
  have "\<exists>t' y. RB_REMOVE (Some e) t = Some (Some e, t') \<and> zrep (rb_compare t) (rb_fresh t) t' [] y \<and> rbt_inv y \<and>
     nds y = nlefts gs @ nds l @ nds r @ nrights gs"
    using bsd_remove_one [OF z _ inv] bsd_remove_two [OF z _ _ inv] by blast
  then obtain t' y where t': "RB_REMOVE (Some e) t = Some (Some e, t')" "zrep (rb_compare t) (rb_fresh t) t' [] y"
      "rbt_inv y" "nds y = us @ vs" using p by auto
  have "sorted_wrt (<) (map ekey (us @ (e, k, d) # vs))" using rb_shape_sorted [OF x(1)] x(2) by simp
  then have "sorted_wrt (<) (map ekey (nds y))" using t'(4) by (auto simp: sorted_wrt_append)
  from rb_shapeI [OF t'(2,3) this c] t'(1,4) show ?thesis by (auto simp: bsd_holds_def)
qed

section \<open>Iterating\<close>

lemma rb_next_climb_sim: "zrep cmp nf t fs x \<Longrightarrow> x \<noteq> Lf \<Longrightarrow> rb_next_climb t (rt x) = Some (first_addr (nrights fs))"
proof (induction fs arbitrary: x)
  case Nil
  then show ?case using zrep_get_parent [OF Nil] by (simp add: rb_next_climb.simps [of t "rt x"])
next
  case (Cons f fs)
  have up: "zrep cmp nf t fs (fill f x)" using Cons.prems(1) by (simp add: zrep_up)
  show ?case
  proof (cases f)
    case (LFr a c k d r)
    with zrep_parent_links [OF Cons.prems] show ?thesis by (auto simp: rb_next_climb.simps [of t "rt x"])
  next
    case (RFr l a c k d)
    with zrep_parent_links [OF Cons.prems] Cons.IH [OF up] show ?thesis by (auto simp: rb_next_climb.simps [of t "rt x"])
  qed
qed

lemma RB_NEXT_sim:
  assumes z: "zrep cmp nf t fs (Nd l a c k d r)"
  shows "RB_NEXT (Some a) t = Some (first_addr (nds r @ nrights fs))"
proof (cases "r = Lf")
  case False
  with zrep_position [OF z] get_min_nds [OF zrep_position(3) [OF z]] show ?thesis
    by (simp add: RB_NEXT_def first_addr_append)
next
  case True
  show ?thesis
  proof (cases fs)
    case Nil
    with True zrep_position(1) [OF z] rb_next_climb_sim [OF z] show ?thesis by (simp add: RB_NEXT_def)
  next
    case (Cons f gs)
    with True zrep_position(1) [OF z] rb_next_climb_sim [OF z] zrep_parent_links [OF z [unfolded Cons]] show ?thesis
      by (cases f) (auto simp: RB_NEXT_def)
  qed
qed

lemma minmax_sim:
  "trep (rb_nodes t) p x \<Longrightarrow> rb_minmax_walk t val (rt x) q =
     Some (if x = Lf then q else if val < 0 then first_addr (nds x) else last_addr (nds x))"
proof (induction x arbitrary: p q)
  case (Nd l a c k d r)
  then show ?case by (auto simp: rb_minmax_walk.simps [of t val "Some a"] deref_def first_addr_append)
qed (simp add: rb_minmax_walk.simps)

lemma bsd_holds_minmax:
  assumes "bsd_holds t es"
  shows "RB_MINMAX val t = Some (if val < 0 then first_addr es else last_addr es)"
proof -
  from assms obtain x where x: "rb_shape t x" "nds x = es" by (auto simp: bsd_holds_def)
  then have z: "zrep (rb_compare t) (rb_fresh t) t [] x" by (simp add: rb_shape_def)
  then have "trep (rb_nodes t) NULL x" by (simp add: zrep_def)
  from minmax_sim [OF this, of val NULL] zrep_root [OF z] x(2) show ?thesis
    by (cases x) (auto simp: RB_MINMAX_def)
qed

lemma bsd_holds_next:
  assumes "bsd_holds t (us @ (e, k, d) # vs)"
  shows "RB_NEXT (Some e) t = Some (first_addr vs)"
proof -
  from assms obtain x where x: "rb_shape t x" "nds x = us @ (e, k, d) # vs" by (auto simp: bsd_holds_def)
  from nds_split [OF x(2)] obtain gs l c r where
    p: "x = plug gs (Nd l e c k d r)" "vs = nds r @ nrights gs" by blast
  from x(1) have "zrep (rb_compare t) (rb_fresh t) t [] x" by (simp add: rb_shape_def)
  then have "zrep (rb_compare t) (rb_fresh t) t gs (Nd l e c k d r)" using p(1) zrep_plug by metis
  from RB_NEXT_sim [OF this] p(2) show ?thesis by simp
qed

lemma rb_visit_correct:
  assumes "bsd_holds t (us @ vs)"
  shows "rb_visit t (first_addr vs) = Some (map fst vs)"
  using assms
proof (induction vs arbitrary: us)
  case (Cons v vs)
  obtain e k d where v: "v = (e, k, d)" by (cases v) auto
  have "RB_NEXT (Some e) t = Some (first_addr vs)" using bsd_holds_next [of t us e k d vs] Cons.prems v by simp
  moreover have "rb_visit t (first_addr vs) = Some (map fst vs)" using Cons.IH [of "us @ [v]"] Cons.prems by simp
  ultimately show ?case using v by (simp add: rb_visit.simps [of t "Some e"])
qed (simp add: rb_visit.simps)

end
