(* ===== verification/Bsd_Rbtree_Properties.thy ===== *)
theory Bsd_Rbtree_Properties
  imports Bsd_Rbtree_Remove
begin

text \<open>
  The properties of the red-black tree of tree.h, and a tree with the elements 0, 1 and 2 and the loose
  element 3 on which they are applied.
\<close>

definition bsd_example :: "(nat, nat) rbtree" where
  "bsd_example =
     \<lparr>rb_root = Some 1, rb_compare = compare_default,
      rb_nodes = (\<lambda>a. None)(
        0 \<mapsto> mk_node (Some 1) NULL NULL RB_RED 5 50, 1 \<mapsto> mk_node NULL (Some 0) (Some 2) RB_BLACK 10 60,
        2 \<mapsto> mk_node (Some 1) NULL NULL RB_RED 20 70, 3 \<mapsto> mk_node NULL NULL NULL RB_BLACK 7 80),
      rb_fresh = 4\<rparr>"

lemma bsd_example_holds: "bsd_holds bsd_example [(0, 5, 50), (1, 10, 60), (2, 20, 70)]"
  unfolding bsd_holds_def
  by (intro exI [of _ "Nd (Nd Lf 0 RB_RED 5 50 Lf) 1 RB_BLACK 10 60 (Nd Lf 2 RB_RED 20 70 Lf)"])
    (simp add: bsd_example_def rb_shape_def zrep_def rbt_inv_def compare_default_ok)

section \<open>Properties\<close>

lemma RB_FIND_correct:
  assumes "bsd_holds t es" "deref t (Some e) = Some n"
  shows "RB_FIND (Some e) t = Some (elm_with (rb_key n) es)"
  by (rule bsd_holds_find [OF assms])

lemma RB_FIND_correct_witness: "RB_FIND (Some 2) bsd_example = Some (Some 2)"
proof -
  have "deref bsd_example (Some 2) = Some (mk_node (Some 1) NULL NULL RB_RED 20 70)"
    by (simp add: deref_def bsd_example_def)
  from RB_FIND_correct [OF bsd_example_holds this] show ?thesis by (simp add: elm_with_def)
qed

text \<open>
  C35: RB_INSERT puts an element whose key is new at its place in the list of the elements in key
  order and returns NULL; if an element has the key, that element is returned and the tree is as
  before. The tree stays a red-black tree.
\<close>

lemma RB_INSERT_correct:
  assumes "bsd_holds t es" "deref t (Some e) = Some n" "e \<notin> fst ` set es" "e < rb_fresh t"
  shows "\<exists>t'. RB_INSERT (Some e) t = Some (elm_with (rb_key n) es, t') \<and>
    bsd_holds t' (if rb_key n \<in> (fst \<circ> snd) ` set es then es else insort_key (fst \<circ> snd) (e, rb_key n, rb_data n) es)"
proof (cases "rb_key n \<in> ekey ` set es")
  case True
  with bsd_holds_insert_dup [OF assms(1,2)] assms(1) show ?thesis by (auto simp: image_comp comp_def)
next
  case False
  then have "\<forall>e \<in> set es. ekey e \<noteq> rb_key n" by (metis image_eqI)
  then have "filter (\<lambda>e. ekey e = rb_key n) es = []" by (simp add: filter_empty_conv)
  then have "elm_with (rb_key n) es = NULL" by (simp add: elm_with_def)
  with bsd_holds_insert_new [OF assms False] False show ?thesis by (simp add: comp_def)
qed

lemma RB_INSERT_correct_witness:
  "\<exists>t'. RB_INSERT (Some 3) bsd_example = Some (NULL, t') \<and>
     bsd_holds t' [(0, 5, 50), (3, 7, 80), (1, 10, 60), (2, 20, 70)]"
proof -
  have "deref bsd_example (Some 3) = Some (mk_node NULL NULL NULL RB_BLACK 7 80)" "3 < rb_fresh bsd_example"
    by (simp_all add: deref_def bsd_example_def)
  from RB_INSERT_correct [OF bsd_example_holds this(1) _ this(2)] show ?thesis by (simp add: elm_with_def)
qed

text \<open>
  C36: RB_REMOVE takes exactly the given element out of the list of the elements in key order and
  returns it; the tree stays a red-black tree, also when the element had two children and its
  successor takes its place.
\<close>

lemma RB_REMOVE_correct:
  assumes "bsd_holds t (us @ (e, k, d) # vs)"
  shows "\<exists>t'. RB_REMOVE (Some e) t = Some (Some e, t') \<and> bsd_holds t' (us @ vs)"
  by (rule bsd_holds_remove [OF assms])

lemma RB_REMOVE_correct_witness:
  "\<exists>t'. RB_REMOVE (Some 1) bsd_example = Some (Some 1, t') \<and> bsd_holds t' [(0, 5, 50), (2, 20, 70)]"
  using RB_REMOVE_correct [of bsd_example "[(0, 5, 50)]" 1 10 60 "[(2, 20, 70)]"] bsd_example_holds by simp

text \<open>
  C37: The iteration over a red-black tree ends and visits every element once, in key order; RB_MIN
  and RB_MAX are the first and the last one.
\<close>

lemma RB_FOREACH_correct:
  assumes "bsd_holds t es"
  shows "RB_FOREACH t = Some (map fst es) \<and> RB_MIN t = Some (first_addr es) \<and> RB_MAX t = Some (last_addr es)"
proof -
  have "RB_MIN t = Some (first_addr es)" "RB_MAX t = Some (last_addr es)"
    using bsd_holds_minmax [OF assms] by (simp_all add: RB_MIN_def RB_MAX_def RB_NEGINF_def RB_INF_def)
  with rb_visit_correct [of t "[]" es] assms show ?thesis by (simp add: RB_FOREACH_def)
qed

lemma RB_FOREACH_correct_witness: "RB_FOREACH bsd_example = Some [0, 1, 2]"
  using RB_FOREACH_correct [OF bsd_example_holds] by simp

end
