(* ===== verification/Bsd_Splay.thy ===== *)
theory Bsd_Splay
  imports T2u_Prelude
begin

text \<open>
  The splay tree macros of src/c/libevent2/include/tree.h. \<open>SPLAY_GENERATE(name, type, field, cmp)\<close>
  defines functions on elements of a structure \<open>type\<close> with the links in \<open>field\<close>. \<open>sp_links\<close> holds the links
  of the elements at their addresses and \<open>sp_keys\<close> the part of them that \<open>cmp\<close> reads. \<open>None\<close> is a NULL or
  dangling dereference, or a loop that does not end. The local structure \<open>__node\<close> of \<open>SPLAY\<close> and
  \<open>SPLAY_MINMAX\<close> lies at the address \<open>sp_fresh\<close> while they run.
\<close>

section \<open>Elements\<close>

record splay_entry =
  spe_left :: ptr
  spe_right :: ptr

record 'k splay =
  sph_root :: ptr
  sp_cmp :: "'k \<Rightarrow> 'k \<Rightarrow> int"
  sp_links :: "addr \<Rightarrow> splay_entry option"
  sp_keys :: "addr \<Rightarrow> 'k option"
  sp_fresh :: addr

definition SPLAY_INIT :: "'k splay \<Rightarrow> 'k splay" where
  "SPLAY_INIT t = t\<lparr>sph_root := NULL\<rparr>"

definition SPLAY_EMPTY :: "'k splay \<Rightarrow> bool" where
  "SPLAY_EMPTY t \<longleftrightarrow> sph_root t = NULL"

definition SPLAY_LEFT :: "'k splay \<Rightarrow> ptr \<Rightarrow> ptr option" where
  "SPLAY_LEFT t p = do { a \<leftarrow> p; n \<leftarrow> sp_links t a; Some (spe_left n) }"

definition SPLAY_RIGHT :: "'k splay \<Rightarrow> ptr \<Rightarrow> ptr option" where
  "SPLAY_RIGHT t p = do { a \<leftarrow> p; n \<leftarrow> sp_links t a; Some (spe_right n) }"

definition splay_set_left :: "ptr \<Rightarrow> ptr \<Rightarrow> 'k splay \<Rightarrow> 'k splay option" where
  "splay_set_left p v t = do {
     a \<leftarrow> p;
     n \<leftarrow> sp_links t a;
     Some (t\<lparr>sp_links := (sp_links t)(a \<mapsto> n\<lparr>spe_left := v\<rparr>)\<rparr>) }"

definition splay_set_right :: "ptr \<Rightarrow> ptr \<Rightarrow> 'k splay \<Rightarrow> 'k splay option" where
  "splay_set_right p v t = do {
     a \<leftarrow> p;
     n \<leftarrow> sp_links t a;
     Some (t\<lparr>sp_links := (sp_links t)(a \<mapsto> n\<lparr>spe_right := v\<rparr>)\<rparr>) }"

text \<open>\<open>cmp\<close> on two elements.\<close>

definition splay_cmp :: "'k splay \<Rightarrow> ptr \<Rightarrow> ptr \<Rightarrow> int option" where
  "splay_cmp t p q = do {
     a \<leftarrow> p; b \<leftarrow> q;
     ka \<leftarrow> sp_keys t a; kb \<leftarrow> sp_keys t b;
     Some (sp_cmp t ka kb) }"

section \<open>The steps of the splay operation\<close>

definition SPLAY_ROTATE_RIGHT :: "ptr \<Rightarrow> 'k splay \<Rightarrow> 'k splay option" where
  "SPLAY_ROTATE_RIGHT tmp t = do {
     r \<leftarrow> SPLAY_RIGHT t tmp;
     t \<leftarrow> splay_set_left (sph_root t) r t;
     t \<leftarrow> splay_set_right tmp (sph_root t) t;
     Some (t\<lparr>sph_root := tmp\<rparr>) }"

definition SPLAY_ROTATE_LEFT :: "ptr \<Rightarrow> 'k splay \<Rightarrow> 'k splay option" where
  "SPLAY_ROTATE_LEFT tmp t = do {
     l \<leftarrow> SPLAY_LEFT t tmp;
     t \<leftarrow> splay_set_right (sph_root t) l t;
     t \<leftarrow> splay_set_left tmp (sph_root t) t;
     Some (t\<lparr>sph_root := tmp\<rparr>) }"

text \<open>The linking macros also change their argument \<open>tmp\<close>, which is part of the result.\<close>

definition SPLAY_LINKLEFT :: "ptr \<Rightarrow> 'k splay \<Rightarrow> (ptr \<times> 'k splay) option" where
  "SPLAY_LINKLEFT tmp t = do {
     t \<leftarrow> splay_set_left tmp (sph_root t) t;
     l \<leftarrow> SPLAY_LEFT t (sph_root t);
     Some (sph_root t, t\<lparr>sph_root := l\<rparr>) }"

definition SPLAY_LINKRIGHT :: "ptr \<Rightarrow> 'k splay \<Rightarrow> (ptr \<times> 'k splay) option" where
  "SPLAY_LINKRIGHT tmp t = do {
     t \<leftarrow> splay_set_right tmp (sph_root t) t;
     r \<leftarrow> SPLAY_RIGHT t (sph_root t);
     Some (sph_root t, t\<lparr>sph_root := r\<rparr>) }"

definition SPLAY_ASSEMBLE :: "ptr \<Rightarrow> ptr \<Rightarrow> ptr \<Rightarrow> 'k splay \<Rightarrow> 'k splay option" where
  "SPLAY_ASSEMBLE node left right t = do {
     l \<leftarrow> SPLAY_LEFT t (sph_root t);
     t \<leftarrow> splay_set_right left l t;
     r \<leftarrow> SPLAY_RIGHT t (sph_root t);
     t \<leftarrow> splay_set_left right r t;
     l \<leftarrow> SPLAY_RIGHT t node;
     t \<leftarrow> splay_set_left (sph_root t) l t;
     r \<leftarrow> SPLAY_LEFT t node;
     splay_set_right (sph_root t) r t }"

text \<open>\<open>__node\<close> with its links NULL comes into scope, and goes out of it.\<close>

definition splay_enter :: "'k splay \<Rightarrow> ptr \<times> 'k splay" where
  "splay_enter t = (Some (sp_fresh t), t\<lparr>sp_links := (sp_links t)(sp_fresh t \<mapsto> \<lparr>spe_left = NULL, spe_right = NULL\<rparr>)\<rparr>)"

definition splay_leave :: "'k splay \<Rightarrow> 'k splay" where
  "splay_leave t = t\<lparr>sp_links := (sp_links t)(sp_fresh t := None)\<rparr>"

section \<open>Splaying\<close>

text \<open>The loop of \<open>SPLAY\<close>; the results are \<open>__left\<close> and \<open>__right\<close> at its end.\<close>

partial_function (option) splay_loop :: "ptr \<Rightarrow> ptr \<Rightarrow> ptr \<Rightarrow> 'k splay \<Rightarrow> (ptr \<times> ptr \<times> 'k splay) option" where
  "splay_loop elm left right t = do {
     cm \<leftarrow> splay_cmp t elm (sph_root t);
     if cm = 0 then Some (left, right, t)
     else if cm < 0 then do {
       tmp \<leftarrow> SPLAY_LEFT t (sph_root t);
       if tmp = NULL then Some (left, right, t)
       else do {
         c \<leftarrow> splay_cmp t elm tmp;
         t \<leftarrow> (if c < 0 then SPLAY_ROTATE_RIGHT tmp t else Some t);
         l \<leftarrow> SPLAY_LEFT t (sph_root t);
         if c < 0 \<and> l = NULL then Some (left, right, t)
         else do {
           (right, t) \<leftarrow> SPLAY_LINKLEFT right t;
           splay_loop elm left right t } } }
     else do {
       tmp \<leftarrow> SPLAY_RIGHT t (sph_root t);
       if tmp = NULL then Some (left, right, t)
       else do {
         c \<leftarrow> splay_cmp t elm tmp;
         t \<leftarrow> (if c > 0 then SPLAY_ROTATE_LEFT tmp t else Some t);
         r \<leftarrow> SPLAY_RIGHT t (sph_root t);
         if c > 0 \<and> r = NULL then Some (left, right, t)
         else do {
           (left, t) \<leftarrow> SPLAY_LINKRIGHT left t;
           splay_loop elm left right t } } } }"

definition SPLAY :: "ptr \<Rightarrow> 'k splay \<Rightarrow> 'k splay option" where
  "SPLAY elm t = do {
     let (node, t) = splay_enter t;
     (left, right, t) \<leftarrow> splay_loop elm node node t;
     t \<leftarrow> SPLAY_ASSEMBLE node left right t;
     Some (splay_leave t) }"

text \<open>
  The loop of \<open>SPLAY_MINMAX\<close>. Its inner conditions on \<open>__comp\<close> repeat the outer ones. With \<open>__comp = 0\<close> it
  does not end.
\<close>

partial_function (option) splay_minmax_loop :: "int \<Rightarrow> ptr \<Rightarrow> ptr \<Rightarrow> 'k splay \<Rightarrow> (ptr \<times> ptr \<times> 'k splay) option" where
  "splay_minmax_loop cm left right t =
     (if cm < 0 then do {
        tmp \<leftarrow> SPLAY_LEFT t (sph_root t);
        if tmp = NULL then Some (left, right, t)
        else do {
          t \<leftarrow> SPLAY_ROTATE_RIGHT tmp t;
          l \<leftarrow> SPLAY_LEFT t (sph_root t);
          if l = NULL then Some (left, right, t)
          else do {
            (right, t) \<leftarrow> SPLAY_LINKLEFT right t;
            splay_minmax_loop cm left right t } } }
      else if cm > 0 then do {
        tmp \<leftarrow> SPLAY_RIGHT t (sph_root t);
        if tmp = NULL then Some (left, right, t)
        else do {
          t \<leftarrow> SPLAY_ROTATE_LEFT tmp t;
          r \<leftarrow> SPLAY_RIGHT t (sph_root t);
          if r = NULL then Some (left, right, t)
          else do {
            (left, t) \<leftarrow> SPLAY_LINKRIGHT left t;
            splay_minmax_loop cm left right t } } }
      else splay_minmax_loop cm left right t)"

definition SPLAY_MINMAX :: "int \<Rightarrow> 'k splay \<Rightarrow> 'k splay option" where
  "SPLAY_MINMAX cm t = do {
     let (node, t) = splay_enter t;
     (left, right, t) \<leftarrow> splay_minmax_loop cm node node t;
     t \<leftarrow> SPLAY_ASSEMBLE node left right t;
     Some (splay_leave t) }"

section \<open>Insertion and removal\<close>

definition SPLAY_INSERT :: "ptr \<Rightarrow> 'k splay \<Rightarrow> (ptr \<times> 'k splay) option" where
  "SPLAY_INSERT elm t =
     (if SPLAY_EMPTY t then do {
        t \<leftarrow> splay_set_right elm NULL t;
        t \<leftarrow> splay_set_left elm NULL t;
        Some (NULL, t\<lparr>sph_root := elm\<rparr>) }
      else do {
        t \<leftarrow> SPLAY elm t;
        cm \<leftarrow> splay_cmp t elm (sph_root t);
        if cm < 0 then do {
          l \<leftarrow> SPLAY_LEFT t (sph_root t);
          t \<leftarrow> splay_set_left elm l t;
          t \<leftarrow> splay_set_right elm (sph_root t) t;
          t \<leftarrow> splay_set_left (sph_root t) NULL t;
          Some (NULL, t\<lparr>sph_root := elm\<rparr>) }
        else if cm > 0 then do {
          r \<leftarrow> SPLAY_RIGHT t (sph_root t);
          t \<leftarrow> splay_set_right elm r t;
          t \<leftarrow> splay_set_left elm (sph_root t) t;
          t \<leftarrow> splay_set_right (sph_root t) NULL t;
          Some (NULL, t\<lparr>sph_root := elm\<rparr>) }
        else Some (sph_root t, t) })"

definition SPLAY_REMOVE :: "ptr \<Rightarrow> 'k splay \<Rightarrow> (ptr \<times> 'k splay) option" where
  "SPLAY_REMOVE elm t =
     (if SPLAY_EMPTY t then Some (NULL, t)
      else do {
        t \<leftarrow> SPLAY elm t;
        cm \<leftarrow> splay_cmp t elm (sph_root t);
        if cm = 0 then do {
          l \<leftarrow> SPLAY_LEFT t (sph_root t);
          if l = NULL then do {
            r \<leftarrow> SPLAY_RIGHT t (sph_root t);
            Some (elm, t\<lparr>sph_root := r\<rparr>) }
          else do {
            tmp \<leftarrow> SPLAY_RIGHT t (sph_root t);
            t \<leftarrow> SPLAY elm (t\<lparr>sph_root := l\<rparr>);
            t \<leftarrow> splay_set_right (sph_root t) tmp t;
            Some (elm, t) } }
        else Some (NULL, t) })"

section \<open>Search and iteration\<close>

definition SPLAY_FIND :: "ptr \<Rightarrow> 'k splay \<Rightarrow> (ptr \<times> 'k splay) option" where
  "SPLAY_FIND elm t =
     (if SPLAY_EMPTY t then Some (NULL, t)
      else do {
        t \<leftarrow> SPLAY elm t;
        cm \<leftarrow> splay_cmp t elm (sph_root t);
        Some (if cm = 0 then sph_root t else NULL, t) })"

partial_function (option) splay_leftmost :: "'k splay \<Rightarrow> ptr \<Rightarrow> ptr option" where
  "splay_leftmost t elm = do {
     l \<leftarrow> SPLAY_LEFT t elm;
     if l \<noteq> NULL then splay_leftmost t l else Some elm }"

definition SPLAY_NEXT :: "ptr \<Rightarrow> 'k splay \<Rightarrow> (ptr \<times> 'k splay) option" where
  "SPLAY_NEXT elm t = do {
     t \<leftarrow> SPLAY elm t;
     r \<leftarrow> SPLAY_RIGHT t elm;
     if r \<noteq> NULL then do { elm \<leftarrow> splay_leftmost t r; Some (elm, t) }
     else Some (NULL, t) }"

definition SPLAY_MIN_MAX :: "int \<Rightarrow> 'k splay \<Rightarrow> (ptr \<times> 'k splay) option" where
  "SPLAY_MIN_MAX val t = do { t \<leftarrow> SPLAY_MINMAX val t; Some (sph_root t, t) }"

definition SPLAY_NEGINF :: int where "SPLAY_NEGINF = - 1"
definition SPLAY_INF :: int where "SPLAY_INF = 1"

definition SPLAY_MIN :: "'k splay \<Rightarrow> (ptr \<times> 'k splay) option" where
  "SPLAY_MIN t = (if SPLAY_EMPTY t then Some (NULL, t) else SPLAY_MIN_MAX SPLAY_NEGINF t)"

definition SPLAY_MAX :: "'k splay \<Rightarrow> (ptr \<times> 'k splay) option" where
  "SPLAY_MAX t = (if SPLAY_EMPTY t then Some (NULL, t) else SPLAY_MIN_MAX SPLAY_INF t)"

text \<open>\<open>SPLAY_FOREACH\<close> with a body that leaves the tree alone: the elements it visits, in order.\<close>

partial_function (option) splay_visit :: "ptr \<Rightarrow> 'k splay \<Rightarrow> (addr list \<times> 'k splay) option" where
  "splay_visit x t =
     (case x of
        None \<Rightarrow> Some ([], t)
      | Some a \<Rightarrow> do {
          (x, t) \<leftarrow> SPLAY_NEXT x t;
          (as, t) \<leftarrow> splay_visit x t;
          Some (a # as, t) })"

definition SPLAY_FOREACH :: "'k splay \<Rightarrow> (addr list \<times> 'k splay) option" where
  "SPLAY_FOREACH t = do { (x, t) \<leftarrow> SPLAY_MIN t; splay_visit x t }"

declare splay_loop.simps [code] splay_minmax_loop.simps [code] splay_leftmost.simps [code] splay_visit.simps [code]

end
