(* ===== verification/Bsd_Splay_Correct.thy ===== *)
theory Bsd_Splay_Correct
  imports Bsd_Splay "HOL-Library.Tree"
begin

text \<open>
  Correctness of the splay tree of tree.h. The links represent a binary tree of addresses; splaying keeps
  the in-order list of the elements and brings the element searched for, or a neighbour of its place, to the
  root. The loops are followed with the two spines they have split off.
\<close>

section \<open>Representation\<close>

fun srt :: "addr tree \<Rightarrow> ptr" where
  "srt Leaf = NULL"
| "srt (Node l a r) = Some a"

fun srep :: "(addr \<Rightarrow> splay_entry option) \<Rightarrow> addr tree \<Rightarrow> bool" where
  "srep h Leaf = True"
| "srep h (Node l a r) \<longleftrightarrow> h a = Some \<lparr>spe_left = srt l, spe_right = srt r\<rparr> \<and> srep h l \<and> srep h r"

lemma srt_None [simp]: "srt x = NULL \<longleftrightarrow> x = Leaf" "NULL = srt x \<longleftrightarrow> x = Leaf"
  by (cases x; auto)+

lemma srep_upd [simp]: "a \<notin> set_tree x \<Longrightarrow> srep (h(a := v)) x = srep h x"
  by (induction x) auto

text \<open>
  The left spine, outermost element first: an element \<open>a\<close> with the tree \<open>l\<close> on its left, and the rest of
  the spine on its right. The right spine is its mirror image. \<open>d\<close> is the local structure.
\<close>

type_synonym spine = "(addr tree \<times> addr) list"

definition spine_end :: "addr \<Rightarrow> spine \<Rightarrow> addr" where
  "spine_end d sp = (if sp = [] then d else snd (last sp))"

fun lspine :: "(addr \<Rightarrow> splay_entry option) \<Rightarrow> addr \<Rightarrow> spine \<Rightarrow> bool" where
  "lspine h d [] \<longleftrightarrow> h d \<noteq> None"
| "lspine h d ((l, a) # sp) \<longleftrightarrow>
     map_option spe_right (h d) = Some (Some a) \<and> map_option spe_left (h a) = Some (srt l) \<and> srep h l \<and> lspine h a sp"

fun rspine :: "(addr \<Rightarrow> splay_entry option) \<Rightarrow> addr \<Rightarrow> spine \<Rightarrow> bool" where
  "rspine h d [] \<longleftrightarrow> h d \<noteq> None"
| "rspine h d ((r, a) # sp) \<longleftrightarrow>
     map_option spe_left (h d) = Some (Some a) \<and> map_option spe_right (h a) = Some (srt r) \<and> srep h r \<and> rspine h a sp"

definition saddrs :: "spine \<Rightarrow> addr set" where
  "saddrs sp = (\<Union>(l, a) \<in> set sp. insert a (set_tree l))"

lemma saddrs_simps [simp]:
  "saddrs [] = {}" "saddrs ((l, a) # sp) = insert a (set_tree l) \<union> saddrs sp"
  "saddrs (sp @ sp') = saddrs sp \<union> saddrs sp'"
  by (auto simp: saddrs_def)

lemma spine_end_simps [simp]:
  "spine_end d [] = d" "spine_end d ((l, a) # sp) = spine_end a sp" "spine_end d (sp @ [(l, a)]) = a"
  by (auto simp: spine_end_def)

lemma spine_end_in: "spine_end d sp \<in> insert d (saddrs sp)"
proof (induction sp arbitrary: d)
  case (Cons p sp)
  then show ?case using Cons.IH [of "snd p"] by (cases p) auto
qed simp

fun lplug :: "spine \<Rightarrow> addr tree \<Rightarrow> addr tree" where
  "lplug [] x = x"
| "lplug ((l, a) # sp) x = Node l a (lplug sp x)"

fun rplug :: "spine \<Rightarrow> addr tree \<Rightarrow> addr tree" where
  "rplug [] x = x"
| "rplug ((r, a) # sp) x = Node (rplug sp x) a r"

fun lelems :: "spine \<Rightarrow> addr list" where
  "lelems [] = []"
| "lelems ((l, a) # sp) = inorder l @ a # lelems sp"

fun relems :: "spine \<Rightarrow> addr list" where
  "relems [] = []"
| "relems ((r, a) # sp) = relems sp @ a # inorder r"

lemma inorder_lplug [simp]: "inorder (lplug sp x) = lelems sp @ inorder x"
  by (induction sp rule: lelems.induct) auto

lemma inorder_rplug [simp]: "inorder (rplug sp x) = inorder x @ relems sp"
  by (induction sp rule: relems.induct) auto

lemma lelems_append [simp]: "lelems (sp @ sp') = lelems sp @ lelems sp'" "relems (sp @ sp') = relems sp' @ relems sp"
  by (induction sp rule: lelems.induct) auto

lemma set_lelems [simp]: "set (lelems sp) = saddrs sp" "set (relems sp) = saddrs sp"
  by (induction sp rule: lelems.induct) auto

lemma set_lplug [simp]: "set_tree (lplug sp x) = saddrs sp \<union> set_tree x" "set_tree (rplug sp x) = set_tree x \<union> saddrs sp"
  by (induction sp rule: lelems.induct) auto

section \<open>Framing\<close>

lemma lspine_upd [simp]: "a \<notin> insert d (saddrs sp) \<Longrightarrow> lspine (h(a := v)) d sp = lspine h d sp"
  by (induction sp arbitrary: d rule: lelems.induct) auto

lemma rspine_upd [simp]: "a \<notin> insert d (saddrs sp) \<Longrightarrow> rspine (h(a := v)) d sp = rspine h d sp"
  by (induction sp arbitrary: d rule: lelems.induct) auto

text \<open>The left spine does not depend on the left link of the local structure.\<close>

lemma lspine_upd_left [simp]:
  "h d = Some n \<Longrightarrow> d \<notin> saddrs sp \<Longrightarrow> lspine (h(d \<mapsto> n\<lparr>spe_left := v\<rparr>)) d sp = lspine h d sp"
  by (cases sp rule: lelems.cases) auto

lemma rspine_upd_right [simp]:
  "h d = Some n \<Longrightarrow> d \<notin> saddrs sp \<Longrightarrow> rspine (h(d \<mapsto> n\<lparr>spe_right := v\<rparr>)) d sp = rspine h d sp"
  by (cases sp rule: lelems.cases) auto

lemma lspine_end: "lspine h d sp \<Longrightarrow> \<exists>n. h (spine_end d sp) = Some n"
  by (induction sp arbitrary: d rule: lelems.induct) auto

lemma rspine_end: "rspine h d sp \<Longrightarrow> \<exists>n. h (spine_end d sp) = Some n"
  by (induction sp arbitrary: d rule: lelems.induct) auto

lemma lspine_snoc: "lspine h d (sp @ [(l, a)]) \<longleftrightarrow> lspine h d sp \<and>
    map_option spe_right (h (spine_end d sp)) = Some (Some a) \<and> map_option spe_left (h a) = Some (srt l) \<and> srep h l"
  by (induction sp arbitrary: d rule: lelems.induct) auto

lemma rspine_snoc: "rspine h d (sp @ [(r, a)]) \<longleftrightarrow> rspine h d sp \<and>
    map_option spe_left (h (spine_end d sp)) = Some (Some a) \<and> map_option spe_right (h a) = Some (srt r) \<and> srep h r"
  by (induction sp arbitrary: d rule: lelems.induct) auto

text \<open>Extending a spine at its end.\<close>

lemma lspine_extend:
  assumes "lspine h d sp" "distinct (d # lelems sp)" "h (spine_end d sp) = Some n"
  shows "lspine (h(spine_end d sp \<mapsto> n\<lparr>spe_right := v\<rparr>)) d sp"
  using assms
proof (induction sp arbitrary: d rule: lelems.induct)
  case (2 l a sp)
  have e: "spine_end a sp \<in> insert a (saddrs sp)" by (rule spine_end_in)
  have "lspine (h(spine_end a sp \<mapsto> n\<lparr>spe_right := v\<rparr>)) a sp"
    by (rule "2.IH") (use "2.prems" in auto)
  moreover from "2.prems"(2) e have ne: "spine_end a sp \<noteq> d" "spine_end a sp \<notin> set_tree l" by auto
  moreover have "map_option spe_left ((h(spine_end a sp \<mapsto> n\<lparr>spe_right := v\<rparr>)) a) = Some (srt l)"
    using "2.prems" by auto
  moreover have "map_option spe_right ((h(spine_end a sp \<mapsto> n\<lparr>spe_right := v\<rparr>)) d) = Some (Some a)"
    using "2.prems" ne(1) by auto
  moreover have "srep h l" using "2.prems" by simp
  ultimately show ?case by (simp only: lspine.simps spine_end_simps srep_upd simp_thms not_False_eq_True)
qed simp

lemma rspine_extend:
  assumes "rspine h d sp" "distinct (d # relems sp)" "h (spine_end d sp) = Some n"
  shows "rspine (h(spine_end d sp \<mapsto> n\<lparr>spe_left := v\<rparr>)) d sp"
  using assms
proof (induction sp arbitrary: d rule: lelems.induct)
  case (2 l a sp)
  have e: "spine_end a sp \<in> insert a (saddrs sp)" by (rule spine_end_in)
  have "rspine (h(spine_end a sp \<mapsto> n\<lparr>spe_left := v\<rparr>)) a sp"
    by (rule "2.IH") (use "2.prems" in auto)
  moreover from "2.prems"(2) e have ne: "spine_end a sp \<noteq> d" "spine_end a sp \<notin> set_tree l" by auto
  moreover have "map_option spe_right ((h(spine_end a sp \<mapsto> n\<lparr>spe_left := v\<rparr>)) a) = Some (srt l)"
    using "2.prems" by auto
  moreover have "map_option spe_left ((h(spine_end a sp \<mapsto> n\<lparr>spe_left := v\<rparr>)) d) = Some (Some a)"
    using "2.prems" ne(1) by auto
  moreover have "srep h l" using "2.prems" by simp
  ultimately show ?case by (simp only: rspine.simps spine_end_simps srep_upd simp_thms not_False_eq_True)
qed simp

text \<open>A spine that ends in a link to a tree is a tree.\<close>

lemma lspine_close:
  assumes "lspine h d sp" "map_option spe_right (h (spine_end d sp)) = Some (srt x)" "srep h x"
  shows "map_option spe_right (h d) = Some (srt (lplug sp x)) \<and> srep h (lplug sp x)"
  using assms
proof (induction sp arbitrary: d rule: lelems.induct)
  case (2 l a sp)
  have "map_option spe_right (h a) = Some (srt (lplug sp x)) \<and> srep h (lplug sp x)"
    by (rule "2.IH") (use "2.prems" in auto)
  with "2.prems"(1) show ?case by (cases "h a") auto
qed simp

lemma rspine_close:
  assumes "rspine h d sp" "map_option spe_left (h (spine_end d sp)) = Some (srt x)" "srep h x"
  shows "map_option spe_left (h d) = Some (srt (rplug sp x)) \<and> srep h (rplug sp x)"
  using assms
proof (induction sp arbitrary: d rule: lelems.induct)
  case (2 l a sp)
  have "map_option spe_left (h a) = Some (srt (rplug sp x)) \<and> srep h (rplug sp x)"
    by (rule "2.IH") (use "2.prems" in auto)
  with "2.prems"(1) show ?case by (cases "h a") auto
qed simp

section \<open>The state of a loop\<close>

text \<open>
  \<open>x\<close> hangs at the root, \<open>ls\<close> and \<open>rs\<close> have been split off; nothing else has changed since \<open>t0\<close>.
\<close>

definition sstate :: "'k splay \<Rightarrow> addr \<Rightarrow> 'k splay \<Rightarrow> spine \<Rightarrow> addr tree \<Rightarrow> spine \<Rightarrow> bool" where
  "sstate t0 d t ls x rs \<longleftrightarrow>
     sph_root t = srt x \<and> srep (sp_links t) x \<and> lspine (sp_links t) d ls \<and> rspine (sp_links t) d rs \<and>
     distinct (d # lelems ls @ inorder x @ relems rs) \<and>
     sp_cmp t = sp_cmp t0 \<and> sp_keys t = sp_keys t0 \<and> sp_fresh t = sp_fresh t0 \<and>
     (\<forall>b. b \<notin> insert d (saddrs ls \<union> set_tree x \<union> saddrs rs) \<longrightarrow> sp_links t b = sp_links t0 b)"

lemmas splay_defs = SPLAY_LEFT_def SPLAY_RIGHT_def splay_set_left_def splay_set_right_def

lemma sstate_links:
  assumes "sstate t0 d t ls (Node l a r) rs"
  shows "sph_root t = Some a" "SPLAY_LEFT t (Some a) = Some (srt l)" "SPLAY_RIGHT t (Some a) = Some (srt r)"
  using assms by (simp_all add: sstate_def splay_defs)

lemma sstate_rotate_right:
  assumes "sstate t0 d t ls (Node (Node ll b lr) a r) rs"
  shows "\<exists>t'. SPLAY_ROTATE_RIGHT (Some b) t = Some t' \<and> sstate t0 d t' ls (Node ll b (Node lr a r)) rs"
  using assms by (auto simp: sstate_def SPLAY_ROTATE_RIGHT_def splay_defs)

lemma sstate_rotate_left:
  assumes "sstate t0 d t ls (Node l a (Node rl b rr)) rs"
  shows "\<exists>t'. SPLAY_ROTATE_LEFT (Some b) t = Some t' \<and> sstate t0 d t' ls (Node (Node l a rl) b rr) rs"
  using assms by (auto simp: sstate_def SPLAY_ROTATE_LEFT_def splay_defs)

text \<open>A link of the end of one spine does not concern the other spine.\<close>

lemma spine_other:
  assumes "e \<in> insert d S" "S \<inter> saddrs sp = {}" "d \<notin> saddrs sp" "h e = Some n"
  shows "rspine h d sp \<Longrightarrow> rspine (h(e \<mapsto> n\<lparr>spe_right := v\<rparr>)) d sp"
    "lspine h d sp \<Longrightarrow> lspine (h(e \<mapsto> n\<lparr>spe_left := v\<rparr>)) d sp"
proof -
  have "e = d \<or> e \<notin> insert d (saddrs sp)" using assms(1,2) by blast
  then show "rspine h d sp \<Longrightarrow> rspine (h(e \<mapsto> n\<lparr>spe_right := v\<rparr>)) d sp"
    using rspine_upd_right [of h d n sp v] rspine_upd [of e d sp h "Some (n\<lparr>spe_right := v\<rparr>)"] assms(3,4) by metis
  from \<open>e = d \<or> e \<notin> insert d (saddrs sp)\<close> show "lspine h d sp \<Longrightarrow> lspine (h(e \<mapsto> n\<lparr>spe_left := v\<rparr>)) d sp"
    using lspine_upd_left [of h d n sp v] lspine_upd [of e d sp h "Some (n\<lparr>spe_left := v\<rparr>)"] assms(3,4) by metis
qed

lemma sstate_linkleft:
  assumes s: "sstate t0 d t ls (Node l a r) rs"
  shows "\<exists>t'. SPLAY_LINKLEFT (Some (spine_end d rs)) t = Some (Some a, t') \<and> sstate t0 d t' ls l (rs @ [(r, a)])"
proof -
  let ?h = "sp_links t" and ?e = "spine_end d rs"
  have e: "?e \<in> insert d (saddrs rs)" by (rule spine_end_in)
  obtain n where n: "?h ?e = Some n" using s rspine_end unfolding sstate_def by blast
  let ?h1 = "?h(?e \<mapsto> n\<lparr>spe_left := Some a\<rparr>)"
  have dist: "distinct (d # lelems ls @ inorder l @ a # inorder r @ relems rs)" using s by (simp add: sstate_def)
  have ne: "?e \<noteq> a" "?e \<notin> set_tree l" "?e \<notin> set_tree r" using e dist by auto
  have "distinct (d # relems rs)" using dist by auto
  then have r1: "rspine ?h1 d rs" using s n by (intro rspine_extend) (simp_all add: sstate_def)
  have l1: "lspine ?h1 d ls"
    by (rule spine_other(2) [OF e]) (use n s dist in \<open>auto simp: sstate_def\<close>)
  have a1: "?h1 a = Some \<lparr>spe_left = srt l, spe_right = srt r\<rparr>" "srep ?h1 l" "srep ?h1 r"
    using s ne by (simp_all add: sstate_def)
  have e1: "map_option spe_left (?h1 ?e) = Some (Some a)" by simp
  have root: "sph_root t = Some a" using s by (simp add: sstate_def)
  define t' where "t' = t\<lparr>sp_links := ?h1, sph_root := srt l\<rparr>"
  have "SPLAY_LINKLEFT (Some ?e) t = Some (Some a, t')"
    using n a1(1) root ne(1) by (simp add: SPLAY_LINKLEFT_def splay_defs t'_def)
  moreover have r2: "rspine ?h1 d (rs @ [(r, a)])" unfolding rspine_snoc using r1 e1 a1 by (simp del: fun_upd_apply)
  have f: "\<forall>b. b \<notin> insert d (saddrs (ls) \<union> set_tree l \<union> saddrs (rs @ [(r, a)])) \<longrightarrow> ?h1 b = sp_links t0 b"
    using s e unfolding sstate_def by auto
  have sel: "sph_root t' = srt l" "sp_links t' = ?h1" "sp_cmp t' = sp_cmp t0" "sp_keys t' = sp_keys t0" "sp_fresh t' = sp_fresh t0"
    using s by (simp_all add: t'_def sstate_def)
  have dd: "distinct (d # lelems (ls) @ inorder l @ relems (rs @ [(r, a)]))" using dist by simp
  have "sstate t0 d t' (ls) l (rs @ [(r, a)])"
    unfolding sstate_def sel by (intro conjI refl a1(2) l1 r2 dd f)
  ultimately show ?thesis by blast
qed

lemma sstate_linkright:
  assumes s: "sstate t0 d t ls (Node l a r) rs"
  shows "\<exists>t'. SPLAY_LINKRIGHT (Some (spine_end d ls)) t = Some (Some a, t') \<and> sstate t0 d t' (ls @ [(l, a)]) r rs"
proof -
  let ?h = "sp_links t" and ?e = "spine_end d ls"
  have e: "?e \<in> insert d (saddrs ls)" by (rule spine_end_in)
  obtain n where n: "?h ?e = Some n" using s lspine_end unfolding sstate_def by blast
  let ?h1 = "?h(?e \<mapsto> n\<lparr>spe_right := Some a\<rparr>)"
  have dist: "distinct (d # lelems ls @ inorder l @ a # inorder r @ relems rs)" using s by (simp add: sstate_def)
  have ne: "?e \<noteq> a" "?e \<notin> set_tree l" "?e \<notin> set_tree r" using e dist by auto
  have "distinct (d # lelems ls)" using dist by auto
  then have l1: "lspine ?h1 d ls" using s n by (intro lspine_extend) (simp_all add: sstate_def)
  have r1: "rspine ?h1 d rs"
    by (rule spine_other(1) [OF e]) (use n s dist in \<open>auto simp: sstate_def\<close>)
  have a1: "?h1 a = Some \<lparr>spe_left = srt l, spe_right = srt r\<rparr>" "srep ?h1 l" "srep ?h1 r"
    using s ne by (simp_all add: sstate_def)
  have e1: "map_option spe_right (?h1 ?e) = Some (Some a)" by simp
  have root: "sph_root t = Some a" using s by (simp add: sstate_def)
  define t' where "t' = t\<lparr>sp_links := ?h1, sph_root := srt r\<rparr>"
  have "SPLAY_LINKRIGHT (Some ?e) t = Some (Some a, t')"
    using n a1(1) root ne(1) by (simp add: SPLAY_LINKRIGHT_def splay_defs t'_def)
  moreover have l2: "lspine ?h1 d (ls @ [(l, a)])" unfolding lspine_snoc using l1 e1 a1 by (simp del: fun_upd_apply)
  have f: "\<forall>b. b \<notin> insert d (saddrs (ls @ [(l, a)]) \<union> set_tree r \<union> saddrs (rs)) \<longrightarrow> ?h1 b = sp_links t0 b"
    using s e unfolding sstate_def by auto
  have sel: "sph_root t' = srt r" "sp_links t' = ?h1" "sp_cmp t' = sp_cmp t0" "sp_keys t' = sp_keys t0" "sp_fresh t' = sp_fresh t0"
    using s by (simp_all add: t'_def sstate_def)
  have dd: "distinct (d # lelems (ls @ [(l, a)]) @ inorder r @ relems (rs))" using dist by simp
  have "sstate t0 d t' (ls @ [(l, a)]) r (rs)"
    unfolding sstate_def sel by (intro conjI refl a1(3) l2 r1 dd f)
  ultimately show ?thesis by blast
qed

lemma sstate_assemble:
  assumes s: "sstate t0 d t ls (Node l a r) rs"
  shows "\<exists>t'. SPLAY_ASSEMBLE (Some d) (Some (spine_end d ls)) (Some (spine_end d rs)) t = Some t' \<and>
     sph_root t' = Some a \<and> srep (sp_links t') (Node (lplug ls l) a (rplug rs r)) \<and>
     sp_cmp t' = sp_cmp t0 \<and> sp_keys t' = sp_keys t0 \<and> sp_fresh t' = sp_fresh t0 \<and>
     (\<forall>b. b \<notin> insert d (saddrs ls \<union> set_tree (Node l a r) \<union> saddrs rs) \<longrightarrow> sp_links t' b = sp_links t0 b)"
proof -
  let ?h = "sp_links t" and ?e = "spine_end d ls" and ?f = "spine_end d rs"
  have e: "?e \<in> insert d (saddrs ls)" and f: "?f \<in> insert d (saddrs rs)" by (rule spine_end_in)+
  have dist: "distinct (d # lelems ls @ inorder l @ a # inorder r @ relems rs)" using s by (simp add: sstate_def)
  have st: "?h a = Some \<lparr>spe_left = srt l, spe_right = srt r\<rparr>" "srep ?h l" "srep ?h r" "lspine ?h d ls" "rspine ?h d rs"
    "sph_root t = Some a" using s by (simp_all add: sstate_def)
  obtain n where n: "?h ?e = Some n" using lspine_end [OF st(4)] by blast
  let ?h1 = "?h(?e \<mapsto> n\<lparr>spe_right := srt l\<rparr>)"
  have ne: "?e \<noteq> a" "?e \<notin> set_tree l" "?e \<notin> set_tree r" "?f \<noteq> a" "?f \<notin> set_tree l" "?f \<notin> set_tree r"
    using e f dist by auto
  have l1: "lspine ?h1 d ls" using st(4) n dist by (intro lspine_extend) simp_all
  have r1: "rspine ?h1 d rs" by (rule spine_other(1) [OF e]) (use n dist st(5) in auto)
  have s1: "srep ?h1 l" "srep ?h1 r" "?h1 a = ?h a" using ne st(2,3) by simp_all
  have c1: "srep ?h1 (lplug ls l)" and d1: "map_option spe_right (?h1 d) = Some (srt (lplug ls l))"
    using lspine_close [OF l1 _ s1(1)] by simp_all
  obtain m where m: "?h1 ?f = Some m" using rspine_end [OF r1] by blast
  let ?h2 = "?h1(?f \<mapsto> m\<lparr>spe_left := srt r\<rparr>)"
  have r2: "rspine ?h2 d rs" using r1 m dist by (intro rspine_extend) simp_all
  have c2: "srep ?h2 (rplug rs r)" and d2: "map_option spe_left (?h2 d) = Some (srt (rplug rs r))"
    using rspine_close [OF r2] s1(2) ne(6) by simp_all
  have "?f \<notin> set_tree (lplug ls l)" using f dist by auto
  then have c2': "srep ?h2 (lplug ls l)" using c1 by simp
  have d2': "map_option spe_right (?h2 d) = Some (srt (lplug ls l))" using d1 m by (cases "?f = d") auto
  have a2: "?h2 a = Some \<lparr>spe_left = srt l, spe_right = srt r\<rparr>" using ne st(1) by simp
  obtain nd where nd: "?h2 d = Some nd" "spe_left nd = srt (rplug rs r)" "spe_right nd = srt (lplug ls l)"
    using d2 d2' by (cases "?h2 d") simp_all
  let ?h3 = "?h2(a \<mapsto> \<lparr>spe_left = srt (lplug ls l), spe_right = srt (rplug rs r)\<rparr>)"
  have ad: "a \<noteq> d" "a \<notin> set_tree (lplug ls l)" "a \<notin> set_tree (rplug rs r)" using dist by auto
  define t' where "t' = t\<lparr>sp_links := ?h3\<rparr>"
  let ?t1 = "t\<lparr>sp_links := ?h1\<rparr>" and ?t2 = "t\<lparr>sp_links := ?h2\<rparr>"
  let ?t3 = "t\<lparr>sp_links := ?h2(a \<mapsto> \<lparr>spe_left = srt (lplug ls l), spe_right = srt r\<rparr>)\<rparr>"
  have "SPLAY_LEFT t (Some a) = Some (srt l)" "splay_set_right (Some ?e) (srt l) t = Some ?t1"
    "SPLAY_RIGHT ?t1 (Some a) = Some (srt r)" "splay_set_left (Some ?f) (srt r) ?t1 = Some ?t2"
    using st(1) s1(3) n m by (simp_all add: splay_defs)
  moreover have "SPLAY_RIGHT ?t2 (Some d) = Some (srt (lplug ls l))" "splay_set_left (Some a) (srt (lplug ls l)) ?t2 = Some ?t3"
    using nd a2 by (simp_all add: splay_defs del: fun_upd_apply)
  moreover have "SPLAY_LEFT ?t3 (Some d) = Some (srt (rplug rs r))"
    using nd ad(1) unfolding splay_defs by (simp del: fun_upd_apply add: fun_upd_other)
  moreover have "splay_set_right (Some a) (srt (rplug rs r)) ?t3 = Some t'"
    unfolding splay_defs t'_def by simp
  ultimately have "SPLAY_ASSEMBLE (Some d) (Some ?e) (Some ?f) t = Some t'"
    using st(6) by (simp add: SPLAY_ASSEMBLE_def)
  moreover have "srep (sp_links t') (Node (lplug ls l) a (rplug rs r))"
    using c2 c2' ad by (simp add: t'_def)
  moreover have "\<forall>b. b \<notin> insert d (saddrs ls \<union> set_tree (Node l a r) \<union> saddrs rs) \<longrightarrow> sp_links t' b = sp_links t0 b"
    using s e f by (auto simp: t'_def sstate_def)
  ultimately show ?thesis using s by (simp add: t'_def sstate_def)
qed

section \<open>The loops\<close>

text \<open>
  A loop stops with \<open>Node l a r\<close> at the root and spines such that \<open>P\<close> holds, and the elements are still \<open>es\<close>.
\<close>

definition splay_stop ::
  "'k splay \<Rightarrow> addr \<Rightarrow> (spine \<Rightarrow> addr tree \<Rightarrow> addr \<Rightarrow> addr tree \<Rightarrow> spine \<Rightarrow> bool) \<Rightarrow> addr list \<Rightarrow>
   (ptr \<times> ptr \<times> 'k splay) option \<Rightarrow> bool" where
  "splay_stop t0 d P es res \<longleftrightarrow>
     (\<exists>ls l a r rs t. res = Some (Some (spine_end d ls), Some (spine_end d rs), t) \<and>
        sstate t0 d t ls (Node l a r) rs \<and> lelems ls @ inorder l @ a # inorder r @ relems rs = es \<and> P ls l a r rs)"

lemma splay_stopI:
  "sstate t0 d t ls (Node l a r) rs \<Longrightarrow> P ls l a r rs \<Longrightarrow> lelems ls @ inorder l @ a # inorder r @ relems rs = es \<Longrightarrow>
     splay_stop t0 d P es (Some (Some (spine_end d ls), Some (spine_end d rs), t))"
  unfolding splay_stop_def by blast

abbreviation skey :: "'k splay \<Rightarrow> addr \<Rightarrow> 'k" where
  "skey t a \<equiv> the (sp_keys t a)"

text \<open>What \<open>SPLAY\<close> achieves for the key \<open>k\<close>: all smaller elements of the left, and greater ones of the right spine.\<close>

definition splay_near ::
  "('k::linorder) splay \<Rightarrow> 'k \<Rightarrow> spine \<Rightarrow> addr tree \<Rightarrow> addr \<Rightarrow> addr tree \<Rightarrow> spine \<Rightarrow> bool" where
  "splay_near t0 k ls l a r rs \<longleftrightarrow>
     (\<forall>b \<in> saddrs ls. skey t0 b < k) \<and> (\<forall>b \<in> saddrs rs. k < skey t0 b) \<and>
     (k < skey t0 a \<longrightarrow> l = Leaf) \<and> (skey t0 a < k \<longrightarrow> r = Leaf)"

lemma sstate_cmp:
  assumes "sstate t0 d t ls x rs" "sp_keys t0 e = Some k" "sp_keys t0 a \<noteq> None"
  shows "splay_cmp t (Some e) (Some a) = Some (sp_cmp t0 k (skey t0 a))"
  using assms by (auto simp: sstate_def splay_cmp_def)

text \<open>The order of the keys in a tree.\<close>

definition stree_ok :: "('k::linorder) splay \<Rightarrow> addr tree \<Rightarrow> bool" where
  "stree_ok t x \<longleftrightarrow> (\<forall>a \<in> set_tree x. sp_keys t a \<noteq> None) \<and> sorted_wrt (\<lambda>a b. skey t a < skey t b) (inorder x)"

lemma stree_ok_simps [simp]:
  "stree_ok t Leaf"
  "stree_ok t (Node l a r) \<longleftrightarrow> sp_keys t a \<noteq> None \<and> stree_ok t l \<and> stree_ok t r \<and>
     (\<forall>b \<in> set_tree l. skey t b < skey t a) \<and> (\<forall>b \<in> set_tree r. skey t a < skey t b)"
  by (auto simp: stree_ok_def sorted_wrt_append intro: less_trans)

text \<open>Before a round of \<open>SPLAY\<close>'s loop, and what one round does when it does not stop.\<close>

definition splay_todo ::
  "('k::linorder) splay \<Rightarrow> addr \<Rightarrow> 'k \<Rightarrow> 'k splay \<Rightarrow> spine \<Rightarrow> addr tree \<Rightarrow> spine \<Rightarrow> bool" where
  "splay_todo t0 d k t ls x rs \<longleftrightarrow>
     sstate t0 d t ls x rs \<and> x \<noteq> Leaf \<and> stree_ok t0 x \<and>
     (\<forall>b \<in> saddrs ls. skey t0 b < k) \<and> (\<forall>b \<in> saddrs rs. k < skey t0 b)"

definition splay_goes_on ::
  "('k::linorder) splay \<Rightarrow> addr \<Rightarrow> 'k \<Rightarrow> ptr \<Rightarrow> nat \<Rightarrow> addr list \<Rightarrow> (ptr \<times> ptr \<times> 'k splay) option \<Rightarrow> bool" where
  "splay_goes_on t0 d k e n es res \<longleftrightarrow>
     (\<exists>t ls x rs. res = splay_loop e (Some (spine_end d ls)) (Some (spine_end d rs)) t \<and>
        splay_todo t0 d k t ls x rs \<and> size x < n \<and> lelems ls @ inorder x @ relems rs = es)"

lemma splay_goes_onI:
  "splay_todo t0 d k t ls x rs \<Longrightarrow> size x < n \<Longrightarrow> lelems ls @ inorder x @ relems rs = es \<Longrightarrow>
     splay_goes_on t0 d k e n es (splay_loop e (Some (spine_end d ls)) (Some (spine_end d rs)) t)"
  unfolding splay_goes_on_def by blast

lemma splay_round_left:
  assumes todo: "splay_todo t0 d k t ls (Node l a r) rs" and ke: "sp_keys t0 e = Some k" and c: "cmp_ok (sp_cmp t0)"
    and lt: "k < skey t0 a" and es: "es = lelems ls @ inorder l @ a # inorder r @ relems rs"
    and res: "res = splay_loop (Some e) (Some (spine_end d ls)) (Some (spine_end d rs)) t"
  shows "splay_stop t0 d (splay_near t0 k) es res \<or> splay_goes_on t0 d k (Some e) (size (Node l a r)) es res"
proof -
  have s: "sstate t0 d t ls (Node l a r) rs" and ok: "stree_ok t0 (Node l a r)"
    and b: "\<forall>b \<in> saddrs ls. skey t0 b < k" "\<forall>b \<in> saddrs rs. k < skey t0 b"
    using todo by (simp_all add: splay_todo_def)
  have cm: "splay_cmp t (Some e) (Some a) = Some (sp_cmp t0 k (skey t0 a))" "sp_cmp t0 k (skey t0 a) < 0"
    using sstate_cmp [OF s ke] ok cmp_okD(1) [OF c lt] by simp_all
  show ?thesis
  proof (cases l)
    case Leaf
    then have "res = Some (Some (spine_end d ls), Some (spine_end d rs), t)"
      using cm sstate_links [OF s] by (simp add: res splay_loop.simps [of "Some e"])
    moreover have "splay_near t0 k ls l a r rs" using b lt Leaf by (auto simp: splay_near_def)
    ultimately show ?thesis using splay_stopI [OF s] es by metis
  next
    case (Node ll m lr)
    have cb: "splay_cmp t (Some e) (Some m) = Some (sp_cmp t0 k (skey t0 m))"
      using sstate_cmp [OF s ke] ok Node by simp
    show ?thesis
    proof (cases "k < skey t0 m")
      case True
      from sstate_rotate_right [OF s [unfolded Node]] obtain t1 where
        t1: "SPLAY_ROTATE_RIGHT (Some m) t = Some t1" and s1: "sstate t0 d t1 ls (Node ll m (Node lr a r)) rs" by blast
      note run = cm cb sstate_links [OF s] sstate_links [OF s1] cmp_okD(1) [OF c True] t1 Node
      show ?thesis
      proof (cases "ll = Leaf")
        case T: True
        with run have "res = Some (Some (spine_end d ls), Some (spine_end d rs), t1)"
          by (simp add: res splay_loop.simps [of "Some e"])
        moreover have "splay_near t0 k ls ll m (Node lr a r) rs" using b True T by (auto simp: splay_near_def)
        ultimately show ?thesis using splay_stopI [OF s1, of "splay_near t0 k" es] es Node by simp
      next
        case False
        from sstate_linkleft [OF s1] obtain t2 where
          t2: "SPLAY_LINKLEFT (Some (spine_end d rs)) t1 = Some (Some m, t2)"
            "sstate t0 d t2 ls ll (rs @ [(Node lr a r, m)])" by blast
        with run False have "res = splay_loop (Some e) (Some (spine_end d ls)) (Some (spine_end d (rs @ [(Node lr a r, m)]))) t2"
          by (simp add: res splay_loop.simps [of "Some e" _ _ t])
        moreover have "splay_todo t0 d k t2 ls ll (rs @ [(Node lr a r, m)])"
          using t2(2) False b ok Node True lt by (auto simp: splay_todo_def intro: less_trans)
        ultimately show ?thesis using splay_goes_onI [where n = "size (Node l a r)" and es = es] es Node by fastforce
      qed
    next
      case False
      then have nb: "\<not> sp_cmp t0 k (skey t0 m) < 0" using c by (simp add: cmp_ok_def)
      from sstate_linkleft [OF s] obtain t2 where
        t2: "SPLAY_LINKLEFT (Some (spine_end d rs)) t = Some (Some a, t2)" "sstate t0 d t2 ls l (rs @ [(r, a)])" by blast
      then have "res = splay_loop (Some e) (Some (spine_end d ls)) (Some (spine_end d (rs @ [(r, a)]))) t2"
        using cm cb sstate_links [OF s] nb Node by (simp add: res splay_loop.simps [of "Some e" _ _ t])
      moreover have "splay_todo t0 d k t2 ls l (rs @ [(r, a)])"
        using t2(2) b ok Node lt by (auto simp: splay_todo_def intro: less_trans)
      ultimately show ?thesis using splay_goes_onI [where n = "size (Node l a r)" and es = es] es by fastforce
    qed
  qed
qed

lemma splay_round_right:
  assumes todo: "splay_todo t0 d k t ls (Node l a r) rs" and ke: "sp_keys t0 e = Some k" and c: "cmp_ok (sp_cmp t0)"
    and gt: "skey t0 a < k" and es: "es = lelems ls @ inorder l @ a # inorder r @ relems rs"
    and res: "res = splay_loop (Some e) (Some (spine_end d ls)) (Some (spine_end d rs)) t"
  shows "splay_stop t0 d (splay_near t0 k) es res \<or> splay_goes_on t0 d k (Some e) (size (Node l a r)) es res"
proof -
  have s: "sstate t0 d t ls (Node l a r) rs" and ok: "stree_ok t0 (Node l a r)"
    and b: "\<forall>b \<in> saddrs ls. skey t0 b < k" "\<forall>b \<in> saddrs rs. k < skey t0 b"
    using todo by (simp_all add: splay_todo_def)
  have cm: "splay_cmp t (Some e) (Some a) = Some (sp_cmp t0 k (skey t0 a))" "sp_cmp t0 k (skey t0 a) > 0"
    using sstate_cmp [OF s ke] ok cmp_okD(2) [OF c gt] by simp_all
  show ?thesis
  proof (cases r)
    case Leaf
    then have "res = Some (Some (spine_end d ls), Some (spine_end d rs), t)"
      using cm sstate_links [OF s] by (simp add: res splay_loop.simps [of "Some e"])
    moreover have "splay_near t0 k ls l a r rs" using b gt Leaf by (auto simp: splay_near_def)
    ultimately show ?thesis using splay_stopI [OF s] es by metis
  next
    case (Node rl m rr)
    have cb: "splay_cmp t (Some e) (Some m) = Some (sp_cmp t0 k (skey t0 m))"
      using sstate_cmp [OF s ke] ok Node by simp
    show ?thesis
    proof (cases "skey t0 m < k")
      case True
      from sstate_rotate_left [OF s [unfolded Node]] obtain t1 where
        t1: "SPLAY_ROTATE_LEFT (Some m) t = Some t1" and s1: "sstate t0 d t1 ls (Node (Node l a rl) m rr) rs" by blast
      note run = cm cb sstate_links [OF s] sstate_links [OF s1] cmp_okD(2) [OF c True] t1 Node
      show ?thesis
      proof (cases "rr = Leaf")
        case T: True
        with run have "res = Some (Some (spine_end d ls), Some (spine_end d rs), t1)"
          by (simp add: res splay_loop.simps [of "Some e"])
        moreover have "splay_near t0 k ls (Node l a rl) m rr rs" using b True T by (auto simp: splay_near_def)
        ultimately show ?thesis using splay_stopI [OF s1, of "splay_near t0 k" es] es Node by simp
      next
        case False
        from sstate_linkright [OF s1] obtain t2 where
          t2: "SPLAY_LINKRIGHT (Some (spine_end d ls)) t1 = Some (Some m, t2)"
            "sstate t0 d t2 (ls @ [(Node l a rl, m)]) rr rs" by blast
        with run False have "res = splay_loop (Some e) (Some (spine_end d (ls @ [(Node l a rl, m)]))) (Some (spine_end d rs)) t2"
          by (simp add: res splay_loop.simps [of "Some e" _ _ t])
        moreover have "splay_todo t0 d k t2 (ls @ [(Node l a rl, m)]) rr rs"
          using t2(2) False b ok Node True gt by (auto simp: splay_todo_def intro: less_trans)
        ultimately show ?thesis using splay_goes_onI [where n = "size (Node l a r)" and es = es] es Node by fastforce
      qed
    next
      case False
      then have "k = skey t0 m \<or> k < skey t0 m" by auto
      then have nb: "\<not> sp_cmp t0 k (skey t0 m) > 0" using c unfolding cmp_ok_def by (metis less_asym less_irrefl)
      from sstate_linkright [OF s] obtain t2 where
        t2: "SPLAY_LINKRIGHT (Some (spine_end d ls)) t = Some (Some a, t2)" "sstate t0 d t2 (ls @ [(l, a)]) r rs" by blast
      then have "res = splay_loop (Some e) (Some (spine_end d (ls @ [(l, a)]))) (Some (spine_end d rs)) t2"
        using cm cb sstate_links [OF s] nb Node by (simp add: res splay_loop.simps [of "Some e" _ _ t])
      moreover have "splay_todo t0 d k t2 (ls @ [(l, a)]) r rs"
        using t2(2) b ok Node gt by (auto simp: splay_todo_def intro: less_trans)
      ultimately show ?thesis using splay_goes_onI [where n = "size (Node l a r)" and es = es] es by fastforce
    qed
  qed
qed

lemma splay_loop_sim:
  assumes "splay_todo t0 d k t ls x rs" "sp_keys t0 e = Some k" "cmp_ok (sp_cmp t0)"
  shows "splay_stop t0 d (splay_near t0 k) (lelems ls @ inorder x @ relems rs)
    (splay_loop (Some e) (Some (spine_end d ls)) (Some (spine_end d rs)) t)"
  using assms(1)
proof (induction "size x" arbitrary: x t ls rs rule: less_induct)
  case less
  obtain l a r where x: "x = Node l a r" using less.prems by (cases x) (auto simp: splay_todo_def)
  let ?es = "lelems ls @ inorder x @ relems rs"
  let ?res = "splay_loop (Some e) (Some (spine_end d ls)) (Some (spine_end d rs)) t"
  have "splay_stop t0 d (splay_near t0 k) ?es ?res \<or> splay_goes_on t0 d k (Some e) (size x) ?es ?res"
  proof (cases "skey t0 a = k")
    case True
    have s: "sstate t0 d t ls (Node l a r) rs" "stree_ok t0 (Node l a r)" "splay_near t0 k ls l a r rs"
      using less.prems x True by (simp_all add: splay_todo_def splay_near_def)
    then have "?res = Some (Some (spine_end d ls), Some (spine_end d rs), t)"
      using sstate_cmp [OF s(1) assms(2), of a] sstate_links(1) [OF s(1)] True assms(3)
      by (simp add: splay_loop.simps [of "Some e"] cmp_ok_def)
    with splay_stopI [OF s(1), of "splay_near t0 k", OF s(3) refl] x show ?thesis by simp
  next
    case False
    have es: "?es = lelems ls @ inorder l @ a # inorder r @ relems rs" by (simp add: x)
    from False consider "k < skey t0 a" | "skey t0 a < k" by (metis linorder_less_linear)
    then show ?thesis
    proof cases
      case 1
      from splay_round_left [OF less.prems [unfolded x] assms(2,3) 1 es refl] x show ?thesis by simp
    next
      case 2
      from splay_round_right [OF less.prems [unfolded x] assms(2,3) 2 es refl] x show ?thesis by simp
    qed
  qed
  then show ?case
  proof
    assume "splay_goes_on t0 d k (Some e) (size x) ?es ?res"
    then show ?thesis using less.hyps unfolding splay_goes_on_def by metis
  qed
qed

end
