(* ===== verification/Bsd_Splay_Ops.thy ===== *)
theory Bsd_Splay_Ops
  imports Bsd_Splay_Correct
begin

text \<open>
  The operations of the splay tree of tree.h on the list of the elements in key order: search, insertion,
  removal, minimum and maximum, and iteration.
\<close>

section \<open>Well-formed trees\<close>

definition splay_shape :: "('k::linorder) splay \<Rightarrow> addr tree \<Rightarrow> bool" where
  "splay_shape t x \<longleftrightarrow>
     sph_root t = srt x \<and> srep (sp_links t) x \<and> stree_ok t x \<and> cmp_ok (sp_cmp t) \<and>
     sp_fresh t \<notin> set_tree x \<and> sp_links t (sp_fresh t) = None"

definition splay_holds :: "('k::linorder) splay \<Rightarrow> addr list \<Rightarrow> bool" where
  "splay_holds t es \<longleftrightarrow> (\<exists>x. splay_shape t x \<and> inorder x = es)"

text \<open>What no operation changes: keys, comparison and the links of the other elements.\<close>

definition splay_rest :: "'k splay \<Rightarrow> 'k splay \<Rightarrow> addr set \<Rightarrow> bool" where
  "splay_rest t t' A \<longleftrightarrow>
     sp_cmp t' = sp_cmp t \<and> sp_keys t' = sp_keys t \<and> sp_fresh t' = sp_fresh t \<and>
     (\<forall>b. b \<notin> A \<longrightarrow> sp_links t' b = sp_links t b)"

lemma splay_rest_trans:
  assumes "splay_rest t t' A" "splay_rest t' t'' B" "A \<subseteq> C" "B \<subseteq> C"
  shows "splay_rest t t'' C"
proof -
  have "sp_links t'' b = sp_links t b" if "b \<notin> C" for b
  proof -
    have "b \<notin> A" "b \<notin> B" using that assms(3,4) by blast+
    then show ?thesis using assms(1,2) by (simp add: splay_rest_def)
  qed
  then show ?thesis using assms(1,2) by (simp add: splay_rest_def)
qed

lemma splay_rest_sel:
  "splay_rest t t' A \<Longrightarrow> sp_cmp t' = sp_cmp t" "splay_rest t t' A \<Longrightarrow> sp_keys t' = sp_keys t"
  "splay_rest t t' A \<Longrightarrow> sp_fresh t' = sp_fresh t"
  by (simp_all add: splay_rest_def)

lemma stree_ok_distinct: "stree_ok t x \<Longrightarrow> distinct (inorder x)"
proof -
  assume "stree_ok t x"
  then have "sorted_wrt (<) (map (skey t) (inorder x))" by (simp add: stree_ok_def sorted_wrt_map)
  then have "distinct (map (skey t) (inorder x))" using strict_sorted_iff by blast
  then show ?thesis by (simp add: distinct_map)
qed

lemma stree_ok_upd [simp]:
  "stree_ok (t\<lparr>sph_root := p\<rparr>) x = stree_ok t x" "stree_ok (t\<lparr>sp_links := h\<rparr>) x = stree_ok t x"
  by (simp_all add: stree_ok_def)

lemma stree_ok_inorder: "inorder y = inorder x \<Longrightarrow> sp_keys t' = sp_keys t \<Longrightarrow> stree_ok t' y \<longleftrightarrow> stree_ok t x"
  unfolding stree_ok_def set_inorder [symmetric] by simp

section \<open>From the loop to the whole operation\<close>

lemma splay_enter_sstate:
  assumes x: "splay_shape t x" and e: "splay_enter t = (node, t1)"
  shows "node = Some (sp_fresh t) \<and> sstate t (sp_fresh t) t1 [] x []"
  using assms stree_ok_distinct [of t x] by (auto simp: splay_enter_def splay_shape_def sstate_def)

lemma splay_finish:
  assumes x: "splay_shape t x" and st: "splay_stop t (sp_fresh t) P (inorder x) res"
  obtains t' ls l a r rs where
    "do { (left, right, t1) \<leftarrow> res; t1 \<leftarrow> SPLAY_ASSEMBLE (Some (sp_fresh t)) left right t1; Some (splay_leave t1) } = Some t'"
    "splay_shape t' (Node (lplug ls l) a (rplug rs r))" "inorder (Node (lplug ls l) a (rplug rs r)) = inorder x"
    "splay_rest t t' (set_tree x)" "P ls l a r rs"
proof -
  let ?d = "sp_fresh t"
  from st obtain ls l a r rs t1 where
    res: "res = Some (Some (spine_end ?d ls), Some (spine_end ?d rs), t1)" and s: "sstate t ?d t1 ls (Node l a r) rs" and
    es: "lelems ls @ inorder l @ a # inorder r @ relems rs = inorder x" and P: "P ls l a r rs"
    unfolding splay_stop_def by blast
  let ?y = "Node (lplug ls l) a (rplug rs r)"
  from sstate_assemble [OF s] obtain t2 where
    t2: "SPLAY_ASSEMBLE (Some ?d) (Some (spine_end ?d ls)) (Some (spine_end ?d rs)) t1 = Some t2"
      "sph_root t2 = Some a" "srep (sp_links t2) ?y" "sp_cmp t2 = sp_cmp t" "sp_keys t2 = sp_keys t" "sp_fresh t2 = sp_fresh t" and
    fr: "\<forall>b. b \<notin> insert ?d (saddrs ls \<union> set_tree (Node l a r) \<union> saddrs rs) \<longrightarrow> sp_links t2 b = sp_links t b" by blast
  have io: "inorder ?y = inorder x" using es by simp
  have sets: "set_tree ?y = set_tree x" using arg_cong [OF io, of set] by (simp only: set_inorder)
  have all: "set_tree x = saddrs ls \<union> set_tree (Node l a r) \<union> saddrs rs"
    using arg_cong [OF es, of set] by (auto simp: set_inorder)
  have d: "?d \<notin> set_tree x" "sp_links t ?d = None" using x by (simp_all add: splay_shape_def)
  have "srep (sp_links (splay_leave t2)) ?y" using t2(3,6) d(1) sets srep_upd [of ?d ?y "sp_links t2" None]
    by (simp add: splay_leave_def)
  moreover have "stree_ok (splay_leave t2) ?y" using stree_ok_inorder [OF io, of "splay_leave t2" t] x t2(5)
    by (simp add: splay_shape_def splay_leave_def)
  ultimately have "splay_shape (splay_leave t2) ?y"
    using x t2 sets by (auto simp: splay_shape_def splay_leave_def)
  moreover have "splay_rest t (splay_leave t2) (set_tree x)"
    using fr all t2(4,5,6) d by (auto simp: splay_rest_def splay_leave_def)
  ultimately show thesis using that res t2(1) io P by simp
qed

lemma SPLAY_sim:
  assumes x: "splay_shape t x" and ne: "x \<noteq> Leaf" and k: "sp_keys t e = Some k"
  obtains t' l a r where "SPLAY (Some e) t = Some t'" "splay_shape t' (Node l a r)" "inorder l @ a # inorder r = inorder x"
    "splay_rest t t' (set_tree x)" "k < skey t a \<longrightarrow> (\<forall>b \<in> set_tree l. skey t b < k)"
    "skey t a < k \<longrightarrow> (\<forall>b \<in> set_tree r. k < skey t b)"
proof -
  let ?d = "sp_fresh t"
  obtain node t1 where e: "splay_enter t = (node, t1)" by force
  note s = splay_enter_sstate [OF x e]
  have todo: "splay_todo t ?d k t1 [] x []" and c: "cmp_ok (sp_cmp t)"
    using s x ne by (auto simp: splay_todo_def splay_shape_def)
  from splay_loop_sim [OF todo k c] have st:
    "splay_stop t ?d (splay_near t k) (inorder x) (splay_loop (Some e) (Some ?d) (Some ?d) t1)" by simp
  obtain t' ls l a r rs where
    t': "do { (left, right, t1) \<leftarrow> splay_loop (Some e) (Some ?d) (Some ?d) t1;
           t1 \<leftarrow> SPLAY_ASSEMBLE (Some ?d) left right t1; Some (splay_leave t1) } = Some t'"
      "splay_shape t' (Node (lplug ls l) a (rplug rs r))" "inorder (Node (lplug ls l) a (rplug rs r)) = inorder x"
      "splay_rest t t' (set_tree x)" "splay_near t k ls l a r rs" by (rule splay_finish [OF x st])
  have run: "SPLAY (Some e) t = Some t'" using t'(1) e s by (simp add: SPLAY_def)
  have near: "k < skey t a \<longrightarrow> (\<forall>b \<in> set_tree (lplug ls l). skey t b < k)"
    "skey t a < k \<longrightarrow> (\<forall>b \<in> set_tree (rplug rs r). k < skey t b)"
    using t'(5) by (auto simp: splay_near_def)
  have "inorder (lplug ls l) @ a # inorder (rplug rs r) = inorder x" using t'(3) by simp
  from that [OF run t'(2) this t'(4) near] show thesis .
qed

section \<open>Minimum and maximum\<close>

lemma splay_min_loop_sim:
  assumes "sstate t0 d t [] x rs" "x \<noteq> Leaf" "cm < 0"
  shows "splay_stop t0 d (\<lambda>ls l a r rs. ls = [] \<and> l = Leaf) (inorder x @ relems rs)
    (splay_minmax_loop cm (Some d) (Some (spine_end d rs)) t)"
  using assms(1,2)
proof (induction "size x" arbitrary: x t rs rule: less_induct)
  case less
  obtain l a r where x: "x = Node l a r" using less.prems(2) by (cases x) auto
  note s = less.prems(1) [unfolded x]
  show ?case
  proof (cases l)
    case Leaf
    with sstate_links [OF s] assms(3) have
      "splay_minmax_loop cm (Some d) (Some (spine_end d rs)) t = Some (Some (spine_end d []), Some (spine_end d rs), t)"
      by (simp add: splay_minmax_loop.simps [of cm])
    with splay_stopI [OF s, of "\<lambda>ls l a r rs. ls = [] \<and> l = Leaf"] Leaf x show ?thesis by simp
  next
    case (Node ll m lr)
    from sstate_rotate_right [OF s [unfolded Node]] obtain t1 where
      t1: "SPLAY_ROTATE_RIGHT (Some m) t = Some t1" and s1: "sstate t0 d t1 [] (Node ll m (Node lr a r)) rs" by blast
    note run = sstate_links [OF s] sstate_links [OF s1] t1 Node assms(3)
    show ?thesis
    proof (cases "ll = Leaf")
      case True
      with run have
        "splay_minmax_loop cm (Some d) (Some (spine_end d rs)) t = Some (Some (spine_end d []), Some (spine_end d rs), t1)"
        by (simp add: splay_minmax_loop.simps [of cm])
      with splay_stopI [OF s1, of "\<lambda>ls l a r rs. ls = [] \<and> l = Leaf"] True x Node show ?thesis by simp
    next
      case False
      from sstate_linkleft [OF s1] obtain t2 where
        t2: "SPLAY_LINKLEFT (Some (spine_end d rs)) t1 = Some (Some m, t2)"
          "sstate t0 d t2 [] ll (rs @ [(Node lr a r, m)])" by blast
      with run False have "splay_minmax_loop cm (Some d) (Some (spine_end d rs)) t =
          splay_minmax_loop cm (Some d) (Some (spine_end d (rs @ [(Node lr a r, m)]))) t2"
        by (simp add: splay_minmax_loop.simps [of cm _ _ t])
      with less.hyps [OF _ t2(2) False] x Node show ?thesis by simp
    qed
  qed
qed

lemma splay_max_loop_sim:
  assumes "sstate t0 d t ls x []" "x \<noteq> Leaf" "cm > 0"
  shows "splay_stop t0 d (\<lambda>ls l a r rs. rs = [] \<and> r = Leaf) (lelems ls @ inorder x)
    (splay_minmax_loop cm (Some (spine_end d ls)) (Some d) t)"
  using assms(1,2)
proof (induction "size x" arbitrary: x t ls rule: less_induct)
  case less
  obtain l a r where x: "x = Node l a r" using less.prems(2) by (cases x) auto
  note s = less.prems(1) [unfolded x]
  show ?case
  proof (cases r)
    case Leaf
    with sstate_links [OF s] assms(3) have
      "splay_minmax_loop cm (Some (spine_end d ls)) (Some d) t = Some (Some (spine_end d ls), Some (spine_end d []), t)"
      by (simp add: splay_minmax_loop.simps [of cm])
    with splay_stopI [OF s, of "\<lambda>ls l a r rs. rs = [] \<and> r = Leaf"] Leaf x show ?thesis by simp
  next
    case (Node rl m rr)
    from sstate_rotate_left [OF s [unfolded Node]] obtain t1 where
      t1: "SPLAY_ROTATE_LEFT (Some m) t = Some t1" and s1: "sstate t0 d t1 ls (Node (Node l a rl) m rr) []" by blast
    note run = sstate_links [OF s] sstate_links [OF s1] t1 Node assms(3)
    show ?thesis
    proof (cases "rr = Leaf")
      case True
      with run have
        "splay_minmax_loop cm (Some (spine_end d ls)) (Some d) t = Some (Some (spine_end d ls), Some (spine_end d []), t1)"
        by (simp add: splay_minmax_loop.simps [of cm])
      with splay_stopI [OF s1, of "\<lambda>ls l a r rs. rs = [] \<and> r = Leaf"] True x Node show ?thesis by simp
    next
      case False
      from sstate_linkright [OF s1] obtain t2 where
        t2: "SPLAY_LINKRIGHT (Some (spine_end d ls)) t1 = Some (Some m, t2)"
          "sstate t0 d t2 (ls @ [(Node l a rl, m)]) rr []" by blast
      with run False have "splay_minmax_loop cm (Some (spine_end d ls)) (Some d) t =
          splay_minmax_loop cm (Some (spine_end d (ls @ [(Node l a rl, m)]))) (Some d) t2"
        by (simp add: splay_minmax_loop.simps [of cm _ _ t])
      with less.hyps [OF _ t2(2) False] x Node show ?thesis by simp
    qed
  qed
qed

lemma SPLAY_MINMAX_sim:
  assumes x: "splay_shape t x" and ne: "x \<noteq> Leaf" and cm: "cm \<noteq> 0"
  obtains t' l a r where "SPLAY_MINMAX cm t = Some t'" "splay_shape t' (Node l a r)" "inorder l @ a # inorder r = inorder x"
    "splay_rest t t' (set_tree x)" "if cm < 0 then l = Leaf else r = Leaf"
proof -
  let ?d = "sp_fresh t" and ?P = "\<lambda>ls l a r rs. if cm < 0 then ls = [] \<and> l = Leaf else rs = [] \<and> r = Leaf"
  obtain node t1 where e: "splay_enter t = (node, t1)" by force
  note s = splay_enter_sstate [OF x e]
  have st: "splay_stop t ?d ?P (inorder x) (splay_minmax_loop cm (Some ?d) (Some ?d) t1)"
    using splay_min_loop_sim [of t ?d t1 x "[]" cm] splay_max_loop_sim [of t ?d t1 "[]" x cm] s ne cm
    by (cases "cm < 0") auto
  obtain t' ls l a r rs where
    t': "do { (left, right, t1) \<leftarrow> splay_minmax_loop cm (Some ?d) (Some ?d) t1;
           t1 \<leftarrow> SPLAY_ASSEMBLE (Some ?d) left right t1; Some (splay_leave t1) } = Some t'"
      "splay_shape t' (Node (lplug ls l) a (rplug rs r))" "inorder (Node (lplug ls l) a (rplug rs r)) = inorder x"
      "splay_rest t t' (set_tree x)" "?P ls l a r rs" by (rule splay_finish [OF x st])
  have run: "SPLAY_MINMAX cm t = Some t'" using t'(1) e s by (simp add: SPLAY_MINMAX_def)
  have io: "inorder (lplug ls l) @ a # inorder (rplug rs r) = inorder x" using t'(3) by simp
  have "if cm < 0 then lplug ls l = Leaf else rplug rs r = Leaf" using t'(5) by (auto split: if_splits)
  from that [OF run t'(2) io t'(4) this] show thesis .
qed

lemma splay_shape_root: "splay_shape t (Node l a r) \<Longrightarrow> sph_root t = Some a"
  "splay_shape t (Node l a r) \<Longrightarrow> SPLAY_LEFT t (Some a) = Some (srt l)"
  "splay_shape t (Node l a r) \<Longrightarrow> SPLAY_RIGHT t (Some a) = Some (srt r)"
  by (simp_all add: splay_shape_def splay_defs)

lemma splay_shape_order:
  assumes "splay_shape t (Node l a r)"
  shows "\<forall>b \<in> set_tree l. skey t b < skey t a" "\<forall>b \<in> set_tree r. skey t a < skey t b" "sp_keys t a = Some (skey t a)"
  using assms by (auto simp: splay_shape_def)

lemma splay_minmax_correct:
  assumes "splay_holds t es" "es \<noteq> []" "cm \<noteq> 0"
  shows "\<exists>t'. SPLAY_MIN_MAX cm t = Some (if cm < 0 then Some (hd es) else Some (last es), t') \<and>
     splay_holds t' es \<and> splay_rest t t' (set es)"
proof -
  from assms(1) obtain x where x: "splay_shape t x" "inorder x = es" by (auto simp: splay_holds_def)
  with assms(2) have "x \<noteq> Leaf" by auto
  then obtain t' l a r where t': "SPLAY_MINMAX cm t = Some t'" "splay_shape t' (Node l a r)"
      "inorder l @ a # inorder r = inorder x" "splay_rest t t' (set_tree x)" "if cm < 0 then l = Leaf else r = Leaf"
    by (rule SPLAY_MINMAX_sim [OF x(1) _ assms(3)])
  have "(if cm < 0 then hd es else last es) = a" using t'(3,5) by (auto simp flip: t'(3) x(2) split: if_splits)
  moreover have "splay_holds t' es" using t'(2,3) x(2) by (auto simp: splay_holds_def intro!: exI [of _ "Node l a r"])
  ultimately show ?thesis using t'(1,4) splay_shape_root(1) [OF t'(2)] x(2) by (auto simp: SPLAY_MIN_MAX_def)
qed

section \<open>Search\<close>

text \<open>The element with a key, if there is one.\<close>

definition splay_with :: "'k splay \<Rightarrow> 'k \<Rightarrow> addr list \<Rightarrow> ptr" where
  "splay_with t k es = (case filter (\<lambda>a. skey t a = k) es of [] \<Rightarrow> NULL | a # as \<Rightarrow> Some a)"

lemma splay_with_mid:
  fixes t :: "('k::linorder) splay"
  assumes "\<forall>b \<in> set us. skey t b < skey t a" "\<forall>b \<in> set vs. skey t a < skey t b"
    and "k < skey t a \<longrightarrow> (\<forall>b \<in> set us. skey t b < k)" "skey t a < k \<longrightarrow> (\<forall>b \<in> set vs. k < skey t b)"
  shows "splay_with t k (us @ a # vs) = (if skey t a = k then Some a else NULL)"
    "k \<in> skey t ` set (us @ a # vs) \<longleftrightarrow> skey t a = k"
proof -
  consider "k < skey t a" | "k = skey t a" | "skey t a < k" by (rule linorder_cases [of k "skey t a"])
  then have "(\<forall>b \<in> set us. skey t b \<noteq> k) \<and> (\<forall>b \<in> set vs. skey t b \<noteq> k)"
    by cases (use assms in \<open>fastforce dest: less_trans\<close>)+
  then have "\<forall>b \<in> set us. skey t b \<noteq> k" "\<forall>b \<in> set vs. skey t b \<noteq> k" by blast+
  then have "filter (\<lambda>a. skey t a = k) us = []" "filter (\<lambda>a. skey t a = k) vs = []" by (auto simp: filter_empty_conv)
  then show "splay_with t k (us @ a # vs) = (if skey t a = k then Some a else NULL)" by (simp add: splay_with_def)
  show "k \<in> skey t ` set (us @ a # vs) \<longleftrightarrow> skey t a = k"
    using \<open>\<forall>b \<in> set us. skey t b \<noteq> k\<close> \<open>\<forall>b \<in> set vs. skey t b \<noteq> k\<close> by auto
qed

text \<open>The root after a splay, and the comparison that the operations make there.\<close>

lemma SPLAY_holds:
  assumes h: "splay_holds t es" and ne: "es \<noteq> []" and k: "sp_keys t e = Some k"
  obtains t' l a r where "SPLAY (Some e) t = Some t'" "splay_shape t' (Node l a r)" "inorder l @ a # inorder r = es"
    "splay_rest t t' (set es)" "splay_cmp t' (Some e) (Some a) = Some (sp_cmp t k (skey t a))"
    "k < skey t a \<longrightarrow> (\<forall>b \<in> set_tree l. skey t b < k)" "skey t a < k \<longrightarrow> (\<forall>b \<in> set_tree r. k < skey t b)"
    "splay_with t k es = (if skey t a = k then Some a else NULL)" "k \<in> skey t ` set es \<longleftrightarrow> skey t a = k"
proof -
  from h obtain x where x: "splay_shape t x" "inorder x = es" by (auto simp: splay_holds_def)
  with ne have "x \<noteq> Leaf" by auto
  then obtain t' l a r where t': "SPLAY (Some e) t = Some t'" "splay_shape t' (Node l a r)"
      "inorder l @ a # inorder r = inorder x" "splay_rest t t' (set_tree x)"
      "k < skey t a \<longrightarrow> (\<forall>b \<in> set_tree l. skey t b < k)" "skey t a < k \<longrightarrow> (\<forall>b \<in> set_tree r. k < skey t b)"
    by (rule SPLAY_sim [OF x(1) _ k])
  have keys: "sp_keys t' = sp_keys t" "sp_cmp t' = sp_cmp t" using t'(4) by (simp_all add: splay_rest_def)
  have cm: "splay_cmp t' (Some e) (Some a) = Some (sp_cmp t k (skey t a))"
  proof -
    from splay_shape_order(3) [OF t'(2)] obtain ka where "sp_keys t' a = Some ka" by blast
    with k keys show ?thesis by (simp add: splay_cmp_def)
  qed
  have es: "inorder l @ a # inorder r = es" using t'(3) x(2) by simp
  have rest: "splay_rest t t' (set es)" using t'(4) x(2) by auto
  have o: "\<forall>b \<in> set (inorder l). skey t b < skey t a" "\<forall>b \<in> set (inorder r). skey t a < skey t b"
    using splay_shape_order(1,2) [OF t'(2)] unfolding keys(1) set_inorder by blast+
  have near: "k < skey t a \<longrightarrow> (\<forall>b \<in> set (inorder l). skey t b < k)" "skey t a < k \<longrightarrow> (\<forall>b \<in> set (inorder r). k < skey t b)"
    using t'(5,6) by simp_all
  from splay_with_mid [OF o near, unfolded es] that [OF t'(1,2) es rest cm t'(5,6)] show thesis by blast
qed

lemma splay_holds_root: "splay_holds t es \<Longrightarrow> sph_root t = NULL \<longleftrightarrow> es = []"
  by (auto simp: splay_holds_def splay_shape_def)

lemma splay_find_correct:
  assumes h: "splay_holds t es" and k: "sp_keys t e = Some k"
  shows "\<exists>t'. SPLAY_FIND (Some e) t = Some (splay_with t k es, t') \<and> splay_holds t' es \<and> splay_rest t t' (set es)"
proof (cases "es = []")
  case True
  then have "sph_root t = NULL" using splay_holds_root [OF h] by simp
  with True h show ?thesis by (simp add: SPLAY_FIND_def SPLAY_EMPTY_def splay_with_def splay_rest_def)
next
  case False
  obtain t' l a r where t': "SPLAY (Some e) t = Some t'" "splay_shape t' (Node l a r)" "inorder l @ a # inorder r = es"
    "splay_rest t t' (set es)" "splay_cmp t' (Some e) (Some a) = Some (sp_cmp t k (skey t a))"
    "splay_with t k es = (if skey t a = k then Some a else NULL)"
    by (rule SPLAY_holds [OF h False k])
  have root: "sph_root t \<noteq> NULL" using splay_holds_root [OF h] False by simp
  have "cmp_ok (sp_cmp t)" using t'(2,4) by (auto simp: splay_shape_def splay_rest_def)
  then have "sp_cmp t k (skey t a) = 0 \<longleftrightarrow> k = skey t a" by (simp add: cmp_ok_def)
  then have "SPLAY_FIND (Some e) t = Some (splay_with t k es, t')"
    using t'(1,5,6) root splay_shape_root(1) [OF t'(2)] by (auto simp: SPLAY_FIND_def SPLAY_EMPTY_def)
  moreover have "splay_holds t' es" using t'(2,3) by (auto simp: splay_holds_def intro!: exI [of _ "Node l a r"])
  ultimately show ?thesis using t'(4) by blast
qed

section \<open>Insertion\<close>

lemma splay_shape_keys: "splay_shape t x \<Longrightarrow> splay_rest t t' A \<Longrightarrow> cmp_ok (sp_cmp t') \<and> sp_fresh t' = sp_fresh t"
  by (auto simp: splay_shape_def splay_rest_def)

lemma splay_insert_root:
  assumes s: "splay_shape t (Node l a r)" and e: "e \<notin> set_tree (Node l a r)" "sp_links t e = Some n" "sp_keys t e = Some k"
    and k: "k < skey t a \<and> (\<forall>b \<in> set_tree l. skey t b < k) \<and> x = Node l e (Node Leaf a r) \<or>
      skey t a < k \<and> (\<forall>b \<in> set_tree r. k < skey t b) \<and> x = Node (Node l a Leaf) e r"
    and t': "t' = t\<lparr>sp_links := (sp_links t)(
        e \<mapsto> (if k < skey t a then \<lparr>spe_left = srt l, spe_right = Some a\<rparr> else \<lparr>spe_left = Some a, spe_right = srt r\<rparr>),
        a \<mapsto> (if k < skey t a then \<lparr>spe_left = NULL, spe_right = srt r\<rparr> else \<lparr>spe_left = srt l, spe_right = NULL\<rparr>)), sph_root := Some e\<rparr>"
  shows "splay_shape t' x \<and> inorder x = insort_key (skey t) e (inorder (Node l a r)) \<and>
    splay_rest t t' (insert e (set_tree (Node l a r)))"
proof -
  have d: "distinct (inorder (Node l a r))" using stree_ok_distinct [of t "Node l a r"] s by (simp only: splay_shape_def)
  have o: "\<forall>b \<in> set_tree l. skey t b < skey t a" "\<forall>b \<in> set_tree r. skey t a < skey t b"
    using splay_shape_order(1,2) [OF s] by blast+
  from k show ?thesis
  proof
    assume k: "k < skey t a \<and> (\<forall>b \<in> set_tree l. skey t b < k) \<and> x = Node l e (Node Leaf a r)"
    have "insort_key (skey t) e (inorder l @ a # inorder r) = inorder l @ e # a # inorder r"
      by (rule insort_mid) (use k e(3) o in \<open>auto intro: less_trans\<close>)
    moreover have "stree_ok t' x" using s k e(3) o by (auto simp: t' splay_shape_def intro: less_trans)
    moreover have "srep (sp_links t') x" using s k e(1) d by (auto simp: t' splay_shape_def)
    ultimately show ?thesis using s k e(1,2) by (auto simp: t' splay_shape_def splay_rest_def)
  next
    assume k: "skey t a < k \<and> (\<forall>b \<in> set_tree r. k < skey t b) \<and> x = Node (Node l a Leaf) e r"
    then have nk: "\<not> k < skey t a" by auto
    have "insort_key (skey t) e ((inorder l @ [a]) @ inorder r) = (inorder l @ [a]) @ e # inorder r"
      by (rule insort_mid) (use k e(3) o in \<open>auto intro: less_trans\<close>)
    moreover have "stree_ok t' x" using s k e(3) o by (auto simp: t' splay_shape_def intro: less_trans)
    moreover have "srep (sp_links t') x" using s k nk e(1) d by (auto simp: t' splay_shape_def)
    ultimately show ?thesis using s k nk e(1,2) by (auto simp: t' splay_shape_def splay_rest_def)
  qed
qed

lemma splay_insert_correct:
  assumes h: "splay_holds t es" and e: "e \<notin> set es" "sp_links t e = Some n" "sp_keys t e = Some k"
  shows "\<exists>t'. SPLAY_INSERT (Some e) t = Some (splay_with t k es, t') \<and>
    splay_holds t' (if k \<in> skey t ` set es then es else insort_key (skey t) e es) \<and> splay_rest t t' (insert e (set es))"
proof (cases "es = []")
  case True
  define t' where "t' = t\<lparr>sp_links := (sp_links t)(e \<mapsto> \<lparr>spe_left = NULL, spe_right = NULL\<rparr>), sph_root := Some e\<rparr>"
  have root: "sph_root t = NULL" using splay_holds_root [OF h] True by simp
  then have "SPLAY_INSERT (Some e) t = Some (NULL, t')"
    using e(2) by (cases n) (simp add: SPLAY_INSERT_def SPLAY_EMPTY_def splay_defs t'_def)
  moreover have "splay_shape t' (Node Leaf e Leaf)"
    using h e True by (auto simp: splay_holds_def splay_shape_def t'_def)
  then have "splay_holds t' [e]" by (auto simp: splay_holds_def intro!: exI [of _ "Node Leaf e Leaf"])
  ultimately show ?thesis using True by (simp add: splay_with_def splay_rest_def t'_def)
next
  case False
  obtain t1 l a r where t1: "SPLAY (Some e) t = Some t1" "splay_shape t1 (Node l a r)" "inorder l @ a # inorder r = es"
    "splay_rest t t1 (set es)" "splay_cmp t1 (Some e) (Some a) = Some (sp_cmp t k (skey t a))"
    "k < skey t a \<longrightarrow> (\<forall>b \<in> set_tree l. skey t b < k)" "skey t a < k \<longrightarrow> (\<forall>b \<in> set_tree r. k < skey t b)"
    "splay_with t k es = (if skey t a = k then Some a else NULL)" "k \<in> skey t ` set es \<longleftrightarrow> skey t a = k"
    by (rule SPLAY_holds [OF h False e(3)])
  have root: "\<not> SPLAY_EMPTY t" using splay_holds_root [OF h] False by (simp add: SPLAY_EMPTY_def)
  have keys: "sp_keys t1 = sp_keys t" using t1(4) by (simp add: splay_rest_def)
  have c: "cmp_ok (sp_cmp t)" using t1(2,4) by (auto simp: splay_shape_def splay_rest_def)
  have se: "set_tree (Node l a r) = set es" using t1(3) by (metis inorder.simps(2) append_Cons append_Nil append_assoc set_inorder)
  have en: "sp_links t1 e = Some n" "sp_keys t1 e = Some k" "e \<notin> set_tree (Node l a r)"
    using t1(4) e se keys by (auto simp: splay_rest_def)
  note start = root t1(1,5) splay_shape_root [OF t1(2)]
  show ?thesis
  proof (cases "skey t a = k")
    case True
    have "sp_cmp t k (skey t a) = 0" using c True by (simp add: cmp_ok_def)
    then have "SPLAY_INSERT (Some e) t = Some (Some a, t1)"
      using start by (simp add: SPLAY_INSERT_def)
    moreover have "splay_holds t1 es" using t1(2,3) by (auto simp: splay_holds_def intro!: exI [of _ "Node l a r"])
    moreover have "splay_rest t t1 (insert e (set es))" using t1(4) by (auto simp: splay_rest_def)
    ultimately show ?thesis using t1(8,9) True by simp
  next
    case ne: False
    define t' where "t' = t1\<lparr>sp_links := (sp_links t1)(
        e \<mapsto> (if k < skey t1 a then \<lparr>spe_left = srt l, spe_right = Some a\<rparr> else \<lparr>spe_left = Some a, spe_right = srt r\<rparr>),
        a \<mapsto> (if k < skey t1 a then \<lparr>spe_left = NULL, spe_right = srt r\<rparr> else \<lparr>spe_left = srt l, spe_right = NULL\<rparr>)), sph_root := Some e\<rparr>"
    have la: "sp_links t1 a = Some \<lparr>spe_left = srt l, spe_right = srt r\<rparr>" "e \<noteq> a" "a \<noteq> e"
      using t1(2) en(3) by (auto simp: splay_shape_def)
    from ne consider (lt) "k < skey t a" | (gt) "skey t a < k" by (metis linorder_less_linear)
    then have "\<exists>x. splay_shape t' x \<and> inorder x = insort_key (skey t1) e (inorder (Node l a r)) \<and>
        splay_rest t1 t' (insert e (set_tree (Node l a r))) \<and> SPLAY_INSERT (Some e) t = Some (NULL, t')"
    proof cases
      case lt
      then have "SPLAY_INSERT (Some e) t = Some (NULL, t')"
        using start cmp_okD(1) [OF c lt] en(1) la keys
        by (cases n) (simp add: SPLAY_INSERT_def splay_defs t'_def fun_upd_twist)
      with splay_insert_root [OF t1(2) en(3,1,2) _ t'_def, of "Node l e (Node Leaf a r)"] lt t1(6) keys show ?thesis by auto
    next
      case gt
      then have "SPLAY_INSERT (Some e) t = Some (NULL, t')"
        using start cmp_okD(2) [OF c gt] en(1) la keys
        by (cases n) (simp add: SPLAY_INSERT_def splay_defs t'_def fun_upd_twist)
      with splay_insert_root [OF t1(2) en(3,1,2) _ t'_def, of "Node (Node l a Leaf) e r"] gt t1(7) keys show ?thesis by auto
    qed
    then obtain x where x: "splay_shape t' x" "inorder x = insort_key (skey t) e es" "splay_rest t1 t' (insert e (set es))"
      "SPLAY_INSERT (Some e) t = Some (NULL, t')" using t1(3) keys se by auto
    have "splay_rest t t' (insert e (set es))" by (rule splay_rest_trans [OF t1(4) x(3)]) auto
    with x ne t1(8,9) show ?thesis by (auto simp: splay_holds_def)
  qed
qed

section \<open>Removal\<close>

lemma splay_shape_sub:
  assumes "splay_shape t (Node l a r)"
  shows "splay_shape (t\<lparr>sph_root := srt l\<rparr>) l" "splay_shape (t\<lparr>sph_root := srt r\<rparr>) r"
  using assms by (simp_all add: splay_shape_def)

text \<open>Joining: the left tree is splayed for a key above all of its own and takes the right tree.\<close>

lemma splay_join:
  assumes s: "splay_shape t (Node l a r)" and l: "l \<noteq> Leaf" and k: "sp_keys t e = Some (skey t a)"
  obtains t1 t' where "SPLAY (Some e) (t\<lparr>sph_root := srt l\<rparr>) = Some t1" "splay_set_right (sph_root t1) (srt r) t1 = Some t'"
    "splay_holds t' (inorder l @ inorder r)" "splay_rest t t' (set_tree l)"
proof -
  let ?t = "t\<lparr>sph_root := srt l\<rparr>"
  have k': "sp_keys ?t e = Some (skey t a)" using k by simp
  obtain t1 l' b r' where t1: "SPLAY (Some e) ?t = Some t1" "splay_shape t1 (Node l' b r')" "inorder l' @ b # inorder r' = inorder l"
      "splay_rest ?t t1 (set_tree l)" "skey ?t b < skey t a \<longrightarrow> (\<forall>c \<in> set_tree r'. skey t a < skey ?t c)"
    by (rule SPLAY_sim [OF splay_shape_sub(1) [OF s] l k'])
  have sl: "set_tree l = set_tree l' \<union> insert b (set_tree r')" using arg_cong [OF t1(3), of set] by auto
  have o: "\<forall>c \<in> set_tree l. skey t c < skey t a" "\<forall>c \<in> set_tree r. skey t a < skey t c"
    using splay_shape_order [OF s] by blast+
  have r': "r' = Leaf"
  proof (rule ccontr)
    assume "r' \<noteq> Leaf"
    then obtain c where "c \<in> set_tree r'" by (cases r') auto
    then have c: "skey t c < skey t a" using o(1) sl by blast
    have "skey t b < skey t a" using o(1) sl by blast
    with t1(5) \<open>c \<in> set_tree r'\<close> have "skey t a < skey t c" by simp
    with c show False by simp
  qed
  have rest: "splay_rest t t1 (set_tree l)" using t1(4) by (simp add: splay_rest_def)
  then have keys: "sp_keys t1 = sp_keys t" by (simp add: splay_rest_def)
  have d: "distinct (inorder (Node l a r))" using stree_ok_distinct [of t "Node l a r"] s by (simp only: splay_shape_def)
  have lb: "sp_links t1 b = Some \<lparr>spe_left = srt l', spe_right = NULL\<rparr>" using t1(2) r' by (simp add: splay_shape_def)
  define t' where "t' = t1\<lparr>sp_links := (sp_links t1)(b \<mapsto> \<lparr>spe_left = srt l', spe_right = srt r\<rparr>)\<rparr>"
  have run: "splay_set_right (sph_root t1) (srt r) t1 = Some t'"
    using lb splay_shape_root(1) [OF t1(2)] by (simp add: splay_defs t'_def)
  have same: "sp_links t1 c = sp_links t c" if "c \<in> set_tree r" for c
    using rest that d by (auto simp: splay_rest_def)
  then have "srep (sp_links t1) r = srep (sp_links t) r"
  proof (induction r)
    case (Node u c v)
    then show ?case by simp
  qed simp
  then have "srep (sp_links t') (Node l' b r)"
    using s t1(2) d sl by (auto simp: splay_shape_def t'_def)
  moreover have "stree_ok t' (Node l' b r)"
    using s t1(2) o sl keys r' stree_ok_inorder [OF refl keys, of r] by (auto simp: splay_shape_def t'_def intro: less_trans)
  ultimately have "splay_shape t' (Node l' b r)"
    using s t1(2) rest sl by (auto simp: splay_shape_def t'_def splay_rest_def)
  then have "splay_holds t' (inorder l @ inorder r)"
    using t1(3) r' by (auto simp: splay_holds_def simp flip: t1(3) intro!: exI [of _ "Node l' b r"])
  moreover have "splay_rest t t' (set_tree l)" using rest sl by (auto simp: splay_rest_def t'_def)
  ultimately show thesis using that [OF t1(1) run] by blast
qed

lemma filter_mid:
  "\<forall>b \<in> set us. f b \<noteq> k \<Longrightarrow> \<forall>b \<in> set vs. f b \<noteq> k \<Longrightarrow> f a = k \<Longrightarrow> filter (\<lambda>b. f b \<noteq> k) (us @ a # vs) = us @ vs"
  by (simp add: filter_id_conv)

lemma splay_remove_correct:
  assumes h: "splay_holds t es" and k: "sp_keys t e = Some k"
  shows "\<exists>t'. SPLAY_REMOVE (Some e) t = Some (if k \<in> skey t ` set es then Some e else NULL, t') \<and>
    splay_holds t' (filter (\<lambda>a. skey t a \<noteq> k) es) \<and> splay_rest t t' (set es)"
proof (cases "es = []")
  case True
  then have "SPLAY_EMPTY t" using splay_holds_root [OF h] by (simp add: SPLAY_EMPTY_def)
  with True h show ?thesis by (simp add: SPLAY_REMOVE_def splay_rest_def)
next
  case False
  obtain t1 l a r where t1: "SPLAY (Some e) t = Some t1" "splay_shape t1 (Node l a r)" "inorder l @ a # inorder r = es"
    "splay_rest t t1 (set es)" "splay_cmp t1 (Some e) (Some a) = Some (sp_cmp t k (skey t a))"
    "k \<in> skey t ` set es \<longleftrightarrow> skey t a = k"
    by (rule SPLAY_holds [OF h False k])
  have root: "\<not> SPLAY_EMPTY t" using splay_holds_root [OF h] False by (simp add: SPLAY_EMPTY_def)
  have keys: "sp_keys t1 = sp_keys t" using t1(4) by (simp add: splay_rest_def)
  have "cmp_ok (sp_cmp t)" using t1(2,4) by (auto simp: splay_shape_def splay_rest_def)
  then have c0: "sp_cmp t k (skey t a) = 0 \<longleftrightarrow> k = skey t a" by (simp add: cmp_ok_def)
  note start = root t1(1,5) splay_shape_root [OF t1(2)]
  show ?thesis
  proof (cases "skey t a = k")
    case ne: False
    then have "filter (\<lambda>a. skey t a \<noteq> k) es = es" using t1(6) by (auto simp: filter_id_conv)
    moreover have "splay_holds t1 es" using t1(2,3) by (auto simp: splay_holds_def intro!: exI [of _ "Node l a r"])
    ultimately show ?thesis using start c0 t1(4,6) ne by (auto simp: SPLAY_REMOVE_def)
  next
    case True
    have o: "\<forall>b \<in> set (inorder l). skey t b \<noteq> k" "\<forall>b \<in> set (inorder r). skey t b \<noteq> k"
      using splay_shape_order [OF t1(2)] True keys by auto
    have fl: "filter (\<lambda>a. skey t a \<noteq> k) es = inorder l @ inorder r"
      using filter_mid [OF o True] t1(3) by simp
    have sub: "set_tree l \<subseteq> set es" using t1(3) by auto
    show ?thesis
    proof (cases "l = Leaf")
      case T: True
      have "splay_holds (t1\<lparr>sph_root := srt r\<rparr>) (inorder r)" using splay_shape_sub(2) [OF t1(2)] by (auto simp: splay_holds_def)
      with T fl start c0 t1(4,6) True show ?thesis by (auto simp: SPLAY_REMOVE_def splay_rest_def)
    next
      case ne: False
      have "sp_keys t1 e = Some (skey t1 a)" using k True keys by simp
      then obtain t2 t3 where t2: "SPLAY (Some e) (t1\<lparr>sph_root := srt l\<rparr>) = Some t2"
          "splay_set_right (sph_root t2) (srt r) t2 = Some t3"
          "splay_holds t3 (inorder l @ inorder r)" "splay_rest t1 t3 (set_tree l)"
        by (rule splay_join [OF t1(2) ne])
      have "SPLAY_REMOVE (Some e) t = Some (Some e, t3)"
        using start c0 True ne t2(1,2) by (simp add: SPLAY_REMOVE_def)
      moreover have "splay_rest t t3 (set es)" by (rule splay_rest_trans [OF t1(4) t2(4) order.refl sub])
      ultimately show ?thesis using fl t1(6) True t2(3) by auto
    qed
  qed
qed

section \<open>Iteration\<close>

lemma splay_leftmost_sim: "srep (sp_links t) x \<Longrightarrow> x \<noteq> Leaf \<Longrightarrow> splay_leftmost t (srt x) = Some (Some (hd (inorder x)))"
proof (induction x)
  case (Node l a r)
  then show ?case by (cases l) (auto simp: splay_leftmost.simps [of t "Some a"] splay_defs hd_append)
qed simp

lemma splay_next_correct:
  assumes h: "splay_holds t (us @ e # vs)"
  shows "\<exists>t'. SPLAY_NEXT (Some e) t = Some (case vs of [] \<Rightarrow> NULL | v # _ \<Rightarrow> Some v, t') \<and>
    splay_holds t' (us @ e # vs) \<and> splay_rest t t' (set (us @ e # vs))"
proof -
  let ?es = "us @ e # vs"
  from h obtain x where x: "splay_shape t x" "inorder x = ?es" by (auto simp: splay_holds_def)
  then have so: "sorted_wrt (\<lambda>a b. skey t a < skey t b) ?es" "\<forall>a \<in> set ?es. sp_keys t a \<noteq> None"
    by (auto simp: splay_shape_def stree_ok_def simp flip: set_inorder)
  then have k: "sp_keys t e = Some (skey t e)" by auto
  obtain t1 l a r where t1: "SPLAY (Some e) t = Some t1" "splay_shape t1 (Node l a r)" "inorder l @ a # inorder r = ?es"
    "splay_rest t t1 (set ?es)" "splay_with t (skey t e) ?es = (if skey t a = skey t e then Some a else NULL)"
    by (rule SPLAY_holds [OF h _ k]) simp
  have "splay_with t (skey t e) ?es = Some e"
    using splay_with_mid(1) [of us t e vs "skey t e"] so(1) by (simp add: sorted_wrt_append)
  with t1(5) have a: "a = e" by (metis option.distinct(1) option.inject)
  have "distinct ?es" using x stree_ok_distinct [of t x] by (simp add: splay_shape_def)
  then have "inorder r = vs" using t1(3) a by (metis append_Cons_eq_iff distinct.simps(2) distinct_append not_distinct_conv_prefix)
  then have "SPLAY_NEXT (Some e) t = Some (case vs of [] \<Rightarrow> NULL | v # _ \<Rightarrow> Some v, t1)"
    using t1(1) splay_shape_root(3) [OF t1(2)] a splay_leftmost_sim [of t1 r] t1(2)
    by (cases r) (auto simp: SPLAY_NEXT_def splay_shape_def split: list.split)
  moreover have "splay_holds t1 ?es" using t1(2,3) by (auto simp: splay_holds_def intro!: exI [of _ "Node l a r"])
  ultimately show ?thesis using t1(4) by blast
qed

lemma splay_visit_correct:
  assumes "splay_holds t (us @ vs)"
  shows "\<exists>t'. splay_visit (case vs of [] \<Rightarrow> NULL | v # _ \<Rightarrow> Some v) t = Some (vs, t') \<and> splay_holds t' (us @ vs)"
  using assms
proof (induction vs arbitrary: us t)
  case (Cons v vs)
  from splay_next_correct [OF Cons.prems] obtain t1 where
    t1: "SPLAY_NEXT (Some v) t = Some (case vs of [] \<Rightarrow> NULL | v # _ \<Rightarrow> Some v, t1)" "splay_holds t1 (us @ v # vs)" by blast
  from Cons.IH [of t1 "us @ [v]"] t1 show ?case by (auto simp: splay_visit.simps [of "Some v" t])
qed (simp add: splay_visit.simps)

lemma splay_foreach_correct:
  assumes h: "splay_holds t es"
  shows "\<exists>t'. SPLAY_FOREACH t = Some (es, t') \<and> splay_holds t' es"
proof (cases es)
  case Nil
  then have "SPLAY_EMPTY t" using splay_holds_root [OF h] by (simp add: SPLAY_EMPTY_def)
  with Nil h show ?thesis by (simp add: SPLAY_FOREACH_def SPLAY_MIN_def splay_visit.simps)
next
  case (Cons e vs)
  have ne: "\<not> SPLAY_EMPTY t" using splay_holds_root [OF h] Cons by (simp add: SPLAY_EMPTY_def)
  from splay_minmax_correct [OF h, of SPLAY_NEGINF] Cons obtain t1 where
    "SPLAY_MIN t = Some (Some e, t1)" "splay_holds t1 es" using ne by (auto simp: SPLAY_MIN_def SPLAY_NEGINF_def)
  with splay_visit_correct [of t1 "[]" es] Cons show ?thesis by (auto simp: SPLAY_FOREACH_def)
qed

end
