(* ===== verification/Bsd_Splay_Properties.thy ===== *)
theory Bsd_Splay_Properties
  imports Bsd_Splay_Ops
begin

text \<open>
  The properties of the splay tree of tree.h, and a tree with the elements 0, 1 and 2 and the loose element
  3 on which they are applied.
\<close>

definition splay_example :: "nat splay" where
  "splay_example =
     \<lparr>sph_root = Some 1, sp_cmp = (\<lambda>a b. int a - int b),
      sp_links = (\<lambda>a. None)(
        0 \<mapsto> \<lparr>spe_left = NULL, spe_right = NULL\<rparr>, 1 \<mapsto> \<lparr>spe_left = Some 0, spe_right = Some 2\<rparr>,
        2 \<mapsto> \<lparr>spe_left = NULL, spe_right = NULL\<rparr>, 3 \<mapsto> \<lparr>spe_left = NULL, spe_right = NULL\<rparr>),
      sp_keys = (\<lambda>a. None)(0 \<mapsto> 5, 1 \<mapsto> 10, 2 \<mapsto> 20, 3 \<mapsto> 7), sp_fresh = 4\<rparr>"

lemma splay_example_holds: "splay_holds splay_example [0, 1, 2]"
  unfolding splay_holds_def
  by (intro exI [of _ "Node (Node Leaf 0 Leaf) 1 (Node Leaf 2 Leaf)"])
    (auto simp: splay_example_def splay_shape_def cmp_ok_def)

lemma splay_example_keys: "sp_keys splay_example = (\<lambda>a. None)(0 \<mapsto> 5, 1 \<mapsto> 10, 2 \<mapsto> 20, 3 \<mapsto> 7)"
  by (simp add: splay_example_def)

section \<open>Properties\<close>

lemma SPLAY_FIND_correct:
  assumes "splay_holds t es" "sp_keys t e = Some k"
  shows "\<exists>t'. SPLAY_FIND (Some e) t = Some (splay_with t k es, t') \<and> splay_holds t' es \<and> splay_rest t t' (set es)"
  by (rule splay_find_correct [OF assms])

lemma SPLAY_FIND_correct_witness: "\<exists>t'. SPLAY_FIND (Some 2) splay_example = Some (Some 2, t')"
  using SPLAY_FIND_correct [OF splay_example_holds, of 2 20] by (auto simp: splay_example_keys splay_with_def)

text \<open>
  C38: SPLAY_INSERT puts an element whose key is new at its place in key order and returns NULL; if
  an element has the key, that element is returned and the elements are as before. Keys and the
  links of other elements do not change.
\<close>

lemma SPLAY_INSERT_correct:
  assumes "splay_holds t es" "e \<notin> set es" "sp_links t e = Some n" "sp_keys t e = Some k"
  shows "\<exists>t'. SPLAY_INSERT (Some e) t = Some (splay_with t k es, t') \<and>
    splay_holds t' (if k \<in> skey t ` set es then es else insort_key (skey t) e es) \<and> splay_rest t t' (insert e (set es))"
  by (rule splay_insert_correct [OF assms])

lemma SPLAY_INSERT_correct_witness:
  "\<exists>t'. SPLAY_INSERT (Some 3) splay_example = Some (NULL, t') \<and> splay_holds t' [0, 3, 1, 2]"
proof -
  have "sp_links splay_example 3 = Some \<lparr>spe_left = NULL, spe_right = NULL\<rparr>" by (simp add: splay_example_def)
  from SPLAY_INSERT_correct [OF splay_example_holds _ this, of 7] show ?thesis
    by (auto simp: splay_example_keys splay_with_def)
qed

text \<open>
  C39: SPLAY_REMOVE takes the element with the key of its argument out of the tree and then returns
  its argument, which may be another element with that key; without such an element it returns NULL.
\<close>

lemma SPLAY_REMOVE_correct:
  assumes "splay_holds t es" "sp_keys t e = Some k"
  shows "\<exists>t'. SPLAY_REMOVE (Some e) t = Some (if k \<in> skey t ` set es then Some e else NULL, t') \<and>
    splay_holds t' (filter (\<lambda>a. skey t a \<noteq> k) es) \<and> splay_rest t t' (set es)"
  by (rule splay_remove_correct [OF assms])

lemma SPLAY_REMOVE_correct_witness:
  "\<exists>t'. SPLAY_REMOVE (Some 1) splay_example = Some (Some 1, t') \<and> splay_holds t' [0, 2]"
  using SPLAY_REMOVE_correct [OF splay_example_holds, of 1 10] by (auto simp: splay_example_keys)

text \<open>
  C40: The iteration over a splay tree ends and visits every element once, in key order, although
  every step restructures the tree.
\<close>

lemma SPLAY_FOREACH_correct:
  assumes "splay_holds t es"
  shows "\<exists>t'. SPLAY_FOREACH t = Some (es, t') \<and> splay_holds t' es"
  by (rule splay_foreach_correct [OF assms])

lemma SPLAY_FOREACH_correct_witness: "\<exists>t'. SPLAY_FOREACH splay_example = Some ([0, 1, 2], t')"
  using SPLAY_FOREACH_correct [OF splay_example_holds] by blast

end
