(* ===== verification/Spec2Isabelle.thy ===== *)
theory Spec2Isabelle
  imports T2u_Properties T2u_Stream_Witnesses T2u_Global_Witnesses T2u_Thread T2u_Log T2u_Control T2u_Start Bsd_Rbtree_Properties Bsd_Splay_Properties
begin

text \<open>
  Verification development for t2u, a tunnel that carries TCP connections over UDP (src/c).

  \<^bold>\<open>The program.\<close> A \<^emph>\<open>context\<close> (t2u_context.c) is one UDP socket to one peer. A \<^emph>\<open>rule\<close> (t2u_rule.c) of a
  context has a service name; a client rule listens on a TCP socket, a server rule has an address to
  connect to. A \<^emph>\<open>session\<close> (t2u_session.c) is one TCP connection of a rule. When a client rule accepts a
  connection, its session sends a connect request; the peer's server rule of the same name connects, and
  answers with a connect response. From then on each side reads TCP data into \<^emph>\<open>messages\<close>
  (t2u_message.c) with sequence numbers, keeps them in a send queue of bounded size until they are
  answered, sends them again on a timer, delivers the peer's packets in order, and keeps early ones in a
  receive queue. Queues, sessions, rules and contexts are looked up in red-black trees (t2u_rbtree.c). All
  contexts share a \<^emph>\<open>runner\<close> (t2u_runner.c), a thread with a libevent loop; other threads have it run
  functions through a pair of control sockets. t2u.c is the interface.

  \<^bold>\<open>Conventions.\<close> A computation that the C code may not be able to complete has an option type: \<^term>\<open>None\<close>
  is undefined behaviour (a NULL or dangling pointer, a read outside an array) or a run that does not
  end, so that a theorem with \<open>= Some w'\<close> says that the code returns without it. Objects that \<open>malloc\<close> gave
  are entries of partial maps from addresses, \<open>free\<close> removes the entry, and a handler that uses a freed
  object yields \<^term>\<open>None\<close>. Integers have the width of the C type. The environment is the record \<open>os\<close> of
  T2u_State: the result of each system call as a function of the number of the call and its arguments;
  \<open>os_ok\<close> says what \<open>recv\<close> and \<open>send\<close> document. Calls that leave the program (datagrams, TCP writes,
  closed sockets, events added and freed) are appended to a trace, \<open>w_out\<close>. There is no fuel: loops are
  structural, have a termination proof, or are partial functions whose termination on well-formed states
  is part of what is proved.

  \<^bold>\<open>Data structures.\<close>
  \<^item> T2u_Prelude: integer types, pointers, the option monad and its lemmas.
  \<^item> Rbtree: t2u_rbtree.c node by node, with parent pointers and colours. Rbtree_Zipper has the same
    balancing as functions on a position in a tree, Rbtree_Repr relates the two, and Rbtree_Insert,
    Rbtree_Delete and Rbtree_Remove follow the pointer code step by step. Rbtree_Correct concludes with the
    contract of a finite map, the locale \<open>rb_store\<close>, which the pointer code interprets; every other
    theory uses the trees through it. Rbtree_Iterate: minimum, maximum, successor, predecessor, and the
    logarithmic bound on a search.
  \<^item> Bsd_Rbtree and Bsd_Splay: the macros of libevent2/include/tree.h for an arbitrary comparison, with
    their simulation and properties in the theories of the same prefix. The red-black macros are proved
    against the functions on positions of Rbtree_Zipper, the splay macros against in-order lists.

  \<^bold>\<open>The model of the program.\<close>
  \<^item> T2u_Wire: the message format and its byte order conversion (t2u_internal.h), for both branches of
    \<open>hton64\<close>.
  \<^item> T2u_State: the structures of t2u_internal.h as records, the state \<open>world\<close>, the system calls.
  \<^item> T2u_Queue, T2u_Close, T2u_Message, T2u_Session, T2u_Find, T2u_Rule, T2u_Context, T2u_Runner, T2u_Api: the
    functions of t2u_message.c, t2u_session.c, t2u_rule.c, t2u_context.c, t2u_runner.c and t2u.c, under
    their own names. A theory may also hold lemmas on the functions of the theories before it.
  \<^item> T2u_Log: the callbacks, and both branches of the macro \<open>LOG_\<close> with the \<open>printf\<close> conversions in use. A log
    callback makes the macro write a line into a buffer of 1024 bytes; \<open>LOG_line\<close> of T2u_State is undefined
    when it does not fit. The three messages that contain strings (a new rule, a deleted rule, an unknown
    service) are calls of it, with the name of the source file that Makefile.linux gives to the compiler.
    The other messages hold numbers and pointers only; they are shorter than 200 bytes, always fit, and
    are left out, as is the mismatch of some of their conversions with the types of the arguments.
    T2u_Thread: t2u_thread.c on both platforms.
  \<^item> T2u_Control and T2u_Start: the two protocols between threads, as step relations: control requests of
    any number of threads, with each of the four socket calls failing at any time, and the start of the
    runner's thread.
  \<^item> T2u_Global: \<open>create_forward\<close> and \<open>free_forward\<close> of t2u.c once more, statement by statement, called by
    any number of threads at the same time.

  \<^bold>\<open>The invariant.\<close> T2u_Inv and T2u_World define \<open>world_ok\<close>: every session is linked to its rule, context and
  runner and registered under its handle; the queues are well-formed trees of live messages whose number
  is the counter of the session; each message belongs to one session; the event structures belong to
  their owners, point back to them and fit the state of the session; the options are in their ranges. The laws of a change to
  one session stand there once and are used by all handlers. Loops that empty a tree are instances of
  one scheme, the locale \<open>drain_loop\<close>.

  \<^bold>\<open>What is proved.\<close>
  \<^item> The handlers, each on every branch: what it does to the queues, the sessions, the trace, and that it
    keeps \<open>world_ok\<close>. Close and Message: deletion, retransmission, responses. Traffic: TCP data. Deliver:
    packets of the peer, as a refinement of an abstract reordering buffer. Lifecycle: connecting,
    establishing, timeouts. Find: the lookup is complete and sound. Teardown and Shutdown: rules, contexts
    and runner are deleted with all that belongs to them. Setup: creation and options. Frame and Dispatch:
    what handlers leave alone; new rules and sessions; datagrams. Lemmas whose name ends in \<open>_spec\<close> give
    a handler's full effect, for use in other proofs.
  \<^item> T2u_Run: the program as one state machine whose inputs are the calls of its interface and the events
    that are pending in libevent. From every reachable state every input that meets \<open>input_ok\<close> returns,
    pointers are live, each session is registered, each message has one owner, and freeing the last context
    leaves nothing. T2u_Dispatch and T2u_Teardown have the conditions under which log messages fit.
  \<^item> T2u_Tunnel: two programs, one receiving what the other sends: the handshake, a packet and its answer
    across both; the failure of the handshake's handle on x86-64, after which no data passes; and a
    duplicate, whose answer does not confirm the packet.
  \<^item> T2u_Stream: two ends of a connection, the datagrams in flight between them, and every sequence of
    pending events at the ends; a datagram in flight may arrive, at any time and again, and any of them
    may be lost. Each end writes a prefix of what the other has read, and what it has not written is
    still in the other's send queue. The invariant of an end speaks of the chunks read so far; the
    handlers enter by their specifications and by T2u_Links, which says what they leave alone. The
    conditions: numbers stay below \<open>2 ^ 32\<close> chunks, so that they do not wrap; a TCP write is complete or
    writes nothing, because the code corrupts a message that is written in part; and both ends have the
    session under a handle that survives the byte order conversion, which the handles of an x86-64
    server do not (T2u_Tunnel).
  \<^item> T2u_Progress: such a connection recovers when everything in flight is lost. While both sessions are
    established and its retries last, the timer of the message with the next chunk is pending and sends
    it again, and the handler of a data request delivers it whatever waits in the receive queue.
  \<^item> T2u_Control: the mutex excludes whatever calls fail, and functions run in the runner's thread only.
    Without failures there is exactly one execution per request, each caller gets its own reply, and the
    holder of the mutex comes to the unlock, or waits for ever once the runner has ended; after a failed
    \<open>recv\<close> callers get the replies of others. T2u_Start: no lost wakeup.
  \<^item> T2u_Global: while one context is kept, concurrent calls are safe, from the contract of the functions
    that add and delete contexts (the locale \<open>context_store\<close>); without that, three races, each as a run
    that reaches the failure.
  \<^item> T2u_Example and the theories named Witnesses: a concrete state with sessions of all kinds and a concrete
    run, on which the properties are applied.

  \<^bold>\<open>Conditions on inputs.\<close> \<open>input_ok\<close> of T2u_Run and \<open>datagram_ok\<close> of T2u_Dispatch list what a caller, the
  counters and a datagram must satisfy for a handler to be free of undefined behaviour: handles passed to
  the interface are live, a service name is registered once, a handle or sequence number about to be used
  is not in use (both are counters of 32 bits), the name in a connect request is terminated within the
  receive buffer, names that are logged while there is a log callback are short enough (900 bytes for a
  rule, 953 for an unknown service), a closing session gets no further packet in sequence, a
  server gets no connect response, and a response to a packet confirms it, reports an error or blocks, or
  leaves a rest that the four-byte move handles. Where the code fails without the condition, a theorem on
  the failing case stands beside the handler (T2u_Deliver, T2u_Message, T2u_Tunnel). The callbacks of the
  user return and do not call the library.

  \<^bold>\<open>Not modelled.\<close> The headers of libevent (libevent2/include/event2) are declarations of a library that is
  not part of the repository, and most of its lines; what the program relies on, namely that an event
  fires only while it is added and that its callback gets the argument it was created with, is in the
  definition of \<open>pending\<close>. The
  test program and the project files have no logic of the tunnel. In T2u_Run the runner executes a
  control function at the time of the call; that this is what the threads observe is the subject of
  T2u_Control. In T2u_Global a control request counts as one step, and so does a call of the interface
  other than the two. Time is the value of the clock at a call; retransmission rates are not modelled.
\<close>

end
